(* ===== verification/Prelude.thy ===== *)
theory Prelude
  imports Complex_Main "HOL-Library.AList"
begin

text \<open>
  What every component shares: Python exceptions as values and the operations that
  sequence them, the insertion-ordered dictionary (an association list updated in place,
  as CPython's \<^verbatim>\<open>dict\<close> keeps its keys), and the facts on them that the component
  proofs use. The collections \<open>res_simps\<close> and \<open>dict_simps\<close> are what \<open>simp add:\<close> and
  \<open>auto simp:\<close> take in the component theories.
\<close>

named_theorems res_simps \<open>sequencing of computations that may raise\<close>
named_theorems dict_simps \<open>lookups in updated dictionaries\<close>

section \<open>Exceptions as values\<close>

text \<open>
  The exception classes that the modelled code raises or lets through. A component's own
  exception classes carry the message the code gives them.
\<close>

datatype py_error =
    TypeError
  | AttributeError
  | KeyError string
  | ValueError string
  | IndexError
  | RuntimeError string
  | JSONDecodeError
  | UnboundLocalError
  | RecursionError
  | IntegrityError
  | CancelledError
  | HTTPException nat string
  | SQLPolicyError string
  | SecretResolutionError string

type_synonym 'a res = "py_error + 'a"

definition rbind :: "'a res \<Rightarrow> ('a \<Rightarrow> 'b res) \<Rightarrow> 'b res" where
  "rbind m f = (case m of Inl e \<Rightarrow> Inl e | Inr x \<Rightarrow> f x)"

definition rmap :: "('a \<Rightarrow> 'b) \<Rightarrow> 'a res \<Rightarrow> 'b res" where
  "rmap f m = (case m of Inl e \<Rightarrow> Inl e | Inr x \<Rightarrow> Inr (f x))"

lemma rbind_simps [simp, res_simps]:
  "rbind (Inl e) f = Inl e"
  "rbind (Inr x) f = f x"
  by (simp_all add: rbind_def)

lemma rmap_simps [simp, res_simps]:
  "rmap g (Inl e) = Inl e"
  "rmap g (Inr x) = Inr (g x)"
  by (simp_all add: rmap_def)

lemma rbind_eq_Inr [res_simps]: "rbind m f = Inr y \<longleftrightarrow> (\<exists>x. m = Inr x \<and> f x = Inr y)"
  by (cases m) simp_all

lemma rmap_eq_Inr [res_simps]: "rmap f m = Inr y \<longleftrightarrow> (\<exists>x. m = Inr x \<and> y = f x)"
  by (cases m) auto

text \<open>What holds of every result of a computation that does not raise, pushed through its
  sequence of steps: \<open>intro rpost_bindI rpost_ifI\<close> reduces a statement on an operation to
  statements on the operations it calls.\<close>

definition rpost :: "'a res \<Rightarrow> ('a \<Rightarrow> bool) \<Rightarrow> bool" where
  "rpost m Q = (\<forall>x. m = Inr x \<longrightarrow> Q x)"

lemma rpostI: "(\<And>x. m = Inr x \<Longrightarrow> Q x) \<Longrightarrow> rpost m Q"
  by (simp add: rpost_def)

lemma rpostD: "rpost m Q \<Longrightarrow> m = Inr x \<Longrightarrow> Q x"
  by (simp add: rpost_def)

lemma rpost_bindI: "(\<And>x. m = Inr x \<Longrightarrow> rpost (f x) Q) \<Longrightarrow> rpost (rbind m f) Q"
  by (cases m) (simp_all add: rpost_def)

lemma rpost_Inr [simp]: "rpost (Inr x) Q = Q x"
  by (simp add: rpost_def)

lemma rpost_Inl [simp]: "rpost (Inl e) Q"
  by (simp add: rpost_def)

lemma rpost_ifI: "(b \<Longrightarrow> rpost m Q) \<Longrightarrow> (\<not> b \<Longrightarrow> rpost n Q) \<Longrightarrow> rpost (if b then m else n) Q"
  by simp

lemma rbind_cong [fundef_cong]:
  "m = m' \<Longrightarrow> (\<And>x. m' = Inr x \<Longrightarrow> f x = f' x) \<Longrightarrow> rbind m f = rbind m' f'"
  by (cases m') simp_all

text \<open>A \<^verbatim>\<open>for\<close> loop whose body may raise: over a list that yields results, over a list
  that keeps some elements, and with an accumulator.\<close>

fun rmapM :: "('a \<Rightarrow> 'b res) \<Rightarrow> 'a list \<Rightarrow> 'b list res" where
  "rmapM f [] = Inr []"
| "rmapM f (x # xs) = rbind (f x) (\<lambda>y. rbind (rmapM f xs) (\<lambda>ys. Inr (y # ys)))"

fun rfilterM :: "('a \<Rightarrow> bool res) \<Rightarrow> 'a list \<Rightarrow> 'a list res" where
  "rfilterM p [] = Inr []"
| "rfilterM p (x # xs) =
     rbind (p x) (\<lambda>b. rbind (rfilterM p xs) (\<lambda>ys. Inr (if b then x # ys else ys)))"

fun rfoldM :: "('s \<Rightarrow> 'a \<Rightarrow> 's res) \<Rightarrow> 's \<Rightarrow> 'a list \<Rightarrow> 's res" where
  "rfoldM f s [] = Inr s"
| "rfoldM f s (x # xs) = rbind (f s x) (\<lambda>s'. rfoldM f s' xs)"

text \<open>\<^verbatim>\<open>any(...)\<close> and a loop that returns True at the first hit: later elements are not
  looked at, so their errors do not show.\<close>

fun ranyM :: "('a \<Rightarrow> bool res) \<Rightarrow> 'a list \<Rightarrow> bool res" where
  "ranyM p [] = Inr False"
| "ranyM p (x # xs) = rbind (p x) (\<lambda>b. if b then Inr True else ranyM p xs)"

lemma rmapM_cong [fundef_cong]:
  "xs = ys \<Longrightarrow> (\<And>x. x \<in> set ys \<Longrightarrow> f x = g x) \<Longrightarrow> rmapM f xs = rmapM g ys"
  by (induction ys arbitrary: xs) auto

lemma rmapM_total: "(\<And>x. x \<in> set xs \<Longrightarrow> f x = Inr (g x)) \<Longrightarrow> rmapM f xs = Inr (map g xs)"
  by (induction xs) auto

lemma rfilterM_total:
  "(\<And>x. x \<in> set xs \<Longrightarrow> p x = Inr (q x)) \<Longrightarrow> rfilterM p xs = Inr (filter q xs)"
  by (induction xs) auto

lemma ranyM_total:
  "(\<And>x. x \<in> set xs \<Longrightarrow> p x = Inr (q x)) \<Longrightarrow> ranyM p xs = Inr (\<exists>x\<in>set xs. q x)"
  by (induction xs) auto

lemma rmapM_length: "rmapM f xs = Inr ys \<Longrightarrow> length ys = length xs"
  by (induction xs arbitrary: ys) (auto simp: res_simps)

lemma rmapM_nth:
  "rmapM f xs = Inr ys \<Longrightarrow> i < length xs \<Longrightarrow> f (xs ! i) = Inr (ys ! i)"
  by (induction xs arbitrary: ys i) (auto simp: res_simps nth_Cons split: nat.splits)

lemma rfilterM_subset: "rfilterM p xs = Inr ys \<Longrightarrow> y \<in> set ys \<Longrightarrow> y \<in> set xs \<and> p y = Inr True"
  by (induction xs arbitrary: ys) (auto simp: res_simps split: if_splits)

text \<open>The loop rule of \<open>rfoldM\<close>: what each iteration keeps, the loop keeps.\<close>

lemma rfoldM_invariant:
  assumes "rfoldM f s xs = Inr t" and "P s"
    and "\<And>s x s'. P s \<Longrightarrow> x \<in> set xs \<Longrightarrow> f s x = Inr s' \<Longrightarrow> P s'"
  shows "P t"
  using assms
proof (induction xs arbitrary: s)
  case Nil
  then show ?case by simp
next
  case (Cons x xs)
  from Cons.prems(1) obtain s' where "f s x = Inr s'" and "rfoldM f s' xs = Inr t"
    by (auto simp: res_simps)
  moreover from this Cons.prems have "P s'" by (meson list.set_intros(1))
  ultimately show ?case using Cons.IH Cons.prems(3) by (meson list.set_intros(2))
qed

lemma rfoldM_total: "(\<And>s x. x \<in> set xs \<Longrightarrow> f s x = Inr (g s x)) \<Longrightarrow> rfoldM f s xs = Inr (foldl g s xs)"
  by (induction xs arbitrary: s) simp_all

lemma rmapM_append: "rmapM g (xs @ ys) = rbind (rmapM g xs) (\<lambda>as. rbind (rmapM g ys) (\<lambda>bs. Inr (as @ bs)))"
  by (induction xs) (auto simp: rbind_def split: sum.splits)

lemma rmapM_all2:
  "rmapM g xs = Inr ys \<Longrightarrow> (\<And>x y. x \<in> set xs \<Longrightarrow> g x = Inr y \<Longrightarrow> P x y) \<Longrightarrow> list_all2 P xs ys"
  by (induction xs arbitrary: ys) (auto simp: rbind_eq_Inr)

lemma rfoldM_append: "rfoldM f s (xs @ ys) = rbind (rfoldM f s xs) (\<lambda>t. rfoldM f t ys)"
  by (induction xs arbitrary: s) (auto simp: rbind_def split: sum.splits)

section \<open>Insertion-ordered dictionaries\<close>

text \<open>
  \<open>d[k] = v\<close> keeps the position of a key that is already there and appends a new one:
  \<open>AList.update\<close>. \<open>del d[k]\<close> is \<open>AList.delete\<close>.
\<close>

type_synonym ('k, 'v) od = "('k \<times> 'v) list"

abbreviation od_get :: "('k, 'v) od \<Rightarrow> 'k \<Rightarrow> 'v option" where
  "od_get d k \<equiv> map_of d k"

abbreviation od_set :: "'k \<Rightarrow> 'v \<Rightarrow> ('k, 'v) od \<Rightarrow> ('k, 'v) od" where
  "od_set \<equiv> AList.update"

abbreviation od_del :: "'k \<Rightarrow> ('k, 'v) od \<Rightarrow> ('k, 'v) od" where
  "od_del \<equiv> AList.delete"

definition od_has :: "('k, 'v) od \<Rightarrow> 'k \<Rightarrow> bool" where
  "od_has d k = (map_of d k \<noteq> None)"

definition od_keys :: "('k, 'v) od \<Rightarrow> 'k list" where
  "od_keys d = map fst d"

definition od_ok :: "('k, 'v) od \<Rightarrow> bool" where
  "od_ok d = distinct (map fst d)"

text \<open>\<^verbatim>\<open>d.get(k, default)\<close>\<close>

definition od_getd :: "('k, 'v) od \<Rightarrow> 'k \<Rightarrow> 'v \<Rightarrow> 'v" where
  "od_getd d k v = (case map_of d k of None \<Rightarrow> v | Some w \<Rightarrow> w)"

text \<open>\<^verbatim>\<open>{**a, **b}\<close> and \<^verbatim>\<open>a.update(b)\<close>\<close>

fun od_merge :: "('k, 'v) od \<Rightarrow> ('k, 'v) od \<Rightarrow> ('k, 'v) od" where
  "od_merge a [] = a"
| "od_merge a ((k, v) # b) = od_merge (od_set k v a) b"

lemma od_get_set [simp, dict_simps]:
  "od_get (od_set k v d) k' = (if k' = k then Some v else od_get d k')"
  by (simp add: update_conv')

lemma od_get_del [simp, dict_simps]:
  "od_get (od_del k d) k' = (if k' = k then None else od_get d k')"
  by (simp add: delete_conv')

lemma od_getd_set [simp, dict_simps]:
  "od_getd (od_set k v d) k' w = (if k' = k then v else od_getd d k' w)"
  by (simp add: od_getd_def)

lemma od_getd_del [simp, dict_simps]:
  "od_getd (od_del k d) k' v = (if k' = k then v else od_getd d k' v)"
  by (simp add: od_getd_def)

lemma od_getd_Nil [simp, dict_simps]: "od_getd [] k v = v"
  by (simp add: od_getd_def)

lemma od_getd_Cons [simp, dict_simps]:
  "od_getd ((k', w) # d) k v = (if k = k' then w else od_getd d k v)"
  by (simp add: od_getd_def)

lemma od_has_set [simp, dict_simps]: "od_has (od_set k v d) k' = (k' = k \<or> od_has d k')"
  by (simp add: od_has_def)

lemma od_has_iff: "od_has d k \<longleftrightarrow> k \<in> fst ` set d"
  by (simp add: od_has_def map_of_eq_None_iff)

lemma od_ok_set [simp, intro, dict_simps]: "od_ok d \<Longrightarrow> od_ok (od_set k v d)"
  by (simp add: od_ok_def distinct_update)

lemma od_ok_del [simp, intro, dict_simps]: "od_ok d \<Longrightarrow> od_ok (od_del k d)"
  by (simp add: od_ok_def distinct_delete)

lemma od_ok_Nil [simp, dict_simps]: "od_ok []"
  by (simp add: od_ok_def)

lemma od_ok_merge [simp, intro, dict_simps]: "od_ok a \<Longrightarrow> od_ok (od_merge a b)"
  by (induction a b rule: od_merge.induct) auto

lemma od_keys_set: "od_keys (od_set k v d) = (if od_has d k then od_keys d else od_keys d @ [k])"
  by (auto simp: od_keys_def od_has_iff update_keys)

lemma od_get_merge:
  "od_ok b \<Longrightarrow> od_get (od_merge a b) k = (case od_get b k of Some v \<Rightarrow> Some v | None \<Rightarrow> od_get a k)"
proof (induction a b rule: od_merge.induct)
  case (1 a)
  then show ?case by simp
next
  case (2 a k' v b)
  then have "od_ok b" and "od_get b k' = None"
    by (auto simp: od_ok_def map_of_eq_None_iff)
  with 2 show ?case by (auto split: option.splits)
qed

section \<open>Small facts on lists\<close>

lemma distinct_map_filter [simp]: "distinct (map f xs) \<Longrightarrow> distinct (map f (filter p xs))"
  by (induction xs) auto

lemma sum_list_filter_le: "sum_list (map f (filter p xs)) \<le> sum_list (map (f :: 'a \<Rightarrow> nat) xs)"
  by (induction xs) auto

text \<open>What a loop keeps that skips some of its elements\<close>

fun somes :: "'a option list \<Rightarrow> 'a list" where
  "somes [] = []"
| "somes (None # xs) = somes xs"
| "somes (Some x # xs) = x # somes xs"

lemma set_somes: "x \<in> set (somes xs) \<longleftrightarrow> Some x \<in> set xs"
  by (induction xs rule: somes.induct) auto

lemma somes_map_Some: "(\<And>x. x \<in> set xs \<Longrightarrow> g x = Some x) \<Longrightarrow> somes (map g xs) = xs"
  by (induction xs) simp_all

lemma somes_append [simp]: "somes (xs @ ys) = somes xs @ somes ys"
  by (induction xs rule: somes.induct) auto

text \<open>\<^verbatim>\<open>list(dict.fromkeys(xs))\<close>: the first occurrence of every element, in order.\<close>

fun dedup_acc :: "'a list \<Rightarrow> 'a list \<Rightarrow> 'a list" where
  "dedup_acc seen [] = []"
| "dedup_acc seen (x # xs) =
     (if x \<in> set seen then dedup_acc seen xs else x # dedup_acc (x # seen) xs)"

definition dedup :: "'a list \<Rightarrow> 'a list" where
  "dedup xs = dedup_acc [] xs"

lemma set_dedup_acc: "set (dedup_acc seen xs) = set xs - set seen"
  by (induction seen xs rule: dedup_acc.induct) auto

lemma distinct_dedup_acc: "distinct (dedup_acc seen xs)"
  by (induction seen xs rule: dedup_acc.induct) (auto simp: set_dedup_acc)

lemma dedup_simps [simp]: "set (dedup xs) = set xs" "distinct (dedup xs)"
  by (simp_all add: dedup_def set_dedup_acc distinct_dedup_acc)

end
