(* ===== verification/Py_Value.thy ===== *)
theory Py_Value
  imports Prelude
begin

text \<open>
  The part of Python's data model that the program handles dynamically: JSON-like values
  (\<open>pv\<close>), their truth value, \<^verbatim>\<open>.get\<close>, indexing, membership and iteration with the
  exceptions they raise on the wrong type, and the string methods the program calls.
  A string is a list of characters with code points below 256; case conversion is that of
  ASCII letters. A float is the rational number it denotes, and the operations that round
  take the rounding as an argument.
\<close>

section \<open>Strings\<close>

definition is_space :: "char \<Rightarrow> bool" where
  "is_space c = (let n = (of_char c :: nat) in
     n = 32 \<or> (9 \<le> n \<and> n \<le> 13) \<or> (28 \<le> n \<and> n \<le> 31) \<or> n = 133 \<or> n = 160)"

definition lower_char :: "char \<Rightarrow> char" where
  "lower_char c = (let n = (of_char c :: nat) in if 65 \<le> n \<and> n \<le> 90 then char_of (n + 32) else c)"

definition upper_char :: "char \<Rightarrow> char" where
  "upper_char c = (let n = (of_char c :: nat) in if 97 \<le> n \<and> n \<le> 122 then char_of (n - 32) else c)"

definition is_digit_char :: "char \<Rightarrow> bool" where
  "is_digit_char c = (let n = (of_char c :: nat) in 48 \<le> n \<and> n \<le> 57)"

definition py_lower :: "string \<Rightarrow> string" where
  "py_lower = map lower_char"

definition py_upper :: "string \<Rightarrow> string" where
  "py_upper = map upper_char"

definition py_lstrip :: "string \<Rightarrow> string" where
  "py_lstrip s = dropWhile is_space s"

definition py_rstrip :: "string \<Rightarrow> string" where
  "py_rstrip s = rev (dropWhile is_space (rev s))"

definition py_strip :: "string \<Rightarrow> string" where
  "py_strip s = py_rstrip (py_lstrip s)"

text \<open>\<^verbatim>\<open>s.rstrip(c)\<close> for a single character\<close>

definition py_rstrip_char :: "char \<Rightarrow> string \<Rightarrow> string" where
  "py_rstrip_char c s = rev (dropWhile (\<lambda>x. x = c) (rev s))"

definition py_startswith :: "string \<Rightarrow> string \<Rightarrow> bool" where
  "py_startswith s p = (take (length p) s = p)"

definition py_endswith :: "string \<Rightarrow> string \<Rightarrow> bool" where
  "py_endswith s p = (length p \<le> length s \<and> drop (length s - length p) s = p)"

text \<open>\<^verbatim>\<open>p in s\<close> for strings\<close>

fun py_contains :: "string \<Rightarrow> string \<Rightarrow> bool" where
  "py_contains [] p = (p = [])"
| "py_contains (c # s) p = (py_startswith (c # s) p \<or> py_contains s p)"

text \<open>\<^verbatim>\<open>s.split(c)\<close> for a single character: never empty\<close>

fun py_split :: "char \<Rightarrow> string \<Rightarrow> string list" where
  "py_split c [] = [[]]"
| "py_split c (x # s) =
     (if x = c then [] # py_split c s
      else (case py_split c s of [] \<Rightarrow> [[x]] | w # ws \<Rightarrow> (x # w) # ws))"

fun py_join :: "string \<Rightarrow> string list \<Rightarrow> string" where
  "py_join sep [] = []"
| "py_join sep [w] = w"
| "py_join sep (w # ws) = w @ sep @ py_join sep ws"

definition nl :: string where
  "nl = [CHR 0x0A]"

lemma py_split_nonempty [simp]: "py_split c s \<noteq> []"
  by (cases s) (auto split: list.splits)

lemma py_join_split [simp]: "py_join [c] (py_split c s) = s"
proof (induction s)
  case Nil
  then show ?case by simp
next
  case (Cons x s)
  show ?case
  proof (cases "py_split c s")
    case Nil
    then show ?thesis by simp
  next
    case (Cons w ws)
    with Cons.IH show ?thesis by (cases ws) auto
  qed
qed

lemma split_append: "py_split c (xs @ c # ys) = py_split c xs @ py_split c ys"
  by (induction xs) (auto split: list.splits)

lemma split_no_sep: "c \<notin> set w \<Longrightarrow> py_split c w = [w]"
  by (induction w) auto

lemma split_parts: "w \<in> set (py_split c s) \<Longrightarrow> c \<notin> set w"
  by (induction s arbitrary: w) (auto split: list.splits if_splits)

lemma split_join: "ws \<noteq> [] \<Longrightarrow> \<forall>w\<in>set ws. c \<notin> set w \<Longrightarrow> py_split c (py_join [c] ws) = ws"
proof (induction ws)
  case (Cons w ws)
  then show ?case
    by (cases ws) (simp_all add: split_append split_no_sep)
qed simp

lemma py_startswith_append [simp]: "py_startswith (p @ s) p"
  by (simp add: py_startswith_def)

lemma py_startswith_iff: "py_startswith s p \<longleftrightarrow> (\<exists>t. s = p @ t)"
  by (auto simp: py_startswith_def) (metis append_take_drop_id)

lemma py_endswith_append [simp]: "py_endswith (s @ p) p"
  by (simp add: py_endswith_def)

lemma py_endswith_iff: "py_endswith s p \<longleftrightarrow> (\<exists>t. s = t @ p)"
  by (auto simp: py_endswith_def) (metis append_take_drop_id)

lemma py_endswith_Nil [simp]: "py_endswith s []"
  by (simp add: py_endswith_def)

lemma py_endswith_self [simp]: "py_endswith s s"
  by (simp add: py_endswith_def)

fun nat_digits :: "nat \<Rightarrow> string" where
  "nat_digits n = (if n < 10 then [char_of (48 + n)] else nat_digits (n div 10) @ [char_of (48 + n mod 10)])"

declare nat_digits.simps [simp del]

definition py_str_int :: "int \<Rightarrow> string" where
  "py_str_int i = (if i < 0 then CHR ''-'' # nat_digits (nat (- i)) else nat_digits (nat i))"

section \<open>Values\<close>

datatype pv =
    PNone
  | PBool bool
  | PInt int
  | PFlt rat
  | PStr string
  | PList "pv list"
  | PDict "(string \<times> pv) list"

type_synonym pdict = "(string, pv) od"

fun truthy :: "pv \<Rightarrow> bool" where
  "truthy PNone = False"
| "truthy (PBool b) = b"
| "truthy (PInt i) = (i \<noteq> 0)"
| "truthy (PFlt x) = (x \<noteq> 0)"
| "truthy (PStr s) = (s \<noteq> [])"
| "truthy (PList xs) = (xs \<noteq> [])"
| "truthy (PDict d) = (d \<noteq> [])"

text \<open>\<^verbatim>\<open>a or b\<close>\<close>

definition py_or :: "pv \<Rightarrow> pv \<Rightarrow> pv" where
  "py_or a b = (if truthy a then a else b)"

definition is_str :: "pv \<Rightarrow> bool" where
  "is_str v = (case v of PStr _ \<Rightarrow> True | _ \<Rightarrow> False)"

definition is_list :: "pv \<Rightarrow> bool" where
  "is_list v = (case v of PList _ \<Rightarrow> True | _ \<Rightarrow> False)"

definition is_dict :: "pv \<Rightarrow> bool" where
  "is_dict v = (case v of PDict _ \<Rightarrow> True | _ \<Rightarrow> False)"

lemma is_str_simps [simp]: "is_str (PStr s)" "\<not> is_str PNone" "\<not> is_str (PBool b)"
  "\<not> is_str (PInt i)" "\<not> is_str (PFlt x)" "\<not> is_str (PList xs)" "\<not> is_str (PDict d)"
  by (simp_all add: is_str_def)

lemma is_list_simps [simp]: "is_list (PList xs)" "\<not> is_list PNone" "\<not> is_list (PBool b)"
  "\<not> is_list (PInt i)" "\<not> is_list (PFlt x)" "\<not> is_list (PStr s)" "\<not> is_list (PDict d)"
  by (simp_all add: is_list_def)

lemma is_dict_simps [simp]: "is_dict (PDict d)" "\<not> is_dict PNone" "\<not> is_dict (PBool b)"
  "\<not> is_dict (PInt i)" "\<not> is_dict (PFlt x)" "\<not> is_dict (PStr s)" "\<not> is_dict (PList xs)"
  by (simp_all add: is_dict_def)

text \<open>\<^verbatim>\<open>d.get(k, dflt)\<close>: only a dict has it.\<close>

definition pget :: "pv \<Rightarrow> string \<Rightarrow> pv \<Rightarrow> pv res" where
  "pget v k dflt = (case v of PDict d \<Rightarrow> Inr (od_getd d k dflt) | _ \<Rightarrow> Inl AttributeError)"

text \<open>\<^verbatim>\<open>v[k]\<close> with a string key\<close>

definition pidx :: "pv \<Rightarrow> string \<Rightarrow> pv res" where
  "pidx v k = (case v of
      PDict d \<Rightarrow> (case od_get d k of None \<Rightarrow> Inl (KeyError k) | Some w \<Rightarrow> Inr w)
    | _ \<Rightarrow> Inl TypeError)"

text \<open>\<^verbatim>\<open>k in v\<close> with a string \<^verbatim>\<open>k\<close>\<close>

definition pin :: "string \<Rightarrow> pv \<Rightarrow> bool res" where
  "pin k v = (case v of
      PDict d \<Rightarrow> Inr (od_has d k)
    | PList xs \<Rightarrow> Inr (PStr k \<in> set xs)
    | PStr s \<Rightarrow> Inr (py_contains s k)
    | _ \<Rightarrow> Inl TypeError)"

text \<open>The elements that a \<^verbatim>\<open>for\<close> loop goes through\<close>

definition piter :: "pv \<Rightarrow> pv list res" where
  "piter v = (case v of
      PList xs \<Rightarrow> Inr xs
    | PDict d \<Rightarrow> Inr (map (PStr \<circ> fst) d)
    | PStr s \<Rightarrow> Inr (map (\<lambda>c. PStr [c]) s)
    | _ \<Rightarrow> Inl TypeError)"

text \<open>\<^verbatim>\<open>v.items()\<close>\<close>

definition pitems :: "pv \<Rightarrow> (string \<times> pv) list res" where
  "pitems v = (case v of PDict d \<Rightarrow> Inr d | _ \<Rightarrow> Inl AttributeError)"

text \<open>\<^verbatim>\<open>v[k] = x\<close> with a string key\<close>

definition pset :: "pv \<Rightarrow> string \<Rightarrow> pv \<Rightarrow> pv res" where
  "pset v k x = (case v of PDict d \<Rightarrow> Inr (PDict (od_set k x d)) | _ \<Rightarrow> Inl TypeError)"

text \<open>A method of \<^verbatim>\<open>str\<close>: anything else has no such attribute.\<close>

definition pstr :: "pv \<Rightarrow> string res" where
  "pstr v = (case v of PStr s \<Rightarrow> Inr s | _ \<Rightarrow> Inl AttributeError)"

text \<open>The string that a value is, if it is one\<close>

fun as_str :: "pv \<Rightarrow> string option" where
  "as_str (PStr s) = Some s"
| "as_str _ = None"

lemma as_str_eq_Some [simp]: "as_str v = Some s \<longleftrightarrow> v = PStr s"
  by (cases v) auto

text \<open>The integer that a value is, truth values among them\<close>

definition as_int :: "pv \<Rightarrow> int option" where
  "as_int v = (case v of PInt i \<Rightarrow> Some i | PBool b \<Rightarrow> Some (if b then 1 else 0) | _ \<Rightarrow> None)"

text \<open>String concatenation \<^verbatim>\<open>s + v\<close>\<close>

definition pconcat :: "string \<Rightarrow> pv \<Rightarrow> string res" where
  "pconcat s v = (case v of PStr t \<Rightarrow> Inr (s @ t) | _ \<Rightarrow> Inl TypeError)"

lemma pget_dict [simp]: "pget (PDict d) k w = Inr (od_getd d k w)"
  by (simp add: pget_def)

lemma pget_not_dict [simp]: "\<not> is_dict v \<Longrightarrow> pget v k w = Inl AttributeError"
  by (cases v) (simp_all add: pget_def)

lemma pget_eq_Inr: "pget v k w = Inr x \<longleftrightarrow> (\<exists>d. v = PDict d \<and> x = od_getd d k w)"
  by (cases v) (auto simp: pget_def)

lemma pset_dict [simp]: "pset (PDict d) k x = Inr (PDict (od_set k x d))"
  by (simp add: pset_def)

lemma pset_eq_Inr: "pset v k x = Inr w \<longleftrightarrow> (\<exists>d. v = PDict d \<and> w = PDict (od_set k x d))"
  by (cases v) (auto simp: pset_def)

lemma pin_dict [simp]: "pin k (PDict d) = Inr (od_has d k)"
  by (simp add: pin_def)

lemma piter_list [simp]: "piter (PList xs) = Inr xs"
  by (simp add: piter_def)

lemma pidx_dict: "pidx (PDict d) k = (case od_get d k of None \<Rightarrow> Inl (KeyError k) | Some w \<Rightarrow> Inr w)"
  by (simp add: pidx_def)

lemma pstr_simps [simp]: "pstr (PStr s) = Inr s"
  by (simp add: pstr_def)

lemma py_or_simps [simp]: "truthy a \<Longrightarrow> py_or a b = a" "\<not> truthy a \<Longrightarrow> py_or a b = b"
  by (simp_all add: py_or_def)

section \<open>Keys of sets and dictionaries\<close>

text \<open>Values that are equal as keys have one representative: numbers and truth values that
  denote the same number are the same key; lists and dictionaries have no hash.\<close>

definition hash_key :: "pv \<Rightarrow> pv res" where
  "hash_key v = (case v of
      PBool b \<Rightarrow> Inr (PInt (if b then 1 else 0))
    | PFlt x \<Rightarrow> Inr (if of_int \<lfloor>x\<rfloor> = x then PInt \<lfloor>x\<rfloor> else v)
    | PList _ \<Rightarrow> Inl TypeError
    | PDict _ \<Rightarrow> Inl TypeError
    | _ \<Rightarrow> Inr v)"

text \<open>\<^verbatim>\<open>d.get(k)\<close> for any key: the keys of the dictionaries are strings.\<close>

definition pget_key :: "pv \<Rightarrow> pv \<Rightarrow> pv res" where
  "pget_key d k = (case d of
      PDict m \<Rightarrow> rbind (hash_key k) (\<lambda>h. Inr (case h of PStr s \<Rightarrow> od_getd m s PNone | _ \<Rightarrow> PNone))
    | _ \<Rightarrow> Inl AttributeError)"

lemma hash_key_str [simp]: "hash_key (PStr s) = Inr (PStr s)"
  by (simp add: hash_key_def)

lemma hash_key_None [simp]: "hash_key PNone = Inr PNone"
  by (simp add: hash_key_def)

lemma pget_key_str [simp]: "pget_key (PDict m) (PStr s) = Inr (od_getd m s PNone)"
  by (simp add: pget_key_def)

section \<open>Text of values\<close>

text \<open>\<^verbatim>\<open>repr\<close> of a string: single quotes unless only those occur in it; \<open>frepr\<close> is the text of a
  float.\<close>

definition py_hex :: "nat \<Rightarrow> char" where
  "py_hex n = (if n < 10 then char_of (48 + n) else char_of (87 + n))"

definition repr_char :: "char \<Rightarrow> char \<Rightarrow> string" where
  "repr_char q c = (let n = (of_char c :: nat) in
     if c = q \<or> c = CHR 0x5C then [CHR 0x5C, c]
     else if c = CHR 0x0A then [CHR 0x5C, CHR ''n'']
     else if c = CHR 0x0D then [CHR 0x5C, CHR ''r'']
     else if c = CHR 0x09 then [CHR 0x5C, CHR ''t'']
     else if n < 32 \<or> (127 \<le> n \<and> n \<le> 160) \<or> n = 173
       then [CHR 0x5C, CHR ''x'', py_hex (n div 16), py_hex (n mod 16)]
     else [c])"

definition repr_str :: "string \<Rightarrow> string" where
  "repr_str s = (let q = (if CHR 0x27 \<in> set s \<and> CHR 0x22 \<notin> set s then CHR 0x22 else CHR 0x27)
     in q # concat (map (repr_char q) s) @ [q])"

fun py_repr :: "(rat \<Rightarrow> string) \<Rightarrow> pv \<Rightarrow> string"
  and repr_list :: "(rat \<Rightarrow> string) \<Rightarrow> pv list \<Rightarrow> string"
  and repr_dict :: "(rat \<Rightarrow> string) \<Rightarrow> (string \<times> pv) list \<Rightarrow> string" where
  "py_repr f PNone = ''None''"
| "py_repr f (PBool b) = (if b then ''True'' else ''False'')"
| "py_repr f (PInt i) = py_str_int i"
| "py_repr f (PFlt x) = f x"
| "py_repr f (PStr s) = repr_str s"
| "py_repr f (PList xs) = CHR ''['' # repr_list f xs @ '']''"
| "py_repr f (PDict d) = CHR ''{'' # repr_dict f d @ ''}''"
| "repr_list f [] = []"
| "repr_list f (x # xs) = py_repr f x @ (if xs = [] then [] else '', '' @ repr_list f xs)"
| "repr_dict f [] = []"
| "repr_dict f ((k, v) # d) = repr_str k @ '': '' @ py_repr f v @ (if d = [] then [] else '', '' @ repr_dict f d)"

definition py_str :: "(rat \<Rightarrow> string) \<Rightarrow> pv \<Rightarrow> string" where
  "py_str f v = (case v of PStr s \<Rightarrow> s | _ \<Rightarrow> py_repr f v)"

section \<open>Floats\<close>

text \<open>
  What the interpreter's floats give: the text of a float, the float of a text for \<^verbatim>\<open>float\<close>
  and for JSON, the float nearest to an integer and to a rational number.
\<close>

record float_ops =
  fl_repr :: "rat \<Rightarrow> string"
  fl_str :: "string \<Rightarrow> rat option"
  fl_read :: "string \<Rightarrow> rat"
  fl_int :: "int \<Rightarrow> rat"
  fl_round :: "rat \<Rightarrow> rat"

section \<open>Conversions to numbers\<close>

text \<open>\<^verbatim>\<open>int(s)\<close>: white space around, a sign, digits with single underscores between them.\<close>

fun int_digits :: "bool \<Rightarrow> nat \<Rightarrow> string \<Rightarrow> nat option" where
  "int_digits after n [] = (if after then Some n else None)"
| "int_digits after n (c # s) =
     (if is_digit_char c then int_digits True (10 * n + (of_char c - 48)) s
      else if c = CHR ''_'' \<and> after then int_digits False n s
      else None)"

definition int_of_str :: "string \<Rightarrow> int option" where
  "int_of_str s = (case py_strip s of
      [] \<Rightarrow> None
    | c # r \<Rightarrow> (if c = CHR ''-'' then map_option (\<lambda>n. - int n) (int_digits False 0 r)
              else if c = CHR ''+'' then map_option int (int_digits False 0 r)
              else map_option int (int_digits False 0 (c # r))))"

definition trunc_rat :: "rat \<Rightarrow> int" where
  "trunc_rat x = (if 0 \<le> x then \<lfloor>x\<rfloor> else \<lceil>x\<rceil>)"

definition py_int :: "pv \<Rightarrow> int res" where
  "py_int v = (case v of
      PInt i \<Rightarrow> Inr i
    | PBool b \<Rightarrow> Inr (if b then 1 else 0)
    | PFlt x \<Rightarrow> Inr (trunc_rat x)
    | PStr s \<Rightarrow> (case int_of_str s of None \<Rightarrow> Inl (ValueError ''int'') | Some i \<Rightarrow> Inr i)
    | _ \<Rightarrow> Inl TypeError)"

definition py_float :: "float_ops \<Rightarrow> pv \<Rightarrow> rat res" where
  "py_float fo v = (case v of
      PInt i \<Rightarrow> Inr (fl_int fo i)
    | PBool b \<Rightarrow> Inr (if b then 1 else 0)
    | PFlt x \<Rightarrow> Inr x
    | PStr s \<Rightarrow> (case fl_str fo s of None \<Rightarrow> Inl (ValueError ''float'') | Some x \<Rightarrow> Inr x)
    | _ \<Rightarrow> Inl TypeError)"

end
