(* ===== verification/Interfaces.thy ===== *)
theory Interfaces
  imports Prelude
begin

text \<open>
  The contracts between components. Each is a locale over the operations that a client
  calls, with the laws the provider promises; the provider's theory interprets it on the
  model's own definitions, and the client's lemmas are proved once, in the locale.
\<close>

section \<open>The group directory\<close>

text \<open>
  What access control relies on: the set of group ids of a user, and how joining and
  leaving a group change it. \<open>ok\<close> is the directory's invariant; \<open>exists_group\<close> says
  that a group row is there.
\<close>

locale group_directory =
  fixes ok :: "'d \<Rightarrow> bool"
    and exists_group :: "'d \<Rightarrow> string \<Rightarrow> bool"
    and group_ids :: "'d \<Rightarrow> string \<Rightarrow> string set"
    and leave :: "string \<Rightarrow> string \<Rightarrow> 'd \<Rightarrow> 'd"
    and leave_all :: "string \<Rightarrow> 'd \<Rightarrow> 'd"
  assumes ids_exist: "g \<in> group_ids d u \<Longrightarrow> exists_group d g"
    and leave_ids: "ok d \<Longrightarrow>
      group_ids (leave g u d) v = (if v = u then group_ids d v - {g} else group_ids d v)"
    and leave_ok: "ok d \<Longrightarrow> ok (leave g u d)"
    and leave_all_ids: "ok d \<Longrightarrow>
      group_ids (leave_all u d) v = (if v = u then {} else group_ids d v)"
    and leave_all_ok: "ok d \<Longrightarrow> ok (leave_all u d)"
begin

text \<open>A decision that only grows with the set of groups can only be lost by leaving.\<close>

lemma leave_subset: "ok d \<Longrightarrow> group_ids (leave g u d) v \<subseteq> group_ids d v"
  by (simp add: leave_ids)

lemma leave_antimono:
  assumes "ok d" and "\<And>G H. G \<subseteq> H \<Longrightarrow> acc G \<Longrightarrow> acc H" and "acc (group_ids (leave g u d) v)"
  shows "acc (group_ids d v)"
  by (rule assms(2) [OF leave_subset [OF assms(1)] assms(3)])

lemma leave_frame: "ok d \<Longrightarrow> v \<noteq> u \<Longrightarrow> acc (group_ids (leave g u d) v) = acc (group_ids d v)"
  by (simp add: leave_ids)

lemma leave_all_no_groups: "ok d \<Longrightarrow> group_ids (leave_all u d) u = {}"
  by (simp add: leave_all_ids)

lemma leave_all_frame: "ok d \<Longrightarrow> v \<noteq> u \<Longrightarrow> group_ids (leave_all u d) v = group_ids d v"
  by (simp add: leave_all_ids)

lemma leave_all_after_leave: "ok d \<Longrightarrow> group_ids (leave_all u (leave g v d)) u = {}"
  by (simp add: leave_all_ids leave_ok)

end

section \<open>The grant store\<close>

text \<open>
  What the clients of the grant table rely on (folders, models, files, knowledge bases):
  whether a user with some groups holds a permission on a resource, replacing the grants
  of a resource and dropping them. \<open>gives\<close> is the decision on a list of grants alone.
\<close>

locale grant_store =
  fixes ok :: "'s \<Rightarrow> bool"
    and has :: "'s \<Rightarrow> string \<Rightarrow> string set \<Rightarrow> string \<Rightarrow> string \<Rightarrow> string \<Rightarrow> bool"
    and drop_all :: "string \<Rightarrow> string \<Rightarrow> 's \<Rightarrow> 's"
  assumes has_mono: "G \<subseteq> H \<Longrightarrow> has s u G rt rid p \<Longrightarrow> has s u H rt rid p"
    and drop_ok: "ok s \<Longrightarrow> ok (drop_all rt rid s)"
    and drop_has: "has (drop_all rt rid s) u G rt' rid' p =
      ((rt', rid') \<noteq> (rt, rid) \<and> has s u G rt' rid' p)"
begin

lemma dropped_private: "\<not> has (drop_all rt rid s) u G rt rid p"
  by (simp add: drop_has)

lemma drop_frame: "(rt', rid') \<noteq> (rt, rid) \<Longrightarrow> has (drop_all rt rid s) u G rt' rid' p = has s u G rt' rid' p"
  by (auto simp: drop_has)

text \<open>Dropping the grants of a list of resources of one type\<close>

lemma drop_fold: "has (fold (drop_all rt) rids s) u G rt' rid' p =
    (\<not> (rt' = rt \<and> rid' \<in> set rids) \<and> has s u G rt' rid' p)"
  by (induction rids arbitrary: s) (auto simp: drop_has)

lemma drop_decreases: "has (drop_all rt rid s) u G rt' rid' p \<Longrightarrow> has s u G rt' rid' p"
  by (simp add: drop_has)

end

end
