(* ===== verification/Group_Table.thy ===== *)
theory Group_Table
  imports Py_Value Interfaces
begin

text \<open>
  \<^verbatim>\<open>backend/openlaunch/models/groups.py\<close>: the tables \<^verbatim>\<open>group\<close> and \<^verbatim>\<open>group_member\<close> and
  the operations of \<^verbatim>\<open>GroupTable\<close>. A table is the list of its rows in insertion order, a
  handler maps the committed state to the next one, and a constraint that the database
  refuses is the error \<open>IntegrityError\<close>, after which nothing of the transaction is left.
  The generated ids and the clock readings are arguments.
\<close>

section \<open>State\<close>

record group_row =
  g_id :: string
  g_user_id :: string
  g_name :: string
  g_description :: string
  g_data :: pv
  g_meta :: pv
  g_permissions :: pv
  g_created_at :: int
  g_updated_at :: int

record member_row =
  m_id :: string
  m_group_id :: string
  m_user_id :: string
  m_created_at :: int
  m_updated_at :: int

record group_db =
  db_groups :: "group_row list"
  db_members :: "member_row list"

record group_form =
  gf_name :: string
  gf_description :: string
  gf_permissions :: "pv option"
  gf_data :: "pv option"

text \<open>
  The database: whether it enforces foreign keys (PostgreSQL does, SQLite does not unless
  it is told to), and which user rows there are.
\<close>

record db_conf =
  enforce_fk :: bool
  user_exists :: "string \<Rightarrow> bool"

definition m_key :: "member_row \<Rightarrow> string \<times> string" where
  "m_key m = (m_group_id m, m_user_id m)"

definition group_exists :: "group_db \<Rightarrow> string \<Rightarrow> bool" where
  "group_exists db g = (g \<in> g_id ` set (db_groups db))"

text \<open>The constraints of \<^verbatim>\<open>group_member\<close>: primary key, the unique pair, foreign keys.\<close>

definition members_unique :: "member_row list \<Rightarrow> bool" where
  "members_unique ms = (distinct (map m_id ms) \<and> distinct (map m_key ms))"

definition member_fk_ok :: "db_conf \<Rightarrow> group_db \<Rightarrow> member_row \<Rightarrow> bool" where
  "member_fk_ok c db m =
     (enforce_fk c \<longrightarrow> group_exists db (m_group_id m) \<and> user_exists c (m_user_id m))"

definition groups_ok :: "group_db \<Rightarrow> bool" where
  "groups_ok db = (distinct (map g_id (db_groups db)) \<and> members_unique (db_members db))"

section \<open>Creating groups\<close>

definition dump_form :: "group_form \<Rightarrow> pdict" where
  "dump_form f =
     [(''name'', PStr (gf_name f)), (''description'', PStr (gf_description f))]
     @ (case gf_permissions f of None \<Rightarrow> [] | Some p \<Rightarrow> [(''permissions'', p)])
     @ (case gf_data f of None \<Rightarrow> [] | Some d \<Rightarrow> [(''data'', d)])"

definition ensure_default_share_config :: "pv \<Rightarrow> pdict \<Rightarrow> pdict res" where
  "ensure_default_share_config default_share gd =
     (let gd1 = (if od_getd gd ''data'' PNone = PNone then od_set ''data'' (PDict []) gd else gd) in
      rbind (pidx (PDict gd1) ''data'') (\<lambda>data.
      rbind (pin ''config'' data) (\<lambda>has_config.
      rbind (if has_config then Inr data else pset data ''config'' (PDict [])) (\<lambda>data1.
      rbind (pidx data1 ''config'') (\<lambda>config.
      rbind (pin ''share'' config) (\<lambda>has_share.
      rbind (if has_share then Inr config else pset config ''share'' default_share) (\<lambda>config1.
      rbind (pset data1 ''config'' config1) (\<lambda>data2.
      Inr (od_set ''data'' data2 gd1)))))))))"

definition insert_new_group ::
  "pv \<Rightarrow> string \<Rightarrow> int \<Rightarrow> int \<Rightarrow> string \<Rightarrow> group_form \<Rightarrow> group_db \<Rightarrow> (group_db \<times> group_row option) res" where
  "insert_new_group default_share new_id t1 t2 user form db =
     rmap (\<lambda>gd.
       let row = \<lparr>g_id = new_id, g_user_id = user, g_name = gf_name form,
                  g_description = gf_description form, g_data = od_getd gd ''data'' PNone,
                  g_meta = PNone, g_permissions = od_getd gd ''permissions'' PNone,
                  g_created_at = t1, g_updated_at = t2\<rparr>
       in if group_exists db new_id then (db, None)
          else (db\<lparr>db_groups := db_groups db @ [row]\<rparr>, Some row))
     (ensure_default_share_config default_share (dump_form form))"

definition create_one_group ::
  "pv \<Rightarrow> string \<Rightarrow> int \<Rightarrow> string \<Rightarrow> string \<Rightarrow> group_row" where
  "create_one_group default_share new_id now user name =
     \<lparr>g_id = new_id, g_user_id = user, g_name = name, g_description = [],
      g_data = PDict [(''config'', PDict [(''share'', default_share)])],
      g_meta = PNone, g_permissions = PNone, g_created_at = now, g_updated_at = now\<rparr>"

fun create_groups_loop ::
  "pv \<Rightarrow> (nat \<Rightarrow> string) \<Rightarrow> int \<Rightarrow> string \<Rightarrow> string list \<Rightarrow> nat \<Rightarrow> string list \<Rightarrow> group_db \<Rightarrow> group_db \<times> group_row list" where
  "create_groups_loop dshare fresh now user existing i [] db = (db, [])"
| "create_groups_loop dshare fresh now user existing i (name # names) db =
     (let row = create_one_group dshare (fresh i) now user name in
      if name \<in> set existing then create_groups_loop dshare fresh now user existing (Suc i) names db
      else if group_exists db (fresh i) then create_groups_loop dshare fresh now user existing (Suc i) names db
      else (case create_groups_loop dshare fresh now user existing (Suc i) names
                   (db\<lparr>db_groups := db_groups db @ [row]\<rparr>) of
              (db', rows) \<Rightarrow> (db', row # rows)))"

definition create_groups_by_group_names ::
  "pv \<Rightarrow> (nat \<Rightarrow> string) \<Rightarrow> int \<Rightarrow> string \<Rightarrow> string list \<Rightarrow> group_db \<Rightarrow> group_db \<times> group_row list" where
  "create_groups_by_group_names dshare fresh now user names db =
     create_groups_loop dshare fresh now user (map g_name (db_groups db)) 0 names db"

section \<open>Queries\<close>

definition by_updated_desc :: "group_row list \<Rightarrow> group_row list" where
  "by_updated_desc = sort_key (\<lambda>g. - g_updated_at g)"

definition get_all_groups :: "group_db \<Rightarrow> group_row list" where
  "get_all_groups db = by_updated_desc (db_groups db)"

definition get_group_by_name :: "group_db \<Rightarrow> string \<Rightarrow> group_row option" where
  "get_group_by_name db name = List.find (\<lambda>g. g_name g = name) (db_groups db)"

definition get_group_by_id :: "group_db \<Rightarrow> string \<Rightarrow> group_row option" where
  "get_group_by_id db gid = List.find (\<lambda>g. g_id g = gid) (db_groups db)"

definition is_member :: "group_db \<Rightarrow> string \<Rightarrow> string \<Rightarrow> bool" where
  "is_member db gid uid = (\<exists>m\<in>set (db_members db). m_key m = (gid, uid))"

text \<open>One row for each pair of a group and a membership that the join matches.\<close>

definition get_groups_by_member_id :: "group_db \<Rightarrow> string \<Rightarrow> group_row list" where
  "get_groups_by_member_id db uid =
     concat (map (\<lambda>g. map (\<lambda>m. g) (filter (\<lambda>m. m_key m = (g_id g, uid)) (db_members db)))
       (by_updated_desc (db_groups db)))"

definition get_groups_by_member_ids :: "group_db \<Rightarrow> string list \<Rightarrow> (string, group_row list) od" where
  "get_groups_by_member_ids db uids =
     map (\<lambda>uid. (uid, get_groups_by_member_id db uid)) (dedup uids)"

definition get_group_user_ids_by_id :: "group_db \<Rightarrow> string \<Rightarrow> string list" where
  "get_group_user_ids_by_id db gid =
     map m_user_id (filter (\<lambda>m. m_group_id m = gid) (db_members db))"

definition get_group_user_ids_by_ids :: "group_db \<Rightarrow> string list \<Rightarrow> (string, string list) od" where
  "get_group_user_ids_by_ids db gids =
     map (\<lambda>gid. (gid, get_group_user_ids_by_id db gid)) (dedup gids)"

definition get_group_member_count_by_id :: "group_db \<Rightarrow> string \<Rightarrow> nat" where
  "get_group_member_count_by_id db gid =
     length (filter (\<lambda>m. m_group_id m = gid) (db_members db))"

definition get_group_member_counts_by_ids :: "group_db \<Rightarrow> string list \<Rightarrow> (string, nat) od" where
  "get_group_member_counts_by_ids db ids =
     map (\<lambda>gid. (gid, get_group_member_count_by_id db gid))
       (filter (\<lambda>gid. gid \<in> set ids) (dedup (map m_group_id (db_members db))))"

text \<open>
  The listing for the share dialog. \<open>ilike\<close> is the database's case-insensitive pattern
  match and \<open>json_text\<close> its text rendering of a JSON scalar (\<open>None\<close> for SQL's NULL).
\<close>

record group_filter =
  f_query :: "string option"
  f_share :: "bool option"
  f_member_id :: "string option"

definition share_text :: "(pv \<Rightarrow> string option) \<Rightarrow> group_row \<Rightarrow> string option" where
  "share_text json_text g =
     (case g_data g of
        PDict d \<Rightarrow> (case od_getd d ''config'' PNone of
                     PDict c \<Rightarrow> json_text (od_getd c ''share'' PNone) | _ \<Rightarrow> None)
      | _ \<Rightarrow> None)"

definition share_filter_ok ::
  "(pv \<Rightarrow> string option) \<Rightarrow> group_db \<Rightarrow> bool \<Rightarrow> string option \<Rightarrow> group_row \<Rightarrow> bool" where
  "share_filter_ok json_text db share_value member_id g =
     (let lowered = map_option py_lower (share_text json_text g) in
      if share_value then
        (let anyone = (g_data g = PNone \<or> share_text json_text g = None
                       \<or> lowered = Some ''true'' \<or> lowered = Some ''1'')
         in case member_id of
              Some uid \<Rightarrow> if uid = [] then anyone
                          else anyone \<or> (lowered = Some ''members'' \<and> is_member db (g_id g) uid)
            | None \<Rightarrow> anyone)
      else g_data g \<noteq> PNone \<and> lowered = Some ''false'')"

definition get_groups ::
  "(string \<Rightarrow> string \<Rightarrow> bool) \<Rightarrow> (pv \<Rightarrow> string option) \<Rightarrow> group_filter \<Rightarrow> group_db \<Rightarrow> (group_row \<times> nat) list" where
  "get_groups ilike json_text f db =
     map (\<lambda>g. (g, get_group_member_count_by_id db (g_id g)))
       (filter (\<lambda>g.
          (case f_query f of None \<Rightarrow> True | Some q \<Rightarrow> ilike (''%'' @ q @ ''%'') (g_name g)) \<and>
          (case f_share f of
             Some sv \<Rightarrow> share_filter_ok json_text db sv (f_member_id f) g
           | None \<Rightarrow> (case f_member_id f of None \<Rightarrow> True | Some uid \<Rightarrow> is_member db (g_id g) uid)))
        (by_updated_desc (db_groups db)))"

section \<open>Changing the membership\<close>

definition new_member :: "string \<Rightarrow> string \<Rightarrow> int \<Rightarrow> string \<Rightarrow> member_row" where
  "new_member mid gid now uid =
     \<lparr>m_id = mid, m_group_id = gid, m_user_id = uid, m_created_at = now, m_updated_at = now\<rparr>"

fun new_members :: "(nat \<Rightarrow> string) \<Rightarrow> string \<Rightarrow> int \<Rightarrow> nat \<Rightarrow> string list \<Rightarrow> member_row list" where
  "new_members fresh gid now i [] = []"
| "new_members fresh gid now i (u # us) =
     new_member (fresh i) gid now u # new_members fresh gid now (Suc i) us"

definition set_group_user_ids_by_id ::
  "db_conf \<Rightarrow> (nat \<Rightarrow> string) \<Rightarrow> int \<Rightarrow> string \<Rightarrow> string list \<Rightarrow> group_db \<Rightarrow> group_db res" where
  "set_group_user_ids_by_id c fresh now gid uids db =
     (let kept = filter (\<lambda>m. m_group_id m \<noteq> gid) (db_members db);
          added = new_members fresh gid now 0 uids
      in if members_unique (kept @ added) \<and> list_all (member_fk_ok c db) added
         then Inr (db\<lparr>db_members := kept @ added\<rparr>) else Inl IntegrityError)"

text \<open>
  \<^verbatim>\<open>add_users_to_group\<close>: every insertion is flushed on its own, and one that the database
  refuses rolls the session back. \<open>base\<close> is the last committed state, which the rollback
  returns to; nothing is committed before the end of the loop.
\<close>

fun add_users_loop ::
  "db_conf \<Rightarrow> (nat \<Rightarrow> string) \<Rightarrow> string \<Rightarrow> int \<Rightarrow> group_db \<Rightarrow> nat \<Rightarrow> group_db \<Rightarrow> string list \<Rightarrow> group_db" where
  "add_users_loop c fresh gid now base i cur [] = cur"
| "add_users_loop c fresh gid now base i cur (u # us) =
     (let m = new_member (fresh i) gid now u in
      if members_unique (db_members cur @ [m]) \<and> member_fk_ok c cur m
      then add_users_loop c fresh gid now base (Suc i) (cur\<lparr>db_members := db_members cur @ [m]\<rparr>) us
      else add_users_loop c fresh gid now base (Suc i) base us)"

definition touch_groups :: "string set \<Rightarrow> int \<Rightarrow> group_db \<Rightarrow> group_db" where
  "touch_groups gids now db = db\<lparr>db_groups :=
     map (\<lambda>g. if g_id g \<in> gids then g\<lparr>g_updated_at := now\<rparr> else g) (db_groups db)\<rparr>"

definition add_users_to_group ::
  "db_conf \<Rightarrow> (nat \<Rightarrow> string) \<Rightarrow> int \<Rightarrow> string \<Rightarrow> string list option \<Rightarrow> group_db \<Rightarrow> group_db \<times> group_row option" where
  "add_users_to_group c fresh now gid uids db =
     (case get_group_by_id db gid of
        None \<Rightarrow> (db, None)
      | Some g \<Rightarrow>
          (touch_groups {gid} now
             (add_users_loop c fresh gid now db 0 db (case uids of None \<Rightarrow> [] | Some us \<Rightarrow> us)),
           Some (g\<lparr>g_updated_at := now\<rparr>)))"

definition remove_users_from_group ::
  "int \<Rightarrow> string \<Rightarrow> string list option \<Rightarrow> group_db \<Rightarrow> group_db \<times> group_row option" where
  "remove_users_from_group now gid uids db =
     (case get_group_by_id db gid of
        None \<Rightarrow> (db, None)
      | Some g \<Rightarrow> (case uids of
            None \<Rightarrow> (db, Some g)
          | Some us \<Rightarrow>
              if us = [] then (db, Some g)
              else (touch_groups {gid} now (db\<lparr>db_members :=
                      filter (\<lambda>m. \<not> (m_group_id m = gid \<and> m_user_id m \<in> set us)) (db_members db)\<rparr>),
                    Some (g\<lparr>g_updated_at := now\<rparr>))))"

fun remove_from_each :: "string \<Rightarrow> int \<Rightarrow> group_row list \<Rightarrow> group_db \<Rightarrow> group_db" where
  "remove_from_each uid now [] db = db"
| "remove_from_each uid now (g # gs) db =
     remove_from_each uid now gs (touch_groups {g_id g} now (db\<lparr>db_members :=
       filter (\<lambda>m. m_key m \<noteq> (g_id g, uid)) (db_members db)\<rparr>))"

definition remove_user_from_all_groups :: "int \<Rightarrow> string \<Rightarrow> group_db \<Rightarrow> group_db" where
  "remove_user_from_all_groups now uid db =
     remove_from_each uid now
       (concat (map (\<lambda>g. map (\<lambda>m. g) (filter (\<lambda>m. m_key m = (g_id g, uid)) (db_members db)))
          (db_groups db))) db"

text \<open>\<^verbatim>\<open>sync_groups_by_group_names\<close>: the adds and removals are sets; \<open>order\<close> lists the
  groups to add in some order. A refused insertion rolls everything back and gives False.\<close>

definition sync_groups_by_group_names ::
  "db_conf \<Rightarrow> (nat \<Rightarrow> string) \<Rightarrow> int \<Rightarrow> string \<Rightarrow> string list \<Rightarrow> group_db \<Rightarrow> group_db \<times> bool" where
  "sync_groups_by_group_names c fresh now uid names db =
     (let target = map g_id (filter (\<lambda>g. g_name g \<in> set names) (db_groups db));
          existing = map g_id (get_groups_by_member_id db uid);
          to_add = dedup (filter (\<lambda>g. g \<notin> set existing) target);
          to_remove = filter (\<lambda>g. g \<notin> set target) existing;
          kept = filter (\<lambda>m. \<not> (m_user_id m = uid \<and> m_group_id m \<in> set to_remove)) (db_members db);
          added = map (\<lambda>(i, gid). new_member (fresh i) gid now uid) (enumerate 0 to_add);
          db1 = touch_groups (set to_remove) now (db\<lparr>db_members := kept @ added\<rparr>)
      in if members_unique (kept @ added) \<and> list_all (member_fk_ok c db) added
         then (touch_groups (set to_add) now db1, True) else (db, False))"

section \<open>Updating and deleting groups\<close>

definition update_group_by_id :: "int \<Rightarrow> string \<Rightarrow> group_form \<Rightarrow> group_db \<Rightarrow> group_db \<times> group_row option" where
  "update_group_by_id now gid f db =
     (let db' = db\<lparr>db_groups := map (\<lambda>g. if g_id g = gid then
            g\<lparr>g_name := gf_name f, g_description := gf_description f,
              g_permissions := (case gf_permissions f of None \<Rightarrow> g_permissions g | Some p \<Rightarrow> p),
              g_data := (case gf_data f of None \<Rightarrow> g_data g | Some d \<Rightarrow> d),
              g_updated_at := now\<rparr> else g) (db_groups db)\<rparr>
      in (db', get_group_by_id db' gid))"

definition delete_group_by_id :: "db_conf \<Rightarrow> string \<Rightarrow> group_db \<Rightarrow> group_db" where
  "delete_group_by_id c gid db =
     db\<lparr>db_groups := filter (\<lambda>g. g_id g \<noteq> gid) (db_groups db),
        db_members := (if enforce_fk c then filter (\<lambda>m. m_group_id m \<noteq> gid) (db_members db)
                       else db_members db)\<rparr>"

definition delete_all_groups :: "db_conf \<Rightarrow> group_db \<Rightarrow> group_db" where
  "delete_all_groups c db =
     db\<lparr>db_groups := [], db_members := (if enforce_fk c then [] else db_members db)\<rparr>"


section \<open>The membership relation\<close>

text \<open>The abstraction of the two tables: which user is in which group.\<close>

definition mem_rel :: "group_db \<Rightarrow> (string \<times> string) set" where
  "mem_rel db = m_key ` set (db_members db)"

definition group_id_set :: "group_db \<Rightarrow> string \<Rightarrow> string set" where
  "group_id_set db uid = set (map g_id (get_groups_by_member_id db uid))"

text \<open>Ids that the generator has not handed out yet.\<close>

definition fresh_ids :: "(nat \<Rightarrow> string) \<Rightarrow> member_row list \<Rightarrow> bool" where
  "fresh_ids fresh ms = (inj fresh \<and> (\<forall>i. fresh i \<notin> m_id ` set ms))"

named_theorems group_simps \<open>what the membership operations leave in the tables\<close>

lemma touch_groups_simps [simp, group_simps]:
  "db_members (touch_groups G now db) = db_members db"
  "map g_id (db_groups (touch_groups G now db)) = map g_id (db_groups db)"
  "group_exists (touch_groups G now db) g = group_exists db g"
  "mem_rel (touch_groups G now db) = mem_rel db"
  "groups_ok (touch_groups G now db) = groups_ok db"
proof -
  show ids: "map g_id (db_groups (touch_groups G now db)) = map g_id (db_groups db)"
    by (simp add: touch_groups_def)
  then show "group_exists (touch_groups G now db) g = group_exists db g"
    by (metis group_exists_def image_set)
  show "db_members (touch_groups G now db) = db_members db"
    by (simp add: touch_groups_def)
  with ids show "mem_rel (touch_groups G now db) = mem_rel db"
    and "groups_ok (touch_groups G now db) = groups_ok db"
    by (simp_all add: mem_rel_def groups_ok_def)
qed

lemma set_by_updated_desc [simp]: "set (by_updated_desc gs) = set gs"
  by (simp add: by_updated_desc_def)

lemma mem_rel_iff: "(g, u) \<in> mem_rel db \<longleftrightarrow> (\<exists>m\<in>set (db_members db). m_key m = (g, u))"
  unfolding mem_rel_def by force

lemma is_member_iff: "is_member db g u \<longleftrightarrow> (g, u) \<in> mem_rel db"
  by (simp add: is_member_def mem_rel_iff)

lemma group_id_set_iff: "g \<in> group_id_set db u \<longleftrightarrow> group_exists db g \<and> (g, u) \<in> mem_rel db"
proof -
  have "g \<in> group_id_set db u \<longleftrightarrow>
      (\<exists>r\<in>set (db_groups db). g_id r = g \<and> (\<exists>m\<in>set (db_members db). m_key m = (g_id r, u)))"
    by (force simp: group_id_set_def get_groups_by_member_id_def)
  then show ?thesis by (auto simp: group_exists_def mem_rel_iff)
qed

lemma set_group_user_ids: "set (get_group_user_ids_by_id db g) = {u. (g, u) \<in> mem_rel db}"
  by (auto simp: get_group_user_ids_by_id_def mem_rel_iff m_key_def)

lemma m_key_new_member [simp]: "m_key (new_member i g now u) = (g, u)" "m_id (new_member i g now u) = i"
  "m_group_id (new_member i g now u) = g" "m_user_id (new_member i g now u) = u"
  by (simp_all add: m_key_def new_member_def)

lemma new_members_keys: "map m_key (new_members fresh g now i us) = map (\<lambda>u. (g, u)) us"
  by (induction us arbitrary: i) auto

lemma new_members_key_set: "m_key ` set (new_members fresh g now i us) = {g} \<times> set us"
  by (induction us arbitrary: i) auto

lemma new_members_ids: "map m_id (new_members fresh g now i us) = map fresh [i..<i + length us]"
  by (induction us arbitrary: i) (auto simp: upt_conv_Cons simp del: upt_Suc)

lemma fresh_ids_distinct: "fresh_ids fresh ms \<Longrightarrow> distinct (map fresh xs) = distinct xs"
  by (auto simp: fresh_ids_def distinct_map inj_on_def inj_def)

lemma members_unique_filter [simp, intro]: "members_unique ms \<Longrightarrow> members_unique (filter P ms)"
  by (simp add: members_unique_def)

lemma fresh_ids_filter: "fresh_ids fresh ms \<Longrightarrow> fresh_ids fresh (filter P ms)"
  by (auto simp: fresh_ids_def)

text \<open>Appending rows with fresh ids keeps the constraints exactly when the pairs are new.\<close>

lemma members_unique_append_fresh:
  assumes "members_unique ms" and "fresh_ids fresh ms" and "map m_id ns = map fresh is" and "distinct is"
  shows "members_unique (ms @ ns) \<longleftrightarrow>
    distinct (map m_key ns) \<and> m_key ` set ms \<inter> m_key ` set ns = {}"
proof -
  have "m_id ` set ns = fresh ` set is"
    using assms(3) by (metis image_set)
  then have "m_id ` set ms \<inter> m_id ` set ns = {}"
    using assms(2) unfolding fresh_ids_def by (metis (no_types, lifting) disjoint_iff imageE)
  moreover have "distinct (map m_id ns)"
    using assms(2-4) fresh_ids_distinct by metis
  ultimately show ?thesis
    using assms(1) by (auto simp: members_unique_def)
qed

section \<open>Replacing the members of a group\<close>

lemma set_group_user_ids_mem:
  assumes "set_group_user_ids_by_id c fresh now g us db = Inr db'"
  shows "mem_rel db' = {p \<in> mem_rel db. fst p \<noteq> g} \<union> {g} \<times> set us" and "groups_ok db \<Longrightarrow> groups_ok db'"
proof -
  let ?kept = "filter (\<lambda>m. m_group_id m \<noteq> g) (db_members db)"
  from assms have db': "db' = db\<lparr>db_members := ?kept @ new_members fresh g now 0 us\<rparr>"
    and uniq: "members_unique (?kept @ new_members fresh g now 0 us)"
    by (auto simp: set_group_user_ids_by_id_def Let_def split: if_splits)
  have "m_key ` set (new_members fresh g now 0 us) = {g} \<times> set us"
    using arg_cong [OF new_members_keys [of fresh g now 0 us], of set] by auto
  then show "mem_rel db' = {p \<in> mem_rel db. fst p \<noteq> g} \<union> {g} \<times> set us"
    by (auto simp: db' mem_rel_def m_key_def image_Un)
  from uniq show "groups_ok db \<Longrightarrow> groups_ok db'"
    by (simp add: db' groups_ok_def)
qed

section \<open>Adding users: what the rollback discards\<close>

lemma add_users_loop_append:
  "add_users_loop c fresh g now base i cur (us @ vs) =
     add_users_loop c fresh g now base (i + length us) (add_users_loop c fresh g now base i cur us) vs"
  by (induction us arbitrary: i cur) (auto simp: Let_def)

lemma add_users_loop_groups:
  "db_groups base = db_groups cur \<Longrightarrow> db_groups (add_users_loop c fresh g now base i cur us) = db_groups cur"
  by (induction us arbitrary: i cur) (auto simp: Let_def)

lemma add_users_loop_members:
  "set (db_members base) \<subseteq> set (db_members cur) \<Longrightarrow>
   set (db_members base) \<subseteq> set (db_members (add_users_loop c fresh g now base i cur us))"
proof (induction us arbitrary: i cur)
  case Nil
  then show ?case by simp
next
  case (Cons u us)
  have "set (db_members base) \<subseteq> set (db_members (cur\<lparr>db_members := db_members cur @ [new_member (fresh i) g now u]\<rparr>))"
    using Cons.prems by auto
  then show ?case using Cons.IH by (simp add: Let_def)
qed

lemma add_users_loop_unique:
  "members_unique (db_members base) \<Longrightarrow> members_unique (db_members cur) \<Longrightarrow>
   members_unique (db_members (add_users_loop c fresh g now base i cur us))"
  by (induction us arbitrary: i cur) (auto simp: Let_def)

text \<open>A list without a refused row adds everybody.\<close>

lemma add_users_loop_all:
  assumes "members_unique (db_members cur)" and "fresh_ids (\<lambda>j. fresh (i + j)) (db_members cur)"
    and "distinct us" and "{g} \<times> set us \<inter> mem_rel cur = {}"
    and "\<And>u. u \<in> set us \<Longrightarrow> enforce_fk c \<longrightarrow> group_exists cur g \<and> user_exists c u"
  shows "mem_rel (add_users_loop c fresh g now base i cur us) = mem_rel cur \<union> {g} \<times> set us"
  using assms
proof (induction us arbitrary: i cur)
  case Nil
  then show ?case by simp
next
  case (Cons u us)
  let ?m = "new_member (fresh i) g now u"
  let ?cur = "cur\<lparr>db_members := db_members cur @ [?m]\<rparr>"
  have "fresh i \<notin> m_id ` set (db_members cur)"
    using Cons.prems(2) by (auto simp: fresh_ids_def dest: spec [of _ 0])
  moreover have "(g, u) \<notin> m_key ` set (db_members cur)"
    using Cons.prems(4) by (auto simp: mem_rel_def)
  ultimately have uniq: "members_unique (db_members cur @ [?m])"
    using Cons.prems(1) by (simp add: members_unique_def)
  have fk: "member_fk_ok c cur ?m"
    using Cons.prems(5) [of u] by (simp add: member_fk_ok_def)
  have inj: "inj (\<lambda>j. fresh (i + j))" and new: "\<And>j. fresh (i + j) \<notin> m_id ` set (db_members cur)"
    using Cons.prems(2) by (simp_all add: fresh_ids_def)
  have "inj (\<lambda>j. fresh (Suc i + j))"
    using inj by (auto simp: inj_def) (metis add_Suc_right nat.inject)
  moreover have "fresh (Suc i + j) \<notin> m_id ` set (db_members cur @ [?m])" for j
    using new [of "Suc j"] injD [OF inj, of "Suc j" 0] by auto
  ultimately have fresh: "fresh_ids (\<lambda>j. fresh (Suc i + j)) (db_members ?cur)"
    by (simp add: fresh_ids_def)
  have mem: "mem_rel ?cur = insert (g, u) (mem_rel cur)"
    by (simp add: mem_rel_def)
  have "mem_rel (add_users_loop c fresh g now base (Suc i) ?cur us) = mem_rel ?cur \<union> {g} \<times> set us"
    by (rule Cons.IH)
      (use uniq fresh mem Cons.prems(3-5) in \<open>auto simp: group_exists_def\<close>)
  then show ?case
    using uniq fk mem by (auto simp: Let_def)
qed

lemma add_users_db: "get_group_by_id db g = Some row \<Longrightarrow>
   fst (add_users_to_group c fresh now g (Some us) db) =
     touch_groups {g} now (add_users_loop c fresh g now db 0 db us)"
  by (simp add: add_users_to_group_def)

lemma get_group_by_id_exists: "(\<exists>row. get_group_by_id db g = Some row) \<longleftrightarrow> group_exists db g"
proof -
  have "(\<exists>row. get_group_by_id db g = Some row) \<longleftrightarrow> get_group_by_id db g \<noteq> None"
    by simp
  then show ?thesis
    by (auto simp: get_group_by_id_def group_exists_def find_None_iff)
qed

section \<open>Removing users\<close>

lemma remove_users_mem:
  assumes "group_exists db g" and "us \<noteq> []"
  shows "mem_rel (fst (remove_users_from_group now g (Some us) db)) = mem_rel db - {g} \<times> set us"
proof -
  from assms(1) obtain row where "get_group_by_id db g = Some row"
    using get_group_by_id_exists by blast
  with assms(2) show ?thesis
    by (auto simp: remove_users_from_group_def mem_rel_def m_key_def touch_groups_def)
qed

lemma remove_users_ok: "groups_ok db \<Longrightarrow> groups_ok (fst (remove_users_from_group now g us db))"
proof -
  assume "groups_ok db"
  moreover from this have "groups_ok (db\<lparr>db_members := filter P (db_members db)\<rparr>)" for P
    by (simp add: groups_ok_def)
  ultimately show ?thesis
    by (simp add: remove_users_from_group_def split: option.splits)
qed

lemma remove_users_exists [simp]:
  "group_exists (fst (remove_users_from_group now g us db)) h = group_exists db h"
proof -
  have "group_exists (db\<lparr>db_members := ms\<rparr>) h = group_exists db h" for ms
    by (simp add: group_exists_def)
  then show ?thesis
    by (simp add: remove_users_from_group_def split: option.splits)
qed

lemma filter_members_simps [group_simps]:
  "mem_rel (db\<lparr>db_members := filter (\<lambda>m. m_key m \<noteq> k) (db_members db)\<rparr>) = mem_rel db - {k}"
  "group_exists (db\<lparr>db_members := ms\<rparr>) h = group_exists db h"
  "groups_ok db \<Longrightarrow> groups_ok (db\<lparr>db_members := filter P (db_members db)\<rparr>)"
  by (auto simp: mem_rel_def group_exists_def groups_ok_def)

lemma remove_from_each_mem:
  "mem_rel (remove_from_each u now gs db) = mem_rel db - g_id ` set gs \<times> {u}"
  by (induction gs arbitrary: db) (auto simp: group_simps)

lemma remove_from_each_exists:
  "group_exists (remove_from_each u now gs db) h = group_exists db h"
  by (induction gs arbitrary: db) (simp_all add: group_simps)

lemma remove_from_each_ok:
  "groups_ok db \<Longrightarrow> groups_ok (remove_from_each u now gs db)"
  by (induction gs arbitrary: db) (simp_all add: group_simps)

lemmas remove_from_each_simps = remove_from_each_mem remove_from_each_exists remove_from_each_ok

lemma remove_all_exists: "group_exists (remove_user_from_all_groups now u db) h = group_exists db h"
  by (simp add: remove_user_from_all_groups_def remove_from_each_simps)

lemma remove_all_mem:
  "(g, v) \<in> mem_rel (remove_user_from_all_groups now u db) \<longleftrightarrow>
     (g, v) \<in> mem_rel db \<and> (v = u \<longrightarrow> \<not> group_exists db g)"
proof -
  let ?gs = "concat (map (\<lambda>g. map (\<lambda>m. g) (filter (\<lambda>m. m_key m = (g_id g, u)) (db_members db)))
          (db_groups db))"
  have "g_id ` set ?gs = {g. group_exists db g \<and> (g, u) \<in> mem_rel db}"
    by (force simp: group_exists_def mem_rel_iff)
  then show ?thesis
    by (auto simp: remove_user_from_all_groups_def remove_from_each_simps)
qed

interpretation gdir: group_directory groups_ok group_exists group_id_set
  "\<lambda>g u db. fst (remove_users_from_group now g (Some [u]) db)"
  "\<lambda>u db. remove_user_from_all_groups now u db" for now :: int
proof unfold_locales
  fix g u v :: string and d :: group_db
  show "g \<in> group_id_set d u \<Longrightarrow> group_exists d g"
    by (simp add: group_id_set_iff)
  show "groups_ok d \<Longrightarrow> groups_ok (fst (remove_users_from_group now g (Some [u]) d))"
    by (rule remove_users_ok)
  show "groups_ok d \<Longrightarrow> groups_ok (remove_user_from_all_groups now u d)"
    by (simp add: remove_user_from_all_groups_def remove_from_each_simps)
  show "group_id_set (remove_user_from_all_groups now u d) v = (if v = u then {} else group_id_set d v)"
    by (auto simp: group_id_set_iff remove_all_mem remove_all_exists)
  show "group_id_set (fst (remove_users_from_group now g (Some [u]) d)) v =
      (if v = u then group_id_set d v - {g} else group_id_set d v)"
  proof (cases "group_exists d g")
    case True
    then show ?thesis by (auto simp: group_id_set_iff remove_users_mem)
  next
    case False
    then have "fst (remove_users_from_group now g (Some [u]) d) = d"
      using get_group_by_id_exists [of d g]
      by (auto simp: remove_users_from_group_def split: option.splits)
    with False show ?thesis by (auto simp: group_id_set_iff)
  qed
qed


section \<open>Synchronising with an identity provider\<close>

definition sync_rows :: "(nat \<Rightarrow> string) \<Rightarrow> int \<Rightarrow> string \<Rightarrow> string list \<Rightarrow> member_row list" where
  "sync_rows fresh now u xs = map (\<lambda>(i, g). new_member (fresh i) g now u) (enumerate 0 xs)"

lemma sync_rows_keys: "map m_key (sync_rows fresh now u xs) = map (\<lambda>g. (g, u)) xs"
proof -
  have "map m_key (sync_rows fresh now u xs) = map ((\<lambda>g. (g, u)) \<circ> snd) (enumerate 0 xs)"
    by (simp add: sync_rows_def case_prod_beta)
  then show ?thesis by (metis map_map map_snd_enumerate)
qed

lemma sync_rows_ids: "map m_id (sync_rows fresh now u xs) = map fresh [0..<length xs]"
proof -
  have "map m_id (sync_rows fresh now u xs) = map (fresh \<circ> fst) (enumerate 0 xs)"
    by (simp add: sync_rows_def case_prod_beta)
  then show ?thesis by (metis add_0 map_fst_enumerate map_map)
qed

definition target_ids :: "group_db \<Rightarrow> string list \<Rightarrow> string set" where
  "target_ids db names = set (map g_id (filter (\<lambda>g. g_name g \<in> set names) (db_groups db)))"

lemma sync_mem:
  fixes names :: "string list" and now :: int and h :: string
  assumes ok: "groups_ok db" and fresh: "fresh_ids fresh (db_members db)"
    and fk: "enforce_fk c \<longrightarrow> user_exists c u"
  defines "r \<equiv> sync_groups_by_group_names c fresh now u names db"
  shows "snd r" and "mem_rel (fst r) = (mem_rel db - (group_id_set db u - target_ids db names) \<times> {u})
      \<union> target_ids db names \<times> {u}"
    and "group_exists (fst r) h = group_exists db h" and "groups_ok (fst r)"
proof -
  define target where "target = map g_id (filter (\<lambda>g. g_name g \<in> set names) (db_groups db))"
  define existing where "existing = map g_id (get_groups_by_member_id db u)"
  define to_add where "to_add = dedup (filter (\<lambda>g. g \<notin> set existing) target)"
  define to_remove where "to_remove = filter (\<lambda>g. g \<notin> set target) existing"
  define kept where "kept = filter (\<lambda>m. \<not> (m_user_id m = u \<and> m_group_id m \<in> set to_remove)) (db_members db)"
  define added where "added = sync_rows fresh now u to_add"
  note defs = target_def existing_def to_add_def to_remove_def kept_def added_def
  have target: "set target = target_ids db names" "\<And>g. g \<in> set target \<Longrightarrow> group_exists db g"
    by (auto simp: target_def target_ids_def group_exists_def)
  have existing: "set existing = group_id_set db u"
    by (simp add: existing_def group_id_set_def)
  have adds: "set to_add = set target - set existing" "distinct to_add"
    by (auto simp: to_add_def)
  have keys: "map m_key added = map (\<lambda>g. (g, u)) to_add"
    and ids: "map m_id added = map fresh [0..<length to_add]"
    by (simp_all add: added_def sync_rows_keys sync_rows_ids)
  from arg_cong [OF keys, of set] have key_set: "m_key ` set added = set to_add \<times> {u}"
    by auto
  have kept_keys: "m_key ` set kept = mem_rel db - set to_remove \<times> {u}"
    by (auto simp: kept_def mem_rel_def m_key_def)
  have "m_key ` set kept \<inter> m_key ` set added = {}"
    using target(2) existing adds(1) by (auto simp: kept_keys key_set group_id_set_iff)
  moreover have "distinct (map m_key added)"
    using adds(2) by (simp add: keys distinct_map inj_on_def)
  moreover have "members_unique kept"
    using ok by (simp add: kept_def groups_ok_def)
  moreover have "fresh_ids fresh kept"
    using fresh by (simp add: kept_def fresh_ids_filter)
  ultimately have uniq: "members_unique (kept @ added)"
    using members_unique_append_fresh [OF _ _ ids] by simp
  have fks: "list_all (member_fk_ok c db) added"
    using adds(1) target(2) fk key_set by (fastforce simp: list_all_iff member_fk_ok_def m_key_def)
  have r: "r = (touch_groups (set to_add) now (touch_groups (set to_remove) now
      (db\<lparr>db_members := kept @ added\<rparr>)), True)"
    unfolding r_def sync_groups_by_group_names_def Let_def defs [symmetric] sync_rows_def [symmetric]
    using uniq fks by simp
  show "snd r" by (simp add: r)
  show "group_exists (fst r) h = group_exists db h" by (simp add: r group_simps)
  show "groups_ok (fst r)" using ok uniq by (simp add: r groups_ok_def)
  have "mem_rel (fst r) = (mem_rel db - set to_remove \<times> {u}) \<union> set to_add \<times> {u}"
    using kept_keys key_set by (simp add: r mem_rel_def image_Un)
  moreover have "set to_remove = group_id_set db u - target_ids db names"
    using existing target(1) by (auto simp: to_remove_def)
  moreover have "set target \<inter> set existing \<subseteq> {g. (g, u) \<in> mem_rel db}"
    using existing by (auto simp: group_id_set_iff)
  ultimately show "mem_rel (fst r) = (mem_rel db - (group_id_set db u - target_ids db names) \<times> {u})
      \<union> target_ids db names \<times> {u}"
    using adds(1) target(1) by auto
qed

section \<open>Properties\<close>

definition sample_db :: group_db where
  "sample_db = \<lparr>
     db_groups = [\<lparr>g_id = ''g1'', g_user_id = ''a'', g_name = ''staff'', g_description = [], g_data = PNone,
                   g_meta = PNone, g_permissions = PNone, g_created_at = 0, g_updated_at = 5\<rparr>,
                  \<lparr>g_id = ''g2'', g_user_id = ''a'', g_name = ''ops'', g_description = [], g_data = PNone,
                   g_meta = PNone, g_permissions = PNone, g_created_at = 0, g_updated_at = 7\<rparr>],
     db_members = [\<lparr>m_id = ''m1'', m_group_id = ''g1'', m_user_id = ''bob'', m_created_at = 0, m_updated_at = 0\<rparr>]\<rparr>"

definition sample_conf :: db_conf where
  "sample_conf = \<lparr>enforce_fk = True, user_exists = (\<lambda>_. True)\<rparr>"

definition sample_fresh :: "nat \<Rightarrow> string" where
  "sample_fresh i = replicate (Suc i) CHR ''x''"

lemma sample_ok: "groups_ok sample_db" "fresh_ids sample_fresh (db_members sample_db)"
  "group_exists sample_db ''g1''" "(''g1'', ''bob'') \<in> mem_rel sample_db"
  "(''g1'', ''ann'') \<notin> mem_rel sample_db"
  by (auto simp: sample_db_def groups_ok_def members_unique_def m_key_def fresh_ids_def sample_fresh_def
      inj_def group_exists_def mem_rel_def)

text \<open>Replacing the members of a group either makes exactly the given users its members, leaving
  every other group alone and the table constraints intact, or, when a user is listed
  twice, raises the database's integrity error and changes nothing.\<close>

theorem set_group_members_exact:
  assumes "groups_ok db" and "fresh_ids fresh (db_members db)"
    and "enforce_fk c \<longrightarrow> group_exists db g \<and> (\<forall>u\<in>set us. user_exists c u)"
  shows "(distinct us \<longrightarrow> (\<exists>db'. set_group_user_ids_by_id c fresh now g us db = Inr db' \<and> groups_ok db' \<and>
       (\<forall>h. set (get_group_user_ids_by_id db' h) =
          (if h = g then set us else set (get_group_user_ids_by_id db h))))) \<and>
     (\<not> distinct us \<longrightarrow> set_group_user_ids_by_id c fresh now g us db = Inl IntegrityError)"
proof -
  let ?kept = "filter (\<lambda>m. m_group_id m \<noteq> g) (db_members db)"
  let ?new = "new_members fresh g now 0 us"
  have keys: "map m_key ?new = map (\<lambda>u. (g, u)) us" by (rule new_members_keys)
  have new_set: "m_key ` set ?new = {g} \<times> set us"
    by (rule new_members_key_set)
  have "fst p = g" if "p \<in> m_key ` set ?new" for p
    using that by (auto simp: new_set)
  moreover have "fst p \<noteq> g" if "p \<in> m_key ` set ?kept" for p
    using that by (auto simp: m_key_def)
  ultimately have "m_key ` set ?kept \<inter> m_key ` set ?new = {}"
    by blast
  moreover have "distinct (map m_key ?new) = distinct us"
    by (simp add: keys distinct_map inj_on_def)
  ultimately have uniq: "members_unique (?kept @ ?new) = distinct us"
    using members_unique_append_fresh [OF _ _ new_members_ids, of ?kept] assms(1,2)
    by (simp add: groups_ok_def fresh_ids_filter)
  have fk: "list_all (member_fk_ok c db) ?new"
    unfolding list_all_iff
  proof
    fix m assume "m \<in> set ?new"
    then have "m_key m \<in> {g} \<times> set us" using new_set by blast
    with assms(3) show "member_fk_ok c db m" by (auto simp: member_fk_ok_def m_key_def)
  qed
  show ?thesis
  proof (cases "distinct us")
    case True
    with uniq fk obtain db' where db': "set_group_user_ids_by_id c fresh now g us db = Inr db'"
      by (simp add: set_group_user_ids_by_id_def Let_def)
    from set_group_user_ids_mem [OF db'] assms(1) db' True show ?thesis
      by (auto simp: set_group_user_ids)
  next
    case False
    with uniq show ?thesis by (simp add: set_group_user_ids_by_id_def Let_def)
  qed
qed

theorem set_group_members_exact_witness:
  "\<exists>db'. set_group_user_ids_by_id sample_conf sample_fresh 9 ''g1'' [''ann'', ''cid''] sample_db = Inr db' \<and>
     set (get_group_user_ids_by_id db' ''g1'') = {''ann'', ''cid''}"
  using set_group_members_exact [of sample_db sample_fresh sample_conf "''g1''" "[''ann'', ''cid'']" 9] sample_ok
  by (auto simp: sample_conf_def)

text \<open>Adding a list of users that are all new to the group makes exactly them members.\<close>

theorem add_users_all_new:
  assumes "groups_ok db" and "fresh_ids fresh (db_members db)" and "group_exists db g" and "distinct us"
    and "\<forall>u\<in>set us. (g, u) \<notin> mem_rel db \<and> (enforce_fk c \<longrightarrow> user_exists c u)"
  shows "mem_rel (fst (add_users_to_group c fresh now g (Some us) db)) = mem_rel db \<union> {g} \<times> set us"
proof -
  from assms(3) obtain row where row: "get_group_by_id db g = Some row"
    using get_group_by_id_exists by blast
  have "mem_rel (add_users_loop c fresh g now db 0 db us) = mem_rel db \<union> {g} \<times> set us"
    by (rule add_users_loop_all) (use assms in \<open>auto simp: groups_ok_def\<close>)
  then show ?thesis by (simp add: add_users_db [OF row])
qed

theorem add_users_all_new_witness:
  "mem_rel (fst (add_users_to_group sample_conf sample_fresh 9 ''g1'' (Some [''ann'']) sample_db)) =
     mem_rel sample_db \<union> {''g1''} \<times> {''ann''}"
  using add_users_all_new [of sample_db sample_fresh "''g1''" "[''ann'']" sample_conf 9] sample_ok
  by (simp add: sample_conf_def)

text \<open>C4 A list that ends with a user who is already a member adds nobody: the refused row rolls
  back the rows inserted before it in the same call, although the group is reported as
  updated.\<close>

theorem add_users_existing_member_discards_all:
  assumes "group_exists db g" and "(g, v) \<in> mem_rel db"
  shows "mem_rel (fst (add_users_to_group c fresh now g (Some (us @ [v])) db)) = mem_rel db \<and>
     snd (add_users_to_group c fresh now g (Some (us @ [v])) db) \<noteq> None"
proof -
  from assms(1) obtain row where row: "get_group_by_id db g = Some row"
    using get_group_by_id_exists by blast
  let ?cur = "add_users_loop c fresh g now db 0 db us"
  have "set (db_members db) \<subseteq> set (db_members ?cur)"
    by (rule add_users_loop_members) simp
  then have "(g, v) \<in> m_key ` set (db_members ?cur)"
    using assms(2) by (auto simp: mem_rel_def)
  then have "\<not> members_unique (db_members ?cur @ [new_member i g now v])" for i
    by (auto simp: members_unique_def)
  then show ?thesis
    by (simp add: add_users_db [OF row] add_users_loop_append) (simp add: add_users_to_group_def row)
qed

theorem add_users_existing_member_discards_all_witness:
  "mem_rel (fst (add_users_to_group sample_conf sample_fresh 9 ''g1'' (Some [''ann'', ''bob'']) sample_db)) =
     mem_rel sample_db \<and> (''g1'', ''ann'') \<notin> mem_rel sample_db"
  using add_users_existing_member_discards_all [of sample_db "''g1''" "''bob''" sample_conf sample_fresh 9 "[''ann'']"]
    sample_ok by simp

text \<open>C3 Synchronising a user with a list of group names succeeds and leaves the user in exactly the
  existing groups with these names; nobody else's groups change.\<close>

theorem sync_groups_exact:
  assumes "groups_ok db" and "fresh_ids fresh (db_members db)" and "enforce_fk c \<longrightarrow> user_exists c u"
  shows "snd (sync_groups_by_group_names c fresh now u names db) \<and>
    group_id_set (fst (sync_groups_by_group_names c fresh now u names db)) v =
      (if v = u then target_ids db names else group_id_set db v)"
proof -
  note s = sync_mem [OF assms, where now = now and names = names]
  have "target_ids db names \<subseteq> {g. group_exists db g}"
    by (auto simp: target_ids_def group_exists_def)
  then show ?thesis
    by (auto simp: s(1) group_id_set_iff s(2,3))
qed

theorem sync_groups_exact_witness:
  "group_id_set (fst (sync_groups_by_group_names sample_conf sample_fresh 9 ''bob'' [''ops''] sample_db)) ''bob'' = {''g2''}"
proof -
  have "target_ids sample_db [''ops''] = {''g2''}"
    by (auto simp: target_ids_def sample_db_def)
  then show ?thesis
    using sync_groups_exact [of sample_db sample_fresh sample_conf "''bob''" 9 "[''ops'']" "''bob''"] sample_ok
    by (simp add: sample_conf_def)
qed

end
