(* ===== verification/Access_Grants.thy ===== *)
theory Access_Grants
  imports Group_Table
begin

text \<open>
  \<^verbatim>\<open>backend/openlaunch/models/access_grants.py\<close>: the table \<^verbatim>\<open>access_grant\<close>, the conversion
  between the legacy access-control dictionary and grants, the clean-up of grants that come
  in from API forms, and every operation and query of \<^verbatim>\<open>AccessGrantsTable\<close>. Form payloads
  are dynamic values; the legacy dictionary is its read and write entries.
\<close>

section \<open>State and payloads\<close>

record grant_row =
  gr_id :: string
  gr_resource_type :: string
  gr_resource_id :: string
  gr_principal_type :: string
  gr_principal_id :: string
  gr_permission :: string
  gr_created_at :: int

text \<open>A grant without its id and time: what the conversions hand to the table.\<close>

record grant_spec =
  gs_resource_type :: string
  gs_resource_id :: string
  gs_principal_type :: string
  gs_principal_id :: string
  gs_permission :: string

record perm_lists =
  group_ids :: "string list"
  user_ids :: "string list"

text \<open>The legacy dictionary \<^verbatim>\<open>{'read': ..., 'write': ...}\<close>; \<^verbatim>\<open>{}\<close> has neither entry.\<close>

record access_control =
  ac_read :: "perm_lists option"
  ac_write :: "perm_lists option"

definition gr_key :: "grant_row \<Rightarrow> string \<times> string \<times> string \<times> string \<times> string" where
  "gr_key r = (gr_resource_type r, gr_resource_id r, gr_principal_type r, gr_principal_id r, gr_permission r)"

definition gs_key :: "grant_spec \<Rightarrow> string \<times> string \<times> string \<times> string \<times> string" where
  "gs_key s = (gs_resource_type s, gs_resource_id s, gs_principal_type s, gs_principal_id s, gs_permission s)"

text \<open>Primary key and \<^verbatim>\<open>uq_access_grant_grant\<close>\<close>

definition grants_unique :: "grant_row list \<Rightarrow> bool" where
  "grants_unique rows = (distinct (map gr_id rows) \<and> distinct (map gr_key rows))"

definition gr_of_spec :: "string \<Rightarrow> int \<Rightarrow> grant_spec \<Rightarrow> grant_row" where
  "gr_of_spec i now s = \<lparr>gr_id = i, gr_resource_type = gs_resource_type s, gr_resource_id = gs_resource_id s,
     gr_principal_type = gs_principal_type s, gr_principal_id = gs_principal_id s,
     gr_permission = gs_permission s, gr_created_at = now\<rparr>"

fun gr_rows :: "(nat \<Rightarrow> string) \<Rightarrow> int \<Rightarrow> nat \<Rightarrow> grant_spec list \<Rightarrow> grant_row list" where
  "gr_rows fresh now i [] = []"
| "gr_rows fresh now i (s # ss) = gr_of_spec (fresh i) now s # gr_rows fresh now (Suc i) ss"

section \<open>Conversion from and to the legacy dictionary\<close>

definition spec_of :: "string \<Rightarrow> string \<Rightarrow> string \<Rightarrow> string \<Rightarrow> string \<Rightarrow> grant_spec" where
  "spec_of rt rid perm pt x = \<lparr>gs_resource_type = rt, gs_resource_id = rid, gs_principal_type = pt,
     gs_principal_id = x, gs_permission = perm\<rparr>"

definition perm_specs :: "string \<Rightarrow> string \<Rightarrow> string \<Rightarrow> perm_lists option \<Rightarrow> grant_spec list" where
  "perm_specs rt rid perm p = (case p of None \<Rightarrow> []
     | Some l \<Rightarrow> map (spec_of rt rid perm ''group'') (group_ids l) @ map (spec_of rt rid perm ''user'') (user_ids l))"

definition access_control_to_grants :: "string \<Rightarrow> string \<Rightarrow> access_control option \<Rightarrow> grant_spec list" where
  "access_control_to_grants rt rid ac = (case ac of
      None \<Rightarrow> if rt \<noteq> ''file''
        then [spec_of rt rid ''read'' ''user'' ''*''] else []
    | Some a \<Rightarrow> perm_specs rt rid ''read'' (ac_read a) @ perm_specs rt rid ''write'' (ac_write a))"

definition append_new :: "string \<Rightarrow> string list \<Rightarrow> string list" where
  "append_new x xs = (if x \<in> set xs then xs else xs @ [x])"

definition add_principal :: "grant_row \<Rightarrow> perm_lists \<Rightarrow> perm_lists" where
  "add_principal r l =
     (if gr_principal_type r = ''group'' then l\<lparr>group_ids := append_new (gr_principal_id r) (group_ids l)\<rparr>
      else if gr_principal_type r = ''user'' then l\<lparr>user_ids := append_new (gr_principal_id r) (user_ids l)\<rparr>
      else l)"

definition is_public_read :: "grant_row \<Rightarrow> bool" where
  "is_public_read r = (gr_principal_type r = ''user'' \<and> gr_principal_id r = ''*'' \<and> gr_permission r = ''read'')"

fun gtac_loop :: "grant_row list \<Rightarrow> bool \<Rightarrow> perm_lists \<Rightarrow> perm_lists \<Rightarrow> bool \<times> perm_lists \<times> perm_lists" where
  "gtac_loop [] pub rd wr = (pub, rd, wr)"
| "gtac_loop (r # rs) pub rd wr =
     (if is_public_read r then gtac_loop rs True rd wr
      else if gr_permission r = ''read'' then gtac_loop rs pub (add_principal r rd) wr
      else if gr_permission r = ''write'' then gtac_loop rs pub rd (add_principal r wr)
      else gtac_loop rs pub rd wr)"

definition no_principals :: perm_lists where
  "no_principals = \<lparr>group_ids = [], user_ids = []\<rparr>"

definition grants_to_access_control :: "grant_row list \<Rightarrow> access_control option" where
  "grants_to_access_control rows =
     (if rows = [] then Some \<lparr>ac_read = None, ac_write = None\<rparr>
      else (case gtac_loop rows False no_principals no_principals of
              (pub, rd, wr) \<Rightarrow> if pub then None else Some \<lparr>ac_read = Some rd, ac_write = Some wr\<rparr>))"

section \<open>Grants from API forms\<close>

record form_grant =
  fg_id :: string
  fg_type :: string
  fg_principal :: string
  fg_permission :: string

type_synonym grant_triple = "string \<times> string \<times> string"

text \<open>One entry: \<open>None\<close> where the loop continues without it.\<close>

definition clean_grant :: "string \<Rightarrow> pv \<Rightarrow> form_grant option" where
  "clean_grant new_id grant = (case grant of
      PDict d \<Rightarrow>
        (case as_str (od_getd d ''principal_type'' PNone) of None \<Rightarrow> None | Some pt \<Rightarrow>
        (case as_str (od_getd d ''permission'' PNone) of None \<Rightarrow> None | Some perm \<Rightarrow>
        (case as_str (od_getd d ''principal_id'' PNone) of None \<Rightarrow> None | Some pid \<Rightarrow>
           if pt \<noteq> ''user'' \<and> pt \<noteq> ''group'' then None
           else if perm \<noteq> ''read'' \<and> perm \<noteq> ''write'' then None
           else if pid = [] then None
           else Some \<lparr>fg_id = (case as_str (od_getd d ''id'' PNone) of
                               Some i \<Rightarrow> if i \<noteq> [] then i else new_id | None \<Rightarrow> new_id),
                      fg_type = pt, fg_principal = pid, fg_permission = perm\<rparr>)))
    | _ \<Rightarrow> None)"

definition fg_key :: "form_grant \<Rightarrow> grant_triple" where
  "fg_key g = (fg_type g, fg_principal g, fg_permission g)"

fun normalize_loop :: "(nat \<Rightarrow> string) \<Rightarrow> nat \<Rightarrow> pv list \<Rightarrow> (grant_triple, form_grant) od \<Rightarrow> (grant_triple, form_grant) od" where
  "normalize_loop fresh i [] acc = acc"
| "normalize_loop fresh i (g # gs) acc =
     normalize_loop fresh (Suc i) gs
       (case clean_grant (fresh i) g of None \<Rightarrow> acc | Some e \<Rightarrow> od_set (fg_key e) e acc)"

definition normalize_access_grants :: "(nat \<Rightarrow> string) \<Rightarrow> pv list \<Rightarrow> form_grant list" where
  "normalize_access_grants fresh grants = map snd (normalize_loop fresh 0 grants [])"

definition has_public_read_access_grant :: "(nat \<Rightarrow> string) \<Rightarrow> pv list \<Rightarrow> bool" where
  "has_public_read_access_grant fresh grants =
     (\<exists>g\<in>set (normalize_access_grants fresh grants).
        fg_type g = ''user'' \<and> fg_principal g = ''*'' \<and> fg_permission g = ''read'')"

definition has_public_write_access_grant :: "(nat \<Rightarrow> string) \<Rightarrow> pv list \<Rightarrow> bool" where
  "has_public_write_access_grant fresh grants =
     (\<exists>g\<in>set (normalize_access_grants fresh grants).
        fg_type g = ''user'' \<and> fg_principal g = ''*'' \<and> fg_permission g = ''write'')"

definition has_user_access_grant :: "(nat \<Rightarrow> string) \<Rightarrow> pv list \<Rightarrow> bool" where
  "has_user_access_grant fresh grants =
     (\<exists>g\<in>set (normalize_access_grants fresh grants). fg_type g = ''user'' \<and> fg_principal g \<noteq> ''*'')"

text \<open>\<^verbatim>\<open>grant.get(k)\<close> of a dict, \<^verbatim>\<open>getattr(grant, k, None)\<close> of anything else\<close>

definition grant_attr :: "pv \<Rightarrow> string \<Rightarrow> pv" where
  "grant_attr v k = (case v of PDict d \<Rightarrow> od_getd d k PNone | _ \<Rightarrow> PNone)"

definition strip_user_access_grants :: "pv list \<Rightarrow> pv list" where
  "strip_user_access_grants grants =
     filter (\<lambda>g. \<not> (grant_attr g ''principal_type'' = PStr ''user'' \<and>
                    grant_attr g ''principal_id'' \<noteq> PStr ''*'')) grants"

section \<open>Operations on the table\<close>

definition at_resource :: "string \<Rightarrow> string \<Rightarrow> grant_row \<Rightarrow> bool" where
  "at_resource rt rid r = (gr_resource_type r = rt \<and> gr_resource_id r = rid)"

definition grant_access :: "string \<Rightarrow> int \<Rightarrow> grant_spec \<Rightarrow> grant_row list \<Rightarrow> (grant_row list \<times> grant_row) res" where
  "grant_access new_id now s rows =
     (case List.find (\<lambda>r. gr_key r = gs_key s) rows of
        Some r \<Rightarrow> Inr (rows, r)
      | None \<Rightarrow> (let r = gr_of_spec new_id now s in
          if grants_unique (rows @ [r]) then Inr (rows @ [r], r) else Inl IntegrityError))"

definition revoke_access :: "grant_spec \<Rightarrow> grant_row list \<Rightarrow> grant_row list \<times> bool" where
  "revoke_access s rows =
     (let rows' = filter (\<lambda>r. gr_key r \<noteq> gs_key s) rows in (rows', length rows > length rows'))"

definition revoke_all_access :: "string \<Rightarrow> string \<Rightarrow> grant_row list \<Rightarrow> grant_row list \<times> nat" where
  "revoke_all_access rt rid rows =
     (filter (\<lambda>r. \<not> at_resource rt rid r) rows, length (filter (at_resource rt rid) rows))"

text \<open>Delete the resource's grants, insert the new ones, commit.\<close>

definition replace_grants ::
  "(nat \<Rightarrow> string) \<Rightarrow> int \<Rightarrow> string \<Rightarrow> string \<Rightarrow> grant_spec list \<Rightarrow> grant_row list \<Rightarrow> (grant_row list \<times> grant_row list) res" where
  "replace_grants fresh now rt rid specs rows =
     (let kept = filter (\<lambda>r. \<not> at_resource rt rid r) rows; added = gr_rows fresh now 0 specs
      in if grants_unique (kept @ added) then Inr (kept @ added, added) else Inl IntegrityError)"

definition set_access_control ::
  "(nat \<Rightarrow> string) \<Rightarrow> int \<Rightarrow> string \<Rightarrow> string \<Rightarrow> access_control option \<Rightarrow> grant_row list \<Rightarrow> (grant_row list \<times> grant_row list) res" where
  "set_access_control fresh now rt rid ac rows =
     replace_grants fresh now rt rid (access_control_to_grants rt rid ac) rows"

text \<open>\<open>gfresh\<close> are the ids that the clean-up generates, which the table then ignores.\<close>

definition set_access_grants ::
  "(nat \<Rightarrow> string) \<Rightarrow> (nat \<Rightarrow> string) \<Rightarrow> int \<Rightarrow> string \<Rightarrow> string \<Rightarrow> pv list \<Rightarrow> grant_row list \<Rightarrow> (grant_row list \<times> grant_row list) res" where
  "set_access_grants gfresh fresh now rt rid grants rows =
     replace_grants fresh now rt rid
       (map (\<lambda>g. spec_of rt rid (fg_permission g) (fg_type g) (fg_principal g))
          (normalize_access_grants gfresh grants)) rows"

definition get_grants_by_resource :: "string \<Rightarrow> string \<Rightarrow> grant_row list \<Rightarrow> grant_row list" where
  "get_grants_by_resource rt rid rows = filter (at_resource rt rid) rows"

definition get_access_control :: "string \<Rightarrow> string \<Rightarrow> grant_row list \<Rightarrow> access_control option" where
  "get_access_control rt rid rows = grants_to_access_control (filter (at_resource rt rid) rows)"

definition get_grants_by_resources :: "string \<Rightarrow> string list \<Rightarrow> grant_row list \<Rightarrow> (string, grant_row list) od" where
  "get_grants_by_resources rt rids rows = map (\<lambda>rid. (rid, filter (at_resource rt rid) rows)) (dedup rids)"

section \<open>Decisions\<close>

text \<open>The disjunction of the principal conditions, given the caller's groups.\<close>

definition principal_matches :: "string \<Rightarrow> string set \<Rightarrow> grant_row \<Rightarrow> bool" where
  "principal_matches uid gids r =
     ((gr_principal_type r = ''user'' \<and> gr_principal_id r = ''*'') \<or>
      (gr_principal_type r = ''user'' \<and> gr_principal_id r = uid) \<or>
      (gr_principal_type r = ''group'' \<and> gr_principal_id r \<in> gids))"

definition resolve_groups :: "group_db \<Rightarrow> string \<Rightarrow> string set option \<Rightarrow> string set" where
  "resolve_groups db uid gids = (case gids of None \<Rightarrow> group_id_set db uid | Some G \<Rightarrow> G)"

definition grants_has_access ::
  "group_db \<Rightarrow> grant_row list \<Rightarrow> string \<Rightarrow> string \<Rightarrow> string \<Rightarrow> string \<Rightarrow> string set option \<Rightarrow> bool" where
  "grants_has_access db rows uid rt rid perm gids =
     (let G = resolve_groups db uid gids in
      filter (\<lambda>r. gr_resource_type r = rt \<and> gr_resource_id r = rid \<and> gr_permission r = perm
                  \<and> principal_matches uid G r) rows \<noteq> [])"

definition get_accessible_resource_ids ::
  "group_db \<Rightarrow> grant_row list \<Rightarrow> string \<Rightarrow> string \<Rightarrow> string list \<Rightarrow> string \<Rightarrow> string set option \<Rightarrow> string set" where
  "get_accessible_resource_ids db rows uid rt rids perm gids =
     (if rids = [] then {}
      else (let G = resolve_groups db uid gids in
        set (map gr_resource_id (filter (\<lambda>r. gr_resource_type r = rt \<and> gr_resource_id r \<in> set rids
                  \<and> gr_permission r = perm \<and> principal_matches uid G r) rows))))"

text \<open>The users: their ids and roles.\<close>

record user_row =
  u_id :: string
  u_role :: string

definition users_with_roles :: "string list \<Rightarrow> user_row list \<Rightarrow> user_row list" where
  "users_with_roles roles users =
     (let inc = filter (\<lambda>r. \<not> py_startswith r ''!'') roles;
          exc = map tl (filter (\<lambda>r. py_startswith r ''!'') roles)
      in filter (\<lambda>u. (inc = [] \<or> u_role u \<in> set inc) \<and> (exc = [] \<or> u_role u \<notin> set exc)) users)"

definition users_by_ids :: "string set \<Rightarrow> user_row list \<Rightarrow> user_row list" where
  "users_by_ids ids users = filter (\<lambda>u. u_id u \<in> ids) users"

definition get_users_with_access ::
  "group_db \<Rightarrow> user_row list \<Rightarrow> grant_row list \<Rightarrow> string \<Rightarrow> string \<Rightarrow> string \<Rightarrow> user_row list" where
  "get_users_with_access db users rows rt rid perm =
     (let grants = filter (\<lambda>r. at_resource rt rid r \<and> gr_permission r = perm) rows;
          ids = (\<Union>r\<in>set grants.
            if gr_principal_type r = ''user'' then {gr_principal_id r}
            else if gr_principal_type r = ''group'' then set (get_group_user_ids_by_id db (gr_principal_id r))
            else {})
      in if \<exists>r\<in>set grants. gr_principal_type r = ''user'' \<and> gr_principal_id r = ''*''
         then users_with_roles [''!pending''] users
         else if ids = {} then [] else users_by_ids ids users)"

section \<open>Filters over a document query\<close>

text \<open>A document is its id and its owner; the query is the list of its documents so far.
  An absent user id or an empty group list leaves its condition out.\<close>

record document =
  d_id :: string
  d_user_id :: string

definition grant_exists :: "grant_row list \<Rightarrow> string \<Rightarrow> string \<Rightarrow> document \<Rightarrow> (grant_row \<Rightarrow> bool) \<Rightarrow> bool" where
  "grant_exists rows rt perm doc cond =
     (\<exists>r\<in>set rows. at_resource rt (d_id doc) r \<and> gr_permission r = perm \<and> cond r)"

definition direct_principal :: "string list \<Rightarrow> string option \<Rightarrow> grant_row \<Rightarrow> bool" where
  "direct_principal gids uid r =
     ((case uid of None \<Rightarrow> False | Some u \<Rightarrow> u \<noteq> [] \<and> gr_principal_type r = ''user'' \<and> gr_principal_id r = u) \<or>
      (gids \<noteq> [] \<and> gr_principal_type r = ''group'' \<and> gr_principal_id r \<in> set gids))"

definition uid_given :: "string option \<Rightarrow> bool" where
  "uid_given uid = (case uid of None \<Rightarrow> False | Some u \<Rightarrow> u \<noteq> [])"

definition owns :: "string option \<Rightarrow> document \<Rightarrow> bool" where
  "owns uid doc = (uid_given uid \<and> Some (d_user_id doc) = uid)"

text \<open>An empty \<^verbatim>\<open>or_()\<close> restricts nothing.\<close>

definition direct_or_none :: "string list \<Rightarrow> string option \<Rightarrow> grant_row \<Rightarrow> bool" where
  "direct_or_none gids uid r = (if gids = [] \<and> \<not> uid_given uid then True else direct_principal gids uid r)"

definition read_only_permission_filter ::
  "grant_row list \<Rightarrow> string \<Rightarrow> string list \<Rightarrow> string option \<Rightarrow> document list \<Rightarrow> document list" where
  "read_only_permission_filter rows rt gids uid docs =
     filter (\<lambda>d. grant_exists rows rt ''read'' d (direct_or_none gids uid)
              \<and> \<not> grant_exists rows rt ''write'' d (direct_or_none gids uid)
              \<and> \<not> grant_exists rows rt ''read'' d (\<lambda>r. gr_principal_type r = ''user'' \<and> gr_principal_id r = ''*'')
              \<and> (uid_given uid \<longrightarrow> Some (d_user_id d) \<noteq> uid)) docs"

definition has_permission_filter ::
  "grant_row list \<Rightarrow> string \<Rightarrow> string \<Rightarrow> string list \<Rightarrow> string option \<Rightarrow> document list \<Rightarrow> document list" where
  "has_permission_filter rows rt perm gids uid docs =
     (if perm = ''read_only'' then read_only_permission_filter rows rt gids uid docs
      else if gids = [] \<and> \<not> uid_given uid then docs
      else filter (\<lambda>d. grant_exists rows rt perm d
               (\<lambda>r. (gr_principal_type r = ''user'' \<and> gr_principal_id r = ''*'') \<or> direct_principal gids uid r)
             \<or> owns uid d) docs)"


section \<open>The decision as a predicate on the grants\<close>

definition has_grant :: "grant_row list \<Rightarrow> string \<Rightarrow> string set \<Rightarrow> string \<Rightarrow> string \<Rightarrow> string \<Rightarrow> bool" where
  "has_grant rows uid G rt rid perm =
     (\<exists>r\<in>set rows. at_resource rt rid r \<and> gr_permission r = perm \<and> principal_matches uid G r)"

lemma grants_has_access_iff:
  "grants_has_access db rows uid rt rid perm gids = has_grant rows uid (resolve_groups db uid gids) rt rid perm"
  by (auto simp: grants_has_access_def has_grant_def at_resource_def filter_empty_conv)

lemma has_grant_mono: "G \<subseteq> H \<Longrightarrow> has_grant rows u G rt rid p \<Longrightarrow> has_grant rows u H rt rid p"
  by (fastforce simp: has_grant_def principal_matches_def)

lemma has_grant_append:
  "has_grant (xs @ ys) u G rt rid p \<longleftrightarrow> has_grant xs u G rt rid p \<or> has_grant ys u G rt rid p"
  by (auto simp: has_grant_def)

lemma has_grant_kept:
  "has_grant (filter (\<lambda>r. \<not> at_resource rt rid r) rows) u G rt' rid' p \<longleftrightarrow>
     (rt', rid') \<noteq> (rt, rid) \<and> has_grant rows u G rt' rid' p"
  by (auto simp: has_grant_def at_resource_def)

lemma grants_unique_filter [simp, intro]: "grants_unique rows \<Longrightarrow> grants_unique (filter P rows)"
  by (simp add: grants_unique_def)

interpretation gstore: grant_store grants_unique has_grant "\<lambda>rt rid rows. fst (revoke_all_access rt rid rows)"
  by unfold_locales (auto simp: revoke_all_access_def has_grant_kept intro: has_grant_mono)

section \<open>Rows for a list of specifications\<close>

definition fresh_grant_ids :: "(nat \<Rightarrow> string) \<Rightarrow> grant_row list \<Rightarrow> bool" where
  "fresh_grant_ids fresh rows = (inj fresh \<and> (\<forall>i. fresh i \<notin> gr_id ` set rows))"

definition spec_at :: "string \<Rightarrow> string \<Rightarrow> grant_spec \<Rightarrow> bool" where
  "spec_at rt rid s = (gs_resource_type s = rt \<and> gs_resource_id s = rid)"

lemma gr_of_spec_simps [simp]:
  "gr_id (gr_of_spec i now s) = i" "gr_key (gr_of_spec i now s) = gs_key s"
  "at_resource rt rid (gr_of_spec i now s) = spec_at rt rid s"
  "gr_permission (gr_of_spec i now s) = gs_permission s"
  "gr_principal_type (gr_of_spec i now s) = gs_principal_type s"
  "gr_principal_id (gr_of_spec i now s) = gs_principal_id s"
  by (simp_all add: gr_of_spec_def gr_key_def gs_key_def at_resource_def spec_at_def)

lemma gr_rows_keys: "map gr_key (gr_rows fresh now i ss) = map gs_key ss"
  by (induction ss arbitrary: i) auto

lemma gr_rows_ids: "map gr_id (gr_rows fresh now i ss) = map fresh [i..<i + length ss]"
  by (induction ss arbitrary: i) (auto simp: upt_conv_Cons simp del: upt_Suc)

lemma gr_rows_at: "\<forall>s\<in>set ss. spec_at rt rid s \<Longrightarrow>
   r \<in> set (gr_rows fresh now i ss) \<Longrightarrow> at_resource rt rid r"
  by (induction ss arbitrary: i) (auto simp: Ball_def)

text \<open>Replacing the grants of a resource succeeds exactly when no specification is repeated.\<close>

lemma replace_grants_iff:
  assumes "grants_unique rows" and "fresh_grant_ids fresh rows"
    and at: "\<forall>s\<in>set ss. spec_at rt rid s"
  shows "replace_grants fresh now rt rid ss rows =
    (if distinct (map gs_key ss)
     then Inr (filter (\<lambda>r. \<not> at_resource rt rid r) rows @ gr_rows fresh now 0 ss, gr_rows fresh now 0 ss)
     else Inl IntegrityError)"
proof -
  let ?kept = "filter (\<lambda>r. \<not> at_resource rt rid r) rows"
  let ?new = "gr_rows fresh now 0 ss"
  have inj: "inj fresh" and fresh: "fresh i \<notin> gr_id ` set rows" for i
    using assms(2) by (simp_all add: fresh_grant_ids_def)
  have "gr_id ` set ?new \<subseteq> range fresh"
    using gr_rows_ids [of fresh now 0 ss] by (metis image_set image_subset_iff rangeI set_map)
  then have ids: "gr_id ` set ?kept \<inter> gr_id ` set ?new = {}"
    using fresh unfolding disjoint_iff by (metis (no_types, lifting) filter_is_subset image_iff image_subset_iff rangeE subset_iff)
  have "fst (gr_key r) = rt \<and> fst (snd (gr_key r)) = rid" if "r \<in> set ?new" for r
    using gr_rows_at [OF at that] by (simp add: at_resource_def gr_key_def)
  moreover have "\<not> (fst (gr_key r) = rt \<and> fst (snd (gr_key r)) = rid)" if "r \<in> set ?kept" for r
    using that by (simp add: at_resource_def gr_key_def)
  ultimately have "gr_key ` set ?kept \<inter> gr_key ` set ?new = {}"
    unfolding disjoint_iff by (metis imageE)
  moreover note ids
  moreover have "distinct (map gr_id ?new)"
    using inj by (auto simp: gr_rows_ids distinct_map intro: inj_on_subset)
  moreover have "distinct (map gr_key ?new) = distinct (map gs_key ss)"
    by (simp only: gr_rows_keys)
  ultimately have "grants_unique (?kept @ ?new) = distinct (map gs_key ss)"
    using assms(1) by (simp add: grants_unique_def)
  then show ?thesis by (simp add: replace_grants_def Let_def)
qed

text \<open>A specification that lets the user through\<close>

definition spec_admits :: "string \<Rightarrow> string set \<Rightarrow> string \<Rightarrow> grant_spec \<Rightarrow> bool" where
  "spec_admits u G p s = (gs_permission s = p \<and>
     ((gs_principal_type s = ''user'' \<and> (gs_principal_id s = ''*'' \<or> gs_principal_id s = u)) \<or>
      (gs_principal_type s = ''group'' \<and> gs_principal_id s \<in> G)))"

lemma has_grant_simps [simp]:
  "\<not> has_grant [] u G rt rid p"
  "has_grant (r # rows) u G rt rid p \<longleftrightarrow>
     (at_resource rt rid r \<and> gr_permission r = p \<and> principal_matches u G r) \<or> has_grant rows u G rt rid p"
  by (auto simp: has_grant_def)

lemma principal_matches_spec:
  "gr_permission (gr_of_spec i now s) = p \<and> principal_matches u G (gr_of_spec i now s) \<longleftrightarrow> spec_admits u G p s"
  unfolding principal_matches_def spec_admits_def gr_of_spec_simps by blast

lemma gr_rows_has_grant:
  "\<forall>s\<in>set ss. spec_at rt rid s \<Longrightarrow>
   has_grant (gr_rows fresh now i ss) u G rt rid p \<longleftrightarrow> (\<exists>s\<in>set ss. spec_admits u G p s)"
proof (induction ss arbitrary: i)
  case Nil
  then show ?case by simp
next
  case (Cons s ss)
  then show ?case
    using principal_matches_spec [of "fresh i" now s p u G] by simp
qed

lemma replace_has_grant:
  assumes "replace_grants fresh now rt rid ss rows = Inr (rows', added)"
    and "\<forall>s\<in>set ss. spec_at rt rid s"
  shows "has_grant rows' u G rt' rid' p =
    (if (rt', rid') = (rt, rid) then (\<exists>s\<in>set ss. spec_admits u G p s) else has_grant rows u G rt' rid' p)"
proof -
  from assms(1) have rows': "rows' = filter (\<lambda>r. \<not> at_resource rt rid r) rows @ gr_rows fresh now 0 ss"
    by (auto simp: replace_grants_def Let_def split: if_splits)
  have "\<not> has_grant (gr_rows fresh now 0 ss) u G rt' rid' p" if "(rt', rid') \<noteq> (rt, rid)"
    using gr_rows_at [OF assms(2)] that unfolding has_grant_def at_resource_def by fastforce
  then show ?thesis
    using gr_rows_has_grant [OF assms(2)]
    by (auto simp: rows' has_grant_append has_grant_kept)
qed

section \<open>The clean-up of form grants\<close>

text \<open>A form entry that the clean-up keeps, by its meaning.\<close>

definition valid_entry :: "pv \<Rightarrow> grant_triple \<Rightarrow> bool" where
  "valid_entry g k = (\<exists>e. clean_grant [] g = Some e \<and> fg_key e = k)"

lemma clean_grant_Some:
  "clean_grant i g = Some e \<Longrightarrow> \<exists>d. g = PDict d \<and> od_getd d ''principal_type'' PNone = PStr (fg_type e) \<and>
     od_getd d ''principal_id'' PNone = PStr (fg_principal e) \<and>
     od_getd d ''permission'' PNone = PStr (fg_permission e) \<and>
     (fg_type e = ''user'' \<or> fg_type e = ''group'') \<and>
     (fg_permission e = ''read'' \<or> fg_permission e = ''write'') \<and> fg_principal e \<noteq> []"
  unfolding clean_grant_def by (cases g) (auto split: option.split_asm if_split_asm)

lemma clean_grant_PDict:
  assumes "od_getd d ''principal_type'' PNone = PStr pt" and "od_getd d ''principal_id'' PNone = PStr pid"
    and "od_getd d ''permission'' PNone = PStr perm" and "pt = ''user'' \<or> pt = ''group''"
    and "perm = ''read'' \<or> perm = ''write''" and "pid \<noteq> []"
  shows "\<exists>e. clean_grant i (PDict d) = Some e \<and> fg_key e = (pt, pid, perm)"
  using assms by (auto simp: clean_grant_def fg_key_def)

lemma valid_entry_iff:
  "valid_entry g (pt, pid, perm) \<longleftrightarrow> (\<exists>d. g = PDict d \<and> od_getd d ''principal_type'' PNone = PStr pt \<and>
     od_getd d ''principal_id'' PNone = PStr pid \<and> od_getd d ''permission'' PNone = PStr perm \<and>
     (pt = ''user'' \<or> pt = ''group'') \<and> (perm = ''read'' \<or> perm = ''write'') \<and> pid \<noteq> [])"
  (is "?l = ?r")
proof
  assume ?l
  then obtain e where "clean_grant [] g = Some e" and "fg_key e = (pt, pid, perm)"
    by (auto simp: valid_entry_def)
  then show ?r using clean_grant_Some [of "[]" g e] by (simp add: fg_key_def)
next
  assume ?r
  then show ?l unfolding valid_entry_def using clean_grant_PDict by blast
qed

lemma valid_entry_key:
  "valid_entry g k \<longleftrightarrow> (\<exists>e. clean_grant i g = Some e \<and> fg_key e = k)"
proof -
  obtain pt pid perm where k: "k = (pt, pid, perm)" by (cases k)
  show ?thesis
  proof
    assume "valid_entry g k"
    then show "\<exists>e. clean_grant i g = Some e \<and> fg_key e = k"
      unfolding k valid_entry_iff using clean_grant_PDict by blast
  next
    assume "\<exists>e. clean_grant i g = Some e \<and> fg_key e = k"
    then show "valid_entry g k"
      using clean_grant_Some [of i g] unfolding k valid_entry_iff fg_key_def by fastforce
  qed
qed

definition acc_ok :: "(grant_triple, form_grant) od \<Rightarrow> bool" where
  "acc_ok acc = (od_ok acc \<and> map fst acc = map (fg_key \<circ> snd) acc)"

lemma acc_ok_set: "acc_ok acc \<Longrightarrow> acc_ok (od_set (fg_key e) e acc)"
proof -
  assume ok: "acc_ok acc"
  have "map fst acc = map (fg_key \<circ> snd) acc \<Longrightarrow>
      map fst (od_set (fg_key e) e acc) = map (fg_key \<circ> snd) (od_set (fg_key e) e acc)" for acc
    by (induction acc) auto
  with ok show ?thesis by (auto simp: acc_ok_def)
qed

lemma normalize_loop_inv:
  "acc_ok acc \<Longrightarrow> acc_ok (normalize_loop fresh i gs acc) \<and>
     fst ` set (normalize_loop fresh i gs acc) = fst ` set acc \<union> {k. \<exists>g\<in>set gs. valid_entry g k}"
proof (induction gs arbitrary: i acc)
  case Nil
  then show ?case by simp
next
  case (Cons g gs)
  let ?acc = "case clean_grant (fresh i) g of None \<Rightarrow> acc | Some e \<Rightarrow> od_set (fg_key e) e acc"
  have "fst ` set ?acc = fst ` set acc \<union> {k. valid_entry g k}"
    by (auto simp: valid_entry_key [where i = "fresh i"] dom_update split: option.splits)
  moreover have "acc_ok ?acc"
    using Cons.prems by (auto simp: acc_ok_set split: option.splits)
  ultimately show ?case
    using Cons.IH [of ?acc "Suc i"] by auto
qed

lemma acc_ok_Nil: "acc_ok []"
  by (simp add: acc_ok_def)

lemma normalize_keys:
  "map fg_key (normalize_access_grants fresh gs) = map fst (normalize_loop fresh 0 gs [])"
  using normalize_loop_inv [OF acc_ok_Nil, of fresh 0 gs]
  by (simp add: normalize_access_grants_def acc_ok_def)

lemma normalize_distinct: "distinct (map fg_key (normalize_access_grants fresh gs))"
  using normalize_loop_inv [OF acc_ok_Nil, of fresh 0 gs]
  by (simp add: normalize_keys acc_ok_def od_ok_def)

lemma normalize_set: "fg_key ` set (normalize_access_grants fresh gs) = {k. \<exists>g\<in>set gs. valid_entry g k}"
proof -
  have "fg_key ` set (normalize_access_grants fresh gs) = fst ` set (normalize_loop fresh 0 gs [])"
    using normalize_keys [of fresh gs] by (metis image_set)
  then show ?thesis using normalize_loop_inv [OF acc_ok_Nil, of fresh 0 gs] by simp
qed

lemma normalize_ex:
  "(\<exists>g\<in>set (normalize_access_grants fresh gs). Q (fg_key g)) \<longleftrightarrow> (\<exists>g\<in>set gs. \<exists>k. valid_entry g k \<and> Q k)"
proof -
  have "(\<exists>g\<in>set (normalize_access_grants fresh gs). Q (fg_key g)) \<longleftrightarrow>
      (\<exists>k\<in>fg_key ` set (normalize_access_grants fresh gs). Q k)" by simp
  then show ?thesis unfolding normalize_set by auto
qed

section \<open>The legacy round trip\<close>

lemma gr_rows_append:
  "gr_rows fresh now i (xs @ ys) = gr_rows fresh now i xs @ gr_rows fresh now (i + length xs) ys"
  by (induction xs arbitrary: i) auto

lemma gtac_loop_append:
  "gtac_loop (xs @ ys) pub rd wr = (case gtac_loop xs pub rd wr of (p, r, w) \<Rightarrow> gtac_loop ys p r w)"
  by (induction xs pub rd wr rule: gtac_loop.induct) auto

definition pl_append :: "perm_lists \<Rightarrow> perm_lists option \<Rightarrow> perm_lists" where
  "pl_append l p = (case p of None \<Rightarrow> l
     | Some m \<Rightarrow> \<lparr>group_ids = group_ids l @ group_ids m, user_ids = user_ids l @ user_ids m\<rparr>)"

lemma spec_of_simps [simp]:
  "gs_permission (spec_of rt rid perm pt x) = perm" "gs_principal_type (spec_of rt rid perm pt x) = pt"
  "gs_principal_id (spec_of rt rid perm pt x) = x" "spec_at rt rid (spec_of rt rid perm pt x)"
  "gs_key (spec_of rt rid perm pt x) = (rt, rid, pt, x, perm)"
  by (simp_all add: spec_of_def spec_at_def gs_key_def)

lemma spec_of_eq [simp]: "spec_of rt rid perm pt x = spec_of rt rid perm qt y \<longleftrightarrow> pt = qt \<and> x = y"
  by (simp add: spec_of_def)

lemma perm_specs_at: "\<forall>s\<in>set (perm_specs rt rid perm p). spec_at rt rid s"
  by (auto simp: perm_specs_def split: option.splits)

lemma gtac_groups:
  assumes "perm = ''read'' \<or> perm = ''write''"
  shows "distinct gs \<Longrightarrow> set gs \<inter> set (group_ids (if perm = ''read'' then rd else wr)) = {} \<Longrightarrow>
    gtac_loop (gr_rows fresh now i (map (spec_of rt rid perm ''group'') gs)) pub rd wr =
      (pub, if perm = ''read'' then rd\<lparr>group_ids := group_ids rd @ gs\<rparr> else rd,
            if perm = ''read'' then wr else wr\<lparr>group_ids := group_ids wr @ gs\<rparr>)"
  using assms
proof (induction gs arbitrary: i rd wr)
  case Nil
  then show ?case by auto
next
  case (Cons g gs)
  have "\<not> is_public_read (gr_of_spec (fresh i) now (spec_of rt rid perm ''group'' g))"
    by (simp add: is_public_read_def)
  with Cons.prems Cons.IH [where i = "Suc i"] show ?case
    by (auto simp: add_principal_def append_new_def)
qed

lemma gtac_users:
  assumes "perm = ''read'' \<or> perm = ''write''"
  shows "distinct us \<Longrightarrow> (perm = ''read'' \<longrightarrow> ''*'' \<notin> set us) \<Longrightarrow>
    set us \<inter> set (user_ids (if perm = ''read'' then rd else wr)) = {} \<Longrightarrow>
    gtac_loop (gr_rows fresh now i (map (spec_of rt rid perm ''user'') us)) pub rd wr =
      (pub, if perm = ''read'' then rd\<lparr>user_ids := user_ids rd @ us\<rparr> else rd,
            if perm = ''read'' then wr else wr\<lparr>user_ids := user_ids wr @ us\<rparr>)"
  using assms
proof (induction us arbitrary: i rd wr)
  case Nil
  then show ?case by auto
next
  case (Cons u us)
  have "\<not> is_public_read (gr_of_spec (fresh i) now (spec_of rt rid perm ''user'' u))"
    using Cons.prems(2,4) by (auto simp: is_public_read_def)
  with Cons.prems Cons.IH [where i = "Suc i"] show ?case
    by (auto simp: add_principal_def append_new_def)
qed

definition pl_distinct :: "perm_lists option \<Rightarrow> bool" where
  "pl_distinct p = (case p of None \<Rightarrow> True | Some l \<Rightarrow> distinct (group_ids l) \<and> distinct (user_ids l))"

definition pl_users :: "perm_lists option \<Rightarrow> string list" where
  "pl_users p = (case p of None \<Rightarrow> [] | Some l \<Rightarrow> user_ids l)"

lemma gtac_perm:
  assumes "pl_distinct p" and "''*'' \<notin> set (pl_users p)"
  shows "gtac_loop (gr_rows fresh now i (perm_specs rt rid ''read'' p)) pub no_principals wr =
           (pub, pl_append no_principals p, wr)"
    and "gtac_loop (gr_rows fresh now i (perm_specs rt rid ''write'' p)) pub rd no_principals =
           (pub, rd, pl_append no_principals p)"
  using assms
  by (auto simp: perm_specs_def gr_rows_append gtac_loop_append gtac_groups gtac_users no_principals_def
      pl_append_def pl_distinct_def pl_users_def split: option.splits)

lemma perm_specs_distinct:
  "distinct (map gs_key (perm_specs rt rid perm p)) \<longleftrightarrow> pl_distinct p"
  by (auto simp: perm_specs_def pl_distinct_def distinct_map inj_on_def comp_def image_iff
      split: option.splits)

lemma ac_specs_distinct:
  "distinct (map gs_key (access_control_to_grants rt rid (Some a))) \<longleftrightarrow>
     pl_distinct (ac_read a) \<and> pl_distinct (ac_write a)"
proof -
  have "gs_key ` set (perm_specs rt rid ''read'' p) \<inter> gs_key ` set (perm_specs rt rid ''write'' q) = {}" for p q
    by (auto simp: perm_specs_def split: option.splits)
  then show ?thesis
    using perm_specs_distinct by (simp add: access_control_to_grants_def)
qed

lemma ac_specs_at: "\<forall>s\<in>set (access_control_to_grants rt rid ac). spec_at rt rid s"
proof (cases ac)
  case None
  then show ?thesis by (simp add: access_control_to_grants_def)
next
  case (Some a)
  then show ?thesis using perm_specs_at by (fastforce simp: access_control_to_grants_def)
qed

lemma get_after_replace:
  assumes "replace_grants fresh now rt rid ss rows = Inr (rows', added)" and "\<forall>s\<in>set ss. spec_at rt rid s"
  shows "filter (at_resource rt rid) rows' = gr_rows fresh now 0 ss"
proof -
  have "rows' = filter (\<lambda>r. \<not> at_resource rt rid r) rows @ gr_rows fresh now 0 ss"
    using assms(1) by (auto simp: replace_grants_def Let_def split: if_splits)
  moreover have "filter (at_resource rt rid) (gr_rows fresh now 0 ss) = gr_rows fresh now 0 ss"
    using gr_rows_at [OF assms(2)] by (simp add: filter_id_conv)
  ultimately show ?thesis by (simp add: filter_filter)
qed

section \<open>Properties\<close>

definition sample_rows :: "grant_row list" where
  "sample_rows = [\<lparr>gr_id = ''a1'', gr_resource_type = ''note'', gr_resource_id = ''n1'',
      gr_principal_type = ''group'', gr_principal_id = ''g1'', gr_permission = ''read'', gr_created_at = 0\<rparr>]"

definition sample_form :: "pv list" where
  "sample_form = [PDict [(''principal_type'', PStr ''user''), (''principal_id'', PStr ''ann''), (''permission'', PStr ''write'')],
     PStr ''junk'',
     PDict [(''principal_type'', PStr ''user''), (''principal_id'', PStr ''ann''), (''permission'', PStr ''write'')]]"

lemma sample_rows_ok: "grants_unique sample_rows" "fresh_grant_ids sample_fresh sample_rows"
  by (auto simp: sample_rows_def grants_unique_def fresh_grant_ids_def sample_fresh_def inj_def)

text \<open>What is stored from a form, by its entries\<close>

lemma stored_form_admits:
  assumes "set_access_grants gfresh fresh now rt rid form rows = Inr (rows', added)"
  shows "has_grant rows' u G rt' rid' p =
    (if (rt', rid') = (rt, rid)
     then \<exists>g\<in>set form. \<exists>pt pid. valid_entry g (pt, pid, p) \<and>
            ((pt = ''user'' \<and> (pid = ''*'' \<or> pid = u)) \<or> (pt = ''group'' \<and> pid \<in> G))
     else has_grant rows u G rt' rid' p)"
proof -
  let ?n = "normalize_access_grants gfresh form"
  let ?spec = "\<lambda>g. spec_of rt rid (fg_permission g) (fg_type g) (fg_principal g)"
  have at: "\<forall>s\<in>set (map ?spec ?n). spec_at rt rid s"
    by simp
  have "(\<exists>s\<in>set (map ?spec ?n). spec_admits u G p s) \<longleftrightarrow>
      (\<exists>g\<in>set form. \<exists>pt pid. valid_entry g (pt, pid, p) \<and>
              ((pt = ''user'' \<and> (pid = ''*'' \<or> pid = u)) \<or> (pt = ''group'' \<and> pid \<in> G)))"
    using normalize_ex [of gfresh form "\<lambda>(pt, pid, perm). perm = p \<and>
              ((pt = ''user'' \<and> (pid = ''*'' \<or> pid = u)) \<or> (pt = ''group'' \<and> pid \<in> G))"]
    by (auto simp: spec_admits_def fg_key_def)
  then show ?thesis
    using replace_has_grant [OF _ at] assms unfolding set_access_grants_def by simp
qed

text \<open>C1 Replacing the grants of a resource from a form payload never hits the table's unique
  constraint, whatever the payload holds; afterwards a user has a permission on the resource
  exactly when a well-formed entry of the payload gives it to everybody, to the user or to
  one of the user's groups, and access to every other resource is as before.\<close>

theorem set_access_grants_exact:
  assumes "grants_unique rows" and "fresh_grant_ids fresh rows"
  shows "\<exists>rows' added. set_access_grants gfresh fresh now rt rid form rows = Inr (rows', added) \<and> grants_unique rows' \<and>
    (\<forall>u G rt' rid' p. has_grant rows' u G rt' rid' p =
      (if (rt', rid') = (rt, rid)
       then \<exists>g\<in>set form. \<exists>pt pid. valid_entry g (pt, pid, p) \<and>
              ((pt = ''user'' \<and> (pid = ''*'' \<or> pid = u)) \<or> (pt = ''group'' \<and> pid \<in> G))
       else has_grant rows u G rt' rid' p))"
proof -
  let ?n = "normalize_access_grants gfresh form"
  let ?spec = "\<lambda>g. spec_of rt rid (fg_permission g) (fg_type g) (fg_principal g)"
  have at: "\<forall>s\<in>set (map ?spec ?n). spec_at rt rid s"
    by simp
  have keys: "map gs_key (map ?spec ?n) = map (\<lambda>k. (rt, rid, k)) (map fg_key ?n)"
    by (simp add: fg_key_def)
  have "distinct (map (\<lambda>k. (rt, rid, k)) (map fg_key ?n))"
    by (subst distinct_map) (simp add: normalize_distinct inj_on_def)
  then have "distinct (map gs_key (map ?spec ?n))" by (simp only: keys)
  then obtain rows' added where r: "replace_grants fresh now rt rid (map ?spec ?n) rows = Inr (rows', added)"
    using replace_grants_iff [OF assms at] by simp
  from r have uniq: "grants_unique rows'"
    by (auto simp: replace_grants_def Let_def split: if_splits)
  from r have set: "set_access_grants gfresh fresh now rt rid form rows = Inr (rows', added)"
    by (simp add: set_access_grants_def)
  show ?thesis
    using set uniq stored_form_admits [OF set] by (intro exI [of _ rows'] exI [of _ added]) simp
qed

theorem set_access_grants_exact_witness:
  "\<exists>rows' added. set_access_grants sample_fresh sample_fresh 9 ''note'' ''n1'' sample_form sample_rows = Inr (rows', added) \<and>
     has_grant rows' ''ann'' {} ''note'' ''n1'' ''write'' \<and> \<not> has_grant rows' ''bob'' {''g1''} ''note'' ''n1'' ''read''"
proof -
  have v: "valid_entry (hd sample_form) (''user'', ''ann'', ''write'')"
    by (simp add: valid_entry_iff sample_form_def)
  have n: "\<not> valid_entry g (pt, pid, ''read'')" if "g \<in> set sample_form" for g pt pid
    using that by (auto simp: valid_entry_iff sample_form_def)
  have "hd sample_form \<in> set sample_form" by (simp add: sample_form_def)
  with v n set_access_grants_exact [OF sample_rows_ok, of sample_fresh 9 "''note''" "''n1''" sample_form]
  show ?thesis by fastforce
qed

text \<open>Writing a legacy dictionary and reading it back gives the same principals in the same order,
  an absent entry coming back as empty lists, provided that it names someone, repeats
  nobody and does not list the wildcard as a reader or writer; a public resource other
  than a file comes back public.\<close>

theorem access_control_roundtrip:
  assumes "grants_unique rows" and "fresh_grant_ids fresh rows"
    and "pl_distinct (ac_read a)" and "pl_distinct (ac_write a)"
    and "''*'' \<notin> set (pl_users (ac_read a)) \<union> set (pl_users (ac_write a))"
    and "access_control_to_grants rt rid (Some a) \<noteq> []" and "rt \<noteq> ''file''"
  shows "(\<exists>rows' added. set_access_control fresh now rt rid (Some a) rows = Inr (rows', added) \<and>
      get_access_control rt rid rows' = Some \<lparr>ac_read = Some (pl_append no_principals (ac_read a)),
                                             ac_write = Some (pl_append no_principals (ac_write a))\<rparr>) \<and>
    (\<exists>rows' added. set_access_control fresh now rt rid None rows = Inr (rows', added) \<and>
      get_access_control rt rid rows' = None)"
proof (intro conjI)
  let ?ss = "access_control_to_grants rt rid (Some a)"
  have "distinct (map gs_key ?ss)" using assms(3,4) by (simp only: ac_specs_distinct)
  then obtain rows' added where r: "replace_grants fresh now rt rid ?ss rows = Inr (rows', added)"
    using replace_grants_iff [OF assms(1,2) ac_specs_at] by simp
  have "gr_rows fresh now 0 ?ss \<noteq> []"
    using assms(6) by (cases ?ss) auto
  moreover have "gtac_loop (gr_rows fresh now 0 ?ss) False no_principals no_principals =
      (False, pl_append no_principals (ac_read a), pl_append no_principals (ac_write a))"
    using assms(3-5) by (simp add: access_control_to_grants_def gr_rows_append gtac_loop_append gtac_perm)
  ultimately show "\<exists>rows' added. set_access_control fresh now rt rid (Some a) rows = Inr (rows', added) \<and>
      get_access_control rt rid rows' = Some \<lparr>ac_read = Some (pl_append no_principals (ac_read a)),
                                             ac_write = Some (pl_append no_principals (ac_write a))\<rparr>"
    using r by (auto simp: set_access_control_def get_access_control_def get_after_replace [OF r ac_specs_at]
        grants_to_access_control_def)
next
  let ?ss = "access_control_to_grants rt rid None"
  have ss: "?ss = [spec_of rt rid ''read'' ''user'' ''*'']"
    using assms(7) by (simp add: access_control_to_grants_def)
  then obtain rows' added where r: "replace_grants fresh now rt rid ?ss rows = Inr (rows', added)"
    using replace_grants_iff [OF assms(1,2) ac_specs_at [of rt rid None]] by simp
  have "is_public_read (gr_of_spec i now (spec_of rt rid ''read'' ''user'' ''*''))" for i
    by (simp add: is_public_read_def)
  then show "\<exists>rows' added. set_access_control fresh now rt rid None rows = Inr (rows', added) \<and>
      get_access_control rt rid rows' = None"
    using r by (auto simp: set_access_control_def get_access_control_def get_after_replace [OF r ac_specs_at] ss
        grants_to_access_control_def)
qed

theorem access_control_roundtrip_witness:
  "\<exists>rows' added. set_access_control sample_fresh 9 ''note'' ''n1''
       (Some \<lparr>ac_read = Some \<lparr>group_ids = [''g1''], user_ids = [''ann'']\<rparr>, ac_write = None\<rparr>) sample_rows = Inr (rows', added) \<and>
     get_access_control ''note'' ''n1'' rows' =
       Some \<lparr>ac_read = Some \<lparr>group_ids = [''g1''], user_ids = [''ann'']\<rparr>, ac_write = Some no_principals\<rparr>"
  using access_control_roundtrip [OF sample_rows_ok,
      of "\<lparr>ac_read = Some \<lparr>group_ids = [''g1''], user_ids = [''ann'']\<rparr>, ac_write = None\<rparr>" "''note''" "''n1''" 9]
  by (simp add: pl_distinct_def pl_users_def access_control_to_grants_def perm_specs_def pl_append_def
      no_principals_def)

text \<open>Writing a legacy dictionary that repeats a user or a group within an entry raises the
  database's integrity error; every other dictionary is accepted.\<close>

theorem set_access_control_error_iff:
  assumes "grants_unique rows" and "fresh_grant_ids fresh rows"
  shows "set_access_control fresh now rt rid (Some a) rows = Inl IntegrityError \<longleftrightarrow>
    \<not> (pl_distinct (ac_read a) \<and> pl_distinct (ac_write a))"
  unfolding set_access_control_def replace_grants_iff [OF assms ac_specs_at] ac_specs_distinct by simp

theorem set_access_control_error_iff_witness:
  "set_access_control sample_fresh 9 ''note'' ''n1''
     (Some \<lparr>ac_read = None, ac_write = Some \<lparr>group_ids = [], user_ids = [''ann'', ''ann'']\<rparr>\<rparr>) sample_rows = Inl IntegrityError"
  using set_access_control_error_iff [OF sample_rows_ok] by (simp add: pl_distinct_def)

text \<open>The batch query gives exactly the resources of the list for which the single query says
  yes, with the groups given or looked up.\<close>

theorem accessible_ids_batch_eq_single:
  "get_accessible_resource_ids db rows uid rt rids perm gids =
     {rid \<in> set rids. grants_has_access db rows uid rt rid perm gids}"
  by (auto simp: get_accessible_resource_ids_def grants_has_access_iff has_grant_def at_resource_def Let_def
      image_iff)

lemma permission_filter_check:
  assumes "perm \<noteq> ''read_only''" and "uid \<noteq> []"
  shows "has_permission_filter rows rt perm gids (Some uid) docs =
    filter (\<lambda>d. d_user_id d = uid \<or> grants_has_access db rows uid rt (d_id d) perm (Some (set gids))) docs"
proof -
  have "(gr_principal_type r = ''user'' \<and> gr_principal_id r = ''*'') \<or> direct_principal gids (Some uid) r \<longleftrightarrow>
      principal_matches uid (set gids) r" for r
    using assms(2) unfolding direct_principal_def principal_matches_def option.case by auto
  moreover have "owns (Some uid) d \<longleftrightarrow> d_user_id d = uid" for d
    using assms(2) by (auto simp: owns_def uid_given_def)
  ultimately show ?thesis
    using assms by (auto simp: has_permission_filter_def grants_has_access_iff has_grant_def resolve_groups_def
        grant_exists_def uid_given_def intro!: filter_cong)
qed

text \<open>C2 The query filter of a listing for a user with groups keeps exactly the documents that the
  user owns or that the single access check lets through.\<close>

theorem permission_filter_eq_check:
  assumes "perm \<noteq> ''read_only''" and "uid \<noteq> []"
  shows "has_permission_filter rows rt perm gids (Some uid) docs =
    filter (\<lambda>d. d_user_id d = uid \<or> grants_has_access db rows uid rt (d_id d) perm (Some (set gids))) docs"
  by (rule permission_filter_check [OF assms])

theorem permission_filter_eq_check_witness:
  "has_permission_filter sample_rows ''note'' ''read'' [''g1''] (Some ''bob'') [\<lparr>d_id = ''n1'', d_user_id = ''ann''\<rparr>,
      \<lparr>d_id = ''n2'', d_user_id = ''ann''\<rparr>] = [\<lparr>d_id = ''n1'', d_user_id = ''ann''\<rparr>]"
  by (subst permission_filter_eq_check [where db = sample_db])
    (simp_all add: grants_has_access_iff resolve_groups_def sample_rows_def at_resource_def principal_matches_def)

text \<open>The users listed for a permission on a resource are, when it is not public, exactly the
  existing users for whom the single check says yes with their looked-up groups; when it is
  public, they are the users that are not pending, although the check accepts pending ones
  too.\<close>

theorem users_with_access_agrees:
  assumes "\<forall>m\<in>set (db_members db). group_exists db (m_group_id m)"
  shows "set (get_users_with_access db users rows rt rid perm) =
    (if \<exists>r\<in>set rows. at_resource rt rid r \<and> gr_permission r = perm \<and> gr_principal_type r = ''user'' \<and> gr_principal_id r = ''*''
     then {u \<in> set users. u_role u \<noteq> ''pending''}
     else {u \<in> set users. grants_has_access db rows (u_id u) rt rid perm None})"
proof -
  let ?grants = "filter (\<lambda>r. at_resource rt rid r \<and> gr_permission r = perm) rows"
  let ?ids = "\<Union>r\<in>set ?grants. if gr_principal_type r = ''user'' then {gr_principal_id r}
            else if gr_principal_type r = ''group'' then set (get_group_user_ids_by_id db (gr_principal_id r)) else {}"
  let ?pub = "\<exists>r\<in>set ?grants. gr_principal_type r = ''user'' \<and> gr_principal_id r = ''*''"
  have roles: "set (users_with_roles [''!pending''] users) = {u \<in> set users. u_role u \<noteq> ''pending''}"
    by (auto simp: users_with_roles_def py_startswith_def)
  have member_exists: "group_exists db g" if "(g, u) \<in> mem_rel db" for u g
    using that assms by (auto simp: mem_rel_iff m_key_def)
  have one: "u \<in> (if gr_principal_type r = ''user'' then {gr_principal_id r}
            else if gr_principal_type r = ''group'' then set (get_group_user_ids_by_id db (gr_principal_id r)) else {})
      \<longleftrightarrow> principal_matches u (group_id_set db u) r"
    if "\<not> (gr_principal_type r = ''user'' \<and> gr_principal_id r = ''*'')" for u r
    using that member_exists by (auto simp: principal_matches_def set_group_user_ids group_id_set_iff)
  have ids: "u \<in> ?ids \<longleftrightarrow> has_grant rows u (group_id_set db u) rt rid perm" if "\<not> ?pub" for u
  proof -
    have "u \<in> ?ids \<longleftrightarrow> (\<exists>r\<in>set ?grants. principal_matches u (group_id_set db u) r)"
      unfolding UN_iff using one that by blast
    then show ?thesis by (auto simp: has_grant_def)
  qed
  have "set (get_users_with_access db users rows rt rid perm) =
      (if ?pub then {u \<in> set users. u_role u \<noteq> ''pending''} else {u \<in> set users. u_id u \<in> ?ids})"
    unfolding get_users_with_access_def Let_def users_by_ids_def using roles by auto
  then show ?thesis
    using ids by (auto simp: grants_has_access_iff resolve_groups_def)
qed

theorem users_with_access_agrees_witness:
  "set (get_users_with_access sample_db [\<lparr>u_id = ''bob'', u_role = ''user''\<rparr>, \<lparr>u_id = ''ann'', u_role = ''user''\<rparr>]
      sample_rows ''note'' ''n1'' ''read'') =
   {u \<in> {\<lparr>u_id = ''bob'', u_role = ''user''\<rparr>, \<lparr>u_id = ''ann'', u_role = ''user''\<rparr>}.
      grants_has_access sample_db sample_rows (u_id u) ''note'' ''n1'' ''read'' None}"
  by (subst users_with_access_agrees) (auto simp: sample_db_def group_exists_def sample_rows_def at_resource_def)

text \<open>Granting twice changes the table once, keeps its constraints and gives the access; revoking
  the grant takes exactly its row away.\<close>

theorem grant_then_revoke:
  assumes "grants_unique rows" and "new_id \<notin> gr_id ` set rows"
  shows "\<exists>rows' r. grant_access new_id now s rows = Inr (rows', r) \<and> grants_unique rows' \<and> gr_key r = gs_key s \<and>
    gr_key ` set rows' = insert (gs_key s) (gr_key ` set rows) \<and>
    grant_access id2 now2 s rows' = Inr (rows', r) \<and>
    gr_key ` set (fst (revoke_access s rows')) = gr_key ` set rows - {gs_key s} \<and> snd (revoke_access s rows')"
proof (cases "gs_key s \<in> gr_key ` set rows")
  case True
  then obtain r where r: "List.find (\<lambda>r. gr_key r = gs_key s) rows = Some r"
    by (cases "List.find (\<lambda>r. gr_key r = gs_key s) rows") (auto simp: find_None_iff)
  then have k: "gr_key r = gs_key s" by (auto simp: find_Some_iff)
  have "filter (\<lambda>r. gr_key r \<noteq> gs_key s) rows \<noteq> rows"
    using True by (auto simp: filter_id_conv)
  then have "length (filter (\<lambda>r. gr_key r \<noteq> gs_key s) rows) < length rows"
    by (metis filter_id_conv length_filter_less)
  with True r k assms(1) show ?thesis
    by (intro exI [of _ rows] exI [of _ r]) (auto simp: grant_access_def revoke_access_def Let_def)
next
  case False
  let ?r = "gr_of_spec new_id now s"
  have none: "List.find (\<lambda>r. gr_key r = gs_key s) rows = None"
    using False unfolding find_None_iff by (metis image_eqI)
  have some: "List.find (\<lambda>r. gr_key r = gs_key s) (rows @ [?r]) = Some ?r"
    using none by (induction rows) (auto split: if_splits)
  have id: "filter (\<lambda>r. gr_key r \<noteq> gs_key s) rows = rows"
    using False by (metis (mono_tags, lifting) filter_True image_eqI)
  have "grants_unique (rows @ [?r])"
    using assms False by (auto simp: grants_unique_def)
  with none some id False show ?thesis
    by (intro exI [of _ "rows @ [?r]"] exI [of _ ?r]) (auto simp: grant_access_def revoke_access_def Let_def)
qed

theorem grant_then_revoke_witness:
  "\<exists>rows' r. grant_access ''z'' 5 (spec_of ''note'' ''n1'' ''write'' ''user'' ''ann'') sample_rows = Inr (rows', r) \<and>
     gr_key ` set (fst (revoke_access (spec_of ''note'' ''n1'' ''write'' ''user'' ''ann'') rows')) =
     gr_key ` set sample_rows - {(''note'', ''n1'', ''user'', ''ann'', ''write'')}"
  using grant_then_revoke [OF sample_rows_ok(1), of "''z''" 5 "spec_of ''note'' ''n1'' ''write'' ''user'' ''ann''"]
  by (fastforce simp: sample_rows_def)

end
