(* ===== verification/Permissions.thy ===== *)
theory Permissions
  imports Group_Table
begin

text \<open>
  The permission trees of \<^verbatim>\<open>backend/openlaunch/utils/access_control/__init__.py\<close>: nested
  dictionaries with boolean leaves, the defaults filled in, the most permissive value of
  several groups, and the two ways the program asks for a permission. A value of the wrong
  kind on the way raises as the code does. The configured defaults are arguments.
\<close>

section \<open>Definitions\<close>

function fill_missing_permissions :: "pdict \<Rightarrow> pdict \<Rightarrow> pdict" where
  "fill_missing_permissions perms [] = perms"
| "fill_missing_permissions perms ((key, value) # defaults) =
     fill_missing_permissions
       (case od_get perms key of
          None \<Rightarrow> od_set key value perms
        | Some w \<Rightarrow> (case value of
            PDict dv \<Rightarrow> (case w of
                PDict dw \<Rightarrow> od_set key (PDict (fill_missing_permissions dw dv)) perms
              | _ \<Rightarrow> perms)
          | _ \<Rightarrow> perms))
       defaults"
  by pat_completeness auto
termination
  by (relation "measure (\<lambda>(p, ds). size (PDict ds))") auto

text \<open>
  \<^verbatim>\<open>combine_permissions\<close>: \<open>key not in permissions\<close> and \<open>permissions[key] = ...\<close> raise
  TypeError on anything but a dictionary; with nothing to add, the value is returned as it is.
\<close>

function combine_permissions :: "pv \<Rightarrow> pdict \<Rightarrow> pv res" where
  "combine_permissions p [] = Inr p"
| "combine_permissions p ((key, value) # rest) = (case p of
      PDict d \<Rightarrow>
        (case value of
           PDict dv \<Rightarrow> rbind (combine_permissions (od_getd d key (PDict [])) dv)
             (\<lambda>w. combine_permissions (PDict (od_set key w d)) rest)
         | _ \<Rightarrow> combine_permissions
             (PDict (od_set key (case od_get d key of None \<Rightarrow> value | Some w \<Rightarrow> py_or w value) d)) rest)
    | _ \<Rightarrow> Inl TypeError)"
  by pat_completeness auto
termination
  by (relation "measure (\<lambda>(p, ds). size (PDict ds))") auto

text \<open>\<^verbatim>\<open>group.permissions or {}\<close>\<close>

definition group_perms :: "group_row \<Rightarrow> pdict" where
  "group_perms g = (case g_permissions g of PDict d \<Rightarrow> d | _ \<Rightarrow> [])"

definition get_permissions :: "group_db \<Rightarrow> string \<Rightarrow> pdict \<Rightarrow> pdict res" where
  "get_permissions db uid defaults =
     rbind (rfoldM (\<lambda>p g. combine_permissions p (group_perms g)) (PDict defaults)
              (get_groups_by_member_id db uid))
       (\<lambda>p. case p of PDict d \<Rightarrow> Inr (fill_missing_permissions d defaults) | _ \<Rightarrow> Inl TypeError)"

fun get_permission :: "pv \<Rightarrow> string list \<Rightarrow> bool res" where
  "get_permission p [] = Inr (truthy p)"
| "get_permission p (key # keys) =
     rbind (pin key p) (\<lambda>b. if \<not> b then Inr False
       else rbind (pidx p key) (\<lambda>q. get_permission q keys))"

definition has_permission :: "pdict \<Rightarrow> group_db \<Rightarrow> string \<Rightarrow> string \<Rightarrow> pdict \<Rightarrow> bool res" where
  "has_permission default_user_permissions db uid permission_key defaults =
     (let keys = py_split CHR ''.'' permission_key in
      rbind (ranyM (\<lambda>g. get_permission (PDict (group_perms g)) keys) (get_groups_by_member_id db uid))
        (\<lambda>found. if found then Inr True
          else get_permission (PDict (fill_missing_permissions defaults default_user_permissions)) keys))"

section \<open>Reading a tree along a path\<close>

fun walk :: "pv \<Rightarrow> string list \<Rightarrow> pv option" where
  "walk v [] = Some v"
| "walk v (k # ks) = (case v of
      PDict d \<Rightarrow> (case od_get d k of None \<Rightarrow> None | Some w \<Rightarrow> walk w ks)
    | _ \<Rightarrow> None)"

definition allowed :: "pv \<Rightarrow> string list \<Rightarrow> bool" where
  "allowed v ks = (case walk v ks of None \<Rightarrow> False | Some w \<Rightarrow> truthy w)"

text \<open>
  A well-formed permission tree: dictionaries with distinct keys at the inner places,
  booleans at the places that \<open>leaf\<close> names.
\<close>

fun perm_tree :: "(string list \<Rightarrow> bool) \<Rightarrow> string list \<Rightarrow> pv \<Rightarrow> bool" where
  "perm_tree leaf path (PBool b) = leaf path"
| "perm_tree leaf path (PDict d) =
     (\<not> leaf path \<and> od_ok d \<and> (\<forall>p\<in>set d. perm_tree leaf (path @ [fst p]) (snd p)))"
| "perm_tree leaf path v = False"

definition leaf_scheme :: "(string list \<Rightarrow> bool) \<Rightarrow> bool" where
  "leaf_scheme leaf = (\<forall>path k ks. leaf path \<longrightarrow> \<not> leaf (path @ k # ks))"

lemma tree_iff:
  "perm_tree leaf path (PDict d) \<longleftrightarrow> \<not> leaf path \<and> od_ok d \<and>
     (\<forall>k w. od_get d k = Some w \<longrightarrow> perm_tree leaf (path @ [k]) w)"
proof -
  have "od_ok d \<Longrightarrow> (k, w) \<in> set d \<longleftrightarrow> od_get d k = Some w" for k w
    by (simp add: od_ok_def)
  then show ?thesis by fastforce
qed

lemma perm_tree_get:
  "perm_tree leaf path (PDict d) \<Longrightarrow> od_get d k = Some w \<Longrightarrow> perm_tree leaf (path @ [k]) w"
  by (simp add: tree_iff del: perm_tree.simps)

lemma perm_tree_set:
  "perm_tree leaf path (PDict d) \<Longrightarrow> perm_tree leaf (path @ [k]) w \<Longrightarrow> perm_tree leaf path (PDict (od_set k w d))"
  by (auto simp: tree_iff simp del: perm_tree.simps)

lemma perm_tree_tail:
  "perm_tree leaf path (PDict ((k, v) # d)) \<Longrightarrow>
     perm_tree leaf path (PDict d) \<and> perm_tree leaf (path @ [k]) v \<and> od_get d k = None"
  by (auto simp: od_ok_def map_of_eq_None_iff)

lemma walk_set: "walk (PDict (od_set k w d)) (k' # ks) = (if k' = k then walk w ks else walk (PDict d) (k' # ks))"
  by simp

lemma walk_tail: "walk (PDict ((k, v) # d)) (k' # ks) = (if k' = k then walk v ks else walk (PDict d) (k' # ks))"
  by simp

lemma walk_missing: "od_get d k = None \<Longrightarrow> walk (PDict d) (k # ks) = None"
  by simp

text \<open>Below a leaf there is nothing to look up.\<close>

lemma leaf_path_end: "leaf_scheme leaf \<Longrightarrow> leaf path \<Longrightarrow> leaf (path @ ks) \<Longrightarrow> ks = []"
  by (cases ks) (auto simp: leaf_scheme_def)

lemma leaf_path_cons: "\<not> leaf path \<Longrightarrow> leaf (path @ ks) \<Longrightarrow> \<exists>k ks'. ks = k # ks'"
  by (cases ks) auto

lemma perm_tree_cases:
  assumes "perm_tree leaf path v"
  obtains (leaf) b where "v = PBool b" and "leaf path"
    | (node) d where "v = PDict d" and "\<not> leaf path" and "od_ok d"
  using assms by (cases v) auto

lemma get_permission_allowed:
  "leaf_scheme leaf \<Longrightarrow> perm_tree leaf path v \<Longrightarrow> leaf (path @ ks) \<Longrightarrow>
   get_permission v ks = Inr (allowed v ks)"
proof (induction ks arbitrary: v path)
  case Nil
  then show ?case by (simp add: allowed_def)
next
  case (Cons k ks)
  then have "\<not> leaf path" by (auto simp: leaf_scheme_def)
  with Cons.prems(2) obtain d where v: "v = PDict d" by (auto elim: perm_tree_cases)
  show ?case
  proof (cases "od_get d k")
    case None
    then show ?thesis by (simp add: v allowed_def od_has_def)
  next
    case (Some w)
    with Cons.prems v have "perm_tree leaf (path @ [k]) w" by (blast intro: perm_tree_get)
    with Cons.IH [of "path @ [k]" w] Cons.prems Some show ?thesis
      by (simp add: v allowed_def od_has_def pidx_def)
  qed
qed

section \<open>Filling in the defaults\<close>

text \<open>The tree after filling in: the value that is there, else the default's.\<close>

definition or_else :: "'a option \<Rightarrow> 'a option \<Rightarrow> 'a option" where
  "or_else a b = (case a of None \<Rightarrow> b | Some x \<Rightarrow> Some x)"

lemma or_else_simps [simp]: "or_else None b = b" "or_else (Some x) b = Some x" "or_else a None = a"
  by (simp_all add: or_else_def split: option.splits)

text \<open>One step of the loop, given what the recursive call does.\<close>

definition fill_step :: "string \<Rightarrow> pv \<Rightarrow> pdict \<Rightarrow> pdict" where
  "fill_step key val perms = (case od_get perms key of
          None \<Rightarrow> od_set key val perms
        | Some w \<Rightarrow> (case val of
            PDict dv \<Rightarrow> (case w of
                PDict dw \<Rightarrow> od_set key (PDict (fill_missing_permissions dw dv)) perms
              | _ \<Rightarrow> perms)
          | _ \<Rightarrow> perms))"

lemma fill_step_walk:
  assumes sch: "leaf_scheme leaf" and p: "perm_tree leaf path (PDict perms)" and v: "perm_tree leaf (path @ [key]) val"
    and rec: "\<And>dw dv. od_get perms key = Some (PDict dw) \<Longrightarrow> val = PDict dv \<Longrightarrow>
      perm_tree leaf (path @ [key]) (PDict (fill_missing_permissions dw dv)) \<and>
      (\<forall>ks. leaf (path @ key # ks) \<longrightarrow> walk (PDict (fill_missing_permissions dw dv)) ks =
         or_else (walk (PDict dw) ks) (walk (PDict dv) ks))"
  shows "perm_tree leaf path (PDict (fill_step key val perms))"
    and "leaf (path @ k # ks) \<Longrightarrow> walk (PDict (fill_step key val perms)) (k # ks) =
      (if k = key then or_else (walk (PDict perms) (k # ks)) (walk val ks) else walk (PDict perms) (k # ks))"
proof -
  consider (missing) "od_get perms key = None"
    | (leaves) b c where "od_get perms key = Some (PBool b)" "val = PBool c" "leaf (path @ [key])"
    | (nodes) dw dv where "od_get perms key = Some (PDict dw)" "val = PDict dv"
  proof (cases "od_get perms key")
    case None
    with missing show ?thesis by blast
  next
    case (Some w)
    from perm_tree_get [OF p Some] show ?thesis
    proof (cases rule: perm_tree_cases)
      case (leaf b)
      with v obtain c where "val = PBool c" by (auto elim: perm_tree_cases)
      with leaf Some show ?thesis by (simp add: leaves)
    next
      case (node dw)
      with v obtain dv where "val = PDict dv" by (auto elim: perm_tree_cases)
      with node Some show ?thesis by (simp add: nodes)
    qed
  qed
  then have "perm_tree leaf path (PDict (fill_step key val perms)) \<and>
    (leaf (path @ k # ks) \<longrightarrow> walk (PDict (fill_step key val perms)) (k # ks) =
      (if k = key then or_else (walk (PDict perms) (k # ks)) (walk val ks) else walk (PDict perms) (k # ks)))"
  proof cases
    case missing
    with p v show ?thesis
      by (simp add: fill_step_def walk_set walk_missing perm_tree_set del: perm_tree.simps walk.simps)
  next
    case leaves
    then show ?thesis
      using p leaf_path_end [OF sch leaves(3), of ks] by (auto simp: fill_step_def simp del: perm_tree.simps)
  next
    case nodes
    from rec [OF nodes] p nodes show ?thesis
      by (auto simp: fill_step_def walk_set perm_tree_set simp del: perm_tree.simps)
  qed
  then show "perm_tree leaf path (PDict (fill_step key val perms))"
    and "leaf (path @ k # ks) \<Longrightarrow> walk (PDict (fill_step key val perms)) (k # ks) =
      (if k = key then or_else (walk (PDict perms) (k # ks)) (walk val ks) else walk (PDict perms) (k # ks))"
    by blast+
qed

lemma fill_walk:
  "leaf_scheme leaf \<Longrightarrow> perm_tree leaf path (PDict perms) \<Longrightarrow> perm_tree leaf path (PDict defs) \<Longrightarrow>
   perm_tree leaf path (PDict (fill_missing_permissions perms defs)) \<and>
   (\<forall>ks. leaf (path @ ks) \<longrightarrow> walk (PDict (fill_missing_permissions perms defs)) ks =
      or_else (walk (PDict perms) ks) (walk (PDict defs) ks))"
proof (induction perms defs arbitrary: path rule: fill_missing_permissions.induct)
  case (1 perms)
  have "walk (PDict perms) ks = or_else (walk (PDict perms) ks) (walk (PDict []) ks)" if "leaf (path @ ks)" for ks
    using leaf_path_cons [of leaf path ks] that "1.prems"(2) by (auto simp: walk_missing simp del: walk.simps)
  with "1.prems" show ?case by simp
next
  case (2 perms key val defs)
  let ?step = "fill_step key val perms"
  from perm_tree_tail [OF "2.prems"(3)] have defs: "perm_tree leaf path (PDict defs)"
    and val: "perm_tree leaf (path @ [key]) val" and new: "od_get defs key = None" by auto
  have rec: "perm_tree leaf (path @ [key]) (PDict (fill_missing_permissions dw dv)) \<and>
      (\<forall>ks. leaf (path @ key # ks) \<longrightarrow> walk (PDict (fill_missing_permissions dw dv)) ks =
         or_else (walk (PDict dw) ks) (walk (PDict dv) ks))"
    if "od_get perms key = Some (PDict dw)" and "val = PDict dv" for dw dv
    using "2.IH"(1) [OF that(1) that(2) refl, of "path @ [key]"] "2.prems"(1) val that(2)
      perm_tree_get [OF "2.prems"(2) that(1)] by simp
  note step = fill_step_walk [OF "2.prems"(1,2) val rec]
  have IH: "perm_tree leaf path (PDict (fill_missing_permissions ?step defs)) \<and>
     (\<forall>ks. leaf (path @ ks) \<longrightarrow> walk (PDict (fill_missing_permissions ?step defs)) ks =
        or_else (walk (PDict ?step) ks) (walk (PDict defs) ks))"
    using "2.IH"(2) [of path] "2.prems"(1) step(1) defs unfolding fill_step_def by blast
  have "or_else (walk (PDict ?step) ks) (walk (PDict defs) ks) =
      or_else (walk (PDict perms) ks) (walk (PDict ((key, val) # defs)) ks)" if "leaf (path @ ks)" for ks
  proof -
    from leaf_path_cons [of leaf path ks] that "2.prems"(2) obtain k ks' where ks: "ks = k # ks'" by auto
    with that step(2) [of k ks'] new show ?thesis
      by (cases "walk (PDict perms) (key # ks')")
        (auto simp: walk_tail walk_missing simp del: walk.simps)
  qed
  moreover have "fill_missing_permissions perms ((key, val) # defs) = fill_missing_permissions ?step defs"
    by (simp add: fill_step_def)
  ultimately show ?case using IH by (simp del: perm_tree.simps walk.simps fill_missing_permissions.simps)
qed

section \<open>Combining groups\<close>

definition opt_or :: "pv option \<Rightarrow> pv option \<Rightarrow> pv option" where
  "opt_or a b = (case a of None \<Rightarrow> b | Some x \<Rightarrow> (case b of None \<Rightarrow> Some x | Some y \<Rightarrow> Some (py_or x y)))"

lemma opt_or_simps [simp]:
  "opt_or None b = b" "opt_or a None = a" "opt_or (Some x) (Some y) = Some (py_or x y)"
  by (simp_all add: opt_or_def split: option.splits)

lemma py_or_PBool [simp]: "py_or (PBool b) (PBool c) = PBool (b \<or> c)"
  by (cases b) simp_all

text \<open>\<open>r\<close> is the pointwise disjunction of two trees at a place.\<close>

definition is_join :: "(string list \<Rightarrow> bool) \<Rightarrow> string list \<Rightarrow> pdict \<Rightarrow> pdict \<Rightarrow> pdict \<Rightarrow> bool" where
  "is_join leaf path d g r = (perm_tree leaf path (PDict r) \<and>
     (\<forall>ks. leaf (path @ ks) \<longrightarrow> walk (PDict r) ks = opt_or (walk (PDict d) ks) (walk (PDict g) ks)))"

text \<open>One step of the loop: the entry \<open>key: val\<close> joined into \<open>d\<close>.\<close>

definition step_join :: "(string list \<Rightarrow> bool) \<Rightarrow> string list \<Rightarrow> string \<Rightarrow> pv \<Rightarrow> pdict \<Rightarrow> pdict \<Rightarrow> bool" where
  "step_join leaf path key val d d1 = (perm_tree leaf path (PDict d1) \<and>
     (\<forall>k ks. leaf (path @ k # ks) \<longrightarrow> walk (PDict d1) (k # ks) =
        (if k = key then opt_or (walk (PDict d) (k # ks)) (walk val ks) else walk (PDict d) (k # ks))))"

lemma step_join_leaf:
  assumes sch: "leaf_scheme leaf" and d: "perm_tree leaf path (PDict d)" and "leaf (path @ [key])"
  shows "step_join leaf path key (PBool c) d
    (od_set key (case od_get d key of None \<Rightarrow> PBool c | Some w \<Rightarrow> py_or w (PBool c)) d)"
proof -
  have "\<exists>b. w = PBool b" if "od_get d key = Some w" for w
    using perm_tree_get [OF d that] assms(3) by (auto elim: perm_tree_cases)
  moreover have ends: "leaf (path @ key # ks) \<longleftrightarrow> ks = []" for ks
    using leaf_path_end [OF sch assms(3), of ks] assms(3) by auto
  ultimately show ?thesis
    using assms unfolding step_join_def
    by (auto simp: perm_tree_set ends simp del: perm_tree.simps(2) split: option.splits)
qed

lemma step_join_node:
  assumes "perm_tree leaf path (PDict d)" and "is_join leaf (path @ [key]) dw dv r"
    and "od_get d key = None \<and> dw = [] \<or> od_get d key = Some (PDict dw)"
  shows "step_join leaf path key (PDict dv) d (od_set key (PDict r) d)"
proof -
  have "walk (PDict []) ks = None" if "leaf (path @ key # ks)" for ks
  proof -
    have "\<not> leaf (path @ [key])" using assms(2) by (simp add: is_join_def)
    then show ?thesis using leaf_path_cons [of leaf "path @ [key]" ks] that by auto
  qed
  with assms show ?thesis
    unfolding step_join_def is_join_def
    by (auto simp: perm_tree_set simp del: perm_tree.simps(2) walk.simps simp: walk_set walk_missing)
      (simp_all add: walk.simps)
qed

lemma is_join_Cons:
  assumes "step_join leaf path key val d d1" and "is_join leaf path d1 rest r"
    and "perm_tree leaf path (PDict ((key, val) # rest))"
  shows "is_join leaf path d ((key, val) # rest) r"
proof -
  have "opt_or (walk (PDict d1) ks) (walk (PDict rest) ks) = opt_or (walk (PDict d) ks) (walk (PDict ((key, val) # rest)) ks)"
    if "leaf (path @ ks)" for ks
  proof -
    from leaf_path_cons [of leaf path ks] that assms(3) obtain k ks' where ks: "ks = k # ks'" by auto
    then show ?thesis
      using that assms(1) perm_tree_tail [OF assms(3)]
      by (cases "k = key") (simp_all add: step_join_def walk_tail walk_missing del: walk.simps)
  qed
  with assms(2) show ?thesis by (simp add: is_join_def)
qed

lemma combine_join:
  "leaf_scheme leaf \<Longrightarrow> perm_tree leaf path (PDict d) \<Longrightarrow> perm_tree leaf path (PDict g) \<Longrightarrow>
   \<exists>r. combine_permissions (PDict d) g = Inr (PDict r) \<and> is_join leaf path d g r"
proof (induction "size (PDict g)" arbitrary: path d g rule: less_induct)
  case less
  show ?case
  proof (cases g)
    case Nil
    have "walk (PDict d) ks = opt_or (walk (PDict d) ks) (walk (PDict []) ks)" if "leaf (path @ ks)" for ks
      using leaf_path_cons [of leaf path ks] that less.prems(2) by (auto simp: walk_missing simp del: walk.simps)
    with less.prems Nil show ?thesis by (simp add: is_join_def)
  next
    case (Cons kv rest)
    obtain key val where kv: "kv = (key, val)" by (cases kv)
    from perm_tree_tail [of leaf path key val rest] less.prems(3) Cons kv
    have rest: "perm_tree leaf path (PDict rest)" and val: "perm_tree leaf (path @ [key]) val" by auto
    have IH: "\<exists>r. combine_permissions (PDict d1) rest = Inr (PDict r) \<and> is_join leaf path d1 rest r"
      if "perm_tree leaf path (PDict d1)" for d1
      by (rule less.hyps) (use that rest less.prems(1) Cons kv in simp_all)
    have "\<exists>d1. combine_permissions (PDict d) g = combine_permissions (PDict d1) rest \<and>
        step_join leaf path key val d d1"
      using val
    proof (cases rule: perm_tree_cases)
      case (leaf c)
      then show ?thesis
        using step_join_leaf [OF less.prems(1,2) leaf(2), of c] Cons kv
        by (intro exI conjI) simp_all
    next
      case (node dv)
      obtain dw where dw: "od_get d key = None \<and> dw = [] \<or> od_get d key = Some (PDict dw)"
        using perm_tree_get [OF less.prems(2), of key] node(2)
        by (cases "od_get d key") (auto elim: perm_tree_cases)
      then have getd: "od_getd d key (PDict []) = PDict dw" by (auto simp: od_getd_def)
      have "perm_tree leaf (path @ [key]) (PDict dw)"
        using dw
      proof (elim disjE conjE)
        assume "dw = []"
        with node(2) show ?thesis by simp
      next
        assume "od_get d key = Some (PDict dw)"
        with less.prems(2) show ?thesis by (rule perm_tree_get)
      qed
      then obtain r1 where r1: "combine_permissions (PDict dw) dv = Inr (PDict r1)" "is_join leaf (path @ [key]) dw dv r1"
        using less.hyps [of dv "path @ [key]" dw] less.prems(1) val node(1) Cons kv by auto
      with getd node(1) Cons kv step_join_node [OF less.prems(2) r1(2) dw] show ?thesis
        by (intro exI conjI) simp_all
    qed
    then obtain d1 where d1: "combine_permissions (PDict d) g = combine_permissions (PDict d1) rest"
      and s: "step_join leaf path key val d d1" by blast
    from s IH obtain r where "combine_permissions (PDict d1) rest = Inr (PDict r)" "is_join leaf path d1 rest r"
      unfolding step_join_def by blast
    with d1 is_join_Cons [OF s] less.prems(3) Cons kv show ?thesis by auto
  qed
qed

section \<open>The two ways to ask for a permission agree\<close>

definition or_walk :: "pdict list \<Rightarrow> string list \<Rightarrow> pv option" where
  "or_walk gs ks = foldl (\<lambda>acc g. opt_or acc (walk (PDict g) ks)) None gs"

lemma foldl_opt_or: "foldl (\<lambda>acc g. opt_or acc (walk (PDict g) ks)) (Some (PBool b)) gs =
    Some (PBool (b \<or> (\<exists>g\<in>set gs. allowed (PDict g) ks)))"
  if "\<forall>g\<in>set gs. \<forall>w. walk (PDict g) ks = Some w \<longrightarrow> (\<exists>c. w = PBool c)"
  using that
proof (induction gs arbitrary: b)
  case Nil
  then show ?case by simp
next
  case (Cons g gs)
  show ?case
  proof (cases "walk (PDict g) ks")
    case None
    with Cons show ?thesis by (simp add: allowed_def del: walk.simps)
  next
    case (Some w)
    with Cons.prems obtain c where "w = PBool c" by auto
    with Some Cons show ?thesis by (auto simp: allowed_def simp del: walk.simps)
  qed
qed

lemma tree_walk_leaf:
  "leaf_scheme leaf \<Longrightarrow> perm_tree leaf path v \<Longrightarrow> leaf (path @ ks) \<Longrightarrow> walk v ks = Some w \<Longrightarrow> \<exists>c. w = PBool c"
proof (induction ks arbitrary: v path)
  case Nil
  then show ?case by (auto elim: perm_tree_cases)
next
  case (Cons k ks)
  then have "\<not> leaf path" by (auto simp: leaf_scheme_def)
  with Cons.prems obtain d x where v: "v = PDict d" "od_get d k = Some x" "walk x ks = Some w"
    by (auto elim!: perm_tree_cases split: option.splits)
  with Cons.prems have "perm_tree leaf (path @ [k]) x" by (blast intro: perm_tree_get)
  with Cons.IH [of "path @ [k]" x] Cons.prems v show ?case by simp
qed

lemma combine_groups:
  assumes "leaf_scheme leaf" and "perm_tree leaf [] (PDict d)" and "\<forall>g\<in>set gs. perm_tree leaf [] (PDict (group_perms g))"
  shows "\<exists>r. rfoldM (\<lambda>p g. combine_permissions p (group_perms g)) (PDict d) gs = Inr (PDict r) \<and>
    perm_tree leaf [] (PDict r) \<and>
    (\<forall>ks. leaf ks \<longrightarrow> walk (PDict r) ks = foldl (\<lambda>acc g. opt_or acc (walk (PDict g) ks)) (walk (PDict d) ks) (map group_perms gs))"
  using assms(2,3)
proof (induction gs arbitrary: d)
  case Nil
  then show ?case by simp
next
  case (Cons g gs)
  from combine_join [OF assms(1), of "[]" d "group_perms g"] Cons.prems
  obtain r1 where r1: "combine_permissions (PDict d) (group_perms g) = Inr (PDict r1)"
    and j: "is_join leaf [] d (group_perms g) r1" by (meson list.set_intros(1))
  from j have "perm_tree leaf [] (PDict r1)" by (simp add: is_join_def)
  from Cons.IH [OF this] Cons.prems(2) obtain r where "rfoldM (\<lambda>p g. combine_permissions p (group_perms g)) (PDict r1) gs = Inr (PDict r) \<and>
    perm_tree leaf [] (PDict r) \<and>
    (\<forall>ks. leaf ks \<longrightarrow> walk (PDict r) ks = foldl (\<lambda>acc g. opt_or acc (walk (PDict g) ks)) (walk (PDict r1) ks) (map group_perms gs))"
    by (meson list.set_intros(2))
  with r1 j show ?case by (intro exI [of _ r]) (simp add: is_join_def del: perm_tree.simps walk.simps)
qed

text \<open>Both read off the disjunction of the groups and the filled-in defaults.\<close>

lemma has_permission_value:
  assumes "leaf_scheme leaf" and "leaf (py_split CHR ''.'' key)"
    and "perm_tree leaf [] (PDict defaults)" and "perm_tree leaf [] (PDict config)"
    and "\<forall>g\<in>set (get_groups_by_member_id db uid). perm_tree leaf [] (PDict (group_perms g))"
  shows "has_permission config db uid key defaults = Inr
    ((\<exists>g\<in>set (get_groups_by_member_id db uid). allowed (PDict (group_perms g)) (py_split CHR ''.'' key)) \<or>
     allowed (PDict (fill_missing_permissions defaults config)) (py_split CHR ''.'' key))"
proof -
  let ?ks = "py_split CHR ''.'' key"
  have "ranyM (\<lambda>g. get_permission (PDict (group_perms g)) ?ks) (get_groups_by_member_id db uid) =
      Inr (\<exists>g\<in>set (get_groups_by_member_id db uid). allowed (PDict (group_perms g)) ?ks)"
    by (rule ranyM_total) (use get_permission_allowed [OF assms(1), of "[]"] assms(2,5) in simp)
  moreover have "get_permission (PDict (fill_missing_permissions defaults config)) ?ks =
      Inr (allowed (PDict (fill_missing_permissions defaults config)) ?ks)"
    using get_permission_allowed [OF assms(1), of "[]"] fill_walk [OF assms(1), of "[]"] assms(2-4)
    by (simp del: perm_tree.simps)
  ultimately show ?thesis by (simp add: has_permission_def Let_def)
qed

lemma get_permissions_value:
  assumes "leaf_scheme leaf" and "perm_tree leaf [] (PDict defaults)"
    and "\<forall>g\<in>set (get_groups_by_member_id db uid). perm_tree leaf [] (PDict (group_perms g))"
  shows "\<exists>r. get_permissions db uid defaults = Inr r \<and> perm_tree leaf [] (PDict r) \<and>
    (\<forall>ks. leaf ks \<and> walk (PDict defaults) ks \<noteq> None \<longrightarrow> allowed (PDict r) ks =
       (allowed (PDict defaults) ks \<or> (\<exists>g\<in>set (get_groups_by_member_id db uid). allowed (PDict (group_perms g)) ks)))"
proof -
  let ?gs = "get_groups_by_member_id db uid"
  from combine_groups [OF assms] obtain r1 where r1:
    "rfoldM (\<lambda>p g. combine_permissions p (group_perms g)) (PDict defaults) ?gs = Inr (PDict r1)"
    "perm_tree leaf [] (PDict r1)"
    "\<And>ks. leaf ks \<Longrightarrow> walk (PDict r1) ks =
       foldl (\<lambda>acc g. opt_or acc (walk (PDict g) ks)) (walk (PDict defaults) ks) (map group_perms ?gs)"
    by blast
  let ?r = "fill_missing_permissions r1 defaults"
  have fill: "perm_tree leaf [] (PDict ?r)"
    "\<And>ks. leaf ks \<Longrightarrow> walk (PDict ?r) ks = or_else (walk (PDict r1) ks) (walk (PDict defaults) ks)"
    using fill_walk [OF assms(1), of "[]" r1 defaults] r1(2) assms(2) by simp_all
  have "allowed (PDict ?r) ks = (allowed (PDict defaults) ks \<or> (\<exists>g\<in>set ?gs. allowed (PDict (group_perms g)) ks))"
    if leaf: "leaf ks" and def: "walk (PDict defaults) ks \<noteq> None" for ks
  proof -
    from def obtain w where w: "walk (PDict defaults) ks = Some w" by blast
    from tree_walk_leaf [OF assms(1,2), of ks w] leaf w obtain b where b: "w = PBool b" by auto
    have leaves: "\<forall>g\<in>set (map group_perms ?gs). \<forall>w. walk (PDict g) ks = Some w \<longrightarrow> (\<exists>c. w = PBool c)"
    proof (intro ballI allI impI)
      fix g w assume "g \<in> set (map group_perms ?gs)" and w: "walk (PDict g) ks = Some w"
      then have "perm_tree leaf [] (PDict g)" using assms(3) by (auto simp del: perm_tree.simps)
      from tree_walk_leaf [OF assms(1) this, of ks] leaf w show "\<exists>c. w = PBool c" by simp
    qed
    have "walk (PDict r1) ks = Some (PBool (b \<or> (\<exists>g\<in>set (map group_perms ?gs). allowed (PDict g) ks)))"
      unfolding r1(3) [OF leaf] w b by (rule foldl_opt_or [OF leaves])
    with fill(2) [OF leaf] show ?thesis
      unfolding allowed_def w b by (simp add: allowed_def del: walk.simps)
  qed
  with r1(1) fill(1) show ?thesis by (simp add: get_permissions_def del: perm_tree.simps)
qed

section \<open>Properties\<close>

definition sample_leaf :: "string list \<Rightarrow> bool" where
  "sample_leaf path = (path = [''chat'', ''share''])"

definition sample_defaults :: pdict where
  "sample_defaults = [(''chat'', PDict [(''share'', PBool False)])]"

definition perm_db :: group_db where
  "perm_db = \<lparr>
     db_groups = [\<lparr>g_id = ''g1'', g_user_id = ''a'', g_name = ''staff'', g_description = [], g_data = PNone,
                   g_meta = PNone, g_permissions = PDict [(''chat'', PDict [(''share'', PBool True)])],
                   g_created_at = 0, g_updated_at = 5\<rparr>],
     db_members = [\<lparr>m_id = ''m1'', m_group_id = ''g1'', m_user_id = ''bob'', m_created_at = 0, m_updated_at = 0\<rparr>]\<rparr>"

lemma sample_perms:
  "leaf_scheme sample_leaf" "perm_tree sample_leaf [] (PDict sample_defaults)"
  "\<forall>g\<in>set (get_groups_by_member_id perm_db ''bob''). perm_tree sample_leaf [] (PDict (group_perms g))"
  by (auto simp: leaf_scheme_def sample_leaf_def sample_defaults_def get_groups_by_member_id_def perm_db_def
      group_perms_def od_ok_def m_key_def append_eq_Cons_conv)



text \<open>Filling in the defaults keeps every value that is already set, adds exactly the missing
  ones, and a second pass changes no leaf.\<close>

theorem fill_missing_keeps_and_completes:
  assumes "leaf_scheme leaf" and "perm_tree leaf [] (PDict perms)" and "perm_tree leaf [] (PDict defs)" and "leaf ks"
  shows "walk (PDict (fill_missing_permissions perms defs)) ks =
      (case walk (PDict perms) ks of Some v \<Rightarrow> Some v | None \<Rightarrow> walk (PDict defs) ks) \<and>
    walk (PDict (fill_missing_permissions (fill_missing_permissions perms defs) defs)) ks =
      walk (PDict (fill_missing_permissions perms defs)) ks"
proof -
  have 1: "perm_tree leaf [] (PDict (fill_missing_permissions perms defs))"
    "walk (PDict (fill_missing_permissions perms defs)) ks = or_else (walk (PDict perms) ks) (walk (PDict defs) ks)"
    using fill_walk [OF assms(1), of "[]" perms defs] assms(2-4) by (simp_all del: perm_tree.simps walk.simps)
  have 2: "walk (PDict (fill_missing_permissions (fill_missing_permissions perms defs) defs)) ks =
      or_else (walk (PDict (fill_missing_permissions perms defs)) ks) (walk (PDict defs) ks)"
    using fill_walk [OF assms(1), of "[]" "fill_missing_permissions perms defs" defs] 1(1) assms(3,4)
    by (simp del: perm_tree.simps walk.simps)
  have "or_else (or_else a b) b = or_else a b" for a b :: "pv option"
    by (simp add: or_else_def split: option.splits)
  then show ?thesis
    unfolding 2 1(2) by (simp add: or_else_def)
qed

theorem fill_missing_keeps_and_completes_witness:
  "walk (PDict (fill_missing_permissions [] sample_defaults)) [''chat'', ''share''] = Some (PBool False)"
  using fill_missing_keeps_and_completes [OF sample_perms(1), of "[]" sample_defaults "[''chat'', ''share'']"] sample_perms(2)
  by (simp add: sample_leaf_def sample_defaults_def)

end
