(* ===== verification/Folders.thy ===== *)
theory Folders
  imports Access_Grants
begin

text \<open>
  \<^verbatim>\<open>backend/openlaunch/models/folders.py\<close>, the inherited access check of
  \<^verbatim>\<open>utils/access_control/folders.py\<close> and the handlers of \<^verbatim>\<open>routers/folders.py\<close> that move
  and delete folders. The table is the list of its rows; reading a row validates it, which
  fails on a null name. Recursive coroutines take the number of nested calls that the
  interpreter's stack still allows, so that endless recursion is its RecursionError; the
  loop over a subtree has no such bound and is a \<^verbatim>\<open>partial_function\<close> whose value is None
  when it does not return.
\<close>

section \<open>Rows and forms\<close>

record folder_row =
  f_id :: string
  f_parent_id :: "string option"
  f_user_id :: string
  f_name :: "string option"
  f_items :: "pdict option"
  f_meta :: "pdict option"
  f_data :: "pdict option"
  f_is_expanded :: bool
  f_created_at :: int
  f_updated_at :: int

text \<open>A form's field is None when the request does not set it.\<close>

record folder_form =
  ff_name :: string
  ff_data :: "pdict option option"
  ff_meta :: "pdict option option"

record folder_update_form =
  fu_name :: "string option option"
  fu_data :: "pdict option option"
  fu_meta :: "pdict option option"

definition validation_error :: py_error where
  "validation_error = ValueError ''validation''"

definition folder_valid :: "folder_row \<Rightarrow> bool" where
  "folder_valid r = (f_name r \<noteq> None)"

definition validate_folder :: "folder_row \<Rightarrow> folder_row res" where
  "validate_folder r = (if folder_valid r then Inr r else Inl validation_error)"

definition folders_ok :: "folder_row list \<Rightarrow> bool" where
  "folders_ok rows = distinct (map f_id rows)"

section \<open>The table's operations\<close>

definition insert_new_folder ::
  "string \<Rightarrow> int \<Rightarrow> string \<Rightarrow> folder_form \<Rightarrow> string option \<Rightarrow> folder_row list \<Rightarrow>
   folder_row list \<times> folder_row option" where
  "insert_new_folder new_id now uid form pid rows =
     (let r = \<lparr>f_id = new_id, f_parent_id = pid, f_user_id = uid, f_name = Some (ff_name form),
               f_items = None, f_meta = (case ff_meta form of None \<Rightarrow> None | Some m \<Rightarrow> m),
               f_data = (case ff_data form of None \<Rightarrow> None | Some d \<Rightarrow> d),
               f_is_expanded = False, f_created_at = now, f_updated_at = now\<rparr>
      in if new_id \<in> f_id ` set rows then (rows, None) else (rows @ [r], Some r))"

definition first_valid :: "(folder_row \<Rightarrow> bool) \<Rightarrow> folder_row list \<Rightarrow> folder_row option" where
  "first_valid P rows =
     (case List.find P rows of None \<Rightarrow> None | Some r \<Rightarrow> (if folder_valid r then Some r else None))"

definition get_folder_by_id_and_user_id :: "string \<Rightarrow> string \<Rightarrow> folder_row list \<Rightarrow> folder_row option" where
  "get_folder_by_id_and_user_id fid uid rows = first_valid (\<lambda>r. f_id r = fid \<and> f_user_id r = uid) rows"

definition get_folder_by_id :: "string \<Rightarrow> folder_row list \<Rightarrow> folder_row option" where
  "get_folder_by_id fid rows = first_valid (\<lambda>r. f_id r = fid) rows"

text \<open>The highest permission per folder: \<^verbatim>\<open>write\<close> is never replaced.\<close>

fun fold_folder_perms :: "(string, string) od \<Rightarrow> grant_row list \<Rightarrow> (string, string) od" where
  "fold_folder_perms acc [] = acc"
| "fold_folder_perms acc (g # gs) =
     fold_folder_perms
       (if od_get acc (gr_resource_id g) \<noteq> Some ''write''
        then od_set (gr_resource_id g) (gr_permission g) acc else acc) gs"

definition get_shared_folder_ids_for_user :: "grant_row list \<Rightarrow> string \<Rightarrow> string set \<Rightarrow> (string, string) od" where
  "get_shared_folder_ids_for_user grants uid gids =
     fold_folder_perms [] (filter (\<lambda>g. gr_resource_type g = ''folder'' \<and> principal_matches uid gids g) grants)"

definition get_folders_by_user_id :: "string \<Rightarrow> folder_row list \<Rightarrow> folder_row list res" where
  "get_folders_by_user_id uid rows = rmapM validate_folder (filter (\<lambda>r. f_user_id r = uid) rows)"

lemma validate_all_error:
  "\<not> (\<forall>r\<in>set rs. folder_valid r) \<Longrightarrow> rmapM validate_folder rs = Inl validation_error"
proof (induction rs)
  case Nil
  then show ?case by simp
next
  case (Cons r rs)
  then show ?case by (cases "folder_valid r") (simp_all add: validate_folder_def)
qed

text \<open>\<open>ilike name pattern\<close> is the database's case-insensitive LIKE; no pattern matches a null.\<close>

definition get_folder_by_parent_id_and_user_id_and_name ::
  "(string \<Rightarrow> string \<Rightarrow> bool) \<Rightarrow> string option \<Rightarrow> string \<Rightarrow> string \<Rightarrow> folder_row list \<Rightarrow> folder_row option" where
  "get_folder_by_parent_id_and_user_id_and_name ilike pid uid name rows =
     first_valid (\<lambda>r. f_parent_id r = pid \<and> f_user_id r = uid \<and>
                      (case f_name r of None \<Rightarrow> False | Some n \<Rightarrow> ilike n name)) rows"

definition get_folders_by_parent_id_and_user_id ::
  "string option \<Rightarrow> string \<Rightarrow> folder_row list \<Rightarrow> folder_row list res" where
  "get_folders_by_parent_id_and_user_id pid uid rows =
     rmapM validate_folder (filter (\<lambda>r. f_parent_id r = pid \<and> f_user_id r = uid) rows)"

text \<open>The loop over the stack of folders whose children are still to be listed\<close>

partial_function (option) subtree_loop ::
  "folder_row list \<Rightarrow> string \<Rightarrow> folder_row list \<Rightarrow> string list \<Rightarrow> string list res option" where
  "subtree_loop rows uid stack ids =
     (if stack = [] then Some (Inr ids)
      else (case get_folders_by_parent_id_and_user_id (Some (f_id (last stack))) uid rows of
          Inl e \<Rightarrow> Some (Inl e)
        | Inr cs \<Rightarrow> subtree_loop rows uid (butlast stack @ cs) (ids @ map f_id cs)))"

definition get_folder_ids_by_id_and_user_id_in_subtree ::
  "string \<Rightarrow> string \<Rightarrow> folder_row list \<Rightarrow> string list res option" where
  "get_folder_ids_by_id_and_user_id_in_subtree fid uid rows =
     (case List.find (\<lambda>r. f_id r = fid \<and> f_user_id r = uid) rows of
        None \<Rightarrow> Some (Inr [])
      | Some r \<Rightarrow> (if folder_valid r then subtree_loop rows uid [r] [f_id r] else Some (Inl validation_error)))"

text \<open>Updates act on the one row with the key; the answer is the row as validated, so a row
  that is written but cannot be read back gives None.\<close>

definition put_folder :: "folder_row \<Rightarrow> folder_row list \<Rightarrow> folder_row list" where
  "put_folder r rows = map (\<lambda>x. if f_id x = f_id r then r else x) rows"

definition answer_row :: "folder_row \<Rightarrow> folder_row option" where
  "answer_row r = (if folder_valid r then Some r else None)"

definition update_folder_parent_id_by_id_and_user_id ::
  "int \<Rightarrow> string \<Rightarrow> string \<Rightarrow> string option \<Rightarrow> folder_row list \<Rightarrow> folder_row list \<times> folder_row option" where
  "update_folder_parent_id_by_id_and_user_id now fid uid pid rows =
     (case List.find (\<lambda>r. f_id r = fid \<and> f_user_id r = uid) rows of
        None \<Rightarrow> (rows, None)
      | Some r \<Rightarrow> (let r' = r\<lparr>f_parent_id := pid, f_updated_at := now\<rparr> in (put_folder r' rows, answer_row r')))"

text \<open>\<^verbatim>\<open>{**(old or {}), **new}\<close>: a null in the form cannot be unpacked.\<close>

definition merge_field :: "pdict option \<Rightarrow> pdict option option \<Rightarrow> pdict option res" where
  "merge_field old new = (case new of
      None \<Rightarrow> Inr old
    | Some None \<Rightarrow> Inl TypeError
    | Some (Some d) \<Rightarrow> Inr (Some (od_merge (case old of None \<Rightarrow> [] | Some o' \<Rightarrow> o') d)))"

definition update_folder_by_id_and_user_id ::
  "int \<Rightarrow> string \<Rightarrow> string \<Rightarrow> folder_update_form \<Rightarrow> folder_row list \<Rightarrow> folder_row list \<times> folder_row option" where
  "update_folder_by_id_and_user_id now fid uid form rows =
     (case List.find (\<lambda>r. f_id r = fid \<and> f_user_id r = uid) rows of
        None \<Rightarrow> (rows, None)
      | Some r \<Rightarrow>
         (let name = (case fu_name form of None \<Rightarrow> None | Some n \<Rightarrow> n);
              existing = List.find (\<lambda>x. f_name x = name \<and> f_parent_id x = f_parent_id r \<and> f_user_id x = uid) rows
          in if (case existing of None \<Rightarrow> False | Some x \<Rightarrow> f_id x \<noteq> fid) then (rows, None)
             else (case merge_field (f_data r) (fu_data form) of
                 Inl e \<Rightarrow> (rows, None)
               | Inr d \<Rightarrow> (case merge_field (f_meta r) (fu_meta form) of
                   Inl e \<Rightarrow> (rows, None)
                 | Inr m \<Rightarrow>
                    (let r' = r\<lparr>f_name := (case fu_name form of None \<Rightarrow> f_name r | Some n \<Rightarrow> n),
                                f_data := d, f_meta := m, f_updated_at := now\<rparr>
                     in (put_folder r' rows, answer_row r'))))))"

definition update_folder_is_expanded_by_id_and_user_id ::
  "int \<Rightarrow> string \<Rightarrow> string \<Rightarrow> bool \<Rightarrow> folder_row list \<Rightarrow> folder_row list \<times> folder_row option" where
  "update_folder_is_expanded_by_id_and_user_id now fid uid b rows =
     (case List.find (\<lambda>r. f_id r = fid \<and> f_user_id r = uid) rows of
        None \<Rightarrow> (rows, None)
      | Some r \<Rightarrow> (let r' = r\<lparr>f_is_expanded := b, f_updated_at := now\<rparr> in (put_folder r' rows, answer_row r')))"

section \<open>Recursion over subtrees\<close>

text \<open>The children below a folder, each after its own children. A query error and an
  exhausted stack end the whole call.\<close>

fun get_children_each :: "(string \<Rightarrow> folder_row list res) \<Rightarrow> folder_row list \<Rightarrow> folder_row list res" where
  "get_children_each rec [] = Inr []"
| "get_children_each rec (c # cs) =
     rbind (rec (f_id c)) (\<lambda>below. rbind (get_children_each rec cs) (\<lambda>rest. Inr (below @ [c] @ rest)))"

fun get_children :: "nat \<Rightarrow> folder_row list \<Rightarrow> string \<Rightarrow> string \<Rightarrow> folder_row list res" where
  "get_children 0 rows uid fid = Inl RecursionError"
| "get_children (Suc n) rows uid fid =
     rbind (get_folders_by_parent_id_and_user_id (Some fid) uid rows) (get_children_each (get_children n rows uid))"

definition get_children_folders_by_id_and_user_id ::
  "nat \<Rightarrow> string \<Rightarrow> string \<Rightarrow> folder_row list \<Rightarrow> folder_row list option" where
  "get_children_folders_by_id_and_user_id depth fid uid rows =
     (case List.find (\<lambda>r. f_id r = fid \<and> f_user_id r = uid) rows of
        None \<Rightarrow> None
      | Some r \<Rightarrow> (case get_children depth rows uid (f_id r) of Inl e \<Rightarrow> None | Inr cs \<Rightarrow> Some cs))"

text \<open>Deleting children first: the rows and the collected ids, and the error that ended the
  call, if one did. A child that is gone cannot be deleted again.\<close>

type_synonym delete_state = "folder_row list \<times> string list"

definition delete_row :: "string \<Rightarrow> folder_row list \<Rightarrow> folder_row list" where
  "delete_row fid rows = filter (\<lambda>r. f_id r \<noteq> fid) rows"

fun delete_each ::
  "(string \<Rightarrow> delete_state \<Rightarrow> delete_state \<times> py_error option) \<Rightarrow> folder_row list \<Rightarrow> delete_state \<Rightarrow>
   delete_state \<times> py_error option" where
  "delete_each rec [] s = (s, None)"
| "delete_each rec (c # cs) s =
     (case rec (f_id c) s of
        (s', Some e) \<Rightarrow> (s', Some e)
      | (s', None) \<Rightarrow>
         (if f_id c \<in> f_id ` set (fst s')
          then delete_each rec cs (delete_row (f_id c) (fst s'), snd s' @ [f_id c])
          else ((fst s', snd s' @ [f_id c]), Some (RuntimeError ''UnmappedInstanceError''))))"

fun delete_children :: "nat \<Rightarrow> string \<Rightarrow> string \<Rightarrow> delete_state \<Rightarrow> delete_state \<times> py_error option" where
  "delete_children 0 uid fid s = (s, Some RecursionError)"
| "delete_children (Suc n) uid fid s =
     (case get_folders_by_parent_id_and_user_id (Some fid) uid (fst s) of
        Inl e \<Rightarrow> (s, Some e)
      | Inr cs \<Rightarrow> delete_each (delete_children n uid) cs s)"

definition delete_folder_by_id_and_user_id ::
  "nat \<Rightarrow> string \<Rightarrow> string \<Rightarrow> folder_row list \<Rightarrow> folder_row list \<times> string list" where
  "delete_folder_by_id_and_user_id depth fid uid rows =
     (case List.find (\<lambda>r. f_id r = fid \<and> f_user_id r = uid) rows of
        None \<Rightarrow> (rows, [])
      | Some r \<Rightarrow>
         (case delete_children depth uid (f_id r) (rows, [f_id r]) of
            (s, Some e) \<Rightarrow> (fst s, [])
          | (s, None) \<Rightarrow> (delete_row (f_id r) (fst s), snd s)))"

section \<open>Searching\<close>

text \<open>Runs of white space and underscores become one space.\<close>

fun collapse_seps :: "bool \<Rightarrow> string \<Rightarrow> string" where
  "collapse_seps prev [] = []"
| "collapse_seps prev (c # s) =
     (if is_space c \<or> c = CHR ''_''
      then (if prev then collapse_seps True s else CHR '' '' # collapse_seps True s)
      else c # collapse_seps False s)"

definition normalize_folder_name :: "string \<Rightarrow> string" where
  "normalize_folder_name name = py_lower (py_strip (collapse_seps False name))"

fun put_all :: "folder_row list \<Rightarrow> (string, folder_row) od \<Rightarrow> (string, folder_row) od" where
  "put_all [] acc = acc"
| "put_all (r # rs) acc = put_all rs (od_set (f_id r) r acc)"

definition search_by_names_step ::
  "nat \<Rightarrow> string \<Rightarrow> string list \<Rightarrow> folder_row list \<Rightarrow> (string, folder_row) od \<Rightarrow> folder_row \<Rightarrow>
   (string, folder_row) od res" where
  "search_by_names_step depth uid qs rows acc r =
     (case f_name r of
        None \<Rightarrow> Inl TypeError
      | Some n \<Rightarrow>
         (if normalize_folder_name n \<in> set qs
          then (let acc' = od_set (f_id r) r acc in
             Inr (case get_children_folders_by_id_and_user_id depth (f_id r) uid rows of
                    None \<Rightarrow> acc' | Some cs \<Rightarrow> put_all cs acc'))
          else Inr acc))"

definition search_folders_by_names :: "nat \<Rightarrow> string \<Rightarrow> string list \<Rightarrow> folder_row list \<Rightarrow> folder_row list res" where
  "search_folders_by_names depth uid queries rows =
     (let qs = map normalize_folder_name queries in
      if qs = [] then Inr []
      else rmap (map snd) (rfoldM (search_by_names_step depth uid qs rows) []
             (filter (\<lambda>r. f_user_id r = uid) rows)))"

definition search_folders_by_name_contains :: "string \<Rightarrow> string \<Rightarrow> folder_row list \<Rightarrow> folder_row list res" where
  "search_folders_by_name_contains uid query rows =
     rfilterM (\<lambda>r. case f_name r of None \<Rightarrow> Inl TypeError
                   | Some n \<Rightarrow> Inr (py_contains (normalize_folder_name n) (normalize_folder_name query)))
       (filter (\<lambda>r. f_user_id r = uid) rows)"

section \<open>Inherited access and the handlers\<close>

fun has_folder_access ::
  "nat \<Rightarrow> group_db \<Rightarrow> grant_row list \<Rightarrow> folder_row list \<Rightarrow> string \<Rightarrow> folder_row \<Rightarrow> string \<Rightarrow> bool res" where
  "has_folder_access 0 db grants rows uid f perm = Inl RecursionError"
| "has_folder_access (Suc n) db grants rows uid f perm =
     (if f_user_id f = uid then Inr True
      else if grants_has_access db grants uid ''folder'' (f_id f) perm None then Inr True
      else (case f_parent_id f of
          None \<Rightarrow> Inr False
        | Some p \<Rightarrow>
           (if p = [] then Inr False
            else (case get_folder_by_id p rows of
                None \<Rightarrow> Inr False
              | Some parent \<Rightarrow> has_folder_access n db grants rows uid parent perm))))"

text \<open>The handler of \<^verbatim>\<open>POST /{id}/update/parent\<close> once the feature check has passed\<close>

definition update_folder_parent_handler ::
  "(string \<Rightarrow> string \<Rightarrow> bool) \<Rightarrow> int \<Rightarrow> string \<Rightarrow> string \<Rightarrow> string option \<Rightarrow> folder_row list \<Rightarrow>
   (folder_row list \<times> folder_row option) res" where
  "update_folder_parent_handler ilike now uid fid pid rows =
     (case get_folder_by_id_and_user_id fid uid rows of
        None \<Rightarrow> Inl (HTTPException 404 ''not found'')
      | Some f \<Rightarrow>
         (case get_folder_by_parent_id_and_user_id_and_name ilike pid uid
                 (case f_name f of None \<Rightarrow> [] | Some n \<Rightarrow> n) rows of
            Some x \<Rightarrow> Inl (HTTPException 400 ''Folder already exists'')
          | None \<Rightarrow> Inr (update_folder_parent_id_by_id_and_user_id now fid uid pid rows)))"

text \<open>The handler of \<^verbatim>\<open>DELETE /{id}\<close> once the feature check has passed. The numbers of chats
  in folders and the chat permission come from other components; None when the walk over
  the subtree does not return. Changes stay when the call ends in an error.\<close>

definition may_touch_folder ::
  "nat \<Rightarrow> group_db \<Rightarrow> grant_row list \<Rightarrow> folder_row list \<Rightarrow> user_row \<Rightarrow> string \<Rightarrow> folder_row res" where
  "may_touch_folder depth db grants rows user fid =
     (case get_folder_by_id_and_user_id fid (u_id user) rows of
        Some f \<Rightarrow> Inr f
      | None \<Rightarrow>
         (case get_folder_by_id fid rows of
            None \<Rightarrow> Inl (HTTPException 404 ''not found'')
          | Some f \<Rightarrow>
             (if f_parent_id f \<noteq> None \<and> f_parent_id f \<noteq> Some []
              then (if u_role user = ''admin'' then Inr f
                    else rbind (has_folder_access depth db grants rows (u_id user) f ''write'')
                           (\<lambda>b. if b then Inr f else Inl (HTTPException 403 ''access prohibited'')))
              else if u_role user = ''admin'' then Inr f
              else Inl (HTTPException 403 ''access prohibited''))))"

definition delete_folder_handler ::
  "nat \<Rightarrow> group_db \<Rightarrow> (string list \<Rightarrow> string \<Rightarrow> nat) \<Rightarrow> bool \<Rightarrow> user_row \<Rightarrow> string \<Rightarrow>
   folder_row list \<Rightarrow> grant_row list \<Rightarrow> (folder_row list \<times> grant_row list \<times> bool res) option" where
  "delete_folder_handler depth db count_chats may_delete_chats user fid rows grants =
     (case may_touch_folder depth db grants rows user fid of
        Inl e \<Rightarrow> Some (rows, grants, Inl e)
      | Inr f \<Rightarrow>
         (case get_folder_ids_by_id_and_user_id_in_subtree fid (f_user_id f) rows of
            None \<Rightarrow> None
          | Some (Inl e) \<Rightarrow> Some (rows, grants, Inl e)
          | Some (Inr ids) \<Rightarrow>
             (if count_chats ids (f_user_id f) \<noteq> 0 \<and> u_role user \<noteq> ''admin'' \<and> \<not> may_delete_chats
              then Some (rows, grants, Inl (HTTPException 403 ''access prohibited''))
              else (let (rows', gone) = delete_folder_by_id_and_user_id depth fid (f_user_id f) rows;
                        grants' = fold (\<lambda>i g. fst (revoke_all_access ''folder'' i g)) gone grants
                    in Some (rows', grants',
                         rmap (\<lambda>_. True) (get_folders_by_parent_id_and_user_id (Some fid) (f_user_id f) rows'))))))"

section \<open>The tree of a user's folders\<close>

definition edges :: "folder_row list \<Rightarrow> string \<Rightarrow> (string \<times> string) set" where
  "edges rows uid = {(a, b). \<exists>r\<in>set rows. f_user_id r = uid \<and> f_parent_id r = Some a \<and> f_id r = b}"

definition subtree :: "folder_row list \<Rightarrow> string \<Rightarrow> string \<Rightarrow> string set" where
  "subtree rows uid a = {b. (a, b) \<in> (edges rows uid)\<^sup>*}"

definition below :: "folder_row list \<Rightarrow> string \<Rightarrow> string \<Rightarrow> string set" where
  "below rows uid a = {b. (a, b) \<in> (edges rows uid)\<^sup>+}"

definition all_valid :: "folder_row list \<Rightarrow> string \<Rightarrow> bool" where
  "all_valid rows uid = (\<forall>r\<in>set rows. f_user_id r = uid \<longrightarrow> folder_valid r)"

text \<open>A rank that falls from a folder to its children: there is no cycle of parents.\<close>

definition ranked :: "(string \<Rightarrow> nat) \<Rightarrow> folder_row list \<Rightarrow> string \<Rightarrow> bool" where
  "ranked rk rows uid = (\<forall>r\<in>set rows. f_user_id r = uid \<longrightarrow>
     (case f_parent_id r of None \<Rightarrow> True | Some p \<Rightarrow> rk (f_id r) < rk p))"

definition children :: "folder_row list \<Rightarrow> string \<Rightarrow> string \<Rightarrow> folder_row list" where
  "children rows uid a = filter (\<lambda>r. f_parent_id r = Some a \<and> f_user_id r = uid) rows"

lemma by_parent_valid:
  "all_valid rows uid \<Longrightarrow> get_folders_by_parent_id_and_user_id (Some a) uid rows = Inr (children rows uid a)"
  unfolding get_folders_by_parent_id_and_user_id_def children_def
  by (rule rmapM_total [where g = "\<lambda>x. x", simplified]) (auto simp: validate_folder_def all_valid_def)

lemma children_ids: "f_id ` set (children rows uid a) = {b. (a, b) \<in> edges rows uid}"
  by (auto simp: children_def edges_def)

lemma ranked_edge: "ranked rk rows uid \<Longrightarrow> (a, b) \<in> edges rows uid \<Longrightarrow> rk b < rk a"
  by (auto simp: ranked_def edges_def)

lemma ranked_below: "ranked rk rows uid \<Longrightarrow> b \<in> below rows uid a \<Longrightarrow> rk b < rk a"
  unfolding below_def mem_Collect_eq
  by (erule trancl_induct) (auto dest: ranked_edge intro: less_trans)

lemma below_unfold: "below rows uid a = (\<Union>c\<in>set (children rows uid a). insert (f_id c) (below rows uid (f_id c)))"
proof -
  have "below rows uid a = (\<Union>b\<in>{b. (a, b) \<in> edges rows uid}. insert b (below rows uid b))"
    unfolding below_def by (auto dest: tranclD intro: r_into_trancl' trancl_into_trancl2 simp: rtrancl_eq_or_trancl)
      (metis rtrancl_eq_or_trancl tranclD)
  then show ?thesis by (simp flip: children_ids)
qed

lemma subtree_below: "subtree rows uid a = insert a (below rows uid a)"
  by (auto simp: subtree_def below_def rtrancl_eq_or_trancl)

lemma ranked_not_below: "ranked rk rows uid \<Longrightarrow> a \<notin> below rows uid a"
  using ranked_below by blast

section \<open>The loop over a subtree\<close>

text \<open>Every round takes one folder and adds its children, which are of lower rank: the sum of
  \<open>(n + 1) ^ rank\<close> over the stack falls.\<close>

definition stack_weight :: "(string \<Rightarrow> nat) \<Rightarrow> nat \<Rightarrow> folder_row list \<Rightarrow> nat" where
  "stack_weight rk n stack = sum_list (map (\<lambda>r. (n + 1) ^ rk (f_id r)) stack)"

lemma stack_weight_simps [simp]:
  "stack_weight rk n [] = 0"
  "stack_weight rk n (xs @ ys) = stack_weight rk n xs + stack_weight rk n ys"
  "stack_weight rk n (x # xs) = (n + 1) ^ rk (f_id x) + stack_weight rk n xs"
  by (simp_all add: stack_weight_def)

lemma stack_weight_children:
  assumes "ranked rk rows uid"
  shows "stack_weight rk (length rows) (children rows uid a) < (length rows + 1) ^ rk a"
proof (cases "children rows uid a = []")
  case True
  then show ?thesis by simp
next
  case False
  let ?n = "length rows"
  have low: "rk (f_id c) < rk a" if "c \<in> set (children rows uid a)" for c
    using that ranked_edge [OF assms, of a "f_id c"] children_ids [of rows uid a] by blast
  from False obtain c where "c \<in> set (children rows uid a)" by (cases "children rows uid a") auto
  from low [OF this] have pos: "0 < rk a" by simp
  have "stack_weight rk ?n (children rows uid a) \<le> (\<Sum>c\<leftarrow>children rows uid a. (?n + 1) ^ (rk a - 1))"
    unfolding stack_weight_def by (rule sum_list_mono) (use low in \<open>auto intro!: power_increasing simp: Suc_leI\<close>, fastforce)
  also have "\<dots> = length (children rows uid a) * (?n + 1) ^ (rk a - 1)"
    by (simp add: sum_list_triv)
  also have "\<dots> \<le> ?n * (?n + 1) ^ (rk a - 1)"
    by (simp add: children_def)
  also have "\<dots> < (?n + 1) ^ rk a"
    using pos by (cases "rk a") auto
  finally show ?thesis .
qed

definition stack_ids :: "folder_row list \<Rightarrow> string \<Rightarrow> folder_row list \<Rightarrow> string set" where
  "stack_ids rows uid stack = (\<Union>s\<in>set stack. below rows uid (f_id s))"

lemma subtree_loop_total:
  assumes "ranked rk rows uid" and "all_valid rows uid"
  shows "\<exists>out. subtree_loop rows uid stack ids = Some (Inr out) \<and> set out = set ids \<union> stack_ids rows uid stack"
proof (induction "stack_weight rk (length rows) stack" arbitrary: stack ids rule: less_induct)
  case less
  show ?case
  proof (cases stack rule: rev_cases)
    case Nil
    then show ?thesis by (simp add: subtree_loop.simps stack_ids_def)
  next
    case (snoc st s)
    let ?cs = "children rows uid (f_id s)"
    have "stack_weight rk (length rows) (st @ ?cs) < stack_weight rk (length rows) stack"
      using stack_weight_children [OF assms(1)] by (simp add: snoc)
    from less [OF this, of "ids @ map f_id ?cs"] obtain out where
      out: "subtree_loop rows uid (st @ ?cs) (ids @ map f_id ?cs) = Some (Inr out)"
      "set out = set (ids @ map f_id ?cs) \<union> stack_ids rows uid (st @ ?cs)"
      by blast
    have "subtree_loop rows uid stack ids = Some (Inr out)"
      by (subst subtree_loop.simps) (simp add: snoc by_parent_valid [OF assms(2)] out(1))
    moreover have "set out = set ids \<union> stack_ids rows uid stack"
      unfolding out(2) stack_ids_def snoc using below_unfold [of rows uid "f_id s"] by auto
    ultimately show ?thesis by blast
  qed
qed

text \<open>A stack that reaches a cycle still does so after the round, so the loop goes on.\<close>

definition reaches_cycle :: "folder_row list \<Rightarrow> string \<Rightarrow> string \<Rightarrow> bool" where
  "reaches_cycle rows uid a = (\<exists>c. c \<in> subtree rows uid a \<and> c \<in> below rows uid c)"

lemma reaches_cycle_child:
  assumes "reaches_cycle rows uid a"
  shows "\<exists>c\<in>set (children rows uid a). reaches_cycle rows uid (f_id c)"
proof -
  from assms obtain c where c: "(a, c) \<in> (edges rows uid)\<^sup>*" "(c, c) \<in> (edges rows uid)\<^sup>+"
    by (auto simp: reaches_cycle_def subtree_def below_def)
  then have "(a, c) \<in> (edges rows uid)\<^sup>+" by (rule rtrancl_trancl_trancl)
  then obtain b where "(a, b) \<in> edges rows uid" "(b, c) \<in> (edges rows uid)\<^sup>*"
    by (auto dest: tranclD)
  moreover from this c(2) have "reaches_cycle rows uid b"
    by (auto simp: reaches_cycle_def subtree_def below_def)
  ultimately show ?thesis
    using children_ids [of rows uid a] by (metis (mono_tags, lifting) imageE mem_Collect_eq)
qed

lemma subtree_loop_cycle_partial:
  assumes "subtree_loop rows uid stack ids = Some y"
  shows "all_valid rows uid \<longrightarrow> \<not> (\<exists>s\<in>set stack. reaches_cycle rows uid (f_id s))"
  using _ assms
proof (rule subtree_loop.raw_induct
    [where P = "\<lambda>rows uid stack ids y. all_valid rows uid \<longrightarrow> \<not> (\<exists>s\<in>set stack. reaches_cycle rows uid (f_id s))"],
    intro impI notI)
  fix loop rows uid stack ids y
  assume IH: "\<And>rows uid stack ids y. loop rows uid stack ids = Some y \<Longrightarrow>
      all_valid rows uid \<longrightarrow> \<not> (\<exists>s\<in>set stack. reaches_cycle rows uid (f_id s))"
    and body: "(if stack = [] then Some (Inr ids)
      else case get_folders_by_parent_id_and_user_id (Some (f_id (last stack))) uid rows of
          Inl e \<Rightarrow> Some (Inl e)
        | Inr cs \<Rightarrow> loop rows uid (butlast stack @ cs) (ids @ map f_id cs)) = Some y"
    and valid: "all_valid rows uid" and "\<exists>s\<in>set stack. reaches_cycle rows uid (f_id s)"
  then obtain s0 where s0: "s0 \<in> set stack" "reaches_cycle rows uid (f_id s0)" by blast
  let ?s = "last stack"
  let ?cs = "children rows uid (f_id ?s)"
  from s0 have ne: "stack \<noteq> []" by auto
  with body have "loop rows uid (butlast stack @ ?cs) (ids @ map f_id ?cs) = Some y"
    by (simp add: by_parent_valid [OF valid])
  moreover have "\<exists>t\<in>set (butlast stack @ ?cs). reaches_cycle rows uid (f_id t)"
  proof (cases "s0 = ?s")
    case True
    with reaches_cycle_child [OF s0(2)] show ?thesis by auto
  next
    case False
    have "set stack = insert ?s (set (butlast stack))"
      by (subst append_butlast_last_id [OF ne, symmetric]) simp
    with False s0 show ?thesis by auto
  qed
  ultimately show False using IH valid by blast
qed

lemma subtree_loop_cycle:
  assumes "all_valid rows uid" and "s \<in> set stack" and "reaches_cycle rows uid (f_id s)"
  shows "subtree_loop rows uid stack ids = None"
  using subtree_loop_cycle_partial [of rows uid stack ids] assms by (cases "subtree_loop rows uid stack ids") blast+

section \<open>Moving a folder below itself\<close>

lemma rtrancl_no_return: "(a, b) \<in> R\<^sup>* \<Longrightarrow> (a, b) \<in> {(x, y) \<in> R. y \<noteq> a}\<^sup>*"
proof (induction rule: rtrancl_induct)
  case base
  then show ?case by simp
next
  case (step b c)
  show ?case
  proof (cases "c = a")
    case True
    then show ?thesis by simp
  next
    case False
    with step(2,3) show ?thesis by (auto intro: rtrancl_into_rtrancl)
  qed
qed

lemma find_put_folder:
  assumes "List.find (\<lambda>r. f_id r = fid \<and> f_user_id r = uid) rows = Some r"
    and "f_id r' = fid" and "f_user_id r' = uid" and "folders_ok rows"
  shows "List.find (\<lambda>r. f_id r = fid \<and> f_user_id r = uid) (put_folder r' rows) = Some r'"
  using assms unfolding put_folder_def folders_ok_def by (induction rows) (auto split: if_splits)

lemma find_folder_row:
  assumes "List.find (\<lambda>r. f_id r = fid \<and> f_user_id r = uid) rows = Some r"
  shows "r \<in> set rows" and "f_id r = fid" and "f_user_id r = uid"
  using assms by (auto simp: find_Some_iff)

lemma put_folder_valid: "all_valid rows uid \<Longrightarrow> folder_valid r' \<Longrightarrow> all_valid (put_folder r' rows) uid"
  by (auto simp: all_valid_def put_folder_def)

lemma put_folder_edges:
  assumes "r \<in> set rows" and "f_id r' = f_id r" and "f_user_id r' = uid" and "f_parent_id r' = Some p"
  shows "{(x, y) \<in> edges rows uid. y \<noteq> f_id r} \<union> {(p, f_id r)} \<subseteq> edges (put_folder r' rows) uid"
  using assms by (force simp: edges_def put_folder_def image_iff)

lemma moved_below_itself_cycle:
  assumes "r \<in> set rows" and "f_id r' = f_id r" and "f_user_id r' = uid" and "f_parent_id r' = Some p"
    and "p \<in> subtree rows uid (f_id r)"
  shows "reaches_cycle (put_folder r' rows) uid (f_id r)"
proof -
  let ?E = "edges (put_folder r' rows) uid"
  note e = put_folder_edges [OF assms(1-4)]
  from assms(5) have "(f_id r, p) \<in> {(x, y) \<in> edges rows uid. y \<noteq> f_id r}\<^sup>*"
    unfolding subtree_def by (auto intro: rtrancl_no_return)
  then have "(f_id r, p) \<in> ?E\<^sup>*"
    using e by (meson Un_subset_iff in_mono rtrancl_mono)
  moreover have "(p, f_id r) \<in> ?E" using e by auto
  ultimately have "(f_id r, f_id r) \<in> ?E\<^sup>+" by (rule rtrancl_into_trancl1)
  then show ?thesis by (auto simp: reaches_cycle_def subtree_def below_def)
qed

lemma first_valid_find: "first_valid P rows = Some r \<longleftrightarrow> List.find P rows = Some r \<and> folder_valid r"
  by (auto simp: first_valid_def split: option.splits if_splits)

section \<open>Deleting a subtree\<close>

definition closed_below :: "folder_row list \<Rightarrow> string \<Rightarrow> string set \<Rightarrow> bool" where
  "closed_below rows uid R = (\<forall>a b. (a, b) \<in> edges rows uid \<longrightarrow> a \<in> R \<longrightarrow> b \<in> R)"

definition without :: "string set \<Rightarrow> folder_row list \<Rightarrow> folder_row list" where
  "without R rows = filter (\<lambda>r. f_id r \<notin> R) rows"

lemma without_simps [simp]:
  "without R (without S rows) = without (R \<union> S) rows"
  "folders_ok rows \<Longrightarrow> folders_ok (without R rows)"
  "all_valid rows uid \<Longrightarrow> all_valid (without R rows) uid"
  "ranked rk rows uid \<Longrightarrow> ranked rk (without R rows) uid"
  by (auto simp: without_def folders_ok_def all_valid_def ranked_def conj_commute)

lemma delete_row_without: "delete_row a (without R rows) = without (insert a R) rows"
  by (auto simp: without_def delete_row_def intro: filter_cong)

lemma without_empty [simp]: "without {} rows = rows"
  by (simp add: without_def)

lemma edges_without: "edges (without R rows) uid = {(a, b) \<in> edges rows uid. b \<notin> R}"
  by (auto simp: edges_def without_def)

lemma below_without:
  assumes "closed_below rows uid R"
  shows "below (without R rows) uid c \<union> R = below rows uid c \<union> R"
proof -
  have "(c, b) \<in> (edges rows uid)\<^sup>+ \<Longrightarrow> (c, b) \<in> (edges (without R rows) uid)\<^sup>+ \<or> b \<in> R" for b
  proof (induction rule: trancl_induct)
    case (base y)
    then show ?case by (auto simp: edges_without)
  next
    case (step y z)
    then show ?case using assms unfolding closed_below_def
      by (metis (mono_tags, lifting) case_prodI edges_without mem_Collect_eq trancl.trancl_into_trancl)
  qed
  moreover have "(edges (without R rows) uid)\<^sup>+ \<subseteq> (edges rows uid)\<^sup>+"
    by (auto simp: edges_without elim: trancl_mono)
  ultimately show ?thesis by (auto simp: below_def)
qed

lemma closed_below_subtree: "closed_below rows uid (subtree rows uid a)"
  by (auto simp: closed_below_def subtree_def intro: rtrancl_into_rtrancl)

lemma closed_below_Un: "closed_below rows uid R \<Longrightarrow> closed_below rows uid S \<Longrightarrow> closed_below rows uid (R \<union> S)"
  by (auto simp: closed_below_def)

lemma sibling_not_in_subtree:
  assumes "ranked rk rows uid" and "folders_ok rows" and "c \<in> set (children rows uid a)"
    and "d \<in> set (children rows uid a)" and "f_id d \<noteq> f_id c"
  shows "f_id d \<notin> subtree rows uid (f_id c)"
proof
  assume "f_id d \<in> subtree rows uid (f_id c)"
  with assms(5) have "f_id d \<in> below rows uid (f_id c)" by (simp add: subtree_below)
  then obtain p where p: "(f_id c, p) \<in> (edges rows uid)\<^sup>*" "(p, f_id d) \<in> edges rows uid"
    unfolding below_def by (auto dest: tranclD2)
  then obtain r where r: "r \<in> set rows" "f_parent_id r = Some p" "f_id r = f_id d" by (auto simp: edges_def)
  have "d \<in> set rows" "f_parent_id d = Some a" using assms(4) by (auto simp: children_def)
  with r assms(2) have "p = a" by (auto simp: folders_ok_def distinct_map inj_on_def)
  with p(1) have "rk a \<le> rk (f_id c)"
    using ranked_below [OF assms(1), of a "f_id c"] by (auto simp: rtrancl_eq_or_trancl below_def)
  moreover have "rk (f_id c) < rk a"
    using ranked_edge [OF assms(1), of a "f_id c"] children_ids [of rows uid a] assms(3) by blast
  ultimately show False by simp
qed

text \<open>What deleting the subtrees below a folder does, and the same for a list of siblings when
  the set \<open>R\<close> is already gone.\<close>

definition deletes_below :: "(string \<Rightarrow> delete_state \<Rightarrow> delete_state \<times> py_error option) \<Rightarrow>
  (string \<Rightarrow> nat) \<Rightarrow> string \<Rightarrow> folder_row list \<Rightarrow> string \<Rightarrow> bool" where
  "deletes_below rec rk uid rows a = (\<forall>R ids. closed_below rows uid R \<longrightarrow>
     (\<exists>l. rec a (without R rows, ids) = ((without (R \<union> below rows uid a) rows, ids @ l), None) \<and>
          set l \<union> R = below rows uid a \<union> R))"

lemma delete_each_siblings:
  assumes "ranked rk rows uid" and "folders_ok rows" and "all_valid rows uid"
    and "\<forall>c\<in>set cs. deletes_below rec rk uid rows (f_id c)"
    and "set cs \<subseteq> set (children rows uid a)" and "distinct (map f_id cs)"
    and "closed_below rows uid R" and "\<forall>c\<in>set cs. f_id c \<notin> R"
  shows "\<exists>l. delete_each rec cs (without R rows, ids) =
      ((without (R \<union> (\<Union>c\<in>set cs. subtree rows uid (f_id c))) rows, ids @ l), None) \<and>
    set l \<union> R = (\<Union>c\<in>set cs. subtree rows uid (f_id c)) \<union> R"
  using assms(4-8)
proof (induction cs arbitrary: R ids)
  case Nil
  then show ?case by simp
next
  case (Cons c cs)
  let ?S = "subtree rows uid (f_id c)"
  from Cons.prems(1,4) obtain l where
    l: "rec (f_id c) (without R rows, ids) = ((without (R \<union> below rows uid (f_id c)) rows, ids @ l), None)"
    "set l \<union> R = below rows uid (f_id c) \<union> R"
    unfolding deletes_below_def by force
  have "c \<in> set rows" using Cons.prems(2) by (auto simp: children_def)
  then have present: "f_id c \<in> f_id ` set (without (R \<union> below rows uid (f_id c)) rows)"
    using Cons.prems(5) ranked_not_below [OF assms(1)] by (auto simp: without_def)
  have gone: "delete_row (f_id c) (without (R \<union> below rows uid (f_id c)) rows) = without (R \<union> ?S) rows"
    by (simp add: subtree_below delete_row_without)
  have rest: "\<forall>d\<in>set cs. f_id d \<notin> R \<union> ?S"
  proof
    fix d
    assume d: "d \<in> set cs"
    with Cons.prems(3) have "f_id d \<noteq> f_id c" by (auto simp: image_iff)
    with d Cons.prems(2) have "f_id d \<notin> ?S" by (intro sibling_not_in_subtree [OF assms(1,2), of c a]) auto
    with d Cons.prems(5) show "f_id d \<notin> R \<union> ?S" by simp
  qed
  have "closed_below rows uid (R \<union> ?S)"
    by (rule closed_below_Un [OF Cons.prems(4) closed_below_subtree])
  have "\<forall>c\<in>set cs. deletes_below rec rk uid rows (f_id c)" "set cs \<subseteq> set (children rows uid a)"
    "distinct (map f_id cs)"
    using Cons.prems(1-3) by simp_all
  from Cons.IH [OF this \<open>closed_below rows uid (R \<union> ?S)\<close> rest, of "ids @ l @ [f_id c]"] obtain m where
    m: "delete_each rec cs (without (R \<union> ?S) rows, ids @ l @ [f_id c]) =
       ((without (R \<union> ?S \<union> (\<Union>c\<in>set cs. subtree rows uid (f_id c))) rows, (ids @ l @ [f_id c]) @ m), None)"
    "set m \<union> (R \<union> ?S) = (\<Union>c\<in>set cs. subtree rows uid (f_id c)) \<union> (R \<union> ?S)"
    by blast
  have "delete_each rec (c # cs) (without R rows, ids) =
      ((without (R \<union> (\<Union>c\<in>set (c # cs). subtree rows uid (f_id c))) rows, ids @ (l @ [f_id c] @ m)), None)"
    using present m(1) by (simp add: l(1) gone Un_assoc)
  moreover have "set (l @ [f_id c] @ m) \<union> R = (\<Union>c\<in>set (c # cs). subtree rows uid (f_id c)) \<union> R"
    using l(2) m(2) by (auto simp: subtree_below)
  ultimately show ?case by blast
qed

lemma children_without:
  "children (without R rows) uid a = filter (\<lambda>r. f_id r \<notin> R) (children rows uid a)"
  by (auto simp: children_def without_def conj_commute intro: filter_cong)

lemma closed_subtree: "closed_below rows uid R \<Longrightarrow> c \<in> R \<Longrightarrow> subtree rows uid c \<subseteq> R"
proof
  fix b
  assume R: "closed_below rows uid R" "c \<in> R" and "b \<in> subtree rows uid c"
  then have "(c, b) \<in> (edges rows uid)\<^sup>*" by (simp add: subtree_def)
  then show "b \<in> R" using R by (induction rule: rtrancl_induct) (auto simp: closed_below_def)
qed

lemma below_subtrees: "below rows uid a = (\<Union>c\<in>set (children rows uid a). subtree rows uid (f_id c))"
  using below_unfold [of rows uid a] by (simp add: subtree_below)

lemma delete_children_deletes:
  assumes "ranked rk rows uid" and "folders_ok rows" and "all_valid rows uid" and "rk a < n"
  shows "deletes_below (delete_children n uid) rk uid rows a"
  using assms(4)
proof (induction n arbitrary: a)
  case 0
  then show ?case by simp
next
  case (Suc n)
  have "\<exists>l. delete_children (Suc n) uid a (without R rows, ids) =
        ((without (R \<union> below rows uid a) rows, ids @ l), None) \<and> set l \<union> R = below rows uid a \<union> R"
    if R: "closed_below rows uid R" for R ids
  proof -
    let ?cs = "children (without R rows) uid a"
    have cs: "set ?cs \<subseteq> set (children rows uid a)" "\<forall>c\<in>set ?cs. f_id c \<notin> R"
      by (auto simp: children_without)
    have "\<forall>c\<in>set ?cs. deletes_below (delete_children n uid) rk uid rows (f_id c)"
    proof
      fix c
      assume "c \<in> set ?cs"
      with cs(1) children_ids [of rows uid a] have "(a, f_id c) \<in> edges rows uid" by blast
      from ranked_edge [OF assms(1) this] Suc.prems
      show "deletes_below (delete_children n uid) rk uid rows (f_id c)" by (intro Suc.IH) simp
    qed
    moreover have "distinct (map f_id ?cs)"
      using assms(2) by (simp add: children_def without_def folders_ok_def)
    ultimately have "\<exists>l. delete_each (delete_children n uid) ?cs (without R rows, ids) =
        ((without (R \<union> (\<Union>c\<in>set ?cs. subtree rows uid (f_id c))) rows, ids @ l), None) \<and>
      set l \<union> R = (\<Union>c\<in>set ?cs. subtree rows uid (f_id c)) \<union> R"
      by (intro delete_each_siblings [OF assms(1-3) _ cs(1) _ R cs(2)])
    then obtain l where l: "delete_each (delete_children n uid) ?cs (without R rows, ids) =
        ((without (R \<union> (\<Union>c\<in>set ?cs. subtree rows uid (f_id c))) rows, ids @ l), None)"
      "set l \<union> R = (\<Union>c\<in>set ?cs. subtree rows uid (f_id c)) \<union> R"
      by (elim exE conjE)
    have same: "(\<Union>c\<in>set ?cs. subtree rows uid (f_id c)) \<union> R = below rows uid a \<union> R"
      unfolding below_subtrees children_without using closed_subtree [OF R] by auto
    then have "R \<union> (\<Union>c\<in>set ?cs. subtree rows uid (f_id c)) = R \<union> below rows uid a" by (simp only: Un_commute)
    note l' = l(1) [unfolded this] l(2) [unfolded same]
    have "all_valid (without R rows) uid" using assms(3) by simp
    then have "delete_children (Suc n) uid a (without R rows, ids) =
        delete_each (delete_children n uid) ?cs (without R rows, ids)"
      by (simp add: by_parent_valid)
    with l' show ?thesis by (intro exI [of _ l] conjI) (simp_all only:)
  qed
  then show ?case unfolding deletes_below_def by blast
qed

lemma delete_folder_total:
  assumes "ranked rk rows uid" and "folders_ok rows" and "all_valid rows uid" and "rk fid < depth"
    and "List.find (\<lambda>r. f_id r = fid \<and> f_user_id r = uid) rows = Some r"
  shows "\<exists>ids. delete_folder_by_id_and_user_id depth fid uid rows = (without (subtree rows uid fid) rows, ids)
    \<and> set ids = subtree rows uid fid"
proof -
  have "deletes_below (delete_children depth uid) rk uid rows fid"
    by (rule delete_children_deletes [OF assms(1-4)])
  then obtain l where l: "delete_children depth uid fid (rows, [fid]) =
      ((without (below rows uid fid) rows, [fid] @ l), None)" "set l = below rows uid fid"
    unfolding deletes_below_def closed_below_def by (metis Un_empty_left Un_empty_right empty_iff without_empty)
  then show ?thesis
    unfolding delete_folder_by_id_and_user_id_def assms(5) option.case find_folder_row(2) [OF assms(5)] l(1)
    by (simp add: delete_row_without subtree_below)
qed

section \<open>Access along the chain of parents\<close>

definition parent_of :: "folder_row list \<Rightarrow> folder_row \<Rightarrow> folder_row option" where
  "parent_of rows f = (case f_parent_id f of None \<Rightarrow> None
     | Some p \<Rightarrow> (if p = [] then None else get_folder_by_id p rows))"

inductive ancestor :: "folder_row list \<Rightarrow> folder_row \<Rightarrow> folder_row \<Rightarrow> bool" for rows where
  anc_self: "ancestor rows f f"
| anc_step: "parent_of rows f = Some p \<Longrightarrow> ancestor rows p g \<Longrightarrow> ancestor rows f g"

inductive_cases ancestor_cases: "ancestor rows f g"

lemma ancestor_unfold:
  "ancestor rows f g \<longleftrightarrow> g = f \<or> (\<exists>p. parent_of rows f = Some p \<and> ancestor rows p g)"
  by (auto intro: ancestor.intros elim: ancestor_cases)

definition direct_access :: "group_db \<Rightarrow> grant_row list \<Rightarrow> string \<Rightarrow> string \<Rightarrow> folder_row \<Rightarrow> bool" where
  "direct_access db grants uid perm f =
     (f_user_id f = uid \<or> grants_has_access db grants uid ''folder'' (f_id f) perm None)"

lemma has_folder_access_step:
  "has_folder_access (Suc n) db grants rows uid f perm =
     (if direct_access db grants uid perm f then Inr True
      else (case parent_of rows f of None \<Rightarrow> Inr False
            | Some p \<Rightarrow> has_folder_access n db grants rows uid p perm))"
  unfolding has_folder_access.simps(2) direct_access_def parent_of_def
  by (cases "f_parent_id f") (simp_all del: has_folder_access.simps)

declare has_folder_access.simps(2) [simp del]

lemma has_folder_access_chain:
  assumes "\<forall>g h. ancestor rows f g \<longrightarrow> parent_of rows g = Some h \<longrightarrow> rk h < rk g" and "rk f < n"
  shows "has_folder_access n db grants rows uid f perm =
    Inr (\<exists>g. ancestor rows f g \<and> direct_access db grants uid perm g)"
  using assms
proof (induction n arbitrary: f)
  case 0
  then show ?case by simp
next
  case (Suc n)
  show ?case
  proof (cases "parent_of rows f")
    case None
    then have "ancestor rows f g \<longleftrightarrow> g = f" for g by (subst ancestor_unfold) simp
    with None show ?thesis by (simp add: has_folder_access_step)
  next
    case (Some p)
    have anc: "ancestor rows f g \<longleftrightarrow> g = f \<or> ancestor rows p g" for g
      by (subst ancestor_unfold) (simp add: Some)
    have "rk p < rk f" using Suc.prems(1) Some anc_self by blast
    with Suc.prems have "has_folder_access n db grants rows uid p perm =
        Inr (\<exists>g. ancestor rows p g \<and> direct_access db grants uid perm g)"
      by (intro Suc.IH) (auto simp: anc)
    with Some anc show ?thesis by (auto simp: has_folder_access_step)
  qed
qed

lemma has_folder_access_cycle_error:
  assumes "\<forall>g\<in>C. \<not> direct_access db grants uid perm g \<and> (\<exists>h\<in>C. parent_of rows g = Some h)" and "f \<in> C"
  shows "has_folder_access n db grants rows uid f perm = Inl RecursionError"
  using assms(2)
proof (induction n arbitrary: f)
  case 0
  then show ?case by simp
next
  case (Suc n)
  with assms(1) obtain h where "h \<in> C" "parent_of rows f = Some h" "\<not> direct_access db grants uid perm f" by blast
  with Suc.IH show ?case by (simp add: has_folder_access_step)
qed

section \<open>Permissions of shared folders\<close>

lemma fold_perms_is_write:
  "od_get (fold_folder_perms acc gs) f = Some ''write'' \<longleftrightarrow>
     od_get acc f = Some ''write'' \<or> (\<exists>g\<in>set gs. gr_resource_id g = f \<and> gr_permission g = ''write'')"
  by (induction acc gs rule: fold_folder_perms.induct) auto

lemma fold_perms_is_None:
  "od_get (fold_folder_perms acc gs) f = None \<longleftrightarrow>
     od_get acc f = None \<and> \<not> (\<exists>g\<in>set gs. gr_resource_id g = f)"
  by (induction acc gs rule: fold_folder_perms.induct) auto

section \<open>Properties\<close>

text \<open>The example: a folder, its child and grandchild, the first one shared with \<open>bob\<close>.\<close>

definition sample_folder :: "string \<Rightarrow> string option \<Rightarrow> folder_row" where
  "sample_folder i p = \<lparr>f_id = i, f_parent_id = p, f_user_id = ''ann'', f_name = Some i, f_items = None,
     f_meta = None, f_data = None, f_is_expanded = False, f_created_at = 1, f_updated_at = 1\<rparr>"

definition sample_folders :: "folder_row list" where
  "sample_folders = [sample_folder ''a'' None, sample_folder ''b'' (Some ''a''), sample_folder ''c'' (Some ''b'')]"

definition sample_rank :: "string \<Rightarrow> nat" where
  "sample_rank i = (if i = ''a'' then 2 else if i = ''b'' then 1 else 0)"

definition folder_grants :: "grant_row list" where
  "folder_grants = [gr_of_spec ''g1'' 1 (spec_of ''folder'' ''a'' ''user'' ''bob'' ''read'')]"

lemma sample_folders_ok:
  "folders_ok sample_folders" "all_valid sample_folders ''ann''" "ranked sample_rank sample_folders ''ann''"
  by (simp_all add: folders_ok_def all_valid_def ranked_def sample_folders_def sample_folder_def
      folder_valid_def sample_rank_def)

lemma sample_find:
  "List.find (\<lambda>r. f_id r = ''a'' \<and> f_user_id r = ''ann'') sample_folders = Some (sample_folder ''a'' None)"
  by (simp add: sample_folders_def sample_folder_def)

text \<open>C10 When a user's folders have no cycle of parents, the walk over the subtree of a folder
  returns, and lists exactly the ids that can be reached from it by going to children.\<close>

theorem subtree_ids_exact:
  assumes "ranked rk rows uid" and "all_valid rows uid"
    and "List.find (\<lambda>r. f_id r = fid \<and> f_user_id r = uid) rows = Some r"
  shows "\<exists>ids. get_folder_ids_by_id_and_user_id_in_subtree fid uid rows = Some (Inr ids) \<and>
    set ids = subtree rows uid fid"
proof -
  note r = find_folder_row [OF assms(3)]
  have "folder_valid r" using assms(2) r by (simp add: all_valid_def)
  with subtree_loop_total [OF assms(1,2), of "[r]" "[fid]"] r(2) assms(3) show ?thesis
    by (simp add: get_folder_ids_by_id_and_user_id_in_subtree_def stack_ids_def subtree_below)
qed

theorem subtree_ids_exact_witness:
  "\<exists>ids. get_folder_ids_by_id_and_user_id_in_subtree ''a'' ''ann'' sample_folders = Some (Inr ids) \<and>
    set ids = subtree sample_folders ''ann'' ''a''"
  by (rule subtree_ids_exact [OF sample_folders_ok(3,2) sample_find])

text \<open>C11 When its owner, allowed to delete chats, deletes a folder without a cycle below it, the
  request succeeds, exactly the folders of the subtree are gone, every grant on one of them
  is revoked and access to every other resource is as before.\<close>

theorem delete_folder_exact:
  assumes "ranked rk rows (u_id user)" and "folders_ok rows" and "all_valid rows (u_id user)" and "rk fid < depth"
    and "get_folder_by_id_and_user_id fid (u_id user) rows = Some r"
  shows "\<exists>grants'. delete_folder_handler depth db count_chats True user fid rows grants =
      Some (filter (\<lambda>r. f_id r \<notin> subtree rows (u_id user) fid) rows, grants', Inr True) \<and>
    (\<forall>u G rt rid p. has_grant grants' u G rt rid p =
      (\<not> (rt = ''folder'' \<and> rid \<in> subtree rows (u_id user) fid) \<and> has_grant grants u G rt rid p))"
proof -
  from assms(5) have r: "List.find (\<lambda>r. f_id r = fid \<and> f_user_id r = u_id user) rows = Some r"
    by (simp add: get_folder_by_id_and_user_id_def first_valid_find)
  then have owner: "f_user_id r = u_id user" by (rule find_folder_row)
  have touch: "may_touch_folder depth db grants rows user fid = Inr r"
    by (simp add: may_touch_folder_def assms(5))
  have "folder_valid r" using assms(3) find_folder_row [OF r] by (simp add: all_valid_def)
  with subtree_loop_total [OF assms(1,3), of "[r]" "[f_id r]"] r obtain ids where
    ids: "get_folder_ids_by_id_and_user_id_in_subtree fid (u_id user) rows = Some (Inr ids)"
    by (auto simp: get_folder_ids_by_id_and_user_id_in_subtree_def)
  obtain gone where gone: "delete_folder_by_id_and_user_id depth fid (u_id user) rows =
      (without (subtree rows (u_id user) fid) rows, gone)" "set gone = subtree rows (u_id user) fid"
    using delete_folder_total [OF assms(1-4) r] by blast
  have after: "get_folders_by_parent_id_and_user_id (Some fid) (u_id user) (without S rows) =
      Inr (children (without S rows) (u_id user) fid)" for S
    by (rule by_parent_valid) (simp add: assms(3))
  let ?g = "fold (\<lambda>i g. fst (revoke_all_access ''folder'' i g)) gone grants"
  have "delete_folder_handler depth db count_chats True user fid rows grants =
      Some (without (subtree rows (u_id user) fid) rows, ?g, Inr True)"
    by (simp add: delete_folder_handler_def touch owner ids gone(1) after)
  then show ?thesis
    unfolding without_def using gstore.drop_fold [of "''folder''" gone grants] gone(2) by auto
qed

theorem delete_folder_exact_witness:
  "\<exists>grants'. delete_folder_handler 100 sample_db (\<lambda>_ _. 3) True \<lparr>u_id = ''ann'', u_role = ''user''\<rparr> ''b''
      sample_folders folder_grants =
    Some (filter (\<lambda>r. f_id r \<notin> subtree sample_folders ''ann'' ''b'') sample_folders, grants', Inr True)"
proof -
  have "get_folder_by_id_and_user_id ''b'' ''ann'' sample_folders = Some (sample_folder ''b'' (Some ''a''))"
    by (simp add: get_folder_by_id_and_user_id_def first_valid_def sample_folders_def sample_folder_def folder_valid_def)
  with delete_folder_exact [of sample_rank sample_folders "\<lparr>u_id = ''ann'', u_role = ''user''\<rparr>" "''b''" 100]
    sample_folders_ok show ?thesis by (simp add: sample_rank_def) blast
qed

text \<open>The owner may move a folder below itself or below one of its own subfolders, when no folder
  of its name is there: the request is accepted, and from then on neither the walk over its
  subtree nor the request that deletes it returns.\<close>

theorem move_below_itself_never_returns:
  assumes "folders_ok rows" and "all_valid rows (u_id user)"
    and "get_folder_by_id_and_user_id fid (u_id user) rows = Some f" and "pid \<in> subtree rows (u_id user) fid"
    and "get_folder_by_parent_id_and_user_id_and_name ilike (Some pid) (u_id user) (the (f_name f)) rows = None"
  shows "\<exists>rows' g. update_folder_parent_handler ilike now (u_id user) fid (Some pid) rows = Inr (rows', Some g) \<and>
    get_folder_ids_by_id_and_user_id_in_subtree fid (u_id user) rows' = None \<and>
    delete_folder_handler depth db count_chats may user fid rows' grants = None"
proof -
  let ?u = "u_id user"
  from assms(3) have f: "List.find (\<lambda>r. f_id r = fid \<and> f_user_id r = ?u) rows = Some f" and v: "folder_valid f"
    by (simp_all add: get_folder_by_id_and_user_id_def first_valid_find)
  note row = find_folder_row [OF f]
  let ?f = "f\<lparr>f_parent_id := Some pid, f_updated_at := now\<rparr>"
  let ?rows = "put_folder ?f rows"
  have v': "folder_valid ?f" and own: "f_user_id ?f = ?u" "f_id ?f = fid" using v row by (simp_all add: folder_valid_def)
  have "update_folder_parent_handler ilike now ?u fid (Some pid) rows = Inr (?rows, Some ?f)"
    using assms(5) v v' by (auto simp: update_folder_parent_handler_def assms(3) f folder_valid_def answer_row_def
        update_folder_parent_id_by_id_and_user_id_def Let_def)
  moreover have found: "List.find (\<lambda>r. f_id r = fid \<and> f_user_id r = ?u) ?rows = Some ?f"
    by (rule find_put_folder [OF f own(2,1) assms(1)])
  have cycle: "reaches_cycle ?rows ?u fid"
    using moved_below_itself_cycle [of f rows ?f ?u pid] row assms(4) by simp
  have "all_valid ?rows ?u" by (rule put_folder_valid [OF assms(2) v'])
  then have "subtree_loop ?rows ?u [?f] [f_id ?f] = None"
    by (rule subtree_loop_cycle [of _ _ ?f]) (use cycle own in simp_all)
  then have walk: "get_folder_ids_by_id_and_user_id_in_subtree fid ?u ?rows = None"
    unfolding get_folder_ids_by_id_and_user_id_in_subtree_def found option.case using v' by simp
  moreover have "get_folder_by_id_and_user_id fid ?u ?rows = Some ?f"
    by (simp add: get_folder_by_id_and_user_id_def first_valid_find found v')
  then have "may_touch_folder depth db grants ?rows user fid = Inr ?f"
    by (simp add: may_touch_folder_def)
  then have "delete_folder_handler depth db count_chats may user fid ?rows grants = None"
    by (simp add: delete_folder_handler_def own(1) walk del: folder_row.simps)
  ultimately show ?thesis by blast
qed

theorem move_below_itself_never_returns_witness:
  "\<exists>rows' g. update_folder_parent_handler (=) 5 ''ann'' ''a'' (Some ''a'') sample_folders = Inr (rows', Some g) \<and>
    get_folder_ids_by_id_and_user_id_in_subtree ''a'' ''ann'' rows' = None \<and>
    delete_folder_handler 100 sample_db (\<lambda>_ _. 0) True \<lparr>u_id = ''ann'', u_role = ''user''\<rparr> ''a'' rows' [] = None"
proof -
  have "get_folder_by_id_and_user_id ''a'' ''ann'' sample_folders = Some (sample_folder ''a'' None)"
    unfolding get_folder_by_id_and_user_id_def first_valid_find sample_find
    by (simp add: folder_valid_def sample_folder_def)
  moreover have "get_folder_by_parent_id_and_user_id_and_name (=) (Some ''a'') ''ann''
      (the (f_name (sample_folder ''a'' None))) sample_folders = None"
    by (simp add: get_folder_by_parent_id_and_user_id_and_name_def first_valid_def sample_folders_def sample_folder_def)
  moreover have "''a'' \<in> subtree sample_folders ''ann'' ''a''" by (simp add: subtree_below)
  ultimately show ?thesis
    using move_below_itself_never_returns [of sample_folders "\<lparr>u_id = ''ann'', u_role = ''user''\<rparr>" "''a''"]
      sample_folders_ok(1,2) by simp
qed

text \<open>C12 Along a chain of parents without a cycle, a user has a permission on a folder exactly when
  the user owns the folder or an ancestor, or a grant on one of them gives it.\<close>

theorem folder_access_inherited_exactly:
  assumes "\<forall>g h. ancestor rows f g \<longrightarrow> parent_of rows g = Some h \<longrightarrow> rk h < rk g" and "rk f < depth"
  shows "has_folder_access depth db grants rows uid f perm =
    Inr (\<exists>g. ancestor rows f g \<and> (f_user_id g = uid \<or> has_grant grants uid (group_id_set db uid) ''folder'' (f_id g) perm))"
  using has_folder_access_chain [OF assms, of db grants uid perm]
  unfolding direct_access_def grants_has_access_iff resolve_groups_def option.case .

theorem folder_access_inherited_exactly_witness:
  "has_folder_access 100 sample_db folder_grants sample_folders ''bob'' (sample_folder ''a'' None) ''read'' =
    Inr (\<exists>g. ancestor sample_folders (sample_folder ''a'' None) g \<and>
      (f_user_id g = ''bob'' \<or> has_grant folder_grants ''bob'' (group_id_set sample_db ''bob'') ''folder'' (f_id g) ''read''))"
proof (rule folder_access_inherited_exactly [where rk = "\<lambda>_. 0"])
  have "parent_of sample_folders (sample_folder ''a'' None) = None" by (simp add: parent_of_def sample_folder_def)
  then have "ancestor sample_folders (sample_folder ''a'' None) g \<Longrightarrow> g = sample_folder ''a'' None" for g
    by (subst (asm) ancestor_unfold) simp
  with \<open>parent_of sample_folders (sample_folder ''a'' None) = None\<close>
  show "\<forall>g h. ancestor sample_folders (sample_folder ''a'' None) g \<longrightarrow> parent_of sample_folders g = Some h \<longrightarrow> (0::nat) < 0"
    by auto
qed simp

text \<open>A user without access to any folder of a cycle of parents gets no answer from the check on
  one of them: it recurses until the interpreter's stack is exhausted.\<close>

theorem folder_access_cycle_raises:
  assumes "f \<in> C" and "\<forall>g\<in>C. \<exists>h\<in>C. parent_of rows g = Some h"
    and "\<forall>g\<in>C. f_user_id g \<noteq> uid \<and> \<not> has_grant grants uid (group_id_set db uid) ''folder'' (f_id g) perm"
  shows "has_folder_access depth db grants rows uid f perm = Inl RecursionError"
proof (rule has_folder_access_cycle_error [OF _ assms(1)])
  show "\<forall>g\<in>C. \<not> direct_access db grants uid perm g \<and> (\<exists>h\<in>C. parent_of rows g = Some h)"
    unfolding direct_access_def grants_has_access_iff resolve_groups_def option.case using assms(2,3) by blast
qed

theorem folder_access_cycle_raises_witness:
  "has_folder_access 1000 sample_db [] [sample_folder ''a'' (Some ''a'')] ''bob'' (sample_folder ''a'' (Some ''a'')) ''read''
     = Inl RecursionError"
proof (rule folder_access_cycle_raises [where C = "{sample_folder ''a'' (Some ''a'')}"])
  show "\<forall>g\<in>{sample_folder ''a'' (Some ''a'')}. \<exists>h\<in>{sample_folder ''a'' (Some ''a'')}.
      parent_of [sample_folder ''a'' (Some ''a'')] g = Some h"
    by (simp add: parent_of_def get_folder_by_id_def first_valid_def sample_folder_def folder_valid_def)
qed (simp_all add: sample_folder_def has_grant_def)

text \<open>An update whose form sets the name to null is written but not reported: afterwards the owner
  cannot read the folder, and listing all of the owner's folders raises.\<close>

theorem null_name_loses_folder:
  assumes "folders_ok rows" and "get_folder_by_id_and_user_id fid uid rows = Some f" and "all_valid rows uid"
  shows "\<exists>rows'. update_folder_by_id_and_user_id now fid uid \<lparr>fu_name = Some None, fu_data = None, fu_meta = None\<rparr> rows =
      (rows', None) \<and> get_folder_by_id_and_user_id fid uid rows' = None \<and>
    get_folders_by_user_id uid rows' = Inl (ValueError ''validation'')"
proof -
  from assms(2) have f: "List.find (\<lambda>r. f_id r = fid \<and> f_user_id r = uid) rows = Some f"
    by (simp add: get_folder_by_id_and_user_id_def first_valid_find)
  note row = find_folder_row [OF f]
  let ?f = "f\<lparr>f_name := None, f_updated_at := now\<rparr>"
  have none: "List.find (\<lambda>x. f_name x = None \<and> f_parent_id x = f_parent_id f \<and> f_user_id x = uid) rows = None"
    using assms(3) by (auto simp: find_None_iff all_valid_def folder_valid_def)
  have "update_folder_by_id_and_user_id now fid uid \<lparr>fu_name = Some None, fu_data = None, fu_meta = None\<rparr> rows =
      (put_folder ?f rows, None)"
    by (simp add: update_folder_by_id_and_user_id_def f none merge_field_def answer_row_def folder_valid_def)
  moreover have found: "List.find (\<lambda>r. f_id r = fid \<and> f_user_id r = uid) (put_folder ?f rows) = Some ?f"
    by (rule find_put_folder [OF f _ _ assms(1)]) (simp_all add: row)
  then have "get_folder_by_id_and_user_id fid uid (put_folder ?f rows) = None"
    by (simp add: get_folder_by_id_and_user_id_def first_valid_def folder_valid_def)
  moreover have "\<not> all_valid (put_folder ?f rows) uid"
    using find_folder_row(1,3) [OF found] unfolding all_valid_def folder_valid_def by force
  then have "get_folders_by_user_id uid (put_folder ?f rows) = Inl (ValueError ''validation'')"
    unfolding get_folders_by_user_id_def validation_error_def [symmetric]
    by (intro validate_all_error) (auto simp: all_valid_def)
  ultimately show ?thesis by blast
qed

theorem null_name_loses_folder_witness:
  "\<exists>rows'. update_folder_by_id_and_user_id 9 ''a'' ''ann'' \<lparr>fu_name = Some None, fu_data = None, fu_meta = None\<rparr> sample_folders =
      (rows', None) \<and> get_folder_by_id_and_user_id ''a'' ''ann'' rows' = None \<and>
    get_folders_by_user_id ''ann'' rows' = Inl (ValueError ''validation'')"
proof (rule null_name_loses_folder [OF sample_folders_ok(1) _ sample_folders_ok(2)])
  show "get_folder_by_id_and_user_id ''a'' ''ann'' sample_folders = Some (sample_folder ''a'' None)"
    unfolding get_folder_by_id_and_user_id_def first_valid_find sample_find
    by (simp add: folder_valid_def sample_folder_def)
qed

text \<open>The permission listed for a shared folder is write exactly when a grant gives the user write
  on it, and a folder is listed exactly when some grant of the user names it.\<close>

theorem shared_folder_permission_highest:
  "(od_get (get_shared_folder_ids_for_user grants uid gids) f = Some ''write'') =
      has_grant grants uid gids ''folder'' f ''write'' \<and>
    (od_get (get_shared_folder_ids_for_user grants uid gids) f = None) =
      (\<not> (\<exists>p. has_grant grants uid gids ''folder'' f p))"
  unfolding get_shared_folder_ids_for_user_def fold_perms_is_write fold_perms_is_None
  by (simp add: has_grant_def at_resource_def Bex_def) blast

end
