(* ===== verification/Json.thy ===== *)
theory Json
  imports Py_Value
begin

text \<open>
  The part of Python's \<^verbatim>\<open>json\<close> module that the program uses: \<^verbatim>\<open>dumps\<close> with and without
  \<^verbatim>\<open>ensure_ascii\<close> and the default separators, and \<^verbatim>\<open>loads\<close>. The text of a float and the
  float that a text denotes are arguments (\<open>frepr\<close>, \<open>fread\<close>). Strings are those of the
  model, so an escape of a code point above 255 and the constants for infinities and NaN are
  refused. The parser is given fuel; \<open>json_loads\<close> gives it more than any input needs.
\<close>

section \<open>Writing\<close>

definition hex_char :: "nat \<Rightarrow> char" where
  "hex_char n = (if n < 10 then char_of (48 + n) else char_of (87 + n))"

definition json_u_escape :: "char \<Rightarrow> string" where
  "json_u_escape c = (let n = (of_char c :: nat) in
     [CHR 0x5C, CHR ''u'', CHR ''0'', CHR ''0'', hex_char (n div 16), hex_char (n mod 16)])"

definition json_escape_char :: "bool \<Rightarrow> char \<Rightarrow> string" where
  "json_escape_char ascii c =
     (if c = CHR 0x22 then [CHR 0x5C, CHR 0x22]
      else if c = CHR 0x5C then [CHR 0x5C, CHR 0x5C]
      else if c = CHR 0x0A then [CHR 0x5C, CHR ''n'']
      else if c = CHR 0x0D then [CHR 0x5C, CHR ''r'']
      else if c = CHR 0x09 then [CHR 0x5C, CHR ''t'']
      else if c = CHR 0x0C then [CHR 0x5C, CHR ''f'']
      else if c = CHR 0x08 then [CHR 0x5C, CHR ''b'']
      else if (of_char c :: nat) < 32 \<or> (ascii \<and> 126 < (of_char c :: nat)) then json_u_escape c
      else [c])"

definition json_chars :: "bool \<Rightarrow> string \<Rightarrow> string" where
  "json_chars ascii s = concat (map (json_escape_char ascii) s)"

definition json_string :: "bool \<Rightarrow> string \<Rightarrow> string" where
  "json_string ascii s = CHR 0x22 # json_chars ascii s @ [CHR 0x22]"

fun json_dumps :: "bool \<Rightarrow> (rat \<Rightarrow> string) \<Rightarrow> pv \<Rightarrow> string"
  and json_elems :: "bool \<Rightarrow> (rat \<Rightarrow> string) \<Rightarrow> pv list \<Rightarrow> string"
  and json_members :: "bool \<Rightarrow> (rat \<Rightarrow> string) \<Rightarrow> (string \<times> pv) list \<Rightarrow> string" where
  "json_dumps a f PNone = ''null''"
| "json_dumps a f (PBool b) = (if b then ''true'' else ''false'')"
| "json_dumps a f (PInt i) = py_str_int i"
| "json_dumps a f (PFlt x) = f x"
| "json_dumps a f (PStr s) = json_string a s"
| "json_dumps a f (PList xs) = CHR ''['' # json_elems a f xs @ '']''"
| "json_dumps a f (PDict d) = CHR ''{'' # json_members a f d @ ''}''"
| "json_elems a f [] = []"
| "json_elems a f (x # xs) = json_dumps a f x @ (if xs = [] then [] else '', '' @ json_elems a f xs)"
| "json_members a f [] = []"
| "json_members a f ((k, v) # d) =
     json_string a k @ '': '' @ json_dumps a f v @ (if d = [] then [] else '', '' @ json_members a f d)"

text \<open>\<^verbatim>\<open>json.dumps\<close> with the separators \<^verbatim>\<open>,\<close> and \<^verbatim>\<open>:\<close>\<close>

fun compact_dumps :: "bool \<Rightarrow> (rat \<Rightarrow> string) \<Rightarrow> pv \<Rightarrow> string"
  and compact_elems :: "bool \<Rightarrow> (rat \<Rightarrow> string) \<Rightarrow> pv list \<Rightarrow> string"
  and compact_members :: "bool \<Rightarrow> (rat \<Rightarrow> string) \<Rightarrow> (string \<times> pv) list \<Rightarrow> string" where
  "compact_dumps a f (PList xs) = CHR ''['' # compact_elems a f xs @ '']''"
| "compact_dumps a f (PDict d) = CHR ''{'' # compact_members a f d @ ''}''"
| "compact_dumps a f v = json_dumps a f v"
| "compact_elems a f [] = []"
| "compact_elems a f (x # xs) = compact_dumps a f x @ (if xs = [] then [] else '','' @ compact_elems a f xs)"
| "compact_members a f [] = []"
| "compact_members a f ((k, v) # d) =
     json_string a k @ '':'' @ compact_dumps a f v @ (if d = [] then [] else '','' @ compact_members a f d)"

text \<open>The number of bytes of a string in UTF-8\<close>

definition utf8_len :: "string \<Rightarrow> nat" where
  "utf8_len s = sum_list (map (\<lambda>c. if (of_char c :: nat) < 128 then 1 else 2) s)"

section \<open>Reading\<close>

definition json_ws :: "char \<Rightarrow> bool" where
  "json_ws c = (c = CHR '' '' \<or> c = CHR 0x09 \<or> c = CHR 0x0A \<or> c = CHR 0x0D)"

definition json_skip :: "string \<Rightarrow> string" where
  "json_skip s = dropWhile json_ws s"

definition hex_val :: "char \<Rightarrow> nat option" where
  "hex_val c = (let n = (of_char c :: nat) in
     if 48 \<le> n \<and> n \<le> 57 then Some (n - 48)
     else if 97 \<le> n \<and> n \<le> 102 then Some (n - 87)
     else if 65 \<le> n \<and> n \<le> 70 then Some (n - 55) else None)"

definition json_u_char :: "char \<Rightarrow> char \<Rightarrow> char \<Rightarrow> char \<Rightarrow> char option" where
  "json_u_char a b c d = (case (hex_val a, hex_val b, hex_val c, hex_val d) of
      (Some w, Some x, Some y, Some z) \<Rightarrow> (if w = 0 \<and> x = 0 then Some (char_of (16 * y + z)) else None)
    | _ \<Rightarrow> None)"

definition json_unescape :: "char \<Rightarrow> char option" where
  "json_unescape c =
     (if c = CHR 0x22 then Some (CHR 0x22) else if c = CHR 0x5C then Some (CHR 0x5C)
      else if c = CHR ''/'' then Some (CHR ''/'') else if c = CHR ''b'' then Some (CHR 0x08)
      else if c = CHR ''f'' then Some (CHR 0x0C) else if c = CHR ''n'' then Some (CHR 0x0A)
      else if c = CHR ''r'' then Some (CHR 0x0D) else if c = CHR ''t'' then Some (CHR 0x09) else None)"

definition push_char :: "char option \<Rightarrow> (string \<times> string) option \<Rightarrow> (string \<times> string) option" where
  "push_char c r = (case (c, r) of (Some x, Some (s, rest)) \<Rightarrow> Some (x # s, rest) | _ \<Rightarrow> None)"

fun p_str :: "string \<Rightarrow> (string \<times> string) option" where
  "p_str [] = None"
| "p_str (c # r) =
     (if c = CHR 0x22 then Some ([], r)
      else if c = CHR 0x5C then
        (case r of
           [] \<Rightarrow> None
         | e # r1 \<Rightarrow>
            (if e = CHR ''u'' then
               (case r1 of w # x # y # z # r2 \<Rightarrow> push_char (json_u_char w x y z) (p_str r2) | _ \<Rightarrow> None)
             else push_char (json_unescape e) (p_str r1)))
      else if (of_char c :: nat) < 32 then None
      else push_char (Some c) (p_str r))"

definition digits_val :: "string \<Rightarrow> nat" where
  "digits_val ds = foldl (\<lambda>n c. 10 * n + (of_char c - 48)) 0 ds"

text \<open>The integer part of a number, which has no leading zero\<close>

definition p_int :: "string \<Rightarrow> (string \<times> string) option" where
  "p_int s = (case s of
      [] \<Rightarrow> None
    | c # r \<Rightarrow> (if c = CHR ''0'' then Some ([c], r)
               else if is_digit_char c then Some (takeWhile is_digit_char s, dropWhile is_digit_char s) else None))"

definition p_frac :: "string \<Rightarrow> string \<times> string" where
  "p_frac s = (case s of
      c # d # r \<Rightarrow> (if c = CHR ''.'' \<and> is_digit_char d
                  then (c # takeWhile is_digit_char (d # r), dropWhile is_digit_char (d # r)) else ([], s))
    | _ \<Rightarrow> ([], s))"

definition p_exp :: "string \<Rightarrow> string \<times> string" where
  "p_exp s = (case s of
      [] \<Rightarrow> ([], s)
    | e # r \<Rightarrow>
       (let (sg, r1) = (case r of [] \<Rightarrow> ([], r)
                        | c # q \<Rightarrow> if c = CHR ''+'' \<or> c = CHR ''-'' then ([c], q) else ([], r))
        in if (e = CHR ''e'' \<or> e = CHR ''E'') \<and> takeWhile is_digit_char r1 \<noteq> []
           then (e # sg @ takeWhile is_digit_char r1, dropWhile is_digit_char r1) else ([], s)))"

definition p_number :: "(string \<Rightarrow> rat) \<Rightarrow> string \<Rightarrow> (pv \<times> string) option" where
  "p_number fread s =
     (let (neg, r) = (case s of [] \<Rightarrow> (False, s) | c # q \<Rightarrow> if c = CHR ''-'' then (True, q) else (False, s))
      in case p_int r of
           None \<Rightarrow> None
         | Some (i, r1) \<Rightarrow>
            (let (fr, r2) = p_frac r1; (ex, r3) = p_exp r2
             in if fr = [] \<and> ex = []
                then Some (PInt (if neg then - int (digits_val i) else int (digits_val i)), r3)
                else Some (PFlt (fread ((if neg then ''-'' else []) @ i @ fr @ ex)), r3)))"

definition p_word :: "string \<Rightarrow> pv \<Rightarrow> string \<Rightarrow> (pv \<times> string) option" where
  "p_word w v s = (if py_startswith s w then Some (v, drop (length w) s) else None)"

definition next_is :: "char \<Rightarrow> string \<Rightarrow> bool" where
  "next_is c s = (case s of [] \<Rightarrow> False | x # r \<Rightarrow> x = c)"

fun p_value :: "(string \<Rightarrow> rat) \<Rightarrow> nat \<Rightarrow> string \<Rightarrow> (pv \<times> string) option"
  and p_elems :: "(string \<Rightarrow> rat) \<Rightarrow> nat \<Rightarrow> pv list \<Rightarrow> string \<Rightarrow> (pv \<times> string) option"
  and p_members :: "(string \<Rightarrow> rat) \<Rightarrow> nat \<Rightarrow> pdict \<Rightarrow> string \<Rightarrow> (pv \<times> string) option" where
  "p_value f 0 s = None"
| "p_value f (Suc n) s =
     (case s of
        [] \<Rightarrow> None
      | c # r \<Rightarrow>
         (if c = CHR 0x22 then map_option (apfst PStr) (p_str r)
          else if c = CHR ''{'' then
            (if next_is CHR ''}'' (json_skip r) then Some (PDict [], tl (json_skip r))
             else p_members f n [] (json_skip r))
          else if c = CHR ''['' then
            (if next_is CHR '']'' (json_skip r) then Some (PList [], tl (json_skip r))
             else p_elems f n [] (json_skip r))
          else if c = CHR ''n'' then p_word ''null'' PNone s
          else if c = CHR ''t'' then p_word ''true'' (PBool True) s
          else if c = CHR ''f'' then p_word ''false'' (PBool False) s
          else p_number f s))"
| "p_elems f 0 acc s = None"
| "p_elems f (Suc n) acc s =
     (case p_value f n s of
        None \<Rightarrow> None
      | Some (v, r) \<Rightarrow>
         (case json_skip r of
            [] \<Rightarrow> None
          | c # q \<Rightarrow> (if c = CHR '']'' then Some (PList (acc @ [v]), q)
                     else if c = CHR '','' then p_elems f n (acc @ [v]) (json_skip q) else None)))"
| "p_members f 0 acc s = None"
| "p_members f (Suc n) acc s =
     (case s of
        [] \<Rightarrow> None
      | c # r \<Rightarrow>
         (if c \<noteq> CHR 0x22 then None
          else (case p_str r of
              None \<Rightarrow> None
            | Some (k, r1) \<Rightarrow>
               (case json_skip r1 of
                  [] \<Rightarrow> None
                | e # r2 \<Rightarrow>
                   (if e \<noteq> CHR '':'' then None
                    else (case p_value f n (json_skip r2) of
                        None \<Rightarrow> None
                      | Some (v, r3) \<Rightarrow>
                         (case json_skip r3 of
                            [] \<Rightarrow> None
                          | g # q \<Rightarrow>
                             (if g = CHR ''}'' then Some (PDict (od_set k v acc), q)
                              else if g = CHR '','' then p_members f n (od_set k v acc) (json_skip q)
                              else None))))))))"

definition json_loads :: "(string \<Rightarrow> rat) \<Rightarrow> string \<Rightarrow> pv res" where
  "json_loads fread s =
     (case p_value fread (2 * length s + 2) (json_skip s) of
        None \<Rightarrow> Inl JSONDecodeError
      | Some (v, r) \<Rightarrow> (if json_skip r = [] then Inr v else Inl JSONDecodeError))"

section \<open>Reading back what was written\<close>

lemma less_16_cases: "n < 16 \<Longrightarrow> P 0 \<Longrightarrow> P 1 \<Longrightarrow> P 2 \<Longrightarrow> P 3 \<Longrightarrow> P 4 \<Longrightarrow> P 5 \<Longrightarrow> P 6 \<Longrightarrow> P 7 \<Longrightarrow>
   P 8 \<Longrightarrow> P 9 \<Longrightarrow> P 10 \<Longrightarrow> P 11 \<Longrightarrow> P 12 \<Longrightarrow> P 13 \<Longrightarrow> P 14 \<Longrightarrow> P (15::nat) \<Longrightarrow> P n"
  by (auto simp: less_Suc_eq numeral_eq_Suc)

lemma hex_val_char [simp]: "n < 16 \<Longrightarrow> hex_val (hex_char n) = Some n"
  by (erule less_16_cases) (simp_all add: hex_val_def hex_char_def)

lemma code_less_256: "(of_char c :: nat) < 256"
  using nat_of_char_less_256 by blast

lemma hex_val_0 [simp]: "hex_val CHR ''0'' = Some 0"
  by (simp add: hex_val_def)

lemma json_u_char_escape:
  "json_u_char CHR ''0'' CHR ''0'' (hex_char ((of_char c :: nat) div 16)) (hex_char ((of_char c :: nat) mod 16)) = Some c"
proof -
  have "(of_char c :: nat) div 16 < 16" using code_less_256 [of c] by (intro less_mult_imp_div_less) simp
  moreover have "16 * ((of_char c :: nat) div 16) + of_char c mod 16 = of_char c" by simp
  ultimately show ?thesis by (simp add: json_u_char_def)
qed

definition short_escape :: "char \<Rightarrow> bool" where
  "short_escape c = (c \<in> {CHR 0x22, CHR 0x5C, CHR 0x0A, CHR 0x0D, CHR 0x09, CHR 0x0C, CHR 0x08})"

lemma p_str_escape: "p_str (json_escape_char a c @ r) = push_char (Some c) (p_str r)"
proof (cases "short_escape c")
  case True
  then show ?thesis
    unfolding short_escape_def insert_iff empty_iff
    by (elim disjE FalseE) (simp_all add: json_escape_char_def json_unescape_def)
next
  case False
  show ?thesis
  proof (cases "(of_char c :: nat) < 32 \<or> (a \<and> 126 < (of_char c :: nat))")
    case True
    with False have "json_escape_char a c = json_u_escape c"
      by (simp add: json_escape_char_def short_escape_def)
    then show ?thesis by (simp add: json_u_escape_def Let_def json_u_char_escape)
  next
    case wide: False
    with False show ?thesis by (auto simp: json_escape_char_def short_escape_def)
  qed
qed

lemma p_str_chars: "p_str (json_chars a s @ CHR 0x22 # r) = Some (s, r)"
  by (induction s) (simp_all add: json_chars_def p_str_escape push_char_def)

lemma digit_char_of: "n < 10 \<Longrightarrow> is_digit_char (char_of (48 + n)) \<and> (of_char (char_of (48 + n) :: char) :: nat) = 48 + n"
  by (simp add: is_digit_char_def)

lemma nat_digits_digits: "\<forall>c\<in>set (nat_digits n). is_digit_char c"
proof (induction n rule: nat_digits.induct)
  case (1 n)
  then show ?case using digit_char_of [of n] digit_char_of [of "n mod 10"]
    by (subst nat_digits.simps) auto
qed

lemma digits_val_snoc: "digits_val (ds @ [c]) = 10 * digits_val ds + (of_char c - 48)"
  by (simp add: digits_val_def)

lemma digits_val_nat_digits [simp]: "digits_val (nat_digits n) = n"
proof (induction n rule: nat_digits.induct)
  case (1 n)
  show ?case
  proof (cases "n < 10")
    case True
    then show ?thesis by (subst nat_digits.simps) (simp add: digits_val_def)
  next
    case False
    with 1 have "digits_val (nat_digits (n div 10)) = n div 10" by simp
    with False show ?thesis by (subst nat_digits.simps) (simp add: digits_val_snoc)
  qed
qed

lemma nat_digits_first:
  "\<exists>c r. nat_digits n = c # r \<and> is_digit_char c \<and> (c = CHR ''0'' \<longrightarrow> r = [])"
proof (induction n rule: nat_digits.induct)
  case (1 n)
  show ?case
  proof (cases "n < 10")
    case True
    then show ?thesis using digit_char_of [of n] by (subst nat_digits.simps) simp
  next
    case False
    with 1 obtain c r where c: "nat_digits (n div 10) = c # r" "is_digit_char c" "c = CHR ''0'' \<longrightarrow> r = []" by auto
    have "c \<noteq> CHR ''0''"
    proof
      assume "c = CHR ''0''"
      with c have "n div 10 = digits_val [CHR ''0'']" by (metis digits_val_nat_digits)
      with False show False by (simp add: digits_val_def)
    qed
    with c False show ?thesis by (subst nat_digits.simps) simp
  qed
qed

definition num_end :: "string \<Rightarrow> bool" where
  "num_end r = (case r of [] \<Rightarrow> True
     | c # q \<Rightarrow> \<not> is_digit_char c \<and> c \<noteq> CHR ''.'' \<and> c \<noteq> CHR ''e'' \<and> c \<noteq> CHR ''E'')"

lemma p_int_digits:
  assumes "num_end r"
  shows "p_int (nat_digits n @ r) = Some (nat_digits n, r)"
proof -
  obtain c q where c: "nat_digits n = c # q" "is_digit_char c" "c = CHR ''0'' \<longrightarrow> q = []"
    using nat_digits_first by blast
  have "takeWhile is_digit_char r = []" "dropWhile is_digit_char r = r"
    using assms by (auto simp: num_end_def split: list.splits)
  moreover have "\<forall>x\<in>set q. is_digit_char x" using nat_digits_digits [of n] c(1) by simp
  ultimately have "takeWhile is_digit_char (q @ r) = q" "dropWhile is_digit_char (q @ r) = r"
    by (simp_all add: takeWhile_append2 dropWhile_append2)
  with c show ?thesis by (auto simp: p_int_def)
qed

lemma num_end_frac_exp: "num_end r \<Longrightarrow> p_frac r = ([], r) \<and> p_exp r = ([], r)"
  by (auto simp: num_end_def p_frac_def p_exp_def split: list.splits)

lemma p_number_int: "num_end r \<Longrightarrow> p_number f (py_str_int i @ r) = Some (PInt i, r)"
proof -
  assume r: "num_end r"
  obtain c q where c: "nat_digits (nat i) = c # q" "is_digit_char c" using nat_digits_first by blast
  then have "c \<noteq> CHR ''-''" by (auto simp: is_digit_char_def)
  moreover have "p_int (c # q @ r) = Some (c # q, r)" using p_int_digits [OF r, of "nat i"] c(1) by simp
  moreover have "digits_val (c # q) = nat i" by (metis c(1) digits_val_nat_digits)
  ultimately show ?thesis
    using num_end_frac_exp [OF r] p_int_digits [OF r, of "nat (- i)"]
    by (simp add: p_number_def py_str_int_def c(1))
qed

text \<open>Values without floats, whose dictionaries do not repeat a key\<close>

fun json_plain :: "pv \<Rightarrow> bool"
  and plain_list :: "pv list \<Rightarrow> bool"
  and plain_dict :: "(string \<times> pv) list \<Rightarrow> bool" where
  "json_plain PNone = True"
| "json_plain (PBool b) = True"
| "json_plain (PInt i) = True"
| "json_plain (PFlt x) = False"
| "json_plain (PStr s) = True"
| "json_plain (PList xs) = plain_list xs"
| "json_plain (PDict d) = (od_ok d \<and> plain_dict d)"
| "plain_list [] = True"
| "plain_list (x # xs) = (json_plain x \<and> plain_list xs)"
| "plain_dict [] = True"
| "plain_dict ((k, v) # d) = (json_plain v \<and> plain_dict d)"

fun json_need :: "pv \<Rightarrow> nat"
  and need_list :: "pv list \<Rightarrow> nat"
  and need_dict :: "(string \<times> pv) list \<Rightarrow> nat" where
  "json_need (PList xs) = Suc (need_list xs)"
| "json_need (PDict d) = Suc (need_dict d)"
| "json_need v = 1"
| "need_list [] = 0"
| "need_list (x # xs) = Suc (json_need x + need_list xs)"
| "need_dict [] = 0"
| "need_dict ((k, v) # d) = Suc (json_need v + need_dict d)"

lemma py_str_int_first:
  "\<exists>c t. py_str_int i = c # t \<and> (is_digit_char c \<or> c = CHR ''-'')"
proof (cases "i < 0")
  case True
  then show ?thesis by (simp add: py_str_int_def)
next
  case False
  with nat_digits_first [of "nat i"] show ?thesis by (auto simp: py_str_int_def)
qed

definition starts_value :: "char \<Rightarrow> bool" where
  "starts_value c = (\<not> json_ws c \<and> c \<noteq> CHR '']'' \<and> c \<noteq> CHR ''}'')"

lemma digit_starts: "is_digit_char c \<Longrightarrow> starts_value c"
  by (auto simp: is_digit_char_def starts_value_def json_ws_def)

text \<open>Both ways of writing, with \<open>sp\<close> after every separator\<close>

fun json_write :: "string \<Rightarrow> bool \<Rightarrow> (rat \<Rightarrow> string) \<Rightarrow> pv \<Rightarrow> string"
  and write_elems :: "string \<Rightarrow> bool \<Rightarrow> (rat \<Rightarrow> string) \<Rightarrow> pv list \<Rightarrow> string"
  and write_members :: "string \<Rightarrow> bool \<Rightarrow> (rat \<Rightarrow> string) \<Rightarrow> (string \<times> pv) list \<Rightarrow> string" where
  "json_write sp a f PNone = ''null''"
| "json_write sp a f (PBool b) = (if b then ''true'' else ''false'')"
| "json_write sp a f (PInt i) = py_str_int i"
| "json_write sp a f (PFlt x) = f x"
| "json_write sp a f (PStr s) = json_string a s"
| "json_write sp a f (PList xs) = CHR ''['' # write_elems sp a f xs @ '']''"
| "json_write sp a f (PDict d) = CHR ''{'' # write_members sp a f d @ ''}''"
| "write_elems sp a f [] = []"
| "write_elems sp a f (x # xs) =
     json_write sp a f x @ (if xs = [] then [] else CHR '','' # sp @ write_elems sp a f xs)"
| "write_members sp a f [] = []"
| "write_members sp a f ((k, v) # d) =
     json_string a k @ CHR '':'' # sp @ json_write sp a f v @
       (if d = [] then [] else CHR '','' # sp @ write_members sp a f d)"

lemma dumps_write:
  "json_dumps a f v = json_write '' '' a f v" "json_elems a f xs = write_elems '' '' a f xs"
  "json_members a f d = write_members '' '' a f d"
  by (induction a f v and a f xs and a f d rule: json_dumps_json_elems_json_members.induct) simp_all

lemma compact_write:
  "compact_dumps a f v = json_write [] a f v" "compact_elems a f xs = write_elems [] a f xs"
  "compact_members a f d = write_members [] a f d"
  by (induction a f v and a f xs and a f d rule: compact_dumps_compact_elems_compact_members.induct) simp_all

definition blank :: "string \<Rightarrow> bool" where
  "blank sp = (\<forall>c\<in>set sp. json_ws c)"

lemma skip_blank [simp]: "blank sp \<Longrightarrow> json_skip (sp @ r) = json_skip r"
  by (induction sp) (auto simp: blank_def json_skip_def)

lemma dumps_first:
  assumes "json_plain v"
  shows "\<exists>c t. json_write sp a f v = c # t \<and> starts_value c"
proof -
  have fixed: "starts_value CHR ''-''" "starts_value CHR ''n''" "starts_value CHR ''t''" "starts_value CHR ''f''"
    "starts_value CHR 0x22" "starts_value CHR ''[''" "starts_value CHR ''{''"
    by (simp_all add: starts_value_def json_ws_def)
  show ?thesis
  proof (cases v)
    case (PInt i)
    obtain c t where "py_str_int i = c # t" "is_digit_char c \<or> c = CHR ''-''" using py_str_int_first by blast
    with PInt fixed(1) show ?thesis by (auto intro: digit_starts)
  qed (use assms fixed in \<open>auto simp: json_string_def\<close>)
qed

lemma skip_value [simp]: "json_plain v \<Longrightarrow> json_skip (json_write sp a f v @ r) = json_write sp a f v @ r"
  using dumps_first [of v sp a f] by (auto simp: json_skip_def starts_value_def)

lemma next_value [simp]:
  "json_plain v \<Longrightarrow> \<not> next_is CHR '']'' (json_write sp a f v @ r)"
  using dumps_first [of v sp a f] by (auto simp: next_is_def starts_value_def)

lemma skip_simps [simp]:
  "json_skip (CHR '','' # r) = CHR '','' # r" "json_skip (CHR '']'' # r) = CHR '']'' # r"
  "json_skip (CHR ''}'' # r) = CHR ''}'' # r" "json_skip (CHR '':'' # r) = CHR '':'' # r"
  "json_skip (CHR 0x22 # r) = CHR 0x22 # r" "json_skip (CHR '' '' # r) = json_skip r" "json_skip [] = []"
  by (simp_all add: json_skip_def json_ws_def)

lemma num_end_simps [simp]:
  "num_end []" "num_end (CHR '','' # r)" "num_end (CHR '']'' # r)" "num_end (CHR ''}'' # r)"
  by (simp_all add: num_end_def is_digit_char_def)

lemma od_set_append: "od_get acc k = None \<Longrightarrow> od_set k v acc = acc @ [(k, v)]"
  by (induction acc) (auto split: if_splits)

lemma json_roundtrip:
  "blank sp \<Longrightarrow> json_plain v \<Longrightarrow> json_need v \<le> n \<Longrightarrow> num_end r \<Longrightarrow> p_value g n (json_write sp a f v @ r) = Some (v, r)"
  "blank sp \<Longrightarrow> plain_list xs \<Longrightarrow> need_list xs \<le> n \<Longrightarrow> xs \<noteq> [] \<Longrightarrow>
     p_elems g n acc (write_elems sp a f xs @ CHR '']'' # r) = Some (PList (acc @ xs), r)"
  "blank sp \<Longrightarrow> plain_dict d \<Longrightarrow> need_dict d \<le> n \<Longrightarrow> d \<noteq> [] \<Longrightarrow> od_ok (acd @ d) \<Longrightarrow>
     p_members g n acd (write_members sp a f d @ CHR ''}'' # r) = Some (PDict (acd @ d), r)"
proof (induction v and xs and d arbitrary: n r and n r acc and n r acd
    rule: json_plain_plain_list_plain_dict.induct)
  case 1
  then show ?case by (cases n) (simp_all add: p_word_def py_startswith_def)
next
  case (2 b)
  then show ?case by (cases n) (simp_all add: p_word_def py_startswith_def)
next
  case (3 i)
  obtain c t where c: "py_str_int i = c # t" "is_digit_char c \<or> c = CHR ''-''" using py_str_int_first by blast
  then have "c \<notin> {CHR 0x22, CHR ''{'', CHR ''['', CHR ''n'', CHR ''t'', CHR ''f''}"
    by (auto simp: is_digit_char_def)
  moreover have "p_number g (c # t @ r) = Some (PInt i, r)"
    using p_number_int [OF \<open>num_end r\<close>, of g i] c(1) by simp
  ultimately show ?case using 3 by (cases n) (simp_all add: c(1))
next
  case (4 x)
  then show ?case by simp
next
  case (5 s)
  then show ?case by (cases n) (simp_all add: json_string_def p_str_chars)
next
  case (6 xs)
  then obtain m where m: "n = Suc m" "need_list xs \<le> m" by (cases n) auto
  show ?case
  proof (cases xs)
    case Nil
    then show ?thesis by (simp add: m(1) next_is_def)
  next
    case (Cons x ys)
    with 6 have "json_plain x" by simp
    then have "json_skip (write_elems sp a f xs @ CHR '']'' # r) = write_elems sp a f xs @ CHR '']'' # r"
      "\<not> next_is CHR '']'' (write_elems sp a f xs @ CHR '']'' # r)"
      by (simp_all add: Cons)
    moreover have "p_elems g m [] (write_elems sp a f xs @ CHR '']'' # r) = Some (PList xs, r)"
      using "6.IH" [of m "[]" r] 6 m Cons by simp
    ultimately show ?thesis by (simp add: m(1))
  qed
next
  case (7 d)
  then obtain m where m: "n = Suc m" "need_dict d \<le> m" by (cases n) auto
  show ?case
  proof (cases d)
    case Nil
    then show ?thesis by (simp add: m(1) next_is_def)
  next
    case (Cons kv ys)
    then have "json_skip (write_members sp a f d @ CHR ''}'' # r) = write_members sp a f d @ CHR ''}'' # r"
      "\<not> next_is CHR ''}'' (write_members sp a f d @ CHR ''}'' # r)"
      by (cases kv, simp add: json_string_def next_is_def)+
    moreover have "p_members g m [] (write_members sp a f d @ CHR ''}'' # r) = Some (PDict d, r)"
      using "7.IH" [of m "[]" r] 7 m Cons by simp
    ultimately show ?thesis by (simp add: m(1))
  qed
next
  case 8
  then show ?case by simp
next
  case (9 x xs)
  then obtain m where m: "n = Suc m" "json_need x \<le> m" "need_list xs \<le> m" by (cases n) auto
  show ?case
  proof (cases "xs = []")
    case True
    with 9 m show ?thesis by simp
  next
    case False
    then obtain y ys where ys: "xs = y # ys" by (cases xs) auto
    with 9 have "json_skip (write_elems sp a f xs @ CHR '']'' # r) = write_elems sp a f xs @ CHR '']'' # r" by simp
    moreover have "p_elems g m (acc @ [x]) (write_elems sp a f xs @ CHR '']'' # r) = Some (PList ((acc @ [x]) @ xs), r)"
      using 9 m False by simp
    ultimately show ?thesis using 9 m False by simp
  qed
next
  case 10
  then show ?case by simp
next
  case (11 k v d)
  then obtain m where m: "n = Suc m" "json_need v \<le> m" "need_dict d \<le> m" by (cases n) auto
  have fresh: "od_set k v acd = acd @ [(k, v)]"
    using "11.prems"(5) by (intro od_set_append) (auto simp: od_ok_def map_of_eq_None_iff)
  show ?case
  proof (cases "d = []")
    case True
    with 11 m fresh show ?thesis by (simp add: json_string_def p_str_chars)
  next
    case False
    then have "json_skip (write_members sp a f d @ CHR ''}'' # r) = write_members sp a f d @ CHR ''}'' # r"
      by (cases d) (auto simp: json_string_def)
    moreover have "p_members g m (acd @ [(k, v)]) (write_members sp a f d @ CHR ''}'' # r) =
        Some (PDict ((acd @ [(k, v)]) @ d), r)"
      using 11 m False by simp
    ultimately show ?thesis using 11 m False fresh by (simp add: json_string_def p_str_chars)
  qed
qed

lemma dumps_length:
  "json_plain v \<Longrightarrow> json_need v \<le> 2 * length (json_write sp a f v)"
  "plain_list xs \<Longrightarrow> need_list xs \<le> 2 * length (write_elems sp a f xs) + 1"
  "plain_dict d \<Longrightarrow> need_dict d \<le> 2 * length (write_members sp a f d) + 1"
proof (induction v and xs and d rule: json_plain_plain_list_plain_dict.induct)
  case (3 i)
  then show ?case using py_str_int_first [of i] by auto
qed (auto simp: json_string_def)

lemma json_loads_write: "blank sp \<Longrightarrow> json_plain v \<Longrightarrow> json_loads g (json_write sp a f v) = Inr v"
  using json_roundtrip(1) [of sp v _ "[]" g a f] dumps_length(1) [of v sp a f] skip_value [of v sp a f "[]"]
  by (simp add: json_loads_def del: p_value.simps)

lemma json_loads_dumps: "json_plain v \<Longrightarrow> json_loads g (json_dumps a f v) = Inr v"
  unfolding dumps_write by (rule json_loads_write) (simp_all add: blank_def json_ws_def)

lemma json_loads_compact: "json_plain v \<Longrightarrow> json_loads g (compact_dumps a f v) = Inr v"
  unfolding compact_write by (rule json_loads_write) (simp_all add: blank_def)

section \<open>Reading always consumes\<close>

lemma json_skip_length: "length (json_skip s) \<le> length s"
  by (simp add: json_skip_def length_dropWhile_le)

lemma push_rest: "push_char a b = Some (t, r) \<Longrightarrow> \<exists>u. b = Some (u, r)"
  by (auto simp: push_char_def split: option.splits prod.splits)

lemma p_str_shorter: "p_str s = Some (t, r) \<Longrightarrow> length r < length s"
proof (induction s arbitrary: t r rule: length_induct)
  case (1 s)
  have IH: "p_str q = Some (u, r) \<Longrightarrow> length q < length s \<Longrightarrow> length r < length s" for q u
    using 1(1) less_trans by blast
  show ?case
  proof (cases s)
    case (Cons c q)
    consider "r = q" | q' a where "length q' \<le> length q" "push_char a (p_str q') = Some (t, r)"
      using 1(2) unfolding Cons by (auto split: if_splits list.splits) (rule that(2) [rotated], assumption, simp)+
    then show ?thesis
      using IH push_rest Cons by cases (auto, fastforce)
  qed (use 1(2) in simp)
qed

lemma p_int_shorter: "p_int s = Some (t, r) \<Longrightarrow> length r < length s"
  by (auto simp: p_int_def le_imp_less_Suc length_dropWhile_le split: list.splits if_splits)

lemma p_tail_shorter: "p_frac s = (t, r) \<Longrightarrow> length r \<le> length s" "p_exp s = (t, r) \<Longrightarrow> length r \<le> length s"
proof -
  have d: "length (dropWhile is_digit_char s) \<le> length s" for s
    by (rule length_dropWhile_le)
  have "length (snd (p_frac s)) \<le> length s"
    by (auto simp: p_frac_def d le_SucI split: list.split)
  then show "p_frac s = (t, r) \<Longrightarrow> length r \<le> length s"
    by (metis snd_conv)
  have e: "length (snd (p_exp (e # q))) \<le> Suc (length q)" for e q
  proof -
    define sr where "sr = (case q of [] \<Rightarrow> ([], q) | c # q' \<Rightarrow> if c = CHR ''+'' \<or> c = CHR ''-'' then ([c], q') else ([], q))"
    have "length (snd sr) \<le> length q"
      by (auto simp: sr_def split: list.split)
    then show ?thesis
      using d [of "snd sr"] unfolding p_exp_def list.case sr_def [symmetric] Let_def by (cases sr) auto
  qed
  show "p_exp s = (t, r) \<Longrightarrow> length r \<le> length s"
    using e by (cases s) (simp add: p_exp_def, metis length_Cons snd_conv)
qed

lemma p_number_shorter: "p_number f s = Some (v, r) \<Longrightarrow> length r < length s"
proof -
  assume p: "p_number f s = Some (v, r)"
  obtain neg q where q: "(case s of [] \<Rightarrow> (False, s) | c # q \<Rightarrow> if c = CHR ''-'' then (True, q) else (False, s)) = (neg, q)"
    by force
  have "length q \<le> length s"
    using q by (auto split: list.splits if_splits)
  obtain i r1 where i: "p_int q = Some (i, r1)"
    using p unfolding p_number_def q by (auto split: option.splits)
  obtain fr r2 where fr: "p_frac r1 = (fr, r2)"
    by force
  obtain ex r3 where ex: "p_exp r2 = (ex, r3)"
    by force
  have "r = r3"
    using p unfolding p_number_def q by (simp add: i fr ex split: if_splits)
  then show ?thesis
    using p_int_shorter [OF i] p_tail_shorter(1) [OF fr] p_tail_shorter(2) [OF ex] \<open>length q \<le> length s\<close> by simp
qed

lemma p_word_shorter: "p_word w v s = Some (u, r) \<Longrightarrow> w \<noteq> [] \<Longrightarrow> length r < length s"
  by (auto simp: p_word_def py_startswith_iff split: if_splits)

lemma skip_shorter: "length s < n \<Longrightarrow> length (json_skip s) < n"
  using json_skip_length [of s] by simp

lemma p_value_shorter:
  "p_value f n s = Some (v, r) \<Longrightarrow> length r < length s"
  "p_elems f n acc s = Some (v, r) \<Longrightarrow> length r < length s"
  "p_members f n acd s = Some (v, r) \<Longrightarrow> length r < length s"
proof (induction f n s and f n acc s and f n acd s arbitrary: v r and v r and v r rule: p_value_p_elems_p_members.induct)
  case (2 f n s)
  then obtain c q where s: "s = c # q"
    by (cases s) auto
  have tl: "next_is d (json_skip q) \<Longrightarrow> length (tl (json_skip q)) < length s" for d
    using json_skip_length [of q] by (simp add: s)
  consider (str) t where "p_str q = Some (t, r)" | (obj) "r = tl (json_skip q)" "length (tl (json_skip q)) < length s"
    | (members) "c = CHR ''{''" "c \<noteq> CHR 0x22" "\<not> next_is CHR ''}'' (json_skip q)" "p_members f n [] (json_skip q) = Some (v, r)"
    | (elems) "c = CHR ''[''" "c \<noteq> CHR 0x22" "c \<noteq> CHR ''{''" "\<not> next_is CHR '']'' (json_skip q)" "p_elems f n [] (json_skip q) = Some (v, r)"
    | (word) w u where "p_word w u s = Some (v, r)" "w \<noteq> []" | (number) "p_number f s = Some (v, r)"
    using "2.prems" tl unfolding s p_value.simps list.case by (auto split: if_splits simp: apfst_def)
  then show ?case
  proof cases
    case str
    then show ?thesis
      using p_str_shorter s by (simp add: less_SucI)
  next
    case members
    then show ?thesis
      using "2.IH"(1) [OF s] json_skip_length [of q] s by fastforce
  next
    case elems
    then show ?thesis
      using "2.IH"(2) [OF s] json_skip_length [of q] s by fastforce
  qed (use p_word_shorter p_number_shorter in blast)+
next
  case (4 f n acc s)
  then obtain u q where u: "p_value f n s = Some (u, q)"
    by (auto split: option.splits)
  then obtain c t where c: "json_skip q = c # t"
    using "4.prems" by (cases "json_skip q") auto
  have "length t < length s"
    using "4.IH"(1) [OF u] json_skip_length [of q] c by simp
  then show ?case
    using "4.prems" "4.IH"(2) [OF u refl c] skip_shorter [of t "length s"] u c by (auto split: if_splits)
next
  case (6 f n acd s)
  then obtain c q where s: "s = c # q" "c = CHR 0x22"
    by (cases s) (auto split: if_splits)
  then obtain k r1 where k: "p_str q = Some (k, r1)"
    using "6.prems" by (auto split: option.splits)
  then obtain e r2 where e: "json_skip r1 = e # r2" "e = CHR '':''"
    using "6.prems" s by (cases "json_skip r1") (auto split: if_splits)
  then obtain u r3 where u: "p_value f n (json_skip r2) = Some (u, r3)"
    using "6.prems" s k by (auto split: option.splits)
  then obtain g t where g: "json_skip r3 = g # t"
    using "6.prems" s k e by (cases "json_skip r3") auto
  have "length (json_skip r1) < length s"
    using p_str_shorter [OF k] json_skip_length [of r1] s by simp
  then have "length r3 < length s"
    using "6.IH"(1) [OF s(1) _ k refl e(1) _ u] json_skip_length [of r2] e(1) s(2) by (simp add: e(2))
  then have "length t < length s"
    using json_skip_length [of r3] g by simp
  then show ?case
    using "6.prems" "6.IH"(2) [OF s(1) _ k refl e(1) _ u refl g] s k e u g skip_shorter [of t "length s"]
    by (fastforce split: if_splits)
qed simp_all

end
