(* ===== verification/Tool_Executor.thy ===== *)
theory Tool_Executor
  imports Json
begin

text \<open>
  \<^verbatim>\<open>backend/openlaunch/utils/tool_executor.py\<close>: tool annotations, the circuit breaker, the
  executor's quotas and budgets, the admission and the attempts of one call, and a batch of
  calls that run concurrently. A batch is a step relation: every step is the admission of a
  call or the end of one attempt, in any order, since only these are atomic between two
  awaits; what a tool does in an attempt is given by the step. \<^verbatim>\<open>tool_protocol.py\<close> follows.
  Clock readings are integers.
\<close>

section \<open>Annotations\<close>

record tool_env =
  env_default_timeout :: pv
  env_max_calls :: int
  env_bytes_request :: int
  env_bytes_turn :: int
  env_tokens_request :: int
  env_tokens_turn :: int
  env_concurrency :: int

record annotations =
  an_read_only :: bool
  an_destructive :: bool
  an_idempotent :: bool
  an_external :: bool
  an_approval :: bool
  an_timeout :: rat
  an_budget :: int
  an_class :: string
  an_class_limit :: int
  an_retry :: bool
  an_max_retries :: int
  an_quota :: int

definition safe_message :: "string \<Rightarrow> string" where
  "safe_message code =
     (if code = ''cancelled'' then ''Tool execution was cancelled.''
      else if code = ''timeout'' then ''Tool execution timed out.''
      else if code = ''unavailable'' then ''Tool is temporarily unavailable.''
      else if code = ''malformed_arguments'' then ''Tool call arguments were malformed or incomplete.''
      else if code = ''unknown_tool'' then ''The requested tool is unavailable.''
      else if code = ''budget_exceeded'' then ''Tool result budget was exceeded.''
      else if code = ''quota_exceeded'' then ''Tool execution quota was exceeded.''
      else ''Tool execution failed.'')"

definition structured_error :: "string \<Rightarrow> pv \<Rightarrow> pv" where
  "structured_error code name =
     PDict ([(''status'', PStr ''error''), (''code'', PStr code), (''message'', PStr (safe_message code))]
            @ (if truthy name then [(''tool'', name)] else []))"

definition external_type :: "pv \<Rightarrow> bool res" where
  "external_type t = (case t of
      PStr s \<Rightarrow> Inr (s \<in> {''external'', ''mcp'', ''terminal'', ''action''})
    | PList _ \<Rightarrow> Inl TypeError
    | PDict _ \<Rightarrow> Inl TypeError
    | _ \<Rightarrow> Inr False)"

definition normalize_tool_annotations :: "float_ops \<Rightarrow> tool_env \<Rightarrow> pv \<Rightarrow> pv \<Rightarrow> annotations res" where
  "normalize_tool_annotations fo env value tool_type =
     (let source = (case value of PDict d \<Rightarrow> d | _ \<Rightarrow> []) in
      rbind (external_type tool_type) (\<lambda>ext0.
        let external = truthy (od_getd source ''external_network'' (PBool ext0));
            destructive = truthy (od_getd source ''destructive'' (PBool True));
            read_only = truthy (od_getd source ''read_only'' (PBool False));
            idempotent = truthy (od_getd source ''idempotent'' (PBool False))
        in rbind (py_float fo (od_getd source ''timeout_seconds'' (env_default_timeout env))) (\<lambda>timeout.
           rbind (py_int (od_getd source ''output_budget_bytes'' (PInt (64 * 1024)))) (\<lambda>budget.
           rbind (py_int (od_getd source ''concurrency_limit'' (PInt (if external then 2 else 0)))) (\<lambda>limit.
           rbind (py_int (od_getd source ''max_retries'' (PInt 0))) (\<lambda>retries.
           rbind (py_int (od_getd source ''quota_per_request'' (PInt (env_max_calls env)))) (\<lambda>quota.
             Inr \<lparr>an_read_only = read_only, an_destructive = destructive, an_idempotent = idempotent,
                  an_external = external,
                  an_approval = truthy (od_getd source ''approval_required'' (PBool destructive)),
                  an_timeout = max (fl_round fo (1 / 100)) timeout,
                  an_budget = max 256 budget,
                  an_class = py_str (fl_repr fo) (od_getd source ''concurrency_class''
                               (PStr (if external then ''external'' else ''default''))),
                  an_class_limit = max 0 limit,
                  an_retry = (truthy (od_getd source ''retry_eligible'' (PBool False)) \<and> idempotent \<and> \<not> destructive),
                  an_max_retries = min 2 (max 0 retries),
                  an_quota = max 1 quota\<rparr>)))))))"

section \<open>Calls, results and the circuit breaker\<close>

record tool_call =
  tc_id :: pv
  tc_name :: pv
  tc_arguments :: pv

record tool_result =
  tr_id :: pv
  tr_name :: pv
  tr_content :: pv
  tr_arguments :: pdict
  tr_status :: string

record breaker =
  br_threshold :: nat
  br_reset :: int
  br_failures :: "(string, int list) od"
  br_opened :: "(string, int) od"

definition new_breaker :: "nat \<Rightarrow> int \<Rightarrow> breaker" where
  "new_breaker threshold reset = \<lparr>br_threshold = threshold, br_reset = reset, br_failures = [], br_opened = []\<rparr>"

definition breaker_success :: "string \<Rightarrow> breaker \<Rightarrow> breaker" where
  "breaker_success name b = b\<lparr>br_failures := od_del name (br_failures b), br_opened := od_del name (br_opened b)\<rparr>"

definition breaker_allow :: "int \<Rightarrow> string \<Rightarrow> breaker \<Rightarrow> bool \<times> breaker" where
  "breaker_allow now name b = (case od_get (br_opened b) name of
      None \<Rightarrow> (True, b)
    | Some opened \<Rightarrow>
       (if now - opened \<ge> br_reset b
        then (True, b\<lparr>br_opened := od_del name (br_opened b), br_failures := od_del name (br_failures b)\<rparr>)
        else (False, b)))"

definition breaker_failure :: "int \<Rightarrow> string \<Rightarrow> breaker \<Rightarrow> breaker" where
  "breaker_failure now name b =
     (let fs = dropWhile (\<lambda>t. now - t > br_reset b) (od_getd (br_failures b) name [] @ [now]);
          b' = b\<lparr>br_failures := od_set name fs (br_failures b)\<rparr>
      in if br_threshold b \<le> length fs then b'\<lparr>br_opened := od_set name now (br_opened b)\<rparr> else b')"

section \<open>The executor\<close>

record executor =
  ex_tools :: "(string, pdict) od"
  ex_concurrency :: int
  ex_turn_budget :: int
  ex_request_budget :: int
  ex_turn_tokens :: int
  ex_request_tokens :: int
  ex_max_calls :: int
  ex_calls_used :: int
  ex_bytes_used :: int
  ex_tokens_used :: int
  ex_counts :: "(string, int) od"
  ex_classes :: "(string, int) od"

text \<open>\<^verbatim>\<open>min(CAP, max(least, value or CAP))\<close>\<close>

definition capped :: "int \<Rightarrow> int \<Rightarrow> int option \<Rightarrow> int" where
  "capped cap least v = min cap (max least (case v of None \<Rightarrow> cap | Some n \<Rightarrow> if n = 0 then cap else n))"

record executor_limits =
  lim_concurrency :: "int option"
  lim_turn_bytes :: "int option"
  lim_request_bytes :: "int option"
  lim_turn_tokens :: "int option"
  lim_request_tokens :: "int option"
  lim_calls :: "int option"

definition new_executor :: "tool_env \<Rightarrow> (string, pdict) od \<Rightarrow> executor_limits \<Rightarrow> executor" where
  "new_executor env tools l =
     \<lparr>ex_tools = tools,
      ex_concurrency = capped (env_concurrency env) 1 (lim_concurrency l),
      ex_turn_budget = capped (env_bytes_turn env) 256 (lim_turn_bytes l),
      ex_request_budget = capped (env_bytes_request env) 256 (lim_request_bytes l),
      ex_turn_tokens = capped (env_tokens_turn env) 1 (lim_turn_tokens l),
      ex_request_tokens = capped (env_tokens_request env) 1 (lim_request_tokens l),
      ex_max_calls = capped (env_max_calls env) 1 (lim_calls l),
      ex_calls_used = 0, ex_bytes_used = 0, ex_tokens_used = 0, ex_counts = [], ex_classes = []\<rparr>"

definition parse_arguments :: "float_ops \<Rightarrow> pv \<Rightarrow> pdict option" where
  "parse_arguments fo arguments = (case arguments of
      PDict d \<Rightarrow> Some d
    | PNone \<Rightarrow> Some []
    | PStr s \<Rightarrow> (if s = [] then Some []
                else (case json_loads (fl_read fo) s of Inr (PDict d) \<Rightarrow> Some d | _ \<Rightarrow> None))
    | _ \<Rightarrow> None)"

definition serialized_size :: "float_ops \<Rightarrow> pv \<Rightarrow> int" where
  "serialized_size fo v = int (utf8_len (json_dumps False (fl_repr fo) v))"

definition estimated_tokens :: "float_ops \<Rightarrow> pv \<Rightarrow> int" where
  "estimated_tokens fo v = max 1 ((serialized_size fo v + 3) div 4)"

definition refused :: "tool_call \<Rightarrow> string \<Rightarrow> pdict \<Rightarrow> tool_result" where
  "refused call code params =
     \<lparr>tr_id = tc_id call, tr_name = tc_name call, tr_content = structured_error code (tc_name call),
      tr_arguments = params, tr_status = code\<rparr>"

text \<open>A call of a batch: not yet looked at, refused, running with the number of attempts made,
  or finished after that many attempts.\<close>

datatype slot =
    Waiting
  | Refused tool_result
  | Running annotations pdict nat
  | Finished annotations nat tool_result

text \<open>\<^verbatim>\<open>self.tools.get(name)\<close>: a list or dict is no key.\<close>

definition find_tool :: "executor \<Rightarrow> pv \<Rightarrow> (string \<times> pdict) option res" where
  "find_tool ex name = (case name of
      PStr s \<Rightarrow> Inr (map_option (Pair s) (od_get (ex_tools ex) s))
    | PList _ \<Rightarrow> Inl TypeError
    | PDict _ \<Rightarrow> Inl TypeError
    | _ \<Rightarrow> Inr None)"

definition allowed_properties :: "pdict \<Rightarrow> pv res" where
  "allowed_properties tool =
     rbind (pget (od_getd tool ''spec'' (PDict [])) ''parameters'' (PDict [])) (\<lambda>p. pget p ''properties'' (PDict []))"

definition tool_annotations_of :: "float_ops \<Rightarrow> tool_env \<Rightarrow> pdict \<Rightarrow> annotations res" where
  "tool_annotations_of fo env tool =
     normalize_tool_annotations fo env (od_getd tool ''annotations'' PNone) (od_getd tool ''type'' (PStr []))"

definition calls_of :: "string \<Rightarrow> executor \<Rightarrow> int" where
  "calls_of name ex = od_getd (ex_counts ex) name 0"

definition ensure_class :: "annotations \<Rightarrow> executor \<Rightarrow> executor" where
  "ensure_class an ex =
     (let limit = (if an_class_limit an \<noteq> 0 then an_class_limit an else ex_concurrency ex)
      in if od_has (ex_classes ex) (an_class an) then ex
         else ex\<lparr>ex_classes := od_set (an_class an) (min (ex_concurrency ex) limit) (ex_classes ex)\<rparr>)"

definition count_call :: "string \<Rightarrow> executor \<Rightarrow> executor" where
  "count_call name ex = ex\<lparr>ex_counts := od_set name (calls_of name ex + 1) (ex_counts ex)\<rparr>"

text \<open>Arguments, their filter and the breaker: the checks after the call has been counted\<close>

definition start_call ::
  "float_ops \<Rightarrow> int \<Rightarrow> tool_call \<Rightarrow> string \<Rightarrow> pdict \<Rightarrow> annotations \<Rightarrow> breaker \<Rightarrow> (breaker \<times> slot) res" where
  "start_call fo now call name tool an br =
     (case parse_arguments fo (tc_arguments call) of
        None \<Rightarrow> Inr (br, Refused (refused call ''malformed_arguments'' []))
      | Some params0 \<Rightarrow>
         rbind (allowed_properties tool) (\<lambda>allowed.
           let params = (case allowed of PDict d \<Rightarrow> filter (\<lambda>(k, v). od_has d k) params0 | _ \<Rightarrow> params0);
               gate = (if an_external an then breaker_allow now name br else (True, br))
           in Inr (snd gate, if fst gate then Running an params 0
                             else Refused (refused call ''unavailable'' params))))"

text \<open>What happens to a call before its first attempt\<close>

definition admit_call ::
  "float_ops \<Rightarrow> tool_env \<Rightarrow> int \<Rightarrow> tool_call \<Rightarrow> executor \<Rightarrow> breaker \<Rightarrow> (executor \<times> breaker \<times> slot) res" where
  "admit_call fo env now call ex br =
     rbind (find_tool ex (tc_name call)) (\<lambda>found.
       case found of
         None \<Rightarrow> Inr (ex, br, Refused (refused call ''unknown_tool'' []))
       | Some (name, tool) \<Rightarrow>
         rbind (tool_annotations_of fo env tool) (\<lambda>an.
           if calls_of name ex \<ge> an_quota an
           then Inr (ensure_class an ex, br, Refused (refused call ''quota_exceeded'' []))
           else rbind (start_call fo now call name tool an br) (\<lambda>(br', s).
             Inr (count_call name (ensure_class an ex), br', s))))"

text \<open>One attempt: the tool returns a value, takes too long or raises.\<close>

datatype outcome = Returned pv | TimedOut | Raised

definition max_attempts :: "annotations \<Rightarrow> nat" where
  "max_attempts an = nat (1 + (if an_retry an then an_max_retries an else 0))"

text \<open>The last check: the size of what the attempts left\<close>

definition finish_call :: "float_ops \<Rightarrow> annotations \<Rightarrow> tool_call \<Rightarrow> pdict \<Rightarrow> string \<Rightarrow> pv \<Rightarrow> tool_result" where
  "finish_call fo an call params status content =
     (if serialized_size fo content > an_budget an
      then \<lparr>tr_id = tc_id call, tr_name = tc_name call, tr_content = structured_error ''budget_exceeded'' (tc_name call),
            tr_arguments = params, tr_status = ''budget_exceeded''\<rparr>
      else \<lparr>tr_id = tc_id call, tr_name = tc_name call, tr_content = content, tr_arguments = params, tr_status = status\<rparr>)"

definition name_text :: "tool_call \<Rightarrow> string" where
  "name_text call = (case tc_name call of PStr s \<Rightarrow> s | _ \<Rightarrow> [])"

definition attempt_call ::
  "float_ops \<Rightarrow> int \<Rightarrow> tool_call \<Rightarrow> annotations \<Rightarrow> pdict \<Rightarrow> nat \<Rightarrow> outcome \<Rightarrow> breaker \<Rightarrow> breaker \<times> slot" where
  "attempt_call fo now call an params k out br =
     (case out of
        Returned v \<Rightarrow>
          (if an_external an then breaker_success (name_text call) br else br,
           Finished an (Suc k) (finish_call fo an call params ''success'' v))
      | _ \<Rightarrow>
         (let code = (if out = TimedOut then ''timeout'' else ''internal_error'');
              br' = (if an_external an then breaker_failure now (name_text call) br else br)
          in (br', if Suc k < max_attempts an then Running an params (Suc k)
                   else Finished an (Suc k)
                     (finish_call fo an call params code (structured_error code (tc_name call))))))"

section \<open>A batch\<close>

record batch =
  bt_ex :: executor
  bt_br :: breaker
  bt_now :: int
  bt_slots :: "slot list"
  bt_error :: "py_error option"

definition new_batch :: "executor \<Rightarrow> breaker \<Rightarrow> int \<Rightarrow> tool_call list \<Rightarrow> batch" where
  "new_batch ex br now calls =
     \<lparr>bt_ex = ex, bt_br = br, bt_now = now, bt_slots = replicate (length calls) Waiting, bt_error = None\<rparr>"

inductive batch_step :: "float_ops \<Rightarrow> tool_env \<Rightarrow> tool_call list \<Rightarrow> batch \<Rightarrow> batch \<Rightarrow> bool"
  for fo env calls where
  step_admit: "bt_error b = None \<Longrightarrow> i < length calls \<Longrightarrow> bt_slots b ! i = Waiting \<Longrightarrow> bt_now b \<le> now \<Longrightarrow>
    admit_call fo env now (calls ! i) (bt_ex b) (bt_br b) = Inr (ex', br', s) \<Longrightarrow>
    batch_step fo env calls b (b\<lparr>bt_ex := ex', bt_br := br', bt_now := now, bt_slots := (bt_slots b)[i := s]\<rparr>)"
| step_error: "bt_error b = None \<Longrightarrow> i < length calls \<Longrightarrow> bt_slots b ! i = Waiting \<Longrightarrow>
    admit_call fo env now (calls ! i) (bt_ex b) (bt_br b) = Inl e \<Longrightarrow>
    batch_step fo env calls b (b\<lparr>bt_error := Some e\<rparr>)"
| step_cancel: "bt_error b = None \<Longrightarrow> batch_step fo env calls b (b\<lparr>bt_error := Some CancelledError\<rparr>)"
| step_attempt: "bt_error b = None \<Longrightarrow> i < length calls \<Longrightarrow> bt_slots b ! i = Running an params k \<Longrightarrow> bt_now b \<le> now \<Longrightarrow>
    attempt_call fo now (calls ! i) an params k out (bt_br b) = (br', s) \<Longrightarrow>
    batch_step fo env calls b (b\<lparr>bt_br := br', bt_now := now, bt_slots := (bt_slots b)[i := s]\<rparr>)"

inductive_cases batch_step_cases: "batch_step fo env calls b b'"

text \<open>The states of a batch over the accepted calls\<close>

inductive batch_reach :: "float_ops \<Rightarrow> tool_env \<Rightarrow> tool_call list \<Rightarrow> batch \<Rightarrow> batch \<Rightarrow> bool"
  for fo env calls b0 where
  reach_start: "batch_reach fo env calls b0 b0"
| reach_step: "batch_reach fo env calls b0 b \<Longrightarrow> batch_step fo env calls b b' \<Longrightarrow> batch_reach fo env calls b0 b'"

definition slot_result :: "slot \<Rightarrow> tool_result option" where
  "slot_result s = (case s of Refused r \<Rightarrow> Some r | Finished an k r \<Rightarrow> Some r | _ \<Rightarrow> None)"

definition batch_done :: "batch \<Rightarrow> bool" where
  "batch_done b = (bt_error b = None \<and> (\<forall>s\<in>set (bt_slots b). slot_result s \<noteq> None))"

definition accepted_calls :: "executor \<Rightarrow> tool_call list \<Rightarrow> tool_call list" where
  "accepted_calls ex calls = take (nat (max 0 (ex_max_calls ex - ex_calls_used ex))) calls"

text \<open>The loop that charges the results to the budgets of the turn and of the request\<close>

definition over_budget :: "executor \<Rightarrow> int \<Rightarrow> int \<Rightarrow> int \<Rightarrow> int \<Rightarrow> bool" where
  "over_budget ex turn turn_tokens bytes tokens =
     (turn + bytes > ex_turn_budget ex \<or> ex_bytes_used ex + bytes > ex_request_budget ex \<or>
      turn_tokens + tokens > ex_turn_tokens ex \<or> ex_tokens_used ex + tokens > ex_request_tokens ex)"

definition charge_one :: "float_ops \<Rightarrow> int \<Rightarrow> int \<Rightarrow> executor \<Rightarrow> tool_result \<Rightarrow> tool_result" where
  "charge_one fo turn toks ex r =
     (if over_budget ex turn toks (serialized_size fo (tr_content r)) (estimated_tokens fo (tr_content r))
      then r\<lparr>tr_content := structured_error ''budget_exceeded'' (tr_name r), tr_status := ''budget_exceeded''\<rparr>
      else r)"

text \<open>Recording the metrics looks the tool up again and normalises its annotations.\<close>

definition metric_check :: "float_ops \<Rightarrow> tool_env \<Rightarrow> executor \<Rightarrow> tool_result \<Rightarrow> annotations res" where
  "metric_check fo env ex r = rbind (find_tool ex (tr_name r)) (\<lambda>found.
     tool_annotations_of fo env (case found of None \<Rightarrow> [] | Some (name, tool) \<Rightarrow> tool))"

fun charge_results ::
  "float_ops \<Rightarrow> tool_env \<Rightarrow> int \<Rightarrow> int \<Rightarrow> executor \<Rightarrow> tool_result list \<Rightarrow> (executor \<times> tool_result list) res" where
  "charge_results fo env turn toks ex [] = Inr (ex, [])"
| "charge_results fo env turn toks ex (r # rs) =
     (let r' = charge_one fo turn toks ex r;
          bytes = serialized_size fo (tr_content r');
          tokens = estimated_tokens fo (tr_content r')
      in rbind (metric_check fo env ex r') (\<lambda>an.
         rbind (charge_results fo env (turn + bytes) (toks + tokens)
                  (ex\<lparr>ex_bytes_used := ex_bytes_used ex + bytes, ex_tokens_used := ex_tokens_used ex + tokens\<rparr>) rs)
           (\<lambda>(ex', rs'). Inr (ex', r' # rs'))))"

definition finish_batch ::
  "float_ops \<Rightarrow> tool_env \<Rightarrow> tool_call list \<Rightarrow> executor \<Rightarrow> tool_result list \<Rightarrow> (executor \<times> tool_result list) res" where
  "finish_batch fo env calls ex results =
     (let n = length results;
          ex1 = ex\<lparr>ex_calls_used := ex_calls_used ex + int n\<rparr>
      in charge_results fo env 0 0 ex1 (results @ map (\<lambda>c. refused c ''quota_exceeded'' []) (drop n calls)))"

text \<open>\<^verbatim>\<open>execute_batch\<close>: from a state of the executor and the breaker to the state and results
  that some interleaving of the accepted calls leads to\<close>

inductive execute_batch ::
  "float_ops \<Rightarrow> tool_env \<Rightarrow> tool_call list \<Rightarrow> executor \<Rightarrow> breaker \<Rightarrow> int \<Rightarrow> executor \<Rightarrow> breaker \<Rightarrow> tool_result list \<Rightarrow> bool"
  for fo env where
  batch_empty: "execute_batch fo env [] ex br now ex br []"
| batch_run: "calls \<noteq> [] \<Longrightarrow>
    batch_reach fo env (accepted_calls ex calls) (new_batch ex br now (accepted_calls ex calls)) b \<Longrightarrow> batch_done b \<Longrightarrow>
    finish_batch fo env calls (bt_ex b) (map (the \<circ> slot_result) (bt_slots b)) = Inr (ex', rs) \<Longrightarrow>
    execute_batch fo env calls ex br now ex' (bt_br b) rs"

section \<open>What a step keeps\<close>

text \<open>Everything but the counters of a call's admission\<close>

definition same_limits :: "executor \<Rightarrow> executor \<Rightarrow> bool" where
  "same_limits ex ex' = (ex' = ex\<lparr>ex_counts := ex_counts ex', ex_classes := ex_classes ex'\<rparr>)"

lemma same_limits_refl [simp]: "same_limits ex ex"
  by (simp add: same_limits_def)

lemma same_limits_trans: "same_limits a b \<Longrightarrow> same_limits b c \<Longrightarrow> same_limits a c"
  by (cases a; cases b; cases c) (simp add: same_limits_def)

lemma same_limits_tools: "same_limits ex ex' \<Longrightarrow> ex_tools ex' = ex_tools ex"
  by (cases ex; cases ex') (simp add: same_limits_def)

lemma same_limits_class [simp]: "same_limits ex (ensure_class an ex)"
  by (cases ex) (simp add: same_limits_def ensure_class_def Let_def)

lemma same_limits_count [simp]: "same_limits ex (count_call name ex)"
  by (cases ex) (simp add: same_limits_def count_call_def)

lemma calls_of_class [simp]: "calls_of n (ensure_class an ex) = calls_of n ex"
  by (simp add: calls_of_def ensure_class_def Let_def)

lemma calls_of_count [simp]:
  "calls_of n (count_call name ex) = (if n = name then calls_of n ex + 1 else calls_of n ex)"
  by (simp add: calls_of_def count_call_def)

lemma find_tool_found:
  "find_tool ex v = Inr (Some (name, tool)) \<longleftrightarrow> v = PStr name \<and> od_get (ex_tools ex) name = Some tool"
  by (cases v) (auto simp: find_tool_def)

definition started :: "slot \<Rightarrow> bool" where
  "started s = (case s of Running an params k \<Rightarrow> True | Finished an k r \<Rightarrow> True | _ \<Rightarrow> False)"

lemma started_simps [simp]: "\<not> started Waiting" "\<not> started (Refused r)" "started (Running an params k)"
  "started (Finished an k r)"
  by (simp_all add: started_def)

text \<open>The result in a slot answers the call at its place.\<close>

definition answers :: "tool_call \<Rightarrow> slot \<Rightarrow> bool" where
  "answers call s = (case slot_result s of None \<Rightarrow> True | Some r \<Rightarrow> tr_id r = tc_id call \<and> tr_name r = tc_name call)"

lemma refused_answers [simp]: "answers call (Refused (refused call code params))"
  by (simp add: answers_def slot_result_def refused_def)

lemma finished_answers [simp]: "answers call (Finished an k (finish_call fo an call params st v))"
  by (simp add: answers_def slot_result_def finish_call_def)

lemma running_answers [simp]: "answers call (Running an params k)" "answers call Waiting"
  by (simp_all add: answers_def slot_result_def)

text \<open>A slot's attempts respect the annotations of the tool that the call names.\<close>

definition slot_ok :: "float_ops \<Rightarrow> tool_env \<Rightarrow> executor \<Rightarrow> tool_call \<Rightarrow> slot \<Rightarrow> bool" where
  "slot_ok fo env ex call s =
     (case s of
        Running an params k \<Rightarrow> k < max_attempts an \<and>
          (\<exists>name tool. find_tool ex (tc_name call) = Inr (Some (name, tool)) \<and> tool_annotations_of fo env tool = Inr an)
      | Finished an k r \<Rightarrow> k \<le> max_attempts an \<and>
          (\<exists>name tool. find_tool ex (tc_name call) = Inr (Some (name, tool)) \<and> tool_annotations_of fo env tool = Inr an)
      | _ \<Rightarrow> True)"

lemma start_call_cases:
  assumes "start_call fo now call name tool an br = Inr (br', s)"
  shows "answers call s" and "(\<exists>params. s = Running an params 0) \<or> (\<exists>r. s = Refused r)"
  using assms by (auto simp: start_call_def Let_def res_simps split: option.splits if_splits)

lemma max_attempts_pos: "tool_annotations_of fo env tool = Inr an \<Longrightarrow> 0 < max_attempts an"
  by (auto simp: tool_annotations_of_def normalize_tool_annotations_def Let_def res_simps max_attempts_def)

lemma admit_call_found:
  assumes "admit_call fo env now call ex br = Inr (ex', br', s)"
  obtains (unknown) "find_tool ex (tc_name call) = Inr None" "ex' = ex" "br' = br"
      "s = Refused (refused call ''unknown_tool'' [])"
    | (quota) name tool an where "find_tool ex (tc_name call) = Inr (Some (name, tool))"
      "tool_annotations_of fo env tool = Inr an" "an_quota an \<le> calls_of name ex"
      "ex' = ensure_class an ex" "br' = br" "s = Refused (refused call ''quota_exceeded'' [])"
    | (start) name tool an where "find_tool ex (tc_name call) = Inr (Some (name, tool))"
      "tool_annotations_of fo env tool = Inr an" "calls_of name ex < an_quota an"
      "ex' = count_call name (ensure_class an ex)" "start_call fo now call name tool an br = Inr (br', s)"
proof -
  from assms obtain found where f: "find_tool ex (tc_name call) = Inr found"
    by (auto simp: admit_call_def res_simps)
  show thesis
  proof (cases found)
    case None
    with assms f show thesis by (intro unknown) (auto simp: admit_call_def)
  next
    case (Some nt)
    obtain name tool where nt: "nt = (name, tool)" by (cases nt)
    with Some f have f': "find_tool ex (tc_name call) = Inr (Some (name, tool))" by simp
    with assms obtain an where an: "tool_annotations_of fo env tool = Inr an"
      by (auto simp: admit_call_def res_simps)
    show thesis
    proof (cases "an_quota an \<le> calls_of name ex")
      case True
      with assms f' an show thesis by (intro quota [OF f' an]) (auto simp: admit_call_def)
    next
      case False
      with assms f' an show thesis
        by (intro start [OF f' an]) (auto simp: admit_call_def res_simps)
    qed
  qed
qed

lemma admit_call_keeps:
  assumes "admit_call fo env now call ex br = Inr (ex', br', s)"
  shows "same_limits ex ex'" and "answers call s" and "slot_ok fo env ex call s"
    and "calls_of n ex' \<ge> calls_of n ex + (if started s \<and> tc_name call = PStr n then 1 else 0)"
  using assms
proof -
  have "same_limits ex ex' \<and> answers call s \<and> slot_ok fo env ex call s \<and>
    calls_of n ex' \<ge> calls_of n ex + (if started s \<and> tc_name call = PStr n then 1 else 0)"
    using assms
  proof (cases rule: admit_call_found)
    case unknown
    then show ?thesis by (simp add: slot_ok_def)
  next
    case (quota name tool an)
    then show ?thesis by (simp add: slot_ok_def)
  next
    case (start name tool an)
    note s = start_call_cases [OF start(5)]
    from start(1) have "tc_name call = PStr name" by (simp add: find_tool_found)
    moreover have "same_limits ex ex'" unfolding start(4) by (rule same_limits_trans [OF same_limits_class same_limits_count])
    moreover have "slot_ok fo env ex call s"
      using s(2) start(1,2) max_attempts_pos [OF start(2)] by (auto simp: slot_ok_def)
    ultimately show ?thesis using s by (auto simp: start(4))
  qed
  then show "same_limits ex ex'" "answers call s" "slot_ok fo env ex call s"
    "calls_of n ex' \<ge> calls_of n ex + (if started s \<and> tc_name call = PStr n then 1 else 0)" by simp_all
qed

lemma admit_call_quota:
  assumes "admit_call fo env now call ex br = Inr (ex', br', s)"
    and "od_get (ex_tools ex) n = Some tool" and "tool_annotations_of fo env tool = Inr an"
    and "calls_of n ex \<le> an_quota an"
  shows "calls_of n ex' \<le> an_quota an"
  using assms(1)
proof (cases rule: admit_call_found)
  case unknown
  with assms(4) show ?thesis by simp
next
  case (quota name tool an)
  with assms(4) show ?thesis by simp
next
  case (start name tool' an')
  with assms(2-4) show ?thesis by (auto simp: find_tool_found)
qed

lemma attempt_call_keeps:
  assumes "attempt_call fo now call an params k out br = (br', s)"
    and "slot_ok fo env ex call (Running an params k)"
  shows "answers call s" and "slot_ok fo env ex call s" and "started s"
  using assms
  by (auto simp: attempt_call_def Let_def slot_ok_def split: outcome.splits if_splits)

section \<open>Invariant of a batch\<close>

definition started_calls :: "tool_call list \<Rightarrow> slot list \<Rightarrow> string \<Rightarrow> int" where
  "started_calls calls slots n = int (length (filter (\<lambda>(c, s). tc_name c = PStr n \<and> started s) (zip calls slots)))"

lemma count_list_update:
  "i < length xs \<Longrightarrow> int (length (filter P (xs[i := y]))) =
     int (length (filter P xs)) - (if P (xs ! i) then 1 else 0) + (if P y then 1 else 0)"
proof (induction xs arbitrary: i)
  case Nil
  then show ?case by simp
next
  case (Cons x xs)
  show ?case
  proof (cases i)
    case 0
    then show ?thesis by simp
  next
    case (Suc j)
    with Cons.prems Cons.IH [of j] show ?thesis by (simp split: if_splits)
  qed
qed

lemma started_calls_update:
  "i < length calls \<Longrightarrow> length slots = length calls \<Longrightarrow>
   started_calls calls (slots[i := s]) n = started_calls calls slots n
     - (if tc_name (calls ! i) = PStr n \<and> started (slots ! i) then 1 else 0)
     + (if tc_name (calls ! i) = PStr n \<and> started s then 1 else 0)"
proof -
  assume "i < length calls" and "length slots = length calls"
  then have "zip calls (slots[i := s]) = (zip calls slots)[i := (calls ! i, s)]"
    using update_zip [of calls slots i "(calls ! i, s)"] by simp
  with \<open>i < length calls\<close> \<open>length slots = length calls\<close> show ?thesis
    by (simp add: started_calls_def count_list_update)
qed

definition batch_inv :: "float_ops \<Rightarrow> tool_env \<Rightarrow> tool_call list \<Rightarrow> executor \<Rightarrow> batch \<Rightarrow> bool" where
  "batch_inv fo env calls ex0 b =
     (length (bt_slots b) = length calls \<and> same_limits ex0 (bt_ex b) \<and>
      (\<forall>i<length calls. answers (calls ! i) (bt_slots b ! i) \<and> slot_ok fo env ex0 (calls ! i) (bt_slots b ! i)) \<and>
      (\<forall>n. calls_of n ex0 + started_calls calls (bt_slots b) n \<le> calls_of n (bt_ex b)) \<and>
      (\<forall>n tool an. od_get (ex_tools ex0) n = Some tool \<longrightarrow> tool_annotations_of fo env tool = Inr an \<longrightarrow>
         calls_of n ex0 \<le> an_quota an \<longrightarrow> calls_of n (bt_ex b) \<le> an_quota an))"

lemma batch_inv_start: "batch_inv fo env calls ex (new_batch ex br now calls)"
proof -
  have "filter (\<lambda>(c, s). tc_name c = PStr n \<and> started s) (zip calls (replicate (length calls) Waiting)) = []" for n
    by (auto simp: filter_empty_conv set_zip)
  then show ?thesis by (simp add: batch_inv_def new_batch_def started_calls_def slot_ok_def)
qed

lemma slot_ok_same: "same_limits ex ex' \<Longrightarrow> slot_ok fo env ex' call s = slot_ok fo env ex call s"
proof -
  assume "same_limits ex ex'"
  note tools = same_limits_tools [OF this]
  have "find_tool ex' v = find_tool ex v" for v by (cases v) (simp_all add: find_tool_def tools)
  then show ?thesis by (cases s) (simp_all add: slot_ok_def)
qed

lemma batch_inv_step:
  assumes "batch_step fo env calls b b'" and "batch_inv fo env calls ex0 b"
  shows "batch_inv fo env calls ex0 b'"
  using assms(1)
proof (cases rule: batch_step.cases)
  case (step_admit i now ex' br' s)
  note k = admit_call_keeps [OF step_admit(6)]
  have lim: "same_limits ex0 (bt_ex b)" and len: "length (bt_slots b) = length calls"
    and ok: "\<And>j. j < length calls \<Longrightarrow> answers (calls ! j) (bt_slots b ! j) \<and> slot_ok fo env ex0 (calls ! j) (bt_slots b ! j)"
    and cnt: "\<And>n. calls_of n ex0 + started_calls calls (bt_slots b) n \<le> calls_of n (bt_ex b)"
    and quota: "\<And>n tool an. od_get (ex_tools ex0) n = Some tool \<Longrightarrow> tool_annotations_of fo env tool = Inr an \<Longrightarrow>
       calls_of n ex0 \<le> an_quota an \<Longrightarrow> calls_of n (bt_ex b) \<le> an_quota an"
    using assms(2) by (auto simp: batch_inv_def)
  have "same_limits ex0 ex'" by (rule same_limits_trans [OF lim k(1)])
  moreover have "answers (calls ! j) ((bt_slots b)[i := s] ! j) \<and> slot_ok fo env ex0 (calls ! j) ((bt_slots b)[i := s] ! j)"
    if "j < length calls" for j
    using ok [OF that] k(2,3) slot_ok_same [OF lim] by (cases "j = i") (auto simp: len step_admit(3))
  moreover have "calls_of n ex0 + started_calls calls ((bt_slots b)[i := s]) n \<le> calls_of n ex'" for n
    using cnt [of n] k(4) [of n] by (simp add: started_calls_update [OF step_admit(3) len] step_admit(4) conj_commute)
  moreover have "calls_of n ex' \<le> an_quota an"
    if "od_get (ex_tools ex0) n = Some tool" "tool_annotations_of fo env tool = Inr an" "calls_of n ex0 \<le> an_quota an" for n tool an
    using admit_call_quota [OF step_admit(6), of n tool an] quota [OF that] that(1,2) same_limits_tools [OF lim] by simp
  ultimately show ?thesis by (simp add: step_admit(1) batch_inv_def len)
next
  case (step_error i e)
  with assms(2) show ?thesis by (simp add: batch_inv_def)
next
  case step_cancel
  with assms(2) show ?thesis by (simp add: batch_inv_def)
next
  case (step_attempt i an params k now out br' s)
  have len: "length (bt_slots b) = length calls" using assms(2) by (simp add: batch_inv_def)
  have "slot_ok fo env ex0 (calls ! i) (Running an params k)"
    using assms(2) step_attempt(3,4) by (auto simp: batch_inv_def)
  note k = attempt_call_keeps [OF step_attempt(6) this]
  have "answers (calls ! j) ((bt_slots b)[i := s] ! j) \<and> slot_ok fo env ex0 (calls ! j) ((bt_slots b)[i := s] ! j)"
    if "j < length calls" for j
    using assms(2) that k(1,2) by (cases "j = i") (auto simp: len step_attempt(3) batch_inv_def)
  moreover have "started_calls calls ((bt_slots b)[i := s]) n = started_calls calls (bt_slots b) n" for n
    by (simp add: started_calls_update [OF step_attempt(3) len] step_attempt(4) k(3))
  ultimately show ?thesis using assms(2) by (simp add: step_attempt(1) batch_inv_def len)
qed

lemma batch_inv_reach:
  "batch_reach fo env calls b0 b \<Longrightarrow> batch_inv fo env calls ex0 b0 \<Longrightarrow> batch_inv fo env calls ex0 b"
  by (induction rule: batch_reach.induct) (auto intro: batch_inv_step)

lemma new_batch_inv: "batch_reach fo env calls (new_batch ex br now calls) b \<Longrightarrow> batch_inv fo env calls ex b"
  by (rule batch_inv_reach [OF _ batch_inv_start])

section \<open>Charging\<close>

lemma charge_one_id: "tr_id (charge_one fo t k ex r) = tr_id r" "tr_name (charge_one fo t k ex r) = tr_name r"
  by (simp_all add: charge_one_def)

lemma charge_results_ids:
  "charge_results fo env t k ex rs = Inr (ex', rs') \<Longrightarrow>
     map (\<lambda>r. (tr_id r, tr_name r)) rs' = map (\<lambda>r. (tr_id r, tr_name r)) rs"
proof (induction fo env t k ex rs arbitrary: ex' rs' rule: charge_results.induct)
  case (1 fo env t k ex)
  then show ?case by simp
next
  case (2 fo env t k ex r rs)
  let ?r = "charge_one fo t k ex r"
  from "2.prems" obtain an ex1 rs1 where m: "metric_check fo env ex ?r = Inr an"
    "charge_results fo env (t + serialized_size fo (tr_content ?r)) (k + estimated_tokens fo (tr_content ?r))
       (ex\<lparr>ex_bytes_used := ex_bytes_used ex + serialized_size fo (tr_content ?r),
           ex_tokens_used := ex_tokens_used ex + estimated_tokens fo (tr_content ?r)\<rparr>) rs = Inr (ex1, rs1)"
    "rs' = ?r # rs1"
    by (auto simp: Let_def res_simps)
  from "2.IH" [OF refl refl refl m(1,2)] m(3) show ?case by (simp add: charge_one_id)
qed

text \<open>The bytes that the results of a turn take, up to the last one that was not cut\<close>

definition turn_bytes :: "float_ops \<Rightarrow> tool_result list \<Rightarrow> int" where
  "turn_bytes fo rs = sum_list (map (\<lambda>r. serialized_size fo (tr_content r)) rs)"

lemma charge_results_budget:
  assumes "charge_results fo env t k ex rs = Inr (ex', rs')" and "i < length rs'"
    and "tr_status (rs' ! i) \<noteq> ''budget_exceeded''"
  shows "t + turn_bytes fo (take (Suc i) rs') \<le> ex_turn_budget ex \<and>
    ex_bytes_used ex + turn_bytes fo (take (Suc i) rs') \<le> ex_request_budget ex"
  using assms
proof (induction fo env t k ex rs arbitrary: ex' rs' i rule: charge_results.induct)
  case (1 fo env t k ex)
  then show ?case by simp
next
  case (2 fo env t k ex r rs)
  let ?r = "charge_one fo t k ex r"
  let ?ex = "ex\<lparr>ex_bytes_used := ex_bytes_used ex + serialized_size fo (tr_content ?r),
      ex_tokens_used := ex_tokens_used ex + estimated_tokens fo (tr_content ?r)\<rparr>"
  from "2.prems"(1) obtain an ex1 rs1 where m: "metric_check fo env ex ?r = Inr an"
    "charge_results fo env (t + serialized_size fo (tr_content ?r)) (k + estimated_tokens fo (tr_content ?r)) ?ex rs
       = Inr (ex1, rs1)" "rs' = ?r # rs1"
    by (auto simp: Let_def res_simps)
  show ?case
  proof (cases i)
    case 0
    with "2.prems"(3) m(3) have "tr_status ?r \<noteq> ''budget_exceeded''" by simp
    then have "?r = r" "\<not> over_budget ex t k (serialized_size fo (tr_content r)) (estimated_tokens fo (tr_content r))"
      by (auto simp: charge_one_def split: if_splits)
    with 0 m(3) show ?thesis by (simp add: turn_bytes_def over_budget_def)
  next
    case (Suc j)
    from "2.IH" [OF refl refl refl m(1,2), of j] "2.prems"(2,3) m(3) Suc
    show ?thesis by (simp add: turn_bytes_def algebra_simps)
  qed
qed

section \<open>Runs of the breaker\<close>

text \<open>The outcomes that a breaker was told, newest first, and the time of the last call\<close>

inductive breaker_run :: "nat \<Rightarrow> int \<Rightarrow> (int \<times> string \<times> bool) list \<Rightarrow> breaker \<Rightarrow> int \<Rightarrow> bool"
  for threshold reset where
  run_new: "breaker_run threshold reset [] (new_breaker threshold reset) now"
| run_allow: "breaker_run threshold reset tr b t \<Longrightarrow> t \<le> now \<Longrightarrow>
    breaker_run threshold reset tr (snd (breaker_allow now n b)) now"
| run_success: "breaker_run threshold reset tr b t \<Longrightarrow> t \<le> now \<Longrightarrow>
    breaker_run threshold reset ((now, n, True) # tr) (breaker_success n b) now"
| run_failure: "breaker_run threshold reset tr b t \<Longrightarrow> t \<le> now \<Longrightarrow>
    breaker_run threshold reset ((now, n, False) # tr) (breaker_failure now n b) now"

text \<open>The times of a name's failures since its last success, newest first\<close>

fun fails_since :: "string \<Rightarrow> (int \<times> string \<times> bool) list \<Rightarrow> int list" where
  "fails_since n [] = []"
| "fails_since n ((t, m, ok) # tr) =
     (if m \<noteq> n then fails_since n tr else if ok then [] else t # fails_since n tr)"

definition window :: "int \<Rightarrow> int \<Rightarrow> int list \<Rightarrow> int list" where
  "window reset t fs = filter (\<lambda>u. t - reset \<le> u \<and> u \<le> t) fs"

definition name_inv :: "nat \<Rightarrow> int \<Rightarrow> int list \<Rightarrow> int list \<Rightarrow> int option \<Rightarrow> int \<Rightarrow> bool" where
  "name_inv threshold reset fs since opened now =
     ((\<exists>k. rev fs = take k since) \<and> sorted fs \<and> (\<forall>u\<in>set fs. u \<le> now) \<and>
      (\<forall>t. opened = Some t \<longrightarrow> t \<le> now \<and> threshold \<le> length (window reset t since)))"

definition breaker_inv :: "nat \<Rightarrow> int \<Rightarrow> (int \<times> string \<times> bool) list \<Rightarrow> breaker \<Rightarrow> int \<Rightarrow> bool" where
  "breaker_inv threshold reset tr b now =
     (br_threshold b = threshold \<and> br_reset b = reset \<and>
      (\<forall>n. name_inv threshold reset (od_getd (br_failures b) n []) (fails_since n tr) (od_get (br_opened b) n) now))"

lemma name_inv_later: "name_inv th r fs since op t \<Longrightarrow> t \<le> now \<Longrightarrow> name_inv th r fs since op now"
  by (force simp: name_inv_def)

lemma name_inv_empty: "name_inv th r [] since None t"
  by (auto simp: name_inv_def intro: exI [of _ 0])

lemma sorted_dropWhile_window:
  "sorted fs \<Longrightarrow> u \<in> set (dropWhile (\<lambda>t. now - t > r) fs) \<Longrightarrow> now - r \<le> (u :: int)"
  by (induction fs) (auto split: if_splits)

lemma window_take: "length (window r t (take k since)) \<le> length (window r t since)"
  unfolding window_def by (metis append_take_drop_id filter_append le_add1 length_append)

lemma rev_dropWhile_take:
  assumes "rev fs = take k since"
  shows "\<exists>j. rev (dropWhile P fs) = take j since"
proof -
  have "rev fs = rev (dropWhile P fs) @ rev (takeWhile P fs)"
    by (metis rev_append takeWhile_dropWhile_id)
  then have "rev (dropWhile P fs) = take (length (dropWhile P fs)) (take k since)"
    using assms by (metis append_eq_conv_conj length_rev)
  then show ?thesis by (metis take_take)
qed

lemma failure_window:
  assumes "name_inv th r fs since op t" and "t \<le> now"
    and "gs = dropWhile (\<lambda>u. now - u > r) (fs @ [now])"
  shows "name_inv th r gs (now # since) (if th \<le> length gs then Some now else op) now"
proof -
  from assms(1) obtain k where k: "rev fs = take k since" and s: "sorted fs" "\<forall>u\<in>set fs. u \<le> t"
    by (auto simp: name_inv_def)
  have "rev (fs @ [now]) = take (Suc k) (now # since)" using k by simp
  from rev_dropWhile_take [OF this] obtain j where j: "rev gs = take j (now # since)"
    using assms(3) by metis
  have s': "sorted (fs @ [now])" using s assms(2) by (auto simp: sorted_append)
  have gs_sub: "set gs \<subseteq> insert now (set fs)" using assms(3) set_dropWhileD by fastforce
  have le: "\<forall>u\<in>set gs. u \<le> now"
  proof
    fix u
    assume "u \<in> set gs"
    with gs_sub have "u = now \<or> u \<in> set fs" by blast
    with s(2) assms(2) show "u \<le> now" by (metis order_refl order_trans)
  qed
  have win: "\<forall>u\<in>set gs. now - r \<le> u" using sorted_dropWhile_window [OF s'] assms(3) by blast
  have "window r now (rev gs) = rev gs" using le win by (simp add: window_def filter_id_conv)
  then have "length gs \<le> length (window r now (now # since))"
    using window_take [of r now j "now # since"] by (metis j length_rev)
  moreover have "length (window r u since) \<le> length (window r u (now # since))" for u
    by (simp add: window_def)
  moreover have "sorted gs" unfolding assms(3) by (rule sorted_dropWhile [OF s'])
  ultimately show ?thesis
    using j le assms(1,2) unfolding name_inv_def by (auto intro: order_trans)
qed

lemma breaker_run_inv: "breaker_run th r tr b t \<Longrightarrow> breaker_inv th r tr b t"
proof (induction rule: breaker_run.induct)
  case (run_new now)
  then show ?case by (simp add: breaker_inv_def new_breaker_def name_inv_empty)
next
  case (run_allow tr b t now n)
  from run_allow.IH have "breaker_inv th r tr b now"
    using name_inv_later [OF _ run_allow.hyps(2)] by (auto simp: breaker_inv_def)
  then show ?case by (auto simp: breaker_inv_def breaker_allow_def name_inv_empty split: option.splits)
next
  case (run_success tr b t now n)
  from run_success.IH have "breaker_inv th r tr b now"
    using name_inv_later [OF _ run_success.hyps(2)] by (auto simp: breaker_inv_def)
  then show ?case by (auto simp: breaker_inv_def breaker_success_def name_inv_empty)
next
  case (run_failure tr b t now n)
  have IH: "name_inv th r (od_getd (br_failures b) m []) (fails_since m tr) (od_get (br_opened b) m) t"
    "br_threshold b = th" "br_reset b = r" for m
    using run_failure.IH by (auto simp: breaker_inv_def)
  note w = failure_window [OF IH(1) run_failure.hyps(2) refl, of n]
  show ?case unfolding breaker_inv_def
  proof (intro conjI allI)
    fix m
    show "name_inv th r (od_getd (br_failures (breaker_failure now n b)) m [])
        (fails_since m ((now, n, False) # tr)) (od_get (br_opened (breaker_failure now n b)) m) now"
    proof (cases "m = n")
      case True
      with w show ?thesis by (simp add: breaker_failure_def Let_def IH(2,3) split: if_splits)
    next
      case False
      with name_inv_later [OF IH(1) run_failure.hyps(2), of m] show ?thesis
        by (simp add: breaker_failure_def Let_def)
    qed
  qed (simp_all add: breaker_failure_def Let_def IH(2,3))
qed

text \<open>A row of failures from a state without failures of the name\<close>

lemma failures_fold:
  assumes "sorted (fs @ ts)" and "\<forall>u\<in>set (fs @ ts). last (0 # ts) - u \<le> br_reset b" and "ts \<noteq> []"
    and "od_getd (br_failures b) n [] = fs" and "br_threshold b \<le> length fs + length ts" and "0 < br_threshold b"
  shows "od_get (br_opened (foldl (\<lambda>b t. breaker_failure t n b) b ts)) n = Some (last ts)"
  using assms
proof (induction ts arbitrary: b fs)
  case Nil
  then show ?case by simp
next
  case (Cons t ts)
  have "t \<le> last (t # ts)" using Cons.prems(1) by (cases "ts = []") (auto simp: sorted_append)
  then have keep: "dropWhile (\<lambda>u. t - u > br_reset b) (fs @ [t]) = fs @ [t]"
    using Cons.prems(1,2) by (cases fs) (force simp: sorted_append)+
  let ?b = "breaker_failure t n b"
  have b: "br_reset ?b = br_reset b" "br_threshold ?b = br_threshold b" "od_getd (br_failures ?b) n [] = fs @ [t]"
    by (simp_all add: breaker_failure_def Let_def Cons.prems(4) keep)
  show ?case
  proof (cases "ts = []")
    case True
    then show ?thesis using Cons.prems(5) by (simp add: breaker_failure_def Let_def Cons.prems(4) keep)
  next
    case False
    with Cons.IH [of "fs @ [t]" ?b] Cons.prems(1,2,5,6) b show ?thesis by simp
  qed
qed

section \<open>Properties\<close>

text \<open>The example: one read-only tool that may be called twice, and its executor.\<close>

definition sample_floats :: float_ops where
  "sample_floats = \<lparr>fl_repr = (\<lambda>_. ''0.0''), fl_str = (\<lambda>_. None), fl_read = (\<lambda>_. 0), fl_int = of_int, fl_round = (\<lambda>x. x)\<rparr>"

definition sample_env :: tool_env where
  "sample_env = \<lparr>env_default_timeout = PInt 30, env_max_calls = 8, env_bytes_request = 4096, env_bytes_turn = 2048,
     env_tokens_request = 1024, env_tokens_turn = 512, env_concurrency = 4\<rparr>"

definition sample_tool :: pdict where
  "sample_tool = [(''annotations'', PDict [(''quota_per_request'', PInt 2)])]"

definition sample_annotations :: annotations where
  "sample_annotations = \<lparr>an_read_only = False, an_destructive = True, an_idempotent = False, an_external = False,
     an_approval = True, an_timeout = 30, an_budget = 65536, an_class = ''default'', an_class_limit = 0,
     an_retry = False, an_max_retries = 0, an_quota = 2\<rparr>"

definition sample_executor :: executor where
  "sample_executor = new_executor sample_env [(''t'', sample_tool)] \<lparr>lim_concurrency = None, lim_turn_bytes = None,
     lim_request_bytes = None, lim_turn_tokens = None, lim_request_tokens = None, lim_calls = None\<rparr>"

definition sample_call :: tool_call where
  "sample_call = \<lparr>tc_id = PStr ''c1'', tc_name = PStr ''t'', tc_arguments = PNone\<rparr>"

definition sample_batch :: batch where
  "sample_batch = new_batch sample_executor (new_breaker 5 30) 0 [sample_call]"

lemma sample_annotations_of: "tool_annotations_of sample_floats sample_env sample_tool = Inr sample_annotations"
  by (simp add: tool_annotations_of_def normalize_tool_annotations_def sample_floats_def sample_env_def sample_tool_def
      sample_annotations_def external_type_def py_float_def py_int_def py_str_def Let_def)

lemma sample_admit: "\<exists>ex'. admit_call sample_floats sample_env 1 sample_call sample_executor (new_breaker 5 30) =
    Inr (ex', new_breaker 5 30, Running sample_annotations [] 0)"
proof -
  have "find_tool sample_executor (tc_name sample_call) = Inr (Some (''t'', sample_tool))"
    by (simp add: find_tool_def sample_call_def sample_executor_def new_executor_def)
  moreover have "calls_of ''t'' sample_executor = 0"
    by (simp add: calls_of_def sample_executor_def new_executor_def)
  moreover have "start_call sample_floats 1 sample_call ''t'' sample_tool sample_annotations (new_breaker 5 30) =
      Inr (new_breaker 5 30, Running sample_annotations [] 0)"
    by (simp add: start_call_def parse_arguments_def sample_call_def allowed_properties_def sample_tool_def
        sample_annotations_def Let_def)
  ultimately show ?thesis
    by (simp add: admit_call_def sample_annotations_of) (simp add: sample_annotations_def)
qed

lemma sample_reach:
  "\<exists>b. batch_reach sample_floats sample_env [sample_call] sample_batch b \<and> bt_slots b = [Running sample_annotations [] 0]
     \<and> bt_error b = None"
proof -
  from sample_admit obtain ex' where adm: "admit_call sample_floats sample_env 1 sample_call sample_executor
      (new_breaker 5 30) = Inr (ex', new_breaker 5 30, Running sample_annotations [] 0)" by blast
  let ?b = "sample_batch\<lparr>bt_ex := ex', bt_br := new_breaker 5 30, bt_now := 1,
      bt_slots := (bt_slots sample_batch)[0 := Running sample_annotations [] 0]\<rparr>"
  from adm have "batch_step sample_floats sample_env [sample_call] sample_batch ?b"
    by (intro step_admit) (simp_all add: sample_batch_def new_batch_def)
  from reach_step [OF reach_start this] have r: "batch_reach sample_floats sample_env [sample_call] sample_batch ?b" .
  show ?thesis by (rule exI [of _ ?b], intro conjI, rule r) (simp_all add: sample_batch_def new_batch_def)
qed

text \<open>C13 In whatever order the calls of a batch are admitted and their attempts end, the calls of a
  tool that get past the quota check never exceed what is left of the tool's quota.\<close>

theorem batch_respects_quota:
  assumes "batch_reach fo env calls (new_batch ex br now calls) b"
    and "od_get (ex_tools ex) n = Some tool" and "tool_annotations_of fo env tool = Inr an"
    and "calls_of n ex \<le> an_quota an"
  shows "calls_of n ex + started_calls calls (bt_slots b) n \<le> an_quota an"
  using new_batch_inv [OF assms(1)] assms(2-4) unfolding batch_inv_def by (meson order_trans)

theorem batch_respects_quota_witness:
  "\<exists>b :: batch. bt_slots b = [Running sample_annotations [] 0] \<and>
     calls_of ''t'' sample_executor + started_calls [sample_call] (bt_slots b) ''t'' \<le> 2"
proof -
  obtain b where b: "batch_reach sample_floats sample_env [sample_call] sample_batch b"
    "bt_slots b = [Running sample_annotations [] 0]" using sample_reach by blast
  have "od_get (ex_tools sample_executor) ''t'' = Some sample_tool" "calls_of ''t'' sample_executor \<le> an_quota sample_annotations"
    by (simp_all add: sample_executor_def new_executor_def calls_of_def sample_annotations_def)
  from batch_respects_quota [OF b(1) [unfolded sample_batch_def] this(1) sample_annotations_of this(2)]
  have "calls_of ''t'' sample_executor + started_calls [sample_call] (bt_slots b) ''t'' \<le> 2"
    by (simp add: sample_annotations_def)
  with b(2) show ?thesis by blast
qed

text \<open>A call is attempted at most three times, and more than once only when its tool declares
  itself idempotent, not destructive and eligible for retries.\<close>

theorem batch_attempts_bounded:
  assumes "batch_reach fo env calls (new_batch ex br now calls) b" and "i < length calls"
    and "bt_slots b ! i = Running an params k \<or> bt_slots b ! i = Finished an k r"
  shows "k \<le> 3 \<and> (1 < k \<longrightarrow> an_idempotent an \<and> \<not> an_destructive an \<and> an_retry an)"
proof -
  have "slot_ok fo env ex (calls ! i) (bt_slots b ! i)"
    using new_batch_inv [OF assms(1)] assms(2) by (simp add: batch_inv_def)
  with assms(3) obtain tool where k: "k \<le> max_attempts an" and an: "tool_annotations_of fo env tool = Inr an"
    by (auto simp: slot_ok_def)
  have "an_max_retries an \<le> 2" "an_retry an \<longrightarrow> an_idempotent an \<and> \<not> an_destructive an"
    using an by (auto simp: tool_annotations_of_def normalize_tool_annotations_def Let_def res_simps)
  with k show ?thesis by (auto simp: max_attempts_def split: if_splits)
qed

theorem batch_attempts_bounded_witness:
  "\<exists>b k. batch_reach sample_floats sample_env [sample_call] sample_batch b \<and>
     bt_slots b ! 0 = Running sample_annotations [] k \<and> k \<le> 3"
proof -
  obtain b where b: "batch_reach sample_floats sample_env [sample_call] sample_batch b"
    "bt_slots b = [Running sample_annotations [] 0]" using sample_reach by blast
  have "(0::nat) \<le> 3 \<and> (1 < (0::nat) \<longrightarrow> an_idempotent sample_annotations \<and> \<not> an_destructive sample_annotations \<and>
     an_retry sample_annotations)"
    by (rule batch_attempts_bounded [OF b(1) [unfolded sample_batch_def], of 0 _ "[]"]) (simp_all add: b(2))
  then show ?thesis using b by (intro exI [of _ b] exI [of _ 0]) simp
qed

text \<open>A batch that ends gives one result per call, in the order of the calls and with their ids
  and names, whatever the order in which the calls ran.\<close>

theorem batch_results_in_order:
  assumes "execute_batch fo env calls ex br now ex' br' rs"
  shows "map (\<lambda>r. (tr_id r, tr_name r)) rs = map (\<lambda>c. (tc_id c, tc_name c)) calls"
  using assms
proof (cases rule: execute_batch.cases)
  case batch_empty
  then show ?thesis by simp
next
  case (batch_run b)
  let ?acc = "accepted_calls ex calls"
  let ?res = "map (the \<circ> slot_result) (bt_slots b)"
  have inv: "length (bt_slots b) = length ?acc"
    "\<And>i. i < length ?acc \<Longrightarrow> answers (?acc ! i) (bt_slots b ! i)"
    using new_batch_inv [OF batch_run(3)] by (simp_all add: batch_inv_def)
  let ?id = "\<lambda>r. (tr_id r, tr_name r)"
  let ?cid = "\<lambda>c. (tc_id c, tc_name c)"
  have "?id (the (slot_result (bt_slots b ! i))) = ?cid (?acc ! i)" if "i < length ?acc" for i
  proof -
    have "slot_result (bt_slots b ! i) \<noteq> None" using batch_run(4) inv(1) that by (simp add: batch_done_def)
    with inv(2) [OF that] show ?thesis by (auto simp: answers_def)
  qed
  then have acc: "map ?id ?res = map ?cid ?acc"
    by (intro nth_equalityI) (simp_all add: inv(1))
  have rest: "map ?id (map (\<lambda>c. refused c ''quota_exceeded'' []) cs) = map ?cid cs" for cs
    by (simp add: refused_def)
  have "map ?id rs = map ?id (?res @ map (\<lambda>c. refused c ''quota_exceeded'' []) (drop (length ?res) calls))"
    using charge_results_ids batch_run(5) unfolding finish_batch_def Let_def by blast
  also have "\<dots> = map ?cid (?acc @ drop (length ?res) calls)"
    unfolding map_append acc rest by (rule refl)
  also have "?acc @ drop (length ?res) calls = calls"
    using inv(1) by (simp add: accepted_calls_def min_def)
  finally show ?thesis .
qed

definition sample_result :: tool_result where
  "sample_result = \<lparr>tr_id = PStr ''c1'', tr_name = PStr ''t'', tr_content = PStr ''ok'', tr_arguments = [],
     tr_status = ''success''\<rparr>"

lemma sample_size: "serialized_size sample_floats (PStr ''ok'') = 4" "estimated_tokens sample_floats (PStr ''ok'') = 1"
  by (simp_all add: estimated_tokens_def serialized_size_def utf8_len_def json_string_def json_chars_def json_escape_char_def)

lemma sample_limits: "same_limits sample_executor ex' \<Longrightarrow>
    ex_tools ex' = [(''t'', sample_tool)] \<and> ex_turn_budget ex' = 2048 \<and> ex_request_budget ex' = 4096 \<and>
    ex_turn_tokens ex' = 512 \<and> ex_request_tokens ex' = 1024 \<and> ex_bytes_used ex' = 0 \<and> ex_tokens_used ex' = 0"
  by (cases ex') (simp add: same_limits_def sample_executor_def new_executor_def capped_def sample_env_def)

lemma sample_run:
  "\<exists>ex' br'. execute_batch sample_floats sample_env [sample_call] sample_executor (new_breaker 5 30) 0 ex' br' [sample_result]"
proof -
  obtain b where b: "batch_reach sample_floats sample_env [sample_call] sample_batch b"
    "bt_slots b = [Running sample_annotations [] 0]" and err: "bt_error b = None" using sample_reach by blast
  have inv: "same_limits sample_executor (bt_ex b)"
    using new_batch_inv [OF b(1) [unfolded sample_batch_def]] by (simp add: batch_inv_def)
  let ?b = "b\<lparr>bt_br := bt_br b, bt_now := bt_now b, bt_slots := (bt_slots b)[0 := Finished sample_annotations 1 sample_result]\<rparr>"
  have "attempt_call sample_floats (bt_now b) sample_call sample_annotations [] 0 (Returned (PStr ''ok'')) (bt_br b) =
      (bt_br b, Finished sample_annotations 1 sample_result)"
    by (simp add: attempt_call_def finish_call_def sample_size sample_annotations_def sample_result_def sample_call_def)
  then have "batch_step sample_floats sample_env [sample_call] b ?b"
    by (intro step_attempt) (simp_all add: err b(2))
  with b(1) have reach: "batch_reach sample_floats sample_env [sample_call] sample_batch ?b" by (rule reach_step)
  have acc: "accepted_calls sample_executor [sample_call] = [sample_call]"
    by (simp add: accepted_calls_def sample_executor_def new_executor_def capped_def sample_env_def)
  have "find_tool (bt_ex b) (PStr ''t'') = Inr (Some (''t'', sample_tool))"
    using sample_limits [OF inv] by (simp add: find_tool_def)
  then have "\<exists>ex'. finish_batch sample_floats sample_env [sample_call] (bt_ex b) [sample_result] = Inr (ex', [sample_result])"
    using sample_limits [OF inv] sample_annotations_of sample_size
    by (simp add: finish_batch_def Let_def charge_one_def over_budget_def metric_check_def sample_result_def find_tool_def)
  then obtain ex' where "finish_batch sample_floats sample_env [sample_call] (bt_ex ?b)
      (map (the \<circ> slot_result) (bt_slots ?b)) = Inr (ex', [sample_result])"
    by (auto simp: b(2) slot_result_def)
  then have "execute_batch sample_floats sample_env [sample_call] sample_executor (new_breaker 5 30) 0 ex' (bt_br ?b) [sample_result]"
    by (intro batch_run) (use reach acc err in \<open>simp_all add: sample_batch_def batch_done_def b(2) slot_result_def\<close>)
  then show ?thesis by blast
qed

theorem batch_results_in_order_witness:
  "\<exists>ex' br'. execute_batch sample_floats sample_env [sample_call] sample_executor (new_breaker 5 30) 0 ex' br' [sample_result] \<and>
     map (\<lambda>r. (tr_id r, tr_name r)) [sample_result] = map (\<lambda>c. (tc_id c, tc_name c)) [sample_call]"
  using sample_run batch_results_in_order by blast

text \<open>C14 Up to every result that is not cut for its size, the results of a batch take at most the
  bytes of the turn's budget, and with what earlier batches used at most the request's.\<close>

theorem batch_within_budget:
  assumes "execute_batch fo env calls ex br now ex' br' rs" and "i < length rs"
    and "tr_status (rs ! i) \<noteq> ''budget_exceeded''"
  shows "turn_bytes fo (take (Suc i) rs) \<le> ex_turn_budget ex \<and>
    ex_bytes_used ex + turn_bytes fo (take (Suc i) rs) \<le> ex_request_budget ex"
  using assms(1)
proof (cases rule: execute_batch.cases)
  case batch_empty
  with assms(2) show ?thesis by simp
next
  case (batch_run b)
  have "same_limits ex (bt_ex b)" using new_batch_inv [OF batch_run(3)] by (simp add: batch_inv_def)
  then have "ex_turn_budget (bt_ex b) = ex_turn_budget ex" "ex_request_budget (bt_ex b) = ex_request_budget ex"
    "ex_bytes_used (bt_ex b) = ex_bytes_used ex"
    by (cases ex; cases "bt_ex b"; simp add: same_limits_def)+
  with charge_results_budget [OF batch_run(5) [unfolded finish_batch_def Let_def] assms(2,3)]
  show ?thesis by simp
qed

theorem batch_within_budget_witness:
  "turn_bytes sample_floats (take (Suc 0) [sample_result]) \<le> 2048"
proof -
  obtain ex' br' where run: "execute_batch sample_floats sample_env [sample_call] sample_executor (new_breaker 5 30) 0
      ex' br' [sample_result]" using sample_run by blast
  have "ex_turn_budget sample_executor = 2048" using sample_limits [of sample_executor] by simp
  with batch_within_budget [OF run, of 0] show ?thesis by (simp add: sample_result_def)
qed

text \<open>C15 The breaker refuses a tool only after as many failures in a row as its threshold, all within
  one reset interval that ended less than a reset interval ago.\<close>

theorem breaker_refuses_only_failing:
  assumes "breaker_run threshold reset tr b t" and "t \<le> now" and "\<not> fst (breaker_allow now n b)"
  shows "\<exists>last. last \<le> now \<and> now - last < reset \<and> threshold \<le> length (window reset last (fails_since n tr))"
proof -
  have inv: "br_reset b = reset"
    "name_inv threshold reset (od_getd (br_failures b) n []) (fails_since n tr) (od_get (br_opened b) n) t"
    using breaker_run_inv [OF assms(1)] by (simp_all add: breaker_inv_def)
  from assms(3) obtain last where "od_get (br_opened b) n = Some last" "now - last < br_reset b"
    by (auto simp: breaker_allow_def split: option.splits if_splits)
  with inv assms(2) show ?thesis by (intro exI [of _ last]) (auto simp: name_inv_def)
qed

theorem breaker_refuses_only_failing_witness:
  "\<exists>last. last \<le> 5 \<and> 5 - last < 30 \<and> 2 \<le> length (window 30 last (fails_since ''t'' [(2, ''t'', False), (1, ''t'', False)]))"
proof (rule breaker_refuses_only_failing)
  show "breaker_run 2 30 [(2, ''t'', False), (1, ''t'', False)]
      (breaker_failure 2 ''t'' (breaker_failure 1 ''t'' (new_breaker 2 30))) 2"
    by (intro run_failure [OF run_failure [OF run_new [of _ _ 0]]]) simp_all
  show "\<not> fst (breaker_allow 5 ''t'' (breaker_failure 2 ''t'' (breaker_failure 1 ''t'' (new_breaker 2 30))))"
    by (simp add: breaker_failure_def breaker_allow_def new_breaker_def Let_def)
qed simp

text \<open>As many failures as the threshold, within one reset interval, open the breaker for the tool;
  it then refuses the tool until a reset interval has passed since the last of them, and lets
  it through after that.\<close>

theorem breaker_opens_and_resets:
  assumes "sorted ts" and "\<forall>u\<in>set ts. last ts - u \<le> br_reset b" and "br_threshold b \<le> length ts"
    and "0 < br_threshold b" and "od_getd (br_failures b) n [] = []"
  shows "fst (breaker_allow now n (foldl (\<lambda>b t. breaker_failure t n b) b ts)) \<longleftrightarrow> br_reset b \<le> now - last ts"
proof -
  have ne: "ts \<noteq> []" using assms(3,4) by auto
  have "od_get (br_opened (foldl (\<lambda>b t. breaker_failure t n b) b ts)) n = Some (last ts)"
    by (rule failures_fold [of "[]"]) (use assms ne in simp_all)
  moreover have "br_reset (foldl (\<lambda>b t. breaker_failure t n b) b ts) = br_reset b"
    by (induction ts arbitrary: b) (simp_all add: breaker_failure_def Let_def)
  ultimately show ?thesis by (simp add: breaker_allow_def)
qed

theorem breaker_opens_and_resets_witness:
  "fst (breaker_allow 31 ''t'' (foldl (\<lambda>b t. breaker_failure t ''t'' b) (new_breaker 2 30) [1, 2])) \<longleftrightarrow> (30::int) \<le> 31 - 2"
  using breaker_opens_and_resets [of "[1, 2]" "new_breaker 2 30" "''t''" 31] by (simp add: new_breaker_def)

end
