(* ===== verification/Tool_Protocol.thy ===== *)
theory Tool_Protocol
  imports Tool_Executor
begin

text \<open>
  \<^verbatim>\<open>backend/openlaunch/utils/tool_protocol.py\<close>: reading the tool calls out of a provider's
  response and writing the executor's results in the provider's format.
\<close>

section \<open>Reading calls\<close>

text \<open>\<^verbatim>\<open>v[0]\<close>\<close>

definition pfirst :: "pv \<Rightarrow> pv res" where
  "pfirst v = (case v of
      PList [] \<Rightarrow> Inl IndexError
    | PList (x # xs) \<Rightarrow> Inr x
    | PStr [] \<Rightarrow> Inl IndexError
    | PStr (c # s) \<Rightarrow> Inr (PStr [c])
    | PDict d \<Rightarrow> Inl (KeyError ''0'')
    | _ \<Rightarrow> Inl TypeError)"

definition chat_call :: "pv \<Rightarrow> tool_call res" where
  "chat_call call =
     rbind (pget call ''id'' (PStr [])) (\<lambda>i.
     rbind (rbind (pget call ''function'' (PDict [])) (\<lambda>f. pget f ''name'' (PStr []))) (\<lambda>n.
     rbind (rbind (pget call ''function'' (PDict [])) (\<lambda>f. pget f ''arguments'' (PStr ''{}''))) (\<lambda>a.
       Inr \<lparr>tc_id = i, tc_name = n, tc_arguments = a\<rparr>)))"

definition chat_calls :: "pdict \<Rightarrow> tool_call list res" where
  "chat_calls payload =
     rbind (if truthy (od_getd payload ''tool_calls'' PNone) then Inr (od_getd payload ''tool_calls'' PNone)
            else rbind (pfirst (od_getd payload ''choices'' (PList [PDict []]))) (\<lambda>c.
                 rbind (pget c ''message'' (PDict [])) (\<lambda>m. pget m ''tool_calls'' (PList []))))
       (\<lambda>calls. rbind (piter calls) (rmapM chat_call))"

text \<open>The items of a list whose type is the given one\<close>

definition items_of_type :: "string \<Rightarrow> pv \<Rightarrow> pv list res" where
  "items_of_type t v = rbind (piter v) (rfilterM (\<lambda>item. rmap (\<lambda>x. x = PStr t) (pget item ''type'' PNone)))"

definition response_call :: "pv \<Rightarrow> tool_call res" where
  "response_call item =
     rbind (pget item ''call_id'' PNone) (\<lambda>c.
     rbind (if truthy c then Inr c else pget item ''id'' (PStr [])) (\<lambda>i.
     rbind (pget item ''name'' (PStr [])) (\<lambda>n.
     rbind (pget item ''arguments'' (PStr ''{}'')) (\<lambda>a.
       Inr \<lparr>tc_id = i, tc_name = n, tc_arguments = a\<rparr>))))"

definition anthropic_call :: "pv \<Rightarrow> tool_call res" where
  "anthropic_call item =
     rbind (pget item ''id'' (PStr [])) (\<lambda>i.
     rbind (pget item ''name'' (PStr [])) (\<lambda>n.
     rbind (pget item ''input'' (PDict [])) (\<lambda>a.
       Inr \<lparr>tc_id = i, tc_name = n, tc_arguments = a\<rparr>)))"

definition unsupported :: py_error where
  "unsupported = ValueError ''Unsupported tool protocol.''"

definition normalize_provider_calls :: "string \<Rightarrow> pdict \<Rightarrow> tool_call list res" where
  "normalize_provider_calls provider payload =
     (if provider = ''openai_chat'' then chat_calls payload
      else if provider = ''openai_responses'' then
        rbind (items_of_type ''function_call'' (od_getd payload ''output'' (PList []))) (rmapM response_call)
      else if provider = ''anthropic'' then
        rbind (items_of_type ''tool_use'' (od_getd payload ''content'' (PList []))) (rmapM anthropic_call)
      else Inl unsupported)"

section \<open>Writing results\<close>

definition result_text :: "float_ops \<Rightarrow> tool_result \<Rightarrow> pv" where
  "result_text fo r = PStr (json_dumps True (fl_repr fo) (tr_content r))"

definition anthropic_result :: "float_ops \<Rightarrow> tool_result \<Rightarrow> pv" where
  "anthropic_result fo r =
     PDict [(''type'', PStr ''tool_result''), (''tool_use_id'', tr_id r), (''content'', result_text fo r),
            (''is_error'', PBool (tr_status r \<noteq> ''success''))]"

definition format_provider_results :: "float_ops \<Rightarrow> string \<Rightarrow> tool_result list \<Rightarrow> pv list res" where
  "format_provider_results fo provider results =
     (if provider = ''openai_chat'' then
        Inr (map (\<lambda>r. PDict [(''role'', PStr ''tool''), (''tool_call_id'', tr_id r), (''content'', result_text fo r)]) results)
      else if provider = ''openai_responses'' then
        Inr (map (\<lambda>r. PDict [(''type'', PStr ''function_call_output''), (''call_id'', tr_id r),
                             (''output'', result_text fo r), (''status'', PStr ''completed'')]) results)
      else if provider = ''anthropic'' then
        Inr [PDict [(''role'', PStr ''user''), (''content'', PList (map (anthropic_result fo) results))]]
      else Inl unsupported)"

section \<open>What a provider reads back\<close>

text \<open>The places that a provider's format has for the results: their id and their JSON text.\<close>

definition result_places :: "string \<Rightarrow> pv list \<Rightarrow> (pv \<times> pv) list" where
  "result_places provider out =
     (if provider = ''openai_chat'' then
        map (\<lambda>m. case m of PDict d \<Rightarrow> (od_getd d ''tool_call_id'' PNone, od_getd d ''content'' PNone) | _ \<Rightarrow> (PNone, PNone)) out
      else if provider = ''openai_responses'' then
        map (\<lambda>m. case m of PDict d \<Rightarrow> (od_getd d ''call_id'' PNone, od_getd d ''output'' PNone) | _ \<Rightarrow> (PNone, PNone)) out
      else (case out of
          [PDict d] \<Rightarrow> (case od_getd d ''content'' PNone of
              PList xs \<Rightarrow> map (\<lambda>m. case m of PDict b \<Rightarrow> (od_getd b ''tool_use_id'' PNone, od_getd b ''content'' PNone)
                                   | _ \<Rightarrow> (PNone, PNone)) xs
            | _ \<Rightarrow> [])
        | _ \<Rightarrow> []))"

text \<open>Reading the text of a place with a JSON parser\<close>

definition read_place :: "float_ops \<Rightarrow> pv \<times> pv \<Rightarrow> pv \<times> pv res" where
  "read_place fo p = (fst p, (case snd p of PStr s \<Rightarrow> json_loads (fl_read fo) s | _ \<Rightarrow> Inl TypeError))"

lemma read_result_text:
  "json_plain (tr_content r) \<Longrightarrow> read_place fo (i, result_text fo r) = (i, Inr (tr_content r))"
  by (simp add: read_place_def result_text_def json_loads_dumps)

text \<open>For each supported provider, what the formatter writes holds the id and the content of every
  result, in order: a JSON parser reads the contents back unchanged. Other providers are refused.\<close>

theorem formatted_results_read_back:
  assumes "\<forall>r\<in>set results. json_plain (tr_content r)"
  shows "(case format_provider_results fo provider results of
      Inr out \<Rightarrow> map (read_place fo) (result_places provider out) = map (\<lambda>r. (tr_id r, Inr (tr_content r))) results
    | Inl e \<Rightarrow> provider \<notin> {''openai_chat'', ''openai_responses'', ''anthropic''} \<and> e = ValueError ''Unsupported tool protocol.'')"
proof -
  consider "provider = ''openai_chat''" | "provider = ''openai_responses''" | "provider = ''anthropic''"
    | "provider \<notin> {''openai_chat'', ''openai_responses'', ''anthropic''}" by blast
  then show ?thesis
  proof cases
    case 1
    with assms show ?thesis by (simp add: format_provider_results_def result_places_def read_result_text)
  next
    case 2
    with assms show ?thesis by (simp add: format_provider_results_def result_places_def read_result_text)
  next
    case 3
    with assms show ?thesis
      by (simp add: format_provider_results_def result_places_def anthropic_result_def read_result_text)
  next
    case 4
    then show ?thesis by (simp add: format_provider_results_def unsupported_def)
  qed
qed

theorem formatted_results_read_back_witness:
  "(case format_provider_results sample_floats ''anthropic'' [sample_result] of
      Inr out \<Rightarrow> map (read_place sample_floats) (result_places ''anthropic'' out) = [(PStr ''c1'', Inr (PStr ''ok''))]
    | Inl e \<Rightarrow> ''anthropic'' \<notin> {''openai_chat'', ''openai_responses'', ''anthropic''} \<and> e = ValueError ''Unsupported tool protocol.'')"
  using formatted_results_read_back [where results = "[sample_result]" and fo = sample_floats and provider = "''anthropic''"]
  by (simp add: sample_result_def split: sum.splits)

end
