(* ===== verification/Rate_Limit.thy ===== *)
theory Rate_Limit
  imports Py_Value
begin

text \<open>
  \<^verbatim>\<open>backend/openlaunch/utils/rate_limit.py\<close>: the rolling-window limiter over buckets of time,
  in memory and over Redis, with the fallback to memory when a Redis command raises. The
  commands of Redis are arguments; a command that raises gives None. \<^verbatim>\<open>int(time.time())\<close> is
  the argument \<open>now\<close>.
\<close>

section \<open>The limiter\<close>

record limiter =
  rl_limit :: int
  rl_window :: int
  rl_bucket_size :: int
  rl_enabled :: bool
  rl_prefix :: string

definition num_buckets :: "limiter \<Rightarrow> int" where
  "num_buckets l = rl_window l div rl_bucket_size l"

definition current_bucket :: "limiter \<Rightarrow> int \<Rightarrow> int" where
  "current_bucket l now = now div rl_bucket_size l"

definition bucket_key :: "limiter \<Rightarrow> string \<Rightarrow> int \<Rightarrow> string" where
  "bucket_key l key i = rl_prefix l @ '':ratelimit:'' @ py_lower key @ '':'' @ py_str_int i"

type_synonym buckets = "(int, int) od"
type_synonym memory_store = "(string, buckets) od"

definition drop_expired :: "int \<Rightarrow> buckets \<Rightarrow> buckets" where
  "drop_expired least store = filter (\<lambda>(b, n). \<not> b < least) store"

definition total :: "buckets \<Rightarrow> int" where
  "total store = sum_list (map snd store)"

definition is_limited_memory :: "limiter \<Rightarrow> int \<Rightarrow> string \<Rightarrow> memory_store \<Rightarrow> bool \<times> memory_store" where
  "is_limited_memory l now key mem =
     (let cur = current_bucket l now;
          store = od_getd mem key [];
          store' = drop_expired (cur - num_buckets l) (od_set cur (od_getd store cur 0 + 1) store)
      in (total store' > rl_limit l, od_set key store' mem))"

definition get_count_memory :: "limiter \<Rightarrow> int \<Rightarrow> string \<Rightarrow> memory_store \<Rightarrow> int \<times> memory_store" where
  "get_count_memory l now key mem =
     (case od_get mem key of
        None \<Rightarrow> (0, mem)
      | Some store \<Rightarrow>
         (let store' = drop_expired (current_bucket l now - num_buckets l) store
          in (total store', od_set key store' mem)))"

text \<open>Redis: increment, expiry and a multiple get\<close>

record 'r redis_counter =
  rc_incr :: "string \<Rightarrow> 'r \<Rightarrow> (int \<times> 'r) option"
  rc_expire :: "string \<Rightarrow> int \<Rightarrow> 'r \<Rightarrow> 'r option"
  rc_mget :: "string list \<Rightarrow> 'r \<Rightarrow> string option list option"

definition bucket_keys :: "limiter \<Rightarrow> int \<Rightarrow> string \<Rightarrow> string list" where
  "bucket_keys l now key =
     map (\<lambda>i. bucket_key l key (current_bucket l now - i)) [0..num_buckets l]"

text \<open>\<^verbatim>\<open>sum(int(c) for c in counts if c)\<close>: a count that is no number raises.\<close>

fun sum_counts :: "string option list \<Rightarrow> int option" where
  "sum_counts [] = Some 0"
| "sum_counts (None # cs) = sum_counts cs"
| "sum_counts (Some c # cs) =
     (if c = [] then sum_counts cs
      else (case (int_of_str c, sum_counts cs) of (Some n, Some m) \<Rightarrow> Some (n + m) | _ \<Rightarrow> None))"

definition get_count_redis :: "'r redis_counter \<Rightarrow> limiter \<Rightarrow> int \<Rightarrow> string \<Rightarrow> 'r \<Rightarrow> int option" where
  "get_count_redis ops l now key r =
     (case rc_mget ops (bucket_keys l now key) r of None \<Rightarrow> None | Some counts \<Rightarrow> sum_counts counts)"

text \<open>The state that the commands before a failing one leave is kept.\<close>

definition is_limited_redis :: "'r redis_counter \<Rightarrow> limiter \<Rightarrow> int \<Rightarrow> string \<Rightarrow> 'r \<Rightarrow> bool option \<times> 'r" where
  "is_limited_redis ops l now key r =
     (let bk = bucket_key l key (current_bucket l now)
      in case rc_incr ops bk r of
           None \<Rightarrow> (None, r)
         | Some (attempts, r1) \<Rightarrow>
            (case (if attempts = 1 then rc_expire ops bk (rl_window l + rl_bucket_size l) r1 else Some r1) of
               None \<Rightarrow> (None, r1)
             | Some r2 \<Rightarrow> (map_option (\<lambda>n. n > rl_limit l) (get_count_redis ops l now key r2), r2)))"

definition is_limited ::
  "'r redis_counter option \<Rightarrow> limiter \<Rightarrow> int \<Rightarrow> string \<Rightarrow> memory_store \<times> 'r \<Rightarrow> bool \<times> memory_store \<times> 'r" where
  "is_limited client l now key s =
     (if \<not> rl_enabled l then (False, s)
      else (case client of
          None \<Rightarrow> (let (b, mem) = is_limited_memory l now key (fst s) in (b, mem, snd s))
        | Some ops \<Rightarrow>
           (case is_limited_redis ops l now key (snd s) of
              (Some b, r) \<Rightarrow> (b, fst s, r)
            | (None, r) \<Rightarrow> (let (b, mem) = is_limited_memory l now key (fst s) in (b, mem, r)))))"

definition get_count ::
  "'r redis_counter option \<Rightarrow> limiter \<Rightarrow> int \<Rightarrow> string \<Rightarrow> memory_store \<times> 'r \<Rightarrow> int \<times> memory_store \<times> 'r" where
  "get_count client l now key s =
     (if \<not> rl_enabled l then (0, s)
      else (case client of
          None \<Rightarrow> (let (n, mem) = get_count_memory l now key (fst s) in (n, mem, snd s))
        | Some ops \<Rightarrow>
           (case get_count_redis ops l now key (snd s) of
              Some n \<Rightarrow> (n, s)
            | None \<Rightarrow> (let (n, mem) = get_count_memory l now key (fst s) in (n, mem, snd s)))))"

definition remaining ::
  "'r redis_counter option \<Rightarrow> limiter \<Rightarrow> int \<Rightarrow> string \<Rightarrow> memory_store \<times> 'r \<Rightarrow> int \<times> memory_store \<times> 'r" where
  "remaining client l now key s =
     (let (used, s') = get_count client l now key s in (max 0 (rl_limit l - used), s'))"

section \<open>Runs of the memory limiter\<close>

text \<open>The attempts so far, newest first, and the time of the last call; counts are also asked for
  in between.\<close>

inductive memory_run :: "limiter \<Rightarrow> (int \<times> string) list \<Rightarrow> memory_store \<Rightarrow> int \<Rightarrow> bool" for l where
  run_start: "memory_run l [] [] now"
| run_limited: "memory_run l tr mem t \<Longrightarrow> t \<le> now \<Longrightarrow>
    memory_run l ((now, key) # tr) (snd (is_limited_memory l now key mem)) now"
| run_count: "memory_run l tr mem t \<Longrightarrow> t \<le> now \<Longrightarrow>
    memory_run l tr (snd (get_count_memory l now key mem)) now"

text \<open>The attempts of a key in a bucket, and in the buckets from a given one on\<close>

definition in_bucket :: "limiter \<Rightarrow> (int \<times> string) list \<Rightarrow> string \<Rightarrow> int \<Rightarrow> int" where
  "in_bucket l tr key b = int (length (filter (\<lambda>(t, k). k = key \<and> current_bucket l t = b) tr))"

definition since_bucket :: "limiter \<Rightarrow> (int \<times> string) list \<Rightarrow> string \<Rightarrow> int \<Rightarrow> int" where
  "since_bucket l tr key b = int (length (filter (\<lambda>(t, k). k = key \<and> b \<le> current_bucket l t) tr))"

text \<open>The buckets of a key hold exactly its attempts from some bucket on that no later call looks
  behind.\<close>

definition store_exact :: "limiter \<Rightarrow> (int \<times> string) list \<Rightarrow> string \<Rightarrow> int \<Rightarrow> buckets \<Rightarrow> bool" where
  "store_exact l tr key t store =
     (od_ok store \<and> (\<exists>low \<le> current_bucket l t - num_buckets l.
        (\<forall>b. od_getd store b 0 = (if low \<le> b then in_bucket l tr key b else 0))) \<and>
      (\<forall>b\<in>fst ` set store. b \<le> current_bucket l t))"

definition store_inv :: "limiter \<Rightarrow> (int \<times> string) list \<Rightarrow> memory_store \<Rightarrow> int \<Rightarrow> bool" where
  "store_inv l tr mem t =
     ((\<forall>key. store_exact l tr key t (od_getd mem key [])) \<and> (\<forall>e\<in>set tr. fst e \<le> t))"

lemma drop_expired_getd: "od_getd (drop_expired b store) k v = (if b \<le> k then od_getd store k v else v)"
  by (induction store) (auto simp: drop_expired_def)

lemma drop_expired_ok: "od_ok store \<Longrightarrow> od_ok (drop_expired b store)"
  by (simp add: od_ok_def drop_expired_def)

lemma drop_expired_keys: "fst ` set (drop_expired b store) = {k \<in> fst ` set store. b \<le> k}"
  by (auto simp: drop_expired_def)

lemma drop_expired_bounds:
  assumes "b \<in> fst ` set (drop_expired lo store)" and "\<forall>b\<in>fst ` set store. b \<le> hi"
  shows "lo \<le> b" and "b \<le> hi"
  using assms unfolding drop_expired_keys by blast+

lemma current_bucket_mono: "0 < rl_bucket_size l \<Longrightarrow> t \<le> now \<Longrightarrow> current_bucket l t \<le> current_bucket l now"
  by (simp add: current_bucket_def zdiv_mono1)

text \<open>The sum of exact buckets is the number of attempts in them.\<close>

lemma count_Cons: "in_bucket l ((t, k) # tr) key b = in_bucket l tr key b + (if k = key \<and> current_bucket l t = b then 1 else 0)"
  by (simp add: in_bucket_def)

lemma since_Cons: "since_bucket l ((t, k) # tr) key b = since_bucket l tr key b + (if k = key \<and> b \<le> current_bucket l t then 1 else 0)"
  by (simp add: since_bucket_def)

lemma since_sum:
  assumes "\<forall>e\<in>set tr. current_bucket l (fst e) \<le> hi"
  shows "since_bucket l tr key lo = (\<Sum>b\<in>{lo..hi}. in_bucket l tr key b)"
  using assms
proof (induction tr)
  case Nil
  then show ?case by (simp add: since_bucket_def in_bucket_def)
next
  case (Cons e tr)
  obtain t k where e: "e = (t, k)" by (cases e)
  have "(\<Sum>b\<in>{lo..hi}. in_bucket l (e # tr) key b) =
      (\<Sum>b\<in>{lo..hi}. in_bucket l tr key b) + (\<Sum>b\<in>{lo..hi}. if k = key \<and> current_bucket l t = b then 1 else 0)"
    by (simp add: e count_Cons sum.distrib)
  also have "(\<Sum>b\<in>{lo..hi}. if k = key \<and> current_bucket l t = b then 1 else 0) =
      (if k = key \<and> lo \<le> current_bucket l t then 1 else (0::int))"
    using Cons.prems e by (cases "k = key") (simp_all add: sum.delta)
  finally show ?case using Cons by (simp add: e since_Cons)
qed

lemma total_sum:
  assumes "od_ok store" and "fst ` set store \<subseteq> {lo..hi}"
  shows "total store = (\<Sum>b\<in>{lo..hi}. od_getd store b 0)"
  using assms
proof (induction store)
  case Nil
  then show ?case by (simp add: total_def)
next
  case (Cons bn store)
  obtain b n where bn: "bn = (b, n)" by (cases bn)
  have fresh: "od_getd store b 0 = (0::int)" using Cons.prems(1) bn
    by (simp add: od_ok_def od_getd_def map_of_eq_None_iff [symmetric])
  have "(\<Sum>c\<in>{lo..hi}. od_getd (bn # store) c 0) = (\<Sum>c\<in>{lo..hi}. (if c = b then n else 0) + od_getd store c 0)"
    by (rule sum.cong) (auto simp: bn fresh)
  also have "\<dots> = n + (\<Sum>c\<in>{lo..hi}. od_getd store c 0)"
    using Cons.prems(2) bn by (simp add: sum.distrib sum.delta)
  finally show ?case using Cons bn by (simp add: total_def od_ok_def)
qed

lemma exact_total:
  assumes "store_exact l tr key t store" and "0 < rl_bucket_size l" and "t \<le> now" and "\<forall>e\<in>set tr. fst e \<le> t"
  shows "total (drop_expired (current_bucket l now - num_buckets l) store) =
    since_bucket l tr key (current_bucket l now - num_buckets l)"
proof -
  let ?lo = "current_bucket l now - num_buckets l" and ?hi = "current_bucket l now"
  have hi: "current_bucket l t \<le> ?hi" by (rule current_bucket_mono [OF assms(2,3)])
  from assms(1) obtain low where low: "od_ok store" "low \<le> current_bucket l t - num_buckets l"
    "\<And>b. od_getd store b 0 = (if low \<le> b then in_bucket l tr key b else 0)"
    "\<forall>b\<in>fst ` set store. b \<le> current_bucket l t"
    by (auto simp: store_exact_def)
  have "total (drop_expired ?lo store) = (\<Sum>b\<in>{?lo..?hi}. od_getd (drop_expired ?lo store) b 0)"
  proof (rule total_sum [OF drop_expired_ok [OF low(1)]])
    show "fst ` set (drop_expired ?lo store) \<subseteq> {?lo..?hi}"
      using drop_expired_bounds [OF _ low(4), of _ ?lo] hi by (intro subsetI) force
  qed
  also have "\<dots> = (\<Sum>b\<in>{?lo..?hi}. in_bucket l tr key b)"
    by (rule sum.cong) (use low(2,3) hi in \<open>auto simp: drop_expired_getd\<close>)
  also have "\<dots> = since_bucket l tr key ?lo"
    by (rule since_sum [symmetric]) (use assms(2,4) current_bucket_mono order_trans hi in blast)
  finally show ?thesis .
qed

lemma exact_drop:
  assumes "store_exact l tr key t store" and "0 < rl_bucket_size l" and "t \<le> now"
  shows "store_exact l tr key now (drop_expired (current_bucket l now - num_buckets l) store)"
proof -
  have hi: "current_bucket l t \<le> current_bucket l now" by (rule current_bucket_mono [OF assms(2,3)])
  from assms(1) obtain low where low: "od_ok store" "low \<le> current_bucket l t - num_buckets l"
    "\<And>b. od_getd store b 0 = (if low \<le> b then in_bucket l tr key b else 0)"
    "\<forall>b\<in>fst ` set store. b \<le> current_bucket l t"
    by (auto simp: store_exact_def)
  have keys: "\<forall>b\<in>fst ` set (drop_expired (current_bucket l now - num_buckets l) store). b \<le> current_bucket l now"
    using drop_expired_bounds(2) [OF _ low(4)] hi by (intro ballI) (rule order_trans)
  show ?thesis unfolding store_exact_def
    by (intro conjI exI [of _ "current_bucket l now - num_buckets l"] keys)
      (use low(1-3) hi in \<open>simp_all add: drop_expired_ok drop_expired_getd\<close>)
qed

lemma exact_later:
  assumes "store_exact l tr key t store" and "0 < rl_bucket_size l" and "t \<le> now"
  shows "store_exact l tr key now store"
proof -
  have "current_bucket l t \<le> current_bucket l now" by (rule current_bucket_mono [OF assms(2,3)])
  with assms(1) show ?thesis unfolding store_exact_def by (meson diff_right_mono order_trans)
qed

lemma exact_count:
  assumes "store_exact l tr key now store" and "0 \<le> num_buckets l"
  shows "store_exact l ((now, key) # tr) key now
    (od_set (current_bucket l now) (od_getd store (current_bucket l now) 0 + 1) store)"
proof -
  let ?cur = "current_bucket l now"
  from assms(1) obtain low where low: "od_ok store" "low \<le> ?cur - num_buckets l"
    "\<And>b. od_getd store b 0 = (if low \<le> b then in_bucket l tr key b else 0)"
    "\<forall>b\<in>fst ` set store. b \<le> ?cur"
    by (auto simp: store_exact_def)
  have "low \<le> ?cur" using low(2) assms(2) by simp
  then have "od_getd (od_set ?cur (od_getd store ?cur 0 + 1) store) b 0 =
      (if low \<le> b then in_bucket l ((now, key) # tr) key b else 0)" for b
    using low(3) by (auto simp: count_Cons)
  moreover have "fst ` set (od_set ?cur (od_getd store ?cur 0 + 1) store) = insert ?cur (fst ` set store)"
    using dom_update [of ?cur _ store] by (simp add: dom_map_of_conv_image_fst)
  ultimately show ?thesis using low by (auto simp: store_exact_def)
qed

lemma exact_other: "k \<noteq> key \<Longrightarrow> store_exact l ((now, k) # tr) key t store = store_exact l tr key t store"
  by (simp add: store_exact_def count_Cons)

lemma memory_run_inv:
  "memory_run l tr mem t \<Longrightarrow> 0 < rl_bucket_size l \<Longrightarrow> 0 \<le> num_buckets l \<Longrightarrow> store_inv l tr mem t"
proof (induction rule: memory_run.induct)
  case (run_start now)
  then show ?case by (auto simp: store_inv_def store_exact_def in_bucket_def intro: exI [of _ "current_bucket l now - num_buckets l"])
next
  case (run_limited tr mem t now key)
  then have IH: "\<And>k. store_exact l tr k t (od_getd mem k [])" "\<forall>e\<in>set tr. fst e \<le> t" by (auto simp: store_inv_def)
  have later: "store_exact l tr k now (od_getd mem k [])" for k
    by (rule exact_later [OF IH(1) run_limited.prems(1) run_limited.hyps(2)])
  have "store_exact l ((now, key) # tr) k now (od_getd (snd (is_limited_memory l now key mem)) k [])" for k
  proof (cases "k = key")
    case True
    with exact_drop [OF exact_count [OF later run_limited.prems(2)] run_limited.prems(1) order_refl] show ?thesis
      by (simp add: is_limited_memory_def Let_def)
  next
    case False
    with later show ?thesis by (simp add: is_limited_memory_def Let_def exact_other)
  qed
  with IH(2) run_limited.hyps(2) show ?case by (auto simp: store_inv_def)
next
  case (run_count tr mem t now key)
  then have IH: "\<And>k. store_exact l tr k t (od_getd mem k [])" "\<forall>e\<in>set tr. fst e \<le> t" by (auto simp: store_inv_def)
  have "store_exact l tr k now (od_getd (snd (get_count_memory l now key mem)) k [])" for k
    using exact_later [OF IH(1) run_count.prems(1) run_count.hyps(2), of k]
      exact_drop [OF IH(1) run_count.prems(1) run_count.hyps(2), of k]
    by (auto simp: get_count_memory_def Let_def od_getd_def split: option.splits)
  with IH(2) run_count.hyps(2) show ?case by (auto simp: store_inv_def)
qed

section \<open>Properties\<close>

text \<open>C16 After any run of the limiter in memory, an attempt is refused exactly when the attempts of
  its key in the current bucket and the \<open>num_buckets\<close> buckets before it, itself included, exceed the
  limit; the count asked for and what remains agree with that number.\<close>

theorem memory_limit_exact:
  assumes "memory_run l tr mem t" and "t \<le> now" and "0 < rl_bucket_size l" and "0 \<le> rl_window l"
  shows "fst (is_limited_memory l now key mem) =
      (rl_limit l < since_bucket l ((now, key) # tr) key (current_bucket l now - num_buckets l)) \<and>
    fst (get_count_memory l now key mem) = since_bucket l tr key (current_bucket l now - num_buckets l)"
proof -
  have n: "0 \<le> num_buckets l" using assms(3,4) by (simp add: num_buckets_def pos_imp_zdiv_nonneg_iff)
  have inv: "store_exact l tr key t (od_getd mem key [])" "\<forall>e\<in>set tr. fst e \<le> t"
    using memory_run_inv [OF assms(1,3) n] by (auto simp: store_inv_def)
  have "store_exact l ((now, key) # tr) key now
      (od_set (current_bucket l now) (od_getd (od_getd mem key []) (current_bucket l now) 0 + 1) (od_getd mem key []))"
    by (rule exact_count [OF exact_later [OF inv(1) assms(3,2)] n])
  from exact_total [OF this assms(3) order_refl] inv(2) assms(2)
  have 1: "fst (is_limited_memory l now key mem) =
      (rl_limit l < since_bucket l ((now, key) # tr) key (current_bucket l now - num_buckets l))"
    by (force simp: is_limited_memory_def Let_def)
  have "fst (get_count_memory l now key mem) = total (drop_expired (current_bucket l now - num_buckets l) (od_getd mem key []))"
    by (simp add: get_count_memory_def Let_def od_getd_def total_def drop_expired_def split: option.split)
  with exact_total [OF inv(1) assms(3,2) inv(2)] 1 show ?thesis by simp
qed

definition sample_limiter :: limiter where
  "sample_limiter = \<lparr>rl_limit = 1, rl_window = 180, rl_bucket_size = 60, rl_enabled = True, rl_prefix = ''ol''\<rparr>"

theorem memory_limit_exact_witness:
  "fst (is_limited_memory sample_limiter 200 ''a'' (snd (is_limited_memory sample_limiter 100 ''a'' []))) =
      (1 < since_bucket sample_limiter [(200, ''a''), (100, ''a'')] ''a'' 0)"
  using memory_limit_exact [OF run_limited [OF run_start [of sample_limiter 0], of 100 "''a''"], of 200 "''a''"]
  by (simp add: sample_limiter_def current_bucket_def num_buckets_def)

text \<open>When the window is a multiple of the bucket size, the attempts that count against the limit
  are among those less than a window and a bucket old, and include all those at most a window
  old.\<close>

theorem counted_window:
  assumes "0 < rl_bucket_size l" and "rl_window l = n * rl_bucket_size l"
  shows "(current_bucket l now - num_buckets l \<le> current_bucket l t \<longrightarrow> now - t < rl_window l + rl_bucket_size l) \<and>
    (now - t \<le> rl_window l \<longrightarrow> current_bucket l now - num_buckets l \<le> current_bucket l t)"
proof (intro conjI impI)
  let ?b = "rl_bucket_size l"
  have n: "num_buckets l = n" using assms by (simp add: num_buckets_def)
  have now: "?b * (now div ?b) \<le> now" "now < ?b * (now div ?b) + ?b" and t: "?b * (t div ?b) \<le> t" "t < ?b * (t div ?b) + ?b"
    using assms(1) by (simp_all add: pos_mod_sign mult_div_mod_eq [symmetric] minus_mod_eq_mult_div [symmetric])
  {
    assume "current_bucket l now - num_buckets l \<le> current_bucket l t"
    then have "now div ?b - n \<le> t div ?b" by (simp add: n current_bucket_def)
    then have "?b * (now div ?b - n) \<le> ?b * (t div ?b)" using assms(1) by (simp add: mult_le_cancel_left_pos)
    then have "?b * (now div ?b) \<le> ?b * (t div ?b) + n * ?b" by (simp add: algebra_simps)
    with now(2) t(1) assms(2) show "now - t < rl_window l + ?b" by linarith
  }
  {
    assume "now - t \<le> rl_window l"
    then have "now - n * ?b \<le> t" by (simp add: assms(2))
    then have "(now - n * ?b) div ?b \<le> t div ?b" using assms(1) by (rule zdiv_mono1)
    moreover have "(now - n * ?b) div ?b = now div ?b - n"
      using assms(1) div_mult_self1 [of ?b now "- n"] by simp
    ultimately show "current_bucket l now - num_buckets l \<le> current_bucket l t"
      by (simp add: n current_bucket_def)
  }
qed

theorem counted_window_witness:
  "(current_bucket sample_limiter 200 - num_buckets sample_limiter \<le> current_bucket sample_limiter 100 \<longrightarrow> 200 - (100::int) < 180 + 60) \<and>
    (200 - (100::int) \<le> 180 \<longrightarrow> current_bucket sample_limiter 200 - num_buckets sample_limiter \<le> current_bucket sample_limiter 100)"
  using counted_window [of sample_limiter 3 200 100] by (simp add: sample_limiter_def)

end
