(* ===== verification/Tasks.thy ===== *)
theory Tasks
  imports Py_Value
begin

text \<open>
  \<^verbatim>\<open>backend/openlaunch/tasks.py\<close> without Redis: the table of running tasks, the lists of tasks
  per item, creation, the clean-up that a finished task schedules, and stopping. A clean-up
  coroutine is queued when its task ends and runs at a later turn of the event loop, so the
  state has the queue of clean-ups that are still to run. The branches for Redis, which
  only send commands, are not modelled.
\<close>

section \<open>State\<close>

text \<open>A task is known with the item id that its clean-up callback captured.\<close>

record task_state =
  ts_tasks :: "(string, string option) od"
  ts_items :: "(string option, string list) od"
  ts_queue :: "(string \<times> string option) list"

definition no_tasks :: task_state where
  "no_tasks = \<lparr>ts_tasks = [], ts_items = [], ts_queue = []\<rparr>"

definition item_list :: "task_state \<Rightarrow> string option \<Rightarrow> string list" where
  "item_list st item = od_getd (ts_items st) item []"

lemma item_list_upd [simp]:
  "item_list (st\<lparr>ts_queue := q\<rparr>) item = item_list st item"
  "item_list (st\<lparr>ts_tasks := ts\<rparr>) item = item_list st item"
  by (simp_all add: item_list_def)

lemma queue_already_empty: "ts_queue (st :: task_state) = [] \<Longrightarrow> st\<lparr>ts_queue := []\<rparr> = st"
  by (cases st) simp

text \<open>The truth value of an optional string\<close>

definition given :: "string option \<Rightarrow> bool" where
  "given s = (s \<noteq> None \<and> s \<noteq> Some [])"

section \<open>Operations\<close>

definition create_task :: "string \<Rightarrow> string option \<Rightarrow> task_state \<Rightarrow> task_state" where
  "create_task tid item st =
     st\<lparr>ts_tasks := od_set tid item (ts_tasks st),
        ts_items := (if item_list st item \<noteq> []
                     then od_set item (item_list st item @ [tid]) (ts_items st)
                     else od_set item [tid] (ts_items st))\<rparr>"

definition cleanup_task :: "string \<Rightarrow> string option \<Rightarrow> task_state \<Rightarrow> task_state" where
  "cleanup_task tid item st =
     (let st1 = st\<lparr>ts_tasks := od_del tid (ts_tasks st)\<rparr>
      in if given item \<and> tid \<in> set (item_list st1 item)
         then (let rest = remove1 tid (item_list st1 item)
               in if rest = [] then st1\<lparr>ts_items := od_del item (ts_items st1)\<rparr>
                  else st1\<lparr>ts_items := od_set item rest (ts_items st1)\<rparr>)
         else st1)"

text \<open>A task ends: its callback queues the clean-up.\<close>

definition task_ends :: "string \<Rightarrow> string option \<Rightarrow> task_state \<Rightarrow> task_state" where
  "task_ends tid item st = st\<lparr>ts_queue := ts_queue st @ [(tid, item)]\<rparr>"

definition run_cleanup :: "task_state \<Rightarrow> task_state" where
  "run_cleanup st = (case ts_queue st of
      [] \<Rightarrow> st
    | (tid, item) # q \<Rightarrow> cleanup_task tid item (st\<lparr>ts_queue := q\<rparr>))"

definition list_tasks :: "task_state \<Rightarrow> string list" where
  "list_tasks st = od_keys (ts_tasks st)"

definition list_task_ids_by_item_id :: "string option \<Rightarrow> task_state \<Rightarrow> string list" where
  "list_task_ids_by_item_id item st = item_list st item"

definition has_active_tasks :: "string option \<Rightarrow> task_state \<Rightarrow> bool" where
  "has_active_tasks item st = (length (list_task_ids_by_item_id item st) > 0)"

definition get_active_chat_ids :: "string list \<Rightarrow> task_state \<Rightarrow> string list" where
  "get_active_chat_ids chats st = filter (\<lambda>c. has_active_tasks (Some c) st) chats"

text \<open>
  Stopping a task takes it out of the table, cancels it and waits for it; the \<open>n\<close> oldest queued
  clean-ups run during the wait, and the clean-up of the task itself is queued when it ends.
\<close>

definition stop_task :: "nat \<Rightarrow> string \<Rightarrow> task_state \<Rightarrow> task_state \<times> bool" where
  "stop_task n tid st = (case od_get (ts_tasks st) tid of
      None \<Rightarrow> (st, False)
    | Some item \<Rightarrow>
        (task_ends tid item ((run_cleanup ^^ n) (st\<lparr>ts_tasks := od_del tid (ts_tasks st)\<rparr>)), True))"

text \<open>The loop over the item's list goes by position through the list object that the clean-ups
  shorten. \<open>waits i\<close> is the number of clean-ups that run during the wait of round \<open>i\<close>.\<close>

lemma run_cleanup_length: "length (item_list (run_cleanup st) item) \<le> length (item_list st item)"
  by (auto simp: run_cleanup_def cleanup_task_def item_list_def Let_def length_remove1 split: list.split)

lemma run_cleanups_length: "length (item_list ((run_cleanup ^^ n) st) item) \<le> length (item_list st item)"
proof (induction n)
  case 0
  then show ?case by simp
next
  case (Suc n)
  then show ?case using run_cleanup_length [of "(run_cleanup ^^ n) st" item] by simp
qed

lemma stop_task_length: "length (item_list (fst (stop_task n tid st)) item) \<le> length (item_list st item)"
  using run_cleanups_length [of n "st\<lparr>ts_tasks := od_del tid (ts_tasks st)\<rparr>" item]
  by (simp add: stop_task_def task_ends_def item_list_def split: option.split)

function stop_loop :: "(nat \<Rightarrow> nat) \<Rightarrow> string option \<Rightarrow> nat \<Rightarrow> task_state \<Rightarrow> task_state \<times> string list \<times> bool" where
  "stop_loop waits item i st =
     (if i < length (item_list st item)
      then (let tid = item_list st item ! i; st' = fst (stop_task (waits i) tid st)
            in if snd (stop_task (waits i) tid st)
               then (let rest = stop_loop waits item (Suc i) st'
                     in (fst rest, tid # fst (snd rest), snd (snd rest)))
               else (st', [], False))
      else (st, [], True))"
  by pat_completeness auto
termination
  by (relation "measure (\<lambda>(waits, item, i, st). length (item_list st item) - i)")
    (auto intro!: diff_less_mono2 simp: Suc_diff_Suc [symmetric]
       intro: le_less_trans [OF diff_le_mono [OF stop_task_length]])

declare stop_loop.simps [simp del]

text \<open>The state afterwards, the tasks that were stopped, and the status that is reported\<close>

definition stop_item_tasks :: "(nat \<Rightarrow> nat) \<Rightarrow> string option \<Rightarrow> task_state \<Rightarrow> task_state \<times> string list \<times> bool" where
  "stop_item_tasks waits item st =
     (if list_task_ids_by_item_id item st = [] then (st, [], True) else stop_loop waits item 0 st)"

section \<open>What the loop visits\<close>

lemma drop_remove1: "set (drop n (remove1 x xs)) \<subseteq> set (drop n xs)"
proof (induction xs arbitrary: n)
  case Nil
  then show ?case by simp
next
  case (Cons y ys)
  show ?case
  proof (cases n)
    case 0
    then show ?thesis using set_remove1_subset [of x "y # ys"] by simp
  next
    case (Suc m)
    have "set (drop (Suc m) ys) \<subseteq> set (drop m ys)" by (rule set_drop_subset_set_drop) simp
    with Cons.IH [of m] Suc show ?thesis by auto
  qed
qed

lemma cleanup_list:
  "item_list (cleanup_task tid item st) it =
     (if it = item \<and> given item then remove1 tid (item_list st it) else item_list st it)"
  by (auto simp: cleanup_task_def item_list_def Let_def remove1_idem)

lemma cleanup_tasks: "ts_tasks (cleanup_task tid item st) = od_del tid (ts_tasks st)"
  by (simp add: cleanup_task_def Let_def)

lemma cleanup_queue: "ts_queue (cleanup_task tid item st) = ts_queue st"
  by (simp add: cleanup_task_def Let_def)

text \<open>What a number of clean-ups keep, for the item whose tasks are being stopped: the positions
  from \<open>i\<close> on lose nothing to others, and only queued tasks leave the table.\<close>

definition quiet :: "string option \<Rightarrow> task_state \<Rightarrow> task_state \<Rightarrow> bool" where
  "quiet item st st' =
     ((\<forall>i. set (drop i (item_list st' item)) \<subseteq> set (drop i (item_list st item))) \<and>
      (distinct (item_list st item) \<longrightarrow> distinct (item_list st' item)) \<and>
      set (ts_queue st') \<subseteq> set (ts_queue st) \<and>
      (\<forall>t. t \<notin> fst ` set (ts_queue st) \<longrightarrow> od_get (ts_tasks st') t = od_get (ts_tasks st) t))"

lemma quiet_refl: "quiet item st st"
  by (simp add: quiet_def)

lemma quiet_trans: "quiet item a b \<Longrightarrow> quiet item b c \<Longrightarrow> quiet item a c"
  unfolding quiet_def by (metis image_mono subset_iff)

lemma quiet_run: "quiet item st (run_cleanup st)"
proof (cases "ts_queue st")
  case Nil
  then show ?thesis by (simp add: run_cleanup_def quiet_refl)
next
  case (Cons e q)
  obtain tid it where e: "e = (tid, it)" by (cases e)
  show ?thesis
    using drop_remove1 [of _ tid "item_list st item"]
    by (auto simp: quiet_def run_cleanup_def Cons e cleanup_list cleanup_tasks cleanup_queue)
qed

lemma quiet_runs: "quiet item st ((run_cleanup ^^ n) st)"
  by (induction n) (auto intro: quiet_refl quiet_trans quiet_run)

lemma stop_task_quiet:
  assumes "od_get (ts_tasks st) tid = Some it"
  shows "\<exists>mid. quiet item (st\<lparr>ts_tasks := od_del tid (ts_tasks st)\<rparr>) mid \<and>
    stop_task n tid st = (mid\<lparr>ts_queue := ts_queue mid @ [(tid, it)]\<rparr>, True)"
  using assms quiet_runs by (auto simp: stop_task_def task_ends_def)

text \<open>The invariant of the loop at position \<open>i\<close>\<close>

definition loop_inv :: "string option \<Rightarrow> nat \<Rightarrow> task_state \<Rightarrow> bool" where
  "loop_inv item i st =
     (distinct (item_list st item) \<and>
      (\<forall>t\<in>set (drop i (item_list st item)). od_get (ts_tasks st) t = Some item \<and> t \<notin> fst ` set (ts_queue st)))"

lemma loop_inv_step:
  assumes "loop_inv item i st" and "i < length (item_list st item)"
    and "tid = item_list st item ! i" and "st' = fst (stop_task n tid st)"
  shows "snd (stop_task n tid st)" and "loop_inv item (Suc i) st'"
    and "set (drop (Suc i) (item_list st' item)) \<subseteq> set (drop (Suc i) (item_list st item))"
    and "t \<noteq> tid \<Longrightarrow> t \<notin> fst ` set (ts_queue st) \<Longrightarrow>
      od_get (ts_tasks st') t = od_get (ts_tasks st) t \<and> t \<notin> fst ` set (ts_queue st')"
proof -
  have "tid \<in> set (drop i (item_list st item))"
    using assms(2,3) by (metis Cons_nth_drop_Suc list.set_intros(1))
  with assms(1) have "od_get (ts_tasks st) tid = Some item" by (simp add: loop_inv_def)
  from stop_task_quiet [OF this] obtain mid where
    mid: "quiet item (st\<lparr>ts_tasks := od_del tid (ts_tasks st)\<rparr>) mid"
    "stop_task n tid st = (mid\<lparr>ts_queue := ts_queue mid @ [(tid, item)]\<rparr>, True)" by blast
  then have st': "st' = mid\<lparr>ts_queue := ts_queue mid @ [(tid, item)]\<rparr>" by (simp add: assms(4))
  have q: "\<And>j. set (drop j (item_list mid item)) \<subseteq> set (drop j (item_list st item))"
    "distinct (item_list st item) \<Longrightarrow> distinct (item_list mid item)" "set (ts_queue mid) \<subseteq> set (ts_queue st)"
    "\<And>t. t \<notin> fst ` set (ts_queue st) \<Longrightarrow> od_get (ts_tasks mid) t = od_get (od_del tid (ts_tasks st)) t"
    using mid(1) by (simp_all add: quiet_def)
  show "snd (stop_task n tid st)" by (simp add: mid(2))
  show sub: "set (drop (Suc i) (item_list st' item)) \<subseteq> set (drop (Suc i) (item_list st item))"
    using q(1) by (simp add: st')
  have frame: "od_get (ts_tasks st') u = od_get (ts_tasks st) u \<and> u \<notin> fst ` set (ts_queue st')"
    if "u \<noteq> tid" "u \<notin> fst ` set (ts_queue st)" for u
  proof -
    have "fst ` set (ts_queue mid) \<subseteq> fst ` set (ts_queue st)" by (rule image_mono [OF q(3)])
    with q(4) that show ?thesis by (simp add: st') blast
  qed
  then show "t \<noteq> tid \<Longrightarrow> t \<notin> fst ` set (ts_queue st) \<Longrightarrow>
      od_get (ts_tasks st') t = od_get (ts_tasks st) t \<and> t \<notin> fst ` set (ts_queue st')" by blast
  have "tid \<notin> set (drop (Suc i) (item_list st item))"
    using assms(1-3) unfolding loop_inv_def by (metis Cons_nth_drop_Suc distinct.simps(2) distinct_drop)
  moreover have "set (drop (Suc i) (item_list st item)) \<subseteq> set (drop i (item_list st item))"
    by (rule set_drop_subset_set_drop) simp
  moreover have "distinct (item_list st' item)"
    using q(2) assms(1) by (simp add: st' loop_inv_def)
  ultimately show "loop_inv item (Suc i) st'"
    using sub frame assms(1) unfolding loop_inv_def by (metis subset_iff)
qed

text \<open>The loop stops only tasks at its position or later, reports success, and leaves the rest.\<close>

lemma stop_loop_spec:
  "loop_inv item i st \<Longrightarrow>
     snd (snd (stop_loop waits item i st)) \<and>
     set (fst (snd (stop_loop waits item i st))) \<subseteq> set (drop i (item_list st item)) \<and>
     (\<forall>t. t \<notin> set (drop i (item_list st item)) \<longrightarrow> t \<notin> fst ` set (ts_queue st) \<longrightarrow>
        od_get (ts_tasks (fst (stop_loop waits item i st))) t = od_get (ts_tasks st) t)"
proof (induction waits item i st rule: stop_loop.induct)
  case (1 waits item i st)
  show ?case
  proof (cases "i < length (item_list st item)")
    case False
    then show ?thesis by (subst (1 2 3) stop_loop.simps) simp
  next
    case True
    let ?tid = "item_list st item ! i" and ?st = "fst (stop_task (waits i) (item_list st item ! i) st)"
    note s = loop_inv_step [OF "1.prems" True refl refl, where n = "waits i"]
    from "1.IH" [OF True refl refl s(1,2)]
    have IH: "snd (snd (stop_loop waits item (Suc i) ?st))"
      "set (fst (snd (stop_loop waits item (Suc i) ?st))) \<subseteq> set (drop (Suc i) (item_list ?st item))"
      "\<And>t. t \<notin> set (drop (Suc i) (item_list ?st item)) \<Longrightarrow> t \<notin> fst ` set (ts_queue ?st) \<Longrightarrow>
        od_get (ts_tasks (fst (stop_loop waits item (Suc i) ?st))) t = od_get (ts_tasks ?st) t"
      by blast+
    have d: "drop i (item_list st item) = ?tid # drop (Suc i) (item_list st item)"
      using Cons_nth_drop_Suc [OF True] by simp
    have unfold: "stop_loop waits item i st = (fst (stop_loop waits item (Suc i) ?st),
        ?tid # fst (snd (stop_loop waits item (Suc i) ?st)), snd (snd (stop_loop waits item (Suc i) ?st)))"
      using True s(1) by (subst stop_loop.simps) (simp add: Let_def)
    have frame: "od_get (ts_tasks (fst (stop_loop waits item (Suc i) ?st))) t = od_get (ts_tasks st) t"
      if t: "t \<notin> set (?tid # drop (Suc i) (item_list st item))" "t \<notin> fst ` set (ts_queue st)" for t
    proof -
      have "t \<noteq> ?tid" and "t \<notin> set (drop (Suc i) (item_list ?st item))" using t(1) s(3) by auto
      with s(4) [OF _ t(2)] IH(3) [of t] show ?thesis by simp
    qed
    have "set (fst (snd (stop_loop waits item (Suc i) ?st))) \<subseteq> set (drop (Suc i) (item_list st item))"
      using IH(2) s(3) by (rule order_trans)
    then show ?thesis
      unfolding unfold d using IH(1) frame by auto
  qed
qed

section \<open>Properties\<close>

text \<open>When the clean-up of the first task runs while the second is being stopped, stopping the
  tasks of an item that has three or more reports success but never stops the third, which
  stays in the table.\<close>

theorem stop_item_tasks_skips_third:
  assumes "item_list st item = a # b # c # rest" and "distinct (item_list st item)" and "given item"
    and "\<forall>t\<in>set (item_list st item). od_get (ts_tasks st) t = Some item" and "ts_queue st = []" and "1 \<le> waits 1"
  shows "snd (snd (stop_item_tasks waits item st)) \<and> c \<notin> set (fst (snd (stop_item_tasks waits item st))) \<and>
    od_get (ts_tasks (fst (stop_item_tasks waits item st))) c = Some item"
proof -
  let ?s1 = "fst (stop_task (waits 0) a st)" and ?s2 = "fst (stop_task (waits 1) b (fst (stop_task (waits 0) a st)))"
  have inv0: "loop_inv item 0 st" using assms(2,4,5) by (simp add: loop_inv_def)
  have len0: "0 < length (item_list st item)" and t0: "a = item_list st item ! 0" using assms(1) by simp_all
  note s0 = loop_inv_step [OF inv0 len0 t0 refl, where n = "waits 0"]
  have idle: "(run_cleanup ^^ n) s = s" if "ts_queue s = []" for n s
    using that by (induction n) (simp_all add: run_cleanup_def)
  have a: "od_get (ts_tasks st) a = Some item" using assms(1,4) by simp
  have s1: "ts_queue ?s1 = [(a, item)]" "item_list ?s1 item = a # b # c # rest"
    using assms(1,5) by (simp_all add: stop_task_def a idle task_ends_def item_list_def)
  have len1: "1 < length (item_list ?s1 item)" and t1: "b = item_list ?s1 item ! 1" using s1 by simp_all
  have inv1: "loop_inv item 1 ?s1" using s0(2) by simp
  note s2 = loop_inv_step [OF inv1 len1 t1 refl, where n = "waits 1"]
  have b: "od_get (ts_tasks ?s1) b = Some item" using inv1 s1(2) by (simp add: loop_inv_def)
  obtain m where m: "waits 1 = Suc m" using assms(6) by (cases "waits 1") auto
  have one: "ts_queue (run_cleanup (?s1\<lparr>ts_tasks := x\<rparr>)) = []"
    "item_list (run_cleanup (?s1\<lparr>ts_tasks := x\<rparr>)) item = b # c # rest" for x
    using s1 assms(3) by (simp_all add: run_cleanup_def cleanup_queue cleanup_list)
  have l2: "item_list ?s2 item = b # c # rest"
  proof -
    have "?s2 = task_ends b item ((run_cleanup ^^ m) (run_cleanup (?s1\<lparr>ts_tasks := od_del b (ts_tasks ?s1)\<rparr>)))"
      by (simp only: stop_task_def [of _ b] b m option.case fst_conv funpow_Suc_right comp_apply)
    then show ?thesis by (simp only: idle [OF one(1)] task_ends_def item_list_upd one(2))
  qed
  note spec = stop_loop_spec [OF s2(2) [simplified], of waits]
  have dist: "a \<noteq> c" "b \<noteq> c" "c \<notin> set rest" using assms(1,2) by auto
  have c1: "od_get (ts_tasks ?s1) c = Some item \<and> c \<notin> fst ` set (ts_queue ?s1)"
    using s0(4) [of c] assms(1,4,5) dist by simp
  have c2: "od_get (ts_tasks ?s2) c = Some item \<and> c \<notin> fst ` set (ts_queue ?s2)"
    using s2(4) [of c] c1 dist by simp
  have unfold1: "stop_loop waits item 1 ?s1 = (fst (stop_loop waits item 2 ?s2),
      b # fst (snd (stop_loop waits item 2 ?s2)), snd (snd (stop_loop waits item 2 ?s2)))"
    using len1 s2(1) t1 by (subst stop_loop.simps) (simp add: Let_def numeral_2_eq_2)
  have unfold0: "stop_item_tasks waits item st = (fst (stop_loop waits item 1 ?s1),
      a # fst (snd (stop_loop waits item 1 ?s1)), snd (snd (stop_loop waits item 1 ?s1)))"
    using len0 s0(1) t0 by (simp add: stop_item_tasks_def list_task_ids_by_item_id_def, subst stop_loop.simps)
      (simp add: Let_def)
  show ?thesis
    unfolding unfold0 unfold1 using spec l2 c2 dist by (auto simp: numeral_2_eq_2)
qed

definition three_tasks :: task_state where
  "three_tasks = create_task ''t3'' (Some ''chat'') (create_task ''t2'' (Some ''chat'') (create_task ''t1'' (Some ''chat'') no_tasks))"

theorem stop_item_tasks_skips_third_witness:
  "snd (snd (stop_item_tasks (\<lambda>_. 1) (Some ''chat'') three_tasks)) \<and>
    ''t3'' \<notin> set (fst (snd (stop_item_tasks (\<lambda>_. 1) (Some ''chat'') three_tasks))) \<and>
    od_get (ts_tasks (fst (stop_item_tasks (\<lambda>_. 1) (Some ''chat'') three_tasks))) ''t3'' = Some (Some ''chat'')"
  by (rule stop_item_tasks_skips_third [where a = "''t1''" and b = "''t2''" and rest = "[]"])
    (simp_all add: three_tasks_def create_task_def no_tasks_def item_list_def given_def)

text \<open>Creating a task for an item and running its clean-up after it ended leaves the table and every
  item's list as before, provided the item is named; a task without an item leaves its id
  behind in a list that nothing empties.\<close>

theorem finished_task_is_forgotten:
  assumes "ts_queue st = []" and "od_get (ts_tasks st) tid = None" and "tid \<notin> set (item_list st item)"
  shows "(let st' = run_cleanup (task_ends tid item (create_task tid item st)) in
     (\<forall>t. od_get (ts_tasks st') t = od_get (ts_tasks st) t) \<and> ts_queue st' = [] \<and>
     (\<forall>it. item_list st' it =
        (if it = item \<and> \<not> given item then item_list st it @ [tid] else item_list st it)))"
proof -
  let ?st = "run_cleanup (task_ends tid item (create_task tid item st))"
  have q: "?st = cleanup_task tid item (create_task tid item st)"
    using assms(1) by (simp add: run_cleanup_def task_ends_def) (simp add: create_task_def queue_already_empty)
  have created: "item_list (create_task tid item st) it = (if it = item then item_list st it @ [tid] else item_list st it)" for it
    by (simp add: create_task_def item_list_def)
  have "od_get (ts_tasks ?st) t = od_get (ts_tasks st) t" for t
    using assms(2) by (simp add: q cleanup_tasks) (simp add: create_task_def)
  moreover have "item_list ?st it = (if it = item \<and> \<not> given item then item_list st it @ [tid] else item_list st it)" for it
    using assms(3) by (simp add: q cleanup_list created remove1_append)
  moreover have "ts_queue ?st = []" by (simp add: q cleanup_queue) (simp add: create_task_def assms(1))
  ultimately show ?thesis by (simp add: Let_def)
qed

theorem finished_task_is_forgotten_witness:
  "item_list (run_cleanup (task_ends ''t1'' None (create_task ''t1'' None no_tasks))) None = [''t1'']"
  using finished_task_is_forgotten [of no_tasks "''t1''" None]
  by (simp add: no_tasks_def item_list_def given_def Let_def)

end
