(* ===== verification/Redis_State.thy ===== *)
theory Redis_State
  imports Json
begin

text \<open>
  \<^verbatim>\<open>backend/openlaunch/socket/utils.py\<close>: the distributed lock and dictionary kept in Redis, and
  the document manager in memory. The commands of Redis on the one key of a lock, on the one
  hash of a dictionary, and the operations of the document library are arguments; what the
  theorems use of their documented behaviour is \<open>key_laws\<close>, \<open>hash_laws\<close> and \<open>doc_laws\<close>.
\<close>

section \<open>The lock\<close>

text \<open>\<^verbatim>\<open>SET NX\<close>, \<^verbatim>\<open>SET XX\<close>, \<^verbatim>\<open>GET\<close> and \<^verbatim>\<open>DEL\<close> of the lock's key, and the expiry of the key\<close>

record 'r key_ops =
  ko_get :: "'r \<Rightarrow> string option"
  ko_set_nx :: "string \<Rightarrow> 'r \<Rightarrow> bool \<times> 'r"
  ko_set_xx :: "string \<Rightarrow> 'r \<Rightarrow> bool \<times> 'r"
  ko_del :: "'r \<Rightarrow> 'r"
  ko_expire :: "'r \<Rightarrow> 'r"

definition key_laws :: "'r key_ops \<Rightarrow> bool" where
  "key_laws ops =
     ((\<forall>v r. fst (ko_set_nx ops v r) = (ko_get ops r = None) \<and>
             ko_get ops (snd (ko_set_nx ops v r)) = (if ko_get ops r = None then Some v else ko_get ops r)) \<and>
      (\<forall>v r. fst (ko_set_xx ops v r) = (ko_get ops r \<noteq> None) \<and>
             ko_get ops (snd (ko_set_xx ops v r)) = (if ko_get ops r \<noteq> None then Some v else None)) \<and>
      (\<forall>r. ko_get ops (ko_del ops r) = None) \<and>
      (\<forall>r. ko_get ops (ko_expire ops r) = None))"

record lock =
  lock_id :: string
  lock_obtained :: bool

definition aquire_lock :: "'r key_ops \<Rightarrow> lock \<Rightarrow> 'r \<Rightarrow> bool \<times> lock \<times> 'r" where
  "aquire_lock ops l r =
     (let reply = ko_set_nx ops (lock_id l) r in (fst reply, l\<lparr>lock_obtained := fst reply\<rparr>, snd reply))"

definition renew_lock :: "'r key_ops \<Rightarrow> lock \<Rightarrow> 'r \<Rightarrow> bool \<times> 'r" where
  "renew_lock ops l r = ko_set_xx ops (lock_id l) r"

definition release_lock :: "'r key_ops \<Rightarrow> lock \<Rightarrow> 'r \<Rightarrow> 'r" where
  "release_lock ops l r = (case ko_get ops r of
      None \<Rightarrow> r
    | Some v \<Rightarrow> (if v \<noteq> [] \<and> v = lock_id l then ko_del ops r else r))"

section \<open>The dictionary\<close>

record 'r hash_ops =
  ho_get :: "string \<Rightarrow> 'r \<Rightarrow> string option"
  ho_set :: "(string \<times> string) list \<Rightarrow> 'r \<Rightarrow> 'r"
  ho_del :: "string list \<Rightarrow> 'r \<Rightarrow> nat \<times> 'r"
  ho_all :: "'r \<Rightarrow> (string \<times> string) list"
  ho_drop :: "'r \<Rightarrow> 'r"

definition hash_laws :: "'r hash_ops \<Rightarrow> bool" where
  "hash_laws ops =
     ((\<forall>kvs r k. od_ok kvs \<longrightarrow> ho_get ops k (ho_set ops kvs r) =
         (case map_of kvs k of Some v \<Rightarrow> Some v | None \<Rightarrow> ho_get ops k r)) \<and>
      (\<forall>ks r k. ho_get ops k (snd (ho_del ops ks r)) = (if k \<in> set ks then None else ho_get ops k r)) \<and>
      (\<forall>k r. (fst (ho_del ops [k] r) = 0) = (ho_get ops k r = None)) \<and>
      (\<forall>r k. map_of (ho_all ops r) k = ho_get ops k r) \<and>
      (\<forall>r k. ho_get ops k (ho_drop ops r) = None))"

record shared_dict =
  sd_signature :: "string option"

definition rd_setitem :: "'r hash_ops \<Rightarrow> (rat \<Rightarrow> string) \<Rightarrow> string \<Rightarrow> pv \<Rightarrow> 'r \<Rightarrow> 'r" where
  "rd_setitem ops f k v r = ho_set ops [(k, json_dumps True f v)] r"

definition rd_getitem :: "'r hash_ops \<Rightarrow> (string \<Rightarrow> rat) \<Rightarrow> string \<Rightarrow> 'r \<Rightarrow> pv res" where
  "rd_getitem ops g k r = (case ho_get ops k r of None \<Rightarrow> Inl (KeyError k) | Some s \<Rightarrow> json_loads g s)"

definition rd_delitem :: "'r hash_ops \<Rightarrow> string \<Rightarrow> 'r \<Rightarrow> 'r res" where
  "rd_delitem ops k r = (let (n, r') = ho_del ops [k] r in if n = 0 then Inl (KeyError k) else Inr r')"

definition rd_contains :: "'r hash_ops \<Rightarrow> string \<Rightarrow> 'r \<Rightarrow> bool" where
  "rd_contains ops k r = (ho_get ops k r \<noteq> None)"

definition rd_len :: "'r hash_ops \<Rightarrow> 'r \<Rightarrow> nat" where
  "rd_len ops r = length (ho_all ops r)"

definition rd_keys :: "'r hash_ops \<Rightarrow> 'r \<Rightarrow> string list" where
  "rd_keys ops r = map fst (ho_all ops r)"

definition rd_values :: "'r hash_ops \<Rightarrow> (string \<Rightarrow> rat) \<Rightarrow> 'r \<Rightarrow> pv list res" where
  "rd_values ops g r = rmapM (json_loads g) (map snd (ho_all ops r))"

definition rd_items :: "'r hash_ops \<Rightarrow> (string \<Rightarrow> rat) \<Rightarrow> 'r \<Rightarrow> (string \<times> pv) list res" where
  "rd_items ops g r = rmapM (\<lambda>(k, s). rmap (Pair k) (json_loads g s)) (ho_all ops r)"

definition rd_get :: "'r hash_ops \<Rightarrow> (string \<Rightarrow> rat) \<Rightarrow> string \<Rightarrow> pv \<Rightarrow> 'r \<Rightarrow> pv res" where
  "rd_get ops g k dflt r = (case rd_getitem ops g k r of
      Inl (KeyError _) \<Rightarrow> Inr dflt
    | x \<Rightarrow> x)"

definition rd_clear :: "'r hash_ops \<Rightarrow> shared_dict \<Rightarrow> 'r \<Rightarrow> shared_dict \<times> 'r" where
  "rd_clear ops d r = (d\<lparr>sd_signature := None\<rparr>, ho_drop ops r)"

definition rd_update :: "'r hash_ops \<Rightarrow> (rat \<Rightarrow> string) \<Rightarrow> (string \<times> pv) list \<Rightarrow> 'r \<Rightarrow> 'r" where
  "rd_update ops f kvs r = fold (\<lambda>(k, v). rd_setitem ops f k v) kvs r"

definition rd_setdefault ::
  "'r hash_ops \<Rightarrow> float_ops \<Rightarrow> string \<Rightarrow> pv \<Rightarrow> 'r \<Rightarrow> pv res \<times> 'r" where
  "rd_setdefault ops fo k dflt r =
     (let r' = (if rd_contains ops k r then r else rd_setitem ops (fl_repr fo) k dflt r)
      in (rd_getitem ops (fl_read fo) k r', r'))"

text \<open>The fingerprint of the payload: \<open>digest\<close> is the hexadecimal SHA-256 of a text.\<close>

definition serialize_all :: "(rat \<Rightarrow> string) \<Rightarrow> (string \<times> pv) list \<Rightarrow> (string \<times> string) list" where
  "serialize_all f m = map (\<lambda>(k, v). (k, json_dumps True f v)) m"

fun insert_key :: "string \<times> 'v \<Rightarrow> (string \<times> 'v) list \<Rightarrow> (string \<times> 'v) list" where
  "insert_key e [] = [e]"
| "insert_key e (x # xs) =
     (if ord_class.lexordp_eq (map (of_char :: char \<Rightarrow> nat) (fst e)) (map of_char (fst x)) then e # x # xs
      else x # insert_key e xs)"

definition sort_keys :: "(string \<times> 'v) list \<Rightarrow> (string \<times> 'v) list" where
  "sort_keys xs = foldr insert_key xs []"

definition payload_signature :: "(string \<Rightarrow> string) \<Rightarrow> (rat \<Rightarrow> string) \<Rightarrow> (string \<times> string) list \<Rightarrow> string" where
  "payload_signature digest f serialized =
     digest (json_dumps True f (PDict (sort_keys (map (\<lambda>(k, s). (k, PStr s)) serialized))))"

definition rd_set ::
  "'r hash_ops \<Rightarrow> (string \<Rightarrow> string) \<Rightarrow> (rat \<Rightarrow> string) \<Rightarrow> (string \<times> pv) list \<Rightarrow> shared_dict \<Rightarrow> 'r \<Rightarrow>
   shared_dict \<times> 'r" where
  "rd_set ops digest f m d r =
     (if m = [] then (d\<lparr>sd_signature := None\<rparr>, ho_drop ops r)
      else
        (let serialized = serialize_all f m;
             signature = payload_signature digest f serialized
         in if sd_signature d = Some signature then (d, r)
            else
              (let stale = filter (\<lambda>k. k \<notin> fst ` set m) (rd_keys ops r);
                   r1 = ho_set ops serialized r;
                   r2 = (if stale = [] then r1 else snd (ho_del ops stale r1))
               in (d\<lparr>sd_signature := Some signature\<rparr>, r2))))"

section \<open>The document manager in memory\<close>

record ('u, 'y) doc_ops =
  yo_new :: 'y
  yo_apply :: "'u \<Rightarrow> 'y \<Rightarrow> 'y"
  yo_update :: "'y \<Rightarrow> 'u"

text \<open>The documents that a sequence of updates makes, and what the library promises of the update
  that holds a whole document\<close>

definition replay :: "('u, 'y) doc_ops \<Rightarrow> 'u list \<Rightarrow> 'y" where
  "replay ops us = fold (yo_apply ops) us (yo_new ops)"

definition doc_laws :: "('u, 'y) doc_ops \<Rightarrow> bool" where
  "doc_laws ops = (\<forall>us. yo_apply ops (yo_update ops (replay ops us)) (yo_new ops) = replay ops us)"

record 'u ydoc_manager =
  yd_updates :: "(string, 'u list) od"
  yd_users :: "(string, string list) od"

definition compaction_threshold :: nat where
  "compaction_threshold = 500"

text \<open>\<^verbatim>\<open>document_id.replace(':', '_')\<close>\<close>

definition doc_key :: "string \<Rightarrow> string" where
  "doc_key s = map (\<lambda>c. if c = CHR '':'' then CHR ''_'' else c) s"

definition compact_updates :: "('u, 'y) doc_ops \<Rightarrow> 'u list \<Rightarrow> 'u list" where
  "compact_updates ops us =
     (if length us \<le> 1 then us
      else (let mid = length us div 2 in yo_update ops (replay ops (take mid us)) # drop mid us))"

definition append_to_updates :: "('u, 'y) doc_ops \<Rightarrow> string \<Rightarrow> 'u \<Rightarrow> 'u ydoc_manager \<Rightarrow> 'u ydoc_manager" where
  "append_to_updates ops doc u m =
     (let k = doc_key doc; us = od_getd (yd_updates m) k [] @ [u]
      in m\<lparr>yd_updates := od_set k (if length us \<ge> compaction_threshold then compact_updates ops us else us)
             (yd_updates m)\<rparr>)"

definition get_updates :: "string \<Rightarrow> 'u ydoc_manager \<Rightarrow> 'u list" where
  "get_updates doc m = od_getd (yd_updates m) (doc_key doc) []"

definition document_exists :: "string \<Rightarrow> 'u ydoc_manager \<Rightarrow> bool" where
  "document_exists doc m = od_has (yd_updates m) (doc_key doc)"

definition get_users :: "string \<Rightarrow> 'u ydoc_manager \<Rightarrow> string list" where
  "get_users doc m = od_getd (yd_users m) (doc_key doc) []"

definition add_user :: "string \<Rightarrow> string \<Rightarrow> 'u ydoc_manager \<Rightarrow> 'u ydoc_manager" where
  "add_user doc u m =
     (let k = doc_key doc; us = od_getd (yd_users m) k []
      in m\<lparr>yd_users := od_set k (if u \<in> set us then us else us @ [u]) (yd_users m)\<rparr>)"

definition remove_user :: "string \<Rightarrow> string \<Rightarrow> 'u ydoc_manager \<Rightarrow> 'u ydoc_manager" where
  "remove_user doc u m =
     (let k = doc_key doc
      in if u \<in> set (od_getd (yd_users m) k [])
         then m\<lparr>yd_users := od_set k (removeAll u (od_getd (yd_users m) k [])) (yd_users m)\<rparr> else m)"

definition clear_document :: "string \<Rightarrow> 'u ydoc_manager \<Rightarrow> 'u ydoc_manager" where
  "clear_document doc m =
     m\<lparr>yd_updates := od_del (doc_key doc) (yd_updates m), yd_users := od_del (doc_key doc) (yd_users m)\<rparr>"

text \<open>One round of the loop over the documents: \<open>k\<close> is a key of the users' table.\<close>

definition leave_document :: "string \<Rightarrow> string \<Rightarrow> 'u ydoc_manager \<Rightarrow> 'u ydoc_manager" where
  "leave_document u k m =
     (if u \<in> set (od_getd (yd_users m) k [])
      then (let rest = removeAll u (od_getd (yd_users m) k [])
            in if rest = [] then clear_document k (m\<lparr>yd_users := od_del k (yd_users m)\<rparr>)
               else m\<lparr>yd_users := od_set k rest (yd_users m)\<rparr>)
      else m)"

definition remove_user_from_all_documents :: "string \<Rightarrow> 'u ydoc_manager \<Rightarrow> 'u ydoc_manager" where
  "remove_user_from_all_documents u m = fold (leave_document u) (od_keys (yd_users m)) m"

section \<open>Properties of the lock\<close>

text \<open>A lock that is held cannot be acquired, and releasing it without holding it changes nothing;
  but a process whose lock has expired and been acquired by another takes it over by renewing,
  after which the other's release no longer frees it.\<close>

theorem renew_takes_over:
  assumes "key_laws ops" and "ko_get ops r = Some (lock_id b)" and "lock_id a \<noteq> lock_id b"
  shows "\<not> fst (aquire_lock ops a r) \<and> ko_get ops (snd (snd (aquire_lock ops a r))) = Some (lock_id b) \<and>
    ko_get ops (release_lock ops a r) = Some (lock_id b) \<and>
    fst (renew_lock ops a r) \<and> ko_get ops (snd (renew_lock ops a r)) = Some (lock_id a) \<and>
    ko_get ops (release_lock ops b (snd (renew_lock ops a r))) = Some (lock_id a)"
  using assms by (simp add: key_laws_def aquire_lock_def renew_lock_def release_lock_def Let_def)

definition option_key :: "string option key_ops" where
  "option_key = \<lparr>ko_get = (\<lambda>r. r), ko_set_nx = (\<lambda>v r. if r = None then (True, Some v) else (False, r)),
     ko_set_xx = (\<lambda>v r. if r = None then (False, None) else (True, Some v)),
     ko_del = (\<lambda>r. None), ko_expire = (\<lambda>r. None)\<rparr>"

theorem renew_takes_over_witness:
  "ko_get option_key (snd (renew_lock option_key \<lparr>lock_id = ''a'', lock_obtained = True\<rparr> (Some ''b''))) = Some ''a''"
  using renew_takes_over [of option_key "Some ''b''" "\<lparr>lock_id = ''b'', lock_obtained = True\<rparr>"
      "\<lparr>lock_id = ''a'', lock_obtained = True\<rparr>"]
  by (simp add: key_laws_def option_key_def)

section \<open>Properties of the dictionary\<close>

lemma set_insert_key: "set (insert_key e xs) = insert e (set xs)"
  by (induction xs) auto

lemma set_sort_keys: "set (sort_keys xs) = set xs"
  by (induction xs) (auto simp: sort_keys_def set_insert_key)

lemma distinct_insert_key: "distinct (map fst (insert_key e xs)) \<longleftrightarrow> distinct (map fst (e # xs))"
  by (induction xs) (auto simp: set_insert_key)

lemma od_ok_sort_keys: "od_ok (sort_keys xs) = od_ok xs"
  unfolding od_ok_def
proof (induction xs)
  case Nil
  then show ?case by (simp add: sort_keys_def)
next
  case (Cons e xs)
  have "sort_keys (e # xs) = insert_key e (sort_keys xs)" by (simp add: sort_keys_def)
  with Cons show ?case by (simp add: distinct_insert_key set_sort_keys)
qed

lemma plain_strings: "plain_dict (map (\<lambda>(k, s). (k, PStr s)) xs)"
  by (induction xs) auto

lemma plain_dict_subset: "plain_dict d = (\<forall>e\<in>set d. json_plain (snd e))"
  by (induction d) auto

lemma signature_injective:
  assumes "inj digest" and "od_ok a" and "od_ok b" and "payload_signature digest f a = payload_signature digest f b"
  shows "set a = set b"
proof -
  let ?p = "\<lambda>xs. PDict (sort_keys (map (\<lambda>(k, s). (k, PStr s)) (xs :: (string \<times> string) list)))"
  have plain: "json_plain (?p xs)" if "od_ok xs" for xs
    using that by (simp add: od_ok_sort_keys plain_dict_subset set_sort_keys) (auto simp: od_ok_def comp_def split_def)
  have "json_dumps True f (?p a) = json_dumps True f (?p b)"
    using assms(4) unfolding payload_signature_def by (rule injD [OF assms(1)])
  with json_loads_dumps [OF plain [OF assms(2)], of "\<lambda>_. 0" True f] json_loads_dumps [OF plain [OF assms(3)], of "\<lambda>_. 0" True f]
  have "(Inr (?p a) :: pv res) = Inr (?p b)" by (simp only:)
  then have "?p a = ?p b" by (simp only: sum.inject)
  then have "set (sort_keys (map (\<lambda>(k, s). (k, PStr s)) a)) = set (sort_keys (map (\<lambda>(k, s). (k, PStr s)) b))"
    by (simp only: pv.inject)
  then have "(\<lambda>(k, s). (k, PStr s)) ` set a = (\<lambda>(k, s). (k, PStr s)) ` set b"
    by (simp only: set_sort_keys set_map)
  moreover have "inj (\<lambda>(k, s :: string). (k :: string, PStr s))" by (auto simp: inj_def)
  ultimately show ?thesis by (simp only: inj_image_eq_iff)
qed

text \<open>The last set of this process is what the hash still holds.\<close>

definition in_sync :: "'r hash_ops \<Rightarrow> (string \<Rightarrow> string) \<Rightarrow> (rat \<Rightarrow> string) \<Rightarrow> shared_dict \<Rightarrow> 'r \<Rightarrow> bool" where
  "in_sync ops digest f d r = (\<forall>s. sd_signature d = Some s \<longrightarrow>
     (\<exists>m. od_ok m \<and> s = payload_signature digest f m \<and> (\<forall>k. ho_get ops k r = map_of m k)))"

lemma serialize_ok: "od_ok (serialize_all f m) = od_ok m"
  by (simp add: od_ok_def serialize_all_def comp_def split_def)

lemma serialize_get: "map_of (serialize_all f m) k = map_option (json_dumps True f) (map_of m k)"
  by (induction m) (auto simp: serialize_all_def)

lemma map_of_set_eq: "od_ok a \<Longrightarrow> od_ok b \<Longrightarrow> set a = set b \<Longrightarrow> map_of a = map_of b"
  unfolding od_ok_def by (rule map_of_eqI) auto

text \<open>As long as no other process writes the hash between two calls, setting a mapping makes it the
  content of the dictionary: every key reads back its value, every other key raises, and the
  call leaves the dictionary in that state again, also when it skips the write.\<close>

theorem shared_dict_set_exact:
  assumes "hash_laws ops" and "inj digest" and "in_sync ops digest (fl_repr fo) d r"
    and "od_ok m" and "\<forall>e\<in>set m. json_plain (snd e)"
    and "rd_set ops digest (fl_repr fo) m d r = (d', r')"
  shows "(\<forall>k. rd_getitem ops (fl_read fo) k r' = (case od_get m k of None \<Rightarrow> Inl (KeyError k) | Some v \<Rightarrow> Inr v)) \<and>
    in_sync ops digest (fl_repr fo) d' r'"
proof -
  let ?f = "fl_repr fo"
  let ?s = "serialize_all ?f m"
  have content: "\<forall>k. ho_get ops k r' = map_of ?s k" and sync: "in_sync ops digest ?f d' r'"
  proof -
    have *: "(\<forall>k. ho_get ops k r' = map_of ?s k) \<and> in_sync ops digest ?f d' r'"
    proof (cases "m = []")
      case True
      with assms(1,6) show ?thesis by (auto simp: rd_set_def hash_laws_def serialize_all_def in_sync_def)
    next
      case False
      show ?thesis
      proof (cases "sd_signature d = Some (payload_signature digest ?f ?s)")
        case True
        with False assms(6) have same: "d' = d" "r' = r" by (simp_all add: rd_set_def Let_def)
        from True assms(3) obtain m0 where m0: "od_ok m0" "payload_signature digest ?f ?s = payload_signature digest ?f m0"
          "\<forall>k. ho_get ops k r = map_of m0 k" by (auto simp: in_sync_def)
        have "set ?s = set m0"
          by (rule signature_injective [OF assms(2) _ m0(1,2)]) (simp add: serialize_ok assms(4))
        then have "map_of ?s = map_of m0" by (intro map_of_set_eq) (simp_all add: serialize_ok assms(4) m0(1))
        with m0(3) assms(3) show ?thesis by (simp add: same)
      next
        case differs: False
        let ?stale = "filter (\<lambda>k. k \<notin> fst ` set m) (rd_keys ops r)"
        let ?r1 = "ho_set ops ?s r"
        have r': "r' = (if ?stale = [] then ?r1 else snd (ho_del ops ?stale ?r1))"
          "d' = d\<lparr>sd_signature := Some (payload_signature digest ?f ?s)\<rparr>"
          using False differs assms(6) by (auto simp: rd_set_def Let_def)
        have set: "ho_get ops k ?r1 = (case map_of ?s k of Some v \<Rightarrow> Some v | None \<Rightarrow> ho_get ops k r)" for k
          using assms(1,4) by (simp add: hash_laws_def serialize_ok)
        have keys: "k \<in> set (rd_keys ops r) \<longleftrightarrow> ho_get ops k r \<noteq> None" for k
          using assms(1) unfolding hash_laws_def rd_keys_def
          by (metis map_of_eq_None_iff set_map)
        have "ho_get ops k r' = (if k \<in> set ?stale then None else ho_get ops k ?r1)" for k
        proof (cases "?stale = []")
          case True
          then show ?thesis by (simp only: r'(1) simp_thms if_True list.set empty_iff if_False)
        next
          case False
          have "\<And>ks x. ho_get ops k (snd (ho_del ops ks x)) = (if k \<in> set ks then None else ho_get ops k x)"
            using assms(1) by (simp add: hash_laws_def)
          with False show ?thesis by (simp only: r'(1) if_False)
        qed
        moreover have "k \<in> set ?stale \<longleftrightarrow> map_of ?s k = None \<and> ho_get ops k r \<noteq> None" for k
          using keys [of k] by (auto simp: serialize_get map_of_eq_None_iff)
        ultimately have "ho_get ops k r' = map_of ?s k" for k
          using set [of k] by (cases "map_of ?s k"; cases "ho_get ops k r") auto
        then show ?thesis using serialize_ok [of ?f m] assms(4) by (auto simp: in_sync_def r'(2))
      qed
    qed
    then show "\<forall>k. ho_get ops k r' = map_of ?s k" "in_sync ops digest ?f d' r'" by simp_all
  qed
  have "json_loads (fl_read fo) (json_dumps True ?f v) = Inr v" if "map_of m k = Some v" for k v
    using map_of_SomeD [OF that] assms(5) by (intro json_loads_dumps) force
  with content sync show ?thesis by (auto simp: rd_getitem_def serialize_get split: option.split)
qed

definition list_hash :: "(string \<times> string) list hash_ops" where
  "list_hash = \<lparr>ho_get = (\<lambda>k r. map_of r k), ho_set = (\<lambda>kvs r. fold (\<lambda>(k, v). od_set k v) kvs r),
     ho_del = (\<lambda>ks r. (length (filter (\<lambda>k. map_of r k \<noteq> None) ks), filter (\<lambda>e. fst e \<notin> set ks) r)),
     ho_all = (\<lambda>r. r), ho_drop = (\<lambda>r. [])\<rparr>"

lemma fold_od_set: "od_ok kvs \<Longrightarrow>
    map_of (fold (\<lambda>(k, v). od_set k v) kvs r) k = (case map_of kvs k of Some v \<Rightarrow> Some v | None \<Rightarrow> map_of r k)"
proof (induction kvs arbitrary: r)
  case Nil
  then show ?case by simp
next
  case (Cons e kvs)
  obtain k' v where e: "e = (k', v)" by (cases e)
  with Cons.prems have "map_of kvs k' = None" "od_ok kvs" by (auto simp: od_ok_def map_of_eq_None_iff)
  with Cons.IH [of "od_set k' v r"] e show ?case by (auto split: option.split)
qed

lemma map_of_drop_keys: "map_of (filter (\<lambda>e. fst e \<notin> K) r) k = (if k \<in> K then None else map_of r k)"
  by (induction r) auto

lemma list_hash_laws: "hash_laws list_hash"
  by (auto simp: hash_laws_def list_hash_def fold_od_set map_of_drop_keys split: option.splits)

theorem shared_dict_set_exact_witness:
  "\<exists>d r. rd_set list_hash (\<lambda>s. s) (\<lambda>_. []) [(''k'', PInt 1)] \<lparr>sd_signature = None\<rparr> [(''old'', ''0'')] = (d, r) \<and>
    rd_getitem list_hash (\<lambda>_. 0) ''k'' r = Inr (PInt 1) \<and> rd_getitem list_hash (\<lambda>_. 0) ''old'' r = Inl (KeyError ''old'')"
proof -
  let ?fo = "\<lparr>fl_repr = (\<lambda>_. []), fl_str = (\<lambda>_. None), fl_read = (\<lambda>_. 0), fl_int = of_int, fl_round = (\<lambda>x. x)\<rparr>"
  obtain d r where dr: "rd_set list_hash (\<lambda>s. s) (\<lambda>_. []) [(''k'', PInt 1)] \<lparr>sd_signature = None\<rparr> [(''old'', ''0'')] = (d, r)"
    by (cases "rd_set list_hash (\<lambda>s. s) (\<lambda>_. []) [(''k'', PInt 1)] \<lparr>sd_signature = None\<rparr> [(''old'', ''0'')]")
  have inj: "inj (\<lambda>s :: string. s)" by (simp add: inj_def)
  have "\<forall>k. rd_getitem list_hash (fl_read ?fo) k r = (case od_get [(''k'', PInt 1)] k of None \<Rightarrow> Inl (KeyError k) | Some v \<Rightarrow> Inr v)"
    using shared_dict_set_exact [OF list_hash_laws inj, where fo = ?fo and d = "\<lparr>sd_signature = None\<rparr>" and r = "[(''old'', ''0'')]"
        and m = "[(''k'', PInt 1)]" and d' = d and r' = r] dr
    by (simp add: in_sync_def od_ok_def)
  note k = this
  show ?thesis by (intro exI conjI, rule dr) (use k in simp_all)
qed

section \<open>Properties of the document manager\<close>

lemma replay_compact:
  assumes "doc_laws ops"
  shows "replay ops (compact_updates ops us) = replay ops us"
proof (cases "length us \<le> 1")
  case True
  then show ?thesis by (simp add: compact_updates_def)
next
  case False
  let ?mid = "length us div 2"
  have "replay ops (compact_updates ops us) =
      fold (yo_apply ops) (drop ?mid us) (yo_apply ops (yo_update ops (replay ops (take ?mid us))) (yo_new ops))"
    using False by (simp add: compact_updates_def Let_def replay_def)
  also have "\<dots> = fold (yo_apply ops) (drop ?mid us) (replay ops (take ?mid us))"
    using assms by (simp add: doc_laws_def)
  also have "\<dots> = replay ops us"
    by (metis append_take_drop_id comp_apply fold_append replay_def)
  finally show ?thesis .
qed

lemma replay_snoc: "replay ops (us @ [u]) = yo_apply ops u (replay ops us)"
  by (simp add: replay_def)

lemma compact_length: "length us = compaction_threshold \<Longrightarrow> length (compact_updates ops us) = 251"
  by (simp add: compact_updates_def compaction_threshold_def Let_def)

lemma append_get_other: "doc_key doc' \<noteq> doc_key doc \<Longrightarrow> get_updates doc' (append_to_updates ops doc u m) = get_updates doc' m"
  by (simp add: append_to_updates_def get_updates_def Let_def)

lemma append_get:
  assumes "doc_laws ops" and "replay ops (get_updates doc m) = replay ops us" and "length (get_updates doc m) < compaction_threshold"
  shows "replay ops (get_updates doc (append_to_updates ops doc u m)) = replay ops (us @ [u]) \<and>
    length (get_updates doc (append_to_updates ops doc u m)) < compaction_threshold"
proof -
  let ?us = "get_updates doc m @ [u]"
  have "get_updates doc (append_to_updates ops doc u m) =
      (if length ?us \<ge> compaction_threshold then compact_updates ops ?us else ?us)"
    by (simp add: append_to_updates_def get_updates_def Let_def)
  moreover have "replay ops ?us = replay ops (us @ [u])" using assms(2) by (simp add: replay_snoc)
  moreover have "length ?us \<le> compaction_threshold" using assms(3) by simp
  ultimately show ?thesis
    using replay_compact [OF assms(1), of ?us] compact_length [of ?us ops]
    by (auto simp: compaction_threshold_def)
qed

text \<open>C19 However many updates are appended to a document, with the compactions this brings, its stored
  updates rebuild the same document as all the appended ones, there are always fewer than 500
  of them, and documents with another key are untouched.\<close>

theorem compaction_keeps_document:
  assumes "doc_laws ops" and "get_updates doc m = []"
  shows "(let m' = fold (append_to_updates ops doc) us m in
    replay ops (get_updates doc m') = replay ops us \<and> length (get_updates doc m') < 500 \<and>
    (\<forall>other. doc_key other \<noteq> doc_key doc \<longrightarrow> get_updates other m' = get_updates other m))"
proof -
  have "replay ops (get_updates doc (fold (append_to_updates ops doc) us m)) = replay ops us \<and>
    length (get_updates doc (fold (append_to_updates ops doc) us m)) < compaction_threshold"
  proof (induction us rule: rev_induct)
    case Nil
    then show ?case by (simp add: assms(2) compaction_threshold_def)
  next
    case (snoc u us)
    with append_get [OF assms(1)] show ?case by simp
  qed
  moreover have "get_updates other (fold (append_to_updates ops doc) us m) = get_updates other m"
    if "doc_key other \<noteq> doc_key doc" for other
    using that by (induction us arbitrary: m) (simp_all add: append_get_other)
  ultimately show ?thesis by (simp add: Let_def compaction_threshold_def)
qed

definition text_docs :: "(string, string) doc_ops" where
  "text_docs = \<lparr>yo_new = [], yo_apply = (\<lambda>u y. y @ u), yo_update = (\<lambda>y. y)\<rparr>"

theorem compaction_keeps_document_witness:
  "length (get_updates ''note:1'' (fold (append_to_updates text_docs ''note:1'') (replicate 700 ''x'')
      \<lparr>yd_updates = [], yd_users = []\<rparr>)) < 500"
proof -
  have "doc_laws text_docs" by (simp add: doc_laws_def text_docs_def)
  moreover have "get_updates ''note:1'' \<lparr>yd_updates = [], yd_users = []\<rparr> = ([] :: string list)"
    by (simp add: get_updates_def)
  ultimately show ?thesis
    using compaction_keeps_document [of text_docs "''note:1''" "\<lparr>yd_updates = [], yd_users = []\<rparr>" "replicate 700 ''x''"]
    unfolding Let_def by blast
qed

text \<open>Keys that the table of users has are document keys.\<close>

definition keys_normal :: "'u ydoc_manager \<Rightarrow> bool" where
  "keys_normal m = (\<forall>k\<in>fst ` set (yd_users m). doc_key k = k)"

lemma doc_key_idem [simp]: "doc_key (doc_key s) = doc_key s"
  by (simp add: doc_key_def)

lemma leave_users:
  assumes "doc_key k = k"
  shows "od_getd (yd_users (leave_document u k m)) j [] =
    (if j = k then removeAll u (od_getd (yd_users m) j []) else od_getd (yd_users m) j [])"
  using assms by (auto simp: leave_document_def clear_document_def Let_def)

lemma leave_updates:
  assumes "doc_key k = k"
  shows "od_get (yd_updates (leave_document u k m)) j =
    (if j = k \<and> u \<in> set (od_getd (yd_users m) k []) \<and> removeAll u (od_getd (yd_users m) k []) = []
     then None else od_get (yd_updates m) j)"
  using assms by (auto simp: leave_document_def clear_document_def Let_def)

lemma leave_all:
  assumes "\<forall>k\<in>set ks. doc_key k = k" and "distinct ks"
  shows "od_getd (yd_users (fold (leave_document u) ks m)) j [] =
      (if j \<in> set ks then removeAll u (od_getd (yd_users m) j []) else od_getd (yd_users m) j [])"
    and "od_get (yd_updates (fold (leave_document u) ks m)) j =
      (if j \<in> set ks \<and> u \<in> set (od_getd (yd_users m) j []) \<and> removeAll u (od_getd (yd_users m) j []) = []
       then None else od_get (yd_updates m) j)"
  using assms
proof (induction ks arbitrary: m)
  case Nil
  {
    case 1
    then show ?case by simp
  next
    case 2
    then show ?case by simp
  }
next
  case (Cons k ks)
  {
    case 1
    with Cons.IH(1) [of "leave_document u k m"] leave_users [of k u m] show ?case by auto
  next
    case 2
    with Cons.IH(2) [of "leave_document u k m"] leave_users [of k u m] leave_updates [of k u m] show ?case by auto
  }
qed

text \<open>A user that leaves all documents is in none of them afterwards; nobody else's presence
  changes, and a document loses its updates exactly when that user was its last.\<close>

theorem leaving_all_documents:
  assumes "keys_normal m" and "od_ok (yd_users m)"
  shows "set (get_users doc (remove_user_from_all_documents u m)) = set (get_users doc m) - {u} \<and>
    document_exists doc (remove_user_from_all_documents u m) =
      (document_exists doc m \<and> set (get_users doc m) \<noteq> {u})"
proof -
  let ?ks = "od_keys (yd_users m)"
  have ks: "\<forall>k\<in>set ?ks. doc_key k = k" "distinct ?ks"
    using assms by (auto simp: keys_normal_def od_keys_def od_ok_def)
  have absent: "od_getd (yd_users m) k [] = []" if "k \<notin> set ?ks" for k
  proof -
    from that have "od_get (yd_users m) k = None" by (simp add: od_keys_def map_of_eq_None_iff)
    then show ?thesis by (simp add: od_getd_def)
  qed
  have last: "u \<in> set xs \<and> removeAll u xs = [] \<longleftrightarrow> set xs = {u}" for xs :: "string list"
  proof -
    have "removeAll u xs = [] \<longleftrightarrow> set xs \<subseteq> {u}" by (induction xs) auto
    then show ?thesis by auto
  qed
  let ?us = "od_getd (yd_users m) (doc_key doc) []"
  have users: "get_users doc (remove_user_from_all_documents u m) = removeAll u ?us"
    using leave_all(1) [OF ks, of u m "doc_key doc"] absent [of "doc_key doc"]
    by (cases "doc_key doc \<in> set ?ks") (simp_all add: remove_user_from_all_documents_def get_users_def)
  have "od_get (yd_updates (remove_user_from_all_documents u m)) (doc_key doc) =
      (if set ?us = {u} then None else od_get (yd_updates m) (doc_key doc))"
    using leave_all(2) [OF ks, of u m "doc_key doc"] absent [of "doc_key doc"] last [of ?us]
    by (cases "doc_key doc \<in> set ?ks") (simp_all add: remove_user_from_all_documents_def)
  with users show ?thesis by (simp add: get_users_def document_exists_def od_has_def)
qed

theorem leaving_all_documents_witness:
  "document_exists ''d'' (remove_user_from_all_documents ''u''
      \<lparr>yd_updates = [(''d'', [''x''])], yd_users = [(''d'', [''u''])]\<rparr>) =
    (document_exists ''d'' \<lparr>yd_updates = [(''d'', [''x''])], yd_users = [(''d'', [''u''])]\<rparr> \<and>
      set (get_users ''d'' \<lparr>yd_updates = [(''d'', [''x''])], yd_users = [(''d'', [''u''])]\<rparr>) \<noteq> {''u''})"
  using leaving_all_documents [of "\<lparr>yd_updates = [(''d'', [''x''])], yd_users = [(''d'', [''u''])]\<rparr>" "''d''" "''u''"]
  by (simp add: keys_normal_def doc_key_def od_ok_def)

end
