(* ===== verification/Host_Filter.thy ===== *)
theory Host_Filter
  imports Py_Value
begin

text \<open>
  The allow and block lists of \<^verbatim>\<open>backend/openlaunch/utils/misc.py\<close>: matching by suffix
  (\<open>is_string_allowed\<close>) and matching of host names on label boundaries
  (\<open>is_host_allowed\<close>), and \<open>deep_update\<close>.
\<close>

section \<open>Filter lists\<close>

text \<open>The argument: one string or a sequence of them\<close>

datatype strings_arg = One string | Many "string list"

fun arg_strings :: "strings_arg \<Rightarrow> string list" where
  "arg_strings (One s) = [s]"
| "arg_strings (Many ss) = ss"

fun get_allow_block_lists :: "string list \<Rightarrow> string list \<times> string list" where
  "get_allow_block_lists [] = ([], [])"
| "get_allow_block_lists (d # ds) =
     (let rest = get_allow_block_lists ds
      in if py_startswith d ''!'' then (fst rest, py_strip (tl d) # snd rest)
         else (py_strip d # fst rest, snd rest))"

definition is_string_allowed :: "strings_arg \<Rightarrow> string list \<Rightarrow> bool" where
  "is_string_allowed arg filter_list =
     (if filter_list = [] then True
      else (let (allow, block) = get_allow_block_lists filter_list; strings = arg_strings arg
            in if allow \<noteq> [] \<and> \<not> (\<exists>s\<in>set strings. \<exists>a\<in>set allow. py_endswith s a) then False
               else if \<exists>s\<in>set strings. \<exists>b\<in>set block. py_endswith s b then False
               else True))"

definition normal_host :: "string \<Rightarrow> string" where
  "normal_host s = py_rstrip_char CHR ''.'' (py_lower (py_strip s))"

definition host_matches_pattern :: "string \<Rightarrow> string \<Rightarrow> bool" where
  "host_matches_pattern host pat =
     (let h = normal_host host; p = normal_host pat
      in if h = [] \<or> p = [] then False else h = p \<or> py_endswith h (CHR ''.'' # p))"

definition is_host_allowed :: "strings_arg \<Rightarrow> string list \<Rightarrow> bool" where
  "is_host_allowed arg filter_list =
     (if filter_list = [] then True
      else (let (allow, block) = get_allow_block_lists filter_list; hosts = arg_strings arg
            in if allow \<noteq> [] \<and> \<not> (\<exists>h\<in>set hosts. \<exists>a\<in>set allow. host_matches_pattern h a) then False
               else if \<exists>h\<in>set hosts. \<exists>b\<in>set block. host_matches_pattern h b then False
               else True))"

section \<open>Labels\<close>

lemma split_suffix:
  "(\<exists>ls. py_split c h = ls @ py_split c p) \<longleftrightarrow> h = p \<or> py_endswith h (c # p)"
proof
  assume "\<exists>ls. py_split c h = ls @ py_split c p"
  then obtain ls where ls: "py_split c h = ls @ py_split c p" by blast
  show "h = p \<or> py_endswith h (c # p)"
  proof (cases ls rule: rev_cases)
    case Nil
    with ls show ?thesis by (metis append_Nil py_join_split)
  next
    case (snoc ms m)
    have join: "py_join [c] (xs @ ys) = py_join [c] xs @ [c] @ py_join [c] ys" if "xs \<noteq> []" "ys \<noteq> []" for xs ys
      using that
    proof (induction xs)
      case Nil
      then show ?case by simp
    next
      case (Cons x xs)
      then show ?case by (cases xs; cases ys) auto
    qed
    have "h = py_join [c] (ls @ py_split c p)" by (metis ls py_join_split)
    also have "\<dots> = py_join [c] ls @ [c] @ p" using join [of ls "py_split c p"] snoc by simp
    finally show ?thesis by (auto simp: py_endswith_iff)
  qed
next
  assume "h = p \<or> py_endswith h (c # p)"
  then show "\<exists>ls. py_split c h = ls @ py_split c p"
    by (auto simp: py_endswith_iff split_append)
qed

text \<open>An entry is blocking when it starts with an exclamation mark.\<close>

definition allow_entries :: "string list \<Rightarrow> string list" where
  "allow_entries fl = map py_strip (filter (\<lambda>d. \<not> py_startswith d ''!'') fl)"

definition block_entries :: "string list \<Rightarrow> string list" where
  "block_entries fl = map (\<lambda>d. py_strip (tl d)) (filter (\<lambda>d. py_startswith d ''!'') fl)"

lemma allow_block_lists: "get_allow_block_lists fl = (allow_entries fl, block_entries fl)"
  by (induction fl) (auto simp: allow_entries_def block_entries_def Let_def)

definition labels :: "string \<Rightarrow> string list" where
  "labels s = py_split CHR ''.'' (normal_host s)"

section \<open>Properties\<close>

text \<open>Hosts are let through exactly when, after normalisation, one of them is an allowed domain or
  lies below one, label by label, unless there is no allow entry, and none of them is or lies
  below a blocked domain; an empty filter lets every host through.\<close>

theorem host_allowed_by_labels:
  "is_host_allowed arg fl =
    ((allow_entries fl = [] \<or> (\<exists>h\<in>set (arg_strings arg). \<exists>a\<in>set (allow_entries fl).
        normal_host h \<noteq> [] \<and> normal_host a \<noteq> [] \<and> (\<exists>ls. labels h = ls @ labels a))) \<and>
     \<not> (\<exists>h\<in>set (arg_strings arg). \<exists>b\<in>set (block_entries fl).
        normal_host h \<noteq> [] \<and> normal_host b \<noteq> [] \<and> (\<exists>ls. labels h = ls @ labels b)))"
proof -
  have m: "host_matches_pattern h p \<longleftrightarrow> normal_host h \<noteq> [] \<and> normal_host p \<noteq> [] \<and> (\<exists>ls. labels h = ls @ labels p)" for h p
    by (auto simp: host_matches_pattern_def labels_def split_suffix Let_def)
  have "fl = [] \<Longrightarrow> allow_entries fl = [] \<and> block_entries fl = []"
    by (simp add: allow_entries_def block_entries_def)
  then show ?thesis
    unfolding is_host_allowed_def allow_block_lists Let_def m by (cases "fl = []") auto
qed

text \<open>Suffix matching takes names for subdomains that are none: with an allow list, a string passes
  whenever it ends with an allowed entry, so that putting letters in front of an allowed domain
  passes too, while host matching refuses it when no label boundary is there; and a lone
  exclamation mark in the list refuses every string, but no host.\<close>

theorem suffix_filter_differs:
  assumes "py_strip d = d" and "\<not> py_startswith d ''!''" and "normal_host (c # d) = c # normal_host d"
    and "normal_host d \<noteq> []" and "c \<noteq> CHR ''.''"
  shows "is_string_allowed (One (c # d)) [d] \<and> \<not> is_host_allowed (One (c # d)) [d] \<and>
    \<not> is_string_allowed (One s) [''!''] \<and> is_host_allowed (One s) [''!'']"
proof -
  have "\<not> host_matches_pattern (c # d) d"
    using assms(3-5) by (auto simp: host_matches_pattern_def Let_def py_endswith_def)
  moreover have "py_endswith (c # d) d" by (metis append_Cons append_Nil py_endswith_append)
  ultimately show ?thesis
    using assms(1,2)
    by (simp add: is_string_allowed_def is_host_allowed_def py_startswith_def py_strip_def py_lstrip_def py_rstrip_def
        host_matches_pattern_def normal_host_def py_lower_def py_rstrip_char_def)
qed

theorem suffix_filter_differs_witness:
  "is_string_allowed (One ''evilcorp.com'') [''vilcorp.com''] \<and> \<not> is_host_allowed (One ''evilcorp.com'') [''vilcorp.com'']"
  using suffix_filter_differs [of "''vilcorp.com''" "CHR ''e''" "[]"]
  by (simp add: py_strip_def py_lstrip_def py_rstrip_def is_space_def py_startswith_def normal_host_def
      py_lower_def lower_char_def py_rstrip_char_def)

section \<open>Merging nested dictionaries\<close>

function deep_update :: "pdict \<Rightarrow> pdict \<Rightarrow> pdict res" where
  "deep_update d [] = Inr d"
| "deep_update d ((k, v) # u) =
     (case v of
        PDict w \<Rightarrow>
          (case od_getd d k (PDict []) of
             PDict inner \<Rightarrow> rbind (deep_update inner w) (\<lambda>x. deep_update (od_set k (PDict x) d) u)
           | old \<Rightarrow> (case w of
                [] \<Rightarrow> deep_update d u
              | (j, x) # w' \<Rightarrow> Inl (if is_dict x then AttributeError else TypeError)))
      | _ \<Rightarrow> deep_update (od_set k v d) u)"
  by pat_completeness auto
termination
  by (relation "measure (\<lambda>(d, u). size_list (size_prod (\<lambda>_. 0) size) u)") auto

end
