(* ===== verification/Stream_Chunks.thy ===== *)
theory Stream_Chunks
  imports Py_Value
begin

text \<open>
  \<open>stream_chunks_handler\<close> of \<^verbatim>\<open>backend/openlaunch/utils/misc.py\<close>: the generator that cuts a
  response stream into lines and skips oversized ones. Its state between two chunks is the
  buffer and the skip mode; the bytes are characters.
\<close>

section \<open>The generator\<close>

definition empty_event :: string where
  "empty_event = ''data: {}'' @ nl"

text \<open>One complete line in either mode: the mode afterwards and what is yielded\<close>

definition complete_line :: "nat \<Rightarrow> bool \<Rightarrow> string \<Rightarrow> bool \<times> string" where
  "complete_line limit skip line =
     (if skip then (if length line \<le> limit then (False, line) else (True, empty_event))
      else (if length line > limit then (True, empty_event) else (False, line @ nl)))"

fun complete_lines :: "nat \<Rightarrow> bool \<Rightarrow> string list \<Rightarrow> bool \<times> string list" where
  "complete_lines limit skip [] = (skip, [])"
| "complete_lines limit skip (line # lines) =
     (let (skip', out) = complete_line limit skip line; (skip'', outs) = complete_lines limit skip' lines
      in (skip'', out # outs))"

text \<open>One chunk of data\<close>

definition feed :: "nat \<Rightarrow> string \<times> bool \<Rightarrow> string \<Rightarrow> (string \<times> bool) \<times> string list" where
  "feed limit s data =
     (if data = [] then (s, [])
      else
        (let buffer = (if snd s \<and> length (fst s) > limit then [] else fst s);
             lines = py_split CHR 0x0A (buffer @ data);
             (skip, outs) = complete_lines limit (snd s) (butlast lines);
             rest = last lines
         in if \<not> skip \<and> length rest > limit then (([], True), outs) else ((rest, skip), outs)))"

fun feed_all :: "nat \<Rightarrow> string \<times> bool \<Rightarrow> string list \<Rightarrow> (string \<times> bool) \<times> string list" where
  "feed_all limit s [] = (s, [])"
| "feed_all limit s (d # ds) =
     (let (s', outs) = feed limit s d; (s'', outs') = feed_all limit s' ds in (s'', outs @ outs'))"

text \<open>The whole stream; a limit that is absent or not positive passes the chunks through.\<close>

definition stream_chunks_handler :: "int option \<Rightarrow> string list \<Rightarrow> string list" where
  "stream_chunks_handler limit chunks =
     (case limit of
        None \<Rightarrow> chunks
      | Some n \<Rightarrow>
         (if n \<le> 0 then chunks
          else (let ((buffer, skip), outs) = feed_all (nat n) ([], False) chunks
                in outs @ (if buffer \<noteq> [] \<and> \<not> skip then [buffer @ nl] else []))))"

section \<open>Streams of short lines\<close>

lemma split_append_lines:
  "py_split c (xs @ ys) = butlast (py_split c xs) @
     (case py_split c ys of [] \<Rightarrow> [] | w # ws \<Rightarrow> (last (py_split c xs) @ w) # ws)"
proof (induction xs)
  case Nil
  then show ?case by (simp split: list.split)
next
  case (Cons x xs)
  obtain v vs where v: "py_split c xs = v # vs" using py_split_nonempty by (metis neq_Nil_conv)
  obtain w ws where w: "py_split c ys = w # ws" using py_split_nonempty by (metis neq_Nil_conv)
  show ?case
    using Cons by (cases vs) (auto simp: v w)
qed

text \<open>The last line of a text is what goes before the first line of its continuation.\<close>

lemma split_continue: "py_split c (xs @ ys) = butlast (py_split c xs) @ py_split c (last (py_split c xs) @ ys)"
proof -
  have "c \<notin> set (last (py_split c xs))" by (rule split_parts [OF last_in_set]) simp
  from split_no_sep [OF this] have "py_split c (last (py_split c xs) @ ys) =
      (case py_split c ys of [] \<Rightarrow> [] | w # ws \<Rightarrow> (last (py_split c xs) @ w) # ws)"
    by (simp only: split_append_lines butlast.simps last.simps append_Nil simp_thms if_True)
  then show ?thesis by (simp only: split_append_lines [of c xs ys])
qed

lemma complete_short:
  "\<forall>l\<in>set lines. length l \<le> limit \<Longrightarrow> complete_lines limit False lines = (False, map (\<lambda>l. l @ nl) lines)"
  by (induction lines) (simp_all add: complete_line_def)

lemma feed_short:
  assumes "\<forall>l\<in>set (py_split CHR 0x0A (buf @ d)). length l \<le> limit"
  shows "feed limit (buf, False) d =
    (if d = [] then ((buf, False), [])
     else ((last (py_split CHR 0x0A (buf @ d)), False), map (\<lambda>l. l @ nl) (butlast (py_split CHR 0x0A (buf @ d)))))"
proof -
  have "length (last (py_split CHR 0x0A (buf @ d))) \<le> limit" using assms by simp
  moreover have "\<forall>l\<in>set (butlast (py_split CHR 0x0A (buf @ d))). length l \<le> limit"
    using assms by (meson in_set_butlastD)
  ultimately show ?thesis by (simp add: feed_def Let_def complete_short)
qed

lemma feed_all_short:
  assumes "\<forall>l\<in>set (py_split CHR 0x0A (buf @ concat ds)). length l \<le> limit" and "py_split CHR 0x0A buf = [buf]"
  shows "feed_all limit (buf, False) ds =
    ((last (py_split CHR 0x0A (buf @ concat ds)), False), map (\<lambda>l. l @ nl) (butlast (py_split CHR 0x0A (buf @ concat ds))))"
  using assms
proof (induction ds arbitrary: buf)
  case Nil
  then show ?case by simp
next
  case (Cons d ds)
  let ?L = "py_split CHR 0x0A (buf @ d)"
  have cont: "py_split CHR 0x0A (buf @ concat (d # ds)) = butlast ?L @ py_split CHR 0x0A (last ?L @ concat ds)"
    using split_continue [of "CHR 0x0A" "buf @ d" "concat ds"] by simp
  show ?case
  proof (cases "d = []")
    case True
    with Cons show ?thesis by (simp add: feed_def)
  next
    case False
    have rest: "\<forall>l\<in>set (py_split CHR 0x0A (last ?L @ concat ds)). length l \<le> limit"
      using Cons.prems(1) cont by simp
    have single: "py_split CHR 0x0A (last ?L) = [last ?L]"
      by (rule split_no_sep [OF split_parts [OF last_in_set]]) simp
    have "length (last ?L) \<le> limit"
    proof -
      obtain w ws where w: "py_split CHR 0x0A (concat ds) = w # ws" using py_split_nonempty by (metis neq_Nil_conv)
      have "py_split CHR 0x0A (last ?L @ concat ds) = (last ?L @ w) # ws"
        using split_append_lines [of "CHR 0x0A" "last ?L" "concat ds"] by (simp add: single w)
      with rest show ?thesis by simp
    qed
    then have short: "\<forall>l\<in>set ?L. length l \<le> limit"
      using Cons.prems(1) cont append_butlast_last_id [of ?L] by (metis Un_iff py_split_nonempty set_ConsD set_append
          empty_iff empty_set)
    show ?thesis
      unfolding cont feed_all.simps feed_short [OF short]
      using False by (simp add: Cons.IH [OF rest single] butlast_append)
  qed
qed

section \<open>Properties\<close>

text \<open>When no line of a stream is longer than the limit, the handler yields exactly the lines of the
  stream, each with its line break, however the stream is cut into chunks; a last line without
  a line break gets one.\<close>

theorem short_lines_pass:
  assumes "0 < n" and "\<forall>l\<in>set (py_split CHR 0x0A (concat chunks)). length l \<le> nat n"
  shows "stream_chunks_handler (Some n) chunks =
    map (\<lambda>l. l @ nl) (butlast (py_split CHR 0x0A (concat chunks))) @
    (if last (py_split CHR 0x0A (concat chunks)) = [] then [] else [last (py_split CHR 0x0A (concat chunks)) @ nl])"
  using feed_all_short [of "[]" chunks "nat n"] assms
  by (simp add: stream_chunks_handler_def)

theorem short_lines_pass_witness:
  "stream_chunks_handler (Some 4) [''ab'', ''c'' @ nl @ ''d''] = [''abc'' @ nl, ''d'' @ nl]"
  using short_lines_pass [of 4 "[''ab'', ''c'' @ nl @ ''d'']"] by (simp add: nl_def)

text \<open>When an oversized line arrives in two chunks, the first of them beyond the limit and the rest
  short, the rest of that line is yielded as if it were a line of its own, without the line
  break and without the empty event that stands for a skipped line.\<close>

theorem oversized_line_tail_leaks:
  assumes "0 < n" and "CHR 0x0A \<notin> set a" and "nat n < length a" and "CHR 0x0A \<notin> set t" and "length t \<le> nat n"
  shows "stream_chunks_handler (Some n) [a, t @ nl] = [t]"
proof -
  have "py_split CHR 0x0A (t @ nl) = [t, []]"
    using split_no_sep [OF assms(4)] by (simp add: nl_def split_append_lines)
  moreover have "a \<noteq> []" using assms(3) by auto
  moreover have "t @ nl \<noteq> []" by (simp add: nl_def)
  ultimately show ?thesis
    using assms split_no_sep [OF assms(2)]
    by (simp add: stream_chunks_handler_def feed_def complete_line_def)
qed

theorem oversized_line_tail_leaks_witness:
  "stream_chunks_handler (Some 4) [''data: {long'', ''er}'' @ nl] = [''er}'']"
  using oversized_line_tail_leaks [of 4 "''data: {long''" "''er}''"] by simp

end
