(* ===== verification/Sanitize.thy ===== *)
theory Sanitize
  imports Json
begin

text \<open>
  The clean-up of data before it goes to the database, in
  \<^verbatim>\<open>backend/openlaunch/utils/misc.py\<close>: null bytes in strings, with the fast path that looks
  for their escape in the serialised form. The strings of the model have no surrogates, so
  the re-encoding that drops them changes nothing.
\<close>

section \<open>The code\<close>

definition nul :: char where
  "nul = CHR 0x00"

definition remove_nuls :: "string \<Rightarrow> string" where
  "remove_nuls s = filter (\<lambda>c. c \<noteq> nul) s"

definition sanitize_text_for_db :: "pv \<Rightarrow> pv" where
  "sanitize_text_for_db v = (case v of
      PStr s \<Rightarrow> (if nul \<notin> set s then PStr s else PStr (remove_nuls s))
    | _ \<Rightarrow> v)"

fun strip_null_bytes_deep :: "pv \<Rightarrow> pv"
  and strip_list :: "pv list \<Rightarrow> pv list"
  and strip_dict :: "(string \<times> pv) list \<Rightarrow> (string \<times> pv) list" where
  "strip_null_bytes_deep (PStr s) = sanitize_text_for_db (PStr s)"
| "strip_null_bytes_deep (PDict d) = PDict (strip_dict d)"
| "strip_null_bytes_deep (PList xs) = PList (strip_list xs)"
| "strip_null_bytes_deep v = v"
| "strip_list [] = []"
| "strip_list (x # xs) = strip_null_bytes_deep x # strip_list xs"
| "strip_dict [] = []"
| "strip_dict ((k, v) # d) = (k, strip_null_bytes_deep v) # strip_dict d"

definition nul_escape :: string where
  "nul_escape = [CHR 0x5C, CHR ''u'', CHR ''0'', CHR ''0'', CHR ''0'', CHR ''0'']"

definition sanitize_data_for_db :: "(rat \<Rightarrow> string) \<Rightarrow> pv \<Rightarrow> pv" where
  "sanitize_data_for_db f obj = (case obj of
      PStr s \<Rightarrow> sanitize_text_for_db obj
    | _ \<Rightarrow> (if \<not> py_contains (json_dumps False f obj) nul_escape then obj else strip_null_bytes_deep obj))"

section \<open>Null bytes in values\<close>

fun has_nul :: "pv \<Rightarrow> bool"
  and nul_in_list :: "pv list \<Rightarrow> bool"
  and nul_in_dict :: "(string \<times> pv) list \<Rightarrow> bool" where
  "has_nul (PStr s) = (nul \<in> set s)"
| "has_nul (PDict d) = nul_in_dict d"
| "has_nul (PList xs) = nul_in_list xs"
| "has_nul v = False"
| "nul_in_list [] = False"
| "nul_in_list (x # xs) = (has_nul x \<or> nul_in_list xs)"
| "nul_in_dict [] = False"
| "nul_in_dict ((k, v) # d) = (has_nul v \<or> nul_in_dict d)"

lemma py_contains_iff: "py_contains s p \<longleftrightarrow> (\<exists>a b. s = a @ p @ b)"
proof (induction s)
  case Nil
  then show ?case by simp
next
  case (Cons c s)
  show ?case
  proof
    assume "py_contains (c # s) p"
    then consider b where "c # s = p @ b" | a b where "s = a @ p @ b"
      using Cons by (auto simp: py_startswith_iff)
    then show "\<exists>a b. c # s = a @ p @ b"
      by cases (metis append_Nil, metis append_Cons)
  next
    assume "\<exists>a b. c # s = a @ p @ b"
    then obtain a b where ab: "c # s = a @ p @ b" by blast
    show "py_contains (c # s) p"
    proof (cases a)
      case Nil
      with ab have "py_startswith (c # s) p" by (simp add: py_startswith_iff)
      then show ?thesis by simp
    next
      case c: (Cons x xs)
      from c ab have "s = xs @ p @ b" by simp
      then have "py_contains s p" using Cons.IH by blast
      then show ?thesis by simp
    qed
  qed
qed

lemma contains_append: "py_contains s p \<Longrightarrow> py_contains (a @ s @ b) p"
  unfolding py_contains_iff by (metis append.assoc)

lemma contains_left: "py_contains s p \<Longrightarrow> py_contains (s @ b) p"
  using contains_append [of s p "[]" b] by simp

lemma contains_right: "py_contains s p \<Longrightarrow> py_contains (a @ s) p"
  using contains_append [of s p a "[]"] by simp

lemma contains_Cons: "py_contains s p \<Longrightarrow> py_contains (c # s) p"
  by simp

lemma chars_nul: "nul \<in> set s \<Longrightarrow> py_contains (json_chars False s) nul_escape"
proof -
  assume "nul \<in> set s"
  then obtain a b where s: "s = a @ nul # b" by (meson split_list)
  have "(of_char (char_of (48 :: nat)) :: nat) = of_char CHR ''0''" by simp
  then have "char_of (48 :: nat) = CHR ''0''" by (simp only: of_char_eq_iff)
  then have "hex_char 0 = CHR ''0''" by (simp add: hex_char_def)
  then have "json_escape_char False nul = nul_escape"
    by (simp add: json_escape_char_def nul_def json_u_escape_def nul_escape_def)
  then have "json_chars False s = json_chars False a @ nul_escape @ json_chars False b"
    by (simp add: s json_chars_def)
  then show ?thesis unfolding py_contains_iff by blast
qed

lemma dumps_nul:
  "has_nul v \<Longrightarrow> py_contains (json_dumps False f v) nul_escape"
  "nul_in_list xs \<Longrightarrow> py_contains (json_elems False f xs) nul_escape"
  "nul_in_dict d \<Longrightarrow> py_contains (json_members False f d) nul_escape"
proof (induction v and xs and d rule: has_nul_nul_in_list_nul_in_dict.induct)
  case (1 s)
  then show ?case
    by (simp add: json_string_def del: py_contains.simps) (intro contains_Cons contains_left chars_nul)
next
  case (2 d)
  then show ?case by (simp del: py_contains.simps) (intro contains_Cons contains_left)
next
  case (3 xs)
  then show ?case by (simp del: py_contains.simps) (intro contains_Cons contains_left)
next
  case (6 x xs)
  then show ?case
    by (cases "has_nul x")
      (auto simp del: py_contains.simps simp del: append_Cons append_Nil intro: contains_left contains_right)
next
  case (8 k v d)
  then show ?case
    by (cases "has_nul v")
      (auto simp del: py_contains.simps simp del: append_Cons append_Nil intro: contains_left contains_right)
qed simp_all

section \<open>What the walk does\<close>

lemma remove_nuls_id: "nul \<notin> set s \<Longrightarrow> remove_nuls s = s"
  unfolding remove_nuls_def by (rule filter_True) auto

lemma nul_remove_nuls: "nul \<notin> set (remove_nuls s)"
  by (simp add: remove_nuls_def)

lemma strip_id:
  "\<not> has_nul v \<Longrightarrow> strip_null_bytes_deep v = v"
  "\<not> nul_in_list xs \<Longrightarrow> strip_list xs = xs"
  "\<not> nul_in_dict d \<Longrightarrow> strip_dict d = d"
  by (induction v and xs and d rule: has_nul_nul_in_list_nul_in_dict.induct)
    (simp_all add: sanitize_text_for_db_def)

lemma strip_clean:
  "\<not> has_nul (strip_null_bytes_deep v)"
  "\<not> nul_in_list (strip_list xs)"
  "\<not> nul_in_dict (strip_dict d)"
  by (induction v and xs and d rule: has_nul_nul_in_list_nul_in_dict.induct)
    (simp_all add: sanitize_text_for_db_def nul_remove_nuls)

lemma strip_dict_keys: "map fst (strip_dict d) = map fst d"
  by (induction d) auto

lemma sanitize_is_strip: "sanitize_data_for_db f v = strip_null_bytes_deep v"
proof (cases "\<exists>s. v = PStr s")
  case True
  then show ?thesis by (auto simp: sanitize_data_for_db_def)
next
  case False
  then have "sanitize_data_for_db f v =
      (if \<not> py_contains (json_dumps False f v) nul_escape then v else strip_null_bytes_deep v)"
    by (cases v) (auto simp: sanitize_data_for_db_def)
  then show ?thesis using dumps_nul(1) [of v f] strip_id(1) [of v] by (cases "has_nul v") simp_all
qed

section \<open>Properties\<close>

text \<open>The scan of the serialised form never skips work that is needed: whatever value is given
  (with escaped backslashes that look like the escape of a null byte, or none at all), the
  result is the value with every string of it stripped; no string of the result holds a
  null byte; a value without null bytes comes back as it is; and the clean-up is idempotent.
\<close>

theorem sanitize_removes_null_bytes:
  "sanitize_data_for_db f v = strip_null_bytes_deep v
   \<and> \<not> has_nul (sanitize_data_for_db f v)
   \<and> (has_nul v \<or> sanitize_data_for_db f v = v)
   \<and> sanitize_data_for_db f (sanitize_data_for_db f v) = sanitize_data_for_db f v"
  by (cases "has_nul v") (simp_all add: sanitize_is_strip strip_clean strip_id)

text \<open>
  The keys of a dictionary are not among the strings that are cleaned, although they are
  stored with it.
\<close>

theorem sanitize_keeps_null_in_key:
  "sanitize_data_for_db f (PDict [([nul], PStr [nul])]) = PDict [([nul], PStr [])]"
  by (simp add: sanitize_is_strip sanitize_text_for_db_def remove_nuls_def)

end
