(* ===== verification/Chat_Messages.thy ===== *)
theory Chat_Messages
  imports Json
begin

text \<open>
  Lists of chat messages, \<^verbatim>\<open>backend/openlaunch/utils/misc.py\<close> (\<open>get_message_list\<close> to
  \<open>strip_empty_content_blocks\<close>). A message is a dictionary of values. The walk along the
  parent links of a stored history is a loop that the data may keep from ending, so it is a
  partial function into options, where None is a loop that does not return. Updates of the list
  and of its messages in place are the returned list.
\<close>

section \<open>The chain of a message\<close>

text \<open>One round of the loop: None leaves it, otherwise the next message and the ids seen\<close>

definition list_step :: "pv \<Rightarrow> pv \<Rightarrow> pv list \<Rightarrow> (pv \<times> pv list) option res" where
  "list_step m cur visited =
     rbind (pget cur ''id'' PNone) (\<lambda>i. rbind (hash_key i) (\<lambda>h.
       if h \<in> set visited then Inr None
       else rbind (pget cur ''parentId'' PNone) (\<lambda>p.
         rbind (if truthy p then pget_key m p else Inr PNone) (\<lambda>nxt.
           Inr (Some (nxt, if i \<noteq> PNone then h # visited else visited))))))"

partial_function (option) list_walk :: "pv \<Rightarrow> pv \<Rightarrow> pv list \<Rightarrow> pv list \<Rightarrow> pv list res option" where
  "list_walk m cur visited acc =
     (if \<not> truthy cur then Some (Inr acc)
      else (case list_step m cur visited of
          Inl e \<Rightarrow> Some (Inl e)
        | Inr None \<Rightarrow> Some (Inr acc)
        | Inr (Some (nxt, visited')) \<Rightarrow> list_walk m nxt visited' (acc @ [cur])))"

definition get_message_list :: "pv \<Rightarrow> pv \<Rightarrow> pv list res option" where
  "get_message_list messages_map message_id =
     (if \<not> truthy messages_map then Some (Inr [])
      else (case pget_key messages_map message_id of
          Inl e \<Rightarrow> Some (Inl e)
        | Inr cur \<Rightarrow>
            (if \<not> truthy cur then Some (Inr [])
             else map_option (rmap rev) (list_walk messages_map cur [] []))))"

section \<open>Reading messages\<close>

type_synonym message = pdict

definition msg_get :: "message \<Rightarrow> string \<Rightarrow> pv" where
  "msg_get m k = od_getd m k PNone"

definition msg_idx :: "message \<Rightarrow> string \<Rightarrow> pv res" where
  "msg_idx m k = pidx (PDict m) k"

fun first_text :: "pv list \<Rightarrow> pv res" where
  "first_text [] = Inr PNone"
| "first_text (item # items) =
     rbind (pidx item ''type'') (\<lambda>t. if t = PStr ''text'' then pidx item ''text'' else first_text items)"

definition get_content_from_message :: "message \<Rightarrow> pv res" where
  "get_content_from_message m = (case msg_get m ''content'' of PList items \<Rightarrow> first_text items | c \<Rightarrow> Inr c)"

definition message_line :: "(rat \<Rightarrow> string) \<Rightarrow> message \<Rightarrow> string res" where
  "message_line f m = rbind (msg_idx m ''role'') (\<lambda>r. rbind (pstr r) (\<lambda>role.
     rbind (get_content_from_message m) (\<lambda>c. Inr (py_upper role @ '': '' @ py_str f c))))"

definition get_messages_content :: "(rat \<Rightarrow> string) \<Rightarrow> message list \<Rightarrow> string res" where
  "get_messages_content f ms = rbind (rmapM (message_line f) ms) (\<lambda>ls. Inr (py_join nl ls))"

text \<open>The first message of a role, from either end: a message without a role raises.\<close>

fun first_with_role :: "string \<Rightarrow> message list \<Rightarrow> message option res" where
  "first_with_role role [] = Inr None"
| "first_with_role role (m # ms) =
     rbind (msg_idx m ''role'') (\<lambda>r. if r = PStr role then Inr (Some m) else first_with_role role ms)"

definition get_last_user_message_item :: "message list \<Rightarrow> message option res" where
  "get_last_user_message_item ms = first_with_role ''user'' (rev ms)"

definition get_last_assistant_message_item :: "message list \<Rightarrow> message option res" where
  "get_last_assistant_message_item ms = first_with_role ''assistant'' (rev ms)"

definition get_last_user_message :: "message list \<Rightarrow> pv res" where
  "get_last_user_message ms = rbind (get_last_user_message_item ms) (\<lambda>m.
     case m of None \<Rightarrow> Inr PNone | Some m \<Rightarrow> get_content_from_message m)"

definition get_last_assistant_message :: "message list \<Rightarrow> pv res" where
  "get_last_assistant_message ms = rbind (first_with_role ''assistant'' (rev ms)) (\<lambda>m.
     case m of None \<Rightarrow> Inr PNone | Some m \<Rightarrow> get_content_from_message m)"

definition get_system_message :: "message list \<Rightarrow> message option res" where
  "get_system_message ms = first_with_role ''system'' ms"

definition remove_system_message :: "message list \<Rightarrow> message list res" where
  "remove_system_message ms =
     rfilterM (\<lambda>m. rbind (msg_idx m ''role'') (\<lambda>r. Inr (r \<noteq> PStr ''system''))) ms"

definition pop_system_message :: "message list \<Rightarrow> (message option \<times> message list) res" where
  "pop_system_message ms = rbind (get_system_message ms) (\<lambda>s.
     rbind (remove_system_message ms) (\<lambda>rest. Inr (s, rest)))"

text \<open>\<^verbatim>\<open>sep.join\<close> of values: only strings can be joined.\<close>

definition join_values :: "string \<Rightarrow> pv list \<Rightarrow> string res" where
  "join_values sep vs =
     rbind (rmapM (\<lambda>v. case v of PStr s \<Rightarrow> Inr s | _ \<Rightarrow> Inl TypeError) vs) (\<lambda>ss. Inr (py_join sep ss))"

fun split_system :: "message list \<Rightarrow> (pv list \<times> message list) res" where
  "split_system [] = Inr ([], [])"
| "split_system (m # ms) =
     (if msg_get m ''role'' = PStr ''system''
      then rbind (get_content_from_message m) (\<lambda>c. rbind (split_system ms) (\<lambda>(cs, others).
        Inr (if truthy c then c # cs else cs, others)))
      else rbind (split_system ms) (\<lambda>(cs, others). Inr (cs, m # others)))"

definition merge_system_messages :: "message list \<Rightarrow> message list res" where
  "merge_system_messages ms = rbind (split_system ms) (\<lambda>(cs, others).
     if cs = [] then Inr others
     else rbind (join_values nl cs) (\<lambda>c.
       Inr ([(''role'', PStr ''system''), (''content'', PStr c)] # others)))"

section \<open>Changing messages\<close>

text \<open>The first element that satisfies a test is replaced.\<close>

fun on_first :: "('a \<Rightarrow> bool res) \<Rightarrow> ('a \<Rightarrow> 'a res) \<Rightarrow> 'a list \<Rightarrow> 'a list res" where
  "on_first p g [] = Inr []"
| "on_first p g (x # xs) = rbind (p x) (\<lambda>b.
     if b then rbind (g x) (\<lambda>y. Inr (y # xs)) else rbind (on_first p g xs) (\<lambda>ys. Inr (x # ys)))"

definition set_text_part :: "string \<Rightarrow> message \<Rightarrow> message res" where
  "set_text_part content m = (case msg_get m ''content'' of
      PList items \<Rightarrow>
        rbind (on_first (\<lambda>i. rbind (pget i ''type'' PNone) (\<lambda>t. Inr (t = PStr ''text'')))
                 (\<lambda>i. pset i ''text'' (PStr content)) items)
          (\<lambda>items'. Inr (od_set ''content'' (PList items') m))
    | _ \<Rightarrow> Inr (od_set ''content'' (PStr content) m))"

definition set_last_user_message_content :: "string \<Rightarrow> message list \<Rightarrow> message list res" where
  "set_last_user_message_content content ms =
     rmap rev (on_first (\<lambda>m. Inr (msg_get m ''role'' = PStr ''user'')) (set_text_part content) (rev ms))"

definition joined :: "(rat \<Rightarrow> string) \<Rightarrow> string \<Rightarrow> bool \<Rightarrow> pv \<Rightarrow> pv" where
  "joined f content app old =
     PStr (if app then py_str f old @ nl @ content else content @ nl @ py_str f old)"

definition update_text_part :: "(rat \<Rightarrow> string) \<Rightarrow> string \<Rightarrow> bool \<Rightarrow> pv \<Rightarrow> pv res" where
  "update_text_part f content app item = rbind (pidx item ''type'') (\<lambda>t.
     if t = PStr ''text'' then rbind (pidx item ''text'') (\<lambda>old. pset item ''text'' (joined f content app old))
     else Inr item)"

definition update_message_content :: "(rat \<Rightarrow> string) \<Rightarrow> message \<Rightarrow> string \<Rightarrow> bool \<Rightarrow> message res" where
  "update_message_content f m content app = rbind (msg_idx m ''content'') (\<lambda>c. case c of
      PList items \<Rightarrow> rbind (rmapM (update_text_part f content app) items)
        (\<lambda>items'. Inr (od_set ''content'' (PList items') m))
    | _ \<Rightarrow> Inr (od_set ''content'' (joined f content app c) m))"

definition has_role :: "string \<Rightarrow> message \<Rightarrow> bool res" where
  "has_role role m = rbind (msg_idx m ''role'') (\<lambda>r. Inr (r = PStr role))"

definition replace_system_message_content :: "string \<Rightarrow> message list \<Rightarrow> message list res" where
  "replace_system_message_content content ms =
     on_first (has_role ''system'') (\<lambda>m. Inr (od_set ''content'' (PStr content) m)) ms"

definition add_or_update_system_message :: "(rat \<Rightarrow> string) \<Rightarrow> string \<Rightarrow> message list \<Rightarrow> bool \<Rightarrow> message list res" where
  "add_or_update_system_message f content ms app = (case ms of
      m # rest \<Rightarrow>
        (if msg_get m ''role'' = PStr ''system''
         then rbind (update_message_content f m content app) (\<lambda>m'. Inr (m' # rest))
         else Inr ([(''role'', PStr ''system''), (''content'', PStr content)] # ms))
    | [] \<Rightarrow> Inr [[(''role'', PStr ''system''), (''content'', PStr content)]])"

definition add_or_update_user_message :: "(rat \<Rightarrow> string) \<Rightarrow> string \<Rightarrow> message list \<Rightarrow> bool \<Rightarrow> message list res" where
  "add_or_update_user_message f content ms app =
     (if ms \<noteq> [] \<and> msg_get (last ms) ''role'' = PStr ''user''
      then rbind (update_message_content f (last ms) content app) (\<lambda>m'. Inr (butlast ms @ [m']))
      else Inr (ms @ [[(''role'', PStr ''user''), (''content'', PStr content)]]))"

definition prepend_to_first_user_message_content :: "(rat \<Rightarrow> string) \<Rightarrow> string \<Rightarrow> message list \<Rightarrow> message list res" where
  "prepend_to_first_user_message_content f content ms =
     on_first (has_role ''user'') (\<lambda>m. update_message_content f m content False) ms"

definition append_or_update_assistant_message :: "(rat \<Rightarrow> string) \<Rightarrow> string \<Rightarrow> message list \<Rightarrow> message list res" where
  "append_or_update_assistant_message f content ms =
     (if ms \<noteq> [] \<and> msg_get (last ms) ''role'' = PStr ''assistant''
      then rbind (msg_idx (last ms) ''content'') (\<lambda>c.
        Inr (butlast ms @ [od_set ''content'' (PStr (py_str f c @ nl @ content)) (last ms)]))
      else Inr (ms @ [[(''role'', PStr ''assistant''), (''content'', PStr content)]]))"

text \<open>\<^verbatim>\<open>block.get('text', '').strip()\<close> is looked at only for text blocks.\<close>

definition empty_text_block :: "pv \<Rightarrow> bool res" where
  "empty_text_block b = (case b of
      PDict d \<Rightarrow>
        (if od_getd d ''type'' PNone = PStr ''text''
         then rbind (pstr (od_getd d ''text'' (PStr []))) (\<lambda>t. Inr (py_strip t = []))
         else Inr False)
    | _ \<Rightarrow> Inr False)"

definition strip_blocks :: "message \<Rightarrow> message res" where
  "strip_blocks m = (case msg_get m ''content'' of
      PList items \<Rightarrow> rbind (rfilterM (\<lambda>b. rmap Not (empty_text_block b)) items) (\<lambda>cleaned.
        Inr (if cleaned = [] then m else od_set ''content'' (PList cleaned) m))
    | _ \<Rightarrow> Inr m)"

definition strip_empty_content_blocks :: "message list \<Rightarrow> message list res" where
  "strip_empty_content_blocks ms = rmapM strip_blocks ms"

section \<open>The loop over a history\<close>

text \<open>A stored history: every message is a dictionary with a string as its id, and its parent is
  the id of another message or null.\<close>

definition well_linked :: "pdict \<Rightarrow> bool" where
  "well_linked m = (\<forall>v\<in>snd ` set m. \<exists>d. v = PDict d \<and> is_str (od_getd d ''id'' PNone) \<and>
     (od_getd d ''parentId'' PNone = PNone \<or> is_str (od_getd d ''parentId'' PNone)))"

definition id_of :: "pv \<Rightarrow> pv" where
  "id_of v = (case v of PDict d \<Rightarrow> od_getd d ''id'' PNone | _ \<Rightarrow> PNone)"

definition parent_msg :: "pdict \<Rightarrow> pv \<Rightarrow> pv option" where
  "parent_msg m v = (case v of
      PDict d \<Rightarrow> (case od_getd d ''parentId'' PNone of
          PStr p \<Rightarrow> (if p = [] then None else od_get m p)
        | _ \<Rightarrow> None)
    | _ \<Rightarrow> None)"

text \<open>The messages from the root of a branch down to the given one\<close>

definition chain_of :: "pdict \<Rightarrow> string \<Rightarrow> pv list \<Rightarrow> bool" where
  "chain_of m i out = (case od_get m i of
      None \<Rightarrow> out = []
    | Some v \<Rightarrow> out \<noteq> [] \<and> last out = v \<and>
        successively (\<lambda>a b. parent_msg m b = Some a) out \<and> distinct (map id_of out) \<and>
        (case parent_msg m (hd out) of None \<Rightarrow> True | Some p \<Rightarrow> id_of p \<in> id_of ` set out))"

lemma well_linkedE:
  assumes "well_linked m" and "v \<in> snd ` set m"
  obtains d s where "v = PDict d" and "od_getd d ''id'' PNone = PStr s" and "d \<noteq> []"
    and "od_getd d ''parentId'' PNone = PNone \<or> is_str (od_getd d ''parentId'' PNone)"
proof -
  from assms obtain d where d: "v = PDict d" "is_str (od_getd d ''id'' PNone)"
    "od_getd d ''parentId'' PNone = PNone \<or> is_str (od_getd d ''parentId'' PNone)"
    unfolding well_linked_def by blast
  then obtain s where "od_getd d ''id'' PNone = PStr s" by (cases "od_getd d ''id'' PNone") auto
  moreover from this have "d \<noteq> []" by auto
  ultimately show ?thesis using that d by blast
qed

lemma list_step_well_linked:
  assumes "well_linked m" and "cur \<in> snd ` set m"
  shows "list_step (PDict m) cur visited =
    Inr (if id_of cur \<in> set visited then None
         else Some (case parent_msg m cur of None \<Rightarrow> PNone | Some p \<Rightarrow> p, id_of cur # visited))"
proof -
  obtain d s where d: "cur = PDict d" "od_getd d ''id'' PNone = PStr s"
    and p: "od_getd d ''parentId'' PNone = PNone \<or> is_str (od_getd d ''parentId'' PNone)"
    using assms by (rule well_linkedE)
  have eq: "od_getd m q PNone = (case od_get m q of None \<Rightarrow> PNone | Some p \<Rightarrow> p)" for q
    by (simp add: od_getd_def)
  show ?thesis
    using p by (cases "od_getd d ''parentId'' PNone") (auto simp: list_step_def d id_of_def parent_msg_def eq)
qed

lemma parent_in_map: "parent_msg m v = Some p \<Longrightarrow> p \<in> snd ` set m"
  by (auto simp: parent_msg_def split: pv.splits if_splits dest!: map_of_SomeD intro: rev_image_eqI)

lemma list_walk_chain:
  assumes "well_linked m" and "cur \<in> snd ` set m" and "set visited = id_of ` set acc"
    and "successively (\<lambda>a b. parent_msg m a = Some b) (acc @ [cur])" and "distinct (map id_of acc)"
  shows "\<exists>out. list_walk (PDict m) cur visited acc = Some (Inr out) \<and> out \<noteq> [] \<and> hd out = hd (acc @ [cur]) \<and>
    successively (\<lambda>a b. parent_msg m a = Some b) out \<and> distinct (map id_of out) \<and>
    (case parent_msg m (last out) of None \<Rightarrow> True | Some p \<Rightarrow> id_of p \<in> id_of ` set out)"
  using assms(2-)
proof (induction "card (id_of ` snd ` set m - set visited)" arbitrary: cur visited acc rule: less_induct)
  case less
  obtain d s where d: "cur = PDict d" "d \<noteq> []" using assms(1) less.prems(1) by (rule well_linkedE)
  then have truthy_cur: "truthy cur = True" by simp
  show ?case
  proof (cases "id_of cur \<in> set visited")
    case True
    then have "list_walk (PDict m) cur visited acc = Some (Inr acc)"
      by (subst list_walk.simps)
        (simp only: list_step_well_linked [OF assms(1) less.prems(1)] truthy_cur True if_True not_True_eq_False
          if_False sum.case option.case)
    moreover from True less.prems(2) have "acc \<noteq> []" by auto
    moreover from this less.prems(3) have "parent_msg m (last acc) = Some cur"
      by (simp add: successively_append_iff)
    ultimately show ?thesis using less.prems True by (auto simp: successively_append_iff)
  next
    case False
    let ?acc = "acc @ [cur]"
    have walk: "list_walk (PDict m) cur visited acc =
        list_walk (PDict m) (case parent_msg m cur of None \<Rightarrow> PNone | Some p \<Rightarrow> p) (id_of cur # visited) ?acc"
      by (subst list_walk.simps)
        (simp only: list_step_well_linked [OF assms(1) less.prems(1)] truthy_cur False not_True_eq_False
          if_False sum.case option.case prod.case)
    have dist: "distinct (map id_of ?acc)" using less.prems(2,4) False by auto
    show ?thesis
    proof (cases "parent_msg m cur")
      case None
      then have "list_walk (PDict m) cur visited acc = Some (Inr ?acc)"
        unfolding walk by (subst list_walk.simps) simp
      with None dist less.prems(3) show ?thesis by auto
    next
      case (Some p)
      have mem: "id_of cur \<in> id_of ` snd ` set m" using less.prems(1) by blast
      have "id_of ` snd ` set m - set (id_of cur # visited) \<subset> id_of ` snd ` set m - set visited"
        using False mem by auto
      then have "card (id_of ` snd ` set m - set (id_of cur # visited)) < card (id_of ` snd ` set m - set visited)"
        by (intro psubset_card_mono) auto
      then have "\<exists>out. list_walk (PDict m) p (id_of cur # visited) ?acc = Some (Inr out) \<and> out \<noteq> [] \<and>
          hd out = hd (?acc @ [p]) \<and>
          successively (\<lambda>a b. parent_msg m a = Some b) out \<and> distinct (map id_of out) \<and>
          (case parent_msg m (last out) of None \<Rightarrow> True | Some p \<Rightarrow> id_of p \<in> id_of ` set out)"
        using Some less.prems dist
        by (intro less.hyps) (auto simp: successively_append_iff intro: parent_in_map)
      moreover have "hd (?acc @ [p]) = hd ?acc" by (cases acc) auto
      ultimately show ?thesis using walk Some by simp
    qed
  qed
qed

text \<open>C20 On a history whose messages have ids, reading the branch of a message returns, whatever
  the parent links are: the list ends with the message, each message follows its parent, no
  message occurs twice, and the first one has no parent in the history or one that is already
  in the list. An unknown message gives the empty list.\<close>

theorem get_message_list_exact:
  assumes "well_linked m"
  shows "\<exists>out. get_message_list (PDict m) (PStr i) = Some (Inr out) \<and> chain_of m i out"
proof (cases "od_get m i")
  case None
  then show ?thesis
    by (auto simp: get_message_list_def chain_of_def od_getd_def)
next
  case (Some v)
  then have mem: "v \<in> snd ` set m" by (auto dest!: map_of_SomeD intro: rev_image_eqI)
  then have m: "m \<noteq> []" by auto
  obtain d where d: "v = PDict d" "d \<noteq> []" using assms mem by (rule well_linkedE)
  obtain out where out: "list_walk (PDict m) v [] [] = Some (Inr out)" "out \<noteq> []" "hd out = v"
    "successively (\<lambda>a b. parent_msg m a = Some b) out" "distinct (map id_of out)"
    "case parent_msg m (last out) of None \<Rightarrow> True | Some p \<Rightarrow> id_of p \<in> id_of ` set out"
    using list_walk_chain [OF assms mem, of "[]" "[]"] by auto
  have "get_message_list (PDict m) (PStr i) = Some (Inr (rev out))"
    using Some out(1) m d by (simp add: get_message_list_def od_getd_def)
  moreover have "chain_of m i (rev out)"
    using out(2-) Some by (simp add: chain_of_def last_rev hd_rev rev_map [symmetric] cong: option.case_cong)
  ultimately show ?thesis by blast
qed

theorem get_message_list_exact_witness:
  "\<exists>out. get_message_list (PDict [(''a'', PDict [(''id'', PStr ''a'')]),
        (''b'', PDict [(''id'', PStr ''b''), (''parentId'', PStr ''a'')])]) (PStr ''b'') = Some (Inr out) \<and>
     chain_of [(''a'', PDict [(''id'', PStr ''a'')]),
        (''b'', PDict [(''id'', PStr ''b''), (''parentId'', PStr ''a'')])] ''b'' out"
  by (rule get_message_list_exact) (simp add: well_linked_def)

text \<open>The guard against cycles looks at ids only: a message without one that is its own parent keeps
  the loop running.\<close>

theorem message_without_id_never_returns:
  assumes "od_get m k = Some (PDict d)" and "od_getd d ''id'' PNone = PNone"
    and "od_getd d ''parentId'' PNone = PStr k" and "k \<noteq> []"
  shows "get_message_list (PDict m) (PStr k) = None"
proof -
  have ne: "d \<noteq> []" "m \<noteq> []" using assms by auto
  have step: "list_step (PDict m) (PDict d) [] = Inr (Some (PDict d, []))"
    using assms by (simp add: list_step_def od_getd_def)
  have loops: "m' = PDict m \<longrightarrow> c = PDict d \<longrightarrow> v \<noteq> []" if "list_walk m' c v acc = Some r" for m' c v acc r
    using _ that
  proof (rule list_walk.raw_induct [where P = "\<lambda>m' c v acc r. m' = PDict m \<longrightarrow> c = PDict d \<longrightarrow> v \<noteq> []"],
      intro impI notI)
    fix walk m' c v acc r
    assume IH: "\<And>m' c v acc r. walk m' c v acc = Some r \<Longrightarrow> m' = PDict m \<longrightarrow> c = PDict d \<longrightarrow> v \<noteq> []"
      and body: "(if \<not> truthy c then Some (Inr acc)
        else case list_step m' c v of Inl e \<Rightarrow> Some (Inl e) | Inr None \<Rightarrow> Some (Inr acc)
          | Inr (Some (nxt, visited')) \<Rightarrow> walk m' nxt visited' (acc @ [c])) = Some r"
      and eqs: "m' = PDict m" "c = PDict d" "v = []"
    then have "walk (PDict m) (PDict d) [] (acc @ [PDict d]) = Some r" using step ne(1) by simp
    from IH [OF this] show False by simp
  qed
  have "list_walk (PDict m) (PDict d) [] [] = None"
  proof (rule ccontr)
    assume "list_walk (PDict m) (PDict d) [] [] \<noteq> None"
    then obtain r where "list_walk (PDict m) (PDict d) [] [] = Some r" by auto
    from loops [OF this] show False by simp
  qed
  then show ?thesis
    using assms(1) ne by (simp add: get_message_list_def od_getd_def)
qed

end
