(* ===== verification/Tool_Pairs.thy ===== *)
theory Tool_Pairs
  imports Chat_Messages
begin

text \<open>
  Tool calls and their results in a conversation. Two passes drop the calls without a result
  and the results without a call: \<open>reconcile_tool_pairs\<close> of \<^verbatim>\<open>backend/openlaunch/utils/misc.py\<close>,
  for conversations rebuilt from stored output, and \<open>sanitize_tool_pairs\<close> of
  \<^verbatim>\<open>backend/openlaunch/utils/middleware.py\<close>, before a request is sent. They differ in what they do
  with an assistant message that has lost all its calls; the locale \<open>pairing\<close> holds what they
  have in common, over that choice.
\<close>

section \<open>The two passes over a conversation\<close>

definition is_tool :: "message \<Rightarrow> bool" where
  "is_tool m = (msg_get m ''role'' = PStr ''tool'')"

definition is_assistant :: "message \<Rightarrow> bool" where
  "is_assistant m = (msg_get m ''role'' = PStr ''assistant'')"

definition tool_id :: "message \<Rightarrow> pv" where
  "tool_id m = msg_get m ''tool_call_id''"

definition tool_calls :: "message \<Rightarrow> pv" where
  "tool_calls m = msg_get m ''tool_calls''"

fun completed_tool_call_ids :: "message list \<Rightarrow> pv list res" where
  "completed_tool_call_ids [] = Inr []"
| "completed_tool_call_ids (m # ms) =
     (if is_tool m \<and> truthy (tool_id m)
      then rbind (hash_key (tool_id m)) (\<lambda>h.
        rbind (completed_tool_call_ids ms) (\<lambda>hs. Inr (h # hs)))
      else completed_tool_call_ids ms)"

fun ids_of_calls :: "pv list \<Rightarrow> pv list res" where
  "ids_of_calls [] = Inr []"
| "ids_of_calls (tc # tcs) = rbind (pget tc ''id'' PNone) (\<lambda>i.
     if truthy i then rbind (hash_key i) (\<lambda>h. rbind (ids_of_calls tcs) (\<lambda>hs. Inr (h # hs)))
     else ids_of_calls tcs)"

fun requested_tool_call_ids :: "message list \<Rightarrow> pv list res" where
  "requested_tool_call_ids [] = Inr []"
| "requested_tool_call_ids (m # ms) =
     rbind (piter (py_or (tool_calls m) (PList []))) (\<lambda>tcs.
     rbind (if is_assistant m then ids_of_calls tcs else Inr []) (\<lambda>hs.
     rbind (requested_tool_call_ids ms) (\<lambda>hs'. Inr (hs @ hs'))))"

text \<open>\<^verbatim>\<open>content.strip() if isinstance(content, str) else content\<close>, as a truth value\<close>

definition meaningful_content :: "message \<Rightarrow> bool" where
  "meaningful_content m = (case od_getd m ''content'' (PStr []) of
      PStr s \<Rightarrow> py_strip s \<noteq> []
    | c \<Rightarrow> truthy c)"

definition call_completed :: "pv list \<Rightarrow> pv \<Rightarrow> bool res" where
  "call_completed completed tc =
     rbind (pget tc ''id'' PNone) (\<lambda>i. rbind (hash_key i) (\<lambda>h. Inr (h \<in> set completed)))"

text \<open>One message of the loop: None leaves it out.\<close>

definition reconcile_message :: "pv list \<Rightarrow> pv list \<Rightarrow> message \<Rightarrow> message option res" where
  "reconcile_message completed requested m =
     (if is_tool m
      then rbind (hash_key (tool_id m)) (\<lambda>h. Inr (if h \<notin> set requested then None else Some m))
      else if \<not> is_assistant m \<or> \<not> truthy (tool_calls m) then Inr (Some m)
      else rbind (piter (tool_calls m)) (\<lambda>tcs.
        rbind (rfilterM (call_completed completed) tcs) (\<lambda>valid.
          Inr (if valid \<noteq> [] then Some (od_set ''tool_calls'' (PList valid) m)
               else if meaningful_content m \<or> truthy (msg_get m ''reasoning_content'')
                 then Some (od_del ''tool_calls'' m)
               else None))))"

definition reconcile_tool_pairs :: "message list \<Rightarrow> message list res" where
  "reconcile_tool_pairs ms =
     rbind (completed_tool_call_ids ms) (\<lambda>completed.
     rbind (requested_tool_call_ids ms) (\<lambda>requested.
     rbind (rmapM (reconcile_message completed requested) ms) (\<lambda>rs. Inr (somes rs))))"

text \<open>The pass of \<^verbatim>\<open>utils/middleware.py\<close> before a request is sent\<close>

definition without_calls :: "message \<Rightarrow> message option" where
  "without_calls m = (let clean = od_del ''reasoning_items'' (od_del ''tool_calls'' m)
     in if truthy (msg_get clean ''content'') then Some clean else None)"

definition sanitize_message :: "pv list \<Rightarrow> pv list \<Rightarrow> message \<Rightarrow> message option res" where
  "sanitize_message results calls m =
     (if is_assistant m \<and> truthy (tool_calls m)
      then rbind (piter (tool_calls m)) (\<lambda>tcs. rbind (rfilterM (call_completed results) tcs) (\<lambda>keep.
        Inr (if keep \<noteq> [] then Some (od_set ''tool_calls'' (PList keep) m) else without_calls m)))
      else if \<not> is_tool m then Inr (Some m)
      else rbind (hash_key (tool_id m)) (\<lambda>h. Inr (if h \<in> set calls then Some m else None)))"

definition sanitize_tool_pairs :: "message list \<Rightarrow> message list res" where
  "sanitize_tool_pairs ms =
     rbind (completed_tool_call_ids ms) (\<lambda>results.
     rbind (requested_tool_call_ids ms) (\<lambda>calls.
     rbind (rmapM (sanitize_message results calls) ms) (\<lambda>rs. Inr (somes rs))))"

section \<open>What pairing means\<close>

text \<open>The keys of the ids of an assistant's calls and of the results in a list of messages\<close>

definition key :: "pv \<Rightarrow> pv" where
  "key v = (case hash_key v of Inl e \<Rightarrow> v | Inr h \<Rightarrow> h)"

definition calls_of_msg :: "message \<Rightarrow> pv list" where
  "calls_of_msg m = (if is_assistant m
     then (case tool_calls m of PList tcs \<Rightarrow> tcs | _ \<Rightarrow> []) else [])"

definition call_keys :: "message list \<Rightarrow> pv set" where
  "call_keys ms = (\<Union>m\<in>set ms. (key \<circ> id_of) ` set (calls_of_msg m))"

definition result_keys :: "message list \<Rightarrow> pv set" where
  "result_keys ms = (key \<circ> tool_id) ` set (filter is_tool ms)"

text \<open>Every call has a result and every result a call, with ids that are not empty.\<close>

definition paired :: "message list \<Rightarrow> bool" where
  "paired ms = (call_keys ms = result_keys ms \<and> (\<forall>k\<in>call_keys ms. truthy k))"

text \<open>Messages of the shape that the providers use: ids have a hash, the calls are a list of
  dictionaries.\<close>

definition has_hash :: "pv \<Rightarrow> bool" where
  "has_hash v = (\<not> is_list v \<and> \<not> is_dict v)"

definition call_ok :: "pv \<Rightarrow> bool" where
  "call_ok tc = (is_dict tc \<and> has_hash (id_of tc))"

definition message_ok :: "message \<Rightarrow> bool" where
  "message_ok m = (
     (is_tool m \<longrightarrow> has_hash (tool_id m)) \<and>
     (truthy (tool_calls m) \<longrightarrow> is_list (tool_calls m)) \<and>
     (\<forall>tc\<in>set (calls_of_msg m). call_ok tc))"

lemma not_both: "is_tool m \<Longrightarrow> is_assistant m \<Longrightarrow> False"
  by (simp add: is_tool_def is_assistant_def)

lemma role_kept [simp]:
  "is_tool (od_set ''tool_calls'' v m) = is_tool m" "is_assistant (od_set ''tool_calls'' v m) = is_assistant m"
  "is_tool (od_del ''tool_calls'' m) = is_tool m" "is_assistant (od_del ''tool_calls'' m) = is_assistant m"
  "tool_calls (od_set ''tool_calls'' v m) = v" "tool_calls (od_del ''tool_calls'' m) = PNone"
  "tool_id (od_set ''tool_calls'' v m) = tool_id m" "tool_id (od_del ''tool_calls'' m) = tool_id m"
  by (simp_all add: is_tool_def is_assistant_def tool_calls_def tool_id_def msg_get_def)

lemma hash_key_ok [simp]: "has_hash v \<Longrightarrow> hash_key v = Inr (key v)"
  by (cases v) (simp_all add: has_hash_def key_def hash_key_def)

lemma truthy_key [simp]: "truthy (key v) = truthy v"
proof (cases v)
  case (PFlt x)
  then show ?thesis
    by (cases "of_int \<lfloor>x\<rfloor> = x") (auto simp: key_def hash_key_def)
qed (simp_all add: key_def hash_key_def)

lemma pget_id_ok [simp]: "call_ok tc \<Longrightarrow> pget tc ''id'' PNone = Inr (id_of tc)"
  by (cases tc) (simp_all add: call_ok_def id_of_def)

lemma call_ok_hash [simp]: "call_ok tc \<Longrightarrow> has_hash (id_of tc)"
  by (simp add: call_ok_def)

text \<open>The loop on such messages, without its error branches\<close>

definition kept :: "(message \<Rightarrow> message option) \<Rightarrow> pv set \<Rightarrow> pv set \<Rightarrow> message \<Rightarrow> message option" where
  "kept lost C R m =
     (if is_tool m
      then (if key (tool_id m) \<in> R then Some m else None)
      else if calls_of_msg m = [] then Some m
      else (let valid = filter (\<lambda>tc. key (id_of tc) \<in> C) (calls_of_msg m) in
        if valid \<noteq> [] then Some (od_set ''tool_calls'' (PList valid) m)
        else lost m))"

lemma completed_ok:
  "\<forall>m\<in>set ms. message_ok m \<Longrightarrow>
    \<exists>hs. completed_tool_call_ids ms = Inr hs \<and> set hs = {k \<in> result_keys ms. truthy k}"
proof (induction ms)
  case Nil
  then show ?case by (simp add: result_keys_def)
next
  case (Cons m ms)
  have "\<forall>m\<in>set ms. message_ok m" using Cons.prems by simp
  with Cons.IH obtain hs where hs: "completed_tool_call_ids ms = Inr hs" "set hs = {k \<in> result_keys ms. truthy k}"
    by blast
  show ?case
  proof (cases "is_tool m")
    case True
    have "message_ok m" using Cons.prems by simp
    then have "has_hash (tool_id m)" using True by (simp only: message_ok_def)
    then have key: "hash_key (tool_id m) = Inr (key (tool_id m))" by (rule hash_key_ok)
    have keys: "result_keys (m # ms) = insert (key (tool_id m)) (result_keys ms)"
      using True by (simp add: result_keys_def)
    show ?thesis
    proof (cases "truthy (tool_id m)")
      case t: True
      have "completed_tool_call_ids (m # ms) = Inr (key (tool_id m) # hs)" using True t key hs(1) by simp
      moreover have "set (key (tool_id m) # hs) = {k \<in> result_keys (m # ms). truthy k}"
        using t by (auto simp: hs(2) keys)
      ultimately show ?thesis by (intro exI conjI)
    next
      case f: False
      have "completed_tool_call_ids (m # ms) = Inr hs" using f hs(1) by simp
      moreover have "set hs = {k \<in> result_keys (m # ms). truthy k}"
        using f by (auto simp: hs(2) keys)
      ultimately show ?thesis by (intro exI conjI)
    qed
  next
    case False
    then have "result_keys (m # ms) = result_keys ms" by (simp add: result_keys_def)
    with False hs show ?thesis by simp
  qed
qed

lemma ids_of_calls_ok:
  "\<forall>tc\<in>set tcs. call_ok tc \<Longrightarrow>
    \<exists>hs. ids_of_calls tcs = Inr hs \<and> set hs = {k \<in> (key \<circ> id_of) ` set tcs. truthy k}"
  by (induction tcs) auto

lemma tool_calls_list:
  assumes "message_ok m"
  shows "\<exists>tcs. piter (py_or (tool_calls m) (PList [])) = Inr tcs \<and>
    (is_assistant m \<longrightarrow> tcs = calls_of_msg m)"
proof (cases "truthy (tool_calls m)")
  case True
  with assms obtain tcs where "tool_calls m = PList tcs"
    by (cases "tool_calls m") (auto simp: message_ok_def)
  with True show ?thesis by (simp add: calls_of_msg_def)
next
  case False
  then show ?thesis by (cases "tool_calls m") (simp_all add: calls_of_msg_def)
qed

lemma requested_ok:
  "\<forall>m\<in>set ms. message_ok m \<Longrightarrow>
    \<exists>hs. requested_tool_call_ids ms = Inr hs \<and> set hs = {k \<in> call_keys ms. truthy k}"
proof (induction ms)
  case Nil
  then show ?case by (simp add: call_keys_def)
next
  case (Cons m ms)
  have "\<forall>m\<in>set ms. message_ok m" using Cons.prems by simp
  with Cons.IH obtain hs where hs: "requested_tool_call_ids ms = Inr hs" "set hs = {k \<in> call_keys ms. truthy k}"
    by blast
  obtain tcs where tcs: "piter (py_or (tool_calls m) (PList [])) = Inr tcs"
    "is_assistant m \<longrightarrow> tcs = calls_of_msg m"
    using tool_calls_list [of m] Cons.prems by auto
  have keys: "call_keys (m # ms) = (key \<circ> id_of) ` set (calls_of_msg m) \<union> call_keys ms"
    by (auto simp: call_keys_def)
  show ?case
  proof (cases "is_assistant m")
    case True
    have "\<forall>tc\<in>set tcs. call_ok tc" using Cons.prems True tcs(2) by (simp add: message_ok_def)
    then obtain hs' where "ids_of_calls tcs = Inr hs'" "set hs' = {k \<in> (key \<circ> id_of) ` set tcs. truthy k}"
      using ids_of_calls_ok by blast
    with True tcs hs show ?thesis by (auto simp: keys)
  next
    case False
    then have "calls_of_msg m = []" by (simp add: calls_of_msg_def)
    with False tcs(1) hs show ?thesis by (auto simp: keys)
  qed
qed

lemma calls_of_tool [simp]: "is_tool m \<Longrightarrow> calls_of_msg m = []"
  using not_both by (auto simp: calls_of_msg_def)

lemma calls_of_set [simp]:
  "calls_of_msg (od_set ''tool_calls'' (PList tcs) m) = (if is_assistant m then tcs else [])"
  "calls_of_msg (od_del ''tool_calls'' m) = []"
  by (simp_all add: calls_of_msg_def)

lemma calls_assistant: "calls_of_msg m \<noteq> [] \<Longrightarrow> is_assistant m"
  by (auto simp: calls_of_msg_def split: if_splits)

text \<open>A pass on such messages\<close>

definition pair_up :: "(message \<Rightarrow> message option) \<Rightarrow> message list \<Rightarrow> message list" where
  "pair_up lost ms =
     somes (map (kept lost {k \<in> result_keys ms. truthy k} {k \<in> call_keys ms. truthy k}) ms)"

section \<open>What the passes have in common\<close>

text \<open>A pass over a conversation that, on messages of the usual shape, keeps the pairs and treats an
  assistant message that has lost all its calls by \<open>lost\<close>, which keeps its role and removes the
  calls\<close>

locale pairing =
  fixes pass :: "message list \<Rightarrow> message list res"
    and lost :: "message \<Rightarrow> message option"
  assumes pass_pairs: "\<forall>m\<in>set ms. message_ok m \<Longrightarrow> pass ms = Inr (pair_up lost ms)"
    and lost_keeps: "lost m = Some m' \<Longrightarrow> is_tool m' = is_tool m \<and> is_assistant m' = is_assistant m \<and>
      tool_id m' = tool_id m \<and> tool_calls m' = PNone"
begin

lemma lost_calls: "lost m = Some m' \<Longrightarrow> calls_of_msg m' = []"
  using lost_keeps by (simp add: calls_of_msg_def)

lemma kept_Some:
  assumes "kept lost C R m = Some m'"
  shows "is_tool m' = is_tool m \<and> is_assistant m' = is_assistant m \<and> tool_id m' = tool_id m \<and>
    (is_tool m \<longrightarrow> key (tool_id m) \<in> R) \<and> (is_tool m \<or> is_assistant m \<or> m' = m) \<and>
    calls_of_msg m' = filter (\<lambda>tc. key (id_of tc) \<in> C) (calls_of_msg m)"
proof (cases "is_tool m \<or> calls_of_msg m = []")
  case True
  with assms show ?thesis by (auto simp: kept_def split: if_splits)
next
  case False
  then have "is_assistant m" using calls_assistant by simp
  with False assms show ?thesis using lost_keeps lost_calls by (auto simp: kept_def Let_def split: if_splits)
qed

lemma kept_call:
  assumes "tc \<in> set (calls_of_msg m)" and "key (id_of tc) \<in> C"
  shows "\<exists>m'. kept lost C R m = Some m'"
proof -
  have "filter (\<lambda>tc. key (id_of tc) \<in> C) (calls_of_msg m) \<noteq> []" using assms by (auto simp: filter_empty_conv)
  moreover have "\<not> is_tool m" "calls_of_msg m \<noteq> []" using assms(1) by auto
  ultimately show ?thesis by (simp add: kept_def Let_def)
qed

lemma call_keys_kept: "call_keys (somes (map (kept lost C R) ms)) = call_keys ms \<inter> C"
proof (intro subset_antisym subsetI)
  fix k
  assume "k \<in> call_keys (somes (map (kept lost C R) ms))"
  then obtain m' tc where m': "m' \<in> set (somes (map (kept lost C R) ms))" "tc \<in> set (calls_of_msg m')" "k = key (id_of tc)"
    by (auto simp: call_keys_def)
  then obtain m where m: "m \<in> set ms" "kept lost C R m = Some m'" by (auto simp: set_somes)
  from kept_Some [OF m(2)] m'(2) have "tc \<in> set (calls_of_msg m)" "key (id_of tc) \<in> C" by auto
  with m(1) m'(3) show "k \<in> call_keys ms \<inter> C" by (auto simp: call_keys_def)
next
  fix k
  assume "k \<in> call_keys ms \<inter> C"
  then obtain m tc where m: "m \<in> set ms" "tc \<in> set (calls_of_msg m)" "k = key (id_of tc)" "key (id_of tc) \<in> C"
    by (auto simp: call_keys_def)
  obtain m' where m': "kept lost C R m = Some m'" using kept_call [OF m(2,4)] by blast
  have "m' \<in> set (somes (map (kept lost C R) ms))" unfolding set_somes using m(1) m' [symmetric] by auto
  moreover have "tc \<in> set (calls_of_msg m')" using kept_Some [OF m'] m(2,4) by simp
  ultimately show "k \<in> call_keys (somes (map (kept lost C R) ms))" using m(3) by (auto simp: call_keys_def)
qed

lemma result_keys_kept: "result_keys (somes (map (kept lost C R) ms)) = result_keys ms \<inter> R"
proof (intro subset_antisym subsetI)
  fix k
  assume "k \<in> result_keys (somes (map (kept lost C R) ms))"
  then obtain m' where m': "m' \<in> set (somes (map (kept lost C R) ms))" "is_tool m'" "k = key (tool_id m')"
    by (auto simp: result_keys_def)
  then obtain m where m: "m \<in> set ms" "kept lost C R m = Some m'" by (auto simp: set_somes)
  from kept_Some [OF m(2)] m' have "is_tool m" "k = key (tool_id m)" "key (tool_id m) \<in> R" by auto
  with m(1) show "k \<in> result_keys ms \<inter> R" by (auto simp: result_keys_def)
next
  fix k
  assume "k \<in> result_keys ms \<inter> R"
  then obtain m where m: "m \<in> set ms" "is_tool m" "k = key (tool_id m)" "key (tool_id m) \<in> R"
    by (auto simp: result_keys_def)
  then have "m \<in> set (somes (map (kept lost C R) ms))" unfolding set_somes by (auto simp: kept_def image_iff)
  with m show "k \<in> result_keys (somes (map (kept lost C R) ms))" by (auto simp: result_keys_def)
qed

lemma kept_paired:
  assumes "message_ok m" and "is_tool m \<longrightarrow> key (tool_id m) \<in> R"
    and "\<forall>tc\<in>set (calls_of_msg m). key (id_of tc) \<in> C"
  shows "kept lost C R m = Some m"
proof (cases "is_tool m \<or> calls_of_msg m = []")
  case True
  with assms(2) show ?thesis by (auto simp: kept_def)
next
  case False
  then have "is_assistant m" using calls_assistant by simp
  with False have "tool_calls m = PList (calls_of_msg m)" by (auto simp: calls_of_msg_def split: pv.splits)
  then have "od_get m ''tool_calls'' = Some (PList (calls_of_msg m))"
    by (auto simp: tool_calls_def msg_get_def od_getd_def split: option.splits)
  then have "od_set ''tool_calls'' (PList (calls_of_msg m)) m = m" by (rule update_triv)
  moreover have "filter (\<lambda>tc. key (id_of tc) \<in> C) (calls_of_msg m) = calls_of_msg m"
    using assms(3) by (simp add: filter_id_conv)
  ultimately show ?thesis using False by (simp add: kept_def Let_def)
qed

lemma pass_paired_id:
  assumes "\<forall>m\<in>set ms. message_ok m" and "paired ms"
  shows "pass ms = Inr ms"
proof -
  have eq: "call_keys ms = result_keys ms" and tr: "\<And>k. k \<in> call_keys ms \<Longrightarrow> truthy k"
    using assms(2) by (auto simp: paired_def)
  have "kept lost {k \<in> result_keys ms. truthy k} {k \<in> call_keys ms. truthy k} m = Some m" if m: "m \<in> set ms" for m
  proof (rule kept_paired)
    show "message_ok m" using assms(1) m by blast
    have "is_tool m \<Longrightarrow> key (tool_id m) \<in> result_keys ms" using m by (auto simp: result_keys_def)
    then show "is_tool m \<longrightarrow> key (tool_id m) \<in> {k \<in> call_keys ms. truthy k}"
      using eq tr [of "key (tool_id m)"] by auto
    have "tc \<in> set (calls_of_msg m) \<Longrightarrow> key (id_of tc) \<in> call_keys ms" for tc
      using m by (auto simp: call_keys_def)
    then show "\<forall>tc\<in>set (calls_of_msg m). key (id_of tc) \<in> {k \<in> result_keys ms. truthy k}"
      using eq tr by (metis (no_types, lifting) mem_Collect_eq)
  qed
  then show ?thesis unfolding pass_pairs [OF assms(1)] pair_up_def by (simp add: somes_map_Some)
qed

lemma kept_message_ok:
  assumes "message_ok m" and "kept lost C R m = Some m'"
  shows "message_ok m'"
proof -
  note k = kept_Some [OF assms(2)]
  have "truthy (tool_calls m') \<longrightarrow> is_list (tool_calls m')"
    using assms lost_keeps by (auto simp: kept_def message_ok_def Let_def split: if_splits)
  with k assms(1) show ?thesis by (auto simp: message_ok_def)
qed

lemma others_kept:
  "filter (\<lambda>m. \<not> is_tool m \<and> \<not> is_assistant m) (somes (map (kept lost C R) ms)) =
    filter (\<lambda>m. \<not> is_tool m \<and> \<not> is_assistant m) ms"
proof (induction ms)
  case Nil
  then show ?case by simp
next
  case (Cons m ms)
  show ?case
  proof (cases "kept lost C R m")
    case None
    then have "is_tool m \<or> is_assistant m" using calls_assistant by (auto simp: kept_def split: if_splits)
    with None Cons.IH show ?thesis by auto
  next
    case (Some m')
    with kept_Some [OF Some] Cons.IH show ?thesis by auto
  qed
qed

lemma pass_result:
  assumes "\<forall>m\<in>set ms. message_ok m"
  shows "\<exists>out. pass ms = Inr out \<and> paired out \<and> pass out = Inr out \<and>
    filter (\<lambda>m. \<not> is_tool m \<and> \<not> is_assistant m) out = filter (\<lambda>m. \<not> is_tool m \<and> \<not> is_assistant m) ms \<and>
    (paired ms \<longrightarrow> out = ms)"
proof -
  let ?C = "{k \<in> result_keys ms. truthy k}" and ?R = "{k \<in> call_keys ms. truthy k}"
  let ?out = "somes (map (kept lost ?C ?R) ms)"
  have rec: "pass ms = Inr ?out" using pass_pairs [OF assms] by (simp only: pair_up_def)
  have "\<forall>m\<in>set ?out. message_ok m"
  proof
    fix m'
    assume "m' \<in> set ?out"
    then obtain m where "m \<in> set ms" "kept lost ?C ?R m = Some m'" by (auto simp: set_somes)
    then show "message_ok m'" using assms kept_message_ok by blast
  qed
  moreover have "paired ?out"
    unfolding paired_def call_keys_kept result_keys_kept by blast
  ultimately have "pass ?out = Inr ?out" by (rule pass_paired_id)
  moreover have "paired ms \<longrightarrow> ?out = ms" using rec pass_paired_id [OF assms] by auto
  ultimately show ?thesis using rec \<open>paired ?out\<close> others_kept by blast
qed

end

section \<open>Both passes are such\<close>

lemma both_ids:
  assumes "\<forall>m\<in>set ms. message_ok m"
    and "\<And>cs rs m. message_ok m \<Longrightarrow> f cs rs m = Inr (kept lost (set cs) (set rs) m)"
  shows "rbind (completed_tool_call_ids ms) (\<lambda>cs. rbind (requested_tool_call_ids ms) (\<lambda>rs.
      rbind (rmapM (f cs rs) ms) (\<lambda>xs. Inr (somes xs)))) = Inr (pair_up lost ms)"
proof -
  obtain cs where cs: "completed_tool_call_ids ms = Inr cs" "set cs = {k \<in> result_keys ms. truthy k}"
    using completed_ok [OF assms(1)] by blast
  obtain rs where rs: "requested_tool_call_ids ms = Inr rs" "set rs = {k \<in> call_keys ms. truthy k}"
    using requested_ok [OF assms(1)] by blast
  have "rmapM (f cs rs) ms = Inr (map (kept lost (set cs) (set rs)) ms)"
    using assms by (intro rmapM_total) auto
  with cs rs show ?thesis by (simp add: pair_up_def)
qed

text \<open>What reconciling does with an assistant message without calls left\<close>

definition reconcile_rest :: "message \<Rightarrow> message option" where
  "reconcile_rest m = (if meaningful_content m \<or> truthy (msg_get m ''reasoning_content'')
     then Some (od_del ''tool_calls'' m) else None)"

lemma reconcile_message_ok:
  assumes "message_ok m"
  shows "reconcile_message completed requested m = Inr (kept reconcile_rest (set completed) (set requested) m)"
proof (cases "is_tool m")
  case True
  with assms show ?thesis by (simp add: reconcile_message_def kept_def message_ok_def)
next
  case not_tool: False
  show ?thesis
  proof (cases "calls_of_msg m = []")
    case True
    have "\<not> is_assistant m \<or> \<not> truthy (tool_calls m)"
      using True assms
      by (cases "tool_calls m") (auto simp: calls_of_msg_def message_ok_def)
    with True not_tool show ?thesis by (auto simp: reconcile_message_def kept_def)
  next
    case False
    then have role: "is_assistant m" by (auto simp: calls_of_msg_def split: if_splits)
    with False have tcs: "tool_calls m = PList (calls_of_msg m)"
      by (auto simp: calls_of_msg_def split: pv.splits)
    have "rfilterM (call_completed completed) (calls_of_msg m) =
        Inr (filter (\<lambda>tc. key (id_of tc) \<in> set completed) (calls_of_msg m))"
      using assms by (intro rfilterM_total) (simp add: call_completed_def message_ok_def)
    with False role tcs not_tool show ?thesis by (simp add: reconcile_message_def kept_def reconcile_rest_def Let_def)
  qed
qed

lemma sanitize_message_ok:
  assumes "message_ok m"
  shows "sanitize_message completed requested m = Inr (kept without_calls (set completed) (set requested) m)"
proof (cases "calls_of_msg m = []")
  case True
  have "\<not> is_assistant m \<or> \<not> truthy (tool_calls m)"
    using True assms by (cases "tool_calls m") (auto simp: calls_of_msg_def message_ok_def)
  with True assms show ?thesis by (auto simp: sanitize_message_def kept_def message_ok_def)
next
  case False
  then have role: "is_assistant m" by (rule calls_assistant)
  with False have tcs: "tool_calls m = PList (calls_of_msg m)"
    by (auto simp: calls_of_msg_def split: pv.splits)
  have "rfilterM (call_completed completed) (calls_of_msg m) =
      Inr (filter (\<lambda>tc. key (id_of tc) \<in> set completed) (calls_of_msg m))"
    using assms by (intro rfilterM_total) (simp add: call_completed_def message_ok_def)
  moreover have "\<not> is_tool m" using role not_both by blast
  ultimately show ?thesis using False role tcs by (simp add: sanitize_message_def kept_def Let_def)
qed

interpretation reconcile: pairing reconcile_tool_pairs reconcile_rest
proof
  show "reconcile_tool_pairs ms = Inr (pair_up reconcile_rest ms)" if "\<forall>m\<in>set ms. message_ok m" for ms
    unfolding reconcile_tool_pairs_def using that reconcile_message_ok by (rule both_ids)
qed (auto simp: reconcile_rest_def split: if_splits)

interpretation sanitize: pairing sanitize_tool_pairs without_calls
proof
  show "sanitize_tool_pairs ms = Inr (pair_up without_calls ms)" if "\<forall>m\<in>set ms. message_ok m" for ms
    unfolding sanitize_tool_pairs_def using that sanitize_message_ok by (rule both_ids)
qed (auto simp: without_calls_def Let_def is_tool_def is_assistant_def tool_id_def tool_calls_def msg_get_def
    split: if_splits)

text \<open>C21 Whatever calls and results a conversation holds, either pass over it returns one in which every
  call has a result and every result a call; messages of other roles stay, in order; a
  conversation that is already paired comes back unchanged, so passing over it twice is
  passing over it once.\<close>

theorem reconcile_pairs_calls:
  assumes "\<forall>m\<in>set ms. message_ok m" and "pass \<in> {reconcile_tool_pairs, sanitize_tool_pairs}"
  shows "\<exists>out. pass ms = Inr out \<and> paired out \<and> pass out = Inr out \<and>
    filter (\<lambda>m. \<not> is_tool m \<and> \<not> is_assistant m) out = filter (\<lambda>m. \<not> is_tool m \<and> \<not> is_assistant m) ms \<and>
    (paired ms \<longrightarrow> out = ms)"
  using assms(2) reconcile.pass_result [OF assms(1)] sanitize.pass_result [OF assms(1)] by blast

theorem reconcile_pairs_calls_witness:
  "\<exists>out. reconcile_tool_pairs [[(''role'', PStr ''tool''), (''tool_call_id'', PStr ''x'')]] = Inr out \<and> paired out"
  using reconcile_pairs_calls [of "[[(''role'', PStr ''tool''), (''tool_call_id'', PStr ''x'')]]" reconcile_tool_pairs]
  by (auto simp: message_ok_def is_tool_def tool_id_def tool_calls_def msg_get_def has_hash_def calls_of_msg_def
      is_assistant_def)

end
