(* ===== verification/Chat_Output.thy ===== *)
theory Chat_Output
  imports Tool_Pairs
begin

text \<open>
  The conversation that is rebuilt from stored output items, \<open>convert_output_to_messages\<close> of
  \<^verbatim>\<open>backend/openlaunch/utils/misc.py\<close>, with the pass over tool calls and results at its end.
\<close>

section \<open>Messages from output items\<close>

text \<open>The messages so far and what waits to be put into the next assistant message\<close>

record out_state =
  os_messages :: "message list"
  os_calls :: "pv list"
  os_content :: "string list"
  os_reasoning :: "string list"
  os_details :: "pv list"

definition pending_message :: "out_state \<Rightarrow> message" where
  "pending_message s =
     [(''role'', PStr ''assistant''), (''content'', PStr (py_join nl (os_content s)))] @
     (if os_calls s \<noteq> [] then [(''tool_calls'', PList (os_calls s))] else []) @
     (if os_reasoning s \<noteq> [] then [(''reasoning_content'', PStr (py_join nl (os_reasoning s)))] else []) @
     (if os_details s \<noteq> [] then [(''reasoning_details'', PList (os_details s))] else [])"

definition flush_pending :: "out_state \<Rightarrow> out_state" where
  "flush_pending s =
     (if os_content s = [] \<and> os_calls s = [] \<and> os_reasoning s = [] \<and> os_details s = [] then s
      else \<lparr>os_messages = os_messages s @ [pending_message s], os_calls = [], os_content = [],
             os_reasoning = [], os_details = []\<rparr>)"

definition add_content :: "string \<Rightarrow> out_state \<Rightarrow> out_state" where
  "add_content text s = s\<lparr>os_content := os_content s @ [text]\<rparr>"

text \<open>A \<open>message\<close> item: the text of its \<open>output_text\<close> parts\<close>

definition add_output_text :: "string \<Rightarrow> pv \<Rightarrow> string res" where
  "add_output_text text part = rbind (pget part ''type'' PNone) (\<lambda>t.
     if t = PStr ''output_text'' then rbind (pget part ''text'' (PStr [])) (pconcat text) else Inr text)"

definition message_item :: "pv \<Rightarrow> out_state \<Rightarrow> out_state res" where
  "message_item item s = rbind (pget item ''content'' (PList [])) (\<lambda>parts. rbind (piter parts) (\<lambda>ps.
     rbind (rfoldM add_output_text [] ps) (\<lambda>text. Inr (if text \<noteq> [] then add_content text s else s))))"

text \<open>A \<open>function_call\<close> item: arguments that are no string are serialised.\<close>

definition call_item :: "(rat \<Rightarrow> string) \<Rightarrow> pv \<Rightarrow> out_state \<Rightarrow> out_state res" where
  "call_item f item s =
     rbind (pget item ''arguments'' (PStr ''{}'')) (\<lambda>a.
     rbind (pget item ''call_id'' (PStr [])) (\<lambda>i.
     rbind (pget item ''name'' (PStr [])) (\<lambda>n.
       Inr (s\<lparr>os_calls := os_calls s @
         [PDict [(''id'', i), (''type'', PStr ''function''),
           (''function'', PDict [(''name'', n),
             (''arguments'', if is_str a then a else PStr (json_dumps True f a))])]]\<rparr>))))"

text \<open>A \<open>function_call_output\<close> item: its texts and the image URLs that are not empty\<close>

definition add_result_part :: "(rat \<Rightarrow> string) \<Rightarrow> string \<times> pv list \<Rightarrow> pv \<Rightarrow> (string \<times> pv list) res" where
  "add_result_part f acc part = rbind (pget part ''type'' PNone) (\<lambda>t.
     if t = PStr ''input_text''
     then rbind (pget part ''text'' (PStr [])) (\<lambda>x. Inr (fst acc @ py_str f x, snd acc))
     else if t = PStr ''input_image''
     then rbind (pget part ''image_url'' (PStr [])) (\<lambda>u. Inr (fst acc, if truthy u then snd acc @ [u] else snd acc))
     else Inr acc)"

definition tool_message :: "pv \<Rightarrow> string \<times> pv list \<Rightarrow> message" where
  "tool_message call_id acc =
     [(''role'', PStr ''tool''), (''tool_call_id'', call_id),
      (''content'',
        if snd acc \<noteq> [] then PList (PDict [(''type'', PStr ''input_text''), (''text'', PStr (fst acc))] #
          map (\<lambda>u. PDict [(''type'', PStr ''input_image''), (''image_url'', u)]) (snd acc))
        else PStr (fst acc))]"

definition result_item :: "(rat \<Rightarrow> string) \<Rightarrow> pv \<Rightarrow> out_state \<Rightarrow> out_state res" where
  "result_item f item s0 = (let s = flush_pending s0 in
     rbind (pget item ''output'' (PList [])) (\<lambda>parts. rbind (piter parts) (\<lambda>ps.
     rbind (rfoldM (add_result_part f) ([], []) ps) (\<lambda>acc.
     rbind (pget item ''call_id'' (PStr [])) (\<lambda>i.
       Inr (s\<lparr>os_messages := os_messages s @ [tool_message i acc]\<rparr>))))))"

text \<open>A \<open>reasoning\<close> item\<close>

definition add_reasoning_text :: "string \<Rightarrow> pv \<Rightarrow> string res" where
  "add_reasoning_text text part = rbind (pget part ''type'' PNone) (\<lambda>t.
     if t = PStr ''output_text'' then rbind (pget part ''text'' (PStr [])) (pconcat text)
     else rbind (pin ''text'' part) (\<lambda>has.
       if has then rbind (pget part ''text'' (PStr [])) (pconcat text) else Inr text))"

definition think_tagged :: "(rat \<Rightarrow> string) \<Rightarrow> pv \<Rightarrow> string \<Rightarrow> string res" where
  "think_tagged f item text =
     rbind (pget item ''start_tag'' (PStr ''<think>'')) (\<lambda>a.
     rbind (pget item ''end_tag'' (PStr ''</think>'')) (\<lambda>b. Inr (py_str f a @ text @ py_str f b)))"

definition reasoning_item :: "(rat \<Rightarrow> string) \<Rightarrow> bool \<Rightarrow> string option \<Rightarrow> pv \<Rightarrow> out_state \<Rightarrow> out_state res" where
  "reasoning_item f raw fmt item s =
     rbind (if raw then pget item ''reasoning_details'' PNone else Inr PNone) (\<lambda>details.
       if (fmt = None \<or> fmt = Some []) \<and> \<not> truthy details then Inr s
       else rbind (pget item ''summary'' (PList [])) (\<lambda>summary.
         rbind (if truthy summary then Inr summary else pget item ''content'' (PList [])) (\<lambda>source.
         rbind (piter source) (\<lambda>ps. rbind (rfoldM add_reasoning_text [] ps) (\<lambda>text.
         rbind (if text = [] then Inr s
                else if fmt = Some ''think_tags'' then rbind (think_tagged f item text) (\<lambda>x. Inr (add_content x s))
                else if fmt = Some ''reasoning_content'' then Inr (s\<lparr>os_reasoning := os_reasoning s @ [text]\<rparr>)
                else Inr s) (\<lambda>s'.
           Inr (if truthy details
             then s'\<lparr>os_details := os_details s' @ (case details of PList ds \<Rightarrow> ds | d \<Rightarrow> [d])\<rparr>
             else s')))))))"

text \<open>An \<open>openlaunch:code_interpreter\<close> item\<close>

definition code_output_text :: "(rat \<Rightarrow> string) \<Rightarrow> pv \<Rightarrow> pv res" where
  "code_output_text f out = (case out of
      PDict d \<Rightarrow> Inr (py_or (od_getd d ''stdout'' (PStr [])) (od_getd d ''result'' (PStr [])))
    | _ \<Rightarrow> Inr (PStr (py_str f out)))"

definition code_item :: "(rat \<Rightarrow> string) \<Rightarrow> pv \<Rightarrow> out_state \<Rightarrow> out_state res" where
  "code_item f item s =
     rbind (pget item ''code'' (PStr [])) (\<lambda>code. rbind (pget item ''output'' (PStr [])) (\<lambda>out.
       let s' = (if truthy code
                 then add_content (''<code_interpreter>'' @ nl @ py_str f code @ nl @ ''</code_interpreter>'') s
                 else s)
       in if \<not> truthy out then Inr s'
          else rbind (code_output_text f out) (\<lambda>t. Inr (if truthy t
            then add_content (''<code_interpreter_output>'' @ nl @ py_str f t @ nl @ ''</code_interpreter_output>'') s'
            else s'))))"

definition output_item :: "(rat \<Rightarrow> string) \<Rightarrow> bool \<Rightarrow> string option \<Rightarrow> out_state \<Rightarrow> pv \<Rightarrow> out_state res" where
  "output_item f raw fmt s item = rbind (pget item ''type'' (PStr [])) (\<lambda>t.
     if t = PStr ''message'' then message_item item s
     else if t = PStr ''function_call'' then call_item f item s
     else if t = PStr ''function_call_output'' then result_item f item s
     else if t = PStr ''reasoning'' then reasoning_item f raw fmt item s
     else if t = PStr ''openlaunch:code_interpreter'' then code_item f item s
     else rbind (pstr t) (\<lambda>_. Inr s))"

definition empty_out :: out_state where
  "empty_out = \<lparr>os_messages = [], os_calls = [], os_content = [], os_reasoning = [], os_details = []\<rparr>"

definition convert_output_to_messages :: "(rat \<Rightarrow> string) \<Rightarrow> pv \<Rightarrow> bool \<Rightarrow> string option \<Rightarrow> message list res" where
  "convert_output_to_messages f output raw fmt = (case output of
      PList items \<Rightarrow>
        (if items = [] then Inr []
         else rbind (rfoldM (output_item f raw fmt) empty_out items) (\<lambda>s.
           reconcile_tool_pairs (os_messages (flush_pending s))))
    | _ \<Rightarrow> Inr [])"

section \<open>Rebuilt conversations are paired\<close>

definition out_inv :: "out_state \<Rightarrow> bool" where
  "out_inv s = ((\<forall>m\<in>set (os_messages s). message_ok m) \<and> (\<forall>tc\<in>set (os_calls s). call_ok tc))"

definition item_ok :: "pv \<Rightarrow> bool" where
  "item_ok item = (case item of PDict d \<Rightarrow> has_hash (od_getd d ''call_id'' (PStr [])) | _ \<Rightarrow> True)"

lemma pget_call_id: "item_ok item \<Longrightarrow> pget item ''call_id'' (PStr []) = Inr i \<Longrightarrow> has_hash i"
  by (cases item) (auto simp: item_ok_def)

lemma pending_message_ok:
  assumes "\<forall>tc\<in>set (os_calls s). call_ok tc"
  shows "message_ok (pending_message s)"
proof -
  have "is_assistant (pending_message s)" by (simp add: is_assistant_def pending_message_def msg_get_def)
  moreover have "tool_calls (pending_message s) = (if os_calls s = [] then PNone else PList (os_calls s))"
    by (simp add: tool_calls_def pending_message_def msg_get_def)
  ultimately show ?thesis using assms not_both by (auto simp: message_ok_def calls_of_msg_def)
qed

lemma flush_inv: "out_inv s \<Longrightarrow> out_inv (flush_pending s)"
  using pending_message_ok by (auto simp: out_inv_def flush_pending_def)

lemma tool_message_ok: "has_hash i \<Longrightarrow> message_ok (tool_message i acc)"
  by (simp add: message_ok_def tool_message_def tool_id_def tool_calls_def calls_of_msg_def msg_get_def
      is_assistant_def)

lemma add_content_inv [simp]: "out_inv (add_content x s) = out_inv s"
  by (simp add: add_content_def out_inv_def)

lemma message_item_inv: "out_inv s \<Longrightarrow> rpost (message_item item s) out_inv"
  unfolding message_item_def by (intro rpost_bindI) simp

lemma out_inv_add_call: "out_inv s \<Longrightarrow> call_ok c \<Longrightarrow> out_inv (s\<lparr>os_calls := os_calls s @ [c]\<rparr>)"
  by (auto simp: out_inv_def)

lemma call_item_inv:
  assumes "item_ok item" and "out_inv s"
  shows "rpost (call_item f item s) out_inv"
  unfolding call_item_def
proof (intro rpost_bindI)
  fix a i n
  assume "pget item ''call_id'' (PStr []) = Inr i"
  with assms(1) have "has_hash i" by (rule pget_call_id)
  then have "call_ok (PDict ((''id'', i) # d))" for d by (simp add: call_ok_def id_of_def)
  with assms(2) show "rpost (Inr (s\<lparr>os_calls := os_calls s @
      [PDict [(''id'', i), (''type'', PStr ''function''), (''function'', PDict [(''name'', n),
        (''arguments'', if is_str a then a else PStr (json_dumps True f a))])]]\<rparr>)) out_inv"
    unfolding rpost_Inr by (rule out_inv_add_call)
qed

lemma result_item_inv:
  assumes "item_ok item" and "out_inv s"
  shows "rpost (result_item f item s) out_inv"
  unfolding result_item_def Let_def
proof (intro rpost_bindI)
  fix acc i
  assume "pget item ''call_id'' (PStr []) = Inr i"
  with assms(1) have "has_hash i" by (rule pget_call_id)
  then have "message_ok (tool_message i acc)" by (rule tool_message_ok)
  with flush_inv [OF assms(2)]
  show "rpost (Inr ((flush_pending s)\<lparr>os_messages := os_messages (flush_pending s) @ [tool_message i acc]\<rparr>)) out_inv"
    by (simp add: out_inv_def)
qed

lemma out_inv_fields [simp]:
  "out_inv (s\<lparr>os_reasoning := x\<rparr>) = out_inv s" "out_inv (s\<lparr>os_details := y\<rparr>) = out_inv s"
  by (simp_all add: out_inv_def)

lemma reasoning_step_inv:
  "out_inv s \<Longrightarrow> rpost (if text = [] then Inr s
     else if fmt = Some a then rbind (think_tagged f item text) (\<lambda>x. Inr (add_content x s))
     else if fmt = Some b then Inr (s\<lparr>os_reasoning := os_reasoning s @ [text]\<rparr>)
     else Inr s) out_inv"
  by (intro rpost_bindI rpost_ifI) simp_all

lemma reasoning_item_inv: "out_inv s \<Longrightarrow> rpost (reasoning_item f raw fmt item s) out_inv"
  unfolding reasoning_item_def
  by (intro rpost_bindI rpost_ifI) (simp_all add: rpostD [OF reasoning_step_inv])

lemma code_item_inv: "out_inv s \<Longrightarrow> rpost (code_item f item s) out_inv"
  unfolding code_item_def Let_def by (intro rpost_bindI rpost_ifI) simp_all

lemma output_item_inv: "item_ok item \<Longrightarrow> out_inv s \<Longrightarrow> rpost (output_item f raw fmt s item) out_inv"
  unfolding output_item_def
  by (intro rpost_bindI rpost_ifI message_item_inv call_item_inv result_item_inv reasoning_item_inv code_item_inv)
    (assumption | simp only: rpost_Inr)+

text \<open>The conversation rebuilt from stored output items, whatever calls and results are missing
  among them, has a result for every call and a call for every result; when none is missing,
  it is all that the items give.\<close>

theorem converted_output_paired:
  assumes "\<forall>item\<in>set items. item_ok item" and "rfoldM (output_item f raw fmt) empty_out items = Inr s"
  shows "\<exists>ms. convert_output_to_messages f (PList items) raw fmt = Inr ms \<and> paired ms \<and>
    (paired (os_messages (flush_pending s)) \<longrightarrow> ms = os_messages (flush_pending s))"
proof -
  have "out_inv s"
  proof (rule rfoldM_invariant [where P = out_inv, OF assms(2)])
    show "out_inv empty_out" by (simp add: out_inv_def empty_out_def)
    fix s item s'
    assume inv: "out_inv s" and item: "item \<in> set items" and step: "output_item f raw fmt s item = Inr s'"
    from assms(1) item have "item_ok item" by (rule bspec)
    from output_item_inv [OF this inv] step show "out_inv s'" by (rule rpostD)
  qed
  then have "\<forall>m\<in>set (os_messages (flush_pending s)). message_ok m"
    using flush_inv [of s] unfolding out_inv_def by blast
  from reconcile.pass_result [OF this] obtain out where
    out: "reconcile_tool_pairs (os_messages (flush_pending s)) = Inr out" "paired out"
      "paired (os_messages (flush_pending s)) \<longrightarrow> out = os_messages (flush_pending s)"
    by blast
  show ?thesis
  proof (cases "items = []")
    case True
    with assms(2) have "s = empty_out" by simp
    then have "os_messages (flush_pending s) = []" by (simp add: empty_out_def flush_pending_def)
    then show ?thesis using True
      by (simp add: convert_output_to_messages_def paired_def call_keys_def result_keys_def)
  next
    case False
    then have "convert_output_to_messages f (PList items) raw fmt = Inr out"
      using assms(2) out(1) by (simp add: convert_output_to_messages_def)
    with out(2,3) show ?thesis by blast
  qed
qed

definition sample_output :: "pv list" where
  "sample_output = [PDict [(''type'', PStr ''function_call_output''), (''call_id'', PStr ''lost'')],
     PDict [(''type'', PStr ''message''),
       (''content'', PList [PDict [(''type'', PStr ''output_text''), (''text'', PStr ''hi'')]])]]"

definition sample_out :: out_state where
  "sample_out = \<lparr>os_messages = [tool_message (PStr ''lost'') ([], [])], os_calls = [], os_content = [''hi''],
     os_reasoning = [], os_details = []\<rparr>"

lemma sample_output_run: "rfoldM (output_item f False None) empty_out sample_output = Inr sample_out"
  by (simp add: sample_output_def output_item_def result_item_def message_item_def empty_out_def flush_pending_def
      add_output_text_def pconcat_def add_content_def sample_out_def Let_def)

theorem converted_output_paired_witness:
  "\<exists>ms. convert_output_to_messages (\<lambda>_. ''1.0'') (PList sample_output) False None = Inr ms \<and> paired ms"
proof -
  have "\<forall>item\<in>set sample_output. item_ok item" by (simp add: sample_output_def item_ok_def has_hash_def)
  from converted_output_paired [OF this sample_output_run [of "\<lambda>_. ''1.0''"]] show ?thesis by blast
qed

end
