(* ===== verification/Context_Compaction.thy ===== *)
theory Context_Compaction
  imports Chat_Output
begin

text \<open>
  Compaction of long conversations, \<^verbatim>\<open>backend/openlaunch/utils/context_compaction.py\<close>, and the
  steps of \<^verbatim>\<open>utils/middleware.py\<close> around it. The summary that a model writes, the configuration
  and the stored history are arguments; the events that are sent and the checkpoint that is
  written are part of the result.
\<close>

section \<open>Settings\<close>

record compaction_config =
  cc_enable :: bool
  cc_threshold :: int

definition load_config :: "(string \<Rightarrow> pv \<Rightarrow> pv) \<Rightarrow> compaction_config res" where
  "load_config values_get =
     rbind (py_int (py_or (values_get ''chat.context_compaction.token_threshold'' (PInt 80000)) (PInt 80000)))
       (\<lambda>n. Inr \<lparr>cc_enable = truthy (values_get ''chat.context_compaction.enable'' (PBool False)), cc_threshold = n\<rparr>)"

definition parse_positive_int :: "pv \<Rightarrow> int option" where
  "parse_positive_int v = (case py_int v of Inl e \<Rightarrow> None | Inr n \<Rightarrow> if n > 0 then Some n else None)"

definition resolve_token_threshold :: "int \<Rightarrow> pdict \<Rightarrow> int res" where
  "resolve_token_threshold global metadata =
     rbind (pget (py_or (msg_get metadata ''params'') (PDict [])) ''compact_token_threshold'' PNone) (\<lambda>v.
       Inr (case parse_positive_int v of None \<Rightarrow> global | Some n \<Rightarrow> min n global))"

section \<open>Checkpoints\<close>

definition summary_of :: "message \<Rightarrow> string option" where
  "summary_of m = (case py_or (msg_get m ''contextSummary'') (msg_get m ''context_summary'') of
      PStr s \<Rightarrow> if py_strip s \<noteq> [] then Some s else None
    | _ \<Rightarrow> None)"

text \<open>The loop keeps the last message that has a summary.\<close>

fun latest_summary :: "nat \<Rightarrow> message list \<Rightarrow> (nat \<times> string) option \<Rightarrow> (nat \<times> string) option" where
  "latest_summary i [] found = found"
| "latest_summary i (m # ms) found =
     latest_summary (Suc i) ms (case summary_of m of None \<Rightarrow> found | Some s \<Rightarrow> Some (i, s))"

definition apply_latest_summary_checkpoint :: "message list \<Rightarrow> message list \<times> string option" where
  "apply_latest_summary_checkpoint ms = (case latest_summary 0 ms None of
      None \<Rightarrow> (ms, None)
    | Some (i, s) \<Rightarrow> (drop i ms, Some s))"

section \<open>Estimates\<close>

definition estimate_tokens :: "(rat \<Rightarrow> string) \<Rightarrow> pv \<Rightarrow> nat" where
  "estimate_tokens f v = (case v of
      PNone \<Rightarrow> 0
    | _ \<Rightarrow> (let s = (case v of PStr s \<Rightarrow> s | _ \<Rightarrow> json_dumps False f v)
            in if s = [] then 0 else max 1 (length s div 4)))"

definition estimate_item :: "(rat \<Rightarrow> string) \<Rightarrow> pv \<Rightarrow> nat res" where
  "estimate_item f item = (case item of
      PDict d \<Rightarrow> rbind (hash_key (od_getd d ''type'' PNone)) (\<lambda>t.
        Inr (if t = PStr ''image'' \<or> t = PStr ''image_url'' then 1000
             else estimate_tokens f
               (py_or (py_or (od_getd d ''text'' PNone) (od_getd d ''content'' PNone)) item)))
    | _ \<Rightarrow> Inr (estimate_tokens f item))"

definition estimate_message :: "(rat \<Rightarrow> string) \<Rightarrow> message \<Rightarrow> nat res" where
  "estimate_message f m =
     rbind (case msg_get m ''content'' of
         PList items \<Rightarrow> rmap sum_list (rmapM (estimate_item f) items)
       | c \<Rightarrow> Inr (estimate_tokens f c)) (\<lambda>n.
     Inr (4 + n + estimate_tokens f (msg_get m ''output'') + estimate_tokens f (msg_get m ''tool_calls'') +
       estimate_tokens f (msg_get m ''files'')))"

definition estimate_messages_tokens :: "(rat \<Rightarrow> string) \<Rightarrow> message list \<Rightarrow> nat res" where
  "estimate_messages_tokens f ms = rmap sum_list (rmapM (estimate_message f) ms)"

text \<open>The tokens that the last message with a usage record reports; the search goes backwards.\<close>

definition reported_usage :: "message \<Rightarrow> int option res" where
  "reported_usage m =
     rbind (if truthy (msg_get m ''usage'') then Inr (msg_get m ''usage'')
            else pget (py_or (msg_get m ''info'') (PDict [])) ''usage'' PNone) (\<lambda>u. case u of
        PDict d \<Rightarrow>
          (if truthy (od_getd d ''input_tokens'' PNone)
           then rbind (py_int (od_getd d ''input_tokens'' PNone)) (\<lambda>i.
             rbind (py_int (py_or (od_getd d ''output_tokens'' PNone) (PInt 0))) (\<lambda>out. Inr (Some (i + out))))
           else Inr None)
      | _ \<Rightarrow> Inr None)"

fun usage_exceeds :: "(rat \<Rightarrow> string) \<Rightarrow> int \<Rightarrow> message list \<Rightarrow> message list \<Rightarrow> bool option res" where
  "usage_exceeds f limit [] after = Inr None"
| "usage_exceeds f limit (m # before) after = rbind (reported_usage m) (\<lambda>u. case u of
      Some used \<Rightarrow> rbind (estimate_messages_tokens f after) (\<lambda>n. Inr (Some (used + int n > limit)))
    | None \<Rightarrow> usage_exceeds f limit before (m # after))"

definition exceeds_token_threshold ::
  "(rat \<Rightarrow> string) \<Rightarrow> message list \<Rightarrow> string \<Rightarrow> string option \<Rightarrow> int \<Rightarrow> bool res" where
  "exceeds_token_threshold f ms system_prompt summary limit =
     (if limit \<le> 0 then Inr False
      else rbind (usage_exceeds f limit (rev ms) []) (\<lambda>u. case u of
          Some b \<Rightarrow> Inr b
        | None \<Rightarrow> rbind (estimate_messages_tokens f ms) (\<lambda>n.
            Inr (int (estimate_tokens f (PStr system_prompt) +
              estimate_tokens f (PStr (case summary of None \<Rightarrow> [] | Some s \<Rightarrow> s)) + n) > limit))))"

section \<open>The boundary\<close>

text \<open>A split is moved on when it would part a tool result from its call.\<close>

definition parts_pair :: "message list \<Rightarrow> nat \<Rightarrow> bool" where
  "parts_pair ms split =
     (let previous = (if split > 0 then ms ! (split - 1) else []); current = ms ! split
      in is_tool current \<or> truthy (tool_calls previous) \<or> truthy (msg_get previous ''output''))"

function boundary_loop :: "message list \<Rightarrow> nat \<Rightarrow> nat" where
  "boundary_loop ms split =
     (if Suc split < length ms \<and> parts_pair ms split then boundary_loop ms (Suc split) else split)"
  by pat_completeness auto
termination by (relation "measure (\<lambda>(ms, split). length ms - split)") auto

declare boundary_loop.simps [simp del]

definition keep_count :: "message list \<Rightarrow> nat" where
  "keep_count ms = max 2 (length ms * 2 div 5)"

definition find_compaction_boundary :: "message list \<Rightarrow> int" where
  "find_compaction_boundary ms =
     (let split = max 1 (length ms - keep_count ms)
      in min (int (boundary_loop ms split)) (int (length ms) - 2))"

text \<open>The split of a list at an index, which counts from the end when it is negative\<close>

definition split_index :: "'a list \<Rightarrow> int \<Rightarrow> nat" where
  "split_index xs i = (if i < 0 then nat (int (length xs) + i) else nat i)"

section \<open>The summary\<close>

text \<open>\<^verbatim>\<open>f'- {message.get("role", "unknown")}: {content[:500]}'\<close>\<close>

definition fallback_line :: "(rat \<Rightarrow> string) \<Rightarrow> message \<Rightarrow> string option res" where
  "fallback_line f m = rbind (get_content_from_message m) (\<lambda>c.
     if \<not> truthy c then Inr None
     else rbind (case c of PStr s \<Rightarrow> Inr (take 500 s) | PList xs \<Rightarrow> Inr (py_str f (PList (take 500 xs))) | _ \<Rightarrow> Inl TypeError)
       (\<lambda>s. Inr (Some (''- '' @ py_str f (od_getd m ''role'' (PStr ''unknown'')) @ '': '' @ s))))"

text \<open>The text of a model's answer, from the chat completions or the responses format\<close>

definition first_choice :: "pv \<Rightarrow> pv res" where
  "first_choice choices = (case choices of
      PList (c # cs) \<Rightarrow> rbind (pget c ''message'' PNone) (\<lambda>m. let m = py_or m (PDict []) in
        rbind (pget m ''content'' PNone) (\<lambda>x. rbind (pget m ''reasoning_content'' PNone) (\<lambda>r.
          Inr (py_or x (py_or r (PStr []))))))
    | PStr s \<Rightarrow> Inl AttributeError
    | PDict d \<Rightarrow> Inl (KeyError ''0'')
    | _ \<Rightarrow> Inl TypeError)"

definition output_texts :: "pv \<Rightarrow> pv list res" where
  "output_texts item = rbind (pget item ''content'' PNone) (\<lambda>c. rbind (piter (py_or c (PList []))) (\<lambda>cs.
     Inr (somes (map (\<lambda>x. case x of
        PDict d \<Rightarrow> Some (py_or (od_getd d ''text'' PNone) (py_or (od_getd d ''content'' PNone) (PStr [])))
      | _ \<Rightarrow> None) cs))))"

definition response_text :: "pv \<Rightarrow> pv res" where
  "response_text response0 =
     (let response = (case response0 of PList [x] \<Rightarrow> x | _ \<Rightarrow> response0)
      in case response of
        PDict d \<Rightarrow>
          (if truthy (od_getd d ''choices'' PNone) then first_choice (od_getd d ''choices'' PNone)
           else rbind (piter (py_or (od_getd d ''output'' PNone) (PList []))) (\<lambda>items.
             rbind (rmapM output_texts items) (\<lambda>parts.
             rbind (join_values nl (filter truthy (concat parts))) (\<lambda>s. Inr (PStr s)))))
      | _ \<Rightarrow> Inr (PStr []))"

definition summary_or_fallback :: "(rat \<Rightarrow> string) \<Rightarrow> pv \<Rightarrow> string option \<Rightarrow> message list \<Rightarrow> string res" where
  "summary_or_fallback f response previous compacted =
     rbind (response_text response) (\<lambda>r. rbind (pstr r) (\<lambda>answer.
       if py_strip answer \<noteq> [] then Inr (py_strip answer)
      else rbind (rmapM (fallback_line f) compacted) (\<lambda>ls.
        Inr (take 4000 (py_join nl ((case previous of None \<Rightarrow> [] | Some s \<Rightarrow> if s = [] then [] else [s]) @ somes ls))))))"

section \<open>Compaction of a request\<close>

datatype compaction_event = Compacting | CompactionFailed | Compacted

record compaction_effects =
  ce_events :: "compaction_event list"
  ce_checkpoint :: "(string \<times> pv \<times> string) option"

definition no_effects :: compaction_effects where
  "no_effects = \<lparr>ce_events = [], ce_checkpoint = None\<rparr>"

text \<open>Whether a chat is stored, and the message that takes the summary\<close>

definition checkpoint_target :: "pdict \<Rightarrow> (string \<times> pv) option res" where
  "checkpoint_target metadata =
     (let chat = msg_get metadata ''chat_id'';
          target = py_or (msg_get metadata ''user_message_id'') (msg_get metadata ''message_id'')
      in if truthy chat \<and> truthy target
         then rbind (pstr chat) (\<lambda>c.
           Inr (if py_startswith c ''local:'' \<or> py_startswith c ''channel:'' then None else Some (c, target)))
         else Inr None)"

definition announce :: "pdict \<Rightarrow> compaction_event list \<Rightarrow> compaction_event list" where
  "announce metadata evs =
     (if truthy (msg_get metadata ''chat_id'') \<and> truthy (msg_get metadata ''message_id'') then evs else [])"

definition compact_messages_for_request ::
  "(rat \<Rightarrow> string) \<Rightarrow> compaction_config res \<Rightarrow> (message list \<Rightarrow> message list \<Rightarrow> string option \<Rightarrow> string res) \<Rightarrow>
   pdict \<Rightarrow> string \<Rightarrow> message list \<Rightarrow> compaction_effects \<times> (message list \<times> string option \<times> bool) res" where
  "compact_messages_for_request f config summarize metadata system_prompt messages0 =
     (case config of
        Inl e \<Rightarrow> (no_effects, Inl e)
      | Inr conf \<Rightarrow>
         if \<not> cc_enable conf then (no_effects, Inr (messages0, None, False))
         else (let (messages, previous) = apply_latest_summary_checkpoint messages0 in
           case rbind (resolve_token_threshold (cc_threshold conf) metadata)
                  (exceeds_token_threshold f messages system_prompt previous) of
             Inl e \<Rightarrow> (no_effects, Inl e)
           | Inr exceeds \<Rightarrow>
              if \<not> exceeds \<or> length messages \<le> 3 then (no_effects, Inr (messages, previous, False))
              else (let b = split_index messages (find_compaction_boundary messages);
                        compacted = take b messages; recent = drop b messages
                in if compacted = [] \<or> recent = [] then (no_effects, Inr (messages, previous, False))
                   else (case summarize compacted recent previous of
                       Inl e \<Rightarrow> (no_effects\<lparr>ce_events := announce metadata [Compacting, CompactionFailed]\<rparr>, Inl e)
                     | Inr summary \<Rightarrow>
                        (case checkpoint_target metadata of
                           Inl e \<Rightarrow> (no_effects\<lparr>ce_events := announce metadata [Compacting]\<rparr>, Inl e)
                         | Inr target \<Rightarrow>
                            (\<lparr>ce_events = announce metadata [Compacting, Compacted],
                              ce_checkpoint = map_option (\<lambda>(c, m). (c, m, summary)) target\<rparr>,
                             Inr (recent, Some summary, True)))))))"

text \<open>Compaction on demand, for the branch of the current message: all but the last message\<close>

datatype branch_result = Disabled | EmptyBranch | TooShort | BranchCompacted nat nat nat

definition compact_chat_branch ::
  "compaction_config res \<Rightarrow> (message list \<Rightarrow> message list \<Rightarrow> string option \<Rightarrow> string res) \<Rightarrow> pv \<Rightarrow> (pv \<Rightarrow> message list res) \<Rightarrow>
   (pv \<times> string) option \<times> branch_result res" where
  "compact_chat_branch config summarize current_id branch =
     (case config of
        Inl e \<Rightarrow> (None, Inl e)
      | Inr conf \<Rightarrow>
         if \<not> cc_enable conf then (None, Inr Disabled)
         else if \<not> truthy current_id then (None, Inr EmptyBranch)
         else (case branch current_id of
             Inl e \<Rightarrow> (None, Inl e)
           | Inr ms0 \<Rightarrow>
              (let (ms, previous) = apply_latest_summary_checkpoint ms0 in
                if length ms \<le> 2 then (None, Inr TooShort)
                else (case summarize (butlast ms) [last ms] previous of
                    Inl e \<Rightarrow> (None, Inl e)
                  | Inr s \<Rightarrow> (Some (current_id, s), Inr (BranchCompacted (length (butlast ms)) 1 (length s)))))))"

section \<open>Around it: the request's messages\<close>

definition kept_fields :: "string list" where
  "kept_fields = [''role'', ''content'', ''output'', ''files'', ''contextSummary'']"

definition load_fields :: "pv \<Rightarrow> message res" where
  "load_fields msg = rmap (filter (\<lambda>(k, v). k \<in> set kept_fields)) (pitems msg)"

text \<open>The branch as it is loaded: None when there is nothing to load; a loop over parents that does
  not end is None outside.\<close>

definition load_messages_from_db :: "pv \<Rightarrow> pv \<Rightarrow> message list option res option" where
  "load_messages_from_db messages_map message_id =
     (if \<not> truthy messages_map then Some (Inr None)
      else map_option (\<lambda>r. rbind r (\<lambda>ms.
        if ms = [] then Inr None else rmap Some (rmapM load_fields ms)))
        (get_message_list messages_map message_id))"

text \<open>The system message of the request goes in front.\<close>

definition with_system :: "message list \<Rightarrow> message list \<Rightarrow> message list res" where
  "with_system request_messages db_messages =
     rbind (get_system_message request_messages) (\<lambda>s.
       Inr (case s of None \<Rightarrow> db_messages | Some m \<Rightarrow> m # db_messages))"

definition summary_prompt :: "string \<Rightarrow> string" where
  "summary_prompt s = ''[CONVERSATION SUMMARY]'' @ nl @ s"

text \<open>The call of compaction in \<open>process_chat_payload\<close>: an exception leaves the messages as they are.\<close>

definition compact_step ::
  "(rat \<Rightarrow> string) \<Rightarrow> compaction_config res \<Rightarrow> (message list \<Rightarrow> message list \<Rightarrow> string option \<Rightarrow> string res) \<Rightarrow>
   pdict \<Rightarrow> string \<Rightarrow> message list \<Rightarrow> message list" where
  "compact_step f config summarize metadata system_prompt ms =
     (case snd (compact_messages_for_request f config summarize metadata system_prompt ms) of
        Inl e \<Rightarrow> ms
      | Inr (ms', summary, _) \<Rightarrow>
         (case summary of
            None \<Rightarrow> ms'
          | Some s \<Rightarrow> if s = [] then ms' else
             (case add_or_update_system_message f (summary_prompt s) ms' True of Inl e \<Rightarrow> ms' | Inr ms'' \<Rightarrow> ms'')))"

definition strip_compaction_fields :: "message list \<Rightarrow> message list" where
  "strip_compaction_fields ms = map (\<lambda>m. od_del ''context_summary'' (od_del ''contextSummary'' m)) ms"

definition get_reasoning_format :: "pv \<Rightarrow> string option res" where
  "get_reasoning_format model = rbind (pget model ''provider'' (PStr [])) (\<lambda>p.
     Inr (if p = PStr ''ollama'' then Some ''think_tags''
          else if p = PStr ''llama.cpp'' then Some ''reasoning_content'' else None))"

definition output_messages_of :: "(rat \<Rightarrow> string) \<Rightarrow> string option \<Rightarrow> message \<Rightarrow> message list res" where
  "output_messages_of f fmt m =
     rbind (if is_assistant m \<and> truthy (msg_get m ''output'')
            then convert_output_to_messages f (msg_get m ''output'') True fmt else Inr []) (\<lambda>ms.
       Inr (if ms \<noteq> [] then ms else [filter (\<lambda>(k, v). k \<noteq> ''output'') m]))"

definition process_messages_with_output :: "(rat \<Rightarrow> string) \<Rightarrow> string option \<Rightarrow> message list \<Rightarrow> message list res" where
  "process_messages_with_output f fmt ms = rmap concat (rmapM (output_messages_of f fmt) ms)"

section \<open>Where the history is cut\<close>

lemma boundary_loop_spec:
  assumes "split < length ms"
  shows "split \<le> boundary_loop ms split \<and> boundary_loop ms split < length ms \<and>
    (\<forall>i. split \<le> i \<longrightarrow> i < boundary_loop ms split \<longrightarrow> parts_pair ms i) \<and>
    (Suc (boundary_loop ms split) = length ms \<or> \<not> parts_pair ms (boundary_loop ms split))"
  using assms
proof (induction ms split rule: boundary_loop.induct)
  case (1 ms split)
  show ?case
  proof (cases "Suc split < length ms \<and> parts_pair ms split")
    case True
    then have eq: "boundary_loop ms split = boundary_loop ms (Suc split)" by (subst boundary_loop.simps) simp
    note IH = 1(1) [OF True]
    have pairs: "\<forall>i. split \<le> i \<longrightarrow> i < boundary_loop ms (Suc split) \<longrightarrow> parts_pair ms i"
      using IH True by (metis le_neq_implies_less Suc_leI)
    show ?thesis unfolding eq using IH True pairs by auto
  next
    case False
    then have "boundary_loop ms split = split" by (subst boundary_loop.simps) (simp only: if_False)
    with False 1(2) show ?thesis by auto
  qed
qed

definition first_split :: "message list \<Rightarrow> nat" where
  "first_split ms = max 1 (length ms - keep_count ms)"

lemma first_split_bounds: "3 \<le> length ms \<Longrightarrow> 1 \<le> first_split ms \<and> first_split ms \<le> length ms - 2"
  by (auto simp: first_split_def keep_count_def)

lemma boundary_exact:
  assumes "3 \<le> length ms"
  shows "\<exists>b. find_compaction_boundary ms = int b \<and> 1 \<le> b \<and> first_split ms \<le> b \<and> b \<le> length ms - 2 \<and>
    (\<forall>i. first_split ms \<le> i \<longrightarrow> i < b \<longrightarrow> parts_pair ms i) \<and> (b = length ms - 2 \<or> \<not> parts_pair ms b)"
proof -
  let ?r = "boundary_loop ms (first_split ms)"
  have bounds: "1 \<le> first_split ms" "first_split ms \<le> length ms - 2" using first_split_bounds [OF assms] by auto
  then have spec: "first_split ms \<le> ?r" "?r < length ms"
    "\<forall>i. first_split ms \<le> i \<longrightarrow> i < ?r \<longrightarrow> parts_pair ms i" "Suc ?r = length ms \<or> \<not> parts_pair ms ?r"
    using boundary_loop_spec [of "first_split ms" ms] assms by auto
  have "find_compaction_boundary ms = int (min ?r (length ms - 2))"
    using assms by (simp add: find_compaction_boundary_def first_split_def)
  moreover have "min ?r (length ms - 2) = length ms - 2 \<or> \<not> parts_pair ms (min ?r (length ms - 2))"
    using spec(4) by (auto simp: min_def)
  ultimately show ?thesis using spec bounds by (intro exI [of _ "min ?r (length ms - 2)"]) auto
qed

section \<open>What compaction returns\<close>

definition checkpointed :: "message list \<Rightarrow> message list" where
  "checkpointed ms = fst (apply_latest_summary_checkpoint ms)"

definition previous_summary :: "message list \<Rightarrow> string option" where
  "previous_summary ms = snd (apply_latest_summary_checkpoint ms)"

lemma no_summary: "\<forall>m\<in>set ms. summary_of m = None \<Longrightarrow> latest_summary i ms found = found"
  by (induction ms arbitrary: i found) auto

lemma latest_summary_append:
  "latest_summary i (ms @ ns) found = latest_summary (i + length ms) ns (latest_summary i ms found)"
  by (induction ms arbitrary: i found) auto

lemma checkpoint_after:
  assumes "summary_of m = Some s" and "\<forall>m\<in>set new. summary_of m = None"
  shows "apply_latest_summary_checkpoint (old @ m # new) = (m # new, Some s)"
  using assms by (simp add: apply_latest_summary_checkpoint_def latest_summary_append no_summary)

lemma compact_cases:
  assumes "compact_messages_for_request f config summarize metadata sp ms = (eff, Inr (ms', s, True))"
  obtains conf where "config = Inr conf" and "4 \<le> length (checkpointed ms)"
    and "ms' = drop (split_index (checkpointed ms) (find_compaction_boundary (checkpointed ms))) (checkpointed ms)"
    and "s \<noteq> None"
    and "summarize (take (split_index (checkpointed ms) (find_compaction_boundary (checkpointed ms))) (checkpointed ms))
           ms' (previous_summary ms) = Inr (the s)"
  using assms
  by (auto simp: compact_messages_for_request_def checkpointed_def previous_summary_def Let_def
      split: sum.splits if_splits prod.splits)

lemma compact_done:
  assumes "compact_messages_for_request f config summarize metadata sp ms = (eff, Inr (ms', s, True))"
  shows "\<exists>compacted. checkpointed ms = compacted @ ms' \<and> compacted \<noteq> [] \<and> 2 \<le> length ms' \<and>
    (\<exists>s'. s = Some s' \<and> summarize compacted ms' (previous_summary ms) = Inr s')"
proof -
  let ?ms = "checkpointed ms"
  let ?b = "split_index ?ms (find_compaction_boundary ?ms)"
  from assms obtain conf where c: "4 \<le> length ?ms" "ms' = drop ?b ?ms" "s \<noteq> None"
    "summarize (take ?b ?ms) ms' (previous_summary ms) = Inr (the s)"
    by (rule compact_cases)
  have "3 \<le> length ?ms" using c(1) by simp
  from boundary_exact [OF this] first_split_bounds [OF this] obtain b where
    "find_compaction_boundary ?ms = int b" "first_split ?ms \<le> b" "1 \<le> first_split ?ms" "b \<le> length ?ms - 2" by blast
  then have b: "1 \<le> ?b" "?b \<le> length ?ms - 2" by (auto simp: split_index_def)
  have "?ms = take ?b ?ms @ ms'" using c(2) by simp
  moreover have "take ?b ?ms \<noteq> []" using b c(1) by (auto simp: take_eq_Nil)
  moreover have "2 \<le> length ms'" using b c(1,2) by simp
  ultimately show ?thesis using c(3,4) by auto
qed

lemma compact_not_done:
  assumes "compact_messages_for_request f config summarize metadata sp ms = (eff, Inr (ms', s, False))"
  shows "eff = no_effects \<and> (ms' = ms \<and> s = None \<or> ms' = checkpointed ms \<and> s = previous_summary ms)"
  using assms
  by (auto simp: compact_messages_for_request_def checkpointed_def previous_summary_def Let_def
      split: sum.splits if_splits prod.splits)

lemma compact_error:
  assumes "compact_messages_for_request f config summarize metadata sp ms = (eff, Inl e)"
  shows "ce_checkpoint eff = None"
  using assms
  by (auto simp: compact_messages_for_request_def no_effects_def Let_def split: sum.splits if_splits prod.splits)

section \<open>Properties\<close>


definition four_messages :: "message list" where
  "four_messages = [[(''role'', PStr ''system''), (''content'', PStr ''Be brief.'')],
     [(''role'', PStr ''user''), (''content'', PStr ''What is up there?'')],
     [(''role'', PStr ''assistant''), (''content'', PStr ''Stars.'')],
     [(''role'', PStr ''user''), (''content'', PStr ''How many?'')]]"


text \<open>The last place possible can be in the middle of a pair: when the message before the last is
  a tool result of a conversation of four, it is the first message that stays, although the
  call it answers is summarised away.\<close>

theorem compaction_can_part_pair:
  assumes "length ms = 4" and "is_tool (ms ! 2)"
  shows "find_compaction_boundary ms = 2 \<and> parts_pair ms 2 \<and> drop 2 ms = [ms ! 2, ms ! 3]"
proof -
  have parts: "parts_pair ms 2" using assms(2) by (simp add: parts_pair_def)
  have "first_split ms = 2" using assms(1) by (simp add: first_split_def keep_count_def)
  then have "find_compaction_boundary ms = 2"
    using boundary_exact [of ms] assms(1) by auto
  moreover have "drop 2 ms = [ms ! 2, ms ! 3]"
    using assms(1) by (simp add: list_eq_iff_nth_eq nth_Cons' less_Suc_eq numeral_eq_Suc)
  ultimately show ?thesis using parts by simp
qed

text \<open>Whatever compaction returns without an error, the messages it returns are the end of what
  follows the last checkpoint; when it reports that it compacted, the summary is that of
  exactly the messages in front of them, and at least two stay; otherwise nothing is sent and
  no checkpoint written, which is also never written on an error.\<close>

theorem compaction_accounts_for_all:
  "case compact_messages_for_request f config summarize metadata sp ms of
     (eff, Inr (ms', s, True)) \<Rightarrow> (\<exists>compacted s'. checkpointed ms = compacted @ ms' \<and> compacted \<noteq> [] \<and> 2 \<le> length ms' \<and>
        s = Some s' \<and> summarize compacted ms' (previous_summary ms) = Inr s')
   | (eff, Inr (ms', s, False)) \<Rightarrow> eff = no_effects \<and> (ms' = ms \<and> s = None \<or> ms' = checkpointed ms \<and> s = previous_summary ms)
   | (eff, Inl e) \<Rightarrow> ce_checkpoint eff = None"
  using compact_done [of f config summarize metadata sp ms] compact_not_done [of f config summarize metadata sp ms]
    compact_error [of f config summarize metadata sp ms]
  by (auto split: prod.splits sum.splits bool.splits)

text \<open>After a compaction for a request that ends with the user's message, on which the summary is
  stored, the next request starts at that message: every other message that compaction kept
  is then neither in the request nor in the summary.\<close>

theorem compaction_forgets_recent:
  assumes "compact_messages_for_request f config summarize metadata sp (old @ [u]) = (eff, Inr (recent, Some s, True))"
    and "summary_of (od_set ''contextSummary'' (PStr s) u) = Some s" and "\<forall>m\<in>set new. summary_of m = None"
  shows "\<exists>compacted. checkpointed (old @ [u]) = compacted @ recent \<and> 2 \<le> length recent \<and>
    summarize compacted recent (previous_summary (old @ [u])) = Inr s \<and>
    apply_latest_summary_checkpoint (old @ od_set ''contextSummary'' (PStr s) u # new) =
      (od_set ''contextSummary'' (PStr s) u # new, Some s)"
  using compact_done [OF assms(1)] checkpoint_after [OF assms(2,3)] by auto

text \<open>When compaction removes the system message at the head of a request, the request goes on with
  the summary as its only system message: the text of the old one is not put back.\<close>

theorem compaction_drops_system_prompt:
  assumes "compact_messages_for_request f config summarize metadata sp (m # ms) = (eff, Inr (recent, Some s, True))"
    and "s \<noteq> []" and "summary_of m = None" and "\<forall>m'\<in>set ms. summary_of m' = None"
    and "\<forall>m'\<in>set ms. od_get m' ''role'' \<noteq> None \<and> msg_get m' ''role'' \<noteq> PStr ''system''"
  shows "compact_step f config summarize metadata sp (m # ms) =
      [(''role'', PStr ''system''), (''content'', PStr (summary_prompt s))] # recent \<and>
    (\<forall>m'\<in>set recent. m' \<in> set ms)"
proof -
  have "apply_latest_summary_checkpoint (m # ms) = (m # ms, None)"
    using assms(3,4) by (simp add: apply_latest_summary_checkpoint_def no_summary)
  then have cp: "checkpointed (m # ms) = m # ms" by (simp add: checkpointed_def)
  from compact_done [OF assms(1)] obtain compacted where c: "m # ms = compacted @ recent" "compacted \<noteq> []"
    "2 \<le> length recent" unfolding cp by blast
  then have sub: "\<forall>m'\<in>set recent. m' \<in> set ms" by (cases compacted) auto
  obtain r rs where r: "recent = r # rs" using c(3) by (cases recent) auto
  have "add_or_update_system_message f (summary_prompt s) recent True =
      Inr ([(''role'', PStr ''system''), (''content'', PStr (summary_prompt s))] # recent)"
    using r sub assms(5) by (simp add: add_or_update_system_message_def)
  then show ?thesis using sub assms(1,2) by (simp add: compact_step_def)
qed

definition keep_notes :: "message list \<Rightarrow> message list \<Rightarrow> string option \<Rightarrow> string res" where
  "keep_notes compacted recent previous = Inr ''Notes.''"

definition small_config :: "compaction_config res" where
  "small_config = Inr \<lparr>cc_enable = True, cc_threshold = 1\<rparr>"

definition no_float :: "rat \<Rightarrow> string" where
  "no_float x = []"

lemma small_run:
  "compact_messages_for_request no_float small_config keep_notes [] [] four_messages =
     (no_effects, Inr (drop 2 four_messages, Some ''Notes.'', True))"
  by code_simp

definition first_three :: "message list" where
  "first_three = butlast four_messages"

definition last_message :: message where
  "last_message = [(''role'', PStr ''user''), (''content'', PStr ''How many?'')]"

lemma four_split: "four_messages = first_three @ [last_message]"
  by (simp add: four_messages_def first_three_def last_message_def)

theorem compaction_can_part_pair_witness:
  "find_compaction_boundary [[], [], [(''role'', PStr ''tool'')], []] = 2"
  using compaction_can_part_pair [of "[[], [], [(''role'', PStr ''tool'')], []]"]
  by (simp add: is_tool_def msg_get_def)

theorem compaction_forgets_recent_witness:
  "apply_latest_summary_checkpoint (first_three @ [od_set ''contextSummary'' (PStr ''Notes.'') last_message]) =
     ([od_set ''contextSummary'' (PStr ''Notes.'') last_message], Some ''Notes.'')"
proof -
  have "summary_of (od_set ''contextSummary'' (PStr ''Notes.'') last_message) = Some ''Notes.''" by code_simp
  note run = compaction_forgets_recent [OF small_run [unfolded four_split] this]
  have "\<forall>m\<in>set []. summary_of m = None" by simp
  from run [OF this] show ?thesis by blast
qed

theorem compaction_drops_system_prompt_witness:
  "compact_step no_float small_config keep_notes [] [] four_messages =
     [(''role'', PStr ''system''), (''content'', PStr (summary_prompt ''Notes.''))] # drop 2 four_messages"
proof -
  have "summary_of (hd four_messages) = None" by code_simp
  moreover have "list_all (\<lambda>m'. summary_of m' = None \<and> od_get m' ''role'' \<noteq> None \<and>
      msg_get m' ''role'' \<noteq> PStr ''system'') (tl four_messages)" by code_simp
  moreover have "four_messages = hd four_messages # tl four_messages" by (simp add: four_messages_def)
  ultimately show ?thesis
    using compaction_drops_system_prompt [of no_float small_config keep_notes "[]" "[]" "hd four_messages"
        "tl four_messages" no_effects "drop 2 four_messages" "''Notes.''"] small_run
    by (simp add: list_all_iff)
qed

end
