(* ===== verification/Fnmatch.thy ===== *)
theory Fnmatch
  imports Py_Value
begin

text \<open>
  Python's \<^verbatim>\<open>fnmatch.fnmatchcase\<close>, which the SQL policy uses for its patterns: \<^verbatim>\<open>*\<close>, \<^verbatim>\<open>?\<close> and
  character sets. A set closes at the first bracket after its first character; without one
  the opening bracket stands for itself.
\<close>

text \<open>What follows an opening bracket: negation, the characters of the set and the rest\<close>

definition set_body :: "string \<Rightarrow> (string \<times> string) option" where
  "set_body q = (case q of
      [] \<Rightarrow> None
    | c # r \<Rightarrow>
        (case dropWhile (\<lambda>x. x \<noteq> CHR '']'') (if c = CHR '']'' then r else q) of
           [] \<Rightarrow> None
         | _ # rest \<Rightarrow>
             Some ((if c = CHR '']'' then [c] else []) @
               takeWhile (\<lambda>x. x \<noteq> CHR '']'') (if c = CHR '']'' then r else q), rest)))"

definition open_set :: "string \<Rightarrow> (bool \<times> string \<times> string) option" where
  "open_set p = (case p of
      [] \<Rightarrow> None
    | c # q \<Rightarrow>
        (if c = CHR ''!'' then map_option (\<lambda>(s, rest). (True, s, rest)) (set_body q)
         else map_option (\<lambda>(s, rest). (False, s, rest)) (set_body p)))"

definition char_range :: "char \<Rightarrow> char \<Rightarrow> char \<Rightarrow> bool" where
  "char_range x z c = ((of_char x :: nat) \<le> of_char c \<and> (of_char c :: nat) \<le> of_char z)"

text \<open>The characters of a set, from the left: \<open>x-z\<close> is a range unless the dash is the last character.\<close>

fun in_set :: "nat \<Rightarrow> char \<Rightarrow> string \<Rightarrow> bool" where
  "in_set 0 c s = False"
| "in_set (Suc n) c s = (case s of
      [] \<Rightarrow> False
    | x # r \<Rightarrow>
        (if 2 \<le> length r \<and> hd r = CHR ''-'' then char_range x (r ! 1) c \<or> in_set n c (drop 2 r)
         else c = x \<or> in_set n c r))"

lemma length_dropWhile_Cons: "dropWhile P xs = y # ys \<Longrightarrow> length ys < length xs"
  using length_dropWhile_le [of P xs] by simp

lemma set_body_shorter: "set_body q = Some (s, rest) \<Longrightarrow> length rest < length q"
  by (auto simp: set_body_def split: list.splits if_splits dest!: length_dropWhile_Cons)

lemma open_set_shorter: "open_set p = Some (neg, s, rest) \<Longrightarrow> length rest < length p"
  by (auto simp: open_set_def split: list.splits if_splits dest!: set_body_shorter)

function fn_match :: "string \<Rightarrow> string \<Rightarrow> bool" where
  "fn_match [] s = (s = [])"
| "fn_match (c # p) s =
     (if c = CHR ''*'' then fn_match p s \<or> (case s of [] \<Rightarrow> False | _ # r \<Rightarrow> fn_match (c # p) r)
      else (case s of
          [] \<Rightarrow> False
        | x # r \<Rightarrow>
            (if c = CHR ''?'' then fn_match p r
             else if c = CHR ''['' then
               (case open_set p of
                  None \<Rightarrow> x = c \<and> fn_match p r
                | Some (neg, set_chars, rest) \<Rightarrow> in_set (length set_chars) x set_chars \<noteq> neg \<and> fn_match rest r)
             else x = c \<and> fn_match p r)))"
  by pat_completeness auto
termination
  by (relation "measure (\<lambda>(p, s). length p + length s)") (auto dest: open_set_shorter)

section \<open>Facts\<close>

declare fn_match.simps(2) [simp del]

lemma fn_match_star_simps [simp]:
  "fn_match (CHR ''*'' # p) [] = fn_match p []"
  "fn_match (CHR ''*'' # p) (x # r) = (fn_match p (x # r) \<or> fn_match (CHR ''*'' # p) r)"
  by (simp_all add: fn_match.simps(2))

lemma fn_match_plain_Cons:
  "c \<notin> {CHR ''*'', CHR ''?'', CHR ''[''} \<Longrightarrow>
    fn_match (c # p) s = (case s of [] \<Rightarrow> False | x # r \<Rightarrow> x = c \<and> fn_match p r)"
  by (simp add: fn_match.simps(2) cong: list.case_cong)

text \<open>A pattern without special characters matches itself only.\<close>

definition plain_pattern :: "string \<Rightarrow> bool" where
  "plain_pattern p = (set p \<inter> {CHR ''*'', CHR ''?'', CHR ''[''} = {})"

lemma fn_match_plain: "plain_pattern p \<Longrightarrow> fn_match p s = (s = p)"
proof (induction p arbitrary: s)
  case Nil
  then show ?case by simp
next
  case (Cons c p)
  then have "c \<notin> {CHR ''*'', CHR ''?'', CHR ''[''}" and "plain_pattern p" by (auto simp: plain_pattern_def)
  with Cons.IH show ?case by (cases s) (auto simp: fn_match_plain_Cons)
qed

lemma fn_match_star_any: "fn_match [CHR ''*''] s"
  by (induction s) auto

lemma fn_match_star: "fn_match (CHR ''*'' # p) s = (\<exists>a b. s = a @ b \<and> fn_match p b)"
proof (induction s)
  case Nil
  then show ?case by simp
next
  case (Cons x s)
  have "(\<exists>a b. x # s = a @ b \<and> fn_match p b) = (fn_match p (x # s) \<or> (\<exists>a b. s = a @ b \<and> fn_match p b))"
    (is "?l = ?r")
  proof
    assume ?l
    then obtain a b where "x # s = a @ b" "fn_match p b" by blast
    then show ?r by (cases a) auto
  next
    assume ?r
    then show ?l
    proof
      assume "fn_match p (x # s)"
      then show ?l by (intro exI [of _ "[]"] exI [of _ "x # s"]) simp
    next
      assume "\<exists>a b. s = a @ b \<and> fn_match p b"
      then obtain a b where "s = a @ b" "fn_match p b" by blast
      then show ?l by (intro exI [of _ "x # a"] exI [of _ b]) simp
    qed
  qed
  with Cons show ?case by simp
qed

lemma fn_match_prefix: "plain_pattern p \<Longrightarrow> fn_match (p @ [CHR ''*'']) s = (\<exists>t. s = p @ t)"
proof (induction p arbitrary: s)
  case Nil
  then show ?case using fn_match_star_any by simp
next
  case (Cons c p)
  then have "c \<notin> {CHR ''*'', CHR ''?'', CHR ''[''}" and "plain_pattern p" by (auto simp: plain_pattern_def)
  with Cons.IH show ?case by (cases s) (auto simp: fn_match_plain_Cons)
qed

end
