(* ===== verification/Sql_Policy.thy ===== *)
theory Sql_Policy
  imports Json Fnmatch
begin

text \<open>
  The policy on SQL queries and on their results, \<^verbatim>\<open>backend/openlaunch/tools/sql_policy.py\<close>. The SQL
  parser is not part of the repository: what the code asks of it is the record \<open>sql_ops\<close> over an
  abstract type of expressions.
\<close>

section \<open>The parser's interface\<close>

text \<open>A node of an expression: its key, its name when it is a function unknown to the parser, and
  whether it is a star\<close>

record sql_node =
  sn_key :: string
  sn_anonymous :: "string option"
  sn_star :: bool

record 'e sql_ops =
  so_parse :: "string \<Rightarrow> string \<Rightarrow> 'e option list option"
  so_is_read :: "'e \<Rightarrow> bool"
  so_walk :: "'e \<Rightarrow> sql_node list"
  so_tables :: "'e \<Rightarrow> (string \<times> string \<times> string) list"
  so_columns :: "'e \<Rightarrow> (string \<times> string) list"
  so_joins :: "'e \<Rightarrow> nat"
  so_selects :: "'e \<Rightarrow> nat"
  so_condition :: "string \<Rightarrow> string \<Rightarrow> 'e option"
  so_restrict :: "'e list \<Rightarrow> 'e \<Rightarrow> 'e"
  so_sql :: "string \<Rightarrow> 'e \<Rightarrow> string"
  so_fingerprint :: "string \<Rightarrow> 'e \<Rightarrow> string"

section \<open>Queries\<close>

record sql_decision =
  sd_query :: string
  sd_dialect :: string
  sd_objects :: "string list"
  sd_columns :: "string list"
  sd_fingerprint :: string
  sd_joins :: nat

definition dialects :: "(string, string) od" where
  "dialects = [(''postgresql'', ''postgres''), (''sql_server'', ''tsql''), (''azure_sql'', ''tsql''),
     (''snowflake'', ''snowflake'')]"

definition mutating_keys :: "string list" where
  "mutating_keys = [''insert'', ''update'', ''delete'', ''merge'', ''create'', ''drop'', ''alter'', ''truncate'',
     ''copy'', ''grant'', ''revoke'', ''transaction'', ''commit'', ''rollback'', ''set'', ''use'', ''execute'',
     ''command'', ''into'', ''load_data'']"

definition unsafe_functions :: "string list" where
  "unsafe_functions = [''BENCHMARK'', ''DBMS_LOCK.SLEEP'', ''DBLINK'', ''DBLINK_CONNECT'', ''HTTP_GET'', ''HTTP_POST'',
     ''LO_EXPORT'', ''LO_IMPORT'', ''OPENROWSET'', ''OPENDATASOURCE'', ''PG_LS_DIR'', ''PG_READ_BINARY_FILE'',
     ''PG_READ_FILE'', ''PG_SLEEP'', ''SYSTEM$WAIT'']"

text \<open>The pattern is asked for only until one matches, so a later one that is no string does not show.\<close>

definition matches :: "string \<Rightarrow> pv list \<Rightarrow> bool res" where
  "matches value patterns =
     ranyM (\<lambda>p. rbind (pstr p) (\<lambda>s. Inr (fn_match (py_lower s) (py_lower value)))) patterns"

definition dotted :: "string list \<Rightarrow> string" where
  "dotted parts = py_join ''.'' (filter (\<lambda>p. p \<noteq> []) parts)"

definition table_name :: "string \<times> string \<times> string \<Rightarrow> string" where
  "table_name t = (case t of (catalog, db, name) \<Rightarrow> dotted [catalog, db, name])"

definition column_name :: "string \<times> string \<Rightarrow> string" where
  "column_name c = dotted [fst c, snd c]"

text \<open>\<^verbatim>\<open>list(policy.get(key) or [])\<close>\<close>

definition policy_list :: "pdict \<Rightarrow> string \<Rightarrow> pv list res" where
  "policy_list policy k = piter (py_or (od_getd policy k PNone) (PList []))"

definition check_node :: "sql_node \<Rightarrow> unit res" where
  "check_node n =
     (if py_lower (sn_key n) \<in> set mutating_keys then Inl (SQLPolicyError ''The query contains an unsafe operation.'')
      else (case sn_anonymous n of
          Some f \<Rightarrow> (if py_upper f \<in> set unsafe_functions
            then Inl (SQLPolicyError ''The query contains a blocked function.'') else Inr ())
        | None \<Rightarrow> Inr ()))"

definition check_name :: "string \<Rightarrow> string \<Rightarrow> pv list \<Rightarrow> pv list \<Rightarrow> string \<Rightarrow> unit res" where
  "check_name denied_msg outside_msg allow deny name =
     rbind (if deny \<noteq> [] then matches name deny else Inr False) (\<lambda>denied.
       if denied then Inl (SQLPolicyError denied_msg)
       else rbind (if allow \<noteq> [] then matches name allow else Inr True) (\<lambda>inside.
         if inside then Inr () else Inl (SQLPolicyError outside_msg)))"

definition check_object :: "pv list \<Rightarrow> pv list \<Rightarrow> string \<Rightarrow> unit res" where
  "check_object = check_name ''The query references a denied object.''
     ''The query references an object outside the allowlist.''"

definition check_column :: "pv list \<Rightarrow> pv list \<Rightarrow> string \<Rightarrow> unit res" where
  "check_column = check_name ''The query references a denied column.''
     ''The query references a column outside the allowlist.''"

fun check_all :: "('a \<Rightarrow> unit res) \<Rightarrow> 'a list \<Rightarrow> unit res" where
  "check_all p [] = Inr ()"
| "check_all p (x # xs) = rbind (p x) (\<lambda>_. check_all p xs)"

definition require :: "bool \<Rightarrow> string \<Rightarrow> unit res" where
  "require b msg = (if b then Inr () else Inl (SQLPolicyError msg))"

text \<open>The one statement that is read, or the refusal\<close>

definition parse_query :: "'e sql_ops \<Rightarrow> string \<Rightarrow> pv \<Rightarrow> ('e \<times> string) res" where
  "parse_query ops provider query =
     (case od_get dialects provider of
        None \<Rightarrow> Inl (SQLPolicyError ''The SQL dialect is unsupported.'')
      | Some dialect \<Rightarrow>
         (case query of
            PStr q \<Rightarrow>
              rbind (require (py_strip q \<noteq> [] \<and> CHR 0x00 \<notin> set q) ''A valid query is required.'') (\<lambda>_.
              case so_parse ops dialect q of
                None \<Rightarrow> Inl (SQLPolicyError ''The query could not be classified safely.'')
              | Some statements \<Rightarrow>
                 (case filter (\<lambda>s. s \<noteq> None) statements of
                    [Some e] \<Rightarrow> rbind (require (so_is_read ops e) ''Only read-only query statements are allowed.'')
                      (\<lambda>_. Inr (e, dialect))
                  | _ \<Rightarrow> Inl (SQLPolicyError ''Only one statement is allowed.'')))
          | _ \<Rightarrow> Inl (SQLPolicyError ''A valid query is required.'')))"

definition check_columns :: "'e sql_ops \<Rightarrow> 'e \<Rightarrow> pdict \<Rightarrow> string list res" where
  "check_columns ops e policy =
     (let columns = dedup (map column_name (so_columns ops e)) in
      rbind (policy_list policy ''column_allowlist'') (\<lambda>allow.
      rbind (policy_list policy ''column_denylist'') (\<lambda>deny.
      rbind (check_all (check_column allow deny) columns) (\<lambda>_.
      rbind (require (\<not> ((allow \<noteq> [] \<or> deny \<noteq> []) \<and> list_ex sn_star (so_walk ops e)))
        ''Wildcard columns are not allowed when column policy is active.'') (\<lambda>_. Inr columns)))))"

definition check_objects :: "'e sql_ops \<Rightarrow> 'e \<Rightarrow> pdict \<Rightarrow> string list res" where
  "check_objects ops e policy =
     (let objects = dedup (map table_name (so_tables ops e)) in
      rbind (policy_list policy ''object_allowlist'') (\<lambda>allow.
      rbind (policy_list policy ''object_denylist'') (\<lambda>deny.
      rbind (check_all (check_object allow deny) objects) (\<lambda>_. Inr objects))))"

definition check_costs :: "'e sql_ops \<Rightarrow> 'e \<Rightarrow> pdict \<Rightarrow> string list \<Rightarrow> unit res" where
  "check_costs ops e policy objects =
     rbind (py_int (od_getd policy ''max_joins'' (PInt 12))) (\<lambda>joins.
     rbind (py_int (od_getd policy ''max_scans'' (PInt 24))) (\<lambda>scans.
       require (\<not> (int (so_joins ops e) > max 0 joins \<or> int (length objects) > max 1 scans))
         ''The query exceeds configured cost safeguards.''))"

text \<open>The row predicates whose pattern matches an object of the query\<close>

definition applicable_predicates :: "pdict \<Rightarrow> string list \<Rightarrow> pv list res" where
  "applicable_predicates policy objects =
     rbind (pitems (py_or (od_getd policy ''row_predicates'' PNone) (PDict []))) (\<lambda>items.
     rbind (rfilterM (\<lambda>(name, _). ranyM (\<lambda>obj. matches obj [PStr name]) objects) items) (\<lambda>kept.
       Inr (map snd kept)))"

definition restrict_rows :: "(rat \<Rightarrow> string) \<Rightarrow> 'e sql_ops \<Rightarrow> string \<Rightarrow> 'e \<Rightarrow> pv list \<Rightarrow> 'e res" where
  "restrict_rows f ops dialect e predicates =
     (if predicates = [] \<or> so_selects ops e = 0 then Inr e
      else rbind (rmapM (\<lambda>p. case so_condition ops dialect (py_str f p) of
            None \<Rightarrow> Inl (SQLPolicyError ''A configured row policy is invalid.'')
          | Some c \<Rightarrow> Inr c) predicates) (\<lambda>conds. Inr (so_restrict ops conds e)))"

definition enforce_sql_policy ::
  "(rat \<Rightarrow> string) \<Rightarrow> 'e sql_ops \<Rightarrow> pv \<Rightarrow> string \<Rightarrow> pdict \<Rightarrow> sql_decision res" where
  "enforce_sql_policy f ops query provider policy =
     rbind (parse_query ops provider query) (\<lambda>(e, dialect).
     rbind (check_all check_node (so_walk ops e)) (\<lambda>_.
     rbind (check_objects ops e policy) (\<lambda>objects.
     rbind (check_columns ops e policy) (\<lambda>columns.
     rbind (check_costs ops e policy objects) (\<lambda>_.
     rbind (applicable_predicates policy objects) (\<lambda>predicates.
     rbind (restrict_rows f ops dialect e predicates) (\<lambda>e'.
       Inr \<lparr>sd_query = so_sql ops dialect e', sd_dialect = dialect, sd_objects = objects, sd_columns = columns,
            sd_fingerprint = so_fingerprint ops dialect e', sd_joins = so_joins ops e\<rparr>)))))))"

section \<open>Results\<close>

definition redacted :: pv where
  "redacted = PStr ''[REDACTED]''"

text \<open>Whether a column is masked: by a pattern on its name, or by the label that the policy gives it\<close>

definition masked_column :: "(rat \<Rightarrow> string) \<Rightarrow> pv list \<Rightarrow> pv \<Rightarrow> pv list \<Rightarrow> pv \<Rightarrow> bool res" where
  "masked_column f masks labels mask_labels column =
     rbind (matches (py_str f column) masks) (\<lambda>m.
       if m then Inr True
       else rbind (pget labels (py_str f column) PNone) (\<lambda>l. rbind (hash_key l) (\<lambda>h. Inr (h \<in> set mask_labels))))"

definition mask_row :: "bool list \<Rightarrow> pv \<Rightarrow> pv" where
  "mask_row flags row = (case row of
      PList cells \<Rightarrow> PList (map (\<lambda>(i, v). if i < length flags \<and> flags ! i then redacted else v) (enumerate 0 cells))
    | _ \<Rightarrow> row)"

definition table_of :: "pdict \<Rightarrow> pv list \<Rightarrow> pdict" where
  "table_of payload rows = od_set ''row_count'' (PInt (int (length rows))) (od_set ''rows'' (PList rows) payload)"

definition utf8_size :: "(rat \<Rightarrow> string) \<Rightarrow> pdict \<Rightarrow> int" where
  "utf8_size f payload = int (utf8_len (compact_dumps False f (PDict payload)))"

text \<open>Rows are dropped from the end until the result fits.\<close>

function shrink :: "(rat \<Rightarrow> string) \<Rightarrow> int \<Rightarrow> pdict \<Rightarrow> pv list \<Rightarrow> pdict \<times> pv list" where
  "shrink f max_bytes payload rows =
     (if rows \<noteq> [] \<and> utf8_size f payload > max_bytes
      then shrink f max_bytes (od_set ''truncated'' (PBool True) (table_of payload (butlast rows))) (butlast rows)
      else (payload, rows))"
  by pat_completeness auto
termination by (relation "measure (\<lambda>(f, n, payload, rows). length rows)") auto

declare shrink.simps [simp del]

definition limit_error :: pv where
  "limit_error = PDict [(''error'', PStr ''The data source result exceeds its policy limit.''), (''truncated'', PBool True)]"

definition limit_table :: "(rat \<Rightarrow> string) \<Rightarrow> pdict \<Rightarrow> int \<Rightarrow> int \<Rightarrow> pv list \<Rightarrow> string" where
  "limit_table f payload max_rows max_bytes rows =
     (let rows1 = (if int (length rows) > max_rows then take (nat max_rows) rows else rows);
          payload1 = table_of (if int (length rows) > max_rows then od_set ''truncated'' (PBool True) payload else payload) rows1;
          (payload2, rows2) = shrink f max_bytes payload1 rows1
      in if utf8_size f payload2 > max_bytes then json_dumps True f limit_error
         else compact_dumps False f (PDict payload2))"

definition apply_result_governance :: "float_ops \<Rightarrow> string \<Rightarrow> pdict \<Rightarrow> string res" where
  "apply_result_governance fo encoded policy = (let f = fl_repr fo in
     case json_loads (fl_read fo) encoded of
       Inl e \<Rightarrow> Inr encoded
     | Inr (PDict payload) \<Rightarrow>
         (case (od_getd payload ''columns'' PNone, od_getd payload ''rows'' PNone) of
            (PList columns, PList rows) \<Rightarrow>
              rbind (policy_list policy ''column_masks'') (\<lambda>masks.
              rbind (policy_list policy ''mask_pii_labels'') (\<lambda>ls. rbind (rmapM hash_key ls) (\<lambda>mask_labels.
              rbind (rmapM (masked_column f masks (py_or (od_getd policy ''pii_labels'' PNone) (PDict [])) mask_labels) columns)
                (\<lambda>flags.
              rbind (py_int (od_getd policy ''max_export_rows'' (PInt (int (length rows))))) (\<lambda>max_rows.
              rbind (py_int (od_getd policy ''max_result_bytes'' (PInt (1024 * 1024)))) (\<lambda>max_bytes.
                Inr (limit_table f payload (max 0 max_rows) (max 256 max_bytes) (map (mask_row flags) rows))))))))
          | _ \<Rightarrow> Inr encoded)
     | Inr _ \<Rightarrow> Inl AttributeError)"

section \<open>What passes\<close>

lemma check_all_ok: "check_all p xs = Inr u \<longleftrightarrow> (\<forall>x\<in>set xs. p x = Inr ())"
  by (induction xs) (auto simp: res_simps)

lemma require_ok: "require b msg = Inr x \<longleftrightarrow> b"
  by (simp add: require_def)

lemma check_node_ok:
  "check_node n = Inr () \<longleftrightarrow> py_lower (sn_key n) \<notin> set mutating_keys \<and>
     (case sn_anonymous n of None \<Rightarrow> True | Some f \<Rightarrow> py_upper f \<notin> set unsafe_functions)"
  by (auto simp: check_node_def split: option.splits)

text \<open>A name within a policy: not denied, and allowed when there is an allowlist\<close>

definition name_admitted :: "pv list \<Rightarrow> pv list \<Rightarrow> string \<Rightarrow> bool" where
  "name_admitted allow deny name = ((deny = [] \<or> matches name deny = Inr False) \<and> (allow = [] \<or> matches name allow = Inr True))"

lemma check_name_ok: "check_name a b allow deny name = Inr () \<longleftrightarrow> name_admitted allow deny name"
  by (auto simp: check_name_def name_admitted_def res_simps split: if_splits)

lemma parse_query_ok:
  assumes "parse_query ops provider query = Inr (e, dialect)"
  shows "\<exists>q ss. query = PStr q \<and> od_get dialects provider = Some dialect \<and> so_parse ops dialect q = Some ss \<and>
    filter (\<lambda>s. s \<noteq> None) ss = [Some e] \<and> so_is_read ops e"
  using assms unfolding parse_query_def
  by (auto simp: res_simps require_ok split: option.splits pv.splits list.splits)

lemma check_objects_ok:
  assumes "check_objects ops e policy = Inr objects"
  shows "objects = dedup (map table_name (so_tables ops e)) \<and>
    (\<exists>allow deny. policy_list policy ''object_allowlist'' = Inr allow \<and> policy_list policy ''object_denylist'' = Inr deny \<and>
      (\<forall>n\<in>set objects. name_admitted allow deny n))"
proof -
  from assms obtain allow deny u where "policy_list policy ''object_allowlist'' = Inr allow"
    "policy_list policy ''object_denylist'' = Inr deny"
    "check_all (check_object allow deny) (dedup (map table_name (so_tables ops e))) = Inr u"
    "objects = dedup (map table_name (so_tables ops e))"
    unfolding check_objects_def Let_def by (auto simp only: rbind_eq_Inr sum.inject)
  then show ?thesis unfolding check_all_ok check_object_def check_name_ok by blast
qed

lemma check_columns_ok:
  assumes "check_columns ops e policy = Inr columns"
  shows "columns = dedup (map column_name (so_columns ops e)) \<and>
    (\<exists>allow deny. policy_list policy ''column_allowlist'' = Inr allow \<and> policy_list policy ''column_denylist'' = Inr deny \<and>
      (\<forall>n\<in>set columns. name_admitted allow deny n) \<and>
      ((allow \<noteq> [] \<or> deny \<noteq> []) \<longrightarrow> (\<forall>n\<in>set (so_walk ops e). \<not> sn_star n)))"
proof -
  from assms obtain allow deny u v where "policy_list policy ''column_allowlist'' = Inr allow"
    "policy_list policy ''column_denylist'' = Inr deny"
    "check_all (check_column allow deny) (dedup (map column_name (so_columns ops e))) = Inr u"
    "require (\<not> ((allow \<noteq> [] \<or> deny \<noteq> []) \<and> list_ex sn_star (so_walk ops e)))
       ''Wildcard columns are not allowed when column policy is active.'' = Inr v"
    "columns = dedup (map column_name (so_columns ops e))"
    unfolding check_columns_def Let_def by (auto simp only: rbind_eq_Inr sum.inject)
  then show ?thesis unfolding check_all_ok check_column_def check_name_ok require_ok list_ex_iff by blast
qed

text \<open>The policy of a list that may be absent\<close>

definition policy_admits :: "pdict \<Rightarrow> string \<Rightarrow> string \<Rightarrow> string \<Rightarrow> bool" where
  "policy_admits policy allow_key deny_key name =
     (\<exists>allow deny. policy_list policy allow_key = Inr allow \<and> policy_list policy deny_key = Inr deny \<and>
        name_admitted allow deny name)"


text \<open>A parser that reads the name of a table\<close>

definition name_sql :: "string sql_ops" where
  "name_sql = \<lparr>so_parse = (\<lambda>_ q. Some [Some q, None]), so_is_read = (\<lambda>_. True),
     so_walk = (\<lambda>_. [\<lparr>sn_key = ''Select'', sn_anonymous = Some ''count'', sn_star = False\<rparr>]),
     so_tables = (\<lambda>e. [([], ''public'', e)]), so_columns = (\<lambda>_. [([], ''id'')]), so_joins = (\<lambda>_. 0),
     so_selects = (\<lambda>_. 1), so_condition = (\<lambda>_ s. Some s), so_restrict = (\<lambda>cs e. concat cs @ e),
     so_sql = (\<lambda>_ e. e), so_fingerprint = (\<lambda>_ e. e)\<rparr>"

definition sample_policy :: pdict where
  "sample_policy = [(''object_allowlist'', PList [PStr ''public.*'']), (''object_denylist'', PList [PStr ''*.secrets'']),
     (''column_denylist'', PList [PStr ''password'']), (''row_predicates'', PDict [(''*.users'', PStr ''tenant = 1 '')])]"

definition sample_decision :: sql_decision where
  "sample_decision = \<lparr>sd_query = ''tenant = 1 users'', sd_dialect = ''postgres'', sd_objects = [''public.users''],
     sd_columns = [''id''], sd_fingerprint = ''tenant = 1 users'', sd_joins = 0\<rparr>"

lemma sample_enforced:
  "enforce_sql_policy (\<lambda>_. []) name_sql (PStr ''users'') ''postgresql'' sample_policy = Inr sample_decision"
  by code_simp


section \<open>What a governed result holds\<close>

text \<open>The rows of a governed table: a beginning of the given rows, with the flagged cells of every row
  replaced\<close>

definition governed_row :: "bool list \<Rightarrow> pv \<Rightarrow> pv \<Rightarrow> bool" where
  "governed_row flags row out = (case row of
      PList cells \<Rightarrow> (\<exists>cs. out = PList cs \<and> length cs = length cells \<and>
        (\<forall>i<length cells. cs ! i = (if i < length flags \<and> flags ! i then redacted else cells ! i)))
    | _ \<Rightarrow> out = row)"

definition governed_rows :: "bool list \<Rightarrow> pv list \<Rightarrow> pv list \<Rightarrow> bool" where
  "governed_rows flags rows out = (length out \<le> length rows \<and> list_all2 (governed_row flags) (take (length out) rows) out)"

lemma mask_row_governed: "governed_row flags row (mask_row flags row)"
  by (cases row) (auto simp: mask_row_def governed_row_def nth_enumerate_eq)

lemma governed_take: "governed_rows flags rows (take n (map (mask_row flags) rows))"
  unfolding governed_rows_def
  by (auto simp: list_all2_conv_all_nth min_def mask_row_governed)

lemma shrink_spec:
  assumes "od_get payload ''rows'' = Some (PList rows)" and "od_get payload ''row_count'' = Some (PInt (int (length rows)))"
  shows "\<exists>n. snd (shrink f b payload rows) = take n rows \<and>
    od_get (fst (shrink f b payload rows)) ''rows'' = Some (PList (take n rows)) \<and>
    od_get (fst (shrink f b payload rows)) ''row_count'' = Some (PInt (int (length (take n rows))))"
  using assms
proof (induction f b payload rows rule: shrink.induct)
  case (1 f b payload rows)
  show ?case
  proof (cases "rows \<noteq> [] \<and> utf8_size f payload > b")
    case True
    let ?p = "od_set ''truncated'' (PBool True) (table_of payload (butlast rows))"
    from True have eq: "shrink f b payload rows = shrink f b ?p (butlast rows)" by (subst shrink.simps) simp
    have "od_get ?p ''rows'' = Some (PList (butlast rows))"
      "od_get ?p ''row_count'' = Some (PInt (int (length (butlast rows))))"
      by (simp_all add: table_of_def)
    from 1(1) [OF True this] obtain n where n: "snd (shrink f b ?p (butlast rows)) = take n (butlast rows)"
      "od_get (fst (shrink f b ?p (butlast rows))) ''rows'' = Some (PList (take n (butlast rows)))"
      "od_get (fst (shrink f b ?p (butlast rows))) ''row_count'' = Some (PInt (int (length (take n (butlast rows)))))"
      by blast
    have "take n (butlast rows) = take (min n (length rows - 1)) rows" by (simp add: butlast_conv_take)
    with n show ?thesis unfolding eq by metis
  next
    case False
    then have "shrink f b payload rows = (payload, rows)" by (subst shrink.simps) (simp only: if_False)
    with 1(2,3) show ?thesis by (intro exI [of _ "length rows"]) simp
  qed
qed

lemma limit_table_spec:
  assumes "limit_table f payload k b rows = out" and "0 \<le> k"
  shows "out = json_dumps True f limit_error \<or>
    (\<exists>table n. out = compact_dumps False f (PDict table) \<and> int (utf8_len out) \<le> b \<and> int n \<le> k \<and>
      od_get table ''rows'' = Some (PList (take n rows)) \<and>
      od_get table ''row_count'' = Some (PInt (int (length (take n rows)))))"
proof -
  define rows1 where "rows1 = (if int (length rows) > k then take (nat k) rows else rows)"
  define p1 where
    "p1 = table_of (if int (length rows) > k then od_set ''truncated'' (PBool True) payload else payload) rows1"
  have "od_get p1 ''rows'' = Some (PList rows1)" "od_get p1 ''row_count'' = Some (PInt (int (length rows1)))"
    by (simp_all add: p1_def table_of_def)
  from shrink_spec [OF this, of f b] obtain m where
    m: "od_get (fst (shrink f b p1 rows1)) ''rows'' = Some (PList (take m rows1))"
      "od_get (fst (shrink f b p1 rows1)) ''row_count'' = Some (PInt (int (length (take m rows1))))" by blast
  have "length rows1 \<le> nat k" using assms(2) by (auto simp: rows1_def)
  moreover have "take m rows1 = take (min m (length rows1)) rows"
  proof -
    have "rows1 = take (length rows1) rows" by (auto simp: rows1_def)
    then show ?thesis by (metis take_take)
  qed
  ultimately have take: "int (min m (length rows1)) \<le> k" "take m rows1 = take (min m (length rows1)) rows"
    using assms(2) by auto
  have "out = (if utf8_size f (fst (shrink f b p1 rows1)) > b then json_dumps True f limit_error
      else compact_dumps False f (PDict (fst (shrink f b p1 rows1))))"
    using assms(1) unfolding limit_table_def Let_def rows1_def [symmetric] p1_def [symmetric]
    by (auto split: prod.splits simp del: compact_dumps.simps)
  then show ?thesis using m take unfolding utf8_size_def by (metis not_le)
qed

text \<open>C26 A result table that passes through the policy comes back as an error without any data, or as
  a beginning of its rows in which every cell of a masked column is redacted and every other
  cell unchanged, with the number of rows it holds, no more rows than the cap and no more
  bytes than the limit.\<close>

theorem governance_masks_and_limits:
  assumes "json_loads (fl_read fo) encoded = Inr (PDict payload)"
    and "od_getd payload ''columns'' PNone = PList columns" and "od_getd payload ''rows'' PNone = PList rows"
    and "apply_result_governance fo encoded policy = Inr out"
  shows "\<exists>masks ls mask_labels flags max_rows max_bytes. policy_list policy ''column_masks'' = Inr masks \<and>
    policy_list policy ''mask_pii_labels'' = Inr ls \<and> rmapM hash_key ls = Inr mask_labels \<and>
    rmapM (masked_column (fl_repr fo) masks (py_or (od_getd policy ''pii_labels'' PNone) (PDict [])) mask_labels) columns =
      Inr flags \<and>
    py_int (od_getd policy ''max_export_rows'' (PInt (int (length rows)))) = Inr max_rows \<and>
    py_int (od_getd policy ''max_result_bytes'' (PInt (1024 * 1024))) = Inr max_bytes \<and>
    (out = json_dumps True (fl_repr fo) limit_error \<or>
     (\<exists>table out_rows. out = compact_dumps False (fl_repr fo) (PDict table) \<and> int (utf8_len out) \<le> max 256 max_bytes \<and>
        int (length out_rows) \<le> max 0 max_rows \<and> od_get table ''rows'' = Some (PList out_rows) \<and>
        od_get table ''row_count'' = Some (PInt (int (length out_rows))) \<and> governed_rows flags rows out_rows))"
proof -
  from assms obtain masks ls mask_labels flags max_rows max_bytes where
    p: "policy_list policy ''column_masks'' = Inr masks" "policy_list policy ''mask_pii_labels'' = Inr ls"
      "rmapM hash_key ls = Inr mask_labels"
      "rmapM (masked_column (fl_repr fo) masks (py_or (od_getd policy ''pii_labels'' PNone) (PDict [])) mask_labels)
         columns = Inr flags"
      "py_int (od_getd policy ''max_export_rows'' (PInt (int (length rows)))) = Inr max_rows"
      "py_int (od_getd policy ''max_result_bytes'' (PInt (1024 * 1024))) = Inr max_bytes"
    and lim: "limit_table (fl_repr fo) payload (max 0 max_rows) (max 256 max_bytes) (map (mask_row flags) rows) = out"
    unfolding apply_result_governance_def Let_def
    by (auto simp only: rbind_eq_Inr sum.case pv.case prod.case sum.inject)
  have "out = json_dumps True (fl_repr fo) limit_error \<or>
     (\<exists>table out_rows. out = compact_dumps False (fl_repr fo) (PDict table) \<and> int (utf8_len out) \<le> max 256 max_bytes \<and>
        int (length out_rows) \<le> max 0 max_rows \<and> od_get table ''rows'' = Some (PList out_rows) \<and>
        od_get table ''row_count'' = Some (PInt (int (length out_rows))) \<and> governed_rows flags rows out_rows)"
    using limit_table_spec [OF lim]
  proof (rule disj_forward)
    assume "\<exists>table n. out = compact_dumps False (fl_repr fo) (PDict table) \<and> int (utf8_len out) \<le> max 256 max_bytes \<and>
      int n \<le> max 0 max_rows \<and> od_get table ''rows'' = Some (PList (take n (map (mask_row flags) rows))) \<and>
      od_get table ''row_count'' = Some (PInt (int (length (take n (map (mask_row flags) rows)))))"
    then obtain table n where t: "out = compact_dumps False (fl_repr fo) (PDict table)"
      "int (utf8_len out) \<le> max 256 max_bytes" "int n \<le> max 0 max_rows"
      "od_get table ''rows'' = Some (PList (take n (map (mask_row flags) rows)))"
      "od_get table ''row_count'' = Some (PInt (int (length (take n (map (mask_row flags) rows)))))" by blast
    moreover have "int (length (take n (map (mask_row flags) rows))) \<le> max 0 max_rows" using t(3) by auto
    ultimately show "\<exists>table out_rows. out = compact_dumps False (fl_repr fo) (PDict table) \<and>
        int (utf8_len out) \<le> max 256 max_bytes \<and> int (length out_rows) \<le> max 0 max_rows \<and>
        od_get table ''rows'' = Some (PList out_rows) \<and>
        od_get table ''row_count'' = Some (PInt (int (length out_rows))) \<and> governed_rows flags rows out_rows"
      using governed_take by blast
  qed simp_all
  with p show ?thesis by blast
qed

definition sample_table :: pdict where
  "sample_table = [(''columns'', PList [PStr ''id'', PStr ''email'']),
     (''rows'', PList [PList [PInt 1, PStr ''a@x''], PList [PInt 2, PStr ''b@x'']])]"

definition sample_masking :: pdict where
  "sample_masking = [(''column_masks'', PList [PStr ''e*'']), (''max_export_rows'', PInt 1)]"

definition governed_sample :: string where
  "governed_sample = compact_dumps False (\<lambda>_. []) (PDict [(''columns'', PList [PStr ''id'', PStr ''email'']),
     (''rows'', PList [PList [PInt 1, redacted]]), (''truncated'', PBool True), (''row_count'', PInt 1)])"

definition rat_floats :: float_ops where
  "rat_floats = \<lparr>fl_repr = (\<lambda>_. []), fl_str = (\<lambda>_. None), fl_read = (\<lambda>_. 0), fl_int = rat_of_int, fl_round = id\<rparr>"

lemma sample_table_plain: "json_plain (PDict sample_table)"
  by code_simp

lemma sample_table_read: "json_loads (fl_read rat_floats) (json_dumps False (fl_repr rat_floats) (PDict sample_table)) =
    Inr (PDict sample_table)"
  using sample_table_plain by (rule json_loads_dumps)

lemma sample_governed:
  "apply_result_governance rat_floats (json_dumps False (fl_repr rat_floats) (PDict sample_table)) sample_masking =
     Inr governed_sample"
  by code_simp

theorem governance_masks_and_limits_witness:
  "\<exists>flags max_rows. rmapM (masked_column (fl_repr rat_floats) [PStr ''e*''] (PDict []) []) [PStr ''id'', PStr ''email''] =
      Inr flags \<and> py_int (PInt 1) = Inr max_rows"
proof -
  have "od_getd sample_table ''columns'' PNone = PList [PStr ''id'', PStr ''email'']"
    "od_getd sample_table ''rows'' PNone = PList [PList [PInt 1, PStr ''a@x''], PList [PInt 2, PStr ''b@x'']]"
    by code_simp+
  from governance_masks_and_limits [OF sample_table_read this sample_governed]
  show ?thesis by (auto simp: sample_masking_def policy_list_def)
qed

end
