(* ===== verification/Secret_Resolver.thy ===== *)
theory Secret_Resolver
  imports Json
begin

text \<open>
  References to secrets, \<^verbatim>\<open>backend/openlaunch/utils/secret_resolver.py\<close>: the resolvers for
  environment variables, files and literal values, the table of resolvers and the step that puts
  a resolved secret into the metadata of a connection. The environment and the files are
  arguments.
\<close>

section \<open>Resolvers\<close>

record secret_env =
  se_environ :: "string \<Rightarrow> string option"
  se_file :: "string \<Rightarrow> string option"

definition unavailable :: "'a res" where
  "unavailable = Inl (SecretResolutionError ''Secret is unavailable.'')"

definition given_text :: "(rat \<Rightarrow> string) \<Rightarrow> pdict \<Rightarrow> string \<Rightarrow> string" where
  "given_text f reference k = py_str f (py_or (od_getd reference k PNone) (PStr []))"

definition env_resolve :: "(rat \<Rightarrow> string) \<Rightarrow> secret_env \<Rightarrow> pdict \<Rightarrow> string res" where
  "env_resolve f env reference =
     (let name = given_text f reference ''name'' in
      if name = [] then unavailable
      else (case se_environ env name of None \<Rightarrow> unavailable | Some v \<Rightarrow> Inr v))"

text \<open>\<^verbatim>\<open>document[key]\<close>: every exception is turned into the one of the resolver.\<close>

definition document_item :: "pv \<Rightarrow> pv \<Rightarrow> pv option" where
  "document_item document k = (case document of
      PDict d \<Rightarrow> (case k of PStr s \<Rightarrow> od_get d s | _ \<Rightarrow> None)
    | PList xs \<Rightarrow>
        (case k of
           PInt i \<Rightarrow> (if 0 \<le> i \<and> i < int (length xs) then Some (xs ! nat i)
             else if i < 0 \<and> - int (length xs) \<le> i then Some (xs ! nat (int (length xs) + i)) else None)
         | PBool b \<Rightarrow> (if (if b then 1 else 0) < length xs then Some (xs ! (if b then 1 else 0)) else None)
         | _ \<Rightarrow> None)
    | PStr s \<Rightarrow>
        (case k of
           PInt i \<Rightarrow> (if 0 \<le> i \<and> i < int (length s) then Some (PStr [s ! nat i])
             else if i < 0 \<and> - int (length s) \<le> i then Some (PStr [s ! nat (int (length s) + i)]) else None)
         | PBool b \<Rightarrow> (if (if b then 1 else 0) < length s then Some (PStr [s ! (if b then 1 else 0)]) else None)
         | _ \<Rightarrow> None)
    | _ \<Rightarrow> None)"

definition file_resolve :: "float_ops \<Rightarrow> secret_env \<Rightarrow> pdict \<Rightarrow> string res" where
  "file_resolve fo env reference =
     (let path = given_text (fl_repr fo) reference ''path''; k = od_getd reference ''key'' PNone in
      if \<not> py_startswith path ''/'' then unavailable
      else (case se_file env path of
          None \<Rightarrow> unavailable
        | Some text \<Rightarrow>
           (if \<not> truthy k then Inr (py_strip text)
            else (case json_loads (fl_read fo) text of
                Inl e \<Rightarrow> unavailable
              | Inr document \<Rightarrow>
                 (case document_item document k of
                    None \<Rightarrow> unavailable
                  | Some v \<Rightarrow> Inr (py_strip (py_str (fl_repr fo) v)))))))"

definition literal_resolve :: "pdict \<Rightarrow> string res" where
  "literal_resolve reference = (case od_getd reference ''value'' PNone of
      PStr s \<Rightarrow> (if s = [] then unavailable else Inr s)
    | _ \<Rightarrow> unavailable)"

type_synonym resolver = "pdict \<Rightarrow> string res"

definition builtin_resolvers :: "float_ops \<Rightarrow> secret_env \<Rightarrow> (string, resolver) od" where
  "builtin_resolvers fo env =
     [(''env'', env_resolve (fl_repr fo) env), (''file'', file_resolve fo env), (''literal'', literal_resolve)]"

definition register_secret_resolver :: "string \<Rightarrow> resolver \<Rightarrow> (string, resolver) od \<Rightarrow> (string, resolver) od res" where
  "register_secret_resolver kind r table =
     (if kind = [] \<or> od_has table kind then Inl (ValueError ''Secret resolver names must be unique.'')
      else Inr (od_set kind r table))"

definition resolve_secret :: "float_ops \<Rightarrow> (string, resolver) od \<Rightarrow> pv \<Rightarrow> string res" where
  "resolve_secret fo table reference = (case reference of
      PDict d \<Rightarrow> (case od_get table (given_text (fl_repr fo) d ''type'') of None \<Rightarrow> unavailable | Some r \<Rightarrow> r d)
    | _ \<Rightarrow> unavailable)"

definition secret_fields :: "string list" where
  "secret_fields = [''url'', ''connection_string'', ''config'', ''password'', ''token'', ''private_key'']"

definition secret_value :: "float_ops \<Rightarrow> string \<Rightarrow> string \<Rightarrow> pv res" where
  "secret_value fo field s =
     (if field = ''config''
      then (case json_loads (fl_read fo) s of Inr (PDict d) \<Rightarrow> Inr (PDict d) | _ \<Rightarrow> unavailable)
      else Inr (PStr s))"

definition inject_connection_secret :: "float_ops \<Rightarrow> (string, resolver) od \<Rightarrow> pdict \<Rightarrow> pv \<Rightarrow> pdict res" where
  "inject_connection_secret fo table metadata reference =
     (if \<not> truthy reference then Inr metadata
      else rbind (pget reference ''field'' PNone) (\<lambda>v.
        let field = py_str (fl_repr fo) (py_or v (PStr ''url'')) in
        if field \<notin> set secret_fields then Inl (SecretResolutionError ''Secret reference field is invalid.'')
        else rbind (resolve_secret fo table reference) (\<lambda>s.
          rbind (secret_value fo field s) (\<lambda>x. Inr (od_set field x metadata)))))"

section \<open>Properties\<close>

text \<open>A secret only ever goes into one of the fields meant for it; every other field of the metadata
  is what it was, and without a reference all of them are.
\<close>

theorem inject_secret_exact:
  assumes "inject_connection_secret fo table metadata reference = Inr result"
  shows "(if truthy reference
     then (\<exists>d field s x. reference = PDict d \<and> field \<in> set secret_fields \<and> resolve_secret fo table reference = Inr s \<and>
       secret_value fo field s = Inr x \<and> od_get result field = Some x \<and>
       (\<forall>k. k \<noteq> field \<longrightarrow> od_get result k = od_get metadata k))
     else result = metadata)"
proof (cases "truthy reference")
  case False
  with assms show ?thesis by (simp add: inject_connection_secret_def)
next
  case True
  with assms obtain v where v: "pget reference ''field'' PNone = Inr v"
    and rest: "(let field = py_str (fl_repr fo) (py_or v (PStr ''url'')) in
        if field \<notin> set secret_fields then Inl (SecretResolutionError ''Secret reference field is invalid.'')
        else rbind (resolve_secret fo table reference) (\<lambda>s.
          rbind (secret_value fo field s) (\<lambda>x. Inr (od_set field x metadata)))) = Inr result"
    by (auto simp: inject_connection_secret_def rbind_eq_Inr)
  define field where "field = py_str (fl_repr fo) (py_or v (PStr ''url''))"
  obtain d where d: "reference = PDict d" using v by (auto simp: pget_eq_Inr)
  have "field \<in> set secret_fields" using rest unfolding Let_def field_def [symmetric] by (auto split: if_splits)
  moreover from this rest obtain s x where "resolve_secret fo table reference = Inr s" "secret_value fo field s = Inr x"
    "result = od_set field x metadata"
    unfolding Let_def field_def [symmetric] by (auto simp: rbind_eq_Inr)
  ultimately show ?thesis using d True by auto
qed

definition plain_numbers :: float_ops where
  "plain_numbers = \<lparr>fl_repr = (\<lambda>_. []), fl_str = (\<lambda>_. None), fl_read = (\<lambda>_. 0), fl_int = rat_of_int, fl_round = id\<rparr>"

definition one_file :: secret_env where
  "one_file = \<lparr>se_environ = (\<lambda>_. None),
     se_file = (\<lambda>p. if p = ''/run/db'' then Some ('' hunter2'' @ nl) else None)\<rparr>"

definition file_reference :: pv where
  "file_reference = PDict [(''type'', PStr ''file''), (''path'', PStr ''/run/db''), (''field'', PStr ''password'')]"

lemma password_injected:
  "inject_connection_secret plain_numbers (builtin_resolvers plain_numbers one_file) [(''host'', PStr ''db'')] file_reference =
     Inr [(''host'', PStr ''db''), (''password'', PStr ''hunter2'')]"
  by code_simp

theorem inject_secret_exact_witness:
  "\<exists>field s. field \<in> set secret_fields \<and> secret_value plain_numbers field s = Inr (PStr ''hunter2'') \<and>
     resolve_secret plain_numbers (builtin_resolvers plain_numbers one_file) file_reference = Inr s"
proof -
  have "truthy file_reference" by code_simp
  with inject_secret_exact [OF password_injected] obtain field s x where
    field: "field \<in> set secret_fields" "secret_value plain_numbers field s = Inr x"
    and s: "resolve_secret plain_numbers (builtin_resolvers plain_numbers one_file) file_reference = Inr s"
    and x: "od_get [(''host'', PStr ''db''), (''password'', PStr ''hunter2'')] field = Some x"
    by auto
  from x have "x = PStr ''db'' \<or> x = PStr ''hunter2''" and "x = PStr ''db'' \<Longrightarrow> field = ''host''"
    by (auto split: if_splits)
  with field(1) have "x = PStr ''hunter2''" by (auto simp: secret_fields_def)
  with field s show ?thesis by blast
qed

text \<open>Whatever is wrong with a reference, the message says only that the secret is unavailable or that
  its field is invalid; neither it nor the shape of the failure depends on the secret.\<close>

definition silent :: "py_error \<Rightarrow> bool" where
  "silent e = (e \<in> {SecretResolutionError ''Secret is unavailable.'',
     SecretResolutionError ''Secret reference field is invalid.'', AttributeError})"

lemma unavailable_silent: "unavailable = Inl e \<Longrightarrow> silent e"
  by (simp add: unavailable_def silent_def)

lemma builtin_silent:
  assumes "od_get (builtin_resolvers fo env) kind = Some r" and "r d = Inl e"
  shows "silent e"
proof -
  from assms(1) consider "r = env_resolve (fl_repr fo) env" | "r = file_resolve fo env" | "r = literal_resolve"
    by (auto simp: builtin_resolvers_def split: if_splits)
  then show ?thesis
    using assms(2) unavailable_silent
    by cases (auto simp: env_resolve_def file_resolve_def literal_resolve_def Let_def
        split: if_splits option.splits sum.splits pv.splits)
qed

theorem secret_errors_are_silent:
  assumes "inject_connection_secret fo (builtin_resolvers fo env) metadata reference = Inl e"
  shows "silent e"
proof -
  have resolve: "resolve_secret fo (builtin_resolvers fo env) reference = Inl e \<Longrightarrow> silent e" for e
    using builtin_silent unavailable_silent
    by (auto simp: resolve_secret_def split: pv.splits option.splits)
  have val: "secret_value fo field s = Inl e \<Longrightarrow> silent e" for field s e
    using unavailable_silent by (auto simp: secret_value_def split: if_splits sum.splits pv.splits)
  have get: "pget reference ''field'' PNone = Inl e \<Longrightarrow> silent e"
    by (auto simp: pget_def silent_def split: pv.splits)
  show ?thesis
    using assms get resolve val
    by (auto simp: inject_connection_secret_def rbind_def Let_def silent_def split: sum.splits if_splits)
qed

lemma missing_secret:
  "inject_connection_secret plain_numbers (builtin_resolvers plain_numbers one_file) []
     (PDict [(''type'', PStr ''env''), (''name'', PStr ''DB'')]) = Inl (SecretResolutionError ''Secret is unavailable.'')"
  by code_simp

theorem secret_errors_are_silent_witness:
  "silent (SecretResolutionError ''Secret is unavailable.'')"
  using secret_errors_are_silent [OF missing_secret] .

end
