(* ===== verification/Usage.thy ===== *)
theory Usage
  imports Json
begin

text \<open>
  Usage records and the conversion of Ollama's answers to OpenAI's format,
  \<^verbatim>\<open>backend/openlaunch/utils/response.py\<close> with the message templates of \<^verbatim>\<open>utils/misc.py\<close>. The
  ids and the time that go into an answer are arguments.
\<close>

section \<open>Numbers\<close>

definition is_numeric :: "pv \<Rightarrow> bool" where
  "is_numeric v = (case v of PInt _ \<Rightarrow> True | PFlt _ \<Rightarrow> True | _ \<Rightarrow> False)"

text \<open>The sum of two numbers; a sum with a float is a float.\<close>

definition num_of :: "float_ops \<Rightarrow> pv \<Rightarrow> rat" where
  "num_of fo v = (case v of PInt i \<Rightarrow> fl_int fo i | PFlt x \<Rightarrow> x | PBool b \<Rightarrow> (if b then 1 else 0) | _ \<Rightarrow> 0)"

definition add_numbers :: "float_ops \<Rightarrow> pv \<Rightarrow> pv \<Rightarrow> pv" where
  "add_numbers fo a b = (case (as_int a, as_int b) of
      (Some i, Some j) \<Rightarrow> PInt (i + j)
    | _ \<Rightarrow> PFlt (fl_round fo (num_of fo a + num_of fo b)))"

definition is_number :: "pv \<Rightarrow> bool" where
  "is_number v = (case v of PInt _ \<Rightarrow> True | PFlt _ \<Rightarrow> True | PBool _ \<Rightarrow> True | _ \<Rightarrow> False)"

text \<open>\<^verbatim>\<open>a + b\<close>\<close>

definition py_add :: "float_ops \<Rightarrow> pv \<Rightarrow> pv \<Rightarrow> pv res" where
  "py_add fo a b =
     (if is_number a \<and> is_number b then Inr (add_numbers fo a b)
      else (case (a, b) of
          (PStr s, PStr t) \<Rightarrow> Inr (PStr (s @ t))
        | (PList xs, PList ys) \<Rightarrow> Inr (PList (xs @ ys))
        | _ \<Rightarrow> Inl TypeError))"

section \<open>Normalising and merging\<close>

definition get_or :: "pdict \<Rightarrow> string list \<Rightarrow> pv" where
  "get_or d ks = foldr (\<lambda>k rest. py_or (od_getd d k PNone) rest) ks (PInt 0)"

definition input_keys :: "string list" where
  "input_keys = [''input_tokens'', ''prompt_tokens'', ''prompt_eval_count'', ''prompt_n'']"

definition output_keys :: "string list" where
  "output_keys = [''output_tokens'', ''completion_tokens'', ''eval_count'', ''predicted_n'']"

definition normalize_usage :: "float_ops \<Rightarrow> pdict \<Rightarrow> pdict res" where
  "normalize_usage fo usage =
     (if usage = [] then Inr []
      else (let i = get_or usage input_keys; out = get_or usage output_keys; t = od_getd usage ''total_tokens'' PNone in
        rbind (if truthy t then Inr t else py_add fo i out) (\<lambda>total.
        rbind (py_int i) (\<lambda>i'. rbind (py_int out) (\<lambda>out'. rbind (py_int total) (\<lambda>t'.
          Inr (od_set ''total_tokens'' (PInt t') (od_set ''output_tokens'' (PInt out')
            (od_set ''input_tokens'' (PInt i') usage)))))))))"

definition usage_token_keys :: "string list" where
  "usage_token_keys = [''input_tokens'', ''output_tokens'', ''total_tokens'', ''prompt_tokens'', ''completion_tokens'']"

definition usage_cost_keys :: "string list" where
  "usage_cost_keys = [''cost'', ''total_cost'', ''input_cost'', ''output_cost'', ''prompt_cost'', ''completion_cost'']"

definition usage_detail_keys :: "string list" where
  "usage_detail_keys = [''prompt_tokens_details'', ''completion_tokens_details'', ''input_tokens_details'',
     ''output_tokens_details'']"

definition numeric_or_zero :: "pv \<Rightarrow> pv" where
  "numeric_or_zero v = (if is_numeric v then v else PInt 0)"

definition add_values :: "float_ops \<Rightarrow> pv \<Rightarrow> pv \<Rightarrow> pv" where
  "add_values fo a b = add_numbers fo (numeric_or_zero a) (numeric_or_zero b)"

definition dict_or_empty :: "pv \<Rightarrow> pdict" where
  "dict_or_empty v = (case v of PDict d \<Rightarrow> d | _ \<Rightarrow> [])"

abbreviation dict_size :: "pdict \<Rightarrow> nat" where
  "dict_size \<equiv> size_list (size_prod (\<lambda>_. 0) size)"

lemma dict_or_empty_less: "is_dict v \<Longrightarrow> dict_size (dict_or_empty v) < size v"
  by (cases v) (simp_all add: dict_or_empty_def)

lemma dict_or_empty_zero: "\<not> is_dict v \<Longrightarrow> dict_or_empty v = []"
  by (cases v) (simp_all add: dict_or_empty_def)

lemma getd_size: "is_dict (od_getd d k (PInt 0)) \<Longrightarrow> size (od_getd d k (PInt 0)) \<le> dict_size d"
proof (induction d)
  case Nil
  then show ?case by simp
next
  case (Cons e d)
  then show ?case by (cases e; cases "k = fst e") auto
qed

lemma dict_or_empty_size:
  "dict_size (dict_or_empty (od_getd d k (PInt 0))) \<le> dict_size d"
  "is_dict (od_getd d k (PInt 0)) \<Longrightarrow> dict_size (dict_or_empty (od_getd d k (PInt 0))) < dict_size d"
  using dict_or_empty_less [of "od_getd d k (PInt 0)"] dict_or_empty_zero [of "od_getd d k (PInt 0)"]
    getd_size [of d k]
  by (cases "is_dict (od_getd d k (PInt 0))"; force)+

text \<open>The keys of both, each once; the order in which they are visited does not show.\<close>

definition both_keys :: "pdict \<Rightarrow> pdict \<Rightarrow> string list" where
  "both_keys a b = dedup (od_keys a @ od_keys b)"

function merge_keys :: "float_ops \<Rightarrow> pdict \<Rightarrow> pdict \<Rightarrow> string list \<Rightarrow> pdict \<Rightarrow> pdict" where
  "merge_keys fo cur inc [] acc = acc"
| "merge_keys fo cur inc (k # ks) acc =
     (let a = od_getd cur k (PInt 0); b = od_getd inc k (PInt 0) in
      if is_dict a \<or> is_dict b
      then merge_keys fo cur inc ks (od_set k (PDict (merge_keys fo (dict_or_empty a) (dict_or_empty b)
          (both_keys (dict_or_empty a) (dict_or_empty b)) (od_merge (dict_or_empty a) (dict_or_empty b)))) acc)
      else if is_numeric a \<or> is_numeric b then merge_keys fo cur inc ks (od_set k (add_values fo a b) acc)
      else merge_keys fo cur inc ks acc)"
  by pat_completeness auto
termination
proof (relation "measures [\<lambda>(fo, cur, inc, ks, acc). size_list (size_prod (\<lambda>_. 0) size) cur +
    size_list (size_prod (\<lambda>_. 0) size) inc, \<lambda>(fo, cur, inc, ks, acc). length ks]")
  fix fo :: float_ops and cur inc :: pdict and k :: string and ks :: "string list" and acc :: pdict and a b
  assume a: "a = od_getd cur k (PInt 0)" and b: "b = od_getd inc k (PInt 0)" and "is_dict a \<or> is_dict b"
  then show "((fo, dict_or_empty a, dict_or_empty b, both_keys (dict_or_empty a) (dict_or_empty b),
        od_merge (dict_or_empty a) (dict_or_empty b)), fo, cur, inc, k # ks, acc)
      \<in> measures [\<lambda>(fo, cur, inc, ks, acc). size_list (size_prod (\<lambda>_. 0) size) cur +
          size_list (size_prod (\<lambda>_. 0) size) inc, \<lambda>(fo, cur, inc, ks, acc). length ks]"
    using dict_or_empty_size [of cur k] dict_or_empty_size [of inc k] by auto
qed auto

definition merge_numeric_usage_map :: "float_ops \<Rightarrow> pdict \<Rightarrow> pdict \<Rightarrow> pdict" where
  "merge_numeric_usage_map fo cur inc = merge_keys fo cur inc (both_keys cur inc) (od_merge cur inc)"

definition merge_counts :: "float_ops \<Rightarrow> pdict \<Rightarrow> pdict \<Rightarrow> string \<Rightarrow> pdict \<Rightarrow> pdict" where
  "merge_counts fo cur inc k acc =
     (if od_has cur k \<or> od_has inc k
      then (let a = od_getd cur k (PInt 0); b = od_getd inc k (PInt 0)
        in if is_numeric a \<or> is_numeric b then od_set k (add_values fo a b) acc else acc)
      else acc)"

definition merge_details :: "float_ops \<Rightarrow> pdict \<Rightarrow> pdict \<Rightarrow> string \<Rightarrow> pdict \<Rightarrow> pdict" where
  "merge_details fo cur inc k acc =
     (let a = od_getd cur k PNone; b = od_getd inc k PNone
      in if is_dict a \<or> is_dict b
         then od_set k (PDict (merge_numeric_usage_map fo (dict_or_empty a) (dict_or_empty b))) acc else acc)"

definition merge_usage :: "float_ops \<Rightarrow> pdict \<Rightarrow> pdict \<Rightarrow> pdict res" where
  "merge_usage fo current incoming =
     rbind (normalize_usage fo current) (\<lambda>cur. rbind (normalize_usage fo incoming) (\<lambda>inc.
       if inc = [] then Inr cur
       else if cur = [] then Inr inc
       else Inr (fold (merge_details fo cur inc) usage_detail_keys
         (fold (merge_counts fo cur inc) (usage_token_keys @ usage_cost_keys) (od_merge cur inc)))))"

section \<open>Counts that add up\<close>

text \<open>The counts of a usage record: whole numbers that are not negative, or missing\<close>

definition count_field :: "pdict \<Rightarrow> string \<Rightarrow> bool" where
  "count_field d k = (case od_getd d k PNone of PNone \<Rightarrow> True | PInt n \<Rightarrow> 0 \<le> n | _ \<Rightarrow> False)"

definition counts_ok :: "pdict \<Rightarrow> bool" where
  "counts_ok d = (od_ok d \<and> (\<forall>k\<in>set (input_keys @ output_keys @ [''total_tokens'']). count_field d k))"

definition count :: "pdict \<Rightarrow> string \<Rightarrow> int" where
  "count d k = (case od_getd d k PNone of PInt n \<Rightarrow> n | _ \<Rightarrow> 0)"

text \<open>The first count that is not zero, as the code looks for it\<close>

fun first_count :: "pdict \<Rightarrow> string list \<Rightarrow> int" where
  "first_count d [] = 0"
| "first_count d (k # ks) = (if count d k \<noteq> 0 then count d k else first_count d ks)"

definition total_count :: "pdict \<Rightarrow> int" where
  "total_count d = (if count d ''total_tokens'' \<noteq> 0 then count d ''total_tokens''
     else first_count d input_keys + first_count d output_keys)"

lemma count_nonneg: "count_field d k \<Longrightarrow> 0 \<le> count d k"
  by (auto simp: count_field_def count_def split: pv.splits)

lemma first_count_nonneg: "\<forall>k\<in>set ks. count_field d k \<Longrightarrow> 0 \<le> first_count d ks"
  by (induction ks) (auto simp: count_nonneg)

lemma field_truthy: "count_field d k \<Longrightarrow> truthy (od_getd d k PNone) = (count d k \<noteq> 0)"
  by (auto simp: count_field_def count_def split: pv.splits)

lemma field_value: "count_field d k \<Longrightarrow> count d k \<noteq> 0 \<Longrightarrow> od_getd d k PNone = PInt (count d k)"
  by (auto simp: count_field_def count_def split: pv.splits)

lemma get_or_count: "\<forall>k\<in>set ks. count_field d k \<Longrightarrow> get_or d ks = PInt (first_count d ks)"
proof (induction ks)
  case Nil
  then show ?case by (simp add: get_or_def)
next
  case (Cons k ks)
  then show ?case by (simp add: get_or_def py_or_def field_truthy field_value)
qed

lemma counts_ok_fields:
  assumes "counts_ok d"
  shows "\<forall>k\<in>set input_keys. count_field d k" "\<forall>k\<in>set output_keys. count_field d k" "count_field d ''total_tokens''"
    "od_ok d"
  using assms by (auto simp: counts_ok_def)

lemma normalize_counts:
  assumes "counts_ok u" and "u \<noteq> []"
  shows "normalize_usage fo u = Inr (od_set ''total_tokens'' (PInt (total_count u))
    (od_set ''output_tokens'' (PInt (first_count u output_keys)) (od_set ''input_tokens'' (PInt (first_count u input_keys)) u)))"
proof -
  note f = counts_ok_fields [OF assms(1)]
  show ?thesis
    using f(3) assms(2)
    by (auto simp: normalize_usage_def Let_def get_or_count [OF f(1)] get_or_count [OF f(2)] field_truthy field_value
        py_add_def is_number_def add_numbers_def as_int_def total_count_def py_int_def)
qed

text \<open>A record that has been normalised: its three counts are there, and one is zero only when nothing
  else in the record gives it.\<close>

definition settled :: "pdict \<Rightarrow> bool" where
  "settled d = (counts_ok d \<and> (\<forall>k\<in>{''input_tokens'', ''output_tokens'', ''total_tokens''}. \<exists>n. od_get d k = Some (PInt n)) \<and>
     first_count d input_keys = count d ''input_tokens'' \<and> first_count d output_keys = count d ''output_tokens'' \<and>
     total_count d = count d ''total_tokens'')"

lemma settled_normal:
  assumes "settled d"
  shows "normalize_usage fo d = Inr d"
proof -
  have ne: "d \<noteq> []" using assms by (auto simp: settled_def)
  have get: "od_get d k = Some (PInt (count d k))" if "k \<in> {''input_tokens'', ''output_tokens'', ''total_tokens''}" for k
    using assms that by (auto simp: settled_def count_def od_getd_def)
  have "counts_ok d" and counts: "first_count d input_keys = count d ''input_tokens''"
    "first_count d output_keys = count d ''output_tokens''" "total_count d = count d ''total_tokens''"
    using assms by (simp_all add: settled_def)
  from normalize_counts [OF this(1) ne, of fo] show ?thesis
    unfolding counts by (simp add: get update_triv)
qed

lemma first_count_zero: "first_count d ks = 0 \<longleftrightarrow> (\<forall>k\<in>set ks. count d k = 0)"
  by (induction ks) auto

lemma count_set [simp]: "count (od_set k v d) k' = (if k' = k then (case v of PInt n \<Rightarrow> n | _ \<Rightarrow> 0) else count d k')"
  by (simp add: count_def)

lemma count_field_set [simp]:
  "count_field (od_set k (PInt n) d) k' = (if k' = k then 0 \<le> n else count_field d k')"
  by (simp add: count_field_def)

lemma input_keys_head: "input_keys = ''input_tokens'' # tl input_keys" "output_keys = ''output_tokens'' # tl output_keys"
  by (simp_all add: input_keys_def output_keys_def)

lemma in_tl: "x \<in> set (tl xs) \<Longrightarrow> x \<in> set xs"
  by (cases xs) auto

text \<open>Settled as soon as the three counts are there and none is zero by oversight\<close>

lemma settledI:
  assumes "counts_ok d" and "\<forall>k\<in>{''input_tokens'', ''output_tokens'', ''total_tokens''}. \<exists>n. od_get d k = Some (PInt n)"
    and "count d ''input_tokens'' = 0 \<Longrightarrow> \<forall>k\<in>set input_keys. count d k = 0"
    and "count d ''output_tokens'' = 0 \<Longrightarrow> \<forall>k\<in>set output_keys. count d k = 0"
    and "count d ''total_tokens'' = 0 \<Longrightarrow> count d ''input_tokens'' = 0 \<and> count d ''output_tokens'' = 0"
  shows "settled d"
proof -
  have i: "first_count d input_keys = count d ''input_tokens''"
    using assms(3) by (subst input_keys_head(1)) (auto simp: first_count_zero dest: in_tl)
  have o: "first_count d output_keys = count d ''output_tokens''"
    using assms(4) by (subst input_keys_head(2)) (auto simp: first_count_zero dest: in_tl)
  have "total_count d = count d ''total_tokens''"
    using assms(5) by (auto simp: total_count_def i o)
  with assms(1,2) i o show ?thesis by (simp add: settled_def)
qed

lemma key_differs:
  "''total_tokens'' \<notin> set input_keys" "''total_tokens'' \<notin> set output_keys" "''output_tokens'' \<notin> set input_keys"
  "''input_tokens'' \<notin> set output_keys" "''input_tokens'' \<in> set input_keys" "''output_tokens'' \<in> set output_keys"
  by (simp_all add: input_keys_def output_keys_def)

lemma normalize_settled:
  assumes "counts_ok u" and "u \<noteq> []"
  shows "\<exists>v. normalize_usage fo u = Inr v \<and> settled v \<and> count v ''input_tokens'' = first_count u input_keys \<and>
    count v ''output_tokens'' = first_count u output_keys \<and> count v ''total_tokens'' = total_count u"
proof -
  note f = counts_ok_fields [OF assms(1)]
  define v where "v = od_set ''total_tokens'' (PInt (total_count u))
    (od_set ''output_tokens'' (PInt (first_count u output_keys)) (od_set ''input_tokens'' (PInt (first_count u input_keys)) u))"
  have nn: "0 \<le> first_count u input_keys" "0 \<le> first_count u output_keys" "0 \<le> count u ''total_tokens''"
    using first_count_nonneg [OF f(1)] first_count_nonneg [OF f(2)] count_nonneg [OF f(3)] .
  have c: "count v k = (if k = ''total_tokens'' then total_count u else if k = ''output_tokens'' then first_count u output_keys
      else if k = ''input_tokens'' then first_count u input_keys else count u k)" for k
    by (simp add: v_def)
  have tn: "0 \<le> total_count u" using nn by (simp add: total_count_def)
  have ok: "counts_ok v"
    using f nn tn by (auto simp: counts_ok_def v_def)
  have "settled v"
  proof (rule settledI [OF ok])
    show "\<forall>k\<in>{''input_tokens'', ''output_tokens'', ''total_tokens''}. \<exists>n. od_get v k = Some (PInt n)" by (simp add: v_def)
    assume "count v ''input_tokens'' = 0"
    then have "first_count u input_keys = 0" by (simp add: c)
    then show "\<forall>k\<in>set input_keys. count v k = 0"
      using key_differs(1,3) unfolding first_count_zero by (auto simp: c first_count_zero)
  next
    assume "count v ''output_tokens'' = 0"
    then have "first_count u output_keys = 0" by (simp add: c)
    then show "\<forall>k\<in>set output_keys. count v k = 0"
      using key_differs(2,4) unfolding first_count_zero by (auto simp: c first_count_zero)
  next
    assume "count v ''total_tokens'' = 0"
    then have "total_count u = 0" by (simp add: c)
    then show "count v ''input_tokens'' = 0 \<and> count v ''output_tokens'' = 0"
      using nn by (auto simp: c total_count_def split: if_splits)
  qed
  moreover have "normalize_usage fo u = Inr v" unfolding v_def by (rule normalize_counts [OF assms])
  ultimately show ?thesis by (auto simp: c)
qed

section \<open>Merging settled records\<close>

lemma merge_counts_getd:
  "od_getd (fold (merge_counts fo cur inc) ks acc) k PNone =
     (if k \<in> set ks \<and> (od_has cur k \<or> od_has inc k) \<and>
          (is_numeric (od_getd cur k (PInt 0)) \<or> is_numeric (od_getd inc k (PInt 0)))
      then add_values fo (od_getd cur k (PInt 0)) (od_getd inc k (PInt 0)) else od_getd acc k PNone)"
  by (induction ks arbitrary: acc) (auto simp: merge_counts_def Let_def)

lemma merge_details_getd:
  "k \<notin> set ks \<Longrightarrow> od_getd (fold (merge_details fo cur inc) ks acc) k PNone = od_getd acc k PNone"
  by (induction ks arbitrary: acc) (auto simp: merge_details_def Let_def)

lemma merge_counts_ok: "od_ok acc \<Longrightarrow> od_ok (fold (merge_counts fo cur inc) ks acc)"
  by (induction ks arbitrary: acc) (auto simp: merge_counts_def Let_def)

lemma merge_details_ok: "od_ok acc \<Longrightarrow> od_ok (fold (merge_details fo cur inc) ks acc)"
  by (induction ks arbitrary: acc) (auto simp: merge_details_def Let_def)

definition merged :: "float_ops \<Rightarrow> pdict \<Rightarrow> pdict \<Rightarrow> pdict" where
  "merged fo cur inc = fold (merge_details fo cur inc) usage_detail_keys
     (fold (merge_counts fo cur inc) (usage_token_keys @ usage_cost_keys) (od_merge cur inc))"

lemma add_values_counts:
  assumes "count_field cur k" and "count_field inc k"
    and "is_numeric (od_getd cur k (PInt 0)) \<or> is_numeric (od_getd inc k (PInt 0))"
  shows "add_values fo (od_getd cur k (PInt 0)) (od_getd inc k (PInt 0)) = PInt (count cur k + count inc k)"
  using assms
  by (auto simp: add_values_def numeric_or_zero_def is_numeric_def add_numbers_def as_int_def count_field_def count_def
      od_getd_def split: option.splits pv.splits)

lemma counted_keys:
  "''total_tokens'' \<in> set usage_token_keys" "''input_tokens'' \<in> set usage_token_keys"
  "''output_tokens'' \<in> set usage_token_keys"
  "k \<in> set (input_keys @ output_keys @ [''total_tokens'']) \<Longrightarrow> k \<notin> set usage_detail_keys"
  by (auto simp: usage_token_keys_def usage_detail_keys_def input_keys_def output_keys_def)

lemma merged_getd:
  assumes "k \<in> set (input_keys @ output_keys @ [''total_tokens''])" and "count_field cur k" and "count_field inc k"
    and "od_ok inc"
  shows "od_getd (merged fo cur inc) k PNone = PInt (count cur k + count inc k) \<or>
    (k \<notin> set usage_token_keys \<or> count cur k + count inc k = 0) \<and>
    od_getd (merged fo cur inc) k PNone \<in> {od_getd cur k PNone, od_getd inc k PNone}"
proof -
  have m: "od_getd (merged fo cur inc) k PNone = od_getd (fold (merge_counts fo cur inc)
      (usage_token_keys @ usage_cost_keys) (od_merge cur inc)) k PNone"
    unfolding merged_def using counted_keys(4) [OF assms(1)] by (rule merge_details_getd)
  show ?thesis
  proof (cases "k \<in> set (usage_token_keys @ usage_cost_keys) \<and> (od_has cur k \<or> od_has inc k) \<and>
      (is_numeric (od_getd cur k (PInt 0)) \<or> is_numeric (od_getd inc k (PInt 0)))")
    case True
    then show ?thesis unfolding m merge_counts_getd using add_values_counts [OF assms(2,3)] by simp
  next
    case False
    then have g: "od_getd (merged fo cur inc) k PNone = od_getd (od_merge cur inc) k PNone"
      unfolding m merge_counts_getd by (simp only: if_False)
    have "od_getd (od_merge cur inc) k PNone \<in> {od_getd cur k PNone, od_getd inc k PNone}"
      using od_get_merge [OF assms(4), of cur k] by (auto simp: od_getd_def split: option.splits)
    moreover have "k \<in> set usage_token_keys \<Longrightarrow> count cur k + count inc k = 0"
    proof -
      assume "k \<in> set usage_token_keys"
      with False have "(\<not> od_has cur k \<and> \<not> od_has inc k) \<or>
          (\<not> is_numeric (od_getd cur k (PInt 0)) \<and> \<not> is_numeric (od_getd inc k (PInt 0)))" by auto
      then show ?thesis
        by (auto simp: od_has_def count_def od_getd_def is_numeric_def split: option.splits pv.splits)
    qed
    ultimately show ?thesis unfolding g by blast
  qed
qed

lemma merged_count:
  assumes "k \<in> set (input_keys @ output_keys @ [''total_tokens''])" and "count_field cur k" and "count_field inc k"
    and "od_ok inc"
  shows "count_field (merged fo cur inc) k \<and>
    count (merged fo cur inc) k \<in> {count cur k + count inc k, count cur k, count inc k} \<and>
    (k \<in> set usage_token_keys \<longrightarrow> count (merged fo cur inc) k = count cur k + count inc k)"
proof -
  let ?v = "od_getd (merged fo cur inc) k PNone"
  have nn: "0 \<le> count cur k" "0 \<le> count inc k" using assms(2,3) count_nonneg by auto
  consider "?v = PInt (count cur k + count inc k)" | "k \<notin> set usage_token_keys \<or> count cur k + count inc k = 0"
      "?v = od_getd cur k PNone" | "k \<notin> set usage_token_keys \<or> count cur k + count inc k = 0" "?v = od_getd inc k PNone"
    using merged_getd [OF assms, of fo] by auto
  then show ?thesis
  proof cases
    case 1
    then show ?thesis using nn by (simp add: count_field_def count_def)
  next
    case 2
    then have "count (merged fo cur inc) k = count cur k" "count_field (merged fo cur inc) k = count_field cur k"
      by (simp_all add: count_def count_field_def)
    with 2(1) nn assms(2) show ?thesis by auto
  next
    case 3
    then have "count (merged fo cur inc) k = count inc k" "count_field (merged fo cur inc) k = count_field inc k"
      by (simp_all add: count_def count_field_def)
    with 3(1) nn assms(3) show ?thesis by auto
  qed
qed

lemma settled_count_zero:
  assumes "settled d"
  shows "count d ''input_tokens'' = 0 \<Longrightarrow> \<forall>k\<in>set input_keys. count d k = 0"
    and "count d ''output_tokens'' = 0 \<Longrightarrow> \<forall>k\<in>set output_keys. count d k = 0"
    and "count d ''total_tokens'' = 0 \<Longrightarrow> count d ''input_tokens'' = 0 \<and> count d ''output_tokens'' = 0"
proof -
  have eq: "first_count d input_keys = count d ''input_tokens''" "first_count d output_keys = count d ''output_tokens''"
    "total_count d = count d ''total_tokens''" and ok: "counts_ok d"
    using assms by (simp_all add: settled_def)
  show "count d ''input_tokens'' = 0 \<Longrightarrow> \<forall>k\<in>set input_keys. count d k = 0"
    using eq(1) first_count_zero [of d input_keys] by simp
  show "count d ''output_tokens'' = 0 \<Longrightarrow> \<forall>k\<in>set output_keys. count d k = 0"
    using eq(2) first_count_zero [of d output_keys] by simp
  assume z: "count d ''total_tokens'' = 0"
  then have "first_count d input_keys + first_count d output_keys = 0" using eq(3) by (simp add: total_count_def)
  then show "count d ''input_tokens'' = 0 \<and> count d ''output_tokens'' = 0"
    using first_count_nonneg [OF counts_ok_fields(1) [OF ok]] first_count_nonneg [OF counts_ok_fields(2) [OF ok]] eq
    by linarith
qed

lemma merged_settled:
  assumes "settled cur" and "settled inc"
  shows "settled (merged fo cur inc) \<and>
    (\<forall>k\<in>set [''input_tokens'', ''output_tokens'', ''total_tokens'']. count (merged fo cur inc) k = count cur k + count inc k)"
proof -
  let ?K = "set (input_keys @ output_keys @ [''total_tokens''])"
  have ok: "counts_ok cur" "counts_ok inc" using assms by (simp_all add: settled_def)
  then have od: "od_ok cur" "od_ok inc" and fields: "\<And>k. k \<in> ?K \<Longrightarrow> count_field cur k \<and> count_field inc k"
    unfolding counts_ok_def by blast+
  have mc: "count_field (merged fo cur inc) k"
    "count (merged fo cur inc) k \<in> {count cur k + count inc k, count cur k, count inc k}"
    "k \<in> set usage_token_keys \<longrightarrow> count (merged fo cur inc) k = count cur k + count inc k" if "k \<in> ?K" for k
    using merged_count [OF that _ _ od(2)] fields [OF that] by blast+
  have nn: "0 \<le> count cur k" "0 \<le> count inc k" if "k \<in> ?K" for k using fields [OF that] count_nonneg by auto
  have in_K: "''input_tokens'' \<in> ?K" "''output_tokens'' \<in> ?K" "''total_tokens'' \<in> ?K"
    using key_differs(5,6) by auto
  have sums: "count (merged fo cur inc) ''input_tokens'' = count cur ''input_tokens'' + count inc ''input_tokens''"
    "count (merged fo cur inc) ''output_tokens'' = count cur ''output_tokens'' + count inc ''output_tokens''"
    "count (merged fo cur inc) ''total_tokens'' = count cur ''total_tokens'' + count inc ''total_tokens''"
    using mc(3) in_K counted_keys(1,2,3) by blast+
  have "od_ok (merged fo cur inc)"
    unfolding merged_def by (intro merge_details_ok merge_counts_ok od_ok_merge od)
  then have cok: "counts_ok (merged fo cur inc)" using mc(1) unfolding counts_ok_def by blast
  have "settled (merged fo cur inc)"
  proof (rule settledI [OF cok])
    have some: "\<exists>n. od_get (merged fo cur inc) k = Some (PInt n)"
      if k: "k \<in> ?K" "\<exists>n. od_get cur k = Some (PInt n)" "\<exists>n. od_get inc k = Some (PInt n)" for k
    proof -
      obtain i j where "od_getd cur k PNone = PInt i" "od_getd inc k PNone = PInt j"
        using k(2,3) by (auto simp: od_getd_def)
      then obtain n where "od_getd (merged fo cur inc) k PNone = PInt n"
        using merged_getd [OF k(1) _ _ od(2), of cur fo] fields [OF k(1)] by auto
      then show ?thesis by (auto simp: od_getd_def split: option.splits)
    qed
    show "\<forall>k\<in>{''input_tokens'', ''output_tokens'', ''total_tokens''}. \<exists>n. od_get (merged fo cur inc) k = Some (PInt n)"
      using some in_K assms unfolding settled_def by blast
  next
    assume "count (merged fo cur inc) ''input_tokens'' = 0"
    then have "count cur ''input_tokens'' = 0" "count inc ''input_tokens'' = 0"
      using sums(1) nn [OF in_K(1)] by linarith+
    then have "\<forall>k\<in>set input_keys. count cur k = 0 \<and> count inc k = 0"
      using settled_count_zero(1) [OF assms(1)] settled_count_zero(1) [OF assms(2)] by blast
    then show "\<forall>k\<in>set input_keys. count (merged fo cur inc) k = 0" using mc(2) by fastforce
  next
    assume "count (merged fo cur inc) ''output_tokens'' = 0"
    then have "count cur ''output_tokens'' = 0" "count inc ''output_tokens'' = 0"
      using sums(2) nn [OF in_K(2)] by linarith+
    then have "\<forall>k\<in>set output_keys. count cur k = 0 \<and> count inc k = 0"
      using settled_count_zero(2) [OF assms(1)] settled_count_zero(2) [OF assms(2)] by blast
    then show "\<forall>k\<in>set output_keys. count (merged fo cur inc) k = 0" using mc(2) by fastforce
  next
    assume "count (merged fo cur inc) ''total_tokens'' = 0"
    then have "count cur ''total_tokens'' = 0" "count inc ''total_tokens'' = 0"
      using sums(3) nn [OF in_K(3)] by linarith+
    then show "count (merged fo cur inc) ''input_tokens'' = 0 \<and> count (merged fo cur inc) ''output_tokens'' = 0"
      using settled_count_zero(3) [OF assms(1)] settled_count_zero(3) [OF assms(2)] sums by simp
  qed
  with sums show ?thesis by simp
qed

definition usage_count :: "pdict \<Rightarrow> string \<Rightarrow> int" where
  "usage_count u k = (if k = ''input_tokens'' then first_count u input_keys
     else if k = ''output_tokens'' then first_count u output_keys else total_count u)"

lemma usage_count_Nil: "usage_count [] k = 0"
  by (simp add: usage_count_def total_count_def first_count_zero count_def input_keys_def output_keys_def)

lemma merge_usage_step:
  assumes "cur = [] \<or> settled cur" and "counts_ok u"
  shows "\<exists>r. merge_usage fo cur u = Inr r \<and> (r = [] \<or> settled r) \<and>
    (\<forall>k\<in>set [''input_tokens'', ''output_tokens'', ''total_tokens'']. count r k = count cur k + usage_count u k)"
proof -
  have cur: "normalize_usage fo cur = Inr cur"
  proof (cases "cur = []")
    case True
    then show ?thesis by (simp add: normalize_usage_def)
  next
    case False
    then show ?thesis using assms(1) settled_normal by blast
  qed
  show ?thesis
  proof (cases "u = []")
    case True
    then show ?thesis using cur assms(1) by (simp add: merge_usage_def normalize_usage_def usage_count_Nil)
  next
    case False
    from normalize_settled [OF assms(2) this, of fo] obtain v where v: "normalize_usage fo u = Inr v" "settled v"
      "\<forall>k\<in>set [''input_tokens'', ''output_tokens'', ''total_tokens'']. count v k = usage_count u k"
      by (auto simp: usage_count_def)
    have ne: "v \<noteq> []" using v(2) by (auto simp: settled_def)
    show ?thesis
    proof (cases "cur = []")
      case True
      then show ?thesis using v ne cur by (simp add: merge_usage_def count_def)
    next
      case False
      then have "settled cur" using assms(1) by simp
      from merged_settled [OF this v(2), of fo] show ?thesis
        using v ne cur False by (simp add: merge_usage_def merged_def)
    qed
  qed
qed

text \<open>The usage of a sequence of model calls, accumulated one call at a time, counts for input,
  output and total tokens exactly the sum of what each call reports, whichever of the
  providers' names the counts came under; and accumulating does not fail.\<close>

theorem accumulated_usage_is_sum:
  assumes "\<forall>u\<in>set us. counts_ok u"
  shows "\<exists>r. rfoldM (merge_usage fo) [] us = Inr r \<and>
    count r ''input_tokens'' = (\<Sum>u\<leftarrow>us. first_count u input_keys) \<and>
    count r ''output_tokens'' = (\<Sum>u\<leftarrow>us. first_count u output_keys) \<and>
    count r ''total_tokens'' = (\<Sum>u\<leftarrow>us. total_count u)"
proof -
  have gen: "\<exists>r. rfoldM (merge_usage fo) cur us = Inr r \<and>
      (\<forall>k\<in>set [''input_tokens'', ''output_tokens'', ''total_tokens''].
        count r k = count cur k + (\<Sum>u\<leftarrow>us. usage_count u k))" if "cur = [] \<or> settled cur" for cur
    using assms that
  proof (induction us arbitrary: cur)
    case Nil
    then show ?case by simp
  next
    case (Cons u us)
    then obtain r where r: "merge_usage fo cur u = Inr r" "r = [] \<or> settled r"
      "\<forall>k\<in>set [''input_tokens'', ''output_tokens'', ''total_tokens'']. count r k = count cur k + usage_count u k"
      using merge_usage_step [of cur u fo] by auto
    from Cons.IH [OF _ r(2)] Cons.prems(1) obtain s where "rfoldM (merge_usage fo) r us = Inr s"
      "\<forall>k\<in>set [''input_tokens'', ''output_tokens'', ''total_tokens''].
        count s k = count r k + (\<Sum>u\<leftarrow>us. usage_count u k)" by auto
    with r show ?case by simp
  qed
  show ?thesis using gen [of "[]"] by (simp add: usage_count_def count_def)
qed

definition sample_usages :: "pdict list" where
  "sample_usages = [[(''prompt_tokens'', PInt 3), (''completion_tokens'', PInt 4)], [(''eval_count'', PInt 2)]]"

definition plain_floats :: float_ops where
  "plain_floats = \<lparr>fl_repr = (\<lambda>_. []), fl_str = (\<lambda>_. None), fl_read = (\<lambda>_. 0), fl_int = rat_of_int, fl_round = id\<rparr>"

theorem accumulated_usage_is_sum_witness:
  "\<exists>r. rfoldM (merge_usage plain_floats) [] sample_usages = Inr r \<and> count r ''input_tokens'' = 3 \<and>
     count r ''total_tokens'' = 9"
proof -
  have "list_all counts_ok sample_usages" by code_simp
  then have "\<forall>u\<in>set sample_usages. counts_ok u" by (simp add: list_all_iff)
  moreover have "(\<Sum>u\<leftarrow>sample_usages. first_count u input_keys) = 3" "(\<Sum>u\<leftarrow>sample_usages. total_count u) = 9"
    by code_simp+
  ultimately show ?thesis using accumulated_usage_is_sum [of sample_usages plain_floats] by auto
qed

end
