(* ===== verification/Ollama_Answers.thy ===== *)
theory Ollama_Answers
  imports Usage
begin

text \<open>
  Ollama's answers in OpenAI's format: the conversions of \<^verbatim>\<open>backend/openlaunch/utils/response.py\<close>
  over the templates of \<^verbatim>\<open>utils/misc.py\<close>. Identifiers and the time are arguments; a stream is the
  list of its chunks, each already read from its JSON text.
\<close>

section \<open>Templates\<close>

definition openai_chat_message_template :: "(rat \<Rightarrow> string) \<Rightarrow> string \<Rightarrow> int \<Rightarrow> pv \<Rightarrow> pdict" where
  "openai_chat_message_template f uuid now model =
     [(''id'', PStr (py_str f model @ ''-'' @ uuid)), (''created'', PInt now), (''model'', model),
      (''choices'', PList [PDict [(''index'', PInt 0), (''logprobs'', PNone), (''finish_reason'', PNone)]])]"

text \<open>The only choice of a message, and a message with its choice replaced\<close>

definition with_choice :: "pdict \<Rightarrow> pdict \<Rightarrow> pdict" where
  "with_choice choice template = od_set ''choices'' (PList [PDict choice]) template"

definition chunk_delta :: "pv \<Rightarrow> pv \<Rightarrow> pv \<Rightarrow> pdict" where
  "chunk_delta content reasoning tool_calls =
     (if truthy content then [(''content'', content)] else []) @
     (if truthy reasoning then [(''reasoning_content'', reasoning)] else []) @
     (if truthy tool_calls then [(''tool_calls'', tool_calls)] else [])"

definition chunk_finish :: "pv \<Rightarrow> pv \<Rightarrow> pv \<Rightarrow> pv" where
  "chunk_finish content reasoning tool_calls =
     (if \<not> truthy content \<and> \<not> truthy reasoning \<and> \<not> truthy tool_calls then PStr ''stop'' else PNone)"

definition with_usage :: "pv \<Rightarrow> pdict \<Rightarrow> pdict" where
  "with_usage usage template = (if truthy usage then od_set ''usage'' usage template else template)"

definition openai_chat_chunk_message_template ::
  "(rat \<Rightarrow> string) \<Rightarrow> string \<Rightarrow> int \<Rightarrow> pv \<Rightarrow> pv \<Rightarrow> pv \<Rightarrow> pv \<Rightarrow> pv \<Rightarrow> pdict" where
  "openai_chat_chunk_message_template f uuid now model content reasoning tool_calls usage =
     with_usage usage (with_choice
       [(''index'', PInt 0), (''logprobs'', PNone), (''finish_reason'', chunk_finish content reasoning tool_calls),
        (''delta'', PDict (chunk_delta content reasoning tool_calls))]
       (od_set ''object'' (PStr ''chat.completion.chunk'') (openai_chat_message_template f uuid now model)))"

definition completion_message :: "pv \<Rightarrow> pv \<Rightarrow> pv \<Rightarrow> pdict" where
  "completion_message content reasoning tool_calls =
     [(''role'', PStr ''assistant''), (''content'', content)] @
     (if truthy reasoning then [(''reasoning_content'', reasoning)] else []) @
     (if truthy tool_calls then [(''tool_calls'', tool_calls)] else [])"

definition openai_chat_completion_message_template ::
  "(rat \<Rightarrow> string) \<Rightarrow> string \<Rightarrow> int \<Rightarrow> pv \<Rightarrow> pv \<Rightarrow> pv \<Rightarrow> pv \<Rightarrow> pv \<Rightarrow> pdict" where
  "openai_chat_completion_message_template f uuid now model content reasoning tool_calls usage =
     with_usage usage (with_choice
       ([(''index'', PInt 0), (''logprobs'', PNone),
         (''finish_reason'', PStr (if truthy tool_calls then ''tool_calls'' else ''stop''))] @
        (if content \<noteq> PNone then [(''message'', PDict (completion_message content reasoning tool_calls))] else []))
       (od_set ''object'' (PStr ''chat.completion'') (openai_chat_message_template f uuid now model)))"

section \<open>Tool calls and usage\<close>

definition convert_tool_call :: "(rat \<Rightarrow> string) \<Rightarrow> string \<Rightarrow> pv \<Rightarrow> pv res" where
  "convert_tool_call f uuid call =
     rbind (pget call ''function'' (PDict [])) (\<lambda>fn.
     rbind (pget fn ''index'' (PInt 0)) (\<lambda>fi. rbind (pget call ''index'' fi) (\<lambda>i.
     rbind (pget call ''id'' (PStr (''call_'' @ uuid))) (\<lambda>cid.
     rbind (pget fn ''name'' (PStr [])) (\<lambda>n. rbind (pget fn ''arguments'' (PDict [])) (\<lambda>a.
       Inr (PDict [(''index'', i), (''id'', cid), (''type'', PStr ''function''),
         (''function'', PDict [(''name'', n), (''arguments'', PStr (json_dumps True f a))])])))))))"

definition convert_ollama_tool_call_to_openai :: "(rat \<Rightarrow> string) \<Rightarrow> (nat \<Rightarrow> string) \<Rightarrow> pv \<Rightarrow> pv res" where
  "convert_ollama_tool_call_to_openai f uuids calls = rbind (piter calls) (\<lambda>cs.
     rbind (rmapM (\<lambda>(i, c). convert_tool_call f (uuids i) c) (enumerate 0 cs)) (\<lambda>out. Inr (PList out)))"

text \<open>Comparisons and divisions need numbers; a quotient is rounded, and rounded again to two places.\<close>

record float_div =
  fd_div :: "pv \<Rightarrow> pv \<Rightarrow> rat"
  fd_times :: "rat \<Rightarrow> rat \<Rightarrow> rat"
  fd_round2 :: "rat \<Rightarrow> rat"

definition positive :: "pv \<Rightarrow> bool res" where
  "positive v = (case v of
      PInt i \<Rightarrow> Inr (i > 0)
    | PFlt x \<Rightarrow> Inr (x > 0)
    | PBool b \<Rightarrow> Inr b
    | _ \<Rightarrow> Inl TypeError)"

definition per_second :: "float_div \<Rightarrow> pv \<Rightarrow> pv \<Rightarrow> pv res" where
  "per_second fd n duration = rbind (positive duration) (\<lambda>p.
     if \<not> p then Inr (PStr ''N/A'')
     else if \<not> is_number n then Inl TypeError
     else Inr (PFlt (fd_round2 fd (fd_times fd (fd_div fd n (PFlt (fd_div fd duration (PInt 10000000)))) 100))))"

definition hms :: "int \<Rightarrow> string" where
  "hms s = py_str_int (s div 3600) @ ''h'' @ py_str_int ((s mod 3600) div 60) @ ''m'' @ py_str_int (s mod 60) @ ''s''"

definition hms_float :: "(rat \<Rightarrow> string) \<Rightarrow> int \<Rightarrow> string" where
  "hms_float f s = f (of_int (s div 3600)) @ ''h'' @ f (of_int ((s mod 3600) div 60)) @ ''m'' @ f (of_int (s mod 60)) @ ''s''"

text \<open>The duration in seconds, rounded down; for a float the parts are floats.\<close>

definition approximate_total :: "(rat \<Rightarrow> string) \<Rightarrow> pv \<Rightarrow> string res" where
  "approximate_total f v0 = (let v = py_or v0 (PInt 0) in
     case as_int v of
       Some n \<Rightarrow> Inr (hms (n div 1000000000))
     | None \<Rightarrow> (case v of PFlt x \<Rightarrow> Inr (hms_float f \<lfloor>x / 1000000000\<rfloor>) | _ \<Rightarrow> Inl TypeError))"

definition convert_ollama_usage_to_openai :: "(rat \<Rightarrow> string) \<Rightarrow> float_div \<Rightarrow> pdict \<Rightarrow> pdict res" where
  "convert_ollama_usage_to_openai f fd data = (let g = (\<lambda>k. od_getd data k (PInt 0)) in
     rbind (py_int (g ''prompt_eval_count'')) (\<lambda>i. rbind (py_int (g ''eval_count'')) (\<lambda>out.
     rbind (per_second fd (g ''eval_count'') (g ''eval_duration'')) (\<lambda>rate.
     rbind (per_second fd (g ''prompt_eval_count'') (g ''prompt_eval_duration'')) (\<lambda>prompt_rate.
     rbind (approximate_total f (g ''total_duration'')) (\<lambda>approx.
       Inr [(''input_tokens'', PInt i), (''output_tokens'', PInt out), (''total_tokens'', PInt (i + out)),
         (''prompt_tokens'', PInt i), (''completion_tokens'', PInt out),
         (''response_token/s'', rate), (''prompt_token/s'', prompt_rate),
         (''total_duration'', g ''total_duration''), (''load_duration'', g ''load_duration''),
         (''prompt_eval_count'', g ''prompt_eval_count''), (''prompt_eval_duration'', g ''prompt_eval_duration''),
         (''eval_count'', g ''eval_count''), (''eval_duration'', g ''eval_duration''),
         (''approximate_total'', PStr approx),
         (''completion_tokens_details'', PDict [(''reasoning_tokens'', PInt 0),
           (''accepted_prediction_tokens'', PInt 0), (''rejected_prediction_tokens'', PInt 0)])]))))))"

section \<open>Answers and streams\<close>

text \<open>\<^verbatim>\<open>response.get('message', {}).get(key, default)\<close>\<close>

definition message_field :: "pdict \<Rightarrow> string \<Rightarrow> pv \<Rightarrow> pv res" where
  "message_field data k v = pget (od_getd data ''message'' (PDict [])) k v"

definition openai_tool_calls :: "(rat \<Rightarrow> string) \<Rightarrow> (nat \<Rightarrow> string) \<Rightarrow> pv \<Rightarrow> pv res" where
  "openai_tool_calls f uuids calls =
     (if truthy calls then convert_ollama_tool_call_to_openai f uuids calls else Inr PNone)"

definition convert_response_ollama_to_openai ::
  "(rat \<Rightarrow> string) \<Rightarrow> float_div \<Rightarrow> (nat \<Rightarrow> string) \<Rightarrow> string \<Rightarrow> int \<Rightarrow> pdict \<Rightarrow> pdict res" where
  "convert_response_ollama_to_openai f fd uuids uuid now data =
     rbind (message_field data ''content'' (PStr [])) (\<lambda>content.
     rbind (message_field data ''thinking'' PNone) (\<lambda>reasoning.
     rbind (message_field data ''tool_calls'' PNone) (\<lambda>calls.
     rbind (openai_tool_calls f uuids calls) (\<lambda>tool_calls.
     rbind (convert_ollama_usage_to_openai f fd data) (\<lambda>usage.
       Inr (openai_chat_completion_message_template f uuid now (od_getd data ''model'' (PStr ''ollama''))
         content reasoning tool_calls (PDict usage)))))))"

record stream_state =
  ss_has_tool_calls :: bool
  ss_first :: bool

definition choice_of :: "pdict \<Rightarrow> pdict" where
  "choice_of data = (case od_getd data ''choices'' PNone of PList [PDict c] \<Rightarrow> c | _ \<Rightarrow> [])"

definition delta_of :: "pdict \<Rightarrow> pdict" where
  "delta_of data = (case od_getd (choice_of data) ''delta'' PNone of PDict d \<Rightarrow> d | _ \<Rightarrow> [])"

definition set_role :: "pdict \<Rightarrow> pdict" where
  "set_role data = with_choice
     (od_set ''delta'' (PDict (od_set ''role'' (PStr ''assistant'') (delta_of data))) (choice_of data)) data"

definition set_finish :: "pdict \<Rightarrow> pdict" where
  "set_finish data = with_choice (od_set ''finish_reason'' (PStr ''tool_calls'') (choice_of data)) data"

text \<open>One chunk: its number names the ids of its tool calls.\<close>

definition stream_chunk ::
  "(rat \<Rightarrow> string) \<Rightarrow> float_div \<Rightarrow> (nat \<Rightarrow> nat \<Rightarrow> string) \<Rightarrow> int \<Rightarrow> string \<Rightarrow> stream_state \<Rightarrow> nat \<Rightarrow> pdict \<Rightarrow>
   (stream_state \<times> pdict) res" where
  "stream_chunk f fd uuids now cid s n data =
     rbind (message_field data ''content'' PNone) (\<lambda>content.
     rbind (message_field data ''thinking'' PNone) (\<lambda>reasoning.
     rbind (message_field data ''tool_calls'' PNone) (\<lambda>calls.
     rbind (openai_tool_calls f (uuids n) calls) (\<lambda>tool_calls.
     let seen = ss_has_tool_calls s \<or> truthy calls; finished = truthy (od_getd data ''done'' (PBool False)) in
     rbind (if finished then rmap PDict (convert_ollama_usage_to_openai f fd data) else Inr PNone) (\<lambda>usage.
       let chunk = od_set ''id'' (PStr cid) (openai_chat_chunk_message_template f [] now
             (od_getd data ''model'' (PStr ''ollama'')) content reasoning tool_calls usage);
           chunk = (if ss_first s then set_role chunk else chunk);
           chunk = (if finished \<and> seen then set_finish chunk else chunk)
       in Inr (\<lparr>ss_has_tool_calls = seen, ss_first = False\<rparr>, chunk))))))"

text \<open>The chunks that are yielded, up to an exception if there is one\<close>

fun stream_chunks ::
  "(rat \<Rightarrow> string) \<Rightarrow> float_div \<Rightarrow> (nat \<Rightarrow> nat \<Rightarrow> string) \<Rightarrow> int \<Rightarrow> string \<Rightarrow> stream_state \<Rightarrow> nat \<Rightarrow> pdict list \<Rightarrow>
   pdict list \<times> py_error option" where
  "stream_chunks f fd uuids now cid s n [] = ([], None)"
| "stream_chunks f fd uuids now cid s n (data # rest) =
     (case stream_chunk f fd uuids now cid s n data of
        Inl e \<Rightarrow> ([], Some e)
      | Inr (s', chunk) \<Rightarrow>
         (let (chunks, e) = stream_chunks f fd uuids now cid s' (Suc n) rest in (chunk # chunks, e)))"

definition event_line :: "(rat \<Rightarrow> string) \<Rightarrow> pdict \<Rightarrow> string" where
  "event_line f chunk = ''data: '' @ json_dumps True f (PDict chunk) @ nl @ nl"

definition convert_streaming_response_ollama_to_openai ::
  "(rat \<Rightarrow> string) \<Rightarrow> float_div \<Rightarrow> (nat \<Rightarrow> nat \<Rightarrow> string) \<Rightarrow> int \<Rightarrow> string \<Rightarrow> pdict list \<Rightarrow>
   string list \<times> py_error option" where
  "convert_streaming_response_ollama_to_openai f fd uuids now uuid stream =
     (let (chunks, e) = stream_chunks f fd uuids now (''chatcmpl-'' @ uuid)
            \<lparr>ss_has_tool_calls = False, ss_first = True\<rparr> 0 stream
      in (map (event_line f) chunks @ (if e = None then [''data: [DONE]'' @ nl @ nl] else []), e))"

text \<open>Embeddings: batches, single vectors, and what is already in OpenAI's format or unknown\<close>

definition embedding_entry :: "nat \<Rightarrow> pv \<Rightarrow> pv list" where
  "embedding_entry i emb = (case emb of
      PList _ \<Rightarrow> [PDict [(''object'', PStr ''embedding''), (''embedding'', emb), (''index'', PInt (int i))]]
    | PDict d \<Rightarrow> [PDict [(''object'', PStr ''embedding''), (''embedding'', od_getd d ''embedding'' PNone),
        (''index'', od_getd d ''index'' (PInt (int i)))]]
    | _ \<Rightarrow> [])"

definition embedding_list :: "pdict \<Rightarrow> pv list \<Rightarrow> pv" where
  "embedding_list d entries =
     PDict [(''object'', PStr ''list''), (''data'', PList entries), (''model'', od_getd d ''model'' PNone)]"

definition convert_embedding_response_ollama_to_openai :: "pv \<Rightarrow> pv res" where
  "convert_embedding_response_ollama_to_openai response = (case response of
      PDict d \<Rightarrow>
        (case od_get d ''embeddings'' of
           Some es \<Rightarrow> rbind (piter es) (\<lambda>xs.
             Inr (embedding_list d (concat (map (\<lambda>(i, e). embedding_entry i e) (enumerate 0 xs)))))
         | None \<Rightarrow>
            (case od_get d ''embedding'' of
               Some e \<Rightarrow> Inr (embedding_list d [PDict [(''object'', PStr ''embedding''), (''embedding'', e), (''index'', PInt 0)]])
             | None \<Rightarrow> Inr response))
    | _ \<Rightarrow> Inr response)"

section \<open>The shape of a stream\<close>

definition finish_of :: "pdict \<Rightarrow> pv" where
  "finish_of chunk = od_getd (choice_of chunk) ''finish_reason'' PNone"

definition sent :: "pdict \<Rightarrow> string \<Rightarrow> pv" where
  "sent data k = (case od_getd data ''message'' (PDict []) of PDict m \<Rightarrow> od_getd m k PNone | _ \<Rightarrow> PNone)"

definition is_done :: "pdict \<Rightarrow> bool" where
  "is_done data = truthy (od_getd data ''done'' (PBool False))"

definition empty_chunk :: "pdict \<Rightarrow> bool" where
  "empty_chunk data = (\<not> truthy (sent data ''content'') \<and> \<not> truthy (sent data ''thinking'') \<and>
     \<not> truthy (sent data ''tool_calls''))"

lemma choice_with_choice [simp]: "choice_of (with_choice c t) = c"
  by (simp add: choice_of_def with_choice_def)

lemma choice_with_id [simp]: "choice_of (od_set ''id'' v t) = choice_of t"
  by (simp add: choice_of_def)

lemma choice_with_usage [simp]: "choice_of (with_usage u t) = choice_of t"
  by (simp add: choice_of_def with_usage_def)

lemma id_with_choice [simp]: "od_get (with_choice c t) ''id'' = od_get t ''id''"
  by (simp add: with_choice_def)

lemma set_role_simps [simp]:
  "od_get (set_role c) ''id'' = od_get c ''id''" "finish_of (set_role c) = finish_of c"
  "delta_of (set_role c) = od_set ''role'' (PStr ''assistant'') (delta_of c)"
  by (simp_all add: set_role_def finish_of_def delta_of_def)

lemma set_finish_simps [simp]:
  "od_get (set_finish c) ''id'' = od_get c ''id''" "finish_of (set_finish c) = PStr ''tool_calls''"
  "delta_of (set_finish c) = delta_of c"
  by (simp_all add: set_finish_def finish_of_def delta_of_def)

lemma template_simps [simp]:
  "choice_of (openai_chat_chunk_message_template f u now m content reasoning calls usage) =
     [(''index'', PInt 0), (''logprobs'', PNone), (''finish_reason'', chunk_finish content reasoning calls),
      (''delta'', PDict (chunk_delta content reasoning calls))]"
  by (simp add: openai_chat_chunk_message_template_def)

lemma role_not_in_delta: "od_get (chunk_delta content reasoning calls) ''role'' = None"
  by (simp add: chunk_delta_def)

lemma message_field_sent: "message_field data k PNone = Inr v \<Longrightarrow> v = sent data k"
  by (auto simp: message_field_def sent_def pget_eq_Inr)

lemma tool_calls_truthy:
  assumes "openai_tool_calls f uuids calls = Inr v"
  shows "truthy v = truthy calls"
proof (cases "truthy calls")
  case False
  with assms show ?thesis by (auto simp: openai_tool_calls_def)
next
  case True
  with assms obtain cs out where cs: "piter calls = Inr cs" "v = PList out"
    and out: "rmapM (\<lambda>(i, c). convert_tool_call f (uuids i) c) (enumerate 0 cs) = Inr out"
    by (auto simp: openai_tool_calls_def convert_ollama_tool_call_to_openai_def rbind_eq_Inr)
  have "cs \<noteq> []" using cs(1) True by (cases calls) (auto simp: piter_def)
  moreover have "length out = length cs" using rmapM_length [OF out] by simp
  ultimately show ?thesis using cs(2) True by auto
qed

text \<open>What one chunk of the answer holds\<close>

definition chunk_ok :: "string \<Rightarrow> bool \<Rightarrow> bool \<Rightarrow> pdict \<Rightarrow> pdict \<Rightarrow> bool" where
  "chunk_ok cid first seen data chunk = (od_get chunk ''id'' = Some (PStr cid) \<and>
     od_get (delta_of chunk) ''role'' = (if first then Some (PStr ''assistant'') else None) \<and>
     finish_of chunk = (if is_done data \<and> seen then PStr ''tool_calls''
       else if empty_chunk data then PStr ''stop'' else PNone))"

lemma stream_chunk_ok:
  assumes "stream_chunk f fd uuids now cid s n data = Inr (s', chunk)"
  shows "s' = \<lparr>ss_has_tool_calls = ss_has_tool_calls s \<or> truthy (sent data ''tool_calls''), ss_first = False\<rparr> \<and>
    chunk_ok cid (ss_first s) (ss_has_tool_calls s \<or> truthy (sent data ''tool_calls'')) data chunk"
proof -
  from assms obtain content reasoning calls tool_calls usage where
    "message_field data ''content'' PNone = Inr content" "message_field data ''thinking'' PNone = Inr reasoning"
    "message_field data ''tool_calls'' PNone = Inr calls" and tc: "openai_tool_calls f (uuids n) calls = Inr tool_calls"
    and s': "s' = \<lparr>ss_has_tool_calls = ss_has_tool_calls s \<or> truthy calls, ss_first = False\<rparr>"
    and chunk: "chunk = (let chunk = od_set ''id'' (PStr cid) (openai_chat_chunk_message_template f [] now
             (od_getd data ''model'' (PStr ''ollama'')) content reasoning tool_calls usage);
           chunk = (if ss_first s then set_role chunk else chunk)
         in if is_done data \<and> (ss_has_tool_calls s \<or> truthy calls) then set_finish chunk else chunk)"
    unfolding stream_chunk_def Let_def is_done_def by (auto simp only: rbind_eq_Inr sum.inject prod.inject)
  then have sent: "content = sent data ''content''" "reasoning = sent data ''thinking''" "calls = sent data ''tool_calls''"
    by (auto dest: message_field_sent)
  define t where "t = openai_chat_chunk_message_template f [] now (od_getd data ''model'' (PStr ''ollama''))
    content reasoning tool_calls usage"
  have t: "finish_of t = (if empty_chunk data then PStr ''stop'' else PNone)" "od_get (delta_of t) ''role'' = None"
    using tool_calls_truthy [OF tc] sent
    by (simp_all add: t_def finish_of_def delta_of_def chunk_finish_def empty_chunk_def role_not_in_delta)
  have "finish_of (od_set ''id'' (PStr cid) t) = finish_of t" "delta_of (od_set ''id'' (PStr cid) t) = delta_of t"
    by (simp_all add: finish_of_def delta_of_def)
  then have "chunk_ok cid (ss_first s) (ss_has_tool_calls s \<or> truthy calls) data chunk"
    unfolding chunk_ok_def chunk t_def [symmetric] Let_def using t by simp
  with s' sent(3) show ?thesis by simp
qed

lemma ex_le_Suc: "(\<exists>j\<le>Suc i. P j) = (P 0 \<or> (\<exists>j\<le>i. P (Suc j)))"
  by (metis Suc_le_mono not0_implies_Suc zero_le)

lemma stream_chunks_shape:
  "stream_chunks f fd uuids now cid s n stream = (chunks, None) \<Longrightarrow>
    length chunks = length stream \<and> (\<forall>i<length stream. chunk_ok cid (ss_first s \<and> i = 0)
      (ss_has_tool_calls s \<or> (\<exists>j\<le>i. truthy (sent (stream ! j) ''tool_calls''))) (stream ! i) (chunks ! i))"
proof (induction stream arbitrary: s n chunks)
  case Nil
  then show ?case by simp
next
  case (Cons data rest)
  from Cons.prems obtain s' chunk chunks' where
    step: "stream_chunk f fd uuids now cid s n data = Inr (s', chunk)"
    and rest: "stream_chunks f fd uuids now cid s' (Suc n) rest = (chunks', None)" and chunks: "chunks = chunk # chunks'"
    by (auto split: sum.splits prod.splits)
  from stream_chunk_ok [OF step] have s': "\<not> ss_first s'"
    "ss_has_tool_calls s' = (ss_has_tool_calls s \<or> truthy (sent data ''tool_calls''))"
    and ok: "chunk_ok cid (ss_first s) (ss_has_tool_calls s \<or> truthy (sent data ''tool_calls'')) data chunk" by auto
  from Cons.IH [OF rest] have IH: "length chunks' = length rest"
    "i < length rest \<Longrightarrow> chunk_ok cid False (ss_has_tool_calls s' \<or>
      (\<exists>j\<le>i. truthy (sent (rest ! j) ''tool_calls''))) (rest ! i) (chunks' ! i)" for i
    using s'(1) by auto
  show ?case
  proof (intro conjI allI impI)
    show "length chunks = length (data # rest)" using IH(1) chunks by simp
    fix i
    assume i: "i < length (data # rest)"
    show "chunk_ok cid (ss_first s \<and> i = 0) (ss_has_tool_calls s \<or>
        (\<exists>j\<le>i. truthy (sent ((data # rest) ! j) ''tool_calls''))) ((data # rest) ! i) (chunks ! i)"
    proof (cases i)
      case 0
      then show ?thesis using ok chunks by simp
    next
      case (Suc k)
      then show ?thesis using IH(2) [of k] i chunks s'(2) by (simp add: ex_le_Suc disj_assoc)
    qed
  qed
qed

text \<open>An Ollama stream that is read to its end becomes one event per chunk and the closing event. All
  chunks have the same id; the first and only the first names the role. The last chunk of an
  answer with tool calls ends it with that reason, but otherwise the reason depends on what
  a chunk holds alone: a chunk without text, reasoning and calls says stop, also in the middle
  of the stream, and any other says nothing, also at its end.\<close>

theorem ollama_stream_shape:
  assumes "convert_streaming_response_ollama_to_openai f fd uuids now uuid stream = (lines, None)"
  shows "\<exists>chunks. lines = map (event_line f) chunks @ [''data: [DONE]'' @ nl @ nl] \<and> length chunks = length stream \<and>
    (\<forall>i<length stream. od_get (chunks ! i) ''id'' = Some (PStr (''chatcmpl-'' @ uuid)) \<and>
      od_get (delta_of (chunks ! i)) ''role'' = (if i = 0 then Some (PStr ''assistant'') else None) \<and>
      finish_of (chunks ! i) =
        (if is_done (stream ! i) \<and> (\<exists>j\<le>i. truthy (sent (stream ! j) ''tool_calls'')) then PStr ''tool_calls''
         else if empty_chunk (stream ! i) then PStr ''stop'' else PNone))"
proof -
  obtain chunks where run: "stream_chunks f fd uuids now (''chatcmpl-'' @ uuid)
      \<lparr>ss_has_tool_calls = False, ss_first = True\<rparr> 0 stream = (chunks, None)"
    and lines: "lines = map (event_line f) chunks @ [''data: [DONE]'' @ nl @ nl]"
    using assms unfolding convert_streaming_response_ollama_to_openai_def
    by (auto simp only: Let_def prod.case split: prod.splits if_splits)
  from stream_chunks_shape [OF run] have "length chunks = length stream"
    "\<forall>i<length stream. chunk_ok (''chatcmpl-'' @ uuid) (i = 0)
      (\<exists>j\<le>i. truthy (sent (stream ! j) ''tool_calls'')) (stream ! i) (chunks ! i)" by simp_all
  with lines show ?thesis unfolding chunk_ok_def by blast
qed

definition zero_div :: float_div where
  "zero_div = \<lparr>fd_div = (\<lambda>_ _. 0), fd_times = (\<lambda>_ _. 0), fd_round2 = (\<lambda>_. 0)\<rparr>"

definition two_chunks :: "pdict list" where
  "two_chunks = [[(''message'', PDict [(''content'', PStr [])])], [(''message'', PDict [(''content'', PStr ''Hi'')]),
     (''done'', PBool True)]]"

lemma two_chunks_run:
  "snd (convert_streaming_response_ollama_to_openai (\<lambda>_. []) zero_div (\<lambda>_ _. ''u'') 0 ''x'' two_chunks) = None"
  by code_simp

theorem ollama_stream_shape_witness:
  "\<exists>chunks. length chunks = 2 \<and> finish_of (chunks ! 0) = PStr ''stop'' \<and> finish_of (chunks ! 1) = PNone"
proof -
  obtain lines where "convert_streaming_response_ollama_to_openai (\<lambda>_. []) zero_div (\<lambda>_ _. ''u'') 0 ''x'' two_chunks =
      (lines, None)"
    using two_chunks_run by (metis prod.collapse)
  from ollama_stream_shape [OF this] obtain chunks where c: "length chunks = length two_chunks"
    "\<forall>i<length two_chunks. finish_of (chunks ! i) =
        (if is_done (two_chunks ! i) \<and> (\<exists>j\<le>i. truthy (sent (two_chunks ! j) ''tool_calls'')) then PStr ''tool_calls''
         else if empty_chunk (two_chunks ! i) then PStr ''stop'' else PNone)" by blast
  have len: "length two_chunks = 2" by (simp add: two_chunks_def)
  have "\<not> is_done (two_chunks ! 0)" "empty_chunk (two_chunks ! 0)" "\<not> empty_chunk (two_chunks ! 1)"
    "\<not> truthy (sent (two_chunks ! 0) ''tool_calls'')" "\<not> truthy (sent (two_chunks ! 1) ''tool_calls'')"
    by code_simp+
  moreover from this have "\<not> (\<exists>j\<le>1. truthy (sent (two_chunks ! j) ''tool_calls''))"
    by (metis One_nat_def le_Suc_eq le_zero_eq)
  ultimately show ?thesis using c len by (intro exI [of _ chunks]) auto
qed

end
