(* ===== verification/Effects.thy ===== *)
theory Effects
  imports Prelude
begin

text \<open>
  Operations that change a state and may raise: what was changed before an exception stays
  changed. An operation maps a state to the next one and a result or an exception. Statements on
  an operation are triples: from a state with \<open>P\<close> it returns a value and a state with \<open>Q\<close>, or raises
  in a state with \<open>E\<close>; the rules \<open>act_intros\<close> reduce a triple to those of the operations it calls.
\<close>

named_theorems act_simps \<open>runs of operations\<close>
named_theorems act_intros \<open>rules for triples\<close>

type_synonym ('s, 'a) act = "'s \<Rightarrow> 's \<times> 'a res"

definition aret :: "'a \<Rightarrow> ('s, 'a) act" where
  "aret x s = (s, Inr x)"

definition alift :: "'a res \<Rightarrow> ('s, 'a) act" where
  "alift r s = (s, r)"

definition aread :: "('s \<Rightarrow> 'a) \<Rightarrow> ('s, 'a) act" where
  "aread f s = (s, Inr (f s))"

definition amod :: "('s \<Rightarrow> 's) \<Rightarrow> ('s, unit) act" where
  "amod f s = (f s, Inr ())"

definition abind :: "('s, 'a) act \<Rightarrow> ('a \<Rightarrow> ('s, 'b) act) \<Rightarrow> ('s, 'b) act" where
  "abind m f s = (case m s of (s', Inl e) \<Rightarrow> (s', Inl e) | (s', Inr x) \<Rightarrow> f x s')"

definition aseq :: "('s, unit) act \<Rightarrow> ('s, 'b) act \<Rightarrow> ('s, 'b) act" where
  "aseq m n = abind m (\<lambda>_. n)"

definition awhen :: "bool \<Rightarrow> ('s, unit) act \<Rightarrow> ('s, unit) act" where
  "awhen b m = (if b then m else aret ())"

fun aforeach :: "('x \<Rightarrow> ('s, unit) act) \<Rightarrow> 'x list \<Rightarrow> ('s, unit) act" where
  "aforeach f [] = aret ()"
| "aforeach f (x # xs) = aseq (f x) (aforeach f xs)"

lemma act_runs [act_simps]:
  "aret x s = (s, Inr x)" "alift r s = (s, r)" "aread g s = (s, Inr (g s))" "amod h s = (h s, Inr ())"
  by (simp_all add: aret_def alift_def aread_def amod_def)

section \<open>Triples\<close>

definition triple :: "('s \<Rightarrow> bool) \<Rightarrow> ('s, 'a) act \<Rightarrow> ('a \<Rightarrow> 's \<Rightarrow> bool) \<Rightarrow> ('s \<Rightarrow> bool) \<Rightarrow> bool" where
  "triple P m Q E = (\<forall>s. P s \<longrightarrow> (case m s of (s', Inl _) \<Rightarrow> E s' | (s', Inr x) \<Rightarrow> Q x s'))"

lemma tripleI: "(\<And>s. P s \<Longrightarrow> (case m s of (s', Inl _) \<Rightarrow> E s' | (s', Inr x) \<Rightarrow> Q x s')) \<Longrightarrow> triple P m Q E"
  by (simp add: triple_def)

lemma triple_state:
  assumes "triple P m (\<lambda>_. E) E" and "P s"
  shows "E (fst (m s))"
proof -
  have "case m s of (s', Inl _) \<Rightarrow> E s' | (s', Inr _) \<Rightarrow> E s'" by (rule assms(1) [unfolded triple_def, rule_format, OF assms(2)])
  then show ?thesis by (auto split: prod.splits sum.splits)
qed

lemma triple_ret: "(\<And>s. P s \<Longrightarrow> Q x s) \<Longrightarrow> triple P (aret x) Q E"
  by (simp add: triple_def act_simps)

lemma triple_lift: "(\<And>s x. P s \<Longrightarrow> r = Inr x \<Longrightarrow> Q x s) \<Longrightarrow> (\<And>s. P s \<Longrightarrow> E s) \<Longrightarrow> triple P (alift r) Q E"
  by (auto simp: triple_def act_simps split: sum.splits)

lemma triple_read: "(\<And>s. P s \<Longrightarrow> Q (f s) s) \<Longrightarrow> triple P (aread f) Q E"
  by (simp add: triple_def act_simps)

lemma triple_mod: "(\<And>s. P s \<Longrightarrow> Q () (f s)) \<Longrightarrow> triple P (amod f) Q E"
  by (simp add: triple_def act_simps)

lemma triple_bind: "triple P m R E \<Longrightarrow> (\<And>x. triple (R x) (f x) Q E) \<Longrightarrow> triple P (abind m f) Q E"
  unfolding triple_def abind_def by (fastforce split: prod.splits sum.splits)

lemma triple_seq: "triple P m (\<lambda>_. R) E \<Longrightarrow> triple R n Q E \<Longrightarrow> triple P (aseq m n) Q E"
  unfolding aseq_def by (rule triple_bind)

lemma triple_when:
  "(b \<Longrightarrow> triple P m Q E) \<Longrightarrow> (\<And>s. \<not> b \<Longrightarrow> P s \<Longrightarrow> Q () s) \<Longrightarrow> triple P (awhen b m) Q E"
  by (simp add: awhen_def triple_ret)

lemma triple_if:
  "(b \<Longrightarrow> triple P m Q E) \<Longrightarrow> (\<not> b \<Longrightarrow> triple P n Q E) \<Longrightarrow> triple P (if b then m else n) Q E"
  by simp

lemma triple_pre: "triple P m Q E \<Longrightarrow> (\<And>s. P' s \<Longrightarrow> P s) \<Longrightarrow> triple P' m Q E"
  by (simp add: triple_def)

lemma triple_post: "triple P m Q E \<Longrightarrow> (\<And>x s. Q x s \<Longrightarrow> Q' x s) \<Longrightarrow> triple P m Q' E"
  unfolding triple_def by (fastforce split: prod.splits sum.splits)

lemma triple_fail: "triple P m Q E \<Longrightarrow> (\<And>s. E s \<Longrightarrow> E' s) \<Longrightarrow> triple P m Q E'"
  unfolding triple_def by (fastforce split: prod.splits sum.splits)

lemma triple_foreach:
  "(\<And>x. x \<in> set xs \<Longrightarrow> triple P (f x) (\<lambda>_. P) E) \<Longrightarrow> triple P (aforeach f xs) (\<lambda>_. P) E"
  by (induction xs) (auto intro: triple_ret triple_seq)

lemma triple_false: "triple (\<lambda>_. False) m Q E"
  by (simp add: triple_def)

end
