(* ===== verification/Anthropic_Stream.thy ===== *)
theory Anthropic_Stream
  imports Json Effects
begin

text \<open>
  \<open>openai_stream_to_anthropic_stream\<close> of \<^verbatim>\<open>backend/openlaunch/utils/anthropic.py\<close>: the stream of a
  chat completion as the events of the Messages API. The events that were yielded are part of the
  state, so that an exception, which the code logs before it ends the message, keeps them. The
  generated message id and the fallback ids of tool calls are arguments, the latter as a
  function of the ids that are in use.
\<close>

section \<open>Events\<close>

datatype content_block = TextBlock | ToolBlock pv pv

datatype block_delta = TextDelta pv | JsonDelta string

datatype event =
    MessageStart string pv
  | BlockStart nat content_block
  | BlockDelta nat block_delta
  | BlockStop nat
  | MessageDelta string pv
  | MessageStop

definition block_data :: "content_block \<Rightarrow> pdict" where
  "block_data b = (case b of
      TextBlock \<Rightarrow> [(''type'', PStr ''text''), (''text'', PStr [])]
    | ToolBlock i n \<Rightarrow> [(''type'', PStr ''tool_use''), (''id'', i), (''name'', n), (''input'', PDict [])])"

definition delta_data :: "block_delta \<Rightarrow> pdict" where
  "delta_data d = (case d of
      TextDelta t \<Rightarrow> [(''type'', PStr ''text_delta''), (''text'', t)]
    | JsonDelta j \<Rightarrow> [(''type'', PStr ''input_json_delta''), (''partial_json'', PStr j)])"

definition event_type :: "event \<Rightarrow> string" where
  "event_type e = (case e of
      MessageStart _ _ \<Rightarrow> ''message_start''
    | BlockStart _ _ \<Rightarrow> ''content_block_start''
    | BlockDelta _ _ \<Rightarrow> ''content_block_delta''
    | BlockStop _ \<Rightarrow> ''content_block_stop''
    | MessageDelta _ _ \<Rightarrow> ''message_delta''
    | MessageStop \<Rightarrow> ''message_stop'')"

definition event_data :: "event \<Rightarrow> pdict" where
  "event_data e = (''type'', PStr (event_type e)) # (case e of
      MessageStart i model \<Rightarrow> [(''message'', PDict [(''id'', PStr i), (''type'', PStr ''message''), (''role'', PStr ''assistant''),
        (''content'', PList []), (''model'', model), (''stop_reason'', PNone), (''stop_sequence'', PNone),
        (''usage'', PDict [(''input_tokens'', PInt 0), (''output_tokens'', PInt 0)])])]
    | BlockStart n b \<Rightarrow> [(''index'', PInt (int n)), (''content_block'', PDict (block_data b))]
    | BlockDelta n d \<Rightarrow> [(''index'', PInt (int n)), (''delta'', PDict (delta_data d))]
    | BlockStop n \<Rightarrow> [(''index'', PInt (int n))]
    | MessageDelta reason output \<Rightarrow> [(''delta'', PDict [(''stop_reason'', PStr reason), (''stop_sequence'', PNone)]),
        (''usage'', PDict [(''output_tokens'', output)])]
    | MessageStop \<Rightarrow> [])"

definition event_text :: "(rat \<Rightarrow> string) \<Rightarrow> event \<Rightarrow> string" where
  "event_text f e = ''event: '' @ event_type e @ nl @ ''data: '' @ json_dumps True f (PDict (event_data e)) @ nl @ nl"

section \<open>State\<close>

record tool_block =
  tb_id :: pv
  tb_name :: pv
  tb_arguments :: string
  tb_index :: nat
  tb_started :: bool
  tb_stopped :: bool

record conversion =
  cv_events :: "event list"
  cv_input :: pv
  cv_output :: pv
  cv_stop_reason :: string
  cv_block :: nat
  cv_text_open :: bool
  cv_tools :: "(pv, tool_block) od"
  cv_ids :: "(pv, pv) od"
  cv_has_tools :: bool

definition new_conversion :: conversion where
  "new_conversion = \<lparr>cv_events = [], cv_input = PInt 0, cv_output = PInt 0, cv_stop_reason = ''end_turn'', cv_block = 0,
     cv_text_open = False, cv_tools = [], cv_ids = [], cv_has_tools = False\<rparr>"

definition new_tool :: "pv \<Rightarrow> pv \<Rightarrow> tool_block" where
  "new_tool i name = \<lparr>tb_id = i, tb_name = name, tb_arguments = [], tb_index = 0, tb_started = False, tb_stopped = False\<rparr>"

definition emit :: "event \<Rightarrow> conversion \<Rightarrow> conversion" where
  "emit e s = s\<lparr>cv_events := cv_events s @ [e]\<rparr>"

definition put_tool :: "pv \<Rightarrow> tool_block \<Rightarrow> conversion \<Rightarrow> conversion" where
  "put_tool k t s = s\<lparr>cv_tools := od_set k t (cv_tools s)\<rparr>"

definition at_tool :: "pv \<Rightarrow> (tool_block \<Rightarrow> (conversion, 'a) act) \<Rightarrow> (conversion, 'a) act" where
  "at_tool k f s = (case od_get (cv_tools s) k of None \<Rightarrow> (s, Inl (KeyError [])) | Some t \<Rightarrow> f t s)"

section \<open>One chunk\<close>

text \<open>\<^verbatim>\<open>v[0]\<close>\<close>

definition first_item :: "pv \<Rightarrow> pv res" where
  "first_item v = (case v of
      PList xs \<Rightarrow> (case xs of [] \<Rightarrow> Inl IndexError | x # _ \<Rightarrow> Inr x)
    | PStr s \<Rightarrow> (case s of [] \<Rightarrow> Inl IndexError | c # _ \<Rightarrow> Inr (PStr [c]))
    | PDict _ \<Rightarrow> Inl (KeyError ''0'')
    | _ \<Rightarrow> Inl TypeError)"

definition take_usage :: "pv \<Rightarrow> (conversion, unit) act" where
  "take_usage data =
     abind (alift (pget data ''usage'' PNone)) (\<lambda>u. awhen (truthy u) (
       aseq (abind (aread cv_input) (\<lambda>i. abind (alift (pget u ''prompt_tokens'' i)) (\<lambda>v. amod (\<lambda>s. s\<lparr>cv_input := v\<rparr>))))
         (abind (aread cv_output) (\<lambda>i. abind (alift (pget u ''completion_tokens'' i)) (\<lambda>v. amod (\<lambda>s. s\<lparr>cv_output := v\<rparr>))))))"

definition open_text :: "conversion \<Rightarrow> conversion" where
  "open_text s = (if cv_text_open s then s else (emit (BlockStart (cv_block s) TextBlock) s)\<lparr>cv_text_open := True\<rparr>)"

definition emit_text :: "pv \<Rightarrow> conversion \<Rightarrow> conversion" where
  "emit_text content s = (let s = open_text s in emit (BlockDelta (cv_block s) (TextDelta content)) s)"

definition take_text :: "pv \<Rightarrow> (conversion, unit) act" where
  "take_text content = abind (aread cv_has_tools) (\<lambda>h. awhen (truthy content \<and> \<not> h) (amod (emit_text content)))"

definition close_text :: "conversion \<Rightarrow> conversion" where
  "close_text s = (if cv_text_open s
     then (emit (BlockStop (cv_block s)) s)\<lparr>cv_text_open := False, cv_block := Suc (cv_block s)\<rparr> else s)"

text \<open>The tool call that a delta belongs to, by its id, by its index, or a new one\<close>

definition find_tool_call :: "(pv list \<Rightarrow> string) \<Rightarrow> pv \<Rightarrow> pv \<Rightarrow> pv \<Rightarrow> (conversion, pv) act" where
  "find_tool_call fresh index call_id name =
     (if truthy call_id
      then abind (alift (hash_key call_id)) (\<lambda>k.
        aseq (amod (\<lambda>s. if od_has (cv_tools s) k then s else put_tool k (new_tool call_id name) s))
          (abind (alift (hash_key index)) (\<lambda>i. aseq (amod (\<lambda>s. s\<lparr>cv_ids := od_set i k (cv_ids s)\<rparr>)) (aret k))))
      else abind (alift (hash_key index)) (\<lambda>i. abind (aread (\<lambda>s. od_get (cv_ids s) i)) (\<lambda>known. case known of
          Some k \<Rightarrow> aret k
        | None \<Rightarrow> abind (aread (\<lambda>s. PStr (''toolu_'' @ fresh (od_keys (cv_tools s))))) (\<lambda>k.
            aseq (amod (put_tool k (new_tool k name))) (aseq (amod (\<lambda>s. s\<lparr>cv_ids := od_set i k (cv_ids s)\<rparr>)) (aret k))))))"

definition name_tool :: "pv \<Rightarrow> pv \<Rightarrow> (conversion, unit) act" where
  "name_tool k name = at_tool k (\<lambda>t. awhen (truthy name \<and> \<not> truthy (tb_name t)) (amod (put_tool k (t\<lparr>tb_name := name\<rparr>))))"

definition open_tool :: "pv \<Rightarrow> tool_block \<Rightarrow> conversion \<Rightarrow> conversion" where
  "open_tool k t s = (emit (BlockStart (cv_block s) (ToolBlock (tb_id t) (tb_name t)))
     (put_tool k (t\<lparr>tb_index := cv_block s, tb_started := True\<rparr>) s))\<lparr>cv_block := Suc (cv_block s)\<rparr>"

definition start_tool :: "pv \<Rightarrow> (conversion, unit) act" where
  "start_tool k = at_tool k (\<lambda>t. awhen (\<not> tb_started t \<and> truthy (tb_name t))
     (amod (\<lambda>s. (open_tool k t s)\<lparr>cv_has_tools := True\<rparr>)))"

definition running :: "tool_block \<Rightarrow> bool" where
  "running t = (tb_started t \<and> \<not> tb_stopped t)"

definition add_arguments :: "pv \<Rightarrow> string \<Rightarrow> (conversion, unit) act" where
  "add_arguments k a = aseq
     (at_tool k (\<lambda>t. amod (put_tool k (t\<lparr>tb_arguments := tb_arguments t @ a\<rparr>))))
     (at_tool k (\<lambda>t. awhen (running t) (amod (emit (BlockDelta (tb_index t) (JsonDelta a))))))"

definition stop_tool :: "(string \<Rightarrow> rat) \<Rightarrow> pv \<Rightarrow> (conversion, unit) act" where
  "stop_tool rd k = at_tool k (\<lambda>t. awhen (running t \<and> (case json_loads rd (tb_arguments t) of Inl _ \<Rightarrow> False | Inr _ \<Rightarrow> True))
     (amod (\<lambda>s. emit (BlockStop (tb_index t)) (put_tool k (t\<lparr>tb_stopped := True\<rparr>) s))))"

definition take_arguments :: "(string \<Rightarrow> rat) \<Rightarrow> pv \<Rightarrow> pv \<Rightarrow> (conversion, unit) act" where
  "take_arguments rd k arguments = awhen (truthy arguments)
     (abind (alift (pconcat [] arguments)) (\<lambda>a. aseq (add_arguments k a) (stop_tool rd k)))"

definition function_field :: "pv \<Rightarrow> string \<Rightarrow> pv res" where
  "function_field call field = rbind (pget call ''function'' PNone) (\<lambda>fn. pget (py_or fn (PDict [])) field (PStr []))"

definition take_tool_call :: "(string \<Rightarrow> rat) \<Rightarrow> (pv list \<Rightarrow> string) \<Rightarrow> pv \<Rightarrow> (conversion, unit) act" where
  "take_tool_call rd fresh call =
     abind (alift (pget call ''index'' (PInt 0))) (\<lambda>index.
     abind (alift (pget call ''id'' (PStr []))) (\<lambda>call_id.
     abind (alift (function_field call ''name'')) (\<lambda>name.
     abind (alift (function_field call ''arguments'')) (\<lambda>arguments.
     abind (find_tool_call fresh index call_id name) (\<lambda>k.
     aseq (name_tool k name) (aseq (start_tool k) (take_arguments rd k arguments)))))))"

definition delta_calls :: "pv \<Rightarrow> pv \<Rightarrow> pv res" where
  "delta_calls delta message =
     rbind (pget delta ''tool_calls'' PNone) (\<lambda>calls. if truthy calls then Inr calls
       else rbind (pget message ''tool_calls'' PNone) (\<lambda>m. Inr (if truthy m then m else PList [])))"

definition take_tool_calls :: "(string \<Rightarrow> rat) \<Rightarrow> (pv list \<Rightarrow> string) \<Rightarrow> pv \<Rightarrow> (conversion, unit) act" where
  "take_tool_calls rd fresh calls = awhen (truthy calls)
     (aseq (amod close_text) (abind (alift (piter calls)) (aforeach (take_tool_call rd fresh))))"

definition openai_stop_reasons :: "(string \<times> string) list" where
  "openai_stop_reasons = [(''stop'', ''end_turn''), (''length'', ''max_tokens''), (''tool_calls'', ''tool_use'')]"

definition take_finish :: "pv \<Rightarrow> (conversion, unit) act" where
  "take_finish reason = awhen (reason \<noteq> PNone) (abind (alift (hash_key reason)) (\<lambda>k.
     amod (\<lambda>s. s\<lparr>cv_stop_reason := (case k of PStr r \<Rightarrow> od_getd openai_stop_reasons r ''end_turn'' | _ \<Rightarrow> ''end_turn'')\<rparr>)))"

definition take_choice :: "(string \<Rightarrow> rat) \<Rightarrow> (pv list \<Rightarrow> string) \<Rightarrow> pv \<Rightarrow> pv \<Rightarrow> (conversion, unit) act" where
  "take_choice rd fresh data choices =
     abind (alift (first_item choices)) (\<lambda>choice.
     abind (alift (pget choice ''delta'' (PDict []))) (\<lambda>delta.
     abind (alift (pget choice ''finish_reason'' PNone)) (\<lambda>finish.
     abind (alift (pget choice ''message'' PNone)) (\<lambda>m.
     aseq (take_usage data)
       (abind (alift (pget delta ''content'' PNone)) (\<lambda>content.
        aseq (take_text content)
          (abind (alift (delta_calls delta (py_or m (PDict [])))) (\<lambda>calls.
           aseq (take_tool_calls rd fresh calls) (take_finish finish)))))))))"

definition take_data :: "(string \<Rightarrow> rat) \<Rightarrow> (pv list \<Rightarrow> string) \<Rightarrow> pv \<Rightarrow> (conversion, unit) act" where
  "take_data rd fresh data = abind (alift (pget data ''choices'' (PList []))) (\<lambda>choices.
     if truthy choices then take_choice rd fresh data choices else take_usage data)"

definition line_data :: "(string \<Rightarrow> rat) \<Rightarrow> string \<Rightarrow> pv option" where
  "line_data rd line = (let line = py_strip line in
     if \<not> py_startswith line ''data:'' then None
     else (let text = py_strip (drop 5 line) in
       if text = ''[DONE]'' \<or> text = ''{}'' then None
       else (case json_loads rd text of Inl _ \<Rightarrow> None | Inr v \<Rightarrow> Some v)))"

definition take_line :: "(string \<Rightarrow> rat) \<Rightarrow> (pv list \<Rightarrow> string) \<Rightarrow> string \<Rightarrow> (conversion, unit) act" where
  "take_line rd fresh line = (case line_data rd line of None \<Rightarrow> aret () | Some v \<Rightarrow> take_data rd fresh v)"

definition take_chunk :: "(string \<Rightarrow> rat) \<Rightarrow> (pv list \<Rightarrow> string) \<Rightarrow> string \<Rightarrow> (conversion, unit) act" where
  "take_chunk rd fresh chunk = aforeach (take_line rd fresh) (py_split (CHR 0x0A) (py_strip chunk))"

section \<open>The end of the stream\<close>

text \<open>Tools that have a name but no block yet are sent whole.\<close>

definition flush_tool :: "pv \<Rightarrow> conversion \<Rightarrow> conversion" where
  "flush_tool k s = (case od_get (cv_tools s) k of
      None \<Rightarrow> s
    | Some t \<Rightarrow> (if \<not> tb_started t \<and> truthy (tb_name t)
        then (let s' = open_tool k t s in
          if tb_arguments t \<noteq> [] then emit (BlockDelta (cv_block s) (JsonDelta (tb_arguments t))) s' else s')
        else s))"

definition flush_tools :: "conversion \<Rightarrow> conversion" where
  "flush_tools s = fold flush_tool (od_keys (cv_tools s)) s"

definition close_tools :: "conversion \<Rightarrow> event list" where
  "close_tools s = map (BlockStop \<circ> tb_index) (filter running (map snd (cv_tools s)))"

definition openai_events :: "(string \<Rightarrow> rat) \<Rightarrow> (pv list \<Rightarrow> string) \<Rightarrow> string \<Rightarrow> pv \<Rightarrow> string list \<Rightarrow> event list" where
  "openai_events rd fresh message_id model chunks =
     (let s = fst (aforeach (take_chunk rd fresh) chunks new_conversion);
          s = flush_tools s
      in MessageStart (''msg_'' @ message_id) model #
        cv_events s @ (if cv_text_open s then [BlockStop (cv_block s)] else []) @ close_tools s @
        [MessageDelta (cv_stop_reason s) (cv_output s), MessageStop])"

definition openai_stream_to_anthropic_stream ::
  "float_ops \<Rightarrow> (pv list \<Rightarrow> string) \<Rightarrow> string \<Rightarrow> pv \<Rightarrow> string list \<Rightarrow> string list" where
  "openai_stream_to_anthropic_stream fo fresh message_id model chunks =
     map (event_text (fl_repr fo)) (openai_events (fl_read fo) fresh message_id model chunks)"

section \<open>The life of a block\<close>

text \<open>What the Messages API promises of the blocks of a message: they are numbered in the order in which
  they start, from 0; between its start and its stop, and only there, a block gets deltas of its
  kind. The state of this protocol is the next number and the blocks that are open.\<close>

datatype block_kind = TextKind | ToolKind

definition kind_of_block :: "content_block \<Rightarrow> block_kind" where
  "kind_of_block b = (case b of TextBlock \<Rightarrow> TextKind | ToolBlock _ _ \<Rightarrow> ToolKind)"

definition kind_of_delta :: "block_delta \<Rightarrow> block_kind" where
  "kind_of_delta d = (case d of TextDelta _ \<Rightarrow> TextKind | JsonDelta _ \<Rightarrow> ToolKind)"

type_synonym protocol = "nat \<times> (nat \<times> block_kind) set"

fun block_step :: "event \<Rightarrow> protocol \<Rightarrow> protocol option" where
  "block_step (BlockStart i b) (n, opened) = (if i = n then Some (Suc n, insert (i, kind_of_block b) opened) else None)"
| "block_step (BlockDelta i d) (n, opened) = (if (i, kind_of_delta d) \<in> opened then Some (n, opened) else None)"
| "block_step (BlockStop i) (n, opened) = (if i \<in> fst ` opened then Some (n, {p \<in> opened. fst p \<noteq> i}) else None)"
| "block_step _ _ = None"

fun block_run :: "event list \<Rightarrow> protocol \<Rightarrow> protocol option" where
  "block_run [] p = Some p"
| "block_run (e # es) p = (case block_step e p of None \<Rightarrow> None | Some p' \<Rightarrow> block_run es p')"

lemma block_run_snoc: "block_run es p = Some q \<Longrightarrow> block_run (es @ [e]) p = block_step e q"
  by (induction es arbitrary: p) (auto split: option.splits)

lemma block_run_append: "block_run es p = Some q \<Longrightarrow> block_run (es @ es') p = block_run es' q"
  by (induction es arbitrary: p) (auto split: option.splits)

section \<open>The invariant of a conversion\<close>

lemma emit_simps [simp]:
  "cv_events (emit e s) = cv_events s @ [e]" "cv_block (emit e s) = cv_block s" "cv_tools (emit e s) = cv_tools s"
  "cv_text_open (emit e s) = cv_text_open s"
  by (simp_all add: emit_def)

lemma put_tool_simps [simp]:
  "cv_events (put_tool k t s) = cv_events s" "cv_block (put_tool k t s) = cv_block s"
  "cv_tools (put_tool k t s) = od_set k t (cv_tools s)" "cv_text_open (put_tool k t s) = cv_text_open s"
  by (simp_all add: put_tool_def)

definition tool_at :: "conversion \<Rightarrow> pv \<Rightarrow> tool_block option" where
  "tool_at s k = od_get (cv_tools s) k"

definition text_blocks :: "conversion \<Rightarrow> (nat \<times> block_kind) set" where
  "text_blocks s = (if cv_text_open s then {(cv_block s, TextKind)} else {})"

definition tool_blocks :: "conversion \<Rightarrow> (nat \<times> block_kind) set" where
  "tool_blocks s = {(tb_index t, ToolKind) |k t. tool_at s k = Some t \<and> running t}"

text \<open>What was sent is in order, the open blocks are the text block and the running tools, and
  different tools have different blocks.\<close>

definition blocks_ok :: "conversion \<Rightarrow> bool" where
  "blocks_ok s = (block_run (cv_events s) (0, {}) =
       Some (cv_block s + (if cv_text_open s then 1 else 0), text_blocks s \<union> tool_blocks s) \<and>
     od_ok (cv_tools s) \<and>
     (\<forall>k t. tool_at s k = Some t \<longrightarrow> (tb_started t \<longrightarrow> tb_index t < cv_block s) \<and> (tb_stopped t \<longrightarrow> tb_started t)) \<and>
     (\<forall>k k' t t'. tool_at s k = Some t \<and> tool_at s k' = Some t' \<and> tb_started t \<and> tb_started t' \<and>
        tb_index t = tb_index t' \<longrightarrow> k = k'))"

text \<open>Every tool with a name has its block, but perhaps the one with the given key.\<close>

definition all_started :: "pv option \<Rightarrow> conversion \<Rightarrow> bool" where
  "all_started except s = (\<forall>k t. Some k \<noteq> except \<and> tool_at s k = Some t \<and> truthy (tb_name t) \<longrightarrow> tb_started t)"

definition in_text :: "conversion \<Rightarrow> bool" where
  "in_text s = (blocks_ok s \<and> all_started None s)"

definition in_tools :: "pv option \<Rightarrow> conversion \<Rightarrow> bool" where
  "in_tools except s = (blocks_ok s \<and> \<not> cv_text_open s \<and> all_started except s)"

definition stoppable :: "conversion \<Rightarrow> bool" where
  "stoppable s = (blocks_ok s \<and> (cv_text_open s \<longrightarrow> all_started None s))"

lemma phases:
  "in_text s \<Longrightarrow> stoppable s" "in_tools x s \<Longrightarrow> stoppable s" "in_tools None s \<Longrightarrow> in_text s"
  "in_tools None s \<Longrightarrow> in_tools x s"
  by (auto simp: in_text_def in_tools_def stoppable_def all_started_def)

lemma tool_at_simps [simp]:
  "tool_at (emit e s) = tool_at s" "tool_at (put_tool k t s) k' = (if k' = k then Some t else tool_at s k')"
  by (auto simp: tool_at_def)

text \<open>What is not part of the invariant may change.\<close>

lemma irrelevant_simps [simp]:
  "tool_at (s\<lparr>cv_input := v\<rparr>) = tool_at s" "tool_at (s\<lparr>cv_output := v\<rparr>) = tool_at s"
  "tool_at (s\<lparr>cv_ids := d\<rparr>) = tool_at s" "tool_at (s\<lparr>cv_stop_reason := r\<rparr>) = tool_at s"
  "tool_at (s\<lparr>cv_has_tools := b\<rparr>) = tool_at s" "tool_at (s\<lparr>cv_block := n\<rparr>) = tool_at s"
  "tool_at (s\<lparr>cv_text_open := b\<rparr>) = tool_at s"
  by (simp_all add: tool_at_def fun_eq_iff)

lemma irrelevant_blocks [simp]:
  "blocks_ok (s\<lparr>cv_input := v\<rparr>) = blocks_ok s" "blocks_ok (s\<lparr>cv_output := v\<rparr>) = blocks_ok s"
  "blocks_ok (s\<lparr>cv_ids := d\<rparr>) = blocks_ok s" "blocks_ok (s\<lparr>cv_stop_reason := r\<rparr>) = blocks_ok s"
  "blocks_ok (s\<lparr>cv_has_tools := b\<rparr>) = blocks_ok s"
  by (simp_all add: blocks_ok_def text_blocks_def tool_blocks_def)

lemma irrelevant_started [simp]:
  "all_started x (s\<lparr>cv_input := v\<rparr>) = all_started x s" "all_started x (s\<lparr>cv_output := v\<rparr>) = all_started x s"
  "all_started x (s\<lparr>cv_ids := d\<rparr>) = all_started x s" "all_started x (s\<lparr>cv_stop_reason := r\<rparr>) = all_started x s"
  "all_started x (s\<lparr>cv_has_tools := b\<rparr>) = all_started x s" "all_started x (s\<lparr>cv_block := n\<rparr>) = all_started x s"
  "all_started x (s\<lparr>cv_text_open := b\<rparr>) = all_started x s" "all_started x (emit e s) = all_started x s"
  by (simp_all add: all_started_def)

lemma blocks_okI:
  assumes "block_run (cv_events s) (0, {}) =
      Some (cv_block s + (if cv_text_open s then 1 else 0), text_blocks s \<union> tool_blocks s)"
    and "od_ok (cv_tools s)"
    and "\<And>k t. tool_at s k = Some t \<Longrightarrow> tb_started t \<Longrightarrow> tb_index t < cv_block s"
    and "\<And>k t. tool_at s k = Some t \<Longrightarrow> tb_stopped t \<Longrightarrow> tb_started t"
    and "\<And>k k' t t'. tool_at s k = Some t \<Longrightarrow> tool_at s k' = Some t' \<Longrightarrow> tb_started t \<Longrightarrow> tb_started t' \<Longrightarrow>
      tb_index t = tb_index t' \<Longrightarrow> k = k'"
  shows "blocks_ok s"
  unfolding blocks_ok_def using assms by blast

lemma blocks_okD:
  assumes "blocks_ok s"
  shows "block_run (cv_events s) (0, {}) =
      Some (cv_block s + (if cv_text_open s then 1 else 0), text_blocks s \<union> tool_blocks s)"
    and "od_ok (cv_tools s)"
    and "tool_at s k = Some t \<Longrightarrow> tb_started t \<Longrightarrow> tb_index t < cv_block s"
    and "tool_at s k = Some t \<Longrightarrow> tb_stopped t \<Longrightarrow> tb_started t"
    and "tool_at s k = Some t \<Longrightarrow> tool_at s k' = Some t' \<Longrightarrow> tb_started t \<Longrightarrow> tb_started t' \<Longrightarrow>
      tb_index t = tb_index t' \<Longrightarrow> k = k'"
  using assms unfolding blocks_ok_def by blast+

lemma tool_blocks_emit [simp]: "tool_blocks (emit e s) = tool_blocks s" "text_blocks (emit e s) = text_blocks s"
  by (simp_all add: tool_blocks_def text_blocks_def)

definition other_blocks :: "conversion \<Rightarrow> pv \<Rightarrow> (nat \<times> block_kind) set" where
  "other_blocks s k = {(tb_index t, ToolKind) |k' t. k' \<noteq> k \<and> tool_at s k' = Some t \<and> running t}"

lemma tool_blocks_put:
  "tool_blocks (put_tool k t s) = other_blocks s k \<union> (if running t then {(tb_index t, ToolKind)} else {})"
  unfolding tool_blocks_def other_blocks_def by (rule set_eqI) (auto split: if_splits)

lemma tool_blocks_split:
  assumes "tool_at s k = Some t"
  shows "tool_blocks s = other_blocks s k \<union> (if running t then {(tb_index t, ToolKind)} else {})"
proof -
  have "tool_at s = tool_at (put_tool k t s)" using assms by (simp add: fun_eq_iff)
  then have "tool_blocks s = tool_blocks (put_tool k t s)" unfolding tool_blocks_def by metis
  then show ?thesis by (simp only: tool_blocks_put)
qed

lemma tool_blocks_fresh: "tool_at s k = None \<Longrightarrow> tool_blocks s = other_blocks s k"
  unfolding tool_blocks_def other_blocks_def by (intro Collect_cong ex_cong1) auto

lemma text_blocks_put [simp]: "text_blocks (put_tool k t s) = text_blocks s"
  by (simp add: text_blocks_def)

text \<open>Changes of a tool that leave its block alone\<close>

lemma blocks_ok_put_same:
  assumes "blocks_ok s" and "tool_at s k = Some t"
    and "tb_index t' = tb_index t" "tb_started t' = tb_started t" "tb_stopped t' = tb_stopped t"
  shows "blocks_ok (put_tool k t' s)"
proof (rule blocks_okI)
  have "tool_blocks (put_tool k t' s) = tool_blocks s"
    unfolding tool_blocks_put tool_blocks_split [OF assms(2)] using assms(3-5) by (simp add: running_def)
  then show "block_run (cv_events (put_tool k t' s)) (0, {}) = Some (cv_block (put_tool k t' s) +
      (if cv_text_open (put_tool k t' s) then 1 else 0), text_blocks (put_tool k t' s) \<union> tool_blocks (put_tool k t' s))"
    using blocks_okD(1) [OF assms(1)] by simp
  show "od_ok (cv_tools (put_tool k t' s))" using blocks_okD(2) [OF assms(1)] by simp
next
  have at: "tool_at (put_tool k t' s) j = Some u \<Longrightarrow> \<exists>v. tool_at s j = Some v \<and> tb_index u = tb_index v \<and>
      tb_started u = tb_started v \<and> tb_stopped u = tb_stopped v" for j u
    using assms(2-5) by (auto split: if_splits)
  fix j u assume u: "tool_at (put_tool k t' s) j = Some u"
  show "tb_started u \<Longrightarrow> tb_index u < cv_block (put_tool k t' s)"
    using at [OF u] blocks_okD(3) [OF assms(1), of j] by auto
  show "tb_stopped u \<Longrightarrow> tb_started u" using at [OF u] blocks_okD(4) [OF assms(1), of j] by auto
  fix j' u' assume u': "tool_at (put_tool k t' s) j' = Some u'" "tb_started u" "tb_started u'" "tb_index u = tb_index u'"
  show "j = j'" using at [OF u] at [OF u'(1)] u'(2-4) blocks_okD(5) [OF assms(1), of j _ j'] by auto
qed

lemma blocks_ok_put_new:
  assumes "blocks_ok s" and "tool_at s k = None"
  shows "blocks_ok (put_tool k (new_tool i name) s)"
proof (rule blocks_okI)
  have no: "\<not> tb_started (new_tool i name)" "\<not> tb_stopped (new_tool i name)" by (simp_all add: new_tool_def)
  then have "tool_blocks (put_tool k (new_tool i name) s) = tool_blocks s"
    unfolding tool_blocks_put tool_blocks_fresh [OF assms(2)] by (simp add: running_def)
  then show "block_run (cv_events (put_tool k (new_tool i name) s)) (0, {}) = Some (cv_block (put_tool k (new_tool i name) s) +
      (if cv_text_open (put_tool k (new_tool i name) s) then 1 else 0),
      text_blocks (put_tool k (new_tool i name) s) \<union> tool_blocks (put_tool k (new_tool i name) s))"
    using blocks_okD(1) [OF assms(1)] by simp
  show "od_ok (cv_tools (put_tool k (new_tool i name) s))" using blocks_okD(2) [OF assms(1)] by simp
  fix j u assume u: "tool_at (put_tool k (new_tool i name) s) j = Some u"
  show "tb_started u \<Longrightarrow> tb_index u < cv_block (put_tool k (new_tool i name) s)" and "tb_stopped u \<Longrightarrow> tb_started u"
    using u no blocks_okD(3,4) [OF assms(1), of j] by (auto split: if_splits)
  fix j' u' assume u': "tool_at (put_tool k (new_tool i name) s) j' = Some u'" "tb_started u" "tb_started u'" "tb_index u = tb_index u'"
  show "j = j'" using u u' no blocks_okD(5) [OF assms(1), of j _ j'] by (auto split: if_splits)
qed

text \<open>Steps of the protocol\<close>

lemma blocks_ok_step:
  assumes "blocks_ok s" and "cv_events s' = cv_events s @ [e]" and "cv_tools s' = cv_tools s"
    and "cv_block s \<le> cv_block s'"
    and "block_step e (cv_block s + (if cv_text_open s then 1 else 0), text_blocks s \<union> tool_blocks s) =
      Some (cv_block s' + (if cv_text_open s' then 1 else 0), text_blocks s' \<union> tool_blocks s)"
  shows "blocks_ok s'"
proof -
  have at: "tool_at s' = tool_at s" using assms(3) by (simp add: tool_at_def fun_eq_iff)
  then have "tool_blocks s' = tool_blocks s" by (simp add: tool_blocks_def)
  then show ?thesis using assms(1-5) at blocks_okD(3) [OF assms(1)] unfolding blocks_ok_def
    by (simp add: block_run_snoc [OF blocks_okD(1) [OF assms(1)]]) (metis order.strict_trans2)
qed

lemma all_started_tools: "cv_tools s' = cv_tools s \<Longrightarrow> all_started x s' = all_started x s"
  by (simp add: all_started_def tool_at_def)

lemma open_text_ok: "in_text s \<Longrightarrow> in_text (open_text s) \<and> cv_text_open (open_text s)"
  using blocks_ok_step [of s "open_text s" "BlockStart (cv_block s) TextBlock"] all_started_tools [of "open_text s" s None]
  by (auto simp: in_text_def open_text_def text_blocks_def kind_of_block_def)

lemma emit_text_ok:
  assumes "in_text s"
  shows "in_text (emit_text c s)"
proof -
  have t: "in_text (open_text s)" "cv_text_open (open_text s)" using open_text_ok [OF assms] by simp_all
  then have "blocks_ok (emit_text c s)"
    using blocks_ok_step [of "open_text s" "emit_text c s" "BlockDelta (cv_block (open_text s)) (TextDelta c)"]
    by (simp add: in_text_def emit_text_def Let_def text_blocks_def kind_of_delta_def)
  with t show ?thesis by (simp add: in_text_def emit_text_def Let_def)
qed

lemma tool_below: "blocks_ok s \<Longrightarrow> p \<in> tool_blocks s \<Longrightarrow> fst p < cv_block s"
  using blocks_okD(3) by (auto simp: tool_blocks_def running_def)

lemma close_text_ok:
  assumes "in_text s"
  shows "in_tools None (close_text s)"
proof (cases "cv_text_open s")
  case False
  with assms show ?thesis by (simp add: close_text_def in_text_def in_tools_def)
next
  case True
  have ok: "blocks_ok s" using assms by (simp add: in_text_def)
  have "{p \<in> insert (cv_block s, TextKind) (tool_blocks s). fst p \<noteq> cv_block s} = tool_blocks s"
    using tool_below [OF ok] by fastforce
  then have "blocks_ok (close_text s)"
    using blocks_ok_step [OF ok, of "close_text s" "BlockStop (cv_block s)"] True
    by (simp add: close_text_def text_blocks_def)
  moreover have "all_started None (close_text s)" "\<not> cv_text_open (close_text s)"
    using assms True by (simp_all add: in_text_def close_text_def)
  ultimately show ?thesis by (simp add: in_tools_def)
qed

lemma json_delta_ok:
  assumes "blocks_ok s" "tool_at s k = Some t" "running t"
  shows "blocks_ok (emit (BlockDelta (tb_index t) (JsonDelta a)) s)"
proof -
  have "(tb_index t, ToolKind) \<in> tool_blocks s" using assms by (auto simp: tool_blocks_def)
  then show ?thesis using blocks_ok_step [OF assms(1)] by (simp add: kind_of_delta_def)
qed

lemma open_tool_ok:
  assumes "blocks_ok s" "\<not> cv_text_open s" "tool_at s k = Some t" "\<not> tb_started t"
  shows "blocks_ok (open_tool k t s) \<and> \<not> cv_text_open (open_tool k t s)"
proof -
  define t' where "t' = t\<lparr>tb_index := cv_block s, tb_started := True\<rparr>"
  define s' where "s' = open_tool k t s"
  have t': "running t'" "tb_index t' = cv_block s" "tb_started t'" "\<not> tb_stopped t'"
    using assms(4) blocks_okD(4) [OF assms(1,3)] by (auto simp: t'_def running_def)
  have at: "tool_at s' j = (if j = k then Some t' else tool_at s j)" for j
    by (simp add: s'_def open_tool_def t'_def)
  have "tool_blocks s' = tool_blocks (put_tool k t' s)" unfolding tool_blocks_def by (simp add: at)
  also have "\<dots> = insert (cv_block s, ToolKind) (tool_blocks s)"
    unfolding tool_blocks_put tool_blocks_split [OF assms(3)] using t' assms(4) by (simp add: running_def)
  finally have blocks: "tool_blocks s' = insert (cv_block s, ToolKind) (tool_blocks s)" .
  have "blocks_ok s'"
  proof (rule blocks_okI)
    show "block_run (cv_events s') (0, {}) =
        Some (cv_block s' + (if cv_text_open s' then 1 else 0), text_blocks s' \<union> tool_blocks s')"
      using blocks assms(2) block_run_snoc [OF blocks_okD(1) [OF assms(1)]]
      by (simp add: s'_def open_tool_def text_blocks_def kind_of_block_def)
    show "od_ok (cv_tools s')" using blocks_okD(2) [OF assms(1)] by (simp add: s'_def open_tool_def)
    have block: "cv_block s' = Suc (cv_block s)" by (simp add: s'_def open_tool_def)
    fix j u assume u: "tool_at s' j = Some u"
    show "tb_started u \<Longrightarrow> tb_index u < cv_block s'" "tb_stopped u \<Longrightarrow> tb_started u"
      using u t' blocks_okD(3,4) [OF assms(1), of j] unfolding block at by (auto simp: less_Suc_eq split: if_splits)
    fix j' u' assume u': "tool_at s' j' = Some u'" "tb_started u" "tb_started u'" "tb_index u = tb_index u'"
    show "j = j'"
      using u u' t' blocks_okD(3) [OF assms(1), of j u] blocks_okD(3) [OF assms(1), of j' u']
        blocks_okD(5) [OF assms(1), of j u j' u'] unfolding at by (auto split: if_splits)
  qed
  with assms(2) show ?thesis by (simp add: s'_def open_tool_def)
qed

lemma stop_tool_ok:
  assumes "blocks_ok s" "\<not> cv_text_open s" "tool_at s k = Some t" "running t"
  shows "blocks_ok (emit (BlockStop (tb_index t)) (put_tool k (t\<lparr>tb_stopped := True\<rparr>) s))"
proof -
  define s' where "s' = emit (BlockStop (tb_index t)) (put_tool k (t\<lparr>tb_stopped := True\<rparr>) s)"
  have at: "tool_at s' j = (if j = k then Some (t\<lparr>tb_stopped := True\<rparr>) else tool_at s j)" for j by (simp add: s'_def)
  have old: "tool_blocks s = insert (tb_index t, ToolKind) (other_blocks s k)"
    using assms(4) unfolding tool_blocks_split [OF assms(3)] by simp
  have new: "tool_blocks s' = other_blocks s k" by (simp add: s'_def tool_blocks_put running_def)
  have started: "tb_started t" using assms(4) by (simp add: running_def)
  have "\<forall>p\<in>other_blocks s k. fst p \<noteq> tb_index t"
    using blocks_okD(5) [OF assms(1) _ assms(3) _ started] unfolding other_blocks_def running_def by auto
  then have "{p \<in> tool_blocks s. fst p \<noteq> tb_index t} = other_blocks s k" unfolding old by auto
  moreover have "tb_index t \<in> fst ` tool_blocks s" unfolding old by simp
  ultimately have step: "block_step (BlockStop (tb_index t)) (cv_block s, tool_blocks s) = Some (cv_block s, other_blocks s k)"
    by simp
  have "blocks_ok s'"
  proof (rule blocks_okI)
    show "block_run (cv_events s') (0, {}) =
        Some (cv_block s' + (if cv_text_open s' then 1 else 0), text_blocks s' \<union> tool_blocks s')"
      using step new assms(2) block_run_snoc [OF blocks_okD(1) [OF assms(1)]] by (simp add: s'_def text_blocks_def)
    show "od_ok (cv_tools s')" using blocks_okD(2) [OF assms(1)] by (simp add: s'_def)
    have block: "cv_block s' = cv_block s" by (simp add: s'_def)
    have old_tool: "tool_at s' j = Some u \<Longrightarrow>
        \<exists>v. tool_at s j = Some v \<and> tb_index u = tb_index v \<and> tb_started u = tb_started v" for j u
      using assms(3) unfolding at by (auto split: if_splits)
    fix j u assume u: "tool_at s' j = Some u"
    show "tb_started u \<Longrightarrow> tb_index u < cv_block s'" "tb_stopped u \<Longrightarrow> tb_started u"
      using u started assms(3) blocks_okD(3,4) [OF assms(1), of j] unfolding block at by (auto split: if_splits)
    fix j' u' assume u': "tool_at s' j' = Some u'" "tb_started u" "tb_started u'" "tb_index u = tb_index u'"
    show "j = j'"
      using old_tool [OF u] old_tool [OF u'(1)] u'(2-4) blocks_okD(5) [OF assms(1), of j _ j'] by auto
  qed
  then show ?thesis by (simp only: s'_def)
qed

section \<open>Every operation keeps the invariant\<close>

lemmas triple_rules = triple_bind triple_seq triple_when triple_lift triple_read triple_mod triple_ret

lemma take_usage_keeps: "triple in_text (take_usage data) (\<lambda>_. in_text) stoppable"
  unfolding take_usage_def
  by (intro triple_bind [where R = "\<lambda>_. in_text"] triple_seq [where R = in_text] triple_when triple_lift triple_read triple_mod)
    (simp_all add: phases(1), simp_all add: in_text_def)

lemma take_text_keeps: "triple in_text (take_text c) (\<lambda>_. in_text) stoppable"
  unfolding take_text_def
  by (intro triple_bind [where R = "\<lambda>_. in_text"] triple_when triple_read triple_mod) (simp_all add: emit_text_ok)

lemma in_tools_put_new:
  assumes "in_tools None s" "tool_at s k = None"
  shows "in_tools (Some k) (put_tool k (new_tool i name) s)"
  using assms blocks_ok_put_new by (auto simp: in_tools_def all_started_def)

lemma od_has_tool: "od_has (cv_tools s) k \<longleftrightarrow> tool_at s k \<noteq> None"
  by (simp add: od_has_def tool_at_def)

lemma in_tools_ids [simp]: "in_tools x (s\<lparr>cv_ids := d\<rparr>) = in_tools x s"
  by (simp add: in_tools_def)

lemma find_tool_call_keeps:
  assumes fresh: "\<And>ks. PStr (''toolu_'' @ fresh ks) \<notin> set ks"
  shows "triple (in_tools None) (find_tool_call fresh index call_id name) (\<lambda>k. in_tools (Some k)) stoppable"
proof (cases "truthy call_id")
  case True
  then show ?thesis
    unfolding find_tool_call_def
    by (simp, intro triple_bind [where R = "\<lambda>_. in_tools None"] triple_bind [where R = "\<lambda>_. in_tools (Some k)" for k]
        triple_seq [where R = "in_tools (Some k)" for k] triple_lift triple_mod triple_ret)
      (auto simp: phases od_has_tool in_tools_put_new)
next
  case False
  have new: "in_tools (Some k) (put_tool k (new_tool k name) s)"
    if "in_tools None s" "k = PStr (''toolu_'' @ fresh (od_keys (cv_tools s)))" for s k
  proof (rule in_tools_put_new [OF that(1)])
    show "tool_at s k = None" using fresh [of "od_keys (cv_tools s)"] unfolding that(2) od_keys_def tool_at_def
      by (simp add: map_of_eq_None_iff)
  qed
  show ?thesis
    using False new phases(2,4) unfolding find_tool_call_def
    by (auto simp: triple_def abind_def aseq_def act_simps split: sum.splits option.splits)
qed

lemma at_tool_keeps:
  assumes "\<And>t. triple (\<lambda>s. P s \<and> tool_at s k = Some t) (f t) Q E" and "\<And>s. P s \<Longrightarrow> E s"
  shows "triple P (at_tool k f) Q E"
  using assms unfolding triple_def at_tool_def tool_at_def by (simp split: option.splits)

lemma name_tool_keeps: "triple (in_tools (Some k)) (name_tool k name) (\<lambda>_. in_tools (Some k)) stoppable"
proof -
  have "in_tools (Some k) (put_tool k (t\<lparr>tb_name := name\<rparr>) s)" if "in_tools (Some k) s" "tool_at s k = Some t" for s t
    using that blocks_ok_put_same [of s k t "t\<lparr>tb_name := name\<rparr>"] by (auto simp: in_tools_def all_started_def)
  then show ?thesis
    unfolding name_tool_def by (intro at_tool_keeps triple_when triple_mod) (auto simp: phases)
qed

lemma all_started_at: "all_started None s \<longleftrightarrow>
    all_started (Some k) s \<and> (\<forall>t. tool_at s k = Some t \<longrightarrow> truthy (tb_name t) \<longrightarrow> tb_started t)"
  unfolding all_started_def by (metis option.distinct(1) option.inject)

lemma open_tool_started:
  assumes "in_tools (Some k) s" "tool_at s k = Some t" "\<not> tb_started t"
  shows "in_tools None ((open_tool k t s)\<lparr>cv_has_tools := True\<rparr>)"
proof -
  have "tool_at (open_tool k t s) j = (if j = k then Some (t\<lparr>tb_index := cv_block s, tb_started := True\<rparr>) else tool_at s j)" for j
    by (simp add: open_tool_def)
  then have "all_started None (open_tool k t s)" using assms(1) by (auto simp: in_tools_def all_started_def)
  with open_tool_ok [of s k t] assms show ?thesis by (simp add: in_tools_def)
qed

lemma start_tool_keeps: "triple (in_tools (Some k)) (start_tool k) (\<lambda>_. in_tools None) stoppable"
  unfolding start_tool_def
proof (rule at_tool_keeps)
  fix t
  show "triple (\<lambda>s. in_tools (Some k) s \<and> tool_at s k = Some t) (awhen (\<not> tb_started t \<and> truthy (tb_name t))
      (amod (\<lambda>s. (open_tool k t s)\<lparr>cv_has_tools := True\<rparr>))) (\<lambda>_. in_tools None) stoppable"
  proof (intro triple_when triple_mod)
    fix s assume "\<not> tb_started t \<and> truthy (tb_name t)" "in_tools (Some k) s \<and> tool_at s k = Some t"
    then show "in_tools None ((open_tool k t s)\<lparr>cv_has_tools := True\<rparr>)" using open_tool_started by blast
  next
    fix s assume "\<not> (\<not> tb_started t \<and> truthy (tb_name t))" "in_tools (Some k) s \<and> tool_at s k = Some t"
    then show "in_tools None s" unfolding in_tools_def all_started_at [of s k] by auto
  qed
qed (rule phases)

lemma take_arguments_keeps: "triple (in_tools None) (take_arguments rd k arguments) (\<lambda>_. in_tools None) stoppable"
proof -
  have "in_tools None (put_tool k (t\<lparr>tb_arguments := a\<rparr>) s)" if "in_tools None s" "tool_at s k = Some t" for s t a
    using that blocks_ok_put_same [of s k t "t\<lparr>tb_arguments := a\<rparr>"] by (auto simp: in_tools_def all_started_def)
  moreover have "in_tools None (emit (BlockDelta (tb_index t) (JsonDelta a)) s)"
    if "in_tools None s" "tool_at s k = Some t" "running t" for s t a
    using that json_delta_ok [of s k t a] by (simp add: in_tools_def)
  moreover have "in_tools None (emit (BlockStop (tb_index t)) (put_tool k (t\<lparr>tb_stopped := True\<rparr>) s))"
    if "in_tools None s" "tool_at s k = Some t" "running t" for s t
    using that stop_tool_ok [of s k t] by (auto simp: in_tools_def all_started_def)
  ultimately show ?thesis
    unfolding take_arguments_def add_arguments_def stop_tool_def
    by (intro triple_when triple_bind [where R = "\<lambda>_. in_tools None"] triple_seq [where R = "in_tools None"]
        at_tool_keeps triple_lift triple_mod) (auto simp: phases)
qed

lemma take_tool_call_keeps:
  assumes "\<And>ks. PStr (''toolu_'' @ fresh ks) \<notin> set ks"
  shows "triple (in_tools None) (take_tool_call rd fresh call) (\<lambda>_. in_tools None) stoppable"
  unfolding take_tool_call_def
  by (intro triple_bind [where R = "\<lambda>k. in_tools (Some k)", OF find_tool_call_keeps [OF assms]]
      triple_seq [OF name_tool_keeps] triple_seq [OF start_tool_keeps] take_arguments_keeps
      triple_bind [where R = "\<lambda>_. in_tools None"] triple_lift) (simp_all add: phases)

lemma take_tool_calls_keeps:
  assumes "\<And>ks. PStr (''toolu_'' @ fresh ks) \<notin> set ks"
  shows "triple in_text (take_tool_calls rd fresh calls) (\<lambda>_. in_text) stoppable"
  unfolding take_tool_calls_def
  by (intro triple_when triple_seq [where R = "in_tools None"] triple_bind [where R = "\<lambda>_. in_tools None"] triple_mod
      triple_lift triple_post [OF triple_foreach] take_tool_call_keeps [OF assms])
    (simp_all add: phases close_text_ok)

lemma take_finish_keeps: "triple in_text (take_finish reason) (\<lambda>_. in_text) stoppable"
  unfolding take_finish_def
  by (intro triple_when triple_bind [where R = "\<lambda>_. in_text"] triple_lift triple_mod) (simp_all add: phases, simp_all add: in_text_def)

lemma take_line_keeps:
  assumes "\<And>ks. PStr (''toolu_'' @ fresh ks) \<notin> set ks"
  shows "triple in_text (take_line rd fresh line) (\<lambda>_. in_text) stoppable"
proof -
  have "triple in_text (take_choice rd fresh data choices) (\<lambda>_. in_text) stoppable" for data choices
    unfolding take_choice_def
    by (intro triple_bind [where R = "\<lambda>_. in_text"] triple_seq [OF take_usage_keeps] triple_seq [OF take_text_keeps]
        triple_seq [OF take_tool_calls_keeps [OF assms]] take_finish_keeps triple_lift) (simp_all add: phases)
  then have "triple in_text (take_data rd fresh data) (\<lambda>_. in_text) stoppable" for data
    unfolding take_data_def
    by (intro triple_bind [where R = "\<lambda>_. in_text"] triple_if take_usage_keeps triple_lift) (simp_all add: phases)
  then show ?thesis unfolding take_line_def by (auto split: option.splits intro: triple_ret)
qed

lemma new_conversion_ok: "in_text new_conversion"
  by (auto simp: in_text_def blocks_ok_def all_started_def new_conversion_def text_blocks_def tool_blocks_def tool_at_def)

lemma chunks_keep:
  assumes "\<And>ks. PStr (''toolu_'' @ fresh ks) \<notin> set ks"
  shows "stoppable (fst (aforeach (take_chunk rd fresh) chunks new_conversion))"
proof -
  have "triple in_text (aforeach (take_chunk rd fresh) chunks) (\<lambda>_. in_text) stoppable"
    unfolding take_chunk_def by (intro triple_foreach take_line_keeps [OF assms])
  then have "triple in_text (aforeach (take_chunk rd fresh) chunks) (\<lambda>_. stoppable) stoppable"
    by (rule triple_post) (rule phases(1))
  then show ?thesis using new_conversion_ok by (rule triple_state)
qed

section \<open>The whole stream\<close>

lemma flush_tool_ok:
  assumes "stoppable s"
  shows "stoppable (flush_tool k s)"
proof (cases "\<exists>t. tool_at s k = Some t \<and> \<not> tb_started t \<and> truthy (tb_name t)")
  case False
  then have "flush_tool k s = s" by (auto simp: flush_tool_def tool_at_def split: option.splits)
  with assms show ?thesis by simp
next
  case True
  then obtain t where t: "tool_at s k = Some t" "\<not> tb_started t" "truthy (tb_name t)" by blast
  with assms have s: "blocks_ok s" "\<not> cv_text_open s" by (auto simp: stoppable_def all_started_def)
  define t' where "t' = t\<lparr>tb_index := cv_block s, tb_started := True\<rparr>"
  have opened: "blocks_ok (open_tool k t s)" "\<not> cv_text_open (open_tool k t s)" using open_tool_ok [OF s t(1,2)] by simp_all
  have "tool_at (open_tool k t s) k = Some t'" by (simp add: open_tool_def t'_def)
  moreover have "running t'" using blocks_okD(4) [OF s(1) t(1)] t(2) by (auto simp: running_def t'_def)
  ultimately have "blocks_ok (emit (BlockDelta (tb_index t') (JsonDelta a)) (open_tool k t s))" for a
    using json_delta_ok [OF opened(1)] by blast
  then have "blocks_ok (emit (BlockDelta (cv_block s) (JsonDelta a)) (open_tool k t s))" for a by (simp add: t'_def)
  with opened t show ?thesis by (auto simp: flush_tool_def tool_at_def stoppable_def Let_def)
qed

lemma flush_tools_ok: "stoppable s \<Longrightarrow> stoppable (flush_tools s)"
proof -
  have "stoppable s \<Longrightarrow> stoppable (fold flush_tool ks s)" for ks
    by (induction ks arbitrary: s) (simp_all add: flush_tool_ok)
  then show "stoppable s \<Longrightarrow> stoppable (flush_tools s)" by (simp add: flush_tools_def)
qed

lemma stops_close:
  "distinct ns \<Longrightarrow> block_run (map BlockStop ns) (n, (\<lambda>i. (i, ToolKind)) ` set ns) = Some (n, {})"
proof (induction ns)
  case Nil
  then show ?case by simp
next
  case (Cons i ns)
  then have "{p \<in> (\<lambda>i. (i, ToolKind)) ` set (i # ns). fst p \<noteq> i} = (\<lambda>i. (i, ToolKind)) ` set ns" by auto
  then show ?case using Cons by (simp add: image_iff)
qed

lemma running_tools:
  assumes "blocks_ok s"
  shows "close_tools s = map BlockStop (map tb_index (filter running (map snd (cv_tools s))))"
    and "distinct (map tb_index (filter running (map snd (cv_tools s))))"
    and "(\<lambda>i. (i, ToolKind)) ` set (map tb_index (filter running (map snd (cv_tools s)))) = tool_blocks s"
proof -
  show "close_tools s = map BlockStop (map tb_index (filter running (map snd (cv_tools s))))" by (simp add: close_tools_def)
  have keys: "distinct (map fst (cv_tools s))" using blocks_okD(2) [OF assms] by (simp add: od_ok_def)
  then have at: "p \<in> set (cv_tools s) \<longleftrightarrow> tool_at s (fst p) = Some (snd p)" for p by (simp add: tool_at_def)
  have "inj_on (tb_index \<circ> snd) (set (filter (running \<circ> snd) (cv_tools s)))"
  proof (rule inj_onI)
    fix p q assume "p \<in> set (filter (running \<circ> snd) (cv_tools s))" "q \<in> set (filter (running \<circ> snd) (cv_tools s))"
      "(tb_index \<circ> snd) p = (tb_index \<circ> snd) q"
    then have pq: "tool_at s (fst p) = Some (snd p)" "tool_at s (fst q) = Some (snd q)" "tb_started (snd p)" "tb_started (snd q)"
      "tb_index (snd p) = tb_index (snd q)" by (auto simp: at running_def)
    then have "fst p = fst q" using blocks_okD(5) [OF assms] by blast
    with pq(1,2) show "p = q" by (simp add: prod_eq_iff)
  qed
  moreover have "distinct (filter (running \<circ> snd) (cv_tools s))" using keys by (simp add: distinct_map)
  ultimately show "distinct (map tb_index (filter running (map snd (cv_tools s))))"
    unfolding filter_map map_map by (simp only: distinct_map)
  show "(\<lambda>i. (i, ToolKind)) ` set (map tb_index (filter running (map snd (cv_tools s)))) = tool_blocks s"
    unfolding tool_blocks_def using at by (fastforce simp: image_iff)
qed

text \<open>C27 Whatever the chunks of a chat completion's stream hold, malformed ones and those that raise
  included, the events are one message: its start, then blocks that are numbered in the order in
  which they start, each with its deltas, all of its kind, between its start and its only stop, and
  at the end, when every block is closed, the message's delta and its stop.\<close>

theorem anthropic_stream_protocol:
  assumes "\<And>ks. PStr (''toolu_'' @ fresh ks) \<notin> set ks"
  shows "\<exists>blocks n reason output. openai_events rd fresh message_id model chunks =
      MessageStart (''msg_'' @ message_id) model # blocks @ [MessageDelta reason output, MessageStop] \<and>
      block_run blocks (0, {}) = Some (n, {})"
proof -
  define s where "s = flush_tools (fst (aforeach (take_chunk rd fresh) chunks new_conversion))"
  define closing where "closing = (if cv_text_open s then [BlockStop (cv_block s)] else [])"
  have "stoppable s" unfolding s_def by (rule flush_tools_ok [OF chunks_keep [OF assms]])
  then have ok: "blocks_ok s" by (simp add: stoppable_def)
  define n where "n = cv_block s + (if cv_text_open s then 1 else 0)"
  have "{p \<in> insert (cv_block s, TextKind) (tool_blocks s). fst p \<noteq> cv_block s} = tool_blocks s"
    using tool_below [OF ok] by fastforce
  then have "block_run (cv_events s @ closing) (0, {}) = Some (n, tool_blocks s)"
    using blocks_okD(1) [OF ok] by (auto simp: block_run_append closing_def text_blocks_def n_def)
  then have "block_run ((cv_events s @ closing) @ close_tools s) (0, {}) = block_run (close_tools s) (n, tool_blocks s)"
    by (rule block_run_append)
  also have "\<dots> = Some (n, {})"
    using stops_close [OF running_tools(2) [OF ok], of n] unfolding running_tools(1,3) [OF ok] .
  finally have "block_run (cv_events s @ closing @ close_tools s) (0, {}) = Some (n, {})" by simp
  moreover have "openai_events rd fresh message_id model chunks = MessageStart (''msg_'' @ message_id) model #
      (cv_events s @ closing @ close_tools s) @ [MessageDelta (cv_stop_reason s) (cv_output s), MessageStop]"
    by (simp add: openai_events_def s_def closing_def Let_def)
  ultimately show ?thesis by blast
qed

definition unused_id :: "pv list \<Rightarrow> string" where
  "unused_id ks = replicate (Suc (sum_list (map (\<lambda>k. case k of PStr s \<Rightarrow> length s | _ \<Rightarrow> 0) ks))) (CHR ''x'')"

lemma unused_id_fresh: "PStr (''toolu_'' @ unused_id ks) \<notin> set ks"
proof
  assume "PStr (''toolu_'' @ unused_id ks) \<in> set ks"
  then have "length (''toolu_'' @ unused_id ks) \<le> sum_list (map (\<lambda>k. case k of PStr s \<Rightarrow> length s | _ \<Rightarrow> 0) ks)"
    using member_le_sum_list [of "length (''toolu_'' @ unused_id ks)"] by (force simp: image_iff)
  then show False by (simp add: unused_id_def)
qed

text \<open>A tool call whose name comes after its arguments\<close>

definition late_name :: "string list" where
  "late_name = [''data: {\"choices\": [{\"delta\": {\"tool_calls\": [{\"index\": 0, \"id\": \"c\", '' @
       ''\"function\": {\"arguments\": \"{}\"}}]}}]}'',
     ''data: {\"choices\": [{\"delta\": {\"tool_calls\": [{\"index\": 0, \"function\": {\"name\": \"f\"}}]}}]}'']"

theorem anthropic_stream_protocol_witness:
  "\<exists>blocks n. block_run blocks (0, {}) = Some (n, {}) \<and>
     hd (openai_events (\<lambda>_. 0) unused_id ''m'' PNone late_name) = MessageStart ''msg_m'' PNone"
  using anthropic_stream_protocol [of unused_id "\<lambda>_. 0" "''m''" PNone "late_name", OF unused_id_fresh]
  by auto

text \<open>Arguments that a stream sends before the name of their tool are kept, but never sent on: the
  block that starts with the name gets only what comes later.\<close>

lemma arguments_before_name_lost:
  "openai_events (\<lambda>_. 0) unused_id ''m'' PNone late_name =
     [MessageStart ''msg_m'' PNone, BlockStart 0 (ToolBlock (PStr ''c'') (PStr ''f'')), BlockStop 0,
      MessageDelta ''end_turn'' (PInt 0), MessageStop]"
  by code_simp

end
