(* ===== verification/Anthropic_Requests.thy ===== *)
theory Anthropic_Requests
  imports Chat_Messages Json
begin

text \<open>
  Requests between the two chat formats, \<^verbatim>\<open>backend/openlaunch/utils/anthropic.py\<close>: the request of a
  chat completion as one of the Messages API (\<open>convert_openai_to_anthropic_payload\<close>) and back
  (\<open>convert_anthropic_to_openai_payload\<close>). The ids that are made up for tool calls without one are
  an argument, by the places of the message and of the call.
\<close>

section \<open>Blocks of content\<close>

text \<open>\<^verbatim>\<open>s.split(sep, 1)\<close> where \<^verbatim>\<open>sep in s\<close>\<close>

fun split_once :: "string \<Rightarrow> string \<Rightarrow> (string \<times> string) option" where
  "split_once sep [] = (if sep = [] then Some ([], []) else None)"
| "split_once sep (c # s) =
     (if py_startswith (c # s) sep then Some ([], drop (length sep) (c # s))
      else map_option (\<lambda>(a, b). (c # a, b)) (split_once sep s))"

definition text_block :: "pv \<Rightarrow> pdict" where
  "text_block t = [(''type'', PStr ''text''), (''text'', t)]"

definition copy_cache_control :: "pv \<Rightarrow> pdict \<Rightarrow> pdict" where
  "copy_cache_control source target = (case source of
      PDict d \<Rightarrow> (case od_get d ''cache_control'' of None \<Rightarrow> target | Some v \<Rightarrow> od_set ''cache_control'' v target)
    | _ \<Rightarrow> target)"

definition has_cache_control :: "pdict list \<Rightarrow> bool" where
  "has_cache_control blocks = list_ex (\<lambda>b. od_has b ''cache_control'') blocks"

definition finalize_openai_content :: "pdict list \<Rightarrow> pv" where
  "finalize_openai_content blocks = (case blocks of
      [] \<Rightarrow> PStr []
    | [b] \<Rightarrow> (if od_getd b ''type'' PNone = PStr ''text'' \<and> \<not> has_cache_control blocks
        then od_getd b ''text'' (PStr []) else PList (map PDict blocks))
    | _ \<Rightarrow> PList (map PDict blocks))"

definition image_source :: "string \<Rightarrow> pdict" where
  "image_source url = (case split_once '';base64,'' url of
      Some (header, data) \<Rightarrow>
        (if py_startswith url ''data:''
         then [(''type'', PStr ''base64''),
           (''media_type'', PStr (if drop 5 header \<noteq> [] then drop 5 header else ''image/png'')), (''data'', PStr data)]
         else [(''type'', PStr ''url''), (''url'', PStr url)])
    | None \<Rightarrow> [(''type'', PStr ''url''), (''url'', PStr url)])"

definition part_image :: "pdict \<Rightarrow> pv" where
  "part_image part = (let image = od_getd part ''image_url'' (od_getd part ''image'' (PStr []))
     in case image of PDict d \<Rightarrow> od_getd d ''url'' (PStr []) | _ \<Rightarrow> image)"

definition openai_part_to_anthropic :: "pv \<Rightarrow> pdict option" where
  "openai_part_to_anthropic part = (case part of
      PStr s \<Rightarrow> Some (text_block part)
    | PDict d \<Rightarrow> (let part_type = od_getd d ''type'' (PStr ''text'') in
        if part_type \<in> {PStr ''text'', PStr ''input_text''}
        then Some (copy_cache_control part (text_block (od_getd d ''text'' (PStr []))))
        else if part_type \<in> {PStr ''image_url'', PStr ''input_image''}
        then (case part_image d of
            PStr url \<Rightarrow> Some (copy_cache_control part
              [(''type'', PStr ''image''), (''source'', PDict (image_source url))])
          | _ \<Rightarrow> None)
        else None)
    | _ \<Rightarrow> None)"

datatype content = Whole string | Blocks "pdict list"

definition openai_content_to_anthropic :: "(rat \<Rightarrow> string) \<Rightarrow> pv \<Rightarrow> content" where
  "openai_content_to_anthropic f v = (case v of
      PStr s \<Rightarrow> Whole s
    | PList parts \<Rightarrow> Blocks (List.map_filter openai_part_to_anthropic parts)
    | PNone \<Rightarrow> Whole []
    | _ \<Rightarrow> Whole (py_str f v))"

definition content_value :: "content \<Rightarrow> pv" where
  "content_value c = (case c of Whole s \<Rightarrow> PStr s | Blocks bs \<Rightarrow> PList (map PDict bs))"

definition anthropic_content_blocks :: "content \<Rightarrow> pdict list" where
  "anthropic_content_blocks c = (case c of
      Blocks bs \<Rightarrow> bs
    | Whole s \<Rightarrow> (if s = [] then [] else [text_block (PStr s)]))"

section \<open>To the Messages API\<close>

text \<open>The messages that are built: a role and its content\<close>

type_synonym turn = "string \<times> content"

definition append_anthropic_message :: "turn list \<Rightarrow> string \<Rightarrow> content \<Rightarrow> turn list" where
  "append_anthropic_message turns role c =
     (if turns \<noteq> [] \<and> fst (last turns) = role
      then butlast turns @ [(role, Blocks (anthropic_content_blocks (snd (last turns)) @ anthropic_content_blocks c))]
      else turns @ [(role, c)])"

definition call_input :: "(string \<Rightarrow> rat) \<Rightarrow> pv \<Rightarrow> pv" where
  "call_input rd arguments =
     (let v = (case arguments of
          PStr s \<Rightarrow> (case json_loads rd s of Inl _ \<Rightarrow> PDict [(''value'', arguments)] | Inr v \<Rightarrow> v)
        | _ \<Rightarrow> arguments)
      in case v of PDict d \<Rightarrow> v | _ \<Rightarrow> PDict [])"

definition tool_use_block :: "(string \<Rightarrow> rat) \<Rightarrow> string \<Rightarrow> pv \<Rightarrow> pdict res" where
  "tool_use_block rd uuid call =
     rbind (pget call ''function'' PNone) (\<lambda>fn.
     rbind (pget (py_or fn (PDict [])) ''arguments'' (PDict [])) (\<lambda>arguments.
     rbind (pget call ''id'' PNone) (\<lambda>i.
     rbind (pget (py_or fn (PDict [])) ''name'' (PStr [])) (\<lambda>name.
       Inr [(''type'', PStr ''tool_use''), (''id'', py_or i (PStr (''toolu_'' @ uuid))), (''name'', name),
         (''input'', call_input rd arguments)]))))"

definition assistant_content :: "float_ops \<Rightarrow> (nat \<Rightarrow> string) \<Rightarrow> pv \<Rightarrow> pv \<Rightarrow> content res" where
  "assistant_content fo uuid m c =
     rbind (pget m ''tool_calls'' PNone) (\<lambda>calls.
     rbind (piter (py_or calls (PList []))) (\<lambda>calls.
     rbind (rmapM (\<lambda>(j, call). tool_use_block (fl_read fo) (uuid j) call) (enumerate 0 calls)) (\<lambda>uses.
       let blocks = anthropic_content_blocks (openai_content_to_anthropic (fl_repr fo) c) @ uses
       in Inr (if blocks = [] then Whole [] else Blocks blocks))))"

definition tool_result_content :: "(rat \<Rightarrow> string) \<Rightarrow> pv \<Rightarrow> pv \<Rightarrow> content res" where
  "tool_result_content f m c =
     rbind (pget m ''tool_call_id'' (PStr [])) (\<lambda>i.
     rbind (pget m ''is_error'' PNone) (\<lambda>e.
       Inr (Blocks [[(''type'', PStr ''tool_result''), (''tool_use_id'', i),
         (''content'', content_value (openai_content_to_anthropic f c))] @
         (if truthy e then [(''is_error'', PBool True)] else [])])))"

definition system_blocks_of :: "(rat \<Rightarrow> string) \<Rightarrow> pv \<Rightarrow> pdict list" where
  "system_blocks_of f c = (case openai_content_to_anthropic f c of
      Whole s \<Rightarrow> [text_block (PStr s)]
    | Blocks bs \<Rightarrow> filter (\<lambda>b. od_getd b ''type'' PNone = PStr ''text'') bs)"

definition add_message ::
  "float_ops \<Rightarrow> (nat \<Rightarrow> nat \<Rightarrow> string) \<Rightarrow> pdict list \<times> turn list \<Rightarrow> nat \<times> pv \<Rightarrow> (pdict list \<times> turn list) res" where
  "add_message fo uuids acc im = (case acc of (system, turns) \<Rightarrow> (case im of (i, m) \<Rightarrow>
     rbind (pget m ''role'' (PStr ''user'')) (\<lambda>role.
     rbind (pget m ''content'' (PStr [])) (\<lambda>c.
       if role \<in> {PStr ''system'', PStr ''developer''} then Inr (system @ system_blocks_of (fl_repr fo) c, turns)
       else if role = PStr ''assistant''
       then rbind (assistant_content fo (uuids i) m c) (\<lambda>c. Inr (system, append_anthropic_message turns ''assistant'' c))
       else if role = PStr ''tool''
       then rbind (tool_result_content (fl_repr fo) m c) (\<lambda>c. Inr (system, append_anthropic_message turns ''user'' c))
       else Inr (system, append_anthropic_message turns ''user'' (openai_content_to_anthropic (fl_repr fo) c))))))"

definition turn_message :: "turn \<Rightarrow> pv" where
  "turn_message t = PDict [(''role'', PStr (fst t)), (''content'', content_value (snd t))]"

definition param_map :: "(string \<times> string) list" where
  "param_map = [(''temperature'', ''temperature''), (''top_p'', ''top_p''), (''top_k'', ''top_k''), (''stream'', ''stream''),
     (''stop'', ''stop_sequences''), (''service_tier'', ''service_tier''), (''thinking'', ''thinking'')]"

definition copy_params :: "pdict \<Rightarrow> pdict \<Rightarrow> pdict" where
  "copy_params source target = fold (\<lambda>(k, k') t. case od_get source k of
      Some v \<Rightarrow> (if v \<noteq> PNone then od_set k' v t else t) | None \<Rightarrow> t) param_map target"

definition copy_metadata :: "(rat \<Rightarrow> string) \<Rightarrow> pdict \<Rightarrow> pdict \<Rightarrow> pdict" where
  "copy_metadata f source target = (case od_getd source ''metadata'' PNone of
      PDict d \<Rightarrow> (let u = od_getd d ''user_id'' PNone in
        if truthy u then od_set ''metadata'' (PDict [(''user_id'', PStr (py_str f u))]) target else target)
    | _ \<Rightarrow> target)"

definition anthropic_tool :: "pv \<Rightarrow> pdict option" where
  "anthropic_tool tool = (case (case tool of PDict d \<Rightarrow> od_getd d ''function'' tool | _ \<Rightarrow> PDict []) of
      PDict fn \<Rightarrow> (let name = od_getd fn ''name'' PNone; description = od_getd fn ''description'' PNone in
        if \<not> truthy name then None
        else Some (copy_cache_control tool ([(''name'', name),
          (''input_schema'', py_or (od_getd fn ''parameters'' PNone) (py_or (od_getd fn ''input_schema'' PNone)
             (PDict [(''type'', PStr ''object'')])))] @
          (if truthy description then [(''description'', description)] else []))))
    | _ \<Rightarrow> None)"

definition anthropic_tool_choice :: "pv \<Rightarrow> pdict option res" where
  "anthropic_tool_choice choice =
     (if choice = PStr ''auto'' then Inr (Some [(''type'', PStr ''auto'')])
      else if choice \<in> {PStr ''required'', PStr ''any''} then Inr (Some [(''type'', PStr ''any'')])
      else if choice = PStr ''none'' then Inr None
      else (case choice of
          PDict d \<Rightarrow> rbind (pget (py_or (od_getd d ''function'' PNone) (PDict [])) ''name'' PNone) (\<lambda>name.
            Inr (if truthy name then Some [(''type'', PStr ''tool''), (''name'', name)] else None))
        | _ \<Rightarrow> Inr None))"

definition set_opt :: "string \<Rightarrow> pv option \<Rightarrow> pdict \<Rightarrow> pdict" where
  "set_opt k v d = (case v of None \<Rightarrow> d | Some x \<Rightarrow> od_set k x d)"

definition convert_openai_to_anthropic_payload ::
  "float_ops \<Rightarrow> (nat \<Rightarrow> nat \<Rightarrow> string) \<Rightarrow> pdict \<Rightarrow> int \<Rightarrow> pdict res" where
  "convert_openai_to_anthropic_payload fo uuids p default_max_tokens =
     (let max_tokens = py_or (od_getd p ''max_completion_tokens'' PNone)
            (py_or (od_getd p ''max_tokens'' PNone) (PInt default_max_tokens)) in
      rbind (piter (od_getd p ''messages'' (PList []))) (\<lambda>ms.
      rbind (rfoldM (add_message fo uuids) ([], []) (enumerate 0 ms)) (\<lambda>(system, turns).
      let payload = [(''model'', od_getd p ''model'' (PStr [])), (''max_tokens'', max_tokens),
            (''messages'', PList (map turn_message turns))];
          payload = set_opt ''system'' (if system = [] then None else Some (PList (map PDict system))) payload;
          payload = copy_metadata (fl_repr fo) p (copy_params p payload) in
      rbind (piter (py_or (od_getd p ''tools'' PNone) (PList []))) (\<lambda>tools.
      let ts = List.map_filter anthropic_tool tools;
          payload = set_opt ''tools'' (if ts = [] then None else Some (PList (map PDict ts))) payload;
          choice = od_getd p ''tool_choice'' PNone in
      rbind (if truthy choice then anthropic_tool_choice choice else Inr None) (\<lambda>c.
        Inr (set_opt ''tool_choice'' (map_option PDict c) payload))))))"

section \<open>From the Messages API\<close>

definition system_part :: "pv \<Rightarrow> pdict option" where
  "system_part block = (case block of
      PDict d \<Rightarrow> (if od_getd d ''type'' PNone = PStr ''text''
        then Some (copy_cache_control block (text_block (od_getd d ''text'' (PStr [])))) else None)
    | PStr s \<Rightarrow> Some (text_block block)
    | _ \<Rightarrow> None)"

definition system_message :: "pv \<Rightarrow> message list" where
  "system_message system =
     (if \<not> truthy system then []
      else (case system of
          PStr s \<Rightarrow> [[(''role'', PStr ''system''), (''content'', system)]]
        | PList blocks \<Rightarrow> [[(''role'', PStr ''system''),
            (''content'', finalize_openai_content (List.map_filter system_part blocks))]]
        | _ \<Rightarrow> []))"

text \<open>An image block as a part: nothing for a source of another type\<close>

definition image_part :: "(rat \<Rightarrow> string) \<Rightarrow> pv \<Rightarrow> pdict option res" where
  "image_part f block =
     rbind (pget block ''source'' (PDict [])) (\<lambda>source.
     rbind (pget source ''type'' PNone) (\<lambda>t.
       if t = PStr ''base64''
       then rbind (pget source ''media_type'' (PStr ''image/png'')) (\<lambda>media. rbind (pget source ''data'' (PStr [])) (\<lambda>data.
         Inr (Some (copy_cache_control block [(''type'', PStr ''image_url''), (''image_url'', PDict [(''url'',
           PStr (''data:'' @ py_str f media @ '';base64,'' @ py_str f data))])]))))
       else if t = PStr ''url''
       then rbind (pget source ''url'' (PStr [])) (\<lambda>url.
         Inr (Some (copy_cache_control block [(''type'', PStr ''image_url''), (''image_url'', PDict [(''url'', url)])])))
       else Inr None))"

definition text_part :: "pv \<Rightarrow> pdict res" where
  "text_part block = rbind (pget block ''text'' (PStr [])) (\<lambda>t. Inr (copy_cache_control block (text_block t)))"

definition document_part :: "(rat \<Rightarrow> string) \<Rightarrow> pdict \<Rightarrow> pdict res" where
  "document_part f d =
     (let title = od_getd d ''title'' (PStr ''Document''); context = od_getd d ''context'' (PStr []) in
      rbind (pget (od_getd d ''source'' (PDict [])) ''type'' PNone) (\<lambda>t.
      rbind (pget (od_getd d ''source'' (PDict [])) ''data'' PNone) (\<lambda>data.
        Inr (text_block (PStr (''[Document: '' @ py_str f title @ '']'' @
          (if truthy context then nl @ py_str f context else []) @
          (if t = PStr ''text'' \<and> truthy data then nl @ py_str f data else [])))))))"

definition search_text :: "pv \<Rightarrow> pv option" where
  "search_text block = (case block of
      PDict d \<Rightarrow> (if od_getd d ''type'' PNone = PStr ''text'' then Some (od_getd d ''text'' (PStr [])) else None)
    | _ \<Rightarrow> None)"

definition search_part :: "(rat \<Rightarrow> string) \<Rightarrow> pdict \<Rightarrow> pdict res" where
  "search_part f d =
     (let title = od_getd d ''title'' (PStr []); url = od_getd d ''source'' (PStr []) in
      rbind (piter (od_getd d ''content'' (PList []))) (\<lambda>blocks.
      rbind (join_values nl (List.map_filter search_text blocks)) (\<lambda>body.
        Inr (text_block (PStr (''[Search Result: '' @ py_str f title @ '']'' @
          (if truthy url then nl @ ''Source: '' @ py_str f url else []) @
          (if body \<noteq> [] then nl @ body else [])))))))"

text \<open>One part of a tool's result\<close>

definition result_part :: "(rat \<Rightarrow> string) \<Rightarrow> pv \<Rightarrow> pdict option res" where
  "result_part f block = (case block of
      PDict d \<Rightarrow> (let t = od_getd d ''type'' (PStr ''text'') in
        if t = PStr ''text'' then rmap Some (text_part block)
        else if t = PStr ''image'' then image_part f block
        else if t = PStr ''document'' then rmap Some (document_part f d)
        else if t = PStr ''search_result'' then rmap Some (search_part f d)
        else Inr None)
    | _ \<Rightarrow> Inr None)"

definition result_content :: "(rat \<Rightarrow> string) \<Rightarrow> pv \<Rightarrow> content res" where
  "result_content f c = (case c of
      PStr s \<Rightarrow> Inr (Whole s)
    | PList blocks \<Rightarrow> rbind (rmapM (result_part f) blocks) (\<lambda>parts. let parts = somes parts in
        if list_all (\<lambda>p. od_getd p ''type'' PNone = PStr ''text'') parts \<and> \<not> has_cache_control parts
        then rmap Whole (join_values nl (map (\<lambda>p. od_getd p ''text'' (PStr [])) parts))
        else Inr (if parts \<noteq> [] then Blocks parts else Whole []))
    | _ \<Rightarrow> Inr (Whole []))"

definition mark_error :: "pv \<Rightarrow> content \<Rightarrow> content" where
  "mark_error e c =
     (if truthy e then (case c of Whole s \<Rightarrow> Whole (''Error: '' @ s) | Blocks ps \<Rightarrow> Blocks (text_block (PStr ''Error: '') # ps))
      else c)"

definition tool_message :: "(rat \<Rightarrow> string) \<Rightarrow> pv \<Rightarrow> message res" where
  "tool_message f block =
     rbind (pget block ''content'' (PStr [])) (\<lambda>c.
     rbind (result_content f c) (\<lambda>c.
     rbind (pget block ''is_error'' PNone) (\<lambda>e.
     rbind (pget block ''tool_use_id'' (PStr [])) (\<lambda>i.
       Inr [(''role'', PStr ''tool''), (''tool_call_id'', i), (''content'', content_value (mark_error e c))]))))"

definition openai_call :: "(rat \<Rightarrow> string) \<Rightarrow> pv \<Rightarrow> pdict res" where
  "openai_call f block =
     rbind (pget block ''id'' (PStr [])) (\<lambda>i. rbind (pget block ''name'' (PStr [])) (\<lambda>name.
     rbind (pget block ''input'' PNone) (\<lambda>input. rbind (pget block ''input'' (PStr ''{}'')) (\<lambda>shown.
       Inr [(''id'', i), (''type'', PStr ''function''), (''function'', PDict [(''name'', name),
         (''arguments'', PStr (if is_dict input then json_dumps True f input else py_str f shown))])]))))"

text \<open>The parts, the calls and the tool messages that the blocks of a message give\<close>

record unpacked =
  up_tools :: "message list"
  up_parts :: "pdict list"
  up_calls :: "pdict list"

definition unpack_block :: "(rat \<Rightarrow> string) \<Rightarrow> unpacked \<Rightarrow> pv \<Rightarrow> unpacked res" where
  "unpack_block f u block =
     rbind (pget block ''type'' (PStr ''text'')) (\<lambda>t.
       if t = PStr ''text'' then rmap (\<lambda>p. u\<lparr>up_parts := up_parts u @ [p]\<rparr>) (text_part block)
       else if t = PStr ''image''
       then rmap (\<lambda>p. u\<lparr>up_parts := up_parts u @ (case p of None \<Rightarrow> [] | Some p \<Rightarrow> [p])\<rparr>) (image_part f block)
       else if t = PStr ''tool_use'' then rmap (\<lambda>c. u\<lparr>up_calls := up_calls u @ [c]\<rparr>) (openai_call f block)
       else if t = PStr ''tool_result'' then rmap (\<lambda>m. u\<lparr>up_tools := up_tools u @ [m]\<rparr>) (tool_message f block)
       else Inr u)"

definition unpacked_messages :: "pv \<Rightarrow> unpacked \<Rightarrow> message list" where
  "unpacked_messages role u = up_tools u @
     (if up_calls u \<noteq> []
      then [[(''role'', role), (''content'', finalize_openai_content (up_parts u)),
             (''tool_calls'', PList (map PDict (up_calls u)))]]
      else if up_parts u \<noteq> [] then [[(''role'', role), (''content'', finalize_openai_content (up_parts u))]]
      else [])"

definition no_blocks :: unpacked where
  "no_blocks = \<lparr>up_tools = [], up_parts = [], up_calls = []\<rparr>"

definition openai_messages :: "(rat \<Rightarrow> string) \<Rightarrow> pv \<Rightarrow> message list res" where
  "openai_messages f m =
     rbind (pget m ''role'' (PStr ''user'')) (\<lambda>role.
     rbind (pget m ''content'' PNone) (\<lambda>c. case c of
        PStr s \<Rightarrow> Inr [[(''role'', role), (''content'', c)]]
      | PList blocks \<Rightarrow> rmap (unpacked_messages role) (rfoldM (unpack_block f) no_blocks blocks)
      | _ \<Rightarrow> Inr [[(''role'', role), (''content'', if truthy c then PStr (py_str f c) else PStr [])]]))"

definition anthropic_params :: "(string \<times> string) list" where
  "anthropic_params = [(''temperature'', ''temperature''), (''top_p'', ''top_p''), (''top_k'', ''top_k''),
     (''stop_sequences'', ''stop''), (''stream'', ''stream''), (''metadata'', ''metadata''), (''service_tier'', ''service_tier''),
     (''tool_profile'', ''tool_profile''), (''tool_profile_id'', ''tool_profile_id'')]"

definition openai_tool :: "pv \<Rightarrow> pdict res" where
  "openai_tool tool =
     rbind (pget tool ''name'' (PStr [])) (\<lambda>name. rbind (pget tool ''description'' (PStr [])) (\<lambda>description.
     rbind (pget tool ''input_schema'' (PDict [])) (\<lambda>schema.
       Inr (copy_cache_control tool [(''type'', PStr ''function''), (''function'', PDict [(''name'', name),
         (''description'', description), (''parameters'', schema)])]))))"

definition openai_tool_choice :: "pv \<Rightarrow> pv option" where
  "openai_tool_choice choice = (case choice of
      PDict d \<Rightarrow> (let t = od_getd d ''type'' (PStr ''auto'') in
        if t = PStr ''auto'' then Some (PStr ''auto'')
        else if t = PStr ''any'' then Some (PStr ''required'')
        else if t = PStr ''tool'' then Some (PDict [(''type'', PStr ''function''),
          (''function'', PDict [(''name'', od_getd d ''name'' (PStr []))])])
        else None)
    | _ \<Rightarrow> None)"

definition convert_anthropic_to_openai_payload :: "(rat \<Rightarrow> string) \<Rightarrow> pdict \<Rightarrow> pdict res" where
  "convert_anthropic_to_openai_payload f p =
     rbind (piter (od_getd p ''messages'' (PList []))) (\<lambda>ms.
     rbind (rmapM (openai_messages f) ms) (\<lambda>converted.
     let messages = system_message (od_getd p ''system'' PNone) @ concat converted;
         payload = [(''model'', od_getd p ''model'' (PStr [])), (''messages'', PList (map PDict messages))];
         payload = set_opt ''max_tokens'' (od_get p ''max_tokens'') payload;
         payload = fold (\<lambda>(k, k'). set_opt k' (od_get p k)) anthropic_params payload in
     rbind (case od_get p ''tools'' of
         None \<Rightarrow> Inr payload
       | Some tools \<Rightarrow> rbind (piter tools) (\<lambda>tools. rbind (rmapM openai_tool tools) (\<lambda>ts.
           Inr (od_set ''tools'' (PList (map PDict ts)) payload)))) (\<lambda>payload.
       Inr (set_opt ''tool_choice'' (Option.bind (od_get p ''tool_choice'') openai_tool_choice) payload))))"

section \<open>Turns\<close>

text \<open>The turn that a message contributes, if it is not part of the system prompt\<close>

definition message_turn :: "float_ops \<Rightarrow> (nat \<Rightarrow> nat \<Rightarrow> string) \<Rightarrow> nat \<times> pv \<Rightarrow> turn option res" where
  "message_turn fo uuids im = (case im of (i, m) \<Rightarrow>
     rbind (pget m ''role'' (PStr ''user'')) (\<lambda>role. rbind (pget m ''content'' (PStr [])) (\<lambda>c.
       if role \<in> {PStr ''system'', PStr ''developer''} then Inr None
       else if role = PStr ''assistant'' then rmap (\<lambda>c. Some (''assistant'', c)) (assistant_content fo (uuids i) m c)
       else if role = PStr ''tool'' then rmap (\<lambda>c. Some (''user'', c)) (tool_result_content (fl_repr fo) m c)
       else Inr (Some (''user'', openai_content_to_anthropic (fl_repr fo) c)))))"

text \<open>The blocks of turns with their roles\<close>

definition turn_blocks :: "turn list \<Rightarrow> (string \<times> pdict) list" where
  "turn_blocks ts = concat (map (\<lambda>(r, c). map (Pair r) (anthropic_content_blocks c)) ts)"

definition alternating :: "turn list \<Rightarrow> bool" where
  "alternating ts = (successively (\<lambda>a b. fst a \<noteq> fst b) ts \<and> (\<forall>t\<in>set ts. fst t \<in> {''user'', ''assistant''}))"

lemma turn_blocks_append [simp]: "turn_blocks (ts @ us) = turn_blocks ts @ turn_blocks us"
  by (simp add: turn_blocks_def)

lemma content_blocks_Blocks [simp]: "anthropic_content_blocks (Blocks bs) = bs"
  by (simp add: anthropic_content_blocks_def)

lemma append_message_blocks: "turn_blocks (append_anthropic_message ts r c) = turn_blocks ts @ turn_blocks [(r, c)]"
proof (cases "ts \<noteq> [] \<and> fst (last ts) = r")
  case True
  then have "ts = butlast ts @ [(r, snd (last ts))]" by (metis append_butlast_last_id prod.collapse)
  then have "turn_blocks ts = turn_blocks (butlast ts) @ turn_blocks [(r, snd (last ts))]" by (metis turn_blocks_append)
  then show ?thesis using True by (simp add: append_anthropic_message_def) (simp add: turn_blocks_def)
next
  case False
  then show ?thesis by (auto simp: append_anthropic_message_def)
qed

lemma append_message_alternating:
  assumes "alternating ts" and "r \<in> {''user'', ''assistant''}"
  shows "alternating (append_anthropic_message ts r c)"
proof (cases ts rule: rev_cases)
  case Nil
  then show ?thesis using assms(2) by (auto simp: append_anthropic_message_def alternating_def)
next
  case (snoc us u)
  with assms show ?thesis
    by (auto simp: append_anthropic_message_def alternating_def successively_append_iff split: if_splits)
qed

lemma add_message_turn:
  assumes "add_message fo uuids (system, turns) im = Inr (system', turns')"
  shows "\<exists>t. message_turn fo uuids im = Inr t \<and> turns' = (case t of None \<Rightarrow> turns | Some (r, c) \<Rightarrow> append_anthropic_message turns r c) \<and>
       (case t of None \<Rightarrow> True | Some (r, c) \<Rightarrow> r \<in> {''user'', ''assistant''})"
proof -
  obtain i m where im: "im = (i, m)" by (cases im)
  from assms obtain role c where rc: "pget m ''role'' (PStr ''user'') = Inr role" "pget m ''content'' (PStr []) = Inr c"
    unfolding add_message_def im by (auto simp only: prod.case rbind_eq_Inr)
  consider "role \<in> {PStr ''system'', PStr ''developer''}"
    | "role \<notin> {PStr ''system'', PStr ''developer''}" "role = PStr ''assistant''"
    | "role \<notin> {PStr ''system'', PStr ''developer''}" "role \<noteq> PStr ''assistant''" "role = PStr ''tool''"
    | "role \<notin> {PStr ''system'', PStr ''developer''}" "role \<noteq> PStr ''assistant''" "role \<noteq> PStr ''tool''" by blast
  then show ?thesis
  proof cases
    case 1
    then show ?thesis using assms rc unfolding add_message_def message_turn_def im by (simp only: prod.case rbind_simps if_True) simp
  next
    case 2
    then show ?thesis using assms rc unfolding add_message_def message_turn_def im
      by (simp only: prod.case rbind_simps if_True if_False) (auto simp: rbind_eq_Inr)
  next
    case 3
    then show ?thesis using assms rc unfolding add_message_def message_turn_def im
      by (simp only: prod.case rbind_simps if_True if_False) (auto simp: rbind_eq_Inr)
  next
    case 4
    then show ?thesis using assms rc unfolding add_message_def message_turn_def im
      by (simp only: prod.case rbind_simps if_True if_False) simp
  qed
qed

lemma add_messages_turns:
  assumes "rfoldM (add_message fo uuids) (system, turns) ims = Inr (system', turns')" and "alternating turns"
  shows "\<exists>ts. rmapM (message_turn fo uuids) ims = Inr ts \<and> alternating turns' \<and>
     turn_blocks turns' = turn_blocks turns @ turn_blocks (somes ts)"
  using assms
proof (induction ims arbitrary: system turns)
  case Nil
  then show ?case by (simp add: turn_blocks_def)
next
  case (Cons im ims)
  then obtain s1 t1 where 1: "add_message fo uuids (system, turns) im = Inr (s1, t1)"
    and 2: "rfoldM (add_message fo uuids) (s1, t1) ims = Inr (system', turns')" by (auto simp: rbind_eq_Inr)
  from add_message_turn [OF 1] obtain t where t: "message_turn fo uuids im = Inr t"
    "t1 = (case t of None \<Rightarrow> turns | Some (r, c) \<Rightarrow> append_anthropic_message turns r c)"
    "case t of None \<Rightarrow> True | Some (r, c) \<Rightarrow> r \<in> {''user'', ''assistant''}" by blast
  then have alt: "alternating t1" using append_message_alternating [OF Cons.prems(2)] Cons.prems(2)
    by (cases t) auto
  have "turn_blocks t1 = turn_blocks turns @ turn_blocks (somes [t])"
    using t(2) by (cases t) (auto simp: append_message_blocks, simp add: turn_blocks_def)
  moreover from Cons.IH [OF 2 alt] obtain ts where "rmapM (message_turn fo uuids) ims = Inr ts" "alternating turns'"
    "turn_blocks turns' = turn_blocks t1 @ turn_blocks (somes ts)" by blast
  moreover have "somes (t # ts) = somes [t] @ somes ts"
    by (cases t) simp_all
  ultimately show ?case using t(1) by simp
qed

text \<open>Keys that the settings of a request do not touch\<close>

lemma set_opt_other [simp]: "k' \<noteq> k \<Longrightarrow> od_get (set_opt k v d) k' = od_get d k'"
  by (simp add: set_opt_def split: option.splits)

lemma fold_set_opt_other:
  "k' \<notin> snd ` set ks \<Longrightarrow> od_get (fold (\<lambda>(k, j). set_opt j (g k)) ks d) k' = od_get d k'"
  by (induction ks arbitrary: d) auto

lemma copy_params_fold:
  "copy_params source target = fold (\<lambda>(k, j). set_opt j (case od_get source k of
     Some v \<Rightarrow> (if v \<noteq> PNone then Some v else None) | None \<Rightarrow> None)) param_map target"
  unfolding copy_params_def by (rule fold_cong) (auto simp: set_opt_def fun_eq_iff split: option.splits)

lemma copy_params_other: "k' \<in> {''messages'', ''system''} \<Longrightarrow> od_get (copy_params source target) k' = od_get target k'"
  unfolding copy_params_fold by (rule fold_set_opt_other) (auto simp: param_map_def)

lemma copy_metadata_other: "k' \<noteq> ''metadata'' \<Longrightarrow> od_get (copy_metadata f source target) k' = od_get target k'"
  by (simp add: copy_metadata_def Let_def split: pv.splits)

text \<open>What a converted request holds\<close>

lemma convert_payload_messages:
  assumes "convert_openai_to_anthropic_payload fo uuids p n = Inr payload"
  obtains ms system turns where "piter (od_getd p ''messages'' (PList [])) = Inr ms"
    and "rfoldM (add_message fo uuids) ([], []) (enumerate 0 ms) = Inr (system, turns)"
    and "od_get payload ''messages'' = Some (PList (map turn_message turns))"
    and "od_get payload ''system'' = (if system = [] then None else Some (PList (map PDict system)))"
proof -
  from assms obtain ms system turns tools c where ms: "piter (od_getd p ''messages'' (PList [])) = Inr ms"
    and run: "rfoldM (add_message fo uuids) ([], []) (enumerate 0 ms) = Inr (system, turns)"
    and payload: "payload = set_opt ''tool_choice'' (map_option PDict c) (set_opt ''tools''
       (if List.map_filter anthropic_tool tools = [] then None else Some (PList (map PDict (List.map_filter anthropic_tool tools))))
       (copy_metadata (fl_repr fo) p (copy_params p (set_opt ''system'' (if system = [] then None else Some (PList (map PDict system)))
         [(''model'', od_getd p ''model'' (PStr [])), (''max_tokens'', py_or (od_getd p ''max_completion_tokens'' PNone)
            (py_or (od_getd p ''max_tokens'' PNone) (PInt n))), (''messages'', PList (map turn_message turns))]))))"
    unfolding convert_openai_to_anthropic_payload_def Let_def
    by (auto simp only: rbind_eq_Inr prod.case split_paired_Ex split: prod.splits)
  show ?thesis
  proof (rule that [OF ms run])
    show "od_get payload ''messages'' = Some (PList (map turn_message turns))"
      unfolding payload by (simp add: copy_metadata_other copy_params_other)
    show "od_get payload ''system'' = (if system = [] then None else Some (PList (map PDict system)))"
      unfolding payload by (simp add: copy_metadata_other copy_params_other) (simp add: set_opt_def)
  qed
qed

text \<open>The turns of a converted request alternate between the user and the assistant, and hold the blocks
  that its messages give one by one, all of them, with their roles and in their order.\<close>

theorem anthropic_turns_exact:
  assumes "convert_openai_to_anthropic_payload fo uuids p n = Inr payload"
  shows "\<exists>ms ts turns. piter (od_getd p ''messages'' (PList [])) = Inr ms \<and>
    rmapM (message_turn fo uuids) (enumerate 0 ms) = Inr ts \<and>
    od_get payload ''messages'' = Some (PList (map turn_message turns)) \<and> alternating turns \<and>
    turn_blocks turns = turn_blocks (somes ts)"
proof -
  from convert_payload_messages [OF assms] obtain ms system turns where
    c: "piter (od_getd p ''messages'' (PList [])) = Inr ms"
      "rfoldM (add_message fo uuids) ([], []) (enumerate 0 ms) = Inr (system, turns)"
      "od_get payload ''messages'' = Some (PList (map turn_message turns))" .
  have "alternating []" by (simp add: alternating_def)
  from add_messages_turns [OF c(2) this] obtain ts where "rmapM (message_turn fo uuids) (enumerate 0 ms) = Inr ts"
    "alternating turns" "turn_blocks turns = turn_blocks [] @ turn_blocks (somes ts)" by blast
  moreover have "turn_blocks [] = []" by (simp add: turn_blocks_def)
  ultimately show ?thesis using c by auto
qed

section \<open>There and back\<close>

text \<open>A conversation of plain texts, calls and results, as the OpenAI format writes it\<close>

record call =
  cl_id :: string
  cl_name :: pv
  cl_input :: pdict

datatype chat = User string | Assistant string "call list" | Tool pv string

definition call_value :: "(rat \<Rightarrow> string) \<Rightarrow> call \<Rightarrow> pdict" where
  "call_value f c = [(''id'', PStr (cl_id c)), (''type'', PStr ''function''), (''function'', PDict [(''name'', cl_name c),
     (''arguments'', PStr (json_dumps True f (PDict (cl_input c))))])]"

definition call_block :: "call \<Rightarrow> pdict" where
  "call_block c = [(''type'', PStr ''tool_use''), (''id'', PStr (cl_id c)), (''name'', cl_name c), (''input'', PDict (cl_input c))]"

definition chat_message :: "(rat \<Rightarrow> string) \<Rightarrow> chat \<Rightarrow> message" where
  "chat_message f c = (case c of
      User s \<Rightarrow> [(''role'', PStr ''user''), (''content'', PStr s)]
    | Assistant s calls \<Rightarrow> [(''role'', PStr ''assistant''), (''content'', PStr s)] @
        (if calls = [] then [] else [(''tool_calls'', PList (map (PDict \<circ> call_value f) calls))])
    | Tool i s \<Rightarrow> [(''role'', PStr ''tool''), (''tool_call_id'', i), (''content'', PStr s)])"

definition chat_ok :: "chat \<Rightarrow> bool" where
  "chat_ok c = (case c of
      User s \<Rightarrow> s \<noteq> []
    | Assistant s calls \<Rightarrow> (\<forall>c\<in>set calls. cl_id c \<noteq> [] \<and> json_plain (PDict (cl_input c)))
    | Tool i s \<Rightarrow> True)"

text \<open>The user does not speak twice in a row, nor the assistant, and results come before the user's text.\<close>

fun may_follow :: "chat \<Rightarrow> chat \<Rightarrow> bool" where
  "may_follow (User _) c = (case c of Assistant _ _ \<Rightarrow> True | _ \<Rightarrow> False)"
| "may_follow (Assistant _ _) c = (case c of Assistant _ _ \<Rightarrow> False | _ \<Rightarrow> True)"
| "may_follow (Tool _ _) c = True"

definition chat_turn :: "chat \<Rightarrow> turn" where
  "chat_turn c = (case c of
      User s \<Rightarrow> (''user'', Whole s)
    | Assistant s calls \<Rightarrow> (''assistant'',
        (let bs = (if s = [] then [] else [text_block (PStr s)]) @
           map call_block calls
         in if bs = [] then Whole [] else Blocks bs))
    | Tool i s \<Rightarrow> (''user'', Blocks [[(''type'', PStr ''tool_result''), (''tool_use_id'', i), (''content'', PStr s)]]))"

lemma tool_use_call:
  assumes "cl_id c \<noteq> []" "json_plain (PDict (cl_input c))"
  shows "tool_use_block (fl_read fo) u (PDict (call_value (fl_repr fo) c)) =
     Inr (call_block c)"
  using assms json_loads_dumps [OF assms(2), of "fl_read fo" True "fl_repr fo"]
  by (simp add: tool_use_block_def call_value_def call_block_def call_input_def py_or_def del: json_dumps.simps)

lemma tool_use_calls:
  assumes "\<forall>c\<in>set calls. cl_id c \<noteq> [] \<and> json_plain (PDict (cl_input c))"
  shows "rmapM (\<lambda>(j, call). tool_use_block (fl_read fo) (u j) call) (enumerate n (map (PDict \<circ> call_value (fl_repr fo)) calls)) =
     Inr (map call_block calls)"
  using assms by (induction calls arbitrary: n) (simp_all add: tool_use_call)

lemma chat_message_turn:
  assumes "chat_ok c"
  shows "add_message fo uuids (system, turns) (i, PDict (chat_message (fl_repr fo) c)) =
    Inr (system, append_anthropic_message turns (fst (chat_turn c)) (snd (chat_turn c)))"
proof (cases c)
  case (User s)
  then show ?thesis by (simp add: add_message_def chat_message_def chat_turn_def openai_content_to_anthropic_def)
next
  case (Tool j s)
  then show ?thesis
    by (simp add: add_message_def chat_message_def chat_turn_def tool_result_content_def openai_content_to_anthropic_def
        content_value_def)
next
  case (Assistant s calls)
  with assms have "\<forall>c\<in>set calls. cl_id c \<noteq> [] \<and> json_plain (PDict (cl_input c))" by (simp add: chat_ok_def)
  from tool_use_calls [OF this, of fo "uuids i" 0] show ?thesis using Assistant
    by (simp add: add_message_def chat_message_def chat_turn_def assistant_content_def openai_content_to_anthropic_def
        anthropic_content_blocks_def Let_def py_or_def)
qed

text \<open>What a turn becomes when it is read back\<close>

definition read_back :: "(rat \<Rightarrow> string) \<Rightarrow> turn \<Rightarrow> message list res" where
  "read_back f t = openai_messages f (turn_message t)"

definition result_block :: "pv \<times> string \<Rightarrow> pdict" where
  "result_block r = [(''type'', PStr ''tool_result''), (''tool_use_id'', fst r), (''content'', PStr (snd r))]"

definition result_message :: "(rat \<Rightarrow> string) \<Rightarrow> pv \<times> string \<Rightarrow> message" where
  "result_message f r = chat_message f (Tool (fst r) (snd r))"

lemma unpack_result: "unpack_block f u (PDict (result_block r)) = Inr (u\<lparr>up_tools := up_tools u @ [result_message f r]\<rparr>)"
  by (simp add: unpack_block_def result_block_def tool_message_def result_content_def mark_error_def content_value_def
      result_message_def chat_message_def)

lemma unpack_results:
  "rfoldM (unpack_block f) u (map (PDict \<circ> result_block) rs) = Inr (u\<lparr>up_tools := up_tools u @ map (result_message f) rs\<rparr>)"
  by (induction rs arbitrary: u) (simp_all add: unpack_result)

lemma unpack_text:
  "unpack_block f u (PDict (text_block (PStr s))) = Inr (u\<lparr>up_parts := up_parts u @ [text_block (PStr s)]\<rparr>)"
  by (simp add: unpack_block_def text_block_def text_part_def copy_cache_control_def)

lemma unpack_use:
  "unpack_block f u (PDict (call_block c)) =
     Inr (u\<lparr>up_calls := up_calls u @ [call_value f c]\<rparr>)"
  by (simp add: unpack_block_def openai_call_def call_block_def call_value_def del: json_dumps.simps)

lemma unpack_uses:
  "rfoldM (unpack_block f) u (map (PDict \<circ> call_block) cs) = Inr (u\<lparr>up_calls := up_calls u @ map (call_value f) cs\<rparr>)"
  by (induction cs arbitrary: u) (simp_all add: unpack_use)

lemma finalize_text: "finalize_openai_content [text_block (PStr s)] = PStr s"
  by (simp add: finalize_openai_content_def text_block_def has_cache_control_def od_has_def)

lemma read_back_Whole: "read_back f (r, Whole s) = Inr [[(''role'', PStr r), (''content'', PStr s)]]"
  by (simp add: read_back_def openai_messages_def turn_message_def content_value_def)

lemma read_back_Blocks:
  "read_back f (r, Blocks bs) = rmap (unpacked_messages (PStr r)) (rfoldM (unpack_block f) no_blocks (map PDict bs))"
  by (simp add: read_back_def openai_messages_def turn_message_def content_value_def)

lemma read_back_results: "read_back f (r, Blocks (map result_block rs)) = Inr (map (result_message f) rs)"
  using unpack_results [of f no_blocks rs]
  by (simp add: read_back_Blocks unpacked_messages_def no_blocks_def)

lemma read_back_results_text:
  "read_back f (''user'', Blocks (map result_block rs @ [text_block (PStr s)])) =
     Inr (map (result_message f) rs @ [chat_message f (User s)])"
  using unpack_results [of f no_blocks rs]
  by (simp add: read_back_Blocks rfoldM_append unpack_text unpacked_messages_def no_blocks_def finalize_text chat_message_def)

lemma read_back_assistant: "read_back f (chat_turn (Assistant s calls)) = Inr [chat_message f (Assistant s calls)]"
proof -
  let ?bs = "(if s = [] then [] else [text_block (PStr s)]) @ map call_block calls"
  have run: "rfoldM (unpack_block f) no_blocks (map PDict ?bs) =
      Inr \<lparr>up_tools = [], up_parts = (if s = [] then [] else [text_block (PStr s)]), up_calls = map (call_value f) calls\<rparr>"
    using unpack_uses [of f _ calls] by (simp add: rfoldM_append unpack_text no_blocks_def)
  show ?thesis
  proof (cases "?bs = []")
    case True
    then have "s = []" "calls = []" by (auto split: if_splits)
    then show ?thesis by (simp add: chat_turn_def read_back_Whole chat_message_def)
  next
    case False
    then have "chat_turn (Assistant s calls) = (''assistant'', Blocks ?bs)" by (simp add: chat_turn_def Let_def)
    with run False show ?thesis
      by (simp only: read_back_Blocks rmap_simps)
        (auto simp: unpacked_messages_def chat_message_def finalize_text, simp_all add: finalize_openai_content_def)
  qed
qed

lemma read_back_turn: "read_back f (chat_turn c) = Inr [chat_message f c]"
proof (cases c)
  case (User s)
  then show ?thesis by (simp add: chat_turn_def read_back_Whole chat_message_def)
next
  case (Assistant s calls)
  then show ?thesis by (simp add: read_back_assistant)
next
  case (Tool i s)
  then have "chat_turn c = (''user'', Blocks (map result_block [(i, s)]))" by (simp add: chat_turn_def result_block_def)
  then show ?thesis using read_back_results [of f "''user''" "[(i, s)]"] Tool by (simp add: result_message_def)
qed

text \<open>The turns that a conversation becomes, and what they become\<close>

definition add_turn :: "turn list \<Rightarrow> chat \<Rightarrow> turn list" where
  "add_turn ts c = append_anthropic_message ts (fst (chat_turn c)) (snd (chat_turn c))"

lemma add_messages_chat:
  assumes "\<forall>c\<in>set cs. chat_ok c"
  shows "rfoldM (add_message fo uuids) (system, turns) (enumerate n (map (PDict \<circ> chat_message (fl_repr fo)) cs)) =
    Inr (system, foldl add_turn turns cs)"
  using assms by (induction cs arbitrary: n turns) (simp_all add: chat_message_turn add_turn_def)

definition ends_like :: "chat \<Rightarrow> turn \<Rightarrow> bool" where
  "ends_like c t = (case c of
      User _ \<Rightarrow> fst t = ''user''
    | Assistant _ _ \<Rightarrow> fst t = ''assistant''
    | Tool _ _ \<Rightarrow> fst t = ''user'' \<and> (\<exists>rs. snd t = Blocks (map result_block rs)))"

definition reads_as :: "(rat \<Rightarrow> string) \<Rightarrow> turn list \<Rightarrow> message list \<Rightarrow> bool" where
  "reads_as f ts ms = (\<exists>gs. rmapM (read_back f) ts = Inr gs \<and> concat gs = ms)"

lemma rmapM_map: "rmapM g (map h xs) = rmapM (\<lambda>x. g (h x)) xs"
  by (induction xs) simp_all

lemma reads_as_append:
  assumes "reads_as f ts ms" "read_back f t = Inr g"
  shows "reads_as f (ts @ [t]) (ms @ g)"
  using assms by (auto simp: reads_as_def rmapM_append)

lemma reads_as_last:
  assumes "reads_as f (ts @ [t]) ms" "read_back f t = Inr g" "read_back f t' = Inr (g @ [m])"
  shows "reads_as f (ts @ [t']) (ms @ [m])"
  using assms by (auto simp: reads_as_def rmapM_append rbind_eq_Inr)

lemma add_turn_reads:
  assumes reads: "reads_as f ts ms" and last: "ts \<noteq> [] \<Longrightarrow> ends_like p (last ts) \<and> may_follow p c" and ok: "chat_ok c"
  shows "reads_as f (add_turn ts c) (ms @ [chat_message f c]) \<and> add_turn ts c \<noteq> [] \<and> ends_like c (last (add_turn ts c))"
proof (cases "ts \<noteq> [] \<and> fst (last ts) = fst (chat_turn c)")
  case False
  then have "add_turn ts c = ts @ [chat_turn c]"
    unfolding add_turn_def append_anthropic_message_def by (simp only: if_False prod.collapse)
  moreover have "ends_like c (chat_turn c)"
    by (cases c) (auto simp: ends_like_def chat_turn_def result_block_def intro: exI [of _ "[(i, s)]" for i s])
  ultimately show ?thesis using reads_as_append [OF reads read_back_turn] by simp
next
  case True
  then obtain us u where ts: "ts = us @ [u]" by (metis append_butlast_last_id)
  with last True have p: "ends_like p u" "may_follow p c" "fst u = fst (chat_turn c)" by auto
  obtain i s where tool: "p = Tool i s"
    using p by (cases p; cases c) (auto simp: ends_like_def chat_turn_def)
  with p obtain rs where u: "u = (''user'', Blocks (map result_block rs))"
    by (auto simp: ends_like_def prod_eq_iff)
  have merged: "add_turn ts c = us @ [(''user'', Blocks (map result_block rs @ anthropic_content_blocks (snd (chat_turn c))))]"
    using p(3) u ts by (simp add: add_turn_def append_anthropic_message_def)
  show ?thesis
  proof (cases c)
    case (User s)
    then have "anthropic_content_blocks (snd (chat_turn c)) = [text_block (PStr s)]"
      using ok by (simp add: chat_turn_def anthropic_content_blocks_def chat_ok_def)
    with merged User show ?thesis
      using reads_as_last [OF reads [unfolded ts u] read_back_results, of _ "chat_message f c"] read_back_results_text
      by (simp add: ends_like_def)
  next
    case (Assistant s calls)
    with p(3) u show ?thesis by (simp add: chat_turn_def)
  next
    case (Tool j t)
    then have "anthropic_content_blocks (snd (chat_turn c)) = map result_block [(j, t)]"
      by (simp add: chat_turn_def result_block_def)
    with merged have "add_turn ts c = us @ [(''user'', Blocks (map result_block (rs @ [(j, t)])))]" by simp
    moreover have "read_back f (''user'', Blocks (map result_block (rs @ [(j, t)]))) =
        Inr (map (result_message f) rs @ [chat_message f c])"
      using read_back_results [of f "''user''" "rs @ [(j, t)]"] Tool by (simp add: result_message_def)
    then have "reads_as f (us @ [(''user'', Blocks (map result_block (rs @ [(j, t)])))]) (ms @ [chat_message f c])"
      by (rule reads_as_last [OF reads [unfolded ts u] read_back_results])
    ultimately show ?thesis using Tool by (simp add: ends_like_def del: map_append) blast
  qed
qed

lemma chat_reads_back:
  assumes "successively may_follow cs" and "\<forall>c\<in>set cs. chat_ok c"
  shows "reads_as f (foldl add_turn [] cs) (map (chat_message f) cs) \<and>
    (cs \<noteq> [] \<longrightarrow> foldl add_turn [] cs \<noteq> [] \<and> ends_like (last cs) (last (foldl add_turn [] cs)))"
  using assms
proof (induction cs rule: rev_induct)
  case Nil
  then show ?case by (simp add: reads_as_def)
next
  case (snoc c cs)
  then have reads: "reads_as f (foldl add_turn [] cs) (map (chat_message f) cs)" and ok: "chat_ok c"
    by (auto simp: successively_append_iff)
  have "ends_like (last cs) (last (foldl add_turn [] cs)) \<and> may_follow (last cs) c" if "foldl add_turn [] cs \<noteq> []"
    using that snoc by (cases "cs = []") (auto simp: successively_append_iff)
  from add_turn_reads [OF reads this ok] show ?case by simp
qed

text \<open>C28 The request of a plain conversation, with or without a system prompt, comes back from the Messages
  API's format with the messages it had: texts, calls with their arguments and results alike.\<close>

theorem request_roundtrip:
  assumes "od_get p ''messages'' = Some (PList (map PDict (system_message (PStr prompt) @ map (chat_message (fl_repr fo)) cs)))"
    and "successively may_follow cs" and "\<forall>c\<in>set cs. chat_ok c"
    and "convert_openai_to_anthropic_payload fo uuids p n = Inr payload"
    and "convert_anthropic_to_openai_payload (fl_repr fo) payload = Inr p'"
  shows "od_get p' ''messages'' = od_get p ''messages''"
proof -
  let ?f = "fl_repr fo" and ?k = "length (system_message (PStr prompt))"
  define blocks where "blocks = (if prompt = [] then [] else [text_block (PStr prompt)])"
  from convert_payload_messages [OF assms(4)] obtain ms system turns where
    ms: "piter (od_getd p ''messages'' (PList [])) = Inr ms"
    and run: "rfoldM (add_message fo uuids) ([], []) (enumerate 0 ms) = Inr (system, turns)"
    and msgs: "od_get payload ''messages'' = Some (PList (map turn_message turns))"
    and sys: "od_get payload ''system'' = (if system = [] then None else Some (PList (map PDict system)))" .
  have ms_eq: "ms = map PDict (system_message (PStr prompt)) @ map (PDict \<circ> chat_message ?f) cs"
    using ms assms(1) by (simp add: od_getd_def)
  have "rfoldM (add_message fo uuids) ([], []) (enumerate 0 (map PDict (system_message (PStr prompt)))) = Inr (blocks, [])"
    by (simp add: system_message_def blocks_def add_message_def system_blocks_of_def openai_content_to_anthropic_def)
  then have "rfoldM (add_message fo uuids) ([], []) (enumerate 0 ms) = Inr (blocks, foldl add_turn [] cs)"
    unfolding ms_eq enumerate_append_eq rfoldM_append using add_messages_chat [OF assms(3)] by simp
  with run have st: "system = blocks" "turns = foldl add_turn [] cs" by simp_all
  have "reads_as ?f turns (map (chat_message ?f) cs)" using chat_reads_back [OF assms(2,3)] st by blast
  then obtain gs where gs: "rmapM (read_back ?f) turns = Inr gs" "concat gs = map (chat_message ?f) cs"
    by (auto simp: reads_as_def)
  then have conv: "rmapM (openai_messages ?f) (map turn_message turns) = Inr gs"
    unfolding read_back_def by (simp add: rmapM_map)
  have sys_back: "system_message (od_getd payload ''system'' PNone) = system_message (PStr prompt)"
    unfolding od_getd_def sys st blocks_def
    by (simp add: system_message_def system_part_def text_block_def List.map_filter_def copy_cache_control_def
        finalize_text [unfolded text_block_def])
  from assms(5) obtain q where q: "p' = set_opt ''tool_choice'' q (fold (\<lambda>(k, k'). set_opt k' (od_get payload k)) anthropic_params
      (set_opt ''max_tokens'' (od_get payload ''max_tokens'') [(''model'', od_getd payload ''model'' (PStr [])),
        (''messages'', PList (map PDict (system_message (PStr prompt) @ concat gs)))])) \<or>
    (\<exists>ts. p' = set_opt ''tool_choice'' q (od_set ''tools'' ts (fold (\<lambda>(k, k'). set_opt k' (od_get payload k)) anthropic_params
      (set_opt ''max_tokens'' (od_get payload ''max_tokens'') [(''model'', od_getd payload ''model'' (PStr [])),
        (''messages'', PList (map PDict (system_message (PStr prompt) @ concat gs)))]))))"
    unfolding convert_anthropic_to_openai_payload_def Let_def od_getd_def [of payload "''messages''"] msgs option.case piter_list
      rbind_simps conv sys_back
    by (auto simp only: rbind_eq_Inr split: option.splits)
  have "''messages'' \<notin> snd ` set anthropic_params" by (simp add: anthropic_params_def)
  then have "od_get p' ''messages'' = Some (PList (map PDict (system_message (PStr prompt) @ concat gs)))"
    using q by (auto simp: fold_set_opt_other)
  then show ?thesis using assms(1) gs(2) by simp
qed

definition some_floats :: float_ops where
  "some_floats = \<lparr>fl_repr = (\<lambda>_. []), fl_str = (\<lambda>_. None), fl_read = (\<lambda>_. 0), fl_int = rat_of_int, fl_round = id\<rparr>"

definition sample_chat :: "chat list" where
  "sample_chat = [User ''hi'', Assistant ''let me see'' [\<lparr>cl_id = ''c1'', cl_name = PStr ''find'', cl_input = [(''n'', PInt 1)]\<rparr>],
     Tool (PStr ''c1'') ''found'', User ''thanks'']"

definition sample_request :: pdict where
  "sample_request = [(''model'', PStr ''m''),
     (''messages'', PList (map PDict (system_message (PStr ''be kind'') @ map (chat_message (fl_repr some_floats)) sample_chat)))]"

definition sample_payload :: pdict where
  "sample_payload = (case convert_openai_to_anthropic_payload some_floats (\<lambda>_ _. ''u'') sample_request 4096 of Inr p \<Rightarrow> p | _ \<Rightarrow> [])"

definition sample_back :: pdict where
  "sample_back = (case convert_anthropic_to_openai_payload (fl_repr some_floats) sample_payload of Inr p \<Rightarrow> p | _ \<Rightarrow> [])"

lemma sample_converted:
  "convert_openai_to_anthropic_payload some_floats (\<lambda>_ _. ''u'') sample_request 4096 = Inr sample_payload"
  by code_simp

lemma sample_converted_back: "convert_anthropic_to_openai_payload (fl_repr some_floats) sample_payload = Inr sample_back"
  by code_simp

theorem anthropic_turns_exact_witness:
  "\<exists>turns. od_get sample_payload ''messages'' = Some (PList (map turn_message turns)) \<and> alternating turns"
  using anthropic_turns_exact [OF sample_converted] by blast

theorem request_roundtrip_witness: "od_get sample_back ''messages'' = od_get sample_request ''messages''"
proof (rule request_roundtrip [OF _ _ _ sample_converted sample_converted_back])
  show "od_get sample_request ''messages'' =
      Some (PList (map PDict (system_message (PStr ''be kind'') @ map (chat_message (fl_repr some_floats)) sample_chat)))"
    by (simp add: sample_request_def)
  show "successively may_follow sample_chat" by code_simp
  have "list_all chat_ok sample_chat" by code_simp
  then show "\<forall>c\<in>set sample_chat. chat_ok c" by (simp add: list_all_iff)
qed

end
