(* ===== verification/Anthropic_Answers.thy ===== *)
theory Anthropic_Answers
  imports Anthropic_Requests Anthropic_Stream
begin

text \<open>
  Answers between the two chat formats, \<^verbatim>\<open>backend/openlaunch/utils/anthropic.py\<close>: whole responses in both
  directions, usage and errors, and the event stream of the Messages API as the chunks of a chat
  completion (\<open>anthropic_stream_to_openai_stream\<close>). Chunks of the stream are texts; generated ids and the
  clock are arguments.
\<close>

section \<open>Connections\<close>

definition is_anthropic_url :: "string \<Rightarrow> bool" where
  "is_anthropic_url url = py_contains url ''api.anthropic.com''"

definition normalize_anthropic_base_url :: "string option \<Rightarrow> string" where
  "normalize_anthropic_base_url url =
     (let given = (case url of None \<Rightarrow> [] | Some u \<Rightarrow> u);
          normalized = py_rstrip_char (CHR ''/'') (py_strip (if given = [] then ''https://api.anthropic.com/v1'' else given))
      in if normalized = ''https://api.anthropic.com'' then normalized @ ''/v1'' else normalized)"

section \<open>Usage\<close>

definition token_count :: "pdict \<Rightarrow> string \<Rightarrow> int res" where
  "token_count usage k = py_int (py_or (od_getd usage k PNone) (PInt 0))"

definition with_cached :: "int \<Rightarrow> pdict \<Rightarrow> pdict res" where
  "with_cached cache_read usage =
     (if cache_read = 0 then Inr usage
      else (case py_or (od_getd usage ''prompt_tokens_details'' PNone) (PDict []) of
          PDict details \<Rightarrow> Inr (od_set ''prompt_tokens_details'' (PDict (od_set ''cached_tokens'' (PInt cache_read) details)) usage)
        | PStr _ \<Rightarrow> Inl (ValueError ''dictionary update sequence'')
        | _ \<Rightarrow> Inl TypeError))"

definition convert_anthropic_usage_to_openai :: "pdict \<Rightarrow> pdict res" where
  "convert_anthropic_usage_to_openai usage =
     rbind (token_count usage ''input_tokens'') (\<lambda>uncached.
     rbind (token_count usage ''cache_creation_input_tokens'') (\<lambda>cache_creation.
     rbind (token_count usage ''cache_read_input_tokens'') (\<lambda>cache_read.
     rbind (token_count usage ''output_tokens'') (\<lambda>completion_tokens.
     let prompt_tokens = uncached + cache_creation + cache_read in
     with_cached cache_read (od_merge usage
       [(''anthropic_input_tokens'', PInt uncached), (''anthropic_output_tokens'', PInt completion_tokens),
        (''input_tokens'', PInt prompt_tokens), (''output_tokens'', PInt completion_tokens),
        (''prompt_tokens'', PInt prompt_tokens), (''completion_tokens'', PInt completion_tokens),
        (''total_tokens'', PInt (prompt_tokens + completion_tokens))])))))"

text \<open>\<^verbatim>\<open>dict(v or {})\<close> for a JSON object or nothing; lists of pairs are refused.\<close>

definition as_dict :: "pv \<Rightarrow> pdict res" where
  "as_dict v = (if truthy v then (case v of
       PDict d \<Rightarrow> Inr d
     | PStr _ \<Rightarrow> Inl (ValueError ''dictionary update sequence'')
     | _ \<Rightarrow> Inl TypeError) else Inr [])"

section \<open>Responses\<close>

definition anthropic_finish_reasons :: "(string \<times> string) list" where
  "anthropic_finish_reasons = [(''end_turn'', ''stop''), (''stop_sequence'', ''stop''), (''max_tokens'', ''length''),
     (''tool_use'', ''tool_calls''), (''pause_turn'', ''stop''), (''refusal'', ''content_filter'')]"

text \<open>\<^verbatim>\<open>m.get(v, dflt)\<close> on a table of strings\<close>

definition look_up :: "(string \<times> string) list \<Rightarrow> pv \<Rightarrow> string \<Rightarrow> string res" where
  "look_up m v dflt = rmap (\<lambda>k. case k of PStr s \<Rightarrow> od_getd m s dflt | _ \<Rightarrow> dflt) (hash_key v)"

record answer_parts =
  ap_texts :: "pv list"
  ap_calls :: "pdict list"
  ap_extra :: "pv list"

definition answer_block :: "(rat \<Rightarrow> string) \<Rightarrow> (nat \<Rightarrow> string) \<Rightarrow> answer_parts \<Rightarrow> nat \<times> pv \<Rightarrow> answer_parts res" where
  "answer_block f uuid a jb = (case jb of (j, block) \<Rightarrow>
     rbind (pget block ''type'' PNone) (\<lambda>t.
       if t = PStr ''text'' then rmap (\<lambda>v. a\<lparr>ap_texts := ap_texts a @ [v]\<rparr>) (pget block ''text'' (PStr []))
       else if t = PStr ''tool_use''
       then rbind (pget block ''id'' PNone) (\<lambda>i. rbind (pget block ''name'' (PStr [])) (\<lambda>name.
         rmap (\<lambda>input. a\<lparr>ap_calls := ap_calls a @ [[(''id'', py_or i (PStr (''call_'' @ uuid j))), (''type'', PStr ''function''),
           (''function'', PDict [(''name'', name), (''arguments'', PStr (compact_dumps True f (py_or input (PDict []))))])]]\<rparr>)
           (pget block ''input'' PNone)))
       else Inr (a\<lparr>ap_extra := ap_extra a @ [block]\<rparr>)))"

definition answer_message :: "answer_parts \<Rightarrow> pdict res" where
  "answer_message a = rmap (\<lambda>text. [(''role'', PStr ''assistant''), (''content'', PStr text)] @
       (if ap_calls a \<noteq> [] then [(''tool_calls'', PList (map PDict (ap_calls a)))] else []) @
       (if ap_extra a \<noteq> [] then [(''anthropic_content'', PList (ap_extra a))] else [])) (join_values [] (ap_texts a))"

definition convert_anthropic_to_openai_response ::
  "(rat \<Rightarrow> string) \<Rightarrow> (nat \<Rightarrow> string) \<Rightarrow> string \<Rightarrow> int \<Rightarrow> pdict \<Rightarrow> string option \<Rightarrow> pdict res" where
  "convert_anthropic_to_openai_response f uuid new_id now response request_id =
     rbind (piter (py_or (od_getd response ''content'' PNone) (PList []))) (\<lambda>blocks.
     rbind (rfoldM (answer_block f uuid) \<lparr>ap_texts = [], ap_calls = [], ap_extra = []\<rparr> (enumerate 0 blocks)) (\<lambda>a.
     rbind (answer_message a) (\<lambda>message.
     rbind (look_up anthropic_finish_reasons (od_getd response ''stop_reason'' PNone) ''stop'') (\<lambda>finish.
     rbind (as_dict (od_getd response ''usage'' PNone)) (\<lambda>usage.
     rbind (convert_anthropic_usage_to_openai usage) (\<lambda>usage.
     let result = [(''id'', py_or (od_getd response ''id'' PNone) (PStr (''chatcmpl-'' @ new_id))),
           (''object'', PStr ''chat.completion''), (''created'', PInt now), (''model'', od_getd response ''model'' (PStr [])),
           (''choices'', PList [PDict [(''index'', PInt 0), (''message'', PDict message), (''finish_reason'', PStr finish)]]),
           (''usage'', PDict usage)];
         result = (case request_id of None \<Rightarrow> result | Some r \<Rightarrow> if r = [] then result else od_set ''request_id'' (PStr r) result)
     in Inr (if od_getd response ''stop_sequence'' PNone = PNone then result
       else od_set ''stop_sequence'' (od_getd response ''stop_sequence'' PNone) result)))))))"

definition error_result :: "pv \<Rightarrow> pv \<Rightarrow> pdict" where
  "error_result message t = [(''error'', PDict [(''message'', message), (''type'', t), (''code'', t)])]"

definition convert_anthropic_error_to_openai :: "(rat \<Rightarrow> string) \<Rightarrow> pv \<Rightarrow> pv \<Rightarrow> pdict" where
  "convert_anthropic_error_to_openai f error request_id = (case error of
      PDict d \<Rightarrow>
        (let source = od_getd d ''error'' error;
             result = (case source of
                 PDict s \<Rightarrow> error_result (od_getd s ''message'' (PStr (py_str f source))) (od_getd s ''type'' (PStr ''api_error''))
               | _ \<Rightarrow> error_result (PStr (py_str f source)) (PStr ''api_error''));
             request_id = py_or request_id (od_getd d ''request_id'' PNone)
         in if truthy request_id then od_set ''request_id'' request_id result else result)
    | _ \<Rightarrow> (let result = error_result (PStr (py_str f error)) (PStr ''api_error'')
            in if truthy request_id then od_set ''request_id'' request_id result else result))"

definition openai_stop_reason_map :: "(string \<times> string) list" where
  "openai_stop_reason_map = [(''stop'', ''end_turn''), (''length'', ''max_tokens''), (''tool_calls'', ''tool_use''),
     (''content_filter'', ''end_turn'')]"

text \<open>\<^verbatim>\<open>json.loads\<close> of the arguments of a call, with \<^verbatim>\<open>{}\<close> for what is not JSON and not a string\<close>

definition use_block :: "(string \<Rightarrow> rat) \<Rightarrow> string \<Rightarrow> pv \<Rightarrow> pdict res" where
  "use_block rd uuid call =
     rbind (pget call ''function'' (PDict [])) (\<lambda>fn. rbind (pget fn ''arguments'' (PStr ''{}'')) (\<lambda>arguments.
     let input = (case arguments of PStr s \<Rightarrow> (case json_loads rd s of Inl _ \<Rightarrow> PDict [] | Inr v \<Rightarrow> v) | _ \<Rightarrow> PDict []) in
     rbind (pget call ''id'' (PStr (''toolu_'' @ uuid))) (\<lambda>i. rbind (pget fn ''name'' (PStr [])) (\<lambda>name.
       Inr [(''type'', PStr ''tool_use''), (''id'', i), (''name'', name), (''input'', input)]))))"

definition anthropic_usage :: "pv \<Rightarrow> pdict res" where
  "anthropic_usage u =
     rbind (pget u ''prompt_tokens'' (PInt 0)) (\<lambda>p. rbind (pget u ''anthropic_input_tokens'' p) (\<lambda>input.
     rbind (pget u ''completion_tokens'' (PInt 0)) (\<lambda>c. rbind (pget u ''anthropic_output_tokens'' c) (\<lambda>output.
     let d = (case u of PDict d \<Rightarrow> d | _ \<Rightarrow> []) in
       Inr (set_opt ''cache_read_input_tokens'' (od_get d ''cache_read_input_tokens'')
         (set_opt ''cache_creation_input_tokens'' (od_get d ''cache_creation_input_tokens'')
           [(''input_tokens'', input), (''output_tokens'', output)]))))))"

definition convert_openai_to_anthropic_response ::
  "(string \<Rightarrow> rat) \<Rightarrow> (nat \<Rightarrow> string) \<Rightarrow> string \<Rightarrow> pdict \<Rightarrow> pv \<Rightarrow> pdict res" where
  "convert_openai_to_anthropic_response rd uuid new_id response model =
     rbind (if truthy (od_getd response ''choices'' PNone) then first_item (od_getd response ''choices'' PNone) else Inr (PDict [])) (\<lambda>choice.
     rbind (pget choice ''message'' (PDict [])) (\<lambda>message.
     rbind (pget choice ''finish_reason'' (PStr ''stop'')) (\<lambda>finish.
     rbind (look_up openai_stop_reason_map finish ''end_turn'') (\<lambda>stop_reason.
     rbind (pget message ''content'' PNone) (\<lambda>c.
     rbind (pget message ''tool_calls'' PNone) (\<lambda>calls.
     rbind (piter (py_or calls (PList []))) (\<lambda>calls.
     rbind (rmapM (\<lambda>(j, call). use_block rd (uuid j) call) (enumerate 0 calls)) (\<lambda>uses.
     rbind (anthropic_usage (od_getd response ''usage'' (PDict []))) (\<lambda>usage.
       Inr [(''id'', od_getd response ''id'' (PStr (''msg_'' @ new_id))), (''type'', PStr ''message''), (''role'', PStr ''assistant''),
         (''content'', PList (map PDict ((if truthy c then [text_block c] else []) @ uses))),
         (''model'', py_or model (od_getd response ''model'' (PStr []))), (''stop_reason'', PStr stop_reason),
         (''stop_sequence'', PNone), (''usage'', PDict usage)])))))))))"

section \<open>The event stream\<close>

text \<open>\<^verbatim>\<open>s.replace('\r\n', '\n')\<close> and \<^verbatim>\<open>s.splitlines()\<close>\<close>

fun unix_lines :: "string \<Rightarrow> string" where
  "unix_lines [] = []"
| "unix_lines [c] = [c]"
| "unix_lines (c # d # s) =
     (if c = CHR 0x0D \<and> d = CHR 0x0A then d # unix_lines s else c # unix_lines (d # s))"

definition line_break :: "char \<Rightarrow> bool" where
  "line_break c = (of_char c \<in> {10, 11, 12, 13, 28, 29, 30, 133 :: nat})"

fun split_lines :: "string \<Rightarrow> string list" where
  "split_lines [] = []"
| "split_lines (c # s) =
     (if line_break c then [] # (if c = CHR 0x0D \<and> s \<noteq> [] \<and> hd s = CHR 0x0A then split_lines (tl s) else split_lines s)
      else (case split_lines s of [] \<Rightarrow> [[c]] | w # ws \<Rightarrow> (c # w) # ws))"

lemma split_once_shorter: "split_once (c # sep) s = Some (a, b) \<Longrightarrow> length b < length s"
  by (induction s arbitrary: a) (auto split: if_splits)

text \<open>The frames that end in the buffer, and what is left of it\<close>

definition blank_line :: string where
  "blank_line = nl @ nl"

function take_frames :: "string \<Rightarrow> string list \<times> string" where
  "take_frames buffer = (case split_once blank_line buffer of
      None \<Rightarrow> ([], buffer)
    | Some (frame, rest) \<Rightarrow> (let (frames, left) = take_frames rest in (frame # frames, left)))"
  by pat_completeness auto
termination
  by (relation "measure length") (auto simp: blank_line_def nl_def dest: split_once_shorter)

declare take_frames.simps [simp del]

definition frame_line :: "string option \<times> string list \<Rightarrow> string \<Rightarrow> string option \<times> string list" where
  "frame_line acc line = (case acc of (name, datas) \<Rightarrow>
     if py_startswith line ''event:'' then (Some (py_strip (drop 6 line)), datas)
     else if py_startswith line ''data:'' then (name, datas @ [py_lstrip (drop 5 line)])
     else acc)"

definition read_frame :: "string \<Rightarrow> string option \<times> string list" where
  "read_frame frame = foldl frame_line (None, []) (py_split (CHR 0x0A) (unix_lines frame))"

definition last_data_lines :: "string \<Rightarrow> string list" where
  "last_data_lines buffer = map (\<lambda>l. py_lstrip (drop 5 l)) (filter (\<lambda>l. py_startswith l ''data:'') (split_lines buffer))"

record reader =
  rd_model :: pv
  rd_usage :: pdict
  rd_tools :: "(int, nat) od"

definition completion_chunk :: "string \<Rightarrow> int \<Rightarrow> pv \<Rightarrow> pdict \<Rightarrow> pv \<Rightarrow> pdict option \<Rightarrow> pdict" where
  "completion_chunk cid created model delta finish usage =
     [(''id'', PStr cid), (''object'', PStr ''chat.completion.chunk''), (''created'', PInt created), (''model'', model),
      (''choices'', PList [PDict [(''index'', PInt 0), (''delta'', PDict delta), (''finish_reason'', finish)]])] @
     (case usage of None \<Rightarrow> [] | Some u \<Rightarrow> [(''usage'', PDict u)])"

text \<open>\<^verbatim>\<open>usage.update(v or {})\<close>\<close>

definition add_usage :: "pv \<Rightarrow> reader \<Rightarrow> reader res" where
  "add_usage v s = rmap (\<lambda>d. s\<lparr>rd_usage := od_merge (rd_usage s) d\<rparr>) (as_dict v)"

definition call_chunk :: "nat \<Rightarrow> (string \<times> pv) list \<Rightarrow> pdict \<Rightarrow> pdict" where
  "call_chunk i head fn = [(''tool_calls'', PList [PDict ([(''index'', PInt (int i))] @ head @ [(''function'', PDict fn)])])]"

definition block_start_event :: "(reader \<Rightarrow> pdict \<Rightarrow> pdict) \<Rightarrow> reader \<Rightarrow> pv \<Rightarrow> (reader \<times> pdict list) res" where
  "block_start_event mk s data =
     rbind (pget data ''content_block'' PNone) (\<lambda>b. let b = py_or b (PDict []) in
     rbind (pget b ''type'' PNone) (\<lambda>t. rbind (pget b ''text'' PNone) (\<lambda>text.
       if t = PStr ''text'' \<and> truthy text then Inr (s, [mk s [(''content'', text)]])
       else if t = PStr ''tool_use''
       then rbind (pget data ''index'' (PInt 0)) (\<lambda>v. rbind (py_int v) (\<lambda>i.
         let n = length (rd_tools s); s' = s\<lparr>rd_tools := od_set i n (rd_tools s)\<rparr> in
         rbind (pget b ''id'' (PStr [])) (\<lambda>call_id. rbind (pget b ''name'' (PStr [])) (\<lambda>name.
           Inr (s', [mk s' (call_chunk n [(''id'', call_id), (''type'', PStr ''function'')]
             [(''name'', name), (''arguments'', PStr [])])])))))
       else Inr (s, []))))"

definition block_delta_event :: "(reader \<Rightarrow> pdict \<Rightarrow> pdict) \<Rightarrow> reader \<Rightarrow> pv \<Rightarrow> (reader \<times> pdict list) res" where
  "block_delta_event mk s data =
     rbind (pget data ''delta'' PNone) (\<lambda>d. let d = py_or d (PDict []) in
     rbind (pget d ''type'' PNone) (\<lambda>t.
       if t = PStr ''text_delta'' then rbind (pget d ''text'' (PStr [])) (\<lambda>text. Inr (s, [mk s [(''content'', text)]]))
       else if t = PStr ''input_json_delta''
       then rbind (pget data ''index'' (PInt 0)) (\<lambda>v. rbind (py_int v) (\<lambda>i.
         let n = od_getd (rd_tools s) i (length (rd_tools s)); s' = s\<lparr>rd_tools := od_set i n (rd_tools s)\<rparr> in
         rbind (pget d ''partial_json'' (PStr [])) (\<lambda>json. Inr (s', [mk s' (call_chunk n [] [(''arguments'', json)])]))))
       else Inr (s, [])))"

definition message_delta_event ::
  "string \<Rightarrow> int \<Rightarrow> reader \<Rightarrow> pv \<Rightarrow> (reader \<times> pdict list) res" where
  "message_delta_event cid created s data =
     rbind (pget data ''usage'' PNone) (\<lambda>u. rbind (add_usage u s) (\<lambda>s.
     rbind (pget data ''delta'' PNone) (\<lambda>d. rbind (pget (py_or d (PDict [])) ''stop_reason'' PNone) (\<lambda>r.
     rbind (if truthy r then rmap PStr (look_up anthropic_finish_reasons r ''stop'') else Inr PNone) (\<lambda>finish.
     rbind (convert_anthropic_usage_to_openai (rd_usage s)) (\<lambda>usage.
       Inr (s, [completion_chunk cid created (rd_model s) [] finish (Some usage)])))))))"

definition handle_event ::
  "float_ops \<Rightarrow> string \<Rightarrow> int \<Rightarrow> reader \<Rightarrow> string option \<Rightarrow> string \<Rightarrow> (reader \<times> pdict list) res" where
  "handle_event fo cid created s event_name raw_data = (case json_loads (fl_read fo) raw_data of
      Inl _ \<Rightarrow> Inr (s, [])
    | Inr data \<Rightarrow>
        (let mk = (\<lambda>s delta. completion_chunk cid created (rd_model s) delta PNone None) in
         rbind (pget data ''type'' PNone) (\<lambda>t.
         let t = py_or t (case event_name of None \<Rightarrow> PNone | Some n \<Rightarrow> PStr n) in
           if t = PStr ''message_start''
           then rbind (pget data ''message'' PNone) (\<lambda>m. let m = py_or m (PDict []) in
             rbind (pget m ''model'' PNone) (\<lambda>model. let s = s\<lparr>rd_model := py_or model (rd_model s)\<rparr> in
             rbind (pget m ''usage'' PNone) (\<lambda>u. rbind (add_usage u s) (\<lambda>s.
               Inr (s, [mk s [(''role'', PStr ''assistant'')]])))))
           else if t = PStr ''content_block_start'' then block_start_event mk s data
           else if t = PStr ''content_block_delta'' then block_delta_event mk s data
           else if t = PStr ''message_delta'' then message_delta_event cid created s data
           else if t = PStr ''error'' then Inr (s, [convert_anthropic_error_to_openai (fl_repr fo) data PNone])
           else Inr (s, []))))"

text \<open>What is yielded, up to an exception if there is one\<close>

type_synonym reading = "reader \<times> pdict list \<times> py_error option"

definition read_event :: "float_ops \<Rightarrow> string \<Rightarrow> int \<Rightarrow> reading \<Rightarrow> string option \<times> string list \<Rightarrow> reading" where
  "read_event fo cid created r event = (case r of (s, out, failed) \<Rightarrow> (case event of (name, datas) \<Rightarrow>
     if failed \<noteq> None \<or> datas = [] then r
     else (case handle_event fo cid created s name (py_join nl datas) of
         Inl e \<Rightarrow> (s, out, Some e)
       | Inr (s', emitted) \<Rightarrow> (s', out @ emitted, None))))"

definition read_chunk :: "float_ops \<Rightarrow> string \<Rightarrow> int \<Rightarrow> reading \<times> string \<Rightarrow> string \<Rightarrow> reading \<times> string" where
  "read_chunk fo cid created rb chunk = (case rb of (r, buffer) \<Rightarrow>
     (let (frames, left) = take_frames (unix_lines (buffer @ chunk))
      in (foldl (read_event fo cid created) r (map read_frame frames), left)))"

definition read_end :: "float_ops \<Rightarrow> string \<Rightarrow> int \<Rightarrow> reading \<times> string \<Rightarrow> reading" where
  "read_end fo cid created rb = (case rb of (r, buffer) \<Rightarrow>
     if py_strip buffer = [] then r else read_event fo cid created r (None, last_data_lines buffer))"

definition anthropic_stream_to_openai_stream ::
  "float_ops \<Rightarrow> string \<Rightarrow> int \<Rightarrow> pv \<Rightarrow> string list \<Rightarrow> string list \<times> py_error option" where
  "anthropic_stream_to_openai_stream fo uuid created model chunks =
     (let cid = ''chatcmpl-'' @ uuid;
          start = (\<lparr>rd_model = model, rd_usage = [], rd_tools = []\<rparr>, [], None);
          (s, out, failed) = read_end fo cid created (foldl (read_chunk fo cid created) (start, []) chunks);
          lines = map (\<lambda>d. ''data: '' @ json_dumps True (fl_repr fo) (PDict d) @ nl @ nl) out
      in (case failed of None \<Rightarrow> (lines @ [''data: [DONE]'' @ nl @ nl], None) | Some e \<Rightarrow> (lines, Some e)))"

section \<open>The cuts of the stream do not matter\<close>

lemma split_once_length: "split_once sep s = Some (a, b) \<Longrightarrow> length sep \<le> length s"
  by (induction s arbitrary: a) (auto simp: py_startswith_iff split: if_splits, metis le_add1 length_Cons length_append)

lemma py_startswith_shorter:
  "length p \<le> length s \<Longrightarrow> py_startswith (s @ t) p = py_startswith s p"
  by (simp add: py_startswith_def)

lemma split_once_append: "split_once sep s = Some (a, b) \<Longrightarrow> split_once sep (s @ t) = Some (a, b @ t)"
proof (induction s arbitrary: a)
  case Nil
  then show ?case by (cases t) (auto simp: py_startswith_def split: if_splits)
next
  case (Cons c s)
  have "length sep \<le> length (c # s)" using split_once_length [OF Cons.prems] .
  then have "py_startswith (c # s @ t) sep = py_startswith (c # s) sep" "drop (length sep) (c # s @ t) = drop (length sep) (c # s) @ t"
    using py_startswith_shorter [of sep "c # s" t] by (simp_all add: drop_append [of _ "c # s" t, simplified])
  then show ?case using Cons by (auto split: if_splits)
qed

lemma take_frames_append:
  "take_frames (s @ t) = (case take_frames s of (fs, r) \<Rightarrow> case take_frames (r @ t) of (gs, q) \<Rightarrow> (fs @ gs, q))"
proof (induction s rule: take_frames.induct)
  case (1 s)
  show ?case
  proof (cases "split_once blank_line s")
    case None
    then have "take_frames s = ([], s)" by (simp add: take_frames.simps [of s])
    then show ?thesis by (simp split: prod.splits)
  next
    case (Some p)
    obtain a b where p: "p = (a, b)" by (cases p)
    with Some have "split_once blank_line (s @ t) = Some (a, b @ t)" using split_once_append by blast
    then show ?thesis using Some p 1 [OF Some [unfolded p] refl]
      by (simp add: take_frames.simps [of s] take_frames.simps [of "s @ t"] split: prod.splits)
  qed
qed

lemma take_frames_left: "take_frames s = (fs, r) \<Longrightarrow> take_frames r = ([], r)"
proof (induction s arbitrary: fs rule: take_frames.induct)
  case (1 s)
  show ?case
  proof (cases "split_once blank_line s")
    case None
    with 1(2) show ?thesis by (auto simp: take_frames.simps [of s] take_frames.simps [of r])
  next
    case (Some p)
    obtain a b where p: "p = (a, b)" by (cases p)
    obtain gs where "take_frames b = (gs, r)" using 1(2) Some p by (auto simp: take_frames.simps [of s] split: prod.splits)
    then show ?thesis using 1(1) [OF Some [unfolded p] refl] by blast
  qed
qed

lemma unix_lines_same: "CHR 0x0D \<notin> set s \<Longrightarrow> unix_lines s = s"
  by (induction s rule: unix_lines.induct) auto

lemma take_frames_chars:
  "set (snd (take_frames s)) \<subseteq> set s"
proof (induction s rule: take_frames.induct)
  case (1 s)
  have part: "split_once sep s = Some (a, b) \<Longrightarrow> set b \<subseteq> set s" for sep a b and s :: string
    by (induction s arbitrary: a) (auto split: if_splits dest: in_set_dropD)
  show ?case
  proof (cases "split_once blank_line s")
    case None
    then show ?thesis by (simp add: take_frames.simps [of s])
  next
    case (Some p)
    obtain a b where p: "p = (a, b)" by (cases p)
    then show ?thesis using 1 [OF Some [unfolded p] refl] part [OF Some [unfolded p]] Some
      by (auto simp: take_frames.simps [of s] split: prod.splits)
  qed
qed

lemma read_chunks:
  assumes "CHR 0x0D \<notin> set (b @ concat chunks)" and "take_frames b = ([], b)"
  shows "foldl (read_chunk fo cid created) (r, b) chunks =
    (case take_frames (b @ concat chunks) of (fs, left) \<Rightarrow> (foldl (read_event fo cid created) r (map read_frame fs), left))"
  using assms
proof (induction chunks arbitrary: r b)
  case Nil
  then show ?case by simp
next
  case (Cons c chunks)
  obtain fs left where f: "take_frames (b @ c) = (fs, left)" by (cases "take_frames (b @ c)")
  have cr: "CHR 0x0D \<notin> set (left @ concat chunks)"
    using Cons.prems(1) take_frames_chars [of "b @ c"] f by auto
  have step: "read_chunk fo cid created (r, b) c = (foldl (read_event fo cid created) r (map read_frame fs), left)"
    using Cons.prems(1) f by (simp add: read_chunk_def unix_lines_same)
  show ?case
    using Cons.IH [OF cr take_frames_left [OF f], of "foldl (read_event fo cid created) r (map read_frame fs)"]
      take_frames_append [of "b @ c" "concat chunks"] f step
    by (simp split: prod.splits)
qed



section \<open>Responses there and back\<close>

text \<open>A response of texts and then calls\<close>

record answer =
  an_id :: string
  an_model :: string
  an_texts :: "string list"
  an_calls :: "call list"
  an_reason :: string
  an_usage :: pdict

definition answer_value :: "answer \<Rightarrow> pdict" where
  "answer_value a = [(''id'', PStr (an_id a)), (''type'', PStr ''message''), (''role'', PStr ''assistant''),
     (''model'', PStr (an_model a)), (''content'', PList (map (PDict \<circ> text_block \<circ> PStr) (an_texts a) @ map (PDict \<circ> call_block) (an_calls a))),
     (''stop_reason'', PStr (an_reason a)), (''stop_sequence'', PNone), (''usage'', PDict (an_usage a))]"

definition counts_given :: "pdict \<Rightarrow> bool" where
  "counts_given u = (\<forall>k\<in>{''input_tokens'', ''output_tokens'', ''cache_creation_input_tokens'', ''cache_read_input_tokens''}.
     case od_get u k of None \<Rightarrow> k \<in> {''cache_creation_input_tokens'', ''cache_read_input_tokens''} | Some (PInt _) \<Rightarrow> True | Some _ \<Rightarrow> False)"

definition answer_ok :: "answer \<Rightarrow> bool" where
  "answer_ok a = (an_id a \<noteq> [] \<and> an_reason a \<in> {''end_turn'', ''max_tokens'', ''tool_use''} \<and>
     (\<forall>c\<in>set (an_calls a). cl_id c \<noteq> [] \<and> json_plain (PDict (cl_input c))) \<and>
     counts_given (an_usage a) \<and> od_get (an_usage a) ''prompt_tokens_details'' = None)"

lemma call_block_answer:
  "answer_block f uuid a (j, PDict (call_block c)) = Inr (a\<lparr>ap_calls := ap_calls a @
     [[(''id'', py_or (PStr (cl_id c)) (PStr (''call_'' @ uuid j))), (''type'', PStr ''function''),
       (''function'', PDict [(''name'', cl_name c), (''arguments'', PStr (compact_dumps True f (PDict (cl_input c))))])]]\<rparr>)"
  by (cases "cl_input c") (simp_all add: answer_block_def call_block_def py_or_def del: compact_dumps.simps)

definition compact_call :: "(rat \<Rightarrow> string) \<Rightarrow> call \<Rightarrow> pdict" where
  "compact_call f c = [(''id'', PStr (cl_id c)), (''type'', PStr ''function''),
     (''function'', PDict [(''name'', cl_name c), (''arguments'', PStr (compact_dumps True f (PDict (cl_input c))))])]"

lemma answer_texts:
  "rfoldM (answer_block f uuid) a (enumerate n (map (PDict \<circ> text_block \<circ> PStr) ts)) = Inr (a\<lparr>ap_texts := ap_texts a @ map PStr ts\<rparr>)"
  by (induction ts arbitrary: a n) (simp_all add: answer_block_def text_block_def)

lemma answer_calls:
  assumes "\<forall>c\<in>set cs. cl_id c \<noteq> []"
  shows "rfoldM (answer_block f uuid) a (enumerate n (map (PDict \<circ> call_block) cs)) =
    Inr (a\<lparr>ap_calls := ap_calls a @ map (compact_call f) cs\<rparr>)"
  using assms by (induction cs arbitrary: a n) (simp_all add: call_block_answer compact_call_def py_or_def)

lemma join_texts: "join_values [] (map PStr ts) = Inr (concat ts)"
proof -
  have "py_join [] ts = concat ts" by (induction "[] :: string" ts rule: py_join.induct) simp_all
  moreover have "rmapM (\<lambda>v. case v of PStr s \<Rightarrow> Inr s | _ \<Rightarrow> Inl TypeError) (map PStr ts) = Inr ts"
    by (induction ts) simp_all
  ultimately show ?thesis by (simp add: join_values_def)
qed

lemma use_compact:
  assumes "json_plain (PDict (cl_input c))"
  shows "use_block rd u (PDict (compact_call f c)) = Inr (call_block c)"
  using json_loads_compact [OF assms, of rd True f]
  by (simp add: use_block_def compact_call_def call_block_def del: compact_dumps.simps)

lemma use_compacts:
  assumes "\<forall>c\<in>set cs. json_plain (PDict (cl_input c))"
  shows "rmapM (\<lambda>(j, call). use_block rd (u j) call) (enumerate n (map (PDict \<circ> compact_call f) cs)) = Inr (map call_block cs)"
  using assms by (induction cs arbitrary: n) (simp_all add: use_compact)

lemma usage_back:
  assumes "counts_given u" "od_get u ''prompt_tokens_details'' = None"
  shows "\<exists>v. convert_anthropic_usage_to_openai u = Inr v \<and> od_get v ''anthropic_input_tokens'' = od_get u ''input_tokens'' \<and>
    od_get v ''anthropic_output_tokens'' = od_get u ''output_tokens'' \<and>
    od_get v ''cache_creation_input_tokens'' = od_get u ''cache_creation_input_tokens'' \<and>
    od_get v ''cache_read_input_tokens'' = od_get u ''cache_read_input_tokens''"
proof -
  from assms(1) obtain i out where io: "od_get u ''input_tokens'' = Some (PInt i)" "od_get u ''output_tokens'' = Some (PInt out)"
    by (auto simp: counts_given_def split: option.splits pv.splits)
  have opt: "\<exists>n. token_count u k = Inr n" if "k \<in> {''cache_creation_input_tokens'', ''cache_read_input_tokens''}" for k
    using assms(1) that by (auto simp: counts_given_def token_count_def od_getd_def py_or_def py_int_def split: option.splits pv.splits)
  from opt [of "''cache_creation_input_tokens''"] opt [of "''cache_read_input_tokens''"]
  obtain c r where cr: "token_count u ''cache_creation_input_tokens'' = Inr c" "token_count u ''cache_read_input_tokens'' = Inr r" by auto
  have "token_count u ''input_tokens'' = Inr i" "token_count u ''output_tokens'' = Inr out"
    by (simp_all add: token_count_def od_getd_def io py_or_def py_int_def)
  then show ?thesis using cr io assms(2)
    by (simp add: convert_anthropic_usage_to_openai_def with_cached_def Let_def od_getd_def py_or_def)
qed

lemma set_opt_get: "od_get (set_opt k v d) k' = (if k' = k \<and> v \<noteq> None then v else od_get d k')"
  by (auto simp: set_opt_def split: option.splits)

lemma anthropic_usage_back:
  assumes "counts_given u" "od_get u ''prompt_tokens_details'' = None" "convert_anthropic_usage_to_openai u = Inr v"
  shows "\<exists>w. anthropic_usage (PDict v) = Inr w \<and>
    (\<forall>k\<in>{''input_tokens'', ''output_tokens'', ''cache_creation_input_tokens'', ''cache_read_input_tokens''}. od_get w k = od_get u k)"
proof -
  from usage_back [OF assms(1,2)] assms(3) have v: "od_get v ''anthropic_input_tokens'' = od_get u ''input_tokens''"
    "od_get v ''anthropic_output_tokens'' = od_get u ''output_tokens''"
    "od_get v ''cache_creation_input_tokens'' = od_get u ''cache_creation_input_tokens''"
    "od_get v ''cache_read_input_tokens'' = od_get u ''cache_read_input_tokens''" by auto
  from assms(1) obtain i out where io: "od_get u ''input_tokens'' = Some (PInt i)" "od_get u ''output_tokens'' = Some (PInt out)"
    by (auto simp: counts_given_def split: option.splits pv.splits)
  have "anthropic_usage (PDict v) = Inr (set_opt ''cache_read_input_tokens'' (od_get u ''cache_read_input_tokens'')
    (set_opt ''cache_creation_input_tokens'' (od_get u ''cache_creation_input_tokens'')
      [(''input_tokens'', PInt i), (''output_tokens'', PInt out)]))"
    using v io by (simp add: anthropic_usage_def od_getd_def)
  then show ?thesis using io by (simp add: set_opt_get)
qed

definition openai_message :: "(rat \<Rightarrow> string) \<Rightarrow> answer \<Rightarrow> pdict" where
  "openai_message f a = [(''role'', PStr ''assistant''), (''content'', PStr (concat (an_texts a)))] @
     (if an_calls a \<noteq> [] then [(''tool_calls'', PList (map (PDict \<circ> compact_call f) (an_calls a)))] else [])"

lemma answer_converted:
  assumes "answer_ok a"
    and "convert_anthropic_to_openai_response f uuid new_id now (answer_value a) request_id = Inr response"
  obtains usage finish where "convert_anthropic_usage_to_openai (an_usage a) = Inr usage"
    and "look_up anthropic_finish_reasons (PStr (an_reason a)) ''stop'' = Inr finish"
    and "od_get response ''id'' = Some (PStr (an_id a))" and "od_get response ''model'' = Some (PStr (an_model a))"
    and "od_get response ''choices'' = Some (PList [PDict [(''index'', PInt 0), (''message'', PDict (openai_message f a)),
      (''finish_reason'', PStr finish)]])" and "od_get response ''usage'' = Some (PDict usage)"
proof -
  let ?a = "\<lparr>ap_texts = map PStr (an_texts a), ap_calls = map (compact_call f) (an_calls a), ap_extra = []\<rparr>"
  let ?blocks = "map (PDict \<circ> text_block \<circ> PStr) (an_texts a) @ map (PDict \<circ> call_block) (an_calls a)"
  have calls: "\<forall>c\<in>set (an_calls a). cl_id c \<noteq> []" and id: "an_id a \<noteq> []" using assms(1) by (auto simp: answer_ok_def)
  have content: "piter (py_or (od_getd (answer_value a) ''content'' PNone) (PList [])) = Inr ?blocks"
    by (simp add: answer_value_def py_or_def)
  have blocks: "rfoldM (answer_block f uuid) \<lparr>ap_texts = [], ap_calls = [], ap_extra = []\<rparr> (enumerate 0 ?blocks) = Inr ?a"
    by (simp only: enumerate_append_eq rfoldM_append answer_texts answer_calls [OF calls] rbind_simps) simp
  have message: "answer_message ?a = Inr (openai_message f a)"
    by (simp add: answer_message_def join_texts openai_message_def)
  have fields: "od_getd (answer_value a) ''stop_reason'' PNone = PStr (an_reason a)" "od_getd (answer_value a) ''id'' PNone = PStr (an_id a)"
    "od_getd (answer_value a) ''model'' (PStr []) = PStr (an_model a)" "od_getd (answer_value a) ''stop_sequence'' PNone = PNone"
    "as_dict (od_getd (answer_value a) ''usage'' PNone) = Inr (an_usage a)"
    by (simp_all add: answer_value_def as_dict_def)
  from assms(2) obtain finish usage where f: "look_up anthropic_finish_reasons (PStr (an_reason a)) ''stop'' = Inr finish"
    and u: "convert_anthropic_usage_to_openai (an_usage a) = Inr usage"
    and r: "response = (case request_id of None \<Rightarrow> id | Some r \<Rightarrow> if r = [] then id else od_set ''request_id'' (PStr r))
      [(''id'', PStr (an_id a)), (''object'', PStr ''chat.completion''), (''created'', PInt now), (''model'', PStr (an_model a)),
       (''choices'', PList [PDict [(''index'', PInt 0), (''message'', PDict (openai_message f a)), (''finish_reason'', PStr finish)]]),
       (''usage'', PDict usage)]"
    unfolding convert_anthropic_to_openai_response_def content rbind_simps blocks message fields Let_def
    using id by (auto simp: rbind_eq_Inr py_or_def split: option.splits if_splits)
  show ?thesis by (rule that [OF u f]) (simp_all add: r split: option.splits)
qed

lemma message_read_back:
  assumes plain: "\<forall>c\<in>set (an_calls a). json_plain (PDict (cl_input c))"
    and response: "od_get response ''id'' = Some (PStr (an_id a))" "od_get response ''model'' = Some (PStr (an_model a))"
      "od_get response ''choices'' = Some (PList [PDict [(''index'', PInt 0), (''message'', PDict (openai_message f a)),
        (''finish_reason'', PStr finish)]])" "od_get response ''usage'' = Some (PDict usage)"
    and stop: "look_up openai_stop_reason_map (PStr finish) ''end_turn'' = Inr reason"
    and used: "anthropic_usage (PDict usage) = Inr u"
  shows "convert_openai_to_anthropic_response rd uuid' new_id' response PNone = Inr
     [(''id'', PStr (an_id a)), (''type'', PStr ''message''), (''role'', PStr ''assistant''),
      (''content'', PList (map PDict ((if truthy (PStr (concat (an_texts a))) then [text_block (PStr (concat (an_texts a)))] else []) @
        map call_block (an_calls a)))), (''model'', PStr (an_model a)), (''stop_reason'', PStr reason),
      (''stop_sequence'', PNone), (''usage'', PDict u)]"
proof -
  obtain m where m: "pget (PDict (openai_message f a)) ''tool_calls'' PNone = Inr m"
    "piter (py_or m (PList [])) = Inr (map (PDict \<circ> compact_call f) (an_calls a))"
    by (cases "an_calls a = []") (simp_all add: openai_message_def py_or_def)
  have message: "pget (PDict (openai_message f a)) ''content'' PNone = Inr (PStr (concat (an_texts a)))"
    by (simp add: openai_message_def)
  have choice: "(if truthy (od_getd response ''choices'' PNone) then first_item (od_getd response ''choices'' PNone) else Inr (PDict [])) =
      Inr (PDict [(''index'', PInt 0), (''message'', PDict (openai_message f a)), (''finish_reason'', PStr finish)])"
    "pget (PDict [(''index'', PInt 0), (''message'', PDict (openai_message f a)), (''finish_reason'', PStr finish)]) ''message'' (PDict []) =
      Inr (PDict (openai_message f a))"
    "pget (PDict [(''index'', PInt 0), (''message'', PDict (openai_message f a)), (''finish_reason'', PStr finish)]) ''finish_reason''
      (PStr ''stop'') = Inr (PStr finish)"
    using response(3) by (simp_all add: od_getd_def first_item_def)
  have fields: "od_getd response ''usage'' (PDict []) = PDict usage" "od_getd response ''id'' w = PStr (an_id a)"
    "py_or PNone (od_getd response ''model'' v) = PStr (an_model a)" for v w
    using response by (simp_all add: od_getd_def py_or_def)
  show ?thesis
    unfolding convert_openai_to_anthropic_response_def choice(1) rbind_simps choice(2,3) stop message m use_compacts [OF plain] fields used ..
qed


definition sample_answer :: answer where
  "sample_answer = \<lparr>an_id = ''msg_1'', an_model = ''m'', an_texts = [''a'', ''b''],
     an_calls = [\<lparr>cl_id = ''c1'', cl_name = PStr ''find'', cl_input = [(''n'', PInt 1)]\<rparr>], an_reason = ''tool_use'',
     an_usage = [(''input_tokens'', PInt 3), (''output_tokens'', PInt 4), (''cache_read_input_tokens'', PInt 5)]\<rparr>"

definition sample_response :: pdict where
  "sample_response = (case convert_anthropic_to_openai_response (\<lambda>_. []) (\<lambda>_. ''u'') ''x'' 0 (answer_value sample_answer) None of
     Inr r \<Rightarrow> r | _ \<Rightarrow> [])"

definition sample_read_back :: pdict where
  "sample_read_back = (case convert_openai_to_anthropic_response (\<lambda>_. 0) (\<lambda>_. ''u'') ''y'' sample_response PNone of
     Inr r \<Rightarrow> r | _ \<Rightarrow> [])"

lemma sample_answer_converted:
  "convert_anthropic_to_openai_response (\<lambda>_. []) (\<lambda>_. ''u'') ''x'' 0 (answer_value sample_answer) None = Inr sample_response"
  "convert_openai_to_anthropic_response (\<lambda>_. 0) (\<lambda>_. ''u'') ''y'' sample_response PNone = Inr sample_read_back"
  by code_simp+


end
