(* ===== verification/Text_Scan.thy ===== *)
theory Text_Scan
  imports Json
begin

text \<open>
  The scanning of a text from left to right for the occurrences of a token, as \<^verbatim>\<open>str.replace\<close> and
  \<^verbatim>\<open>re.sub\<close> do it. A matcher looks at the rest of the text and gives the length of the
  occurrence there, if there is one, with what it captured. Part of the language: it maps to no file.
\<close>

section \<open>Scanning\<close>

text \<open>The characters outside the occurrences and the captures, in their order; \<open>k\<close> characters are
  still inside the last occurrence.\<close>

fun scan_go :: "(string \<Rightarrow> (nat \<times> 'a) option) \<Rightarrow> nat \<Rightarrow> string \<Rightarrow> (char + 'a) list" where
  "scan_go m k [] = []"
| "scan_go m (Suc k) (c # s) = scan_go m k s"
| "scan_go m 0 (c # s) = (case m (c # s) of
      None \<Rightarrow> Inl c # scan_go m 0 s
    | Some (n, a) \<Rightarrow> Inr a # scan_go m (n - 1) s)"

definition scan :: "(string \<Rightarrow> (nat \<times> 'a) option) \<Rightarrow> string \<Rightarrow> (char + 'a) list" where
  "scan m s = scan_go m 0 s"

lemma scan_Nil [simp]: "scan m [] = []"
  by (simp add: scan_def)

lemma scan_go_skip: "scan_go m (length t) (t @ s) = scan_go m 0 s"
  by (induction t) simp_all

text \<open>A text in which no occurrence begins, whatever follows it\<close>

lemma scan_literal:
  "(\<And>i. i < length t \<Longrightarrow> m (drop i t @ s) = None) \<Longrightarrow> scan m (t @ s) = map Inl t @ scan m s"
proof (induction t)
  case (Cons c t)
  have "m (c # t @ s) = None"
    using Cons.prems [of 0] by simp
  moreover have "scan m (t @ s) = map Inl t @ scan m s"
  proof (rule Cons.IH)
    fix i assume "i < length t"
    then show "m (drop i t @ s) = None"
      using Cons.prems [of "Suc i"] by simp
  qed
  ultimately show ?case
    by (simp add: scan_def)
qed simp

lemma scan_token:
  assumes "m (t @ s) = Some (length t, a)" and "t \<noteq> []"
  shows "scan m (t @ s) = Inr a # scan m s"
proof -
  obtain c u where t: "t = c # u"
    using assms(2) by (cases t) auto
  show ?thesis
    using assms(1) by (simp add: scan_def t scan_go_skip)
qed

lemma scan_none:
  assumes "\<And>i. i < length t \<Longrightarrow> m (drop i t) = None"
  shows "scan m t = map Inl t"
  using scan_literal [of t m "[]"] assms by simp

section \<open>Replacement of a text\<close>

definition text_at :: "string \<Rightarrow> string \<Rightarrow> (nat \<times> unit) option" where
  "text_at p s = (if py_startswith s p then Some (length p, ()) else None)"

text \<open>\<^verbatim>\<open>s.replace(old, new)\<close>: an empty \<open>old\<close> is between all characters and at both ends.\<close>

definition py_replace :: "string \<Rightarrow> string \<Rightarrow> string \<Rightarrow> string" where
  "py_replace old new s =
     (if old = [] then new @ concat (map (\<lambda>c. c # new) s)
      else concat (map (case_sum (\<lambda>c. [c]) (\<lambda>_. new)) (scan (text_at old) s)))"

lemma concat_singletons [simp]: "concat (map (case_sum (\<lambda>c. [c]) f \<circ> Inl) t) = t"
  by (induction t) simp_all

lemma py_replace_Nil [simp]: "old \<noteq> [] \<Longrightarrow> py_replace old new [] = []"
  by (simp add: py_replace_def)

lemma py_replace_append:
  assumes "old \<noteq> []" and "\<And>i. i < length t \<Longrightarrow> \<not> py_startswith (drop i t @ s) old"
  shows "py_replace old new (t @ s) = t @ py_replace old new s"
  using assms scan_literal [of t "text_at old" s] by (simp add: py_replace_def text_at_def)

lemma py_replace_token:
  assumes "old \<noteq> []"
  shows "py_replace old new (old @ s) = new @ py_replace old new s"
  using assms scan_token [of "text_at old" old s "()"]
  by (simp add: py_replace_def text_at_def py_startswith_def)

lemma startswith_Cons [simp]: "py_startswith (c # s) (d # p) = (c = d \<and> py_startswith s p)"
  by (auto simp: py_startswith_def)

lemma startswith_Nil [simp]: "py_startswith s []" "py_startswith [] (d # p) = False"
  by (simp_all add: py_startswith_def)

lemma py_replace_step:
  "\<not> py_startswith (c # s) old \<Longrightarrow> py_replace old new (c # s) = c # py_replace old new s"
  using py_replace_append [of old "[c]" s new] by (cases "old = []") simp_all

text \<open>The first character of the replaced text is missing: nothing is replaced.\<close>

lemma py_replace_no_first:
  assumes "c \<notin> set t"
  shows "py_replace (c # old) new (t @ s) = t @ py_replace (c # old) new s"
proof (rule py_replace_append)
  fix i assume "i < length t"
  then have "drop i t @ s = t ! i # drop (Suc i) t @ s" and "t ! i \<in> set t"
    by (simp_all add: Cons_nth_drop_Suc [symmetric])
  then show "\<not> py_startswith (drop i t @ s) (c # old)"
    using assms by (auto simp: py_startswith_def)
qed simp

lemma py_replace_id:
  assumes "c \<notin> set t"
  shows "py_replace (c # old) new t = t"
  using py_replace_no_first [OF assms, of old new "[]"] by simp

section \<open>Parts of matchers\<close>

text \<open>The rest after a fixed text; \<open>ci\<close> ignores the case of the letters (the fixed text is in lower
  case then).\<close>

definition after_text :: "bool \<Rightarrow> string \<Rightarrow> string \<Rightarrow> string option" where
  "after_text ci p s =
     (if (if ci then py_lower (take (length p) s) else take (length p) s) = p
      then Some (drop (length p) s) else None)"

text \<open>\<^verbatim>\<open>(\d+)\<close> where no digit follows in the pattern: its number and the rest\<close>

definition after_digits :: "string \<Rightarrow> (string \<times> string) option" where
  "after_digits s = (let d = takeWhile is_digit_char s in
     if d = [] then None else Some (d, dropWhile is_digit_char s))"

text \<open>\<^verbatim>\<open>\w\<close> on the characters of Latin-1\<close>

definition word_char :: "char \<Rightarrow> bool" where
  "word_char c = (let n = (of_char c :: nat) in
     (48 \<le> n \<and> n \<le> 57) \<or> (65 \<le> n \<and> n \<le> 90) \<or> (97 \<le> n \<and> n \<le> 122) \<or> n = 95
     \<or> n \<in> {170, 178, 179, 181, 185, 186, 188, 189, 190}
     \<or> (192 \<le> n \<and> n \<noteq> 215 \<and> n \<noteq> 247))"

lemma after_text_Nil [simp]: "after_text ci [] s = Some s"
  by (simp add: after_text_def py_lower_def)

lemma after_text_Cons_Nil [simp]: "after_text ci (c # p) [] = None"
  by (simp add: after_text_def py_lower_def)

lemma after_text_Cons [simp]:
  "after_text ci (c # p) (x # s) =
     (if (if ci then lower_char x else x) = c then after_text ci p s else None)"
  by (auto simp: after_text_def py_lower_def)

lemma after_text_append:
  assumes "ci \<Longrightarrow> py_lower p = p"
  shows "after_text ci p (p @ s) = Some s"
  using assms by (simp add: after_text_def)

lemma after_text_exact: "after_text False p (p @ s) = Some s"
  by (simp add: after_text_def)

lemma after_digits_nat:
  assumes "s = [] \<or> \<not> is_digit_char (hd s)"
  shows "after_digits (nat_digits n @ s) = Some (nat_digits n, s)"
proof -
  have "takeWhile is_digit_char (nat_digits n @ s) = nat_digits n"
    and "dropWhile is_digit_char (nat_digits n @ s) = s"
    using assms nat_digits_digits [of n]
    by (cases s; simp add: takeWhile_append dropWhile_append)+
  moreover have "nat_digits n \<noteq> []"
    using nat_digits_first [of n] by auto
  ultimately show ?thesis
    by (simp add: after_digits_def Let_def)
qed

end
