(* ===== verification/Task_Templates.thy ===== *)
theory Task_Templates
  imports Text_Scan Chat_Messages
begin

text \<open>
  The templates of the prompts that the backend writes itself (titles, tags, queries, retrieved
  context), \<^verbatim>\<open>backend/openlaunch/utils/task.py\<close>. The regular expressions are matchers over the rest
  of the text (\<open>Text_Scan\<close>). The clock, the parser of dates and the query of a user's groups are
  arguments. Strings are Latin-1, numbers in placeholders have no bound on their digits, and
  slicing a dictionary is a \<open>TypeError\<close>, as it is before version 3.12 of the interpreter.
\<close>

section \<open>The model of a task\<close>

definition get_task_model_id :: "string \<Rightarrow> string \<Rightarrow> string \<Rightarrow> pdict \<Rightarrow> string res" where
  "get_task_model_id default_id task_model external models =
     rbind (pget (od_getd models default_id (PDict [])) ''connection_type'' PNone) (\<lambda>t.
       Inr (if t = PStr ''local''
            then (if task_model \<noteq> [] \<and> od_has models task_model then task_model else default_id)
            else (if external \<noteq> [] \<and> od_has models external then external else default_id)))"

section \<open>Slices\<close>

definition plen :: "pv \<Rightarrow> nat res" where
  "plen v = (case v of PStr s \<Rightarrow> Inr (length s) | PList xs \<Rightarrow> Inr (length xs) | PDict d \<Rightarrow> Inr (length d)
     | _ \<Rightarrow> Inl TypeError)"

text \<open>\<^verbatim>\<open>xs[-n:]\<close> is all of \<open>xs\<close> where \<open>n\<close> is zero.\<close>

definition last_n :: "nat \<Rightarrow> 'a list \<Rightarrow> 'a list" where
  "last_n n xs = (if n = 0 then xs else drop (length xs - n) xs)"

definition slice_first :: "nat \<Rightarrow> pv \<Rightarrow> pv res" where
  "slice_first n v = (case v of PStr s \<Rightarrow> Inr (PStr (take n s)) | PList xs \<Rightarrow> Inr (PList (take n xs))
     | _ \<Rightarrow> Inl TypeError)"

definition slice_last :: "nat \<Rightarrow> pv \<Rightarrow> pv res" where
  "slice_last n v = (case v of PStr s \<Rightarrow> Inr (PStr (last_n n s)) | PList xs \<Rightarrow> Inr (PList (last_n n xs))
     | _ \<Rightarrow> Inl TypeError)"

text \<open>The two ends of a value around an ellipsis\<close>

definition both_ends :: "(rat \<Rightarrow> string) \<Rightarrow> nat \<Rightarrow> nat \<Rightarrow> pv \<Rightarrow> pv res" where
  "both_ends f a b v = rbind (slice_first a v) (\<lambda>x. rbind (slice_last b v) (\<lambda>y.
     Inr (PStr (py_str f x @ ''...'' @ py_str f y))))"

lemma last_n_length [simp]: "0 < n \<Longrightarrow> length (last_n n xs) = min n (length xs)"
  by (simp add: last_n_def)

lemma slice_str [simp]:
  "slice_first n (PStr s) = Inr (PStr (take n s))" "slice_last n (PStr s) = Inr (PStr (last_n n s))"
  "plen (PStr s) = Inr (length s)"
  by (simp_all add: slice_first_def slice_last_def plen_def)

lemma both_ends_str [simp]:
  "both_ends f a b (PStr s) = Inr (PStr (take a s @ ''...'' @ last_n b s))"
  by (simp add: both_ends_def py_str_def)

section \<open>Placeholders\<close>

datatype cut = Whole | First nat | Last nat | Middle nat

text \<open>\<^verbatim>\<open>:start:(\d+)\<close> and the other counts, up to the closing braces\<close>

definition counted :: "bool \<Rightarrow> string \<Rightarrow> string \<Rightarrow> (nat \<times> string) option" where
  "counted ci word s =
     Option.bind (after_text ci word s) (\<lambda>r. Option.bind (after_digits r) (\<lambda>(d, r).
       map_option (\<lambda>r. (digits_val d, r)) (after_text ci ''}}'' r)))"

definition prompt_cut :: "bool \<Rightarrow> string \<Rightarrow> (cut \<times> string) option" where
  "prompt_cut ci r =
     (case after_text ci ''}}'' r of Some r' \<Rightarrow> Some (Whole, r')
      | None \<Rightarrow> (case counted ci '':start:'' r of Some (n, r') \<Rightarrow> Some (First n, r')
      | None \<Rightarrow> (case counted ci '':end:'' r of Some (n, r') \<Rightarrow> Some (Last n, r')
      | None \<Rightarrow> map_option (\<lambda>(n, r'). (Middle n, r')) (counted ci '':middletruncate:'' r))))"

text \<open>A placeholder for the prompt at the start of the text, with its length\<close>

definition prompt_token :: "bool \<Rightarrow> string \<Rightarrow> (nat \<times> cut) option" where
  "prompt_token ci s =
     Option.bind (after_text ci ''{{prompt'' s) (\<lambda>r.
       map_option (\<lambda>(c, r'). (length s - length r', c)) (prompt_cut ci r))"

text \<open>What stands for the placeholder (\<^verbatim>\<open>replacement_function\<close>)\<close>

definition cut_prompt :: "(rat \<Rightarrow> string) \<Rightarrow> pv \<Rightarrow> cut \<Rightarrow> pv res" where
  "cut_prompt f prompt c = (case c of
      Whole \<Rightarrow> Inr prompt
    | First n \<Rightarrow> slice_first n prompt
    | Last n \<Rightarrow> slice_last n prompt
    | Middle n \<Rightarrow> rbind (plen prompt) (\<lambda>l.
        if l \<le> n then Inr prompt else both_ends f ((n + 1) div 2) (n div 2) prompt))"

text \<open>What \<^verbatim>\<open>re.sub\<close> takes for the value of the function: nothing for None, else a text\<close>

definition sub_text :: "pv \<Rightarrow> string res" where
  "sub_text v = (case v of PNone \<Rightarrow> Inr [] | PStr s \<Rightarrow> Inr s | _ \<Rightarrow> Inl TypeError)"

text \<open>\<^verbatim>\<open>re.sub(pattern, function, s)\<close>\<close>

definition re_sub :: "(string \<Rightarrow> (nat \<times> 'a) option) \<Rightarrow> ('a \<Rightarrow> pv res) \<Rightarrow> string \<Rightarrow> string res" where
  "re_sub m g s = rmap concat (rmapM (case_sum (\<lambda>c. Inr [c]) (\<lambda>a. rbind (g a) sub_text)) (scan m s))"

definition replace_prompt_variable :: "(rat \<Rightarrow> string) \<Rightarrow> string \<Rightarrow> pv \<Rightarrow> string res" where
  "replace_prompt_variable f template prompt = re_sub (prompt_token True) (cut_prompt f prompt) template"

section \<open>Truncation\<close>

definition truncate_content :: "(rat \<Rightarrow> string) \<Rightarrow> pv \<Rightarrow> int \<Rightarrow> string \<Rightarrow> pv res" where
  "truncate_content f content max_chars mode =
     (if max_chars \<le> 0 then Inr (PStr [])
      else if \<not> truthy content then Inr content
      else rbind (plen content) (\<lambda>l. let n = nat max_chars; half = n div 2 in
        if l \<le> n then Inr content
        else if mode = ''start'' then slice_first n content
        else if mode = ''end'' then slice_last n content
        else both_ends f half (n - half) content))"

text \<open>\<^verbatim>\<open>filter_str.split(':')\<close> with its two parts, the mode in lower case and the count: None where
  the messages stay as they are\<close>

definition read_filter :: "string \<Rightarrow> (string \<times> int) option" where
  "read_filter flt = (case py_split CHR '':'' flt of
      [a, b] \<Rightarrow> (case int_of_str b of
          None \<Rightarrow> None
        | Some n \<Rightarrow> (if py_lower a \<in> {''middletruncate'', ''start'', ''end''} then Some (py_lower a, n) else None))
    | _ \<Rightarrow> None)"

definition truncate_part :: "(rat \<Rightarrow> string) \<Rightarrow> string \<Rightarrow> int \<Rightarrow> pv \<Rightarrow> pv res" where
  "truncate_part f mode n item = (case item of
      PDict d \<Rightarrow> (if od_getd d ''type'' PNone = PStr ''text''
        then rbind (truncate_content f (od_getd d ''text'' (PStr [])) n mode) (\<lambda>t.
          Inr (PDict (od_set ''text'' t d)))
        else Inr item)
    | _ \<Rightarrow> Inr item)"

definition truncate_message :: "(rat \<Rightarrow> string) \<Rightarrow> string \<Rightarrow> int \<Rightarrow> message \<Rightarrow> message res" where
  "truncate_message f mode n m = (case msg_get m ''content'' of
      PStr s \<Rightarrow> rbind (truncate_content f (PStr s) n mode) (\<lambda>t. Inr (od_set ''content'' t m))
    | PList items \<Rightarrow> rbind (rmapM (truncate_part f mode n) items) (\<lambda>items'.
        Inr (od_set ''content'' (PList items') m))
    | _ \<Rightarrow> Inr m)"

definition apply_content_filter :: "(rat \<Rightarrow> string) \<Rightarrow> message list \<Rightarrow> string \<Rightarrow> message list res" where
  "apply_content_filter f ms flt = (case read_filter flt of
      None \<Rightarrow> Inr ms
    | Some (mode, n) \<Rightarrow> rmapM (truncate_message f mode n) ms)"

section \<open>Placeholders for the conversation\<close>

text \<open>\<^verbatim>\<open>(?:\|(\w+:\d+))?\}\}\<close>\<close>

definition filter_end :: "string \<Rightarrow> (string option \<times> string) option" where
  "filter_end s = (case after_text False ''}}'' s of
      Some r \<Rightarrow> Some (None, r)
    | None \<Rightarrow> Option.bind (after_text False ''|'' s) (\<lambda>r.
        let w = takeWhile word_char r in if w = [] then None
        else Option.bind (after_text False '':'' (dropWhile word_char r)) (\<lambda>r.
          Option.bind (after_digits r) (\<lambda>(d, r).
            map_option (\<lambda>r. (Some (w @ '':'' @ d), r)) (after_text False ''}}'' r)))))"

definition counted_filter :: "string \<Rightarrow> string \<Rightarrow> (nat \<times> string option \<times> string) option" where
  "counted_filter word s =
     Option.bind (after_text False word s) (\<lambda>r. Option.bind (after_digits r) (\<lambda>(d, r).
       map_option (\<lambda>(flt, r). (digits_val d, flt, r)) (filter_end r)))"

definition messages_cut :: "string \<Rightarrow> ((cut \<times> string option) \<times> string) option" where
  "messages_cut r =
     (case filter_end r of Some (flt, r') \<Rightarrow> Some ((Whole, flt), r')
      | None \<Rightarrow> (case counted_filter '':START:'' r of Some (n, flt, r') \<Rightarrow> Some ((First n, flt), r')
      | None \<Rightarrow> (case counted_filter '':END:'' r of Some (n, flt, r') \<Rightarrow> Some ((Last n, flt), r')
      | None \<Rightarrow> map_option (\<lambda>(n, flt, r'). ((Middle n, flt), r')) (counted_filter '':MIDDLETRUNCATE:'' r))))"

definition messages_token :: "string \<Rightarrow> string \<Rightarrow> (nat \<times> cut \<times> string option) option" where
  "messages_token name s =
     Option.bind (after_text False (''{{'' @ name) s) (\<lambda>r.
       map_option (\<lambda>(c, r'). (length s - length r', c)) (messages_cut r))"

definition select_messages :: "cut \<Rightarrow> message list \<Rightarrow> message list" where
  "select_messages c ms = (case c of
      Whole \<Rightarrow> ms
    | First n \<Rightarrow> take n ms
    | Last n \<Rightarrow> last_n n ms
    | Middle n \<Rightarrow> (if length ms \<le> n then ms
        else let half = n div 2 in
          take half ms @ (if even n then last_n half ms else last_n (half + 1) ms)))"

definition messages_text :: "(rat \<Rightarrow> string) \<Rightarrow> message list option \<Rightarrow> cut \<times> string option \<Rightarrow> pv res" where
  "messages_text f messages c = (case messages of
      None \<Rightarrow> Inr (PStr [])
    | Some ms \<Rightarrow> rbind (case snd c of
          None \<Rightarrow> Inr (select_messages (fst c) ms)
        | Some flt \<Rightarrow> apply_content_filter f (select_messages (fst c) ms) flt)
        (\<lambda>ms'. rmap PStr (get_messages_content f ms')))"

definition replace_messages_variable ::
  "(rat \<Rightarrow> string) \<Rightarrow> string \<Rightarrow> message list option \<Rightarrow> string \<Rightarrow> string res" where
  "replace_messages_variable f template messages name =
     re_sub (messages_token name) (messages_text f messages) template"

section \<open>Variables of the user and the clock\<close>

text \<open>A calendar day with the text of its datetime; the date of birth in a user's fields\<close>

record day =
  d_year :: int
  d_month :: int
  d_day :: int
  d_text :: string

datatype birth = BirthText string | BirthDate day | BirthOther pv

record person =
  p_fields :: pdict
  p_birth :: birth

record clock =
  ck_today :: day
  ck_date :: string
  ck_time :: string
  ck_weekday :: string

text \<open>What the templates take from outside: the text of floats, \<^verbatim>\<open>strptime\<close> (None where it raises),
  the clock and the names of a user's groups (None where the query raises).\<close>

record task_env =
  te_float :: "rat \<Rightarrow> string"
  te_parse :: "string \<Rightarrow> day option"
  te_clock :: clock
  te_groups :: "pv \<Rightarrow> string list option"

definition age_on :: "day \<Rightarrow> day \<Rightarrow> int" where
  "age_on today b = d_year today - d_year b
     - (if d_month today < d_month b \<or> (d_month today = d_month b \<and> d_day today < d_day b) then 1 else 0)"

text \<open>\<^verbatim>\<open>str(birth_date)\<close> and \<^verbatim>\<open>str(age)\<close> after the attempt to read the date\<close>

definition birth_texts :: "task_env \<Rightarrow> birth \<Rightarrow> string \<times> string" where
  "birth_texts env b =
     (let aged = (\<lambda>d. (d_text d, py_str_int (age_on (ck_today (te_clock env)) d))) in
      case b of
        BirthText s \<Rightarrow> (if s = [] then (s, ''None'')
          else (case te_parse env s of None \<Rightarrow> (s, ''None'') | Some d \<Rightarrow> aged d))
      | BirthDate d \<Rightarrow> aged d
      | BirthOther v \<Rightarrow> (py_str (te_float env) v, ''None''))"

definition group_text :: "task_env \<Rightarrow> string \<Rightarrow> pdict \<Rightarrow> string" where
  "group_text env template u =
     (if py_contains template ''{{USER_GROUPS}}'' \<and> truthy (od_getd u ''id'' PNone)
      then (case te_groups env (od_getd u ''id'' PNone) of None \<Rightarrow> [] | Some gs \<Rightarrow> py_join '', '' gs)
      else [])"

definition user_variables :: "task_env \<Rightarrow> string \<Rightarrow> person \<Rightarrow> (string, string) od res" where
  "user_variables env template p =
     (let u = p_fields p; str = (\<lambda>k. py_str (te_float env) (od_getd u k PNone));
          (birth, age) = birth_texts env (p_birth p) in
      rbind (pget (py_or (od_getd u ''info'' (PDict [])) (PDict [])) ''location'' PNone) (\<lambda>loc.
        Inr [(''name'', str ''name''), (''email'', str ''email''),
             (''location'', py_str (te_float env) loc), (''bio'', str ''bio''), (''gender'', str ''gender''),
             (''birth_date'', birth), (''age'', age), (''groups'', group_text env template u)]))"

text \<open>The placeholders in the order of their replacement\<close>

definition prompt_substitutions :: "task_env \<Rightarrow> (string, string) od \<Rightarrow> (string \<times> string) list" where
  "prompt_substitutions env vars =
     (let ck = te_clock env; var = (\<lambda>k. od_getd vars k ''Unknown'') in
      [(''{{CURRENT_DATE}}'', ck_date ck), (''{{CURRENT_TIME}}'', ck_time ck),
       (''{{CURRENT_DATETIME}}'', ck_date ck @ '' '' @ ck_time ck), (''{{CURRENT_WEEKDAY}}'', ck_weekday ck),
       (''{{USER_NAME}}'', var ''name''), (''{{USER_EMAIL}}'', var ''email''), (''{{USER_BIO}}'', var ''bio''),
       (''{{USER_GENDER}}'', var ''gender''), (''{{USER_BIRTH_DATE}}'', var ''birth_date''),
       (''{{USER_AGE}}'', var ''age''), (''{{USER_LOCATION}}'', var ''location''),
       (''{{USER_GROUPS}}'', od_getd vars ''groups'' [])])"

definition replace_all :: "(string \<times> string) list \<Rightarrow> string \<Rightarrow> string" where
  "replace_all subs template = foldl (\<lambda>t (k, v). py_replace k v t) template subs"

definition prompt_template :: "task_env \<Rightarrow> string \<Rightarrow> person option \<Rightarrow> string res" where
  "prompt_template env template user =
     rbind (case user of None \<Rightarrow> Inr [] | Some p \<Rightarrow> user_variables env template p) (\<lambda>vars.
       Inr (replace_all (prompt_substitutions env vars) template))"

text \<open>\<^verbatim>\<open>prompt_variables_template\<close>: the variables of the metadata; a value that is not a text raises.\<close>

definition prompt_variables_template :: "string \<Rightarrow> pdict \<Rightarrow> string res" where
  "prompt_variables_template template variables =
     rfoldM (\<lambda>t (k, v). case v of PStr s \<Rightarrow> Inr (py_replace k s t) | _ \<Rightarrow> Inl TypeError) template variables"

section \<open>Templates of the tasks\<close>

text \<open>\<open>dflt\<close> is the configured template, \<open>u1\<close> and \<open>u2\<close> the generated ids.\<close>

definition query_mark :: "string \<Rightarrow> string" where
  "query_mark u = ''{{QUERY'' @ u @ ''}}''"

definition hide_query :: "string \<Rightarrow> string \<Rightarrow> string \<Rightarrow> string \<Rightarrow> string" where
  "hide_query place u context t =
     (if py_contains context place then py_replace place (query_mark u) t else t)"

definition show_query :: "string \<Rightarrow> string \<Rightarrow> string \<Rightarrow> string \<Rightarrow> string" where
  "show_query place u context t =
     (if py_contains context place then py_replace (query_mark u) place t else t)"

definition rag_template ::
  "task_env \<Rightarrow> string \<Rightarrow> string \<Rightarrow> string \<Rightarrow> string \<Rightarrow> string \<Rightarrow> string \<Rightarrow> string res" where
  "rag_template env dflt u1 u2 template context query =
     rbind (prompt_template env (if py_strip template = [] then dflt else template) None) (\<lambda>t.
       let t1 = hide_query ''{{QUERY}}'' u2 context (hide_query ''[query]'' u1 context t);
           t2 = py_replace ''{{CONTEXT}}'' context (py_replace ''[context]'' context t1);
           t3 = py_replace ''{{QUERY}}'' query (py_replace ''[query]'' query t2)
       in Inr (show_query ''{{QUERY}}'' u2 context (show_query ''[query]'' u1 context t3)))"

text \<open>The prompt, then the conversation, then the variables: titles, follow-ups, tags, image
  prompts and queries have this one form.\<close>

definition fill_template ::
  "task_env \<Rightarrow> string \<Rightarrow> pv \<Rightarrow> message list option \<Rightarrow> person option \<Rightarrow> string res" where
  "fill_template env template prompt messages user =
     rbind (replace_prompt_variable (te_float env) template prompt) (\<lambda>t.
     rbind (replace_messages_variable (te_float env) t messages ''MESSAGES'') (\<lambda>t.
       prompt_template env t user))"

definition title_generation_template :: "task_env \<Rightarrow> string \<Rightarrow> message list \<Rightarrow> person option \<Rightarrow> string res" where
  "title_generation_template env template ms user =
     rbind (get_last_user_message ms) (\<lambda>prompt. fill_template env template prompt (Some ms) user)"

definition follow_up_generation_template :: "task_env \<Rightarrow> string \<Rightarrow> message list \<Rightarrow> person option \<Rightarrow> string res" where
  "follow_up_generation_template env template ms user =
     rbind (get_last_user_message ms) (\<lambda>prompt. fill_template env template prompt (Some ms) user)"

definition tags_generation_template :: "task_env \<Rightarrow> string \<Rightarrow> message list \<Rightarrow> person option \<Rightarrow> string res" where
  "tags_generation_template env template ms user =
     rbind (get_last_user_message ms) (\<lambda>prompt. fill_template env template prompt (Some ms) user)"

definition image_prompt_generation_template ::
  "task_env \<Rightarrow> string \<Rightarrow> message list \<Rightarrow> person option \<Rightarrow> string res" where
  "image_prompt_generation_template env template ms user =
     rbind (get_last_user_message ms) (\<lambda>prompt. fill_template env template prompt (Some ms) user)"

definition query_generation_template :: "task_env \<Rightarrow> string \<Rightarrow> message list \<Rightarrow> person option \<Rightarrow> string res" where
  "query_generation_template env template ms user =
     rbind (get_last_user_message ms) (\<lambda>prompt. fill_template env template prompt (Some ms) user)"

definition emoji_generation_template :: "task_env \<Rightarrow> string \<Rightarrow> pv \<Rightarrow> person option \<Rightarrow> string res" where
  "emoji_generation_template env template prompt user =
     rbind (replace_prompt_variable (te_float env) template prompt) (\<lambda>t. prompt_template env t user)"

definition autocomplete_generation_template ::
  "task_env \<Rightarrow> string \<Rightarrow> pv \<Rightarrow> message list option \<Rightarrow> string option \<Rightarrow> person option \<Rightarrow> string res" where
  "autocomplete_generation_template env template prompt messages kind user =
     fill_template env (py_replace ''{{TYPE}}'' (case kind of None \<Rightarrow> [] | Some k \<Rightarrow> k) template) prompt messages user"

definition moa_response_generation_template ::
  "(rat \<Rightarrow> string) \<Rightarrow> string \<Rightarrow> pv \<Rightarrow> pv list \<Rightarrow> string res" where
  "moa_response_generation_template f template prompt responses =
     rbind (re_sub (prompt_token False) (cut_prompt f prompt) template) (\<lambda>t.
       let q = replicate 3 CHR 0x22;
           rs = map (\<lambda>r. q @ py_str f r @ q) responses
       in Inr (py_replace ''{{responses}}'' (py_join (nl @ nl) rs) t))"

definition tools_function_calling_generation_template :: "string \<Rightarrow> string \<Rightarrow> string" where
  "tools_function_calling_generation_template template tools_specs = py_replace ''{{TOOLS}}'' tools_specs template"

section \<open>Rendered templates\<close>

text \<open>A template as the texts and the placeholders it is written from\<close>

datatype piece = Lit string | Slot cut

fun slot_text :: "cut \<Rightarrow> string" where
  "slot_text Whole = ''{{prompt}}''"
| "slot_text (First n) = ''{{prompt:start:'' @ nat_digits n @ ''}}''"
| "slot_text (Last n) = ''{{prompt:end:'' @ nat_digits n @ ''}}''"
| "slot_text (Middle n) = ''{{prompt:middletruncate:'' @ nat_digits n @ ''}}''"

fun piece_text :: "piece \<Rightarrow> string" where
  "piece_text (Lit s) = s"
| "piece_text (Slot c) = slot_text c"

text \<open>A text in which no placeholder begins: an opening brace is followed by another character.\<close>

fun no_braces :: "string \<Rightarrow> bool" where
  "no_braces [] = True"
| "no_braces (c # s) = ((c = CHR ''{'' \<longrightarrow> s \<noteq> [] \<and> hd s \<noteq> CHR ''{'') \<and> no_braces s)"

fun quiet_piece :: "piece \<Rightarrow> bool" where
  "quiet_piece (Lit s) = no_braces s"
| "quiet_piece (Slot c) = True"

definition piece_value :: "(rat \<Rightarrow> string) \<Rightarrow> pv \<Rightarrow> piece \<Rightarrow> string res" where
  "piece_value f prompt p = (case p of Lit s \<Rightarrow> Inr s | Slot c \<Rightarrow> rbind (cut_prompt f prompt c) sub_text)"

lemma no_braces_drop:
  assumes "no_braces t" and "i < length t"
  shows "\<exists>c r. drop i t @ s = c # r \<and> (c = CHR ''{'' \<longrightarrow> (\<exists>d q. r = d # q \<and> d \<noteq> CHR ''{''))"
  using assms
proof (induction t arbitrary: i)
  case (Cons c t)
  show ?case
  proof (cases i)
    case 0
    have "t @ s = hd t # tl t @ s" if "t \<noteq> []"
      using that by simp
    then show ?thesis
      using Cons.prems 0 by (metis no_braces.simps(2) append_Cons drop0)
  next
    case (Suc j)
    then show ?thesis
      using Cons.prems Cons.IH [of j] by simp
  qed
qed simp

lemma prompt_token_no_braces:
  "prompt_token ci s = None" if "s = c # r" "c = CHR ''{'' \<longrightarrow> (\<exists>d q. r = d # q \<and> d \<noteq> CHR ''{'')"
proof -
  have l: "lower_char x = CHR ''{'' \<longleftrightarrow> x = CHR ''{''" for x
    by (auto simp: lower_char_def Let_def char_of_eq_iff take_bit_eq_mod)
  show ?thesis
    using that by (auto simp: prompt_token_def l)
qed

lemma counted_exact:
  assumes "py_lower word = word"
  shows "counted ci word (word @ nat_digits n @ ''}}'' @ s) = Some (n, s)"
proof -
  have "after_digits (nat_digits n @ ''}}'' @ s) = Some (nat_digits n, ''}}'' @ s)"
    by (rule after_digits_nat) (simp add: is_digit_char_def)
  moreover have "after_text ci ''}}'' (''}}'' @ s) = Some s"
    by (rule after_text_append) (simp add: py_lower_def lower_char_def)
  ultimately show ?thesis
    using assms by (simp only: counted_def after_text_append) simp
qed

lemma counted_other:
  assumes "lower_char c = c" "lower_char d = d" "c \<noteq> d"
  shows "counted ci (CHR '':'' # c # word) (CHR '':'' # d # s) = None"
  using assms by (simp add: counted_def)

lemma prompt_cut_slot:
  "prompt_cut ci (''}}'' @ s) = Some (Whole, s)"
  "prompt_cut ci ('':start:'' @ nat_digits n @ ''}}'' @ s) = Some (First n, s)"
  "prompt_cut ci ('':end:'' @ nat_digits n @ ''}}'' @ s) = Some (Last n, s)"
  "prompt_cut ci ('':middletruncate:'' @ nat_digits n @ ''}}'' @ s) = Some (Middle n, s)"
proof -
  have low: "lower_char CHR ''s'' = CHR ''s''" "lower_char CHR ''e'' = CHR ''e''"
    "lower_char CHR ''m'' = CHR ''m''" "lower_char CHR '':'' = CHR '':''" "lower_char CHR ''}'' = CHR ''}''"
    by (simp_all add: lower_char_def)
  have end1: "after_text ci ''}}'' ('':'' @ t) = None" for t
    using low by simp
  note other = counted_other [OF low(2,1)] counted_other [OF low(3,1)] counted_other [OF low(3,2)]
    counted_other [OF low(1,2)] counted_other [OF low(1,3)] counted_other [OF low(2,3)]
  have words: "py_lower '':start:'' = '':start:''" "py_lower '':end:'' = '':end:''"
    "py_lower '':middletruncate:'' = '':middletruncate:''"
    by (simp_all add: py_lower_def lower_char_def)
  note ex = counted_exact [OF words(1), of ci n s] counted_exact [OF words(2), of ci n s]
    counted_exact [OF words(3), of ci n s]
  show "prompt_cut ci (''}}'' @ s) = Some (Whole, s)"
    using low by (simp add: prompt_cut_def)
  show "prompt_cut ci ('':start:'' @ nat_digits n @ ''}}'' @ s) = Some (First n, s)"
    using end1 [of "''start:'' @ nat_digits n @ ''}}'' @ s"] ex(1) unfolding prompt_cut_def by simp
  show "prompt_cut ci ('':end:'' @ nat_digits n @ ''}}'' @ s) = Some (Last n, s)"
    using end1 [of "''end:'' @ nat_digits n @ ''}}'' @ s"] ex(2) unfolding prompt_cut_def by (simp add: other)
  show "prompt_cut ci ('':middletruncate:'' @ nat_digits n @ ''}}'' @ s) = Some (Middle n, s)"
    using end1 [of "''middletruncate:'' @ nat_digits n @ ''}}'' @ s"] ex(3)
    unfolding prompt_cut_def by (simp add: other)
qed

lemma prompt_token_slot:
  "prompt_token ci (slot_text c @ s) = Some (length (slot_text c), c)"
proof -
  define t where "t = drop 8 (slot_text c)"
  have st: "slot_text c = ''{{prompt'' @ t" and cut: "prompt_cut ci (t @ s) = Some (c, s)"
    using prompt_cut_slot [where ci = ci and s = s] by (cases c; simp add: t_def)+
  have "after_text ci ''{{prompt'' (''{{prompt'' @ t @ s) = Some (t @ s)"
    by (rule after_text_append) (simp add: py_lower_def lower_char_def)
  then show ?thesis
    unfolding prompt_token_def st append_assoc by (simp add: cut)
qed

lemma scan_prompt_pieces:
  assumes "\<forall>p\<in>set ps. quiet_piece p"
  shows "scan (prompt_token ci) (concat (map piece_text ps))
     = concat (map (\<lambda>p. case p of Lit s \<Rightarrow> map Inl s | Slot c \<Rightarrow> [Inr c]) ps)"
  using assms
proof (induction ps)
  case (Cons p ps)
  let ?rest = "concat (map piece_text ps)"
  show ?case
  proof (cases p)
    case (Lit s)
    have "scan (prompt_token ci) (s @ ?rest) = map Inl s @ scan (prompt_token ci) ?rest"
    proof (rule scan_literal)
      fix i assume "i < length s"
      then show "prompt_token ci (drop i s @ ?rest) = None"
        using no_braces_drop [of s i ?rest] Cons.prems Lit prompt_token_no_braces by auto
    qed
    then show ?thesis
      using Cons Lit by simp
  next
    case (Slot c)
    have "slot_text c \<noteq> []"
      by (cases c) simp_all
    then have "scan (prompt_token ci) (slot_text c @ ?rest) = Inr c # scan (prompt_token ci) ?rest"
      using scan_token [of "prompt_token ci" "slot_text c" ?rest c] prompt_token_slot by simp
    then show ?thesis
      using Cons Slot by simp
  qed
qed simp

lemma rmapM_chars: "rmapM (case_sum (\<lambda>c. Inr [c]) g) (map Inl s) = Inr (map (\<lambda>c. [c]) s)"
  by (induction s) simp_all

lemma concat_chars [simp]: "concat (map (\<lambda>c. [c]) s) = s"
  by (induction s) simp_all

lemma sub_pieces:
  "rmap concat (rmapM (case_sum (\<lambda>c. Inr [c]) (\<lambda>a. rbind (cut_prompt f prompt a) sub_text))
      (concat (map (\<lambda>p. case p of Lit s \<Rightarrow> map Inl s | Slot c \<Rightarrow> [Inr c]) ps)))
   = rmap concat (rmapM (piece_value f prompt) ps)"
proof (induction ps)
  case (Cons p ps)
  then show ?case
    by (cases p) (auto simp: rmapM_append rmapM_chars piece_value_def rbind_def rmap_def split: sum.splits)
qed simp

lemma prompt_pieces:
  assumes "\<forall>p\<in>set ps. quiet_piece p"
  shows "replace_prompt_variable f (concat (map piece_text ps)) prompt
     = rmap concat (rmapM (piece_value f prompt) ps)"
  using scan_prompt_pieces [OF assms, of True] sub_pieces [of f prompt ps]
  by (simp add: replace_prompt_variable_def re_sub_def)

text \<open>Replacing the prompt's placeholders in a template gives each piece its value, in order: the texts
  between them are as they were, and a placeholder in the inserted prompt is not replaced in turn.
\<close>

theorem prompt_placeholders_exact:
  assumes "\<forall>p\<in>set ps. quiet_piece p"
  shows "replace_prompt_variable f (concat (map piece_text ps)) prompt
     = rmap concat (rmapM (piece_value f prompt) ps)"
  by (rule prompt_pieces [OF assms])

theorem prompt_placeholders_exact_witness:
  "replace_prompt_variable (\<lambda>_. []) ''{ \"t\": {{prompt:start:3}} or {{prompt:middletruncate:4}} }'' (PStr ''{{prompt}}'')
     = Inr ''{ \"t\": {{p or {{...}} }''"
proof -
  define ps where "ps = [Lit ''{ \"t\": '', Slot (First 3), Lit '' or '', Slot (Middle 4), Lit '' }'']"
  have "concat (map piece_text ps) = ''{ \"t\": {{prompt:start:3}} or {{prompt:middletruncate:4}} }''"
    unfolding ps_def by code_simp
  moreover have "\<forall>p\<in>set ps. quiet_piece p"
    unfolding ps_def by code_simp
  moreover have "rmap concat (rmapM (piece_value (\<lambda>_. []) (PStr ''{{prompt}}'')) ps) = Inr ''{ \"t\": {{p or {{...}} }''"
    unfolding ps_def by code_simp
  ultimately show ?thesis
    using prompt_placeholders_exact [of ps "\<lambda>_. []" "PStr ''{{prompt}}''"] by (simp only:)
qed

text \<open>A middle cut of at most one character keeps the whole prompt after the ellipsis.\<close>

lemma middle_cut_keeps_prompt:
  assumes "n \<le> 1" and "n < length p"
  shows "replace_prompt_variable f (slot_text (Middle n)) (PStr p) = Inr (take n p @ ''...'' @ p)"
proof -
  have "replace_prompt_variable f (slot_text (Middle n)) (PStr p)
      = rmap concat (rmapM (piece_value f (PStr p)) [Slot (Middle n)])"
    using prompt_pieces [of "[Slot (Middle n)]" f "PStr p"] by simp
  also have "\<dots> = Inr (take n p @ ''...'' @ p)"
    using assms by (cases n) (simp_all add: piece_value_def cut_prompt_def last_n_def sub_text_def)
  finally show ?thesis .
qed

section \<open>The question in a template of retrieved context\<close>

definition in_braces :: "string \<times> 'a \<Rightarrow> bool" where
  "in_braces kv = (fst kv \<noteq> [] \<and> hd (fst kv) = CHR ''{'')"

lemma in_braces_pair: "in_braces (c # r, v) = (c = CHR ''{'')"
  by (simp add: in_braces_def)

lemma replace_all_missing:
  assumes "CHR ''{'' \<notin> set t" and "list_all in_braces subs"
  shows "replace_all subs t = t"
  using assms(2)
proof (induction subs)
  case (Cons kv subs)
  obtain r v where "kv = (CHR ''{'' # r, v)"
    using Cons.prems by (cases kv; cases "fst kv") (auto simp: in_braces_def)
  then show ?case
    using Cons py_replace_id [OF assms(1), of r v] by (simp add: replace_all_def)
qed (simp add: replace_all_def)

lemma substitutions_in_braces: "list_all in_braces (prompt_substitutions env vars)"
  unfolding prompt_substitutions_def Let_def
  by (simp only: list.pred_inject in_braces_pair simp_thms)

lemmas replace_all_no_braces = replace_all_missing [OF _ substitutions_in_braces]

lemma contains_prefix: "py_contains (p @ y) p"
  by (cases p; cases "p @ y") (simp_all add: py_startswith_def)

lemma contains_between: "py_contains (x @ p @ y) p"
  by (induction x) (simp_all add: contains_prefix)

lemma contains_first:
  assumes "py_contains s (c # p)"
  shows "c \<in> set s"
  using assms by (induction s) (auto simp: py_startswith_def)

text \<open>A template as retrieval uses it, with one place for the context and one for the question\<close>

definition rag_text :: "string \<Rightarrow> string \<Rightarrow> string \<Rightarrow> string \<Rightarrow> string \<Rightarrow> string" where
  "rag_text a context b query c = a @ context @ b @ query @ c"

definition plain_text :: "string \<Rightarrow> bool" where
  "plain_text s = (CHR ''['' \<notin> set s \<and> CHR ''{'' \<notin> set s)"

lemma replace_plain [simp]:
  assumes "plain_text s"
  shows "py_replace (CHR ''['' # p) new (s @ r) = s @ py_replace (CHR ''['' # p) new r"
    and "py_replace (CHR ''{'' # p) new (s @ r) = s @ py_replace (CHR ''{'' # p) new r"
    and "py_replace (CHR ''['' # p) new s = s" and "py_replace (CHR ''{'' # p) new s = s"
  using assms by (simp_all add: plain_text_def py_replace_no_first py_replace_id)

text \<open>Outside the plain texts there are only the two places and the generated mark.\<close>

definition ctx_place :: string where
  "ctx_place = ''[context]''"

definition qry_place :: string where
  "qry_place = ''[query]''"

lemma places_no_braces: "CHR ''{'' \<notin> set qry_place" "CHR ''{'' \<notin> set ctx_place"
  by (simp_all add: qry_place_def ctx_place_def)

lemma place_parts:
  "py_replace qry_place new (ctx_place @ s) = ctx_place @ py_replace qry_place new s"
  "py_replace qry_place new (qry_place @ s) = new @ py_replace qry_place new s"
  "py_replace ctx_place new (ctx_place @ s) = new @ py_replace ctx_place new s"
  "py_replace (CHR ''{'' # p) new (qry_place @ s) = qry_place @ py_replace (CHR ''{'' # p) new s"
proof -
  show "py_replace qry_place new (qry_place @ s) = new @ py_replace qry_place new s"
    "py_replace ctx_place new (ctx_place @ s) = new @ py_replace ctx_place new s"
    by (rule py_replace_token; simp add: qry_place_def ctx_place_def)+
  show "py_replace qry_place new (ctx_place @ s) = ctx_place @ py_replace qry_place new s"
    by (simp add: ctx_place_def qry_place_def py_replace_step)
  show "py_replace (CHR ''{'' # p) new (qry_place @ s) = qry_place @ py_replace (CHR ''{'' # p) new s"
    by (rule py_replace_no_first [OF places_no_braces(1)])
qed

lemma plain_place_parts:
  assumes "plain_text s"
  shows "py_replace qry_place new (s @ r) = s @ py_replace qry_place new r"
    and "py_replace ctx_place new (s @ r) = s @ py_replace ctx_place new r"
    and "py_replace qry_place new s = s" and "py_replace ctx_place new s = s"
  using assms by (simp_all add: qry_place_def ctx_place_def)

definition id_text :: "string \<Rightarrow> bool" where
  "id_text u = (u \<noteq> [] \<and> plain_text u \<and> CHR ''}'' \<notin> set u)"

lemma mark_parts:
  assumes "id_text u"
  shows "py_replace qry_place new (query_mark u @ s) = query_mark u @ py_replace qry_place new s"
    and "py_replace ctx_place new (query_mark u @ s) = query_mark u @ py_replace ctx_place new s"
    and "py_replace (query_mark u) new (query_mark u @ s) = new @ py_replace (query_mark u) new s"
    and "py_replace ''{{CONTEXT}}'' new (query_mark u @ s) = query_mark u @ py_replace ''{{CONTEXT}}'' new s"
    and "py_replace ''{{QUERY}}'' new (query_mark u @ s) = query_mark u @ py_replace ''{{QUERY}}'' new s"
proof -
  have none: "CHR ''['' \<notin> set (query_mark u)"
    using assms by (simp add: query_mark_def id_text_def plain_text_def)
  then show "py_replace qry_place new (query_mark u @ s) = query_mark u @ py_replace qry_place new s"
    "py_replace ctx_place new (query_mark u @ s) = query_mark u @ py_replace ctx_place new s"
    unfolding qry_place_def ctx_place_def by (rule py_replace_no_first)+
  show "py_replace (query_mark u) new (query_mark u @ s) = new @ py_replace (query_mark u) new s"
    by (rule py_replace_token) (simp add: query_mark_def)
  obtain c v where u: "u = c # v" and c: "c \<noteq> CHR ''}''"
    using assms by (cases u) (auto simp: id_text_def)
  have rest: "CHR ''{'' \<notin> set (''QUERY'' @ u @ ''}}'')"
    using assms by (simp add: id_text_def plain_text_def)
  have mark: "query_mark u = CHR ''{'' # CHR ''{'' # ''QUERY'' @ u @ ''}}''"
    by (simp add: query_mark_def)
  have pass: "py_replace (CHR ''{'' # p) new (query_mark u @ s) = query_mark u @ py_replace (CHR ''{'' # p) new s"
    if "\<not> py_startswith (query_mark u @ s) (CHR ''{'' # p)"
      and "\<not> py_startswith (CHR ''{'' # ''QUERY'' @ u @ ''}}'' @ s) (CHR ''{'' # p)" for p
    using that py_replace_no_first [OF rest, of p new s] py_replace_step
    unfolding mark by simp
  show "py_replace ''{{CONTEXT}}'' new (query_mark u @ s) = query_mark u @ py_replace ''{{CONTEXT}}'' new s"
    by (rule pass) (simp_all add: query_mark_def)
  show "py_replace ''{{QUERY}}'' new (query_mark u @ s) = query_mark u @ py_replace ''{{QUERY}}'' new s"
    using c by (intro pass) (simp_all add: query_mark_def u)
qed

lemma strip_not_blank:
  assumes "c \<in> set s" and "\<not> is_space c"
  shows "py_strip s \<noteq> []"
proof -
  have "c \<in> set (dropWhile is_space s)"
    using assms by (induction s) auto
  then show ?thesis
    using assms(2) by (auto simp: py_strip_def py_rstrip_def py_lstrip_def dropWhile_eq_Nil_conv)
qed

lemma question_lost_steps:
  assumes plain: "plain_text a" "plain_text b" "plain_text c" "plain_text x" "plain_text y"
      "plain_text query" and u: "id_text u"
  defines "t1 \<equiv> a @ ctx_place @ b @ query_mark u @ c"
  shows "py_replace qry_place (query_mark u) (a @ ctx_place @ b @ qry_place @ c) = t1"
    and "py_replace ''{{CONTEXT}}'' k (py_replace ctx_place (x @ qry_place @ y) t1)
           = a @ x @ qry_place @ y @ b @ query_mark u @ c"
    and "py_replace ''{{QUERY}}'' query (py_replace qry_place query (a @ x @ qry_place @ y @ b @ query_mark u @ c))
           = a @ x @ query @ y @ b @ query_mark u @ c"
    and "py_replace (query_mark u) qry_place (a @ x @ query @ y @ b @ query_mark u @ c)
           = a @ x @ query @ y @ b @ qry_place @ c"
proof -
  note parts = plain_place_parts [OF plain(1)] plain_place_parts [OF plain(2)] plain_place_parts [OF plain(3)]
    plain_place_parts [OF plain(4)] plain_place_parts [OF plain(5)] plain_place_parts [OF plain(6)]
    place_parts mark_parts [OF u]
  show "py_replace qry_place (query_mark u) (a @ ctx_place @ b @ qry_place @ c) = t1"
    unfolding t1_def by (simp only: parts)
  show "py_replace ''{{CONTEXT}}'' k (py_replace ctx_place (x @ qry_place @ y) t1)
      = a @ x @ qry_place @ y @ b @ query_mark u @ c"
    unfolding t1_def by (simp only: parts append_assoc replace_plain plain)
  show "py_replace ''{{QUERY}}'' query (py_replace qry_place query (a @ x @ qry_place @ y @ b @ query_mark u @ c))
      = a @ x @ query @ y @ b @ query_mark u @ c"
    by (simp only: parts append_assoc replace_plain plain)
  have mark: "query_mark u = CHR ''{'' # tl (query_mark u)"
    by (simp add: query_mark_def)
  have skip: "py_replace (query_mark u) qry_place (w @ s) = w @ py_replace (query_mark u) qry_place s"
    and stay: "py_replace (query_mark u) qry_place w = w" if "plain_text w" for w s
    using replace_plain(2,4) [OF that, of "tl (query_mark u)" qry_place] mark by simp_all
  show "py_replace (query_mark u) qry_place (a @ x @ query @ y @ b @ query_mark u @ c)
      = a @ x @ query @ y @ b @ qry_place @ c"
    by (simp only: skip stay plain mark_parts(3) [OF u])
qed

text \<open>
  A retrieved text that mentions the question's placeholder takes the question: it is written where
  the retrieved text had the placeholder, and the template's own place for the question keeps the
  bare placeholder.
\<close>

theorem rag_question_misplaced:
  assumes "plain_text a" "plain_text b" "plain_text c" "plain_text x" "plain_text y" "plain_text query"
    and "id_text u"
  shows "rag_template env dflt u u' (a @ ''[context]'' @ b @ ''[query]'' @ c) (x @ ''[query]'' @ y) query
     = Inr (a @ x @ query @ y @ b @ ''[query]'' @ c)"
proof -
  let ?t = "a @ ctx_place @ b @ qry_place @ c" and ?k = "x @ qry_place @ y"
  have none: "CHR ''{'' \<notin> set ?t" "CHR ''{'' \<notin> set ?k"
    using assms places_no_braces by (simp_all add: plain_text_def)
  have "CHR ''['' \<in> set ?t"
    by (simp add: ctx_place_def)
  then have strip: "py_strip ?t \<noteq> []"
    by (rule strip_not_blank) (simp add: is_space_def)
  have t: "prompt_template env ?t None = Inr ?t"
    using replace_all_no_braces [OF none(1)] by (simp add: prompt_template_def)
  have has: "py_contains ?k qry_place" and hasnt: "\<not> py_contains ?k ''{{QUERY}}''"
    using contains_between contains_first none(2) by blast+
  have "rag_template env dflt u u' ?t ?k query = Inr (a @ x @ query @ y @ b @ qry_place @ c)"
    unfolding rag_template_def
    by (simp only: strip if_False t rbind_simps Let_def hide_query_def show_query_def has hasnt if_True
        qry_place_def [symmetric] ctx_place_def [symmetric] question_lost_steps [OF assms] simp_thms)
  then show ?thesis
    by (simp only: ctx_place_def qry_place_def)
qed

definition sample_env :: task_env where
  "sample_env = (let d = \<lparr>d_year = 2025, d_month = 6, d_day = 1, d_text = ''2025-06-01''\<rparr> in
     \<lparr>te_float = \<lambda>_. [], te_parse = \<lambda>_. None,
      te_clock = \<lparr>ck_today = d, ck_date = ''2025-06-01'', ck_time = ''10:00:00 AM'', ck_weekday = ''Sunday''\<rparr>,
      te_groups = \<lambda>_. None\<rparr>)"

theorem rag_question_misplaced_witness:
  "rag_template sample_env [] ''7f'' ''8a'' ''Use [context]. Q: [query]'' ''see [query]'' ''why?''
     = Inr ''Use see why?. Q: [query]''"
proof -
  have plain: "plain_text ''Use ''" "plain_text ''. Q: ''" "plain_text []" "plain_text ''see ''" "plain_text ''why?''"
    and i: "id_text ''7f''"
    by code_simp+
  show ?thesis
    using rag_question_misplaced [OF plain(1,2,3,4,3,5) i, of sample_env "[]" "''8a''"] by simp
qed

section \<open>Truncated messages\<close>

definition shortened :: "nat \<Rightarrow> pv \<Rightarrow> pv \<Rightarrow> bool" where
  "shortened n v w = (case v of
      PStr s \<Rightarrow> (case w of PStr t \<Rightarrow> length t \<le> n + 3 \<and> (length s \<le> n \<longrightarrow> t = s) | _ \<Rightarrow> False)
    | _ \<Rightarrow> True)"

text \<open>Only the texts of a message have changed.\<close>

definition shortened_part :: "nat \<Rightarrow> pv \<Rightarrow> pv \<Rightarrow> bool" where
  "shortened_part n item item' =
     (item' = item \<or> (\<exists>d t. item = PDict d \<and> item' = PDict (od_set ''text'' t d)
        \<and> shortened n (od_getd d ''text'' (PStr [])) t))"

definition shortened_message :: "nat \<Rightarrow> message \<Rightarrow> message \<Rightarrow> bool" where
  "shortened_message n m m' =
     (\<exists>c. (m' = m \<or> m' = od_set ''content'' c m) \<and> (case msg_get m ''content'' of
          PStr s \<Rightarrow> msg_get m' ''content'' = c \<and> shortened n (PStr s) c
        | PList items \<Rightarrow> (\<exists>items'. msg_get m' ''content'' = PList items' \<and> c = PList items'
              \<and> list_all2 (shortened_part n) items items')
        | _ \<Rightarrow> m' = m))"

lemma truncate_shortened:
  assumes "truncate_content f v n mode = Inr w" and "0 < n"
  shows "shortened (nat n) v w"
proof (cases v)
  case (PStr s)
  show ?thesis
  proof (cases "s = [] \<or> length s \<le> nat n")
    case True
    then show ?thesis
      using assms PStr by (cases "s = []") (simp_all add: truncate_content_def shortened_def Let_def split: if_splits, auto)
  next
    case False
    then have "nat n - nat n div 2 > 0"
      using assms(2) by simp
    then show ?thesis
      using assms PStr False
      by (auto simp: truncate_content_def shortened_def Let_def split: if_splits)
  qed
qed (simp_all add: shortened_def)

lemma truncate_part_shortened:
  assumes "truncate_part f mode n item = Inr item'" and "0 < n"
  shows "shortened_part (nat n) item item'"
  using assms truncate_shortened [of f _ n mode]
  by (cases item) (auto simp: truncate_part_def shortened_part_def rbind_eq_Inr split: if_splits)

lemma msg_get_set [simp]: "msg_get (od_set k v m) k = v"
  by (simp add: msg_get_def od_getd_def update_conv)

lemma truncate_message_shortened:
  assumes "truncate_message f mode n m = Inr m'" and "0 < n"
  shows "shortened_message (nat n) m m'"
proof (cases "msg_get m ''content''")
  case (PStr s)
  then show ?thesis
    using assms truncate_shortened [of f _ n mode]
    by (auto simp: truncate_message_def shortened_message_def rbind_eq_Inr)
next
  case (PList items)
  then obtain items' where i: "rmapM (truncate_part f mode n) items = Inr items'"
    and m': "m' = od_set ''content'' (PList items') m"
    using assms(1) by (auto simp: truncate_message_def rbind_eq_Inr)
  have "list_all2 (shortened_part (nat n)) items items'"
    using rmapM_all2 [OF i] truncate_part_shortened [OF _ assms(2)] by blast
  then show ?thesis
    using PList m' by (auto simp: shortened_message_def)
qed (use assms in \<open>auto simp: truncate_message_def shortened_message_def\<close>)

text \<open>
  A content filter keeps the number and the order of the messages, every key but the content and
  every part but the texts; a text of at most \<open>n\<close> characters is as it was and no text has more than
  \<open>n + 3\<close> afterwards.
\<close>

theorem content_filter_bounds:
  assumes "read_filter flt = Some (mode, n)" and "0 < n"
    and "apply_content_filter f ms flt = Inr ms'"
  shows "list_all2 (shortened_message (nat n)) ms ms'"
proof (rule rmapM_all2)
  show "rmapM (truncate_message f mode n) ms = Inr ms'"
    using assms by (simp add: apply_content_filter_def)
qed (rule truncate_message_shortened [OF _ assms(2)])

theorem content_filter_bounds_witness:
  "list_all2 (shortened_message 4) [[(''role'', PStr ''user''), (''content'', PStr ''0123456789'')]]
     [[(''role'', PStr ''user''), (''content'', PStr ''01...89'')]]"
proof -
  have "read_filter ''middletruncate:4'' = Some (''middletruncate'', 4)"
    by code_simp
  moreover have "apply_content_filter (\<lambda>_. []) [[(''role'', PStr ''user''), (''content'', PStr ''0123456789'')]]
      ''middletruncate:4'' = Inr [[(''role'', PStr ''user''), (''content'', PStr ''01...89'')]]"
    by code_simp
  ultimately show ?thesis
    using content_filter_bounds [of "''middletruncate:4''" "''middletruncate''" 4] by force
qed

end
