(* ===== verification/Payload.thy ===== *)
theory Payload
  imports Task_Templates Host_Filter
begin

text \<open>
  Request bodies for the providers, \<^verbatim>\<open>backend/openlaunch/utils/payload.py\<close>: system prompts, model
  parameters with their casts, and the conversion of OpenAI requests into Ollama's format. Updates
  in place are returned dictionaries. The messages of a body are a list of dictionaries where a
  system prompt is put in; dictionaries have text keys, texts are Latin-1.
\<close>

section \<open>Conversions of the language\<close>

text \<open>\<^verbatim>\<open>dict(v)\<close>: a dictionary, or a sequence of pairs with text keys\<close>

definition key_value :: "pv \<Rightarrow> (string \<times> pv) res" where
  "key_value e = rbind (piter e) (\<lambda>xs. case xs of
      [k, v] \<Rightarrow> (case k of PStr s \<Rightarrow> Inr (s, v) | _ \<Rightarrow> Inl TypeError)
    | _ \<Rightarrow> Inl (ValueError ''dictionary update sequence''))"

definition py_dict :: "pv \<Rightarrow> pdict res" where
  "py_dict v = (case v of
      PDict d \<Rightarrow> Inr d
    | _ \<Rightarrow> rbind (piter v) (\<lambda>es. rbind (rmapM key_value es) (\<lambda>kvs. Inr (od_merge [] kvs))))"

text \<open>The bytes of a text in UTF-8, as characters\<close>

definition utf8_char :: "char \<Rightarrow> string" where
  "utf8_char c = (let n = (of_char c :: nat) in
     if n < 128 then [c] else [char_of (192 + n div 64), char_of (128 + n mod 64)])"

definition utf8_bytes :: "string \<Rightarrow> string" where
  "utf8_bytes s = concat (map utf8_char s)"

text \<open>\<^verbatim>\<open>decode('unicode_escape')\<close>: a byte that is not part of an escape is the character with its
  number. An escape by name or for a character beyond Latin-1 is refused here.\<close>

definition octal_val :: "char \<Rightarrow> nat option" where
  "octal_val c = (let n = (of_char c :: nat) in if 48 \<le> n \<and> n \<le> 55 then Some (n - 48) else None)"

fun octal_run :: "nat \<Rightarrow> string \<Rightarrow> nat \<Rightarrow> nat \<times> string" where
  "octal_run 0 s v = (v, s)"
| "octal_run (Suc k) [] v = (v, [])"
| "octal_run (Suc k) (c # s) v = (case octal_val c of None \<Rightarrow> (v, c # s) | Some d \<Rightarrow> octal_run k s (8 * v + d))"

definition hex_run :: "nat \<Rightarrow> string \<Rightarrow> (nat \<times> string) option" where
  "hex_run k s =
     (if length s < k \<or> (\<exists>c\<in>set (take k s). hex_val c = None) then None
      else Some (foldl (\<lambda>v c. 16 * v + the (hex_val c)) 0 (take k s), drop k s))"

text \<open>The characters of the escape after a backslash and the rest: None for an escape that raises\<close>

definition escape_at :: "string \<Rightarrow> (string \<times> string) option" where
  "escape_at s = (case s of
      [] \<Rightarrow> None
    | c # r \<Rightarrow>
       (if c = CHR 0x0A then Some ([], r)
        else if c \<in> {CHR 0x5C, CHR 0x27, CHR 0x22} then Some ([c], r)
        else if c = CHR ''b'' then Some ([CHR 0x08], r) else if c = CHR ''f'' then Some ([CHR 0x0C], r)
        else if c = CHR ''t'' then Some ([CHR 0x09], r) else if c = CHR ''n'' then Some ([CHR 0x0A], r)
        else if c = CHR ''r'' then Some ([CHR 0x0D], r) else if c = CHR ''v'' then Some ([CHR 0x0B], r)
        else if c = CHR ''a'' then Some ([CHR 0x07], r)
        else if octal_val c \<noteq> None
          then (let (v, q) = octal_run 3 s 0 in if v < 256 then Some ([char_of v], q) else None)
        else if c \<in> {CHR ''x'', CHR ''u'', CHR ''U''}
          then (case hex_run (if c = CHR ''x'' then 2 else if c = CHR ''u'' then 4 else 8) r of
              Some (v, q) \<Rightarrow> (if v < 256 then Some ([char_of v], q) else None)
            | None \<Rightarrow> None)
        else if c = CHR ''N'' then None
        else Some ([CHR 0x5C, c], r)))"

fun unescape_go :: "nat \<Rightarrow> string \<Rightarrow> string option" where
  "unescape_go 0 s = (if s = [] then Some [] else None)"
| "unescape_go (Suc k) [] = Some []"
| "unescape_go (Suc k) (c # s) =
     (if c = CHR 0x5C
      then (case escape_at s of
          Some (t, r) \<Rightarrow> map_option (\<lambda>u. t @ u) (unescape_go k r)
        | None \<Rightarrow> None)
      else map_option (\<lambda>u. c # u) (unescape_go k s))"

text \<open>Every round takes a character at least, so the length is fuel enough.\<close>

definition unicode_escape :: "string \<Rightarrow> string res" where
  "unicode_escape s = (case unescape_go (length (utf8_bytes s)) (utf8_bytes s) of
      None \<Rightarrow> Inl (ValueError ''unicodeescape'')
    | Some t \<Rightarrow> Inr t)"

section \<open>System prompts\<close>

definition resolve_system_prompt ::
  "task_env \<Rightarrow> string option \<Rightarrow> pdict option \<Rightarrow> person option \<Rightarrow> string res" where
  "resolve_system_prompt env system metadata user = (case system of
      None \<Rightarrow> Inr []
    | Some s \<Rightarrow> (if s = [] then Inr [] else
        rbind (case metadata of
            None \<Rightarrow> Inr s
          | Some m \<Rightarrow> (if m = [] then Inr s else
              let variables = od_getd m ''variables'' (PDict []) in
              if truthy variables
              then rbind (pitems variables) (prompt_variables_template s) else Inr s))
          (\<lambda>s. prompt_template env s user)))"

definition body_messages :: "pdict \<Rightarrow> message list res" where
  "body_messages form = (case od_getd form ''messages'' (PList []) of
      PList ms \<Rightarrow> rmapM (\<lambda>m. case m of PDict d \<Rightarrow> Inr d | _ \<Rightarrow> Inl AttributeError) ms
    | _ \<Rightarrow> Inl TypeError)"

definition apply_system_prompt_to_body ::
  "task_env \<Rightarrow> string option \<Rightarrow> pdict \<Rightarrow> pdict option \<Rightarrow> person option \<Rightarrow> bool \<Rightarrow> pdict res" where
  "apply_system_prompt_to_body env system form metadata user replace =
     rbind (resolve_system_prompt env system metadata user) (\<lambda>s.
       if s = [] then Inr form
       else rbind (body_messages form) (\<lambda>ms.
         rbind (if replace then replace_system_message_content s ms
                else add_or_update_system_message (te_float env) s ms False) (\<lambda>ms'.
           Inr (od_set ''messages'' (PList (map PDict ms')) form))))"

section \<open>Model parameters\<close>

datatype cast = CFloat | CInt | CStr | CBool | CSame | CStop | CDict

definition stop_text :: "pv \<Rightarrow> pv res" where
  "stop_text x = (case x of PStr s \<Rightarrow> rmap PStr (unicode_escape s) | _ \<Rightarrow> Inl TypeError)"

definition apply_cast :: "float_ops \<Rightarrow> cast \<Rightarrow> pv \<Rightarrow> pv res" where
  "apply_cast fo c v = (case c of
      CFloat \<Rightarrow> rmap PFlt (py_float fo v)
    | CInt \<Rightarrow> rmap PInt (py_int v)
    | CStr \<Rightarrow> Inr (PStr (py_str (fl_repr fo) v))
    | CBool \<Rightarrow> Inr (PBool (truthy v))
    | CSame \<Rightarrow> Inr v
    | CStop \<Rightarrow> rbind (piter v) (\<lambda>xs. rmap PList (rmapM stop_text xs))
    | CDict \<Rightarrow> rmap PDict (py_dict v))"

definition cast_param :: "float_ops \<Rightarrow> (string, cast) od \<Rightarrow> string \<Rightarrow> pv \<Rightarrow> pv res" where
  "cast_param fo mappings k v = (case od_get mappings k of None \<Rightarrow> Inr v | Some c \<Rightarrow> apply_cast fo c v)"

definition put_param :: "float_ops \<Rightarrow> (string, cast) od \<Rightarrow> pv \<Rightarrow> string \<times> pv \<Rightarrow> pv res" where
  "put_param fo mappings form kv = (case kv of (k, v) \<Rightarrow>
     if v = PNone then Inr form
     else rbind (cast_param fo mappings k v) (pset form k))"

text \<open>The body is updated parameter by parameter.\<close>

definition apply_model_params_to_body :: "float_ops \<Rightarrow> pdict \<Rightarrow> pv \<Rightarrow> (string, cast) od \<Rightarrow> pv res" where
  "apply_model_params_to_body fo params form mappings = rfoldM (put_param fo mappings) form params"

definition openlaunch_params :: "string list" where
  "openlaunch_params = [''stream_response'', ''stream_delta_chunk_size'', ''function_calling'',
     ''reasoning_tags'', ''compact_token_threshold'', ''system'']"

definition remove_openlaunch_params :: "pdict \<Rightarrow> pdict" where
  "remove_openlaunch_params params = foldl (\<lambda>d k. if k \<in> set openlaunch_params then od_del k d else d) params (od_keys params)"

text \<open>A custom parameter that is the text of a JSON value is that value.\<close>

definition read_custom :: "float_ops \<Rightarrow> pv \<Rightarrow> pv" where
  "read_custom fo v = (case v of
      PStr s \<Rightarrow> (case json_loads (fl_read fo) s of Inr w \<Rightarrow> w | Inl e \<Rightarrow> v)
    | _ \<Rightarrow> v)"

text \<open>The common beginning of both providers: the parameters that count\<close>

definition merge_custom_params :: "float_ops \<Rightarrow> pdict \<Rightarrow> pdict res" where
  "merge_custom_params fo params =
     (let params = remove_openlaunch_params params;
          custom = od_getd params ''custom_params'' (PDict []);
          params = od_del ''custom_params'' params
      in if truthy custom
         then rbind (pitems custom) (\<lambda>cs. deep_update params (map (\<lambda>(k, v). (k, read_custom fo v)) cs))
         else Inr params)"

definition openai_mappings :: "(string, cast) od" where
  "openai_mappings = [(''temperature'', CFloat), (''top_p'', CFloat), (''min_p'', CFloat),
     (''max_tokens'', CInt), (''frequency_penalty'', CFloat), (''presence_penalty'', CFloat),
     (''reasoning_effort'', CStr), (''seed'', CSame), (''stop'', CStop), (''logit_bias'', CSame),
     (''response_format'', CDict)]"

definition apply_model_params_to_body_openai :: "float_ops \<Rightarrow> pdict \<Rightarrow> pv \<Rightarrow> pv res" where
  "apply_model_params_to_body_openai fo params form =
     rbind (merge_custom_params fo params) (\<lambda>params. apply_model_params_to_body fo params form openai_mappings)"

definition ollama_mappings :: "(string, cast) od" where
  "ollama_mappings = [(''temperature'', CFloat), (''top_p'', CFloat), (''seed'', CSame), (''mirostat'', CInt),
     (''mirostat_eta'', CFloat), (''mirostat_tau'', CFloat), (''num_ctx'', CInt), (''num_batch'', CInt),
     (''num_keep'', CInt), (''num_predict'', CInt), (''repeat_last_n'', CInt), (''top_k'', CInt),
     (''min_p'', CFloat), (''repeat_penalty'', CFloat), (''presence_penalty'', CFloat),
     (''frequency_penalty'', CFloat), (''stop'', CStop), (''num_gpu'', CInt), (''use_mmap'', CBool),
     (''use_mlock'', CBool), (''num_thread'', CInt)]"

definition rename_param :: "string \<Rightarrow> string \<Rightarrow> pdict \<Rightarrow> pdict" where
  "rename_param old new params = (case od_getd params old PNone of
      PNone \<Rightarrow> params
    | v \<Rightarrow> od_del old (od_set new v params))"

text \<open>\<^verbatim>\<open>parse_json\<close>: any exception keeps the value.\<close>

definition parse_json :: "float_ops \<Rightarrow> pv \<Rightarrow> pv" where
  "parse_json fo v = (case v of
      PStr s \<Rightarrow> (case json_loads (fl_read fo) s of Inr w \<Rightarrow> w | Inl e \<Rightarrow> v)
    | _ \<Rightarrow> v)"

text \<open>Options that belong to the root of the request move there.\<close>

definition root_params :: "string list" where
  "root_params = [''format'', ''keep_alive'', ''think'']"

definition lift_root_param :: "float_ops \<Rightarrow> pdict \<times> pdict \<Rightarrow> string \<Rightarrow> pdict \<times> pdict" where
  "lift_root_param fo s k = (case s of (params, form) \<Rightarrow> (case od_getd params k PNone of
      PNone \<Rightarrow> (params, form)
    | v \<Rightarrow> (od_del k params, od_set k (if k = ''think'' then v else parse_json fo v) form)))"

definition lift_root_params :: "float_ops \<Rightarrow> pdict \<Rightarrow> pdict \<Rightarrow> pdict \<times> pdict" where
  "lift_root_params fo params form = foldl (lift_root_param fo) (params, form) root_params"

definition apply_model_params_to_body_ollama :: "float_ops \<Rightarrow> pdict \<Rightarrow> pdict \<Rightarrow> pdict res" where
  "apply_model_params_to_body_ollama fo params form =
     rbind (merge_custom_params fo params) (\<lambda>params.
       let (params, form) = lift_root_params fo (rename_param ''max_tokens'' ''num_predict'' params) form;
           options = py_or (od_getd form ''options'' (PDict [])) (PDict [])
       in rbind (apply_model_params_to_body fo params options ollama_mappings) (\<lambda>options.
            Inr (od_set ''options'' options form)))"

section \<open>Messages for Ollama\<close>

text \<open>The text and the images of a list of parts, read part by part\<close>

definition image_data :: "string \<Rightarrow> string" where
  "image_data url = (if py_startswith url ''data:'' then last (py_split CHR '','' url) else url)"

definition ollama_part :: "string \<times> pv list \<Rightarrow> pv \<Rightarrow> (string \<times> pv list) res" where
  "ollama_part s item = (case s of (txt, images) \<Rightarrow>
     rbind (pget item ''type'' PNone) (\<lambda>t.
       if t = PStr ''text''
       then rbind (pget item ''text'' (PStr [])) (\<lambda>v. rbind (pconcat txt v) (\<lambda>txt'. Inr (txt', images)))
       else if t = PStr ''image_url''
       then rbind (pget item ''image_url'' (PDict [])) (\<lambda>i. rbind (pget i ''url'' (PStr [])) (\<lambda>u.
         if truthy u then rbind (pstr u) (\<lambda>url. Inr (txt, images @ [PStr (image_data url)])) else Inr s))
       else Inr s))"

definition ollama_tool_call :: "float_ops \<Rightarrow> pv \<Rightarrow> pv res" where
  "ollama_tool_call fo tc =
     rbind (pget tc ''index'' (PInt 0)) (\<lambda>index. rbind (pget tc ''id'' PNone) (\<lambda>i.
     rbind (pget tc ''function'' (PDict [])) (\<lambda>fn. rbind (pget fn ''name'' (PStr [])) (\<lambda>name.
     rbind (pget fn ''arguments'' (PDict [])) (\<lambda>args.
     rbind (case args of PStr s \<Rightarrow> json_loads (fl_read fo) s | _ \<Rightarrow> Inl TypeError) (\<lambda>arguments.
       Inr (PDict [(''index'', index), (''id'', i),
         (''function'', PDict [(''name'', name), (''arguments'', arguments)])])))))))"

definition ollama_content :: "float_ops \<Rightarrow> pdict \<Rightarrow> pdict \<Rightarrow> pdict res" where
  "ollama_content fo m new =
     (let content = od_getd m ''content'' (PList []); calls = od_getd m ''tool_calls'' PNone;
          call_id = od_getd m ''tool_call_id'' PNone
      in if is_str content \<and> \<not> truthy calls
         then Inr (let new = od_set ''content'' content new
                   in if truthy call_id then od_set ''tool_call_id'' call_id new else new)
         else if truthy calls
         then rbind (piter calls) (\<lambda>tcs. rbind (rmapM (ollama_tool_call fo) tcs) (\<lambda>cs.
           Inr (od_set ''content'' (PStr []) (od_set ''tool_calls'' (PList cs) new))))
         else rbind (piter content) (\<lambda>items. rbind (rfoldM ollama_part ([], []) items) (\<lambda>(txt, images).
           Inr (let new = (if txt \<noteq> [] then od_set ''content'' (PStr (py_strip txt)) new else new)
                in if images \<noteq> [] then od_set ''images'' (PList images) new else new))))"

definition ollama_message :: "float_ops \<Rightarrow> pv \<Rightarrow> pv res" where
  "ollama_message fo message = rbind (pidx message ''role'') (\<lambda>role.
     case message of
       PDict m \<Rightarrow> rmap PDict (ollama_content fo m
         ([(''role'', role)] @ (case od_get m ''thinking'' of None \<Rightarrow> [] | Some v \<Rightarrow> [(''thinking'', v)])))
     | _ \<Rightarrow> Inl TypeError)"

definition convert_messages_openai_to_ollama :: "float_ops \<Rightarrow> pv \<Rightarrow> pv res" where
  "convert_messages_openai_to_ollama fo messages =
     rbind (piter messages) (\<lambda>ms. rmap PList (rmapM (ollama_message fo) ms))"

section \<open>Requests for Ollama\<close>

text \<open>The options of the request, with those that belong elsewhere moved out of them\<close>

definition move_key :: "string \<Rightarrow> string \<Rightarrow> pdict \<Rightarrow> pdict" where
  "move_key old new d = (case od_get d old of None \<Rightarrow> d | Some v \<Rightarrow> od_del old (od_set new v d))"

definition with_options :: "float_ops \<Rightarrow> pv \<Rightarrow> pdict \<Rightarrow> pdict res" where
  "with_options fo options payload =
     (if \<not> truthy options then Inr payload
      else case options of
        PDict opts \<Rightarrow>
          (let (opts, payload) = lift_root_params fo opts (od_set ''options'' options payload);
               opts = move_key ''max_tokens'' ''num_predict'' opts;
               payload = (case od_get opts ''system'' of None \<Rightarrow> payload | Some v \<Rightarrow> od_set ''system'' v payload)
           in Inr (od_set ''options'' (PDict (od_del ''system'' opts)) payload))
      | _ \<Rightarrow> Inl AttributeError)"

definition with_stop :: "pdict \<Rightarrow> pdict \<Rightarrow> pdict res" where
  "with_stop openai payload = (case od_get openai ''stop'' of
      None \<Rightarrow> Inr payload
    | Some v \<Rightarrow> rbind (pset (od_getd payload ''options'' (PDict [])) ''stop'' v) (\<lambda>opts.
        Inr (od_set ''options'' opts payload)))"

definition with_format :: "pdict \<Rightarrow> pdict \<Rightarrow> pdict res" where
  "with_format openai payload = (case od_get openai ''response_format'' of
      None \<Rightarrow> Inr payload
    | Some rf \<Rightarrow> rbind (pget rf ''type'' PNone) (\<lambda>t. rbind (pget_key rf t) (\<lambda>schema.
        if truthy schema
        then rbind (pget schema ''schema'' PNone) (\<lambda>s. Inr (od_set ''format'' s payload))
        else Inr payload)))"

definition copy_key :: "string \<Rightarrow> string \<Rightarrow> pdict \<Rightarrow> pdict \<Rightarrow> pdict" where
  "copy_key k new src d = (case od_get src k of None \<Rightarrow> d | Some v \<Rightarrow> od_set new v d)"

definition convert_payload_openai_to_ollama :: "float_ops \<Rightarrow> pdict \<Rightarrow> pdict res" where
  "convert_payload_openai_to_ollama fo openai =
     rbind (case od_getd openai ''metadata'' PNone of
         PNone \<Rightarrow> Inr (od_del ''metadata'' openai)
       | v \<Rightarrow> rbind (py_dict v) (\<lambda>m. Inr (od_set ''metadata'' (PDict m) (od_del ''metadata'' openai)))) (\<lambda>openai.
     rbind (convert_messages_openai_to_ollama fo (od_getd openai ''messages'' PNone)) (\<lambda>ms.
     let payload = [(''model'', od_getd openai ''model'' PNone), (''messages'', ms),
           (''stream'', od_getd openai ''stream'' (PBool False))];
         payload = copy_key ''max_tokens'' ''num_predict'' openai (copy_key ''tools'' ''tools'' openai payload)
     in rbind (with_options fo (od_getd openai ''options'' PNone) payload) (\<lambda>payload.
        rbind (with_stop openai payload) (\<lambda>payload.
          with_format openai (copy_key ''metadata'' ''metadata'' openai payload)))))"

section \<open>Embeddings\<close>

definition embedding_options :: "pdict \<Rightarrow> string list \<Rightarrow> pdict \<Rightarrow> pdict" where
  "embedding_options openai ks payload = foldl (\<lambda>d k. copy_key k k openai d) payload ks"

definition convert_embedding_payload_openai_to_ollama :: "(rat \<Rightarrow> string) \<Rightarrow> pdict \<Rightarrow> pdict" where
  "convert_embedding_payload_openai_to_ollama f openai =
     (let v = od_getd openai ''input'' PNone;
          (inp, prompt) = (case v of
              PList xs \<Rightarrow> (v, py_join nl (map (py_str f) xs))
            | _ \<Rightarrow> (PList [v], py_str f v))
      in embedding_options openai [''options'', ''truncate'', ''keep_alive'']
           [(''model'', od_getd openai ''model'' PNone), (''input'', inp), (''prompt'', PStr prompt)])"

definition convert_embed_payload_openai_to_ollama :: "pdict \<Rightarrow> pdict" where
  "convert_embed_payload_openai_to_ollama openai =
     embedding_options openai [''truncate'', ''options'', ''keep_alive'']
       [(''model'', od_getd openai ''model'' PNone), (''input'', od_getd openai ''input'' PNone)]"

section \<open>Converted messages\<close>

definition ollama_call_ok :: "pv \<Rightarrow> bool" where
  "ollama_call_ok c = (case c of
      PDict d \<Rightarrow> od_keys d = [''index'', ''id'', ''function'']
        \<and> (\<exists>name args. od_get d ''function'' = Some (PDict [(''name'', name), (''arguments'', args)]))
    | _ \<Rightarrow> False)"

text \<open>What Ollama takes for a message: a role, a text if there is a content, images as texts and
  calls with the three fields, for which the content is empty.\<close>

definition ollama_fields_ok :: "pdict \<Rightarrow> bool" where
  "ollama_fields_ok d = (od_has d ''role'' \<and> od_ok d
     \<and> (case od_getd d ''content'' (PStr []) of PStr s \<Rightarrow> True | _ \<Rightarrow> False)
     \<and> (case od_getd d ''images'' (PList []) of PList xs \<Rightarrow> list_all is_str xs | _ \<Rightarrow> False)
     \<and> (case od_get d ''tool_calls'' of
          None \<Rightarrow> True
        | Some (PList cs) \<Rightarrow> list_all ollama_call_ok cs \<and> od_get d ''content'' = Some (PStr [])
        | Some _ \<Rightarrow> False))"

definition ollama_message_of :: "pv \<Rightarrow> pv \<Rightarrow> bool" where
  "ollama_message_of m w = (case w of
      PDict d \<Rightarrow> ollama_fields_ok d \<and> pidx m ''role'' = Inr (od_getd d ''role'' PNone)
    | _ \<Rightarrow> False)"

lemma ollama_tool_call_ok: "ollama_tool_call fo tc = Inr c \<Longrightarrow> ollama_call_ok c"
  by (auto simp: ollama_tool_call_def rbind_eq_Inr ollama_call_ok_def od_keys_def)

lemma ollama_part_ok:
  assumes "ollama_part s item = Inr s'" and "list_all is_str (snd s)"
  shows "list_all is_str (snd s')"
  using assms by (cases s) (auto simp: ollama_part_def rbind_eq_Inr split: if_splits)

lemma ollama_content_ok:
  assumes "ollama_content fo m new = Inr d" and "od_ok new" and "od_has new ''role''"
    and "od_keys new = [''role''] \<or> od_keys new = [''role'', ''thinking'']"
  shows "ollama_fields_ok d \<and> od_getd d ''role'' PNone = od_getd new ''role'' PNone"
proof -
  have fresh: "od_get new ''content'' = None" "od_get new ''images'' = None" "od_get new ''tool_calls'' = None"
    using assms(4) by (auto simp: map_of_eq_None_iff od_keys_def simp flip: set_map)
  let ?content = "od_getd m ''content'' (PList [])" and ?calls = "od_getd m ''tool_calls'' PNone"
  consider s where "?content = PStr s" "\<not> truthy ?calls" | "truthy ?calls"
    | "\<not> is_str ?content" "\<not> truthy ?calls"
    by (cases ?content) auto
  then show ?thesis
  proof cases
    case 1
    then show ?thesis
      using assms(1-3) fresh
      by (auto simp: ollama_content_def Let_def ollama_fields_ok_def od_getd_def split: if_splits)
  next
    case 2
    then obtain tcs cs where cs: "rmapM (ollama_tool_call fo) tcs = Inr cs"
      and d: "d = od_set ''content'' (PStr []) (od_set ''tool_calls'' (PList cs) new)"
      using assms(1) by (auto simp: ollama_content_def Let_def rbind_eq_Inr)
    have "list_all2 (\<lambda>_. ollama_call_ok) tcs cs"
      by (rule rmapM_all2 [OF cs]) (rule ollama_tool_call_ok)
    then have "list_all ollama_call_ok cs"
      by (auto simp: list_all2_conv_all_nth list_all_length)
    then show ?thesis
      using d assms(2,3) fresh by (simp add: ollama_fields_ok_def od_getd_def)
  next
    case 3
    then obtain items tx images where f: "rfoldM ollama_part ([], []) items = Inr (tx, images)"
      and d: "d = (let new = (if tx \<noteq> [] then od_set ''content'' (PStr (py_strip tx)) new else new)
                in if images \<noteq> [] then od_set ''images'' (PList images) new else new)"
      using assms(1) by (auto simp: ollama_content_def Let_def rbind_eq_Inr)
    have "list_all is_str (snd (tx, images))"
      by (rule rfoldM_invariant [where P = "\<lambda>s. list_all is_str (snd s)", OF f]) (auto intro: ollama_part_ok)
    then show ?thesis
      using d assms(2,3) fresh by (auto simp: ollama_fields_ok_def od_getd_def Let_def)
  qed
qed

lemma ollama_message_of_message:
  assumes "ollama_message fo m = Inr w"
  shows "ollama_message_of m w"
proof -
  obtain role r where role: "pidx m ''role'' = Inr role" and m: "m = PDict r"
    using assms by (cases m) (auto simp: ollama_message_def rbind_eq_Inr pidx_def)
  let ?new = "(''role'', role) # (case od_get r ''thinking'' of None \<Rightarrow> [] | Some v \<Rightarrow> [(''thinking'', v)])"
  obtain d where d: "ollama_content fo r ?new = Inr d" and w: "w = PDict d"
    using assms role m by (auto simp: ollama_message_def rmap_eq_Inr)
  have "ollama_fields_ok d \<and> od_getd d ''role'' PNone = od_getd ?new ''role'' PNone"
    by (rule ollama_content_ok [OF d]) (auto simp: od_ok_def od_has_def od_keys_def split: option.split)
  then show ?thesis
    using w role by (simp add: ollama_message_of_def)
qed


definition sample_floats :: float_ops where
  "sample_floats = \<lparr>fl_repr = \<lambda>_. ''0.5'', fl_str = \<lambda>_. None, fl_read = \<lambda>_. 0, fl_int = rat_of_int, fl_round = \<lambda>x. x\<rparr>"


section \<open>Where parameters go\<close>

lemma put_param_dict:
  "put_param fo mappings (PDict d) kx = Inr w \<Longrightarrow> \<exists>d'. w = PDict d'"
  by (cases kx) (auto simp: put_param_def rbind_eq_Inr split: if_splits)

lemma put_params_get:
  assumes "apply_model_params_to_body fo params (PDict d) mappings = Inr v" and "od_ok params"
  shows "\<exists>d'. v = PDict d' \<and> (\<forall>k. (od_getd params k PNone = PNone \<longrightarrow> od_get d' k = od_get d k)
      \<and> (od_getd params k PNone \<noteq> PNone \<longrightarrow>
           (\<exists>w. cast_param fo mappings k (od_getd params k PNone) = Inr w \<and> od_get d' k = Some w)))"
  using assms unfolding apply_model_params_to_body_def
proof (induction params arbitrary: d)
  case (Cons kx params)
  obtain k x where kx: "kx = (k, x)"
    by force
  have fresh: "od_get params k = None" and ok: "od_ok params"
    using Cons.prems(2) kx by (auto simp: od_ok_def map_of_eq_None_iff)
  obtain d1 where put: "put_param fo mappings (PDict d) (k, x) = Inr (PDict d1)"
    and rest: "rfoldM (put_param fo mappings) (PDict d1) params = Inr v"
    using Cons.prems(1) kx put_param_dict unfolding rfoldM.simps rbind_eq_Inr by blast
  obtain d' where v: "v = PDict d'" and get: "\<And>k. (od_getd params k PNone = PNone \<longrightarrow> od_get d' k = od_get d1 k)
      \<and> (od_getd params k PNone \<noteq> PNone \<longrightarrow>
           (\<exists>w. cast_param fo mappings k (od_getd params k PNone) = Inr w \<and> od_get d' k = Some w))"
    using Cons.IH [OF rest ok] by blast
  have "(od_getd (kx # params) j PNone = PNone \<longrightarrow> od_get d' j = od_get d j)
      \<and> (od_getd (kx # params) j PNone \<noteq> PNone \<longrightarrow>
           (\<exists>w. cast_param fo mappings j (od_getd (kx # params) j PNone) = Inr w \<and> od_get d' j = Some w))" for j
  proof (cases "j = k")
    case True
    have "od_get d' k = od_get d1 k"
      using get [of k] fresh by (simp add: od_getd_def)
    then show ?thesis
      using True put kx by (auto simp: put_param_def rbind_eq_Inr split: if_splits)
  next
    case False
    then have "od_get d1 j = od_get d j"
      using put by (auto simp: put_param_def rbind_eq_Inr split: if_splits)
    then show ?thesis
      using False get [of j] kx by simp
  qed
  then show ?case
    using v by blast
qed (auto simp: od_getd_def)

lemma remove_keys_get:
  "od_get (foldl (\<lambda>d k. if k \<in> S then od_del k d else d) p ks) k =
     (if k \<in> S \<and> k \<in> set ks then None else od_get p k)"
  by (induction ks arbitrary: p) auto

lemma remove_keys_ok:
  "od_ok p \<Longrightarrow> od_ok (foldl (\<lambda>d k. if k \<in> S then od_del k d else d) p ks)"
  by (induction ks arbitrary: p) auto

lemma remove_openlaunch_get:
  "od_get (remove_openlaunch_params p) k = (if k \<in> set openlaunch_params then None else od_get p k)"
  by (auto simp: remove_openlaunch_params_def remove_keys_get od_keys_def map_of_eq_None_iff simp flip: set_map)

lemma remove_openlaunch_ok: "od_ok p \<Longrightarrow> od_ok (remove_openlaunch_params p)"
  by (simp add: remove_openlaunch_params_def remove_keys_ok)

lemma rename_param_getd:
  assumes "old \<noteq> new"
  shows "od_getd (rename_param old new p) k PNone =
     (if od_getd p old PNone = PNone then od_getd p k PNone
      else if k = old then PNone else if k = new then od_getd p old PNone else od_getd p k PNone)"
  using assms by (cases "od_getd p old PNone") (auto simp: rename_param_def)

lemma rename_param_ok: "od_ok p \<Longrightarrow> od_ok (rename_param old new p)"
  by (cases "od_getd p old PNone") (auto simp: rename_param_def)

definition root_value :: "float_ops \<Rightarrow> string \<Rightarrow> pv \<Rightarrow> pv" where
  "root_value fo k v = (if k = ''think'' then v else parse_json fo v)"

lemma lift_root_param_eq:
  "lift_root_param fo (p, f) k = (if od_getd p k PNone = PNone then (p, f)
     else (od_del k p, od_set k (root_value fo k (od_getd p k PNone)) f))"
  by (cases "od_getd p k PNone") (simp_all add: lift_root_param_def root_value_def)

lemma lift_keys:
  assumes "distinct ks" and "foldl (lift_root_param fo) (p, f) ks = (p', f')" and "od_ok p"
  shows "od_ok p'"
    and "od_getd p' k PNone = (if k \<in> set ks then PNone else od_getd p k PNone)"
    and "od_get f' k = (if k \<in> set ks \<and> od_getd p k PNone \<noteq> PNone
            then Some (root_value fo k (od_getd p k PNone)) else od_get f k)"
proof -
  have "od_ok p' \<and> od_getd p' k PNone = (if k \<in> set ks then PNone else od_getd p k PNone)
      \<and> od_get f' k = (if k \<in> set ks \<and> od_getd p k PNone \<noteq> PNone
            then Some (root_value fo k (od_getd p k PNone)) else od_get f k)"
    using assms
  proof (induction ks arbitrary: p f)
    case (Cons j ks)
    show ?case
    proof (cases "od_getd p j PNone = PNone")
      case True
      then show ?thesis
        using Cons.prems Cons.IH [of p f] by (auto simp: lift_root_param_eq)
    next
      case False
      then show ?thesis
        using Cons.prems Cons.IH [of "od_del j p" "od_set j (root_value fo j (od_getd p j PNone)) f"]
        by (auto simp: lift_root_param_eq)
    qed
  qed simp
  then show "od_ok p'" "od_getd p' k PNone = (if k \<in> set ks then PNone else od_getd p k PNone)"
    "od_get f' k = (if k \<in> set ks \<and> od_getd p k PNone \<noteq> PNone
        then Some (root_value fo k (od_getd p k PNone)) else od_get f k)"
    by simp_all
qed

lemma merge_without_custom:
  assumes "od_get params ''custom_params'' = None" and "od_ok params"
  shows "\<exists>p. merge_custom_params fo params = Inr p \<and> od_ok p
     \<and> (\<forall>k. od_getd p k PNone = (if k \<in> set openlaunch_params then PNone else od_getd params k PNone))"
proof -
  have get: "od_get (od_del ''custom_params'' (remove_openlaunch_params params)) k
      = (if k \<in> set openlaunch_params then None else od_get params k)" for k
    using assms(1) by (auto simp: remove_openlaunch_get)
  have "od_get (remove_openlaunch_params params) ''custom_params'' = None"
    using assms(1) by (simp add: remove_openlaunch_get)
  then have "merge_custom_params fo params = Inr (od_del ''custom_params'' (remove_openlaunch_params params))"
    by (simp add: merge_custom_params_def od_getd_def Let_def)
  then show ?thesis
    using get assms(2) by (auto simp: od_getd_def remove_openlaunch_ok)
qed

text \<open>The parameter that stands behind an option of the request, None where the option is not sent\<close>

definition sent_option :: "pdict \<Rightarrow> string \<Rightarrow> pv" where
  "sent_option params k =
     (if k \<in> set openlaunch_params \<or> k \<in> set root_params \<or> k = ''max_tokens'' then PNone
      else if k = ''num_predict'' \<and> od_getd params ''max_tokens'' PNone \<noteq> PNone then od_getd params ''max_tokens'' PNone
      else od_getd params k PNone)"

lemma key_sets:
  "''max_tokens'' \<notin> set openlaunch_params" "''num_predict'' \<notin> set openlaunch_params"
  "set root_params \<inter> set openlaunch_params = {}" "''max_tokens'' \<notin> set root_params"
  "''num_predict'' \<notin> set root_params" "''options'' \<notin> set root_params" "distinct root_params"
  by (simp_all add: openlaunch_params_def root_params_def)

lemma lifted_options:
  assumes p: "\<And>k. od_getd p k PNone = (if k \<in> set openlaunch_params then PNone else od_getd params k PNone)"
    and l: "lift_root_params fo (rename_param ''max_tokens'' ''num_predict'' p) form = (p', f')" and "od_ok p"
  shows "od_ok p'" and "od_getd p' k PNone = sent_option params k"
    and "od_get f' k = (if k \<in> set root_params \<and> od_getd params k PNone \<noteq> PNone
            then Some (root_value fo k (od_getd params k PNone)) else od_get form k)"
proof -
  let ?q = "rename_param ''max_tokens'' ''num_predict'' p"
  have q: "od_getd ?q k PNone = (if od_getd params ''max_tokens'' PNone = PNone then od_getd p k PNone
      else if k = ''max_tokens'' then PNone else if k = ''num_predict'' then od_getd params ''max_tokens'' PNone
      else od_getd p k PNone)" for k
    using rename_param_getd [of "''max_tokens''" "''num_predict''" p k] p [of "''max_tokens''"] key_sets(1) by simp
  note lk = lift_keys [OF key_sets(7) l [unfolded lift_root_params_def] rename_param_ok [OF assms(3)]]
  show "od_ok p'"
    by (rule lk(1))
  show "od_getd p' k PNone = sent_option params k"
    using lk(2) [of k] q [of k] p [of k] key_sets by (auto simp: sent_option_def split: if_splits)
  show "od_get f' k = (if k \<in> set root_params \<and> od_getd params k PNone \<noteq> PNone
      then Some (root_value fo k (od_getd params k PNone)) else od_get form k)"
  proof (cases "k \<in> set root_params")
    case True
    then have "k \<noteq> ''max_tokens''" "k \<noteq> ''num_predict''" "k \<notin> set openlaunch_params"
      using key_sets by auto
    then have "od_getd ?q k PNone = od_getd params k PNone"
      using q [of k] p [of k] by simp
    then show ?thesis
      using lk(3) [of k] by simp
  qed (use lk(3) [of k] in simp)
qed

text \<open>Of the model's parameters the ones of OpenLaunch itself never reach Ollama; \<^verbatim>\<open>format\<close>,
  \<^verbatim>\<open>keep_alive\<close> and \<^verbatim>\<open>think\<close> go to the root of the request and nowhere else; \<^verbatim>\<open>max_tokens\<close> is sent as
  \<^verbatim>\<open>num_predict\<close> and wins over it; every other parameter is sent as an option with its cast, and
  nothing else is sent or changed.
\<close>

theorem ollama_params_placed:
  assumes "od_ok params" and "od_get params ''custom_params'' = None"
    and "od_getd form ''options'' PNone = PNone"
    and "apply_model_params_to_body_ollama fo params form = Inr form'"
  shows "\<exists>opts. od_get form' ''options'' = Some (PDict opts)
    \<and> (\<forall>k. if sent_option params k = PNone then od_get opts k = None
           else \<exists>w. cast_param fo ollama_mappings k (sent_option params k) = Inr w \<and> od_get opts k = Some w)
    \<and> (\<forall>k. k \<noteq> ''options'' \<longrightarrow> od_get form' k = (if k \<in> set root_params \<and> od_getd params k PNone \<noteq> PNone
           then Some (root_value fo k (od_getd params k PNone)) else od_get form k))"
proof -
  obtain p where mp: "merge_custom_params fo params = Inr p" and ok: "od_ok p"
    and p: "\<And>k. od_getd p k PNone = (if k \<in> set openlaunch_params then PNone else od_getd params k PNone)"
    using merge_without_custom [OF assms(2,1)] by blast
  obtain p' f' where l: "lift_root_params fo (rename_param ''max_tokens'' ''num_predict'' p) form = (p', f')"
    by force
  note lo = lifted_options [OF p l ok]
  have "od_get f' ''options'' = od_get form ''options''"
    using lo(3) [of "''options''"] key_sets(6) by simp
  then have opt: "py_or (od_getd f' ''options'' (PDict [])) (PDict []) = PDict []"
    using assms(3) by (cases "od_get form ''options''") (auto simp: od_getd_def py_or_def)
  obtain v where v: "apply_model_params_to_body fo p' (PDict []) ollama_mappings = Inr v"
    and form': "form' = od_set ''options'' v f'"
    using assms(4) mp l opt by (auto simp: apply_model_params_to_body_ollama_def rbind_eq_Inr)
  obtain opts where o: "v = PDict opts"
    and get: "\<And>k. (od_getd p' k PNone = PNone \<longrightarrow> od_get opts k = od_get [] k)
      \<and> (od_getd p' k PNone \<noteq> PNone \<longrightarrow>
           (\<exists>w. cast_param fo ollama_mappings k (od_getd p' k PNone) = Inr w \<and> od_get opts k = Some w))"
    using put_params_get [OF v lo(1)] by blast
  show ?thesis
    using get lo(2,3) o form' by (intro exI [of _ opts]) auto
qed

theorem ollama_params_placed_witness:
  "\<exists>opts. od_get [(''model'', PStr ''m''), (''think'', PBool True), (''options'', PDict [(''num_predict'', PInt 12)])]
       ''options'' = Some (PDict opts) \<and> od_get opts ''num_predict'' = Some (PInt 12) \<and> od_get opts ''system'' = None"
proof -
  let ?p = "[(''system'', PStr ''s''), (''think'', PBool True), (''max_tokens'', PStr ''12'')]"
  have run: "apply_model_params_to_body_ollama sample_floats ?p [(''model'', PStr ''m'')]
     = Inr [(''model'', PStr ''m''), (''think'', PBool True), (''options'', PDict [(''num_predict'', PInt 12)])]"
    by code_simp
  have sent: "sent_option ?p ''num_predict'' = PStr ''12''" "sent_option ?p ''system'' = PNone"
    and cast: "cast_param sample_floats ollama_mappings ''num_predict'' (PStr ''12'') = Inr (PInt 12)"
    by code_simp+
  have "od_ok ?p" and "od_get ?p ''custom_params'' = None" and "od_getd [(''model'', PStr ''m'')] ''options'' PNone = PNone"
    by (simp_all add: od_ok_def)
  from ollama_params_placed [OF this run] obtain opts where
    "od_get [(''model'', PStr ''m''), (''think'', PBool True), (''options'', PDict [(''num_predict'', PInt 12)])]
       ''options'' = Some (PDict opts)"
    and get: "\<And>k. if sent_option ?p k = PNone then od_get opts k = None
           else \<exists>w. cast_param sample_floats ollama_mappings k (sent_option ?p k) = Inr w \<and> od_get opts k = Some w"
    by blast
  then show ?thesis
    using get [of "''num_predict''"] get [of "''system''"] sent cast by (intro exI [of _ opts]) simp
qed

text \<open>Stop words with a character beyond ASCII reach the provider as two characters each.\<close>

lemma high_byte: "128 \<le> m \<Longrightarrow> m < 256 \<Longrightarrow> (char_of (m :: nat) :: char) \<noteq> CHR 0x5C"
  by (simp add: char_of_eq_iff take_bit_eq_mod)

lemma stop_words_garbled:
  assumes "128 \<le> (of_char c :: nat)"
  shows "stop_text (PStr [c]) = Inr (PStr [char_of (192 + of_char c div 64 :: nat), char_of (128 + of_char c mod 64 :: nat)])"
proof -
  define n where "n = (of_char c :: nat)"
  have n: "128 \<le> n" "n < 256"
    using assms by (simp_all add: n_def)
  then have "n div 64 < 4"
    by (intro less_mult_imp_div_less) simp
  then have "(char_of (192 + n div 64) :: char) \<noteq> CHR 0x5C"
    by (intro high_byte) simp_all
  moreover have "n mod 64 < 64"
    by simp
  then have "(char_of (128 + n mod 64) :: char) \<noteq> CHR 0x5C"
    by (intro high_byte) simp_all
  moreover have "utf8_bytes [c] = [char_of (192 + n div 64), char_of (128 + n mod 64)]"
    using n(1) by (simp add: utf8_bytes_def utf8_char_def n_def Let_def)
  ultimately show ?thesis
    by (simp add: stop_text_def unicode_escape_def n_def [symmetric])
qed

end
