(* ===== verification/Kb_Commands.thy ===== *)
theory Kb_Commands
  imports Text_Scan
begin

text \<open>
  The command lines of \<^verbatim>\<open>backend/openlaunch/tools/knowledge_fs.py\<close>: splitting on pipes, the tokens of a
  segment as \<^verbatim>\<open>shlex.split\<close> makes them, flags and numbers, and the matchers of \<^verbatim>\<open>grep\<close>. The engine of
  regular expressions is an argument.
\<close>

section \<open>Tokens of a shell\<close>

text \<open>\<^verbatim>\<open>shlex.split\<close> in its POSIX mode: outside words, in a word, in quotes, and after a backslash
  there; None is the \<open>ValueError\<close> of an open quote or escape.\<close>

datatype shell_state = Blank | Word | Quoted char | Escaped "char option"

definition shell_space :: "char \<Rightarrow> bool" where
  "shell_space c = (c = CHR '' '' \<or> c = CHR 0x09 \<or> c = CHR 0x0D \<or> c = CHR 0x0A)"

definition is_quote :: "char \<Rightarrow> bool" where
  "is_quote c = (c = CHR 0x27 \<or> c = CHR 0x22)"

fun shell_go :: "shell_state \<Rightarrow> string \<Rightarrow> string \<Rightarrow> string list option" where
  "shell_go st t [] = (case st of Blank \<Rightarrow> Some [] | Word \<Rightarrow> Some [t] | _ \<Rightarrow> None)"
| "shell_go st t (c # s) = (case st of
      Blank \<Rightarrow>
        (if shell_space c then shell_go Blank [] s
         else if c = CHR 0x5C then shell_go (Escaped None) [] s
         else if is_quote c then shell_go (Quoted c) [] s
         else shell_go Word [c] s)
    | Word \<Rightarrow>
        (if shell_space c then map_option (\<lambda>ts. t # ts) (shell_go Blank [] s)
         else if is_quote c then shell_go (Quoted c) t s
         else if c = CHR 0x5C then shell_go (Escaped None) t s
         else shell_go Word (t @ [c]) s)
    | Quoted q \<Rightarrow>
        (if c = q then shell_go Word t s
         else if c = CHR 0x5C \<and> q = CHR 0x22 then shell_go (Escaped (Some q)) t s
         else shell_go (Quoted q) (t @ [c]) s)
    | Escaped None \<Rightarrow> shell_go Word (t @ [c]) s
    | Escaped (Some q) \<Rightarrow>
        shell_go (Quoted q) ((if c \<noteq> CHR 0x5C \<and> c \<noteq> q then t @ [CHR 0x5C] else t) @ [c]) s)"

definition shlex_split :: "string \<Rightarrow> string list option" where
  "shlex_split s = shell_go Blank [] s"

text \<open>\<^verbatim>\<open>s.split()\<close>\<close>

fun words_go :: "string \<Rightarrow> string \<Rightarrow> string list" where
  "words_go w [] = (if w = [] then [] else [w])"
| "words_go w (c # s) =
     (if is_space c then (if w = [] then words_go [] s else w # words_go [] s) else words_go (w @ [c]) s)"

definition py_words :: "string \<Rightarrow> string list" where
  "py_words s = words_go [] s"

section \<open>Pipelines\<close>

text \<open>The segments between pipes outside quotes: the segments so far, both quotes and the buffer\<close>

fun split_pipes :: "bool \<Rightarrow> bool \<Rightarrow> string \<Rightarrow> string \<Rightarrow> string list" where
  "split_pipes sq dq buf [] = (let r = py_strip buf in if r = [] then [] else [r])"
| "split_pipes sq dq buf (c # s) =
     (if c = CHR 0x27 \<and> \<not> dq then split_pipes (\<not> sq) dq (buf @ [c]) s
      else if c = CHR 0x22 \<and> \<not> sq then split_pipes sq (\<not> dq) (buf @ [c]) s
      else if c = CHR ''|'' \<and> \<not> sq \<and> \<not> dq then py_strip buf # split_pipes sq dq [] s
      else split_pipes sq dq (buf @ [c]) s)"

definition segment_tokens :: "string \<Rightarrow> string list" where
  "segment_tokens seg = (case shlex_split seg of Some ts \<Rightarrow> ts | None \<Rightarrow> py_words seg)"

definition parse_pipeline :: "string \<Rightarrow> string list list" where
  "parse_pipeline command =
     filter (\<lambda>ts. ts \<noteq> []) (map segment_tokens (filter (\<lambda>seg. seg \<noteq> []) (split_pipes False False [] command)))"

section \<open>Flags\<close>

text \<open>\<^verbatim>\<open>str.isdigit\<close> on the characters of Latin-1\<close>

definition digit_like :: "char \<Rightarrow> bool" where
  "digit_like c = (is_digit_char c \<or> (of_char c :: nat) \<in> {178, 179, 185})"

definition is_flag :: "string \<Rightarrow> bool" where
  "is_flag token = (py_startswith token ''-'' \<and> 1 < length token \<and> \<not> list_all digit_like (tl token))"

definition extract_flags :: "string list \<Rightarrow> char set \<times> string list" where
  "extract_flags tokens = (set (concat (map tl (filter is_flag tokens))), filter (\<lambda>t. \<not> is_flag t) tokens)"

text \<open>\<^verbatim>\<open>^-\d+$\<close>, where the end may be before a last line feed\<close>

definition numeric_flag :: "string \<Rightarrow> nat option" where
  "numeric_flag token = (case token of
      [] \<Rightarrow> None
    | c # r \<Rightarrow> (let d = takeWhile is_digit_char r; rest = dropWhile is_digit_char r in
        if c = CHR ''-'' \<and> d \<noteq> [] \<and> (rest = [] \<or> rest = nl) then Some (digits_val d) else None))"

fun extract_numeric_flag :: "string list \<Rightarrow> nat option \<times> string list" where
  "extract_numeric_flag [] = (None, [])"
| "extract_numeric_flag (t # ts) = (case numeric_flag t of
      Some n \<Rightarrow> (Some n, ts)
    | None \<Rightarrow> (let (n, rest) = extract_numeric_flag ts in (n, t # rest)))"

section \<open>Matchers\<close>

definition backslash :: "char \<Rightarrow> string" where
  "backslash c = [CHR 0x5C, c]"

text \<open>\<^verbatim>\<open>\[.+\]\<close> somewhere\<close>

fun has_bracket :: "string \<Rightarrow> bool" where
  "has_bracket [] = False"
| "has_bracket (c # s) =
     ((c = CHR ''['' \<and> CHR '']'' \<in> set (tl (takeWhile (\<lambda>x. x \<noteq> CHR 0x0A) s))) \<or> has_bracket s)"

definition is_regex_pattern :: "string \<Rightarrow> bool" where
  "is_regex_pattern p =
     (py_contains p (backslash CHR ''|'') \<or> py_contains p ''.*'' \<or> py_contains p ''.+''
      \<or> py_contains p ''.?'' \<or> py_contains p (backslash CHR ''d'') \<or> py_contains p (backslash CHR ''w'')
      \<or> py_contains p (backslash CHR ''s'') \<or> has_bracket p)"

definition normalize_regex :: "string \<Rightarrow> string" where
  "normalize_regex p = (let f = py_replace (backslash CHR ''|'') ''|'' in f (f p))"

text \<open>\<^verbatim>\<open>re.compile\<close> with its flag for case: the text of the error or the search\<close>

type_synonym regex_engine = "bool \<Rightarrow> string \<Rightarrow> string + (string \<Rightarrow> bool)"

definition build_matcher :: "regex_engine \<Rightarrow> string \<Rightarrow> bool \<Rightarrow> bool \<Rightarrow> string + (string \<Rightarrow> bool)" where
  "build_matcher rx pattern ci use_regex =
     (if use_regex \<or> is_regex_pattern pattern
      then (case rx ci (normalize_regex pattern) of
          Inl e \<Rightarrow> Inl (''Invalid regex: '' @ e)
        | Inr f \<Rightarrow> Inr f)
      else let sp = (if ci then py_lower pattern else pattern)
           in Inr (\<lambda>line. py_contains (if ci then py_lower line else line) sp))"

section \<open>Reading back a quoted pipeline\<close>

definition quoted_token :: "string \<Rightarrow> string" where
  "quoted_token t = CHR 0x27 # t @ [CHR 0x27]"

definition segment_text :: "string list \<Rightarrow> string" where
  "segment_text ts = py_join '' '' (map quoted_token ts)"

definition pipeline_text :: "string list list \<Rightarrow> string" where
  "pipeline_text segs = py_join '' | '' (map segment_text segs)"

lemma shell_quoted:
  assumes "CHR 0x27 \<notin> set t"
  shows "shell_go (Quoted CHR 0x27) u (t @ CHR 0x27 # s) = shell_go Word (u @ t) s"
  using assms by (induction t arbitrary: u) auto

lemma shell_segment:
  assumes "\<forall>t\<in>set ts. CHR 0x27 \<notin> set t"
  shows "shlex_split (segment_text ts) = Some ts"
  unfolding shlex_split_def segment_text_def
  using assms
proof (induction ts)
  case (Cons t ts)
  have q: "shell_go Blank [] (quoted_token t @ s) = shell_go Word t s" for s
    using Cons.prems shell_quoted [of t "[]" s] by (simp add: quoted_token_def shell_space_def is_quote_def)
  show ?case
  proof (cases ts)
    case Nil
    then show ?thesis
      using q [of "[]"] by simp
  next
    case (Cons u us)
    then have "shell_go Blank [] (py_join '' '' (map quoted_token (t # ts)))
        = shell_go Word t (CHR '' '' # py_join '' '' (map quoted_token ts))"
      using q by simp
    then show ?thesis
      using Cons.IH Cons.prems by (simp add: shell_space_def)
  qed
qed simp

text \<open>A text that leaves quotes as it finds them and has its pipes inside\<close>

definition balanced :: "string \<Rightarrow> bool" where
  "balanced w = (\<forall>buf s. split_pipes False False buf (w @ s) = split_pipes False False (buf @ w) s)"

lemma balanced_Nil: "balanced []"
  by (simp add: balanced_def)

lemma balanced_append: "balanced v \<Longrightarrow> balanced w \<Longrightarrow> balanced (v @ w)"
  by (simp add: balanced_def)

lemma balanced_space: "balanced '' ''"
  by (simp add: balanced_def)

lemma split_quoted:
  assumes "CHR 0x27 \<notin> set t"
  shows "split_pipes True False buf (t @ CHR 0x27 # s) = split_pipes False False (buf @ t @ [CHR 0x27]) s"
  using assms by (induction t arbitrary: buf) auto

lemma balanced_quoted: "CHR 0x27 \<notin> set t \<Longrightarrow> balanced (quoted_token t)"
  by (simp add: balanced_def quoted_token_def split_quoted)

lemma balanced_after_space: "balanced w \<Longrightarrow> balanced (CHR '' '' # w)"
  using balanced_append [OF balanced_space, of w] by simp

lemma balanced_segment: "\<forall>t\<in>set ts. CHR 0x27 \<notin> set t \<Longrightarrow> balanced (segment_text ts)"
  unfolding segment_text_def
proof (induction ts)
  case (Cons t ts)
  then show ?case
    by (cases ts) (simp_all add: balanced_quoted balanced_append balanced_after_space)
qed (simp add: balanced_Nil)

text \<open>A segment begins and ends with a quote.\<close>

definition shielded :: "string \<Rightarrow> bool" where
  "shielded w = (w \<noteq> [] \<and> hd w = CHR 0x27 \<and> last w = CHR 0x27)"

lemma shielded_quoted: "shielded (quoted_token t)"
  by (simp add: shielded_def quoted_token_def)

lemma shielded_segment: "ts \<noteq> [] \<Longrightarrow> shielded (segment_text ts)"
  unfolding segment_text_def
proof (induction ts)
  case (Cons t ts)
  then show ?case
    using shielded_quoted [of t] by (cases ts) (auto simp: shielded_def quoted_token_def)
qed simp

lemma strip_shielded:
  assumes "shielded w" and "\<forall>c\<in>set a. is_space c" and "\<forall>c\<in>set b. is_space c"
  shows "py_strip (a @ w @ b) = w"
proof -
  obtain u where u: "w = u @ [CHR 0x27]"
    using assms(1) by (metis shielded_def append_butlast_last_id)
  have q: "\<not> is_space CHR 0x27"
    by (simp add: is_space_def)
  have l: "py_lstrip (a @ w @ b) = w @ b"
    using assms q by (cases w) (simp_all add: py_lstrip_def dropWhile_append2 shielded_def)
  have "dropWhile is_space (rev b @ rev w) = dropWhile is_space (rev w)"
    by (rule dropWhile_append2) (use assms(3) in simp)
  then have "dropWhile is_space (rev b @ rev w) = rev w"
    using q u by simp
  then show ?thesis
    unfolding py_strip_def l py_rstrip_def by simp
qed

lemma pipeline_segments:
  assumes "segs \<noteq> []" and "\<forall>ts\<in>set segs. ts \<noteq> [] \<and> (\<forall>t\<in>set ts. CHR 0x27 \<notin> set t)"
    and "\<forall>c\<in>set buf. is_space c"
  shows "split_pipes False False buf (pipeline_text segs) = map segment_text segs"
  unfolding pipeline_text_def
  using assms
proof (induction segs arbitrary: buf)
  case (Cons ts segs)
  let ?w = "segment_text ts"
  have w: "balanced ?w" "shielded ?w"
    using Cons.prems(2) balanced_segment [of ts] shielded_segment [of ts] by auto
  show ?case
  proof (cases "segs = []")
    case True
    have "split_pipes False False buf (?w @ []) = (let r = py_strip (buf @ ?w) in if r = [] then [] else [r])"
      using w(1) unfolding balanced_def by (simp only: split_pipes.simps)
    moreover have "py_strip (buf @ ?w) = ?w"
      using strip_shielded [OF w(2), of buf "[]"] Cons.prems(3) by simp
    ultimately show ?thesis
      using True w(2) by (simp add: shielded_def)
  next
    case False
    let ?rest = "py_join '' | '' (map segment_text segs)"
    have "py_join '' | '' (map segment_text (ts # segs)) = ?w @ '' | '' @ ?rest"
      using False by (cases segs) simp_all
    moreover have "split_pipes False False buf (?w @ '' | '' @ ?rest)
        = split_pipes False False (buf @ ?w) ('' | '' @ ?rest)"
      using w(1) unfolding balanced_def by blast
    moreover have "split_pipes False False (buf @ ?w) ('' | '' @ ?rest)
        = py_strip (buf @ ?w @ '' '') # split_pipes False False '' '' ?rest"
      by simp
    moreover have "py_strip (buf @ ?w @ '' '') = ?w"
      using strip_shielded [OF w(2) Cons.prems(3), of "'' ''"] by (simp add: is_space_def)
    moreover have "split_pipes False False '' '' ?rest = map segment_text segs"
      using Cons.IH [OF False] Cons.prems(2) by (simp add: is_space_def)
    ultimately show ?thesis
      by simp
  qed
qed simp

text \<open>C36 A pipeline whose tokens are written in single quotes is read back as it is: pipes, spaces, double
  quotes and backslashes in the tokens have no effect.
\<close>

theorem pipeline_read_back:
  assumes "\<forall>ts\<in>set segs. ts \<noteq> [] \<and> (\<forall>t\<in>set ts. CHR 0x27 \<notin> set t)"
  shows "parse_pipeline (pipeline_text segs) = segs"
proof (cases "segs = []")
  case True
  then show ?thesis
    by (simp add: parse_pipeline_def pipeline_text_def py_strip_def py_rstrip_def py_lstrip_def)
next
  case False
  have "segment_text ts \<noteq> []" if "ts \<in> set segs" for ts
    using that assms shielded_segment [of ts] by (auto simp: shielded_def)
  then have "filter (\<lambda>seg. seg \<noteq> []) (map segment_text segs) = map segment_text segs"
    by simp
  moreover have "map segment_tokens (map segment_text segs) = segs"
    using assms shell_segment by (simp add: segment_tokens_def map_idI)
  moreover have "filter (\<lambda>ts. ts \<noteq> []) segs = segs"
    using assms by simp
  ultimately show ?thesis
    using pipeline_segments [OF False assms, of "[]"] by (simp add: parse_pipeline_def)
qed

theorem pipeline_read_back_witness:
  "parse_pipeline (pipeline_text [[''grep'', ''a | \"b''], [''head'', ''-3'']]) = [[''grep'', ''a | \"b''], [''head'', ''-3'']]"
  by (rule pipeline_read_back) simp

end
