(* ===== verification/Kb_Directories.thy ===== *)
theory Kb_Directories
  imports Access_Grants "HOL-Library.List_Lexorder" "HOL-Library.Char_ord"
begin

text \<open>
  The directories of a knowledge base, \<^verbatim>\<open>backend/openlaunch/models/knowledge.py\<close> and the handlers of
  \<^verbatim>\<open>backend/openlaunch/routers/knowledge.py\<close> that create, change, delete and move. An operation maps
  the committed tables to the next ones and names what the caller sees. \<open>fk\<close> says whether the database
  enforces foreign keys (SQLite does not unless told to); \<open>depth\<close> is the number of nested calls that
  the interpreter's stack has room for. Names are ordered by their code points.
\<close>

section \<open>Tables\<close>

record kb_row =
  kb_id :: string
  kb_owner :: string
  kb_name :: string
  kb_desc :: string
  kb_external :: bool
  kb_updated :: int

record dir_row =
  kd_id :: string
  kd_kb :: string
  kd_parent :: "string option"
  kd_name :: string
  kd_user :: string
  kd_created :: int
  kd_updated :: int

record link_row =
  kf_id :: string
  kf_kb :: string
  kf_file :: string
  kf_dir :: "string option"
  kf_user :: string
  kf_created :: int
  kf_updated :: int

record kb_tables =
  kt_bases :: "kb_row list"
  kt_dirs :: "dir_row list"
  kt_links :: "link_row list"

definition get_knowledge_by_id :: "kb_tables \<Rightarrow> string \<Rightarrow> kb_row option" where
  "get_knowledge_by_id t i = List.find (\<lambda>k. kb_id k = i) (kt_bases t)"

definition get_directory_by_id :: "kb_tables \<Rightarrow> string \<Rightarrow> dir_row option" where
  "get_directory_by_id t i = List.find (\<lambda>d. kd_id d = i) (kt_dirs t)"

text \<open>The unique constraint on knowledge base, parent and name: rows without a parent never conflict.\<close>

definition name_taken :: "dir_row list \<Rightarrow> dir_row \<Rightarrow> bool" where
  "name_taken ds d = (kd_parent d \<noteq> None
     \<and> (\<exists>e\<in>set ds. kd_id e \<noteq> kd_id d \<and> kd_kb e = kd_kb d \<and> kd_parent e = kd_parent d \<and> kd_name e = kd_name d))"

definition parent_exists :: "dir_row list \<Rightarrow> string option \<Rightarrow> bool" where
  "parent_exists ds p = (case p of None \<Rightarrow> True | Some i \<Rightarrow> i \<in> kd_id ` set ds)"

section \<open>Creating and listing\<close>

definition create_directory ::
  "bool \<Rightarrow> int \<Rightarrow> string \<Rightarrow> string \<Rightarrow> string \<Rightarrow> string \<Rightarrow> string option \<Rightarrow> kb_tables \<Rightarrow> kb_tables \<times> dir_row option" where
  "create_directory fk now new_id kb name uid parent t =
     (let d = \<lparr>kd_id = new_id, kd_kb = kb, kd_parent = parent, kd_name = name, kd_user = uid,
               kd_created = now, kd_updated = now\<rparr>
      in if new_id \<in> kd_id ` set (kt_dirs t) \<or> name_taken (kt_dirs t) d
            \<or> (fk \<and> (\<not> parent_exists (kt_dirs t) parent \<or> kb \<notin> kb_id ` set (kt_bases t)))
         then (t, None)
         else (t\<lparr>kt_dirs := kt_dirs t @ [d]\<rparr>, Some d))"

text \<open>An empty parent id is the root, as no parent is.\<close>

definition at_level :: "string option \<Rightarrow> dir_row \<Rightarrow> bool" where
  "at_level parent d = (case parent of
      None \<Rightarrow> kd_parent d = None
    | Some p \<Rightarrow> (if p = [] then kd_parent d = None else kd_parent d = Some p))"

definition get_directories :: "kb_tables \<Rightarrow> string \<Rightarrow> string option \<Rightarrow> dir_row list" where
  "get_directories t kb parent = sort_key kd_name (filter (\<lambda>d. kd_kb d = kb \<and> at_level parent d) (kt_dirs t))"

definition get_all_directories :: "kb_tables \<Rightarrow> string \<Rightarrow> dir_row list" where
  "get_all_directories t kb = sort_key kd_name (filter (\<lambda>d. kd_kb d = kb) (kt_dirs t))"

section \<open>Walking up\<close>

definition parent_of :: "kb_tables \<Rightarrow> string \<Rightarrow> string option" where
  "parent_of t i = (case get_directory_by_id t i of None \<Rightarrow> None | Some d \<Rightarrow> kd_parent d)"

definition unseen :: "kb_tables \<Rightarrow> string list \<Rightarrow> nat" where
  "unseen t seen = card (kd_id ` set (kt_dirs t) - set seen)"

lemma get_directory_Some: "get_directory_by_id t i = Some d \<Longrightarrow> d \<in> set (kt_dirs t) \<and> kd_id d = i"
  by (auto simp: get_directory_by_id_def find_Some_iff)

lemma get_directory_None: "get_directory_by_id t i = None \<longleftrightarrow> i \<notin> kd_id ` set (kt_dirs t)"
  by (auto simp: get_directory_by_id_def find_None_iff)

lemma parent_of_None: "i \<notin> kd_id ` set (kt_dirs t) \<Longrightarrow> parent_of t i = None"
  by (simp add: parent_of_def get_directory_None [symmetric])

lemma unseen_less:
  assumes "c \<in> kd_id ` set (kt_dirs t)" and "c \<notin> set seen"
  shows "unseen t (c # seen) < unseen t seen"
proof -
  have "kd_id ` set (kt_dirs t) - set (c # seen) \<subset> kd_id ` set (kt_dirs t) - set seen"
    using assms by auto
  then show ?thesis
    unfolding unseen_def by (intro psubset_card_mono) simp_all
qed

lemma unseen_le: "unseen t (c # seen) \<le> unseen t seen"
  unfolding unseen_def by (intro card_mono) auto

text \<open>The loop of the cycle check: whether the chain of parents from \<open>cur\<close> meets the directory\<close>

function walk_meets :: "kb_tables \<Rightarrow> string \<Rightarrow> string option \<Rightarrow> string list \<Rightarrow> bool" where
  "walk_meets t i None seen = False"
| "walk_meets t i (Some c) seen =
     (if c = [] \<or> c \<in> set seen then False
      else if c = i then True
      else walk_meets t i (parent_of t c) (c # seen))"
  by pat_completeness auto
termination
proof (relation "measures [\<lambda>(t, i, cur, seen). unseen t seen, \<lambda>(t, i, cur, seen). if cur = None then 0 else 1]", goal_cases)
  case (2 t i c seen)
  then show ?case
    using unseen_less [of c t seen] unseen_le [of t c seen] parent_of_None [of c t]
    by (cases "c \<in> kd_id ` set (kt_dirs t)") auto
qed simp

text \<open>The directories from the root to the given one\<close>

function crumbs :: "kb_tables \<Rightarrow> string option \<Rightarrow> string list \<Rightarrow> dir_row list" where
  "crumbs t None seen = []"
| "crumbs t (Some c) seen =
     (if c = [] \<or> c \<in> set seen then []
      else case get_directory_by_id t c of
        None \<Rightarrow> []
      | Some d \<Rightarrow> d # crumbs t (kd_parent d) (c # seen))"
  by pat_completeness auto
termination
proof (relation "measure (\<lambda>(t, cur, seen). unseen t seen)", goal_cases)
  case (2 t c seen d)
  then have "c \<in> kd_id ` set (kt_dirs t)"
    using get_directory_Some by blast
  then show ?case
    using 2 unseen_less by auto
qed simp

definition get_directory_breadcrumbs :: "kb_tables \<Rightarrow> string option \<Rightarrow> dir_row list" where
  "get_directory_breadcrumbs t i = rev (crumbs t i [])"

section \<open>Changing\<close>

definition change_dir :: "string \<Rightarrow> (dir_row \<Rightarrow> dir_row) \<Rightarrow> dir_row list \<Rightarrow> dir_row list" where
  "change_dir i f ds = map (\<lambda>d. if kd_id d = i then f d else d) ds"

text \<open>An update that a constraint refuses leaves the tables as they were.\<close>

definition update_dirs ::
  "bool \<Rightarrow> string \<Rightarrow> (dir_row \<Rightarrow> dir_row) \<Rightarrow> kb_tables \<Rightarrow> kb_tables \<times> dir_row option" where
  "update_dirs fk i f t =
     (let ds = change_dir i f (kt_dirs t) in
      if \<exists>d\<in>set ds. kd_id d = i \<and> (name_taken ds d \<or> (fk \<and> \<not> parent_exists (kt_dirs t) (kd_parent d))) then (t, None)
      else (let t' = t\<lparr>kt_dirs := ds\<rparr> in (t', get_directory_by_id t' i)))"

definition rename_directory :: "int \<Rightarrow> string \<Rightarrow> string \<Rightarrow> kb_tables \<Rightarrow> kb_tables \<times> dir_row option" where
  "rename_directory now i name t = update_dirs False i (\<lambda>d. d\<lparr>kd_name := name, kd_updated := now\<rparr>) t"

definition move_directory :: "bool \<Rightarrow> int \<Rightarrow> string \<Rightarrow> string option \<Rightarrow> kb_tables \<Rightarrow> kb_tables \<times> dir_row option" where
  "move_directory fk now i new_parent t =
     (if walk_meets t i new_parent [] then (t, None)
      else update_dirs fk i (\<lambda>d. d\<lparr>kd_parent := new_parent, kd_updated := now\<rparr>) t)"

text \<open>The parent that means that the parent is not to change\<close>

definition unset :: "string option" where
  "unset = Some ''__unset__''"

definition update_directory ::
  "bool \<Rightarrow> int \<Rightarrow> string \<Rightarrow> string option \<Rightarrow> string option \<Rightarrow> kb_tables \<Rightarrow> kb_tables \<times> dir_row option" where
  "update_directory fk now i name parent t =
     (let (t1, moved) = (if parent \<noteq> unset then move_directory fk now i parent t else (t, get_directory_by_id t i)) in
      if parent \<noteq> unset \<and> moved = None then (t1, None)
      else (case name of
          Some n \<Rightarrow> rename_directory now i n t1
        | None \<Rightarrow> (t1, get_directory_by_id t1 i)))"

section \<open>Deleting\<close>

definition child_ids :: "dir_row list \<Rightarrow> string \<Rightarrow> string list" where
  "child_ids ds i = map kd_id (filter (\<lambda>d. kd_parent d = Some i) ds)"

definition relocate :: "string \<Rightarrow> string option \<Rightarrow> link_row list \<Rightarrow> link_row list" where
  "relocate i target ls = map (\<lambda>l. if kf_dir l = Some i then l\<lparr>kf_dir := target\<rparr> else l) ls"

fun move_files_from_subtree ::
  "nat \<Rightarrow> dir_row list \<Rightarrow> string option \<Rightarrow> string \<Rightarrow> link_row list \<Rightarrow> link_row list res" where
  "move_files_from_subtree 0 ds target i ls = Inl RecursionError"
| "move_files_from_subtree (Suc n) ds target i ls =
     rfoldM (\<lambda>ls c. move_files_from_subtree n ds target c (relocate c target ls)) ls (child_ids ds i)"

fun delete_files_in_subtree :: "nat \<Rightarrow> dir_row list \<Rightarrow> string \<Rightarrow> link_row list \<Rightarrow> link_row list res" where
  "delete_files_in_subtree 0 ds i ls = Inl RecursionError"
| "delete_files_in_subtree (Suc n) ds i ls =
     rfoldM (\<lambda>ls c. delete_files_in_subtree n ds c ls) (filter (\<lambda>l. kf_dir l \<noteq> Some i) ls) (child_ids ds i)"

text \<open>The ids that deleting a row takes with it: the rows below it, found level by level\<close>

fun below_ids :: "nat \<Rightarrow> dir_row list \<Rightarrow> string set \<Rightarrow> string set" where
  "below_ids 0 ds A = A"
| "below_ids (Suc n) ds A =
     below_ids n ds (A \<union> kd_id ` set (filter (\<lambda>d. \<exists>p\<in>A. kd_parent d = Some p) ds))"

definition delete_dir_row :: "bool \<Rightarrow> string \<Rightarrow> kb_tables \<Rightarrow> kb_tables" where
  "delete_dir_row fk i t =
     (if fk then (let gone = below_ids (length (kt_dirs t)) (kt_dirs t) {i} in
        t\<lparr>kt_dirs := filter (\<lambda>d. kd_id d \<notin> gone) (kt_dirs t),
          kt_links := map (\<lambda>l. if \<exists>g\<in>gone. kf_dir l = Some g then l\<lparr>kf_dir := None\<rparr> else l) (kt_links t)\<rparr>)
      else t\<lparr>kt_dirs := filter (\<lambda>d. kd_id d \<noteq> i) (kt_dirs t)\<rparr>)"

definition delete_directory :: "bool \<Rightarrow> nat \<Rightarrow> string \<Rightarrow> bool \<Rightarrow> kb_tables \<Rightarrow> kb_tables \<times> bool" where
  "delete_directory fk depth i move_files t =
     (case get_directory_by_id t i of
        None \<Rightarrow> (t, False)
      | Some d \<Rightarrow>
         (case (if move_files
                then move_files_from_subtree depth (kt_dirs t) (kd_parent d) i (relocate i (kd_parent d) (kt_links t))
                else delete_files_in_subtree depth (kt_dirs t) i (kt_links t)) of
            Inl e \<Rightarrow> (t, False)
          | Inr ls \<Rightarrow> (delete_dir_row fk i (t\<lparr>kt_links := ls\<rparr>), True)))"

definition has_file :: "kb_tables \<Rightarrow> string \<Rightarrow> string \<Rightarrow> bool" where
  "has_file t kb fid = (\<exists>l\<in>set (kt_links t). kf_kb l = kb \<and> kf_file l = fid)"

definition move_file_to_directory ::
  "bool \<Rightarrow> int \<Rightarrow> string \<Rightarrow> string \<Rightarrow> string option \<Rightarrow> kb_tables \<Rightarrow> kb_tables \<times> bool" where
  "move_file_to_directory fk now kb fid dir t =
     (if fk \<and> has_file t kb fid \<and> \<not> parent_exists (kt_dirs t) dir then (t, False)
      else (t\<lparr>kt_links := map (\<lambda>l. if kf_kb l = kb \<and> kf_file l = fid
                then l\<lparr>kf_dir := dir, kf_updated := now\<rparr> else l) (kt_links t)\<rparr>, True))"

definition remove_file_from_knowledge_by_id :: "string \<Rightarrow> string \<Rightarrow> kb_tables \<Rightarrow> kb_tables" where
  "remove_file_from_knowledge_by_id kb fid t =
     t\<lparr>kt_links := filter (\<lambda>l. \<not> (kf_kb l = kb \<and> kf_file l = fid)) (kt_links t)\<rparr>"

definition add_file_to_knowledge_by_id ::
  "bool \<Rightarrow> int \<Rightarrow> string \<Rightarrow> string list \<Rightarrow> string \<Rightarrow> string \<Rightarrow> string \<Rightarrow> string option \<Rightarrow> kb_tables \<Rightarrow> kb_tables \<times> link_row option" where
  "add_file_to_knowledge_by_id fk now new_id files kb fid uid dir t =
     (let l = \<lparr>kf_id = new_id, kf_kb = kb, kf_file = fid, kf_dir = dir, kf_user = uid, kf_created = now, kf_updated = now\<rparr>
      in if new_id \<in> kf_id ` set (kt_links t) \<or> has_file t kb fid
            \<or> (fk \<and> (kb \<notin> kb_id ` set (kt_bases t) \<or> fid \<notin> set files \<or> \<not> parent_exists (kt_dirs t) dir))
         then (t, None)
         else (t\<lparr>kt_links := kt_links t @ [l]\<rparr>, Some l))"

text \<open>All files leave the knowledge base, its directories too if asked; foreign keys clear the
  directory of links elsewhere and delete the directories below the deleted ones.\<close>

definition reset_knowledge_by_id :: "bool \<Rightarrow> int \<Rightarrow> string \<Rightarrow> bool \<Rightarrow> kb_tables \<Rightarrow> kb_tables \<times> kb_row option" where
  "reset_knowledge_by_id fk now kb include_dirs t =
     (let t1 = t\<lparr>kt_links := filter (\<lambda>l. kf_kb l \<noteq> kb) (kt_links t)\<rparr>;
          own = kd_id ` set (filter (\<lambda>d. kd_kb d = kb) (kt_dirs t));
          gone = (if fk then below_ids (length (kt_dirs t)) (kt_dirs t) own else own);
          t2 = (if include_dirs
                then t1\<lparr>kt_dirs := filter (\<lambda>d. kd_id d \<notin> gone) (kt_dirs t1),
                        kt_links := (if fk then map (\<lambda>l. if \<exists>g\<in>gone. kf_dir l = Some g then l\<lparr>kf_dir := None\<rparr> else l) (kt_links t1)
                                     else kt_links t1)\<rparr>
                else t1);
          t3 = t2\<lparr>kt_bases := map (\<lambda>k. if kb_id k = kb then k\<lparr>kb_updated := now\<rparr> else k) (kt_bases t2)\<rparr>
      in (t3, get_knowledge_by_id t3 kb))"

section \<open>Handlers\<close>

record kb_caller =
  kc_id :: string
  kc_role :: string

definition verify_write ::
  "group_db \<Rightarrow> grant_row list \<Rightarrow> string \<Rightarrow> kb_caller \<Rightarrow> kb_tables \<Rightarrow> kb_row res" where
  "verify_write gdb grants kb user t =
     (case get_knowledge_by_id t kb of
        None \<Rightarrow> Inl (HTTPException 404 ''not found'')
      | Some k \<Rightarrow>
         (if kb_external k then Inl (HTTPException 400 ''External knowledge bases are read-only.'')
          else if kb_owner k \<noteq> kc_id user
             \<and> \<not> grants_has_access gdb grants (kc_id user) ''knowledge'' (kb_id k) ''write'' None
             \<and> kc_role user \<noteq> ''admin''
          then Inl (HTTPException 403 ''access prohibited'')
          else Inr k))"

definition dir_in_kb :: "kb_tables \<Rightarrow> string \<Rightarrow> string \<Rightarrow> bool" where
  "dir_in_kb t kb i = (case get_directory_by_id t i of None \<Rightarrow> False | Some d \<Rightarrow> kd_kb d = kb)"

definition create_knowledge_directory ::
  "bool \<Rightarrow> group_db \<Rightarrow> grant_row list \<Rightarrow> int \<Rightarrow> string \<Rightarrow> string \<Rightarrow> string \<Rightarrow> string option \<Rightarrow> kb_caller \<Rightarrow> kb_tables \<Rightarrow>
   kb_tables \<times> dir_row res" where
  "create_knowledge_directory fk gdb grants now new_id kb name parent user t =
     (case verify_write gdb grants kb user t of
        Inl e \<Rightarrow> (t, Inl e)
      | Inr k \<Rightarrow> (case create_directory fk now new_id kb name (kc_id user) parent t of
            (t', None) \<Rightarrow> (t', Inl (HTTPException 400 ''Failed to create directory''))
          | (t', Some d) \<Rightarrow> (t', Inr d)))"

definition update_knowledge_directory ::
  "bool \<Rightarrow> group_db \<Rightarrow> grant_row list \<Rightarrow> int \<Rightarrow> string \<Rightarrow> string \<Rightarrow> string option \<Rightarrow> string option \<Rightarrow> kb_caller \<Rightarrow> kb_tables \<Rightarrow>
   kb_tables \<times> dir_row res" where
  "update_knowledge_directory fk gdb grants now kb i name parent user t =
     (case verify_write gdb grants kb user t of
        Inl e \<Rightarrow> (t, Inl e)
      | Inr k \<Rightarrow>
         (if \<not> dir_in_kb t kb i then (t, Inl (HTTPException 404 ''not found''))
          else (case update_directory fk now i name parent t of
              (t', None) \<Rightarrow> (t', Inl (HTTPException 400 ''Failed to update directory''))
            | (t', Some d) \<Rightarrow> (t', Inr d))))"

definition delete_knowledge_directory ::
  "bool \<Rightarrow> nat \<Rightarrow> group_db \<Rightarrow> grant_row list \<Rightarrow> string \<Rightarrow> string \<Rightarrow> bool \<Rightarrow> kb_caller \<Rightarrow> kb_tables \<Rightarrow>
   kb_tables \<times> bool res" where
  "delete_knowledge_directory fk depth gdb grants kb i move_files user t =
     (case verify_write gdb grants kb user t of
        Inl e \<Rightarrow> (t, Inl e)
      | Inr k \<Rightarrow>
         (if \<not> dir_in_kb t kb i then (t, Inl (HTTPException 404 ''not found''))
          else (case delete_directory fk depth i move_files t of
              (t', False) \<Rightarrow> (t', Inl (HTTPException 500 ''Failed to delete directory.''))
            | (t', True) \<Rightarrow> (t', Inr True))))"

definition move_file_in_knowledge ::
  "bool \<Rightarrow> group_db \<Rightarrow> grant_row list \<Rightarrow> int \<Rightarrow> string \<Rightarrow> string \<Rightarrow> string option \<Rightarrow> kb_caller \<Rightarrow> kb_tables \<Rightarrow>
   kb_tables \<times> bool res" where
  "move_file_in_knowledge fk gdb grants now kb fid dir user t =
     (case verify_write gdb grants kb user t of
        Inl e \<Rightarrow> (t, Inl e)
      | Inr k \<Rightarrow>
         (if \<not> has_file t kb fid then (t, Inl (HTTPException 404 ''not found''))
          else if (case dir of None \<Rightarrow> False | Some i \<Rightarrow> i \<noteq> [] \<and> \<not> dir_in_kb t kb i)
          then (t, Inl (HTTPException 404 ''Target directory not found.''))
          else (case move_file_to_directory fk now kb fid dir t of
              (t', False) \<Rightarrow> (t', Inl (HTTPException 500 ''Failed to move file.''))
            | (t', True) \<Rightarrow> (t', Inr True))))"

section \<open>Forests\<close>

text \<open>From a directory to its parent\<close>

definition up :: "dir_row list \<Rightarrow> (string \<times> string) set" where
  "up ds = {(c, p). \<exists>d\<in>set ds. kd_id d = c \<and> kd_parent d = Some p}"

lemma up_code: "up ds = (\<Union>d\<in>set ds. case kd_parent d of None \<Rightarrow> {} | Some p \<Rightarrow> {(kd_id d, p)})"
  by (auto simp: up_def split: option.splits)

definition forest :: "dir_row list \<Rightarrow> bool" where
  "forest ds = (distinct (map kd_id ds) \<and> [] \<notin> set (map kd_id ds) \<and> acyclic (up ds))"

lemma get_directory_unique:
  assumes "distinct (map kd_id (kt_dirs t))" and "d \<in> set (kt_dirs t)"
  shows "get_directory_by_id t (kd_id d) = Some d"
proof -
  obtain e where e: "get_directory_by_id t (kd_id d) = Some e"
    using get_directory_None [of t "kd_id d"] assms(2) by fastforce
  then have "e \<in> set (kt_dirs t)" and "kd_id e = kd_id d"
    using get_directory_Some by blast+
  then show ?thesis
    using e assms by (metis distinct_map inj_on_def)
qed

lemma parent_of_up:
  assumes "distinct (map kd_id (kt_dirs t))"
  shows "parent_of t c = Some p \<longleftrightarrow> (c, p) \<in> up (kt_dirs t)"
proof
  assume "parent_of t c = Some p"
  then show "(c, p) \<in> up (kt_dirs t)"
    using get_directory_Some by (fastforce simp: parent_of_def up_def split: option.splits)
next
  assume "(c, p) \<in> up (kt_dirs t)"
  then obtain d where "d \<in> set (kt_dirs t)" "kd_id d = c" "kd_parent d = Some p"
    by (auto simp: up_def)
  then show "parent_of t c = Some p"
    using get_directory_unique [OF assms] by (auto simp: parent_of_def)
qed

text \<open>The directory of the first id is that of the second or below it.\<close>

definition below :: "dir_row list \<Rightarrow> string option \<Rightarrow> string \<Rightarrow> bool" where
  "below ds p i = (case p of None \<Rightarrow> False | Some c \<Rightarrow> c \<noteq> [] \<and> (c, i) \<in> (up ds)\<^sup>*)"

lemma up_step: "c \<noteq> i \<Longrightarrow> (c, i) \<in> (up ds)\<^sup>* \<longleftrightarrow> (\<exists>p. (c, p) \<in> up ds \<and> (p, i) \<in> (up ds)\<^sup>*)"
  by (metis converse_rtranclE converse_rtrancl_into_rtrancl)

lemma up_from: "(c, p) \<in> up ds \<Longrightarrow> c \<in> kd_id ` set ds"
  by (auto simp: up_def)

lemma no_parent_of_empty: "forest ds \<Longrightarrow> i \<noteq> [] \<Longrightarrow> ([], i) \<notin> (up ds)\<^sup>*"
  using up_step [of "[]" i ds] up_from [of "[]" _ ds] by (auto simp: forest_def)

lemma walk_meets_below:
  assumes "forest (kt_dirs t)" and "i \<noteq> []" and "\<forall>s\<in>set seen. \<forall>c. cur = Some c \<longrightarrow> (s, c) \<in> (up (kt_dirs t))\<^sup>+"
  shows "walk_meets t i cur seen \<longleftrightarrow> below (kt_dirs t) cur i"
  using assms
proof (induction t i cur seen rule: walk_meets.induct)
  case (1 t i seen)
  then show ?case
    by (simp add: below_def)
next
  case (2 t i c seen)
  have ac: "(c, c) \<notin> (up (kt_dirs t))\<^sup>+"
    using "2.prems"(1) by (simp add: forest_def acyclic_def)
  then have fresh: "c \<notin> set seen"
    using "2.prems"(3) by blast
  consider "c = []" | "c = i" "c \<noteq> []" | "c \<noteq> []" "c \<noteq> i"
    by blast
  then show ?case
  proof cases
    case 3
    have parent: "parent_of t c = Some p \<longleftrightarrow> (c, p) \<in> up (kt_dirs t)" for p
      using "2.prems"(1) parent_of_up by (simp add: forest_def)
    have "\<forall>s\<in>set (c # seen). \<forall>p. parent_of t c = Some p \<longrightarrow> (s, p) \<in> (up (kt_dirs t))\<^sup>+"
      using parent "2.prems"(3) by (auto intro: trancl_into_trancl)
    then have "walk_meets t i (parent_of t c) (c # seen) \<longleftrightarrow> below (kt_dirs t) (parent_of t c) i"
      using "2.IH" 3 fresh "2.prems"(1,2) by blast
    also have "\<dots> \<longleftrightarrow> (c, i) \<in> (up (kt_dirs t))\<^sup>*"
    proof (cases "parent_of t c")
      case None
      then show ?thesis
        using parent up_step [OF 3(2)] by (simp add: below_def)
    next
      case (Some p)
      then have "(c, q) \<in> up (kt_dirs t) \<longleftrightarrow> q = p" for q
        using parent [of q] by auto
      then show ?thesis
        using Some up_step [OF 3(2)] no_parent_of_empty [OF "2.prems"(1,2)] by (auto simp: below_def)
    qed
    finally show ?thesis
      using 3 fresh by (simp add: below_def)
  qed (use fresh in \<open>simp_all add: below_def\<close>)
qed

definition set_parent :: "int \<Rightarrow> string option \<Rightarrow> dir_row \<Rightarrow> dir_row" where
  "set_parent now p d = d\<lparr>kd_parent := p, kd_updated := now\<rparr>"

lemma change_dir_ids:
  assumes "\<And>d. kd_id (f d) = kd_id d"
  shows "map kd_id (change_dir i f ds) = map kd_id ds"
  by (simp add: change_dir_def assms o_def)

lemma change_dir_up_iff:
  "(c, p) \<in> up (change_dir i f ds) \<longleftrightarrow>
     (\<exists>d\<in>set ds. kd_id (if kd_id d = i then f d else d) = c \<and> kd_parent (if kd_id d = i then f d else d) = Some p)"
  unfolding up_def change_dir_def by (simp only: mem_Collect_eq prod.case set_map bex_simps)

lemma change_dir_up:
  assumes "\<And>d. kd_id (f d) = kd_id d" and "\<And>d. kd_parent (f d) = kd_parent d"
  shows "up (change_dir i f ds) = up ds"
proof -
  have "kd_id (if kd_id d = i then f d else d) = kd_id d \<and> kd_parent (if kd_id d = i then f d else d) = kd_parent d" for d
    using assms by simp
  then have "(c, p) \<in> up (change_dir i f ds) \<longleftrightarrow> (c, p) \<in> up ds" for c p
    unfolding change_dir_up_iff by (simp add: up_def)
  then show ?thesis
    by auto
qed

lemma change_parent_up:
  "up (change_dir i (set_parent now q) ds) =
     {(c, p) \<in> up ds. c \<noteq> i} \<union> {(c, p). c = i \<and> i \<in> kd_id ` set ds \<and> q = Some p}"
proof -
  have "(c, p) \<in> up (change_dir i (set_parent now q) ds) \<longleftrightarrow>
      (c \<noteq> i \<and> (c, p) \<in> up ds) \<or> (c = i \<and> i \<in> kd_id ` set ds \<and> q = Some p)" for c p
    unfolding change_dir_up_iff by (cases "c = i") (auto simp: up_def set_parent_def)
  then show ?thesis
    by auto
qed

lemma forest_change_parent:
  assumes f: "forest ds" and "i \<noteq> []" and nb: "\<not> below ds q i"
  shows "forest (change_dir i (set_parent now q) ds)"
proof -
  let ?r = "{(c, p) \<in> up ds. c \<noteq> i}"
  have sub: "?r \<subseteq> up ds"
    by auto
  have ac: "acyclic ?r"
    using f acyclic_subset [OF _ sub] by (simp add: forest_def)
  have "acyclic (up (change_dir i (set_parent now q) ds))"
  proof (cases "i \<in> kd_id ` set ds \<and> q \<noteq> None")
    case True
    then obtain p where p: "q = Some p"
      by auto
    have "(p, i) \<notin> (up ds)\<^sup>*"
      using nb p no_parent_of_empty [OF f \<open>i \<noteq> []\<close>] by (auto simp: below_def)
    then have "(p, i) \<notin> ?r\<^sup>*"
      using rtrancl_mono [OF sub] by blast
    moreover have "up (change_dir i (set_parent now q) ds) = insert (i, p) ?r"
      using True p by (auto simp: change_parent_up)
    ultimately show ?thesis
      using ac by simp
  next
    case False
    then have "up (change_dir i (set_parent now q) ds) = ?r"
      by (auto simp: change_parent_up)
    then show ?thesis
      using ac by simp
  qed
  moreover have "map kd_id (change_dir i (set_parent now q) ds) = map kd_id ds"
    by (rule change_dir_ids) (simp add: set_parent_def)
  ultimately show ?thesis
    using f by (simp add: forest_def)
qed

lemma update_dirs_cases:
  "fst (update_dirs fk i f t) = t \<or> fst (update_dirs fk i f t) = t\<lparr>kt_dirs := change_dir i f (kt_dirs t)\<rparr>"
  by (simp add: update_dirs_def Let_def)

lemma move_directory_forest:
  assumes "forest (kt_dirs t)" and "i \<noteq> []"
  shows "forest (kt_dirs (fst (move_directory fk now i p t)))"
proof (cases "walk_meets t i p []")
  case False
  then have "\<not> below (kt_dirs t) p i"
    using walk_meets_below [OF assms, of "[]" p] by simp
  then have "forest (change_dir i (set_parent now p) (kt_dirs t))"
    by (rule forest_change_parent [OF assms])
  moreover have "(\<lambda>d. d\<lparr>kd_parent := p, kd_updated := now\<rparr>) = set_parent now p"
    by (simp add: set_parent_def fun_eq_iff)
  ultimately show ?thesis
    using False assms(1) update_dirs_cases [of fk i "set_parent now p" t]
    by (auto simp: move_directory_def)
qed (use assms(1) in \<open>simp add: move_directory_def\<close>)

lemma rename_directory_forest:
  assumes "forest (kt_dirs t)"
  shows "forest (kt_dirs (fst (rename_directory now i name t)))"
proof -
  let ?f = "\<lambda>d. d\<lparr>kd_name := name, kd_updated := now\<rparr>"
  have "forest (change_dir i ?f (kt_dirs t))"
    using assms change_dir_ids [of ?f i] change_dir_up [of ?f i] by (simp add: forest_def)
  then show ?thesis
    using assms update_dirs_cases [of False i ?f t] by (auto simp: rename_directory_def)
qed

lemma update_directory_forest:
  assumes "forest (kt_dirs t)" and "i \<noteq> []"
  shows "forest (kt_dirs (fst (update_directory fk now i name p t)))"
proof -
  have m: "forest (kt_dirs (fst (move_directory fk now i p t)))"
    by (rule move_directory_forest [OF assms])
  have r: "forest (kt_dirs s) \<Longrightarrow> forest (kt_dirs (fst (rename_directory now i n s)))" for n s
    by (rule rename_directory_forest)
  show ?thesis
    unfolding update_directory_def Let_def
    using m r assms(1) by (cases "move_directory fk now i p t") (auto split: option.splits)
qed

lemma forest_filter:
  assumes "forest ds"
  shows "forest (filter P ds)"
proof -
  have "up (filter P ds) \<subseteq> up ds"
    by (auto simp: up_def)
  then show ?thesis
    using assms acyclic_subset by (auto simp: forest_def)
qed

text \<open>A generated id: no row has it and none refers to it.\<close>

definition fresh_id :: "string \<Rightarrow> string option \<Rightarrow> dir_row list \<Rightarrow> bool" where
  "fresh_id i parent ds = (i \<noteq> [] \<and> parent \<noteq> Some i \<and> (\<forall>d\<in>set ds. kd_id d \<noteq> i \<and> kd_parent d \<noteq> Some i))"

lemma forest_append:
  assumes "forest ds" and "fresh_id (kd_id d) (kd_parent d) ds"
  shows "forest (ds @ [d])"
proof -
  have target: "(p, kd_id d) \<notin> (up ds)\<^sup>*" if "kd_parent d = Some p" for p
  proof
    assume "(p, kd_id d) \<in> (up ds)\<^sup>*"
    then show False
      using that assms(2) by (cases rule: rtranclE) (auto simp: fresh_id_def up_def)
  qed
  have "up (ds @ [d]) = up ds \<union> {(c, p). c = kd_id d \<and> kd_parent d = Some p}"
    by (auto simp: up_def)
  then have "acyclic (up (ds @ [d]))"
    using target assms(1) by (cases "kd_parent d") (auto simp: forest_def)
  then show ?thesis
    using assms by (auto simp: forest_def fresh_id_def)
qed

lemma create_directory_forest:
  assumes "forest (kt_dirs t)" and "fresh_id new_id parent (kt_dirs t)"
  shows "forest (kt_dirs (fst (create_directory fk now new_id kb name uid parent t)))"
  using assms by (auto simp: create_directory_def Let_def intro: forest_append)

lemma delete_directory_forest:
  assumes "forest (kt_dirs t)"
  shows "forest (kt_dirs (fst (delete_directory fk depth i mf t)))"
  using assms by (auto simp: delete_directory_def delete_dir_row_def Let_def forest_filter split: option.splits sum.splits)

lemma reset_forest:
  assumes "forest (kt_dirs t)"
  shows "forest (kt_dirs (fst (reset_knowledge_by_id fk now kb b t)))"
  using assms by (simp add: reset_knowledge_by_id_def Let_def forest_filter)

text \<open>The tables that the handlers reach from tables without directories, with generated ids\<close>

inductive kb_reach :: "bool \<Rightarrow> kb_tables \<Rightarrow> bool" for fk where
  start: "kt_dirs t = [] \<Longrightarrow> kb_reach fk t"
| create: "kb_reach fk t \<Longrightarrow> fresh_id new_id parent (kt_dirs t) \<Longrightarrow>
    kb_reach fk (fst (create_knowledge_directory fk gdb grants now new_id kb name parent user t))"
| change: "kb_reach fk t \<Longrightarrow> i \<noteq> [] \<Longrightarrow>
    kb_reach fk (fst (update_knowledge_directory fk gdb grants now kb i name parent user t))"
| remove: "kb_reach fk t \<Longrightarrow>
    kb_reach fk (fst (delete_knowledge_directory fk depth gdb grants kb i move_files user t))"
| reset: "kb_reach fk t \<Longrightarrow> kb_reach fk (fst (reset_knowledge_by_id fk now kb b t))"
| move_file: "kb_reach fk t \<Longrightarrow>
    kb_reach fk (fst (move_file_in_knowledge fk gdb grants now kb fid dir user t))"

lemma create_handler_tables:
  "fst (create_knowledge_directory fk gdb grants now new_id kb name parent user t)
     \<in> {t, fst (create_directory fk now new_id kb name (kc_id user) parent t)}"
  by (auto simp: create_knowledge_directory_def split: sum.splits prod.splits option.splits)

lemma update_handler_tables:
  "fst (update_knowledge_directory fk gdb grants now kb i name parent user t)
     \<in> {t, fst (update_directory fk now i name parent t)}"
  by (auto simp: update_knowledge_directory_def split: sum.splits prod.splits option.splits)

lemma delete_handler_tables:
  "fst (delete_knowledge_directory fk depth gdb grants kb i mf user t) \<in> {t, fst (delete_directory fk depth i mf t)}"
  by (auto simp: delete_knowledge_directory_def split: sum.splits prod.splits bool.splits)

lemma move_file_handler_dirs:
  "kt_dirs (fst (move_file_in_knowledge fk gdb grants now kb fid dir user t)) = kt_dirs t"
  by (auto simp: move_file_in_knowledge_def move_file_to_directory_def split: sum.splits prod.splits bool.splits)

text \<open>C32 Whatever the requests, the directories stay a forest: ids are distinct and no directory is below
  itself, so the walks over parents and over subtrees end.
\<close>

theorem directories_stay_forest:
  assumes "kb_reach fk t"
  shows "forest (kt_dirs t)"
  using assms
proof induction
  case (start t)
  then show ?case
    by (simp add: forest_def up_def acyclic_def)
next
  case (create t new_id parent gdb grants now kb name user)
  then show ?case
    using create_handler_tables create_directory_forest by (metis insertE singletonD)
next
  case (change t i gdb grants now kb name parent user)
  then show ?case
    using update_handler_tables update_directory_forest by (metis insertE singletonD)
next
  case (remove t depth gdb grants kb i move_files user)
  then show ?case
    using delete_handler_tables delete_directory_forest by (metis insertE singletonD)
next
  case (reset t now kb b)
  then show ?case
    by (intro reset_forest)
next
  case (move_file t gdb grants now kb fid dir user)
  then show ?case
    by (simp only: move_file_handler_dirs)
qed

definition sample_bases :: kb_tables where
  "sample_bases = \<lparr>kt_bases = [\<lparr>kb_id = ''k'', kb_owner = ''ann'', kb_name = ''K'', kb_desc = [], kb_external = False, kb_updated = 0\<rparr>,
       \<lparr>kb_id = ''z'', kb_owner = ''bob'', kb_name = ''Z'', kb_desc = [], kb_external = False, kb_updated = 0\<rparr>],
     kt_dirs = [], kt_links = []\<rparr>"

definition no_groups :: group_db where
  "no_groups = \<lparr>db_groups = [], db_members = []\<rparr>"

theorem directories_stay_forest_witness:
  "kt_dirs (fst (create_knowledge_directory True no_groups [] 5 ''d1'' ''k'' ''docs'' None \<lparr>kc_id = ''ann'', kc_role = ''user''\<rparr> sample_bases))
     = [\<lparr>kd_id = ''d1'', kd_kb = ''k'', kd_parent = None, kd_name = ''docs'', kd_user = ''ann'', kd_created = 5, kd_updated = 5\<rparr>]
   \<and> forest (kt_dirs (fst (create_knowledge_directory True no_groups [] 5 ''d1'' ''k'' ''docs'' None \<lparr>kc_id = ''ann'', kc_role = ''user''\<rparr> sample_bases)))"
proof (intro conjI directories_stay_forest [where fk = True] kb_reach.create kb_reach.start)
  show "kt_dirs (fst (create_knowledge_directory True no_groups [] 5 ''d1'' ''k'' ''docs'' None \<lparr>kc_id = ''ann'', kc_role = ''user''\<rparr> sample_bases))
     = [\<lparr>kd_id = ''d1'', kd_kb = ''k'', kd_parent = None, kd_name = ''docs'', kd_user = ''ann'', kd_created = 5, kd_updated = 5\<rparr>]"
    by code_simp
qed (simp_all add: sample_bases_def fresh_id_def)

section \<open>Moving\<close>

definition refused :: "bool \<Rightarrow> string \<Rightarrow> string option \<Rightarrow> kb_tables \<Rightarrow> bool" where
  "refused fk i p t = (\<exists>d\<in>set (kt_dirs t). kd_id d = i \<and>
     ((fk \<and> \<not> parent_exists (kt_dirs t) p) \<or>
      (p \<noteq> None \<and> (\<exists>e\<in>set (kt_dirs t). kd_id e \<noteq> i \<and> kd_kb e = kd_kb d \<and> kd_parent e = p \<and> kd_name e = kd_name d))))"

lemma name_taken_change:
  assumes "d \<in> set ds" and "kd_id d = i"
  shows "name_taken (change_dir i (set_parent now p) ds) (set_parent now p d) \<longleftrightarrow>
     p \<noteq> None \<and> (\<exists>e\<in>set ds. kd_id e \<noteq> i \<and> kd_kb e = kd_kb d \<and> kd_parent e = p \<and> kd_name e = kd_name d)"
proof -
  have "(\<exists>e\<in>set (change_dir i (set_parent now p) ds). kd_id e \<noteq> i \<and> kd_kb e = kd_kb d \<and> kd_parent e = p \<and> kd_name e = kd_name d)
     \<longleftrightarrow> (\<exists>e\<in>set ds. kd_id e \<noteq> i \<and> kd_kb e = kd_kb d \<and> kd_parent e = p \<and> kd_name e = kd_name d)"
    unfolding change_dir_def set_map bex_simps by (rule bex_cong) (simp_all add: set_parent_def)
  then show ?thesis
    using assms by (simp add: name_taken_def set_parent_def)
qed

lemma changed_ex:
  "(\<exists>d\<in>set (change_dir i (set_parent now p) ds). kd_id d = i \<and> Q d)
     \<longleftrightarrow> (\<exists>d\<in>set ds. kd_id d = i \<and> Q (set_parent now p d))"
  unfolding change_dir_def set_map bex_simps by (rule bex_cong) (simp_all add: set_parent_def)

lemma update_parent_refused:
  "(\<exists>d\<in>set (change_dir i (set_parent now p) (kt_dirs t)). kd_id d = i \<and>
      (name_taken (change_dir i (set_parent now p) (kt_dirs t)) d \<or> (fk \<and> \<not> parent_exists (kt_dirs t) (kd_parent d))))
   \<longleftrightarrow> refused fk i p t"
  unfolding changed_ex refused_def
proof (rule bex_cong [OF refl])
  fix d assume d: "d \<in> set (kt_dirs t)"
  have "kd_parent (set_parent now p d) = p"
    by (simp add: set_parent_def)
  then show "(kd_id d = i \<and> (name_taken (change_dir i (set_parent now p) (kt_dirs t)) (set_parent now p d)
        \<or> (fk \<and> \<not> parent_exists (kt_dirs t) (kd_parent (set_parent now p d)))))
     = (kd_id d = i \<and> ((fk \<and> \<not> parent_exists (kt_dirs t) p) \<or>
        (p \<noteq> None \<and> (\<exists>e\<in>set (kt_dirs t). kd_id e \<noteq> i \<and> kd_kb e = kd_kb d \<and> kd_parent e = p \<and> kd_name e = kd_name d))))"
    using name_taken_change [OF d, of i now p] by (cases "kd_id d = i") auto
qed


definition sample_dir :: "string \<Rightarrow> string option \<Rightarrow> string \<Rightarrow> dir_row" where
  "sample_dir i p name = \<lparr>kd_id = i, kd_kb = ''k'', kd_parent = p, kd_name = name, kd_user = ''ann'', kd_created = 1, kd_updated = 1\<rparr>"

definition sample_tree :: kb_tables where
  "sample_tree = sample_bases\<lparr>kt_dirs := [sample_dir ''a'' None ''x'', sample_dir ''b'' (Some ''a'') ''y'']\<rparr>"

lemma sample_tree_up: "up (kt_dirs sample_tree) = {(''b'', ''a'')}"
  unfolding up_code sample_tree_def sample_dir_def by simp

lemma sample_tree_forest: "forest (kt_dirs sample_tree)"
proof -
  have "acyclic {(''b'', ''a'')}"
    by (simp only: acyclic_insert) (simp add: acyclic_def)
  then show ?thesis
    unfolding forest_def sample_tree_up by (simp add: sample_tree_def sample_dir_def)
qed


section \<open>Subtrees\<close>

definition subtree :: "dir_row list \<Rightarrow> string \<Rightarrow> string set" where
  "subtree ds i = {c. (c, i) \<in> (up ds)\<^sup>*}"

definition in_dirs :: "string set \<Rightarrow> link_row \<Rightarrow> bool" where
  "in_dirs A l = (case kf_dir l of None \<Rightarrow> False | Some c \<Rightarrow> c \<in> A)"

definition relocate_all :: "string set \<Rightarrow> string option \<Rightarrow> link_row list \<Rightarrow> link_row list" where
  "relocate_all A target ls = map (\<lambda>l. if in_dirs A l then l\<lparr>kf_dir := target\<rparr> else l) ls"

lemma set_child_ids: "set (child_ids ds i) = {c. (c, i) \<in> up ds}"
  by (auto simp: child_ids_def up_def)

lemma subtree_unfold: "subtree ds i = insert i (\<Union>c\<in>set (child_ids ds i). subtree ds c)"
proof (rule set_eqI)
  fix c
  have "(c, i) \<in> (up ds)\<^sup>* \<longleftrightarrow> c = i \<or> (\<exists>y. (c, y) \<in> (up ds)\<^sup>* \<and> (y, i) \<in> up ds)"
    by (metis rtranclE rtrancl.rtrancl_refl rtrancl.rtrancl_into_rtrancl)
  then show "c \<in> subtree ds i \<longleftrightarrow> c \<in> insert i (\<Union>c\<in>set (child_ids ds i). subtree ds c)"
    unfolding subtree_def set_child_ids by blast
qed

lemma subtree_bounded: "subtree ds i \<subseteq> insert i (kd_id ` set ds)"
proof
  fix c
  assume "c \<in> subtree ds i"
  then show "c \<in> insert i (kd_id ` set ds)"
    unfolding subtree_def mem_Collect_eq by (cases rule: converse_rtranclE) (auto dest: up_from)
qed

lemma finite_subtree: "finite (subtree ds i)"
  using finite_subset [OF subtree_bounded] by simp

lemma card_subtree_pos: "0 < card (subtree ds i)"
  using finite_subtree [of ds i] subtree_unfold [of ds i] by (auto simp: card_gt_0_iff)

lemma card_subtree_child:
  assumes "forest ds" and "c \<in> set (child_ids ds i)"
  shows "card (subtree ds c) < card (subtree ds i)"
proof (rule psubset_card_mono [OF finite_subtree])
  have "i \<notin> subtree ds c"
    using assms by (auto simp: subtree_def set_child_ids forest_def acyclic_def dest: rtrancl_into_trancl2)
  then show "subtree ds c \<subset> subtree ds i"
    using assms(2) subtree_unfold [of ds i] by auto
qed

lemma foldl_relocate: "foldl (\<lambda>ls c. relocate_all (A c) target ls) ls cs = relocate_all (\<Union>c\<in>set cs. A c) target ls"
proof (induction cs arbitrary: ls)
  case (Cons c cs)
  have "relocate_all B target (relocate_all C target ls) = relocate_all (C \<union> B) target ls" for B C
    by (auto simp: relocate_all_def in_dirs_def split: option.splits)
  then show ?case
    using Cons.IH by simp
qed (simp add: relocate_all_def in_dirs_def map_idI split: option.split)

lemma foldl_remove: "foldl (\<lambda>ls c. filter (\<lambda>l. \<not> in_dirs (A c) l) ls) ls cs = filter (\<lambda>l. \<not> in_dirs (\<Union>c\<in>set cs. A c) l) ls"
proof (induction cs arbitrary: ls)
  case (Cons c cs)
  then show ?case
    by (auto simp: in_dirs_def intro!: filter_cong split: option.splits)
qed (simp add: in_dirs_def split: option.split)

lemma relocate_one: "relocate c target ls = relocate_all {c} target ls"
  by (auto simp: relocate_def relocate_all_def in_dirs_def split: option.splits)

lemma relocate_twice: "relocate_all B target (relocate_all C target ls) = relocate_all (C \<union> B) target ls"
  by (auto simp: relocate_all_def in_dirs_def split: option.splits)

lemma move_files_exact:
  assumes "forest ds" and "card (subtree ds i) \<le> n"
  shows "move_files_from_subtree n ds target i (relocate i target ls) = Inr (relocate_all (subtree ds i) target ls)"
  using assms(2)
proof (induction n arbitrary: i ls)
  case 0
  then show ?case
    using card_subtree_pos [of ds i] by simp
next
  case (Suc n)
  have "move_files_from_subtree n ds target c (relocate c target ls) = Inr (relocate_all (subtree ds c) target ls)"
    if "c \<in> set (child_ids ds i)" for c ls
    using Suc.IH [of c ls] card_subtree_child [OF assms(1) that] Suc.prems by simp
  then have "move_files_from_subtree (Suc n) ds target i (relocate i target ls)
      = Inr (foldl (\<lambda>ls c. relocate_all (subtree ds c) target ls) (relocate i target ls) (child_ids ds i))"
    unfolding move_files_from_subtree.simps delete_files_in_subtree.simps by (rule rfoldM_total)
  then show ?case
    unfolding foldl_relocate relocate_one relocate_twice using subtree_unfold [of ds i] by simp
qed

lemma delete_files_exact:
  assumes "forest ds" and "card (subtree ds i) \<le> n"
  shows "delete_files_in_subtree n ds i ls = Inr (filter (\<lambda>l. \<not> in_dirs (subtree ds i) l) ls)"
  using assms(2)
proof (induction n arbitrary: i ls)
  case 0
  then show ?case
    using card_subtree_pos [of ds i] by simp
next
  case (Suc n)
  have "delete_files_in_subtree n ds c ls = Inr (filter (\<lambda>l. \<not> in_dirs (subtree ds c) l) ls)"
    if "c \<in> set (child_ids ds i)" for c ls
    using Suc.IH [of c ls] card_subtree_child [OF assms(1) that] Suc.prems by simp
  then have "delete_files_in_subtree (Suc n) ds i ls
      = Inr (foldl (\<lambda>ls c. filter (\<lambda>l. \<not> in_dirs (subtree ds c) l) ls) (filter (\<lambda>l. kf_dir l \<noteq> Some i) ls) (child_ids ds i))"
    unfolding move_files_from_subtree.simps delete_files_in_subtree.simps by (rule rfoldM_total)
  also have "\<dots> = Inr (filter (\<lambda>l. \<not> in_dirs (subtree ds i) l) ls)"
    unfolding foldl_remove by (subst subtree_unfold) (auto simp: in_dirs_def intro!: filter_cong split: option.splits)
  finally show ?case .
qed

section \<open>Deleting a directory\<close>

lemma below_ids_sound: "c \<in> below_ids n ds A \<Longrightarrow> \<exists>a\<in>A. (c, a) \<in> (up ds)\<^sup>*"
proof (induction n arbitrary: A)
  case (Suc n)
  then obtain b where b: "(c, b) \<in> (up ds)\<^sup>*"
    and "b \<in> A \<or> (\<exists>d\<in>set ds. kd_id d = b \<and> (\<exists>p\<in>A. kd_parent d = Some p))"
    by fastforce
  then have "b \<in> A \<or> (\<exists>p\<in>A. (b, p) \<in> up ds)"
    by (auto simp: up_def)
  then show ?case
    using b by (meson rtrancl.rtrancl_into_rtrancl)
qed auto

lemma below_ids_mono: "A \<subseteq> below_ids n ds A"
proof (induction n arbitrary: A)
  case (Suc n)
  then show ?case
    unfolding below_ids.simps by (meson le_sup_iff)
qed simp

definition down_closed :: "dir_row list \<Rightarrow> string set \<Rightarrow> bool" where
  "down_closed ds A = (\<forall>c p. p \<in> A \<and> (c, p) \<in> up ds \<longrightarrow> c \<in> A)"

lemma below_ids_fixed:
  assumes "down_closed ds A"
  shows "below_ids n ds A = A"
proof (induction n)
  case (Suc n)
  have "A \<union> kd_id ` set (filter (\<lambda>d. \<exists>p\<in>A. kd_parent d = Some p) ds) = A"
    using assms by (auto simp: down_closed_def up_def)
  then show ?case
    using Suc by simp
qed simp

lemma below_ids_closed:
  assumes "card (kd_id ` set ds - A) \<le> n"
  shows "down_closed ds (below_ids n ds A)"
  using assms
proof (induction n arbitrary: A)
  case 0
  then have "kd_id ` set ds \<subseteq> A"
    by simp
  then show ?case
    using up_from by (fastforce simp: down_closed_def)
next
  case (Suc n)
  let ?B = "A \<union> kd_id ` set (filter (\<lambda>d. \<exists>p\<in>A. kd_parent d = Some p) ds)"
  show ?case
  proof (cases "?B = A")
    case True
    then have "down_closed ds A"
      by (auto simp: down_closed_def up_def)
    then show ?thesis
      using below_ids_fixed [of ds A "Suc n"] by simp
  next
    case False
    then have "kd_id ` set ds - ?B \<subset> kd_id ` set ds - A"
      by auto
    then have "card (kd_id ` set ds - ?B) < card (kd_id ` set ds - A)"
      by (intro psubset_card_mono) simp_all
    then show ?thesis
      using Suc by simp
  qed
qed

lemma below_ids_subtree: "below_ids (length ds) ds {i} = subtree ds i"
proof (rule set_eqI)
  fix c
  have "card (kd_id ` set ds - {i}) \<le> length ds"
    by (meson card_Diff_subset card_image_le card_length card_mono Diff_subset finite_imageI finite_set le_trans)
  then have closed: "down_closed ds (below_ids (length ds) ds {i})"
    by (rule below_ids_closed)
  have "c \<in> below_ids (length ds) ds {i}" if "(c, i) \<in> (up ds)\<^sup>*"
    using that
  proof (induction rule: converse_rtrancl_induct)
    case base
    then show ?case
      using below_ids_mono [of "{i}"] by blast
  next
    case (step y z)
    then show ?case
      using closed by (auto simp: down_closed_def)
  qed
  then show "c \<in> below_ids (length ds) ds {i} \<longleftrightarrow> c \<in> subtree ds i"
    using below_ids_sound [of c "length ds" ds "{i}"] by (auto simp: subtree_def)
qed

lemma parent_not_below:
  assumes "forest ds" and "(i, p) \<in> up ds"
  shows "p \<notin> subtree ds i"
  using assms by (auto simp: subtree_def forest_def acyclic_def dest: rtrancl_into_trancl1)

definition moved_links :: "bool \<Rightarrow> string set \<Rightarrow> string option \<Rightarrow> link_row list \<Rightarrow> link_row list" where
  "moved_links move_files A target ls =
     (if move_files then relocate_all A target ls else filter (\<lambda>l. \<not> in_dirs A l) ls)"

lemma moved_links_outside:
  assumes "\<forall>p. target = Some p \<longrightarrow> p \<notin> A"
  shows "map (\<lambda>l. if \<exists>g\<in>A. kf_dir l = Some g then l\<lparr>kf_dir := None\<rparr> else l) (moved_links mf A target ls)
     = moved_links mf A target ls"
proof (rule map_idI)
  fix l
  assume "l \<in> set (moved_links mf A target ls)"
  then have "\<not> in_dirs A l"
    using assms by (auto simp: moved_links_def relocate_all_def in_dirs_def split: if_splits option.splits)
  then show "(if \<exists>g\<in>A. kf_dir l = Some g then l\<lparr>kf_dir := None\<rparr> else l) = l"
    by (auto simp: in_dirs_def)
qed

lemma delete_directory_effect:
  assumes "forest (kt_dirs t)" and "get_directory_by_id t i = Some d" and "length (kt_dirs t) \<le> depth"
  shows "delete_directory fk depth i move_files t =
    (t\<lparr>kt_dirs := filter (\<lambda>e. kd_id e \<notin> (if fk then subtree (kt_dirs t) i else {i})) (kt_dirs t),
       kt_links := moved_links move_files (subtree (kt_dirs t) i) (kd_parent d) (kt_links t)\<rparr>, True)"
proof -
  let ?ds = "kt_dirs t" and ?A = "subtree (kt_dirs t) i"
  have d: "d \<in> set ?ds" "kd_id d = i"
    using get_directory_Some [OF assms(2)] by auto
  then have "?A \<subseteq> kd_id ` set ?ds"
    using subtree_bounded [of ?ds i] by auto
  then have "card ?A \<le> card (kd_id ` set ?ds)"
    by (intro card_mono) simp_all
  also have "\<dots> \<le> length ?ds"
    by (meson card_image_le card_length finite_set le_trans)
  finally have depth: "card ?A \<le> depth"
    using assms(3) by simp
  have links: "(if move_files
      then move_files_from_subtree depth ?ds (kd_parent d) i (relocate i (kd_parent d) (kt_links t))
      else delete_files_in_subtree depth ?ds i (kt_links t)) = Inr (moved_links move_files ?A (kd_parent d) (kt_links t))"
    using move_files_exact [OF assms(1) depth] delete_files_exact [OF assms(1) depth]
    by (simp add: moved_links_def)
  have "\<forall>p. kd_parent d = Some p \<longrightarrow> p \<notin> ?A"
    using parent_not_below [OF assms(1)] d by (auto simp: up_def)
  then show ?thesis
    unfolding delete_directory_def assms(2) option.case links sum.case
    by (simp add: delete_dir_row_def below_ids_subtree Let_def moved_links_outside)
qed



section \<open>Updates in two steps\<close>

text \<open>A move and a rename are committed one after the other: when the new name is taken at the new
  place the request fails, yet the directory has moved.\<close>

lemma failed_update_has_moved:
  "update_directory True 9 ''b'' (Some ''y'') (Some ''a'')
      (sample_bases\<lparr>kt_dirs := [sample_dir ''a'' None ''x'', sample_dir ''b'' None ''z'', sample_dir ''c'' (Some ''a'') ''y'']\<rparr>)
   = (sample_bases\<lparr>kt_dirs := [sample_dir ''a'' None ''x'', set_parent 9 (Some ''a'') (sample_dir ''b'' None ''z''),
        sample_dir ''c'' (Some ''a'') ''y'']\<rparr>, None)"
  by code_simp

text \<open>The parent of a new directory may belong to another knowledge base: no listing of its own
  knowledge base from the root shows it.\<close>

lemma create_below_foreign_directory:
  assumes "d \<in> set (kt_dirs t)" and "kd_kb d \<noteq> kb" and "fresh_id new_id (Some (kd_id d)) (kt_dirs t)"
    and "kb \<in> kb_id ` set (kt_bases t)"
    and "\<forall>e\<in>set (kt_dirs t). kd_parent e \<noteq> Some (kd_id d)"
  shows "snd (create_directory fk now new_id kb name uid (Some (kd_id d)) t) \<noteq> None"
  using assms by (auto simp: create_directory_def Let_def name_taken_def fresh_id_def parent_exists_def)

end
