(* ===== verification/Kb_Sync.thy ===== *)
theory Kb_Sync
  imports Kb_Directories Py_Value "HOL-Library.Multiset"
begin

text \<open>
  The incremental synchronisation of a knowledge base with a local directory,
  \<^verbatim>\<open>backend/openlaunch/routers/knowledge.py\<close>: the comparison of a manifest with the stored files and
  directories, and the clean-up that follows. The walk over parents is a loop that the data could
  keep from ending (None). The order in which a set is gone through is an argument, the vector store
  and the file storage are a list of the calls made on them.
\<close>

section \<open>Stored files\<close>

record file_row =
  fl_id :: string
  fl_name :: string
  fl_user :: string
  fl_hash :: "string option"
  fl_path :: string
  fl_data :: "string option"
  fl_meta :: pdict
  fl_created :: "int option"
  fl_updated :: "int option"

text \<open>\<open>fl_data\<close> is the stored content, None where a file has no data; \<open>fl_meta\<close> is empty where there
  is none.\<close>

definition get_file_by_id :: "file_row list \<Rightarrow> string \<Rightarrow> file_row option" where
  "get_file_by_id files i = List.find (\<lambda>f. fl_id f = i) files"

definition get_files_with_directory_ids ::
  "kb_tables \<Rightarrow> file_row list \<Rightarrow> string \<Rightarrow> (file_row \<times> string option) list" where
  "get_files_with_directory_ids t files kb =
     concat (map (\<lambda>l. case get_file_by_id files (kf_file l) of None \<Rightarrow> [] | Some f \<Rightarrow> [(f, kf_dir l)])
       (filter (\<lambda>l. kf_kb l = kb) (kt_links t)))"

section \<open>Comparing\<close>

record manifest_entry =
  me_filename :: string
  me_path :: string
  me_checksum :: string
  me_size :: int

record sync_diff =
  sd_added :: "(string \<times> string) list"
  sd_modified :: "(string \<times> string \<times> string) list"
  sd_deleted :: "(string \<times> string) list"
  sd_mkdir :: "string list"
  sd_rmdir :: "string list"
  sd_unmodified :: nat
  sd_directory_map :: "(string, string) od"

partial_function (option) walk_names :: "dir_row list \<Rightarrow> string option \<Rightarrow> string list \<Rightarrow> string list option" where
  "walk_names ds p segments = (case p of
      None \<Rightarrow> Some segments
    | Some i \<Rightarrow> (if i = [] then Some segments
        else (case List.find (\<lambda>d. kd_id d = i) ds of
            None \<Rightarrow> Some segments
          | Some d \<Rightarrow> walk_names ds (kd_parent d) (kd_name d # segments))))"

definition dir_full_path :: "dir_row list \<Rightarrow> dir_row \<Rightarrow> string option" where
  "dir_full_path ds d = map_option (py_join ''/'') (walk_names ds (kd_parent d) [kd_name d])"

text \<open>Both lookups, directory by directory\<close>

fun directory_paths :: "dir_row list \<Rightarrow> dir_row list \<Rightarrow> (string, string) od \<times> (string, string) od \<Rightarrow>
    ((string, string) od \<times> (string, string) od) option" where
  "directory_paths ds [] acc = Some acc"
| "directory_paths ds (d # rest) (by_id, by_path) = (case dir_full_path ds d of
      None \<Rightarrow> None
    | Some path \<Rightarrow> directory_paths ds rest (od_set (kd_id d) path by_id, od_set path (kd_id d) by_path))"

type_synonym file_key = "string \<times> string"

definition index_file :: "(string, string) od \<Rightarrow> (file_key, string \<times> pv) od \<Rightarrow> file_row \<times> string option \<Rightarrow>
    (file_key, string \<times> pv) od" where
  "index_file by_id acc fd = (case fd of (f, dir) \<Rightarrow>
     let path = (case dir of None \<Rightarrow> [] | Some i \<Rightarrow> (if i = [] then [] else od_getd by_id i []))
     in od_set (path, fl_name f) (fl_id f, od_getd (fl_meta f) ''file_hash'' PNone) acc)"

definition index_files :: "(string, string) od \<Rightarrow> (file_row \<times> string option) list \<Rightarrow> (file_key, string \<times> pv) od" where
  "index_files by_id fds = foldl (index_file by_id) [] fds"

definition entry_key :: "manifest_entry \<Rightarrow> file_key" where
  "entry_key e = (me_path e, me_filename e)"

text \<open>One round of the loop over the manifest\<close>

definition diff_entry :: "(file_key, string \<times> pv) od \<Rightarrow> sync_diff \<Rightarrow> manifest_entry \<Rightarrow> sync_diff" where
  "diff_entry index r e = (case od_get index (entry_key e) of
      None \<Rightarrow> r\<lparr>sd_added := sd_added r @ [(me_filename e, me_path e)]\<rparr>
    | Some (fid, checksum) \<Rightarrow>
        (if checksum \<noteq> PStr (me_checksum e)
         then r\<lparr>sd_modified := sd_modified r @ [(me_filename e, me_path e, fid)]\<rparr>
         else r\<lparr>sd_unmodified := sd_unmodified r + 1\<rparr>))"

definition deleted_files :: "(file_key, string \<times> pv) od \<Rightarrow> manifest_entry list \<Rightarrow> (string \<times> string) list" where
  "deleted_files index ms =
     map (\<lambda>(key, info). (fst info, snd key)) (filter (\<lambda>(key, info). key \<notin> set (map entry_key ms)) index)"

text \<open>The directories of a path, from the first one down\<close>

definition path_prefixes :: "string \<Rightarrow> string list" where
  "path_prefixes path =
     (if path = [] then []
      else let segments = py_split CHR ''/'' path
           in map (\<lambda>n. py_join ''/'' (take (Suc n) segments)) [0..<length segments])"

definition required_paths :: "manifest_entry list \<Rightarrow> string list" where
  "required_paths ms = dedup (concat (map (\<lambda>e. path_prefixes (me_path e)) ms))"

definition slash_count :: "string \<Rightarrow> nat" where
  "slash_count p = length (filter (\<lambda>c. c = CHR ''/'') p)"

definition kb_paths :: "kb_tables \<Rightarrow> string \<Rightarrow> ((string, string) od \<times> (string, string) od) option" where
  "kb_paths t kb = directory_paths (get_all_directories t kb) (get_all_directories t kb) ([], [])"

definition sync_diff_of ::
  "(string list \<Rightarrow> string list) \<Rightarrow> kb_tables \<Rightarrow> file_row list \<Rightarrow> string \<Rightarrow> manifest_entry list \<Rightarrow> sync_diff option" where
  "sync_diff_of order t files kb ms =
     (case kb_paths t kb of
        None \<Rightarrow> None
      | Some (by_id, by_path) \<Rightarrow>
         (let index = index_files by_id (get_files_with_directory_ids t files kb);
              r = foldl (diff_entry index) \<lparr>sd_added = [], sd_modified = [], sd_deleted = [], sd_mkdir = [],
                    sd_rmdir = [], sd_unmodified = 0, sd_directory_map = []\<rparr> ms;
              required = required_paths ms;
              missing = filter (\<lambda>p. \<not> od_has by_path p) (order required);
              orphaned = order (filter (\<lambda>p. p \<notin> set required) (od_keys by_path))
          in Some (r\<lparr>sd_deleted := deleted_files index ms,
                     sd_mkdir := sort_key slash_count missing,
                     sd_rmdir := map (\<lambda>p. od_getd by_path p []) orphaned,
                     sd_directory_map := by_path\<rparr>)))"

definition sync_knowledge_diff ::
  "(string list \<Rightarrow> string list) \<Rightarrow> group_db \<Rightarrow> grant_row list \<Rightarrow> kb_tables \<Rightarrow> file_row list \<Rightarrow> string \<Rightarrow>
   manifest_entry list \<Rightarrow> kb_caller \<Rightarrow> sync_diff res option" where
  "sync_knowledge_diff order gdb grants t files kb ms user =
     (case verify_write gdb grants kb user t of
        Inl e \<Rightarrow> Some (Inl e)
      | Inr k \<Rightarrow> map_option Inr (sync_diff_of order t files kb ms))"

section \<open>Cleaning up\<close>

datatype store_call = DeleteByFile string string | DeleteByHash string "string option" | DropCollection string
  | DeleteStored string

record sync_state =
  ss_tables :: kb_tables
  ss_files :: "file_row list"
  ss_calls :: "store_call list"

text \<open>\<open>works\<close> says which calls do not raise, \<open>exists\<close> what \<^verbatim>\<open>has_collection\<close> answers.\<close>

definition vector_calls ::
  "(store_call \<Rightarrow> bool) \<Rightarrow> (string \<Rightarrow> bool) \<Rightarrow> string \<Rightarrow> file_row \<Rightarrow> store_call list" where
  "vector_calls works present kb f =
     (let by_file = DeleteByFile kb (fl_id f); collection = ''file-'' @ fl_id f
      in [by_file] @ (if works by_file then [DeleteByHash kb (fl_hash f)] else [])
         @ (if present collection then [DropCollection collection] else []))"

definition delete_file_by_id :: "bool \<Rightarrow> string \<Rightarrow> sync_state \<Rightarrow> sync_state" where
  "delete_file_by_id fk i s =
     s\<lparr>ss_files := filter (\<lambda>f. fl_id f \<noteq> i) (ss_files s),
       ss_tables := (if fk then (ss_tables s)\<lparr>kt_links := filter (\<lambda>l. kf_file l \<noteq> i) (kt_links (ss_tables s))\<rparr>
                     else ss_tables s)\<rparr>"

definition cleanup_file ::
  "bool \<Rightarrow> (store_call \<Rightarrow> bool) \<Rightarrow> (string \<Rightarrow> bool) \<Rightarrow> string \<Rightarrow> kb_caller \<Rightarrow> sync_state \<Rightarrow> string \<Rightarrow> sync_state" where
  "cleanup_file fk works present kb user s i =
     (case get_file_by_id (ss_files s) i of
        None \<Rightarrow> s
      | Some f \<Rightarrow>
         (let s1 = s\<lparr>ss_tables := remove_file_from_knowledge_by_id kb i (ss_tables s),
                     ss_calls := ss_calls s @ vector_calls works present kb f\<rparr>
          in if fl_user f = kc_id user \<or> kc_role user = ''admin''
             then (delete_file_by_id fk i s1)\<lparr>ss_calls := ss_calls s1 @ [DeleteStored (fl_path f)]\<rparr>
             else s1))"

definition cleanup_dir :: "bool \<Rightarrow> nat \<Rightarrow> sync_state \<Rightarrow> string \<Rightarrow> sync_state" where
  "cleanup_dir fk depth s i = s\<lparr>ss_tables := fst (delete_directory fk depth i False (ss_tables s))\<rparr>"

definition sync_knowledge_cleanup ::
  "bool \<Rightarrow> nat \<Rightarrow> (store_call \<Rightarrow> bool) \<Rightarrow> (string \<Rightarrow> bool) \<Rightarrow> group_db \<Rightarrow> grant_row list \<Rightarrow> string \<Rightarrow>
   string list \<Rightarrow> string list \<Rightarrow> kb_caller \<Rightarrow> sync_state \<Rightarrow> sync_state \<times> bool res" where
  "sync_knowledge_cleanup fk depth works present gdb grants kb file_ids dir_ids user s =
     (case verify_write gdb grants kb user (ss_tables s) of
        Inl e \<Rightarrow> (s, Inl e)
      | Inr k \<Rightarrow>
         (foldl (cleanup_dir fk depth) (foldl (cleanup_file fk works present kb user) s file_ids) (rev dir_ids), Inr True))"

section \<open>The comparison returns\<close>

lemma forest_sorted_filter:
  assumes "forest ds"
  shows "forest (sort_key f (filter P ds))"
proof -
  have "forest (filter P ds)"
    by (rule forest_filter [OF assms])
  have "mset (map kd_id (sort_key f (filter P ds))) = mset (map kd_id (filter P ds))"
    by simp
  then have d: "distinct (map kd_id (sort_key f (filter P ds))) = distinct (map kd_id (filter P ds))"
    by (metis mset_eq_imp_distinct_iff)
  have "up (sort_key f (filter P ds)) = up (filter P ds)"
    by (simp add: up_def)
  with d \<open>forest (filter P ds)\<close> show ?thesis
    unfolding forest_def by simp
qed

lemma finite_up: "finite (up ds)"
  unfolding up_code by (auto split: option.splits)

lemma walk_names_returns:
  assumes "forest ds"
  shows "\<exists>w. walk_names ds p segs = Some w"
proof (cases p)
  case None
  then show ?thesis
    by (simp add: walk_names.simps)
next
  case (Some c)
  have "wf ((up ds)\<inverse>)"
    using assms finite_up by (simp add: forest_def finite_acyclic_wf_converse)
  then have "\<exists>w. walk_names ds (Some c) segs = Some w"
  proof (induction c arbitrary: segs)
    case (less c)
    show ?case
    proof (cases "List.find (\<lambda>d. kd_id d = c) ds")
      case (Some d)
      then have d: "d \<in> set ds" "kd_id d = c"
        by (auto simp: find_Some_iff)
      show ?thesis
      proof (cases "kd_parent d")
        case None
        then show ?thesis
          using Some by (simp add: walk_names.simps)
      next
        case (Some q)
        then have "(q, c) \<in> (up ds)\<inverse>"
          using d by (auto simp: up_def)
        then show ?thesis
          using less [of q "kd_name d # segs"] Some \<open>List.find (\<lambda>d. kd_id d = c) ds = Some d\<close>
          by (subst walk_names.simps) simp
      qed
    qed (simp add: walk_names.simps)
  qed
  then show ?thesis
    using Some by simp
qed

lemma directory_paths_return:
  assumes "forest ds"
  shows "\<exists>r. directory_paths ds rest acc = Some r"
proof (induction rest arbitrary: acc)
  case (Cons d rest)
  obtain by_id by_path where "acc = (by_id, by_path)"
    by force
  moreover obtain path where "dir_full_path ds d = Some path"
    using walk_names_returns [OF assms] by (fastforce simp: dir_full_path_def)
  ultimately show ?case
    using Cons.IH by simp
qed simp

section \<open>Files that differ\<close>

lemma diff_entries:
  "sd_added (foldl (diff_entry index) r ms) = [] \<and> sd_modified (foldl (diff_entry index) r ms) = [] \<longleftrightarrow>
     sd_added r = [] \<and> sd_modified r = []
     \<and> (\<forall>e\<in>set ms. \<exists>fid. od_get index (entry_key e) = Some (fid, PStr (me_checksum e)))"
proof (induction ms arbitrary: r)
  case (Cons e ms)
  show ?case
    using Cons.IH [of "diff_entry index r e"]
    by (auto simp: diff_entry_def split: option.splits if_splits)
qed simp

definition stored_state :: "(file_key, string \<times> pv) od \<Rightarrow> (file_key \<times> pv) set" where
  "stored_state index = (\<lambda>(k, f, c). (k, c)) ` set index"

definition manifest_state :: "manifest_entry list \<Rightarrow> (file_key \<times> pv) set" where
  "manifest_state ms = (\<lambda>e. (entry_key e, PStr (me_checksum e))) ` set ms"

lemma index_files_ok: "od_ok (index_files by_id fds)"
proof -
  have "od_ok acc \<Longrightarrow> od_ok (foldl (index_file by_id) acc fds)" for acc
    by (induction fds arbitrary: acc) (auto simp: index_file_def Let_def)
  then show ?thesis
    by (simp add: index_files_def)
qed

lemma up_to_date:
  assumes "od_ok index"
  shows "(\<forall>e\<in>set ms. \<exists>fid. od_get index (entry_key e) = Some (fid, PStr (me_checksum e))) \<and> deleted_files index ms = []
     \<longleftrightarrow> stored_state index = manifest_state ms"
proof -
  have get: "od_get index k = Some v \<longleftrightarrow> (k, v) \<in> set index" for k v
    using assms by (simp add: od_ok_def)
  have del: "deleted_files index ms = [] \<longleftrightarrow> (\<forall>k v. (k, v) \<in> set index \<longrightarrow> (\<exists>e\<in>set ms. entry_key e = k))"
  proof -
    have "deleted_files index ms = [] \<longleftrightarrow> (\<forall>kv\<in>set index. fst kv \<in> entry_key ` set ms)"
      by (simp add: deleted_files_def filter_empty_conv case_prod_beta)
    also have "\<dots> \<longleftrightarrow> (\<forall>k v. (k, v) \<in> set index \<longrightarrow> k \<in> entry_key ` set ms)"
      by force
    also have "\<dots> \<longleftrightarrow> (\<forall>k v. (k, v) \<in> set index \<longrightarrow> (\<exists>e\<in>set ms. entry_key e = k))"
      by blast
    finally show ?thesis .
  qed
  have here: "(k, c) \<in> stored_state index \<longleftrightarrow> (\<exists>f. (k, f, c) \<in> set index)" for k c
    unfolding stored_state_def image_iff by (auto intro: bexI [where P = "\<lambda>x. (k, c) = (case x of (k, f, xa) \<Rightarrow> (k, xa))", rotated])
  have there: "(k, c) \<in> manifest_state ms \<longleftrightarrow> (\<exists>e\<in>set ms. entry_key e = k \<and> c = PStr (me_checksum e))" for k c
    by (auto simp: manifest_state_def)
  have one: "(k, f, c) \<in> set index \<Longrightarrow> (k, f', c') \<in> set index \<Longrightarrow> c = c'" for k f c f' c'
    using get by (metis option.inject prod.inject)
  show ?thesis
  proof
    assume l: "(\<forall>e\<in>set ms. \<exists>fid. od_get index (entry_key e) = Some (fid, PStr (me_checksum e))) \<and> deleted_files index ms = []"
    show "stored_state index = manifest_state ms"
    proof (rule set_eqI)
      fix kc :: "file_key \<times> pv"
      obtain k c where kc: "kc = (k, c)"
        by (rule prod.exhaust)
      have "(\<exists>f. (k, f, c) \<in> set index) \<longleftrightarrow> (\<exists>e\<in>set ms. entry_key e = k \<and> c = PStr (me_checksum e))"
        using l one unfolding get del by blast
      then show "kc \<in> stored_state index \<longleftrightarrow> kc \<in> manifest_state ms"
        by (simp add: kc here there)
    qed
  next
    assume r: "stored_state index = manifest_state ms"
    then have "(\<exists>f. (k, f, c) \<in> set index) \<longleftrightarrow> (\<exists>e\<in>set ms. entry_key e = k \<and> c = PStr (me_checksum e))" for k c
      using here there by blast
    then show "(\<forall>e\<in>set ms. \<exists>fid. od_get index (entry_key e) = Some (fid, PStr (me_checksum e))) \<and> deleted_files index ms = []"
      unfolding get del by (metis prod.collapse)
  qed
qed

section \<open>Directories to make\<close>

lemma slash_count_join:
  "ws \<noteq> [] \<Longrightarrow> \<forall>w\<in>set ws. CHR ''/'' \<notin> set w \<Longrightarrow> slash_count (py_join ''/'' ws) = length ws - 1"
proof (induction ws)
  case (Cons w ws)
  have "filter (\<lambda>c. c = CHR ''/'') w = []"
    using Cons.prems by (auto simp: filter_empty_conv)
  then show ?case
    using Cons by (cases ws) (simp_all add: slash_count_def)
qed simp

lemma prefix_of_path:
  assumes "p \<in> set (path_prefixes path)"
  shows "\<exists>n < length (py_split CHR ''/'' path). p = py_join ''/'' (take (Suc n) (py_split CHR ''/'' path))"
  using assms by (auto simp: path_prefixes_def Let_def split: if_splits)

lemma path_prefix_trans:
  assumes "p \<in> set (path_prefixes path)" and "q \<in> set (path_prefixes p)"
  shows "q \<in> set (path_prefixes path)" and "q \<noteq> p \<Longrightarrow> slash_count q < slash_count p"
proof -
  let ?s = "py_split CHR ''/'' path"
  have ok: "\<forall>w\<in>set (take n ?s). CHR ''/'' \<notin> set w" for n
    using split_parts in_set_takeD by fast
  obtain n where n: "n < length ?s" and p: "p = py_join ''/'' (take (Suc n) ?s)"
    using prefix_of_path [OF assms(1)] by blast
  have ne: "take (Suc k) ?s \<noteq> []" for k
    by simp
  have ps: "py_split CHR ''/'' p = take (Suc n) ?s"
    unfolding p by (rule split_join [OF ne ok])
  obtain m where m: "m < Suc n" and "q = py_join ''/'' (take (Suc m) (take (Suc n) ?s))"
    using prefix_of_path [OF assms(2)] n unfolding ps by auto
  then have q: "q = py_join ''/'' (take (Suc m) ?s)"
    by (simp add: min_absorb1)
  have "path \<noteq> []"
    using assms(1) by (auto simp: path_prefixes_def)
  then show "q \<in> set (path_prefixes path)"
    using m n q by (auto simp: path_prefixes_def Let_def)
  assume "q \<noteq> p"
  then have "m < n"
    using m p q by (cases "m = n") auto
  then show "slash_count q < slash_count p"
    unfolding p q slash_count_join [OF ne ok] using n by simp
qed

lemma required_prefix:
  assumes "p \<in> set (required_paths ms)" and "q \<in> set (path_prefixes p)"
  shows "q \<in> set (required_paths ms)"
  using assms path_prefix_trans(1) by (auto simp: required_paths_def)

lemma required_slashes:
  assumes "p \<in> set (required_paths ms)" and "q \<in> set (path_prefixes p)" and "q \<noteq> p"
  shows "slash_count q < slash_count p"
  using assms path_prefix_trans(2) by (auto simp: required_paths_def)

lemma diff_folders:
  "sd_deleted (r\<lparr>sd_deleted := d, sd_mkdir := m, sd_rmdir := x, sd_directory_map := y\<rparr>) = d"
  "sd_mkdir (r\<lparr>sd_deleted := d, sd_mkdir := m, sd_rmdir := x, sd_directory_map := y\<rparr>) = m"
  "sd_added (r\<lparr>sd_deleted := d, sd_mkdir := m, sd_rmdir := x, sd_directory_map := y\<rparr>) = sd_added r"
  "sd_modified (r\<lparr>sd_deleted := d, sd_mkdir := m, sd_rmdir := x, sd_directory_map := y\<rparr>) = sd_modified r"
  by simp_all

lemma sorted_before:
  assumes "sorted (map f xs)" and "a \<in> set xs" and "k < length xs" and "f a < (f (xs ! k) :: nat)"
  shows "\<exists>j<k. xs ! j = a"
proof -
  obtain j where j: "j < length xs" "xs ! j = a"
    using assms(2) by (auto simp: in_set_conv_nth)
  have "j < k"
  proof (rule ccontr)
    assume "\<not> j < k"
    then have "f (xs ! k) \<le> f (xs ! j)"
      using sorted_nth_mono [OF assms(1), of k j] j(1) assms(3) by simp
    then show False
      using assms(4) j(2) by simp
  qed
  then show ?thesis
    using j(2) by blast
qed



section \<open>What the clean-up may delete\<close>

text \<open>
  Whoever may write to one knowledge base can have the clean-up delete a directory of any other one
  with the links of all files below it: the ids of the request are not compared with the knowledge
  base for which the access was checked.
\<close>

theorem cleanup_deletes_foreign_directory:
  assumes "verify_write gdb grants kb user (ss_tables s) = Inr k"
    and "get_directory_by_id (ss_tables s) i = Some d" and "kd_kb d \<noteq> kb"
    and "forest (kt_dirs (ss_tables s))" and "length (kt_dirs (ss_tables s)) \<le> depth"
  shows "i \<notin> kd_id ` set (kt_dirs (ss_tables (fst (sync_knowledge_cleanup fk depth works present gdb grants kb [] [i] user s))))
    \<and> kt_links (ss_tables (fst (sync_knowledge_cleanup fk depth works present gdb grants kb [] [i] user s)))
        = filter (\<lambda>l. \<not> in_dirs (subtree (kt_dirs (ss_tables s)) i) l) (kt_links (ss_tables s))
    \<and> snd (sync_knowledge_cleanup fk depth works present gdb grants kb [] [i] user s) = Inr True"
proof -
  have "i \<in> subtree (kt_dirs (ss_tables s)) i"
    by (simp add: subtree_def)
  then show ?thesis
    using delete_directory_effect [OF assms(4,2,5), of fk False]
    by (auto simp: sync_knowledge_cleanup_def assms(1) cleanup_dir_def moved_links_def)
qed

definition sample_caller :: kb_caller where
  "sample_caller = \<lparr>kc_id = ''bob'', kc_role = ''user''\<rparr>"

theorem cleanup_deletes_foreign_directory_witness:
  "''a'' \<notin> kd_id ` set (kt_dirs (ss_tables (fst (sync_knowledge_cleanup True 2 (\<lambda>_. True) (\<lambda>_. False) no_groups [] ''z'' []
       [''a''] sample_caller \<lparr>ss_tables = sample_tree, ss_files = [], ss_calls = []\<rparr>))))"
proof -
  have "\<exists>k. verify_write no_groups [] ''z'' sample_caller sample_tree = Inr k"
    by (simp add: verify_write_def get_knowledge_by_id_def sample_tree_def sample_bases_def sample_caller_def)
  then obtain k where "verify_write no_groups [] ''z'' sample_caller sample_tree = Inr k" ..
  moreover have "get_directory_by_id sample_tree ''a'' = Some (sample_dir ''a'' None ''x'')" "kd_kb (sample_dir ''a'' None ''x'') \<noteq> ''z''"
    "length (kt_dirs sample_tree) \<le> 2"
    by (simp_all add: get_directory_by_id_def sample_tree_def sample_dir_def)
  ultimately show ?thesis
    using cleanup_deletes_foreign_directory [where s = "\<lparr>ss_tables = sample_tree, ss_files = [], ss_calls = []\<rparr>"] sample_tree_forest
    by simp
qed

text \<open>The vector collection of a file goes although the file belongs to somebody else.\<close>

lemma cleanup_drops_foreign_collection:
  assumes "get_file_by_id (ss_files s) i = Some f" and "present (''file-'' @ i)" and "fl_id f = i"
  shows "DropCollection (''file-'' @ i) \<in> set (ss_calls (cleanup_file fk works present kb user s i))"
  using assms by (auto simp: cleanup_file_def vector_calls_def Let_def delete_file_by_id_def)

end
