(* ===== verification/Kb_Shell.thy ===== *)
theory Kb_Shell
  imports Kb_Commands Kb_Sync Task_Templates Fnmatch
begin

text \<open>
  The file-system commands over knowledge bases that a model may run,
  \<^verbatim>\<open>backend/openlaunch/tools/knowledge_fs.py\<close>: what a user may see, the resolution of paths and names, and
  the commands with their pipelines. Everything only reads. The order in which a set is gone
  through, the engine of regular expressions, the texts of dates and of exceptions and the signs
  beyond Latin-1 of the listings are arguments.
\<close>

section \<open>The environment\<close>

record glyphs =
  gl_folder :: string
  gl_last :: string
  gl_mid :: string
  gl_bar :: string
  gl_dash :: string

record kb_env =
  ke_tables :: kb_tables
  ke_files :: "file_row list"
  ke_groups :: group_db
  ke_grants :: "grant_row list"
  ke_order :: "string list \<Rightarrow> string list"
  ke_regex :: regex_engine
  ke_float :: "rat \<Rightarrow> string"
  ke_float_commas :: "rat \<Rightarrow> string"
  ke_date :: "int \<Rightarrow> string"
  ke_time :: "int \<Rightarrow> string"
  ke_error :: "py_error \<Rightarrow> string"
  ke_glyphs :: glyphs
  ke_depth :: nat

text \<open>The attachments of a model: None or the list of its items\<close>

type_synonym attachments = "pdict list option"

definition attached :: "attachments \<Rightarrow> bool" where
  "attached mk = (case mk of None \<Rightarrow> False | Some xs \<Rightarrow> xs \<noteq> [])"

text \<open>The ids of the attached items of a kind; an id that is not a text finds nothing.\<close>

definition attached_ids :: "string \<Rightarrow> attachments \<Rightarrow> string list" where
  "attached_ids kind mk = (case mk of None \<Rightarrow> [] | Some xs \<Rightarrow>
     dedup (somes (map (\<lambda>x. as_str (od_getd x ''id'' PNone)) (filter (\<lambda>x. od_getd x ''type'' PNone = PStr kind) xs))))"

section \<open>Access\<close>

definition kb_has_access :: "kb_env \<Rightarrow> kb_caller \<Rightarrow> kb_row \<Rightarrow> bool" where
  "kb_has_access env user k =
     (kc_role user = ''admin'' \<or> kb_owner k = kc_id user
      \<or> grants_has_access (ke_groups env) (ke_grants env) (kc_id user) ''knowledge'' (kb_id k) ''read''
          (Some (set (map g_id (get_groups_by_member_id (ke_groups env) (kc_id user))))))"

text \<open>\<^verbatim>\<open>search_knowledge_bases\<close> without a query: the newest fifty that the permission filter keeps\<close>

definition kb_search :: "kb_env \<Rightarrow> kb_caller \<Rightarrow> kb_row list" where
  "kb_search env user =
     (let gids = map g_id (get_groups_by_member_id (ke_groups env) (kc_id user));
          seen = filter (\<lambda>k. has_permission_filter (ke_grants env) ''knowledge'' ''read'' gids (Some (kc_id user))
             [\<lparr>d_id = kb_id k, d_user_id = kb_owner k\<rparr>] \<noteq> []) (kt_bases (ke_tables env))
      in take 50 (sort_key (\<lambda>k. - kb_updated k) (sort_key kb_id seen)))"

definition kb_readable :: "kb_env \<Rightarrow> kb_caller \<Rightarrow> string \<Rightarrow> kb_row list" where
  "kb_readable env user i = (case get_knowledge_by_id (ke_tables env) i of
      None \<Rightarrow> []
    | Some k \<Rightarrow> (if kb_has_access env user k then [k] else []))"

definition get_accessible_kbs :: "kb_env \<Rightarrow> kb_caller \<Rightarrow> attachments \<Rightarrow> string option \<Rightarrow> kb_row list" where
  "get_accessible_kbs env user mk kid =
     (let wanted = (case kid of None \<Rightarrow> None | Some i \<Rightarrow> if i = [] then None else Some i) in
      if attached mk
      then (let ids = attached_ids ''collection'' mk in
            case wanted of
              None \<Rightarrow> concat (map (kb_readable env user) (ke_order env ids))
            | Some i \<Rightarrow> (if i \<in> set ids then kb_readable env user i else []))
      else (case wanted of
              None \<Rightarrow> kb_search env user
            | Some i \<Rightarrow> kb_readable env user i))"

record file_info =
  fi_id :: string
  fi_name :: string
  fi_dir :: "string option"
  fi_size :: pv
  fi_type :: pv
  fi_updated :: "int option"
  fi_kb :: "string option"
  fi_kb_name :: "string option"

definition file_info_of :: "file_row \<Rightarrow> string option \<Rightarrow> string option \<Rightarrow> string option \<Rightarrow> file_info" where
  "file_info_of f dir kb name =
     \<lparr>fi_id = fl_id f, fi_name = fl_name f, fi_dir = dir,
      fi_size = od_getd (fl_meta f) ''size'' PNone, fi_type = od_getd (fl_meta f) ''content_type'' PNone,
      fi_updated = fl_updated f, fi_kb = kb, fi_kb_name = name\<rparr>"

definition get_accessible_files :: "kb_env \<Rightarrow> kb_caller \<Rightarrow> attachments \<Rightarrow> string option \<Rightarrow> file_info list" where
  "get_accessible_files env user mk kid =
     concat (map (\<lambda>k. map (\<lambda>(f, dir). file_info_of f dir (Some (kb_id k)) (Some (kb_name k)))
         (get_files_with_directory_ids (ke_tables env) (ke_files env) (kb_id k)))
       (get_accessible_kbs env user mk kid))
     @ (if attached mk
        then concat (map (\<lambda>i. case get_file_by_id (ke_files env) i of
             None \<Rightarrow> [] | Some f \<Rightarrow> [file_info_of f None None None]) (ke_order env (attached_ids ''file'' mk)))
        else [])"

section \<open>Paths\<close>

definition strip_slashes :: "string \<Rightarrow> string" where
  "strip_slashes s = py_rstrip_char CHR ''/'' (dropWhile (\<lambda>c. c = CHR ''/'') s)"

text \<open>One directory of the path at a time; the first of the names that match\<close>

fun walk_path :: "kb_tables \<Rightarrow> string \<Rightarrow> string option \<Rightarrow> string list \<Rightarrow> string option" where
  "walk_path t kb cur [] = cur"
| "walk_path t kb cur (part # parts) =
     (case List.find (\<lambda>d. kd_name d = part) (get_directories t kb cur) of
        None \<Rightarrow> None
      | Some d \<Rightarrow> walk_path t kb (Some (kd_id d)) parts)"

definition resolve_dir_path :: "kb_tables \<Rightarrow> string \<Rightarrow> string \<Rightarrow> string option" where
  "resolve_dir_path t path kb = walk_path t kb None (py_split CHR ''/'' (strip_slashes path))"

text \<open>The worklist of \<^verbatim>\<open>_get_descendant_dir_ids\<close>: the ids found and those still to look at, last first\<close>

definition add_children :: "string list \<Rightarrow> string list \<times> string list \<Rightarrow> string list \<times> string list" where
  "add_children cs s = foldl (\<lambda>(res, q) c. if c \<in> set res then (res, q) else (res @ [c], q @ [c])) s cs"

definition kb_children :: "kb_tables \<Rightarrow> string \<Rightarrow> string \<Rightarrow> string list" where
  "kb_children t kb i = map kd_id (get_directories t kb (Some i))"

lemma add_children_sets:
  assumes "add_children cs (res, q) = (res', q')"
  shows "set res' = set res \<union> set cs" and "set q' = set q \<union> (set cs - set res)"
    and "length q' = length q + card (set cs - set res)"
proof -
  have "set res' = set res \<union> set cs \<and> set q' = set q \<union> (set cs - set res)
      \<and> length q' = length q + card (set cs - set res)"
    using assms
  proof (induction cs arbitrary: res q)
    case (Cons c cs)
    show ?case
    proof (cases "c \<in> set res")
      case True
      then show ?thesis
        using Cons.IH [of res q] Cons.prems by (auto simp: add_children_def insert_Diff_if)
    next
      case False
      then have "set (c # cs) - set res = insert c (set cs - set (res @ [c]))"
        by auto
      then have "card (set (c # cs) - set res) = Suc (card (set cs - set (res @ [c])))"
        by simp
      then show ?thesis
        using False Cons.IH [of "res @ [c]" "q @ [c]"] Cons.prems by (auto simp: add_children_def)
    qed
  qed (simp add: add_children_def)
  then show "set res' = set res \<union> set cs" "set q' = set q \<union> (set cs - set res)"
    "length q' = length q + card (set cs - set res)"
    by auto
qed

lemma kb_children_ids: "set (kb_children t kb i) \<subseteq> kd_id ` set (kt_dirs t)"
  by (auto simp: kb_children_def get_directories_def)

function descend :: "kb_tables \<Rightarrow> string \<Rightarrow> string list \<Rightarrow> string list \<Rightarrow> string list" where
  "descend t kb res q =
     (if q = [] then res
      else (case add_children (kb_children t kb (last q)) (res, butlast q) of
          (res', q') \<Rightarrow> descend t kb res' q'))"
  by pat_completeness auto
termination
proof (relation "measure (\<lambda>(t, kb, res, q). card (kd_id ` set (kt_dirs t) - set res) + length q)", goal_cases)
  case (2 t kb res q res' q')
  let ?ids = "kd_id ` set (kt_dirs t)" and ?cs = "set (kb_children t kb (last q))"
  have a: "set res' = set res \<union> ?cs" "length q' = length (butlast q) + card (?cs - set res)"
    using add_children_sets 2 by metis+
  have "?ids - set res = (?ids - set res') \<union> (?cs - set res)" and "(?ids - set res') \<inter> (?cs - set res) = {}"
    using kb_children_ids [of t kb "last q"] a(1) by auto
  then have "card (?ids - set res) = card (?ids - set res') + card (?cs - set res)"
    by (metis card_Un_disjoint finite_Diff finite_imageI finite_set)
  then show ?case
    using a(2) 2(1) by (cases q) simp_all
qed simp

declare descend.simps [simp del]

definition get_descendant_dir_ids :: "kb_tables \<Rightarrow> string \<Rightarrow> string \<Rightarrow> string list" where
  "get_descendant_dir_ids t i kb = descend t kb [i] [i]"

text \<open>From a directory to those that the knowledge base lists in it\<close>

definition kb_below :: "kb_tables \<Rightarrow> string \<Rightarrow> (string \<times> string) set" where
  "kb_below t kb = {(p, c). c \<in> set (kb_children t kb p)}"

lemma descend_exact:
  assumes "set q \<subseteq> set res" and "\<forall>p\<in>set res - set q. set (kb_children t kb p) \<subseteq> set res"
  shows "set (descend t kb res q) = (kb_below t kb)\<^sup>* `` set res"
  using assms
proof (induction t kb res q rule: descend.induct)
  case (1 t kb res q)
  show ?case
  proof (cases "q = []")
    case True
    have "kb_below t kb `` set res \<subseteq> set res"
      using "1.prems"(2) True by (auto simp: kb_below_def)
    then have "(kb_below t kb)\<^sup>* `` set res = set res"
      by (rule Image_closed_trancl)
    then show ?thesis
      using True by (subst descend.simps) simp
  next
    case False
    let ?p = "last q"
    obtain res' q' where s: "add_children (kb_children t kb ?p) (res, butlast q) = (res', q')"
      by force
    note sets = add_children_sets [OF s]
    have q: "set q = insert ?p (set (butlast q))"
      using False by (metis append_butlast_last_id list.simps(15) rotate1.simps(2) set_rotate1)
    have "set q' \<subseteq> set res'" and "\<forall>p\<in>set res' - set q'. set (kb_children t kb p) \<subseteq> set res'"
      using "1.prems" q sets by auto
    then have "set (descend t kb res' q') = (kb_below t kb)\<^sup>* `` set res'"
      using "1.IH" [OF False s [symmetric]] by blast
    moreover have "(kb_below t kb)\<^sup>* `` set res' = (kb_below t kb)\<^sup>* `` set res"
    proof
      have "?p \<in> set res"
        using "1.prems"(1) False by auto
      then have "set (kb_children t kb ?p) \<subseteq> (kb_below t kb)\<^sup>* `` set res"
        by (auto simp: kb_below_def intro: r_into_rtrancl)
      then have "set res' \<subseteq> (kb_below t kb)\<^sup>* `` set res"
        unfolding sets by auto
      then show "(kb_below t kb)\<^sup>* `` set res' \<subseteq> (kb_below t kb)\<^sup>* `` set res"
        by (blast intro: rtrancl_trans)
    qed (auto simp: sets)
    ultimately show ?thesis
      using False s by (subst descend.simps) simp
  qed
qed

section \<open>The tree of a knowledge base\<close>

record kb_tree =
  tr_dirs :: "(string, dir_row) od"
  tr_files :: "(file_info \<times> string) list"
  tr_ids :: "(string, string) od"
  tr_paths :: "(string, string) od"

text \<open>\<^verbatim>\<open>_get_dir_path\<close> with its memory: the path of a directory and the paths known then\<close>

fun dir_path :: "nat \<Rightarrow> (string, dir_row) od \<Rightarrow> (string, string) od \<Rightarrow> string \<Rightarrow> (string \<times> (string, string) od) res" where
  "dir_path 0 dm known i = Inl RecursionError"
| "dir_path (Suc n) dm known i =
     (case od_get known i of
        Some path \<Rightarrow> Inr (path, known)
      | None \<Rightarrow> (case od_get dm i of
            None \<Rightarrow> Inr ([], known)
          | Some d \<Rightarrow>
             (case kd_parent d of
                Some p \<Rightarrow>
                  (if p \<noteq> [] \<and> od_has dm p
                   then rbind (dir_path n dm known p) (\<lambda>(pp, known').
                     let path = (if pp \<noteq> [] then pp @ ''/'' @ kd_name d else kd_name d)
                     in Inr (path, od_set i path known'))
                   else Inr (kd_name d, od_set i (kd_name d) known))
              | None \<Rightarrow> Inr (kd_name d, od_set i (kd_name d) known))))"

definition build_directory_tree :: "kb_env \<Rightarrow> string \<Rightarrow> kb_tree res" where
  "build_directory_tree env kb =
     (let dm = foldl (\<lambda>m d. od_set (kd_id d) d m) [] (get_all_directories (ke_tables env) kb) in
      rbind (rfoldM (\<lambda>known i. rmap snd (dir_path (ke_depth env) dm known i)) [] (od_keys dm)) (\<lambda>paths.
      Inr \<lparr>tr_dirs = dm,
           tr_files = map (\<lambda>(f, dir). (file_info_of f dir None None,
               (case dir of
                  Some i \<Rightarrow> (if i \<noteq> [] \<and> od_has paths i then od_getd paths i [] @ ''/'' @ fl_name f else fl_name f)
                | None \<Rightarrow> fl_name f)))
             (get_files_with_directory_ids (ke_tables env) (ke_files env) kb),
           tr_ids = foldl (\<lambda>m (i, path). od_set path i m) [] paths,
           tr_paths = paths\<rparr>))"

definition resolve_path :: "string \<Rightarrow> kb_tree \<Rightarrow> string option" where
  "resolve_path path tree = od_get (tr_ids tree) (strip_slashes path)"

definition get_files_in_dir :: "kb_tree \<Rightarrow> string option \<Rightarrow> (file_info \<times> string) list" where
  "get_files_in_dir tree dir = filter (\<lambda>f. fi_dir (fst f) = dir) (tr_files tree)"

definition get_subdirs :: "kb_tree \<Rightarrow> string option \<Rightarrow> dir_row list" where
  "get_subdirs tree parent = sort_key kd_name (filter (\<lambda>d. kd_parent d = parent) (map snd (tr_dirs tree)))"

text \<open>The loop of \<^verbatim>\<open>_get_files_under_dir\<close>: passes over the directories until one adds nothing\<close>

fun under_pass :: "dir_row list \<Rightarrow> string set \<Rightarrow> string set" where
  "under_pass [] A = A"
| "under_pass (d # ds) A =
     under_pass ds (if \<exists>p. kd_parent d = Some p \<and> p \<in> A then insert (kd_id d) A else A)"

lemma under_pass_mono: "A \<subseteq> under_pass ds A"
proof (induction ds arbitrary: A)
  case (Cons d ds)
  have "A \<subseteq> (if \<exists>p. kd_parent d = Some p \<and> p \<in> A then insert (kd_id d) A else A)"
    by auto
  then show ?case
    using Cons.IH unfolding under_pass.simps by (rule subset_trans)
qed simp

lemma under_pass_ids: "under_pass ds A \<subseteq> A \<union> kd_id ` set ds"
proof (induction ds arbitrary: A)
  case (Cons d ds)
  show ?case
    using Cons.IH [of "insert (kd_id d) A"] Cons.IH [of A] by auto
qed simp

function under_ids :: "dir_row list \<Rightarrow> string set \<Rightarrow> string set" where
  "under_ids ds A = (if under_pass ds A = A then A else under_ids ds (under_pass ds A))"
  by pat_completeness auto
termination
proof (relation "measure (\<lambda>(ds, A). card (kd_id ` set ds - A))", goal_cases)
  case (2 ds A)
  then have "kd_id ` set ds - under_pass ds A \<subset> kd_id ` set ds - A"
    using under_pass_mono [of A ds] under_pass_ids [of ds A] by blast
  then show ?case
    by (auto intro: psubset_card_mono)
qed simp

declare under_ids.simps [simp del]

definition get_files_under_dir :: "kb_tree \<Rightarrow> string \<Rightarrow> (file_info \<times> string) list" where
  "get_files_under_dir tree i =
     (let ids = under_ids (map snd (tr_dirs tree)) {i}
      in filter (\<lambda>f. case fi_dir (fst f) of None \<Rightarrow> False | Some c \<Rightarrow> c \<in> ids) (tr_files tree))"

section \<open>Files by reference\<close>

record resolved_file =
  rv_id :: string
  rv_name :: string
  rv_content :: string
  rv_meta :: pdict
  rv_updated :: "int option"
  rv_created :: "int option"
  rv_kb :: "string option"
  rv_kb_name :: "string option"

datatype resolution = Missing | Ambiguous string | Found resolved_file

definition resolved_of :: "file_row \<Rightarrow> string \<Rightarrow> string option \<Rightarrow> string option \<Rightarrow> resolved_file" where
  "resolved_of f content kb name =
     \<lparr>rv_id = fl_id f, rv_name = fl_name f, rv_content = content, rv_meta = fl_meta f,
      rv_updated = fl_updated f, rv_created = fl_created f, rv_kb = kb, rv_kb_name = name\<rparr>"

text \<open>The stored file of a listed one, where it has data\<close>

definition open_info :: "kb_env \<Rightarrow> file_info \<Rightarrow> resolved_file option" where
  "open_info env fi = (case get_file_by_id (ke_files env) (fi_id fi) of
      None \<Rightarrow> None
    | Some f \<Rightarrow> map_option (\<lambda>c. resolved_of f c (fi_kb fi) (fi_kb_name fi)) (fl_data f))"

text \<open>\<^verbatim>\<open>s.rsplit('/', 1)\<close> of a text with a slash\<close>

definition split_last_slash :: "string \<Rightarrow> string \<times> string" where
  "split_last_slash s = (let parts = py_split CHR ''/'' s in (py_join ''/'' (butlast parts), last parts))"

definition info_kbs :: "kb_env \<Rightarrow> file_info list \<Rightarrow> string list" where
  "info_kbs env fis = ke_order env (dedup (filter (\<lambda>k. k \<noteq> []) (somes (map fi_kb fis))))"

text \<open>The attempt to read the reference as a path, knowledge base by knowledge base\<close>

definition open_path :: "kb_env \<Rightarrow> file_info list \<Rightarrow> string \<Rightarrow> resolved_file option" where
  "open_path env fis ref =
     (let clean = strip_slashes ref in
      if CHR ''/'' \<notin> set clean then None
      else let (dir, name) = split_last_slash clean in
        (case somes (map (\<lambda>kb. case resolve_dir_path (ke_tables env) dir kb of
             None \<Rightarrow> None
           | Some i \<Rightarrow> (case filter (\<lambda>fi. fi_name fi = name \<and> fi_dir fi = Some i) fis of
                 [fi] \<Rightarrow> open_info env fi
               | _ \<Rightarrow> None)) (info_kbs env fis)) of
           [] \<Rightarrow> None
         | r # _ \<Rightarrow> Some r))"

definition open_name :: "kb_env \<Rightarrow> file_info list \<Rightarrow> string \<Rightarrow> resolution" where
  "open_name env fis ref = (case filter (\<lambda>fi. fi_name fi = ref) fis of
      [] \<Rightarrow> Missing
    | [fi] \<Rightarrow> (case open_info env fi of None \<Rightarrow> Missing | Some r \<Rightarrow> Found r)
    | ms \<Rightarrow> Ambiguous (''Ambiguous filename '' @ [CHR 0x22] @ ref @ [CHR 0x22] @ ''. Use full path to disambiguate:'' @ nl
        @ py_join nl (map (\<lambda>m. ''  '' @ fi_id m @ ''  '' @ fi_name m @ ''  ('' @
            (case fi_kb_name m of None \<Rightarrow> ''None'' | Some n \<Rightarrow> n) @ '')'') ms)))"

definition resolve_file :: "kb_env \<Rightarrow> kb_caller \<Rightarrow> attachments \<Rightarrow> string \<Rightarrow> resolution" where
  "resolve_file env user mk ref =
     (let fis = get_accessible_files env user mk None;
          direct = (case get_file_by_id (ke_files env) ref of
              None \<Rightarrow> None | Some f \<Rightarrow> map_option (\<lambda>c. resolved_of f c None None) (fl_data f))
      in case direct of
           Some r \<Rightarrow> (if rv_id r \<in> fi_id ` set fis then Found r else Missing)
         | None \<Rightarrow> (case open_path env fis ref of
               Some r \<Rightarrow> Found r
             | None \<Rightarrow> open_name env fis ref))"

definition get_file_content :: "kb_env \<Rightarrow> string \<Rightarrow> string option" where
  "get_file_content env i = (case get_file_by_id (ke_files env) i of None \<Rightarrow> None | Some f \<Rightarrow> fl_data f)"

section \<open>Texts of the listings\<close>

text \<open>Digits in groups of three, from the last one (the text is reversed)\<close>

fun group3 :: "string \<Rightarrow> string" where
  "group3 (a # b # c # d # r) = a # b # c # CHR '','' # group3 (d # r)"
| "group3 s = s"

definition commas :: "int \<Rightarrow> string" where
  "commas i = (if i < 0 then [CHR ''-''] else []) @ rev (group3 (rev (nat_digits (nat \<bar>i\<bar>))))"

text \<open>\<^verbatim>\<open>f'{v:,}'\<close>\<close>

definition fmt_commas :: "kb_env \<Rightarrow> pv \<Rightarrow> string res" where
  "fmt_commas env v = (case v of
      PInt i \<Rightarrow> Inr (commas i)
    | PBool b \<Rightarrow> Inr (if b then ''1'' else ''0'')
    | PFlt x \<Rightarrow> Inr (ke_float_commas env x)
    | PStr s \<Rightarrow> Inl (ValueError ''Cannot specify , with s.'')
    | _ \<Rightarrow> Inl TypeError)"

definition fmt_size :: "kb_env \<Rightarrow> file_info \<Rightarrow> string res" where
  "fmt_size env fi = (if truthy (fi_size fi) then rmap (\<lambda>s. s @ '' bytes'') (fmt_commas env (fi_size fi)) else Inr [])"

definition fmt_date :: "kb_env \<Rightarrow> file_info \<Rightarrow> string" where
  "fmt_date env fi = (case fi_updated fi of None \<Rightarrow> [] | Some n \<Rightarrow> if n = 0 then [] else ke_date env n)"

definition file_line :: "kb_env \<Rightarrow> file_info \<Rightarrow> string \<Rightarrow> string res" where
  "file_line env fi name = rmap (\<lambda>size. ''  '' @ fi_id fi @ ''  '' @ name @ ''  '' @ size @ ''  '' @ fmt_date env fi) (fmt_size env fi)"

definition kb_header :: "kb_row \<Rightarrow> string" where
  "kb_header k = ''Knowledge Base: '' @ kb_name k @ '' ('' @ kb_id k @ '')'' @ (if kb_desc k \<noteq> [] then nl @ ''  '' @ kb_desc k else [])"

definition quote_text :: "string \<Rightarrow> string" where
  "quote_text s = [CHR 0x22] @ s @ [CHR 0x22]"

definition direct_infos :: "kb_env \<Rightarrow> kb_caller \<Rightarrow> attachments \<Rightarrow> file_info list" where
  "direct_infos env user mk =
     (if attached mk
      then filter (\<lambda>fi. case fi_kb fi of None \<Rightarrow> True | Some i \<Rightarrow> i = []) (get_accessible_files env user mk None)
      else [])"

section \<open>Listing\<close>

definition ls_flat :: "kb_env \<Rightarrow> string \<Rightarrow> string list res" where
  "ls_flat env kb = rbind (build_directory_tree env kb) (\<lambda>tree.
     rbind (rmapM (\<lambda>(fi, path). file_line env fi path) (tr_files tree)) (\<lambda>ls. Inr (ls @ [[]])))"

definition ls_level :: "kb_env \<Rightarrow> kb_caller \<Rightarrow> attachments \<Rightarrow> string option \<Rightarrow> string \<Rightarrow> string list res" where
  "ls_level env user mk path kb =
     (let named = (case path of None \<Rightarrow> None | Some p \<Rightarrow> if p = [] then None else Some p);
          target = (case named of None \<Rightarrow> None | Some p \<Rightarrow> resolve_dir_path (ke_tables env) p kb)
      in case (named, target) of
           (Some p, None) \<Rightarrow> Inr [''  Directory not found: '' @ p, []]
         | _ \<Rightarrow>
            (let subdirs = get_directories (ke_tables env) kb target;
                 files = filter (\<lambda>fi. fi_dir fi = target) (get_accessible_files env user mk (Some kb))
             in rbind (rmapM (\<lambda>fi. file_line env fi (fi_name fi)) files) (\<lambda>ls.
                  Inr ((case named of None \<Rightarrow> [] | Some p \<Rightarrow> [''  Path: '' @ p @ ''/''])
                     @ map (\<lambda>d. ''  '' @ gl_folder (ke_glyphs env) @ '' '' @ kd_name d @ ''/'') subdirs
                     @ ls @ (if subdirs = [] \<and> files = [] then [''  (empty)''] else []) @ [[]]))))"

definition kb_ls :: "kb_env \<Rightarrow> kb_caller \<Rightarrow> attachments \<Rightarrow> string list \<Rightarrow> char set \<Rightarrow> string res" where
  "kb_ls env user mk args flags =
     (let kbs = get_accessible_kbs env user mk None; direct = direct_infos env user mk;
          path_arg = (case args of [] \<Rightarrow> None | a # _ \<Rightarrow> if a = [] then None else Some a);
          target = (case path_arg of None \<Rightarrow> None | Some p \<Rightarrow> if p \<in> kb_id ` set kbs \<and> p \<noteq> [] then Some p else None);
          path = (if target = None then map_option strip_slashes path_arg else None);
          kbs = (case target of None \<Rightarrow> kbs | Some i \<Rightarrow> filter (\<lambda>k. kb_id k = i) kbs)
      in if kbs = [] \<and> direct = [] then Inr ''No knowledge bases found.''
         else rbind (rmapM (\<lambda>k. rmap (\<lambda>ls. kb_header k # ls)
                (if CHR ''a'' \<in> flags then ls_flat env (kb_id k) else ls_level env user mk path (kb_id k))) kbs) (\<lambda>lss.
              rbind (if direct \<noteq> [] \<and> target = None \<and> (path = None \<or> path = Some [])
                     then rmap (\<lambda>ls. ''Attached Files:'' # ls @ [[]]) (rmapM (\<lambda>fi. file_line env fi (fi_name fi)) direct)
                     else Inr []) (\<lambda>ds.
              Inr (py_rstrip (py_join nl (concat lss @ ds))))))"

fun render_tree :: "nat \<Rightarrow> glyphs \<Rightarrow> kb_tree \<Rightarrow> string option \<Rightarrow> string \<Rightarrow> string list res" where
  "render_tree 0 g tree parent prefix = Inl RecursionError"
| "render_tree (Suc n) g tree parent prefix =
     (let entries = map Inl (get_subdirs tree parent) @ map Inr (get_files_in_dir tree parent) in
      rmap concat (rmapM (\<lambda>(k, e).
        let is_last = (Suc k = length entries);
            line = prefix @ (if is_last then gl_last g else gl_mid g);
            child = prefix @ (if is_last then ''    '' else gl_bar g @ ''   '')
        in case e of
             Inl d \<Rightarrow> rmap (\<lambda>ls. (line @ gl_folder g @ '' '' @ kd_name d @ ''/'') # ls)
                        (render_tree n g tree (Some (kd_id d)) child)
           | Inr f \<Rightarrow> Inr [line @ fi_name (fst f)])
        (zip [0..<length entries] entries)))"

definition tree_lines :: "kb_env \<Rightarrow> string option \<Rightarrow> kb_row \<Rightarrow> string list res" where
  "tree_lines env scope k =
     rbind (build_directory_tree env (kb_id k)) (\<lambda>tree.
       let named = (case scope of None \<Rightarrow> None | Some p \<Rightarrow> if p = [] then None else Some p);
           root = (case named of None \<Rightarrow> None | Some p \<Rightarrow> resolve_path p tree)
       in case (named, root) of
            (Some p, None) \<Rightarrow> Inr [kb_header k, ''  Directory not found: '' @ p, []]
          | _ \<Rightarrow> rbind (render_tree (ke_depth env) (ke_glyphs env) tree root ''  '') (\<lambda>ls.
              Inr (kb_header k # (case named of None \<Rightarrow> [] | Some p \<Rightarrow> [''  '' @ p @ ''/''])
                @ ls @ [nl @ ''  '' @ nat_digits (length (tr_dirs tree)) @ '' directories, ''
                          @ nat_digits (length (tr_files tree)) @ '' files'', []])))"

definition kb_tree_cmd :: "kb_env \<Rightarrow> kb_caller \<Rightarrow> attachments \<Rightarrow> string list \<Rightarrow> string res" where
  "kb_tree_cmd env user mk args =
     (let kbs = get_accessible_kbs env user mk None; direct = direct_infos env user mk;
          scope = (case args of [] \<Rightarrow> None | a # _ \<Rightarrow> Some (strip_slashes a)); g = ke_glyphs env
      in if kbs = [] \<and> direct = [] then Inr ''No knowledge bases found.''
         else rbind (rmapM (tree_lines env scope) kbs) (\<lambda>lss.
           Inr (py_rstrip (py_join nl (concat lss @
             (if direct \<noteq> [] \<and> (scope = None \<or> scope = Some [])
              then ''Attached Files:'' # map (\<lambda>(k, fi). ''  '' @ (if Suc k = length direct then gl_last g else gl_mid g) @ fi_name fi)
                     (zip [0..<length direct] direct)
                   @ [nl @ ''  0 directories, '' @ nat_digits (length direct) @ '' files'', []]
              else []))))))"

section \<open>Reading files\<close>

definition not_found :: "string \<Rightarrow> string" where
  "not_found ref = ''File not found: '' @ ref"

text \<open>The commands on one file: \<open>go\<close> makes the text of a file that is found.\<close>

definition on_file ::
  "kb_env \<Rightarrow> kb_caller \<Rightarrow> attachments \<Rightarrow> string \<Rightarrow> string list \<Rightarrow> (resolved_file \<Rightarrow> string res) \<Rightarrow> string res" where
  "on_file env user mk usage args go = (case args of
      [] \<Rightarrow> Inr usage
    | ref # _ \<Rightarrow> (case resolve_file env user mk ref of
          Missing \<Rightarrow> Inr (not_found ref)
        | Ambiguous e \<Rightarrow> Inr e
        | Found r \<Rightarrow> go r))"

definition lines_of :: "string \<Rightarrow> string list" where
  "lines_of s = py_split CHR 0x0A s"

definition numbered :: "string list \<Rightarrow> (nat \<times> string) list" where
  "numbered ls = zip [1..<Suc (length ls)] ls"

definition max_cat_chars :: nat where
  "max_cat_chars = 100000"

definition kb_cat :: "kb_env \<Rightarrow> kb_caller \<Rightarrow> attachments \<Rightarrow> string list \<Rightarrow> char set \<Rightarrow> string res" where
  "kb_cat env user mk args flags =
     on_file env user mk ''Usage: cat [-n] <file_id or filename>'' args (\<lambda>r.
       let truncated = max_cat_chars < length (rv_content r);
           content = take max_cat_chars (rv_content r);
           shown = (if CHR ''n'' \<in> flags
             then py_join nl (map (\<lambda>(i, line). nat_digits i @ '': '' @ line) (numbered (lines_of content)))
             else content)
       in Inr (shown @ (if truncated
            then nl @ ''[truncated at 100,000 chars '' @ gl_dash (ke_glyphs env) @ '' use head/tail/sed/grep to navigate]''
            else [])))"

definition default_lines :: nat where
  "default_lines = 10"

definition kb_head :: "kb_env \<Rightarrow> kb_caller \<Rightarrow> attachments \<Rightarrow> string list \<Rightarrow> string option \<Rightarrow> string res" where
  "kb_head env user mk args piped =
     (let (num, rest) = extract_numeric_flag args; n = (case num of None \<Rightarrow> default_lines | Some n \<Rightarrow> n) in
      case piped of
        Some s \<Rightarrow> Inr (py_join nl (take n (lines_of s)))
      | None \<Rightarrow> on_file env user mk ''Usage: head [-N] <file>'' rest (\<lambda>r.
          let ls = lines_of (rv_content r) in
          Inr (py_join nl (take n ls) @ (if n < length ls
            then nl @ ''[showing '' @ nat_digits n @ '' of '' @ nat_digits (length ls) @ '' lines]'' else []))))"

definition kb_tail :: "kb_env \<Rightarrow> kb_caller \<Rightarrow> attachments \<Rightarrow> string list \<Rightarrow> string option \<Rightarrow> string res" where
  "kb_tail env user mk args piped =
     (let (num, rest) = extract_numeric_flag args; n = (case num of None \<Rightarrow> default_lines | Some n \<Rightarrow> n) in
      case piped of
        Some s \<Rightarrow> Inr (py_join nl (last_n n (lines_of s)))
      | None \<Rightarrow> on_file env user mk ''Usage: tail [-N] <file>'' rest (\<lambda>r.
          let ls = lines_of (rv_content r) in
          Inr (py_join nl (last_n n ls) @ (if n < length ls
            then nl @ ''[showing last '' @ nat_digits n @ '' of '' @ nat_digits (length ls) @ '' lines]'' else []))))"

definition count_lines :: "string \<Rightarrow> nat" where
  "count_lines s = length (filter (\<lambda>c. c = CHR 0x0A) s) + (if s \<noteq> [] \<and> last s \<noteq> CHR 0x0A then 1 else 0)"

definition kb_wc :: "kb_env \<Rightarrow> kb_caller \<Rightarrow> attachments \<Rightarrow> string list \<Rightarrow> char set \<Rightarrow> string option \<Rightarrow> string res" where
  "kb_wc env user mk args flags piped =
     (let counts = (\<lambda>s. ''  '' @ nat_digits (count_lines s) @ ''  '' @ nat_digits (length (py_words s)) @ ''  '' @ nat_digits (length s)) in
      case piped of
        Some s \<Rightarrow> Inr (if CHR ''l'' \<in> flags then nat_digits (count_lines s) else counts s)
      | None \<Rightarrow> on_file env user mk ''Usage: wc [-l] <file>'' args (\<lambda>r.
          Inr (if CHR ''l'' \<in> flags then ''  '' @ nat_digits (count_lines (rv_content r)) @ ''  '' @ rv_name r
               else counts (rv_content r) @ ''  '' @ rv_name r)))"

definition stamp_line :: "(int \<Rightarrow> string) \<Rightarrow> string \<Rightarrow> int option \<Rightarrow> string list" where
  "stamp_line f label v = (case v of None \<Rightarrow> [] | Some n \<Rightarrow> if n = 0 then [] else [label @ f n])"

definition kb_stat :: "kb_env \<Rightarrow> kb_caller \<Rightarrow> attachments \<Rightarrow> string list \<Rightarrow> string res" where
  "kb_stat env user mk args =
     on_file env user mk ''Usage: stat <file>'' args (\<lambda>r.
       let chars = length (rv_content r);
           num = (\<lambda>n. commas (int n))
       in rbind (fmt_commas env (od_getd (rv_meta r) ''size'' (PInt (int chars)))) (\<lambda>size.
            Inr (py_join nl ([''  File: '' @ rv_name r, ''    ID: '' @ rv_id r, ''  Size: '' @ size @ '' bytes'',
                ''  Type: '' @ py_str (ke_float env) (od_getd (rv_meta r) ''content_type'' (PStr ''unknown'')),
                '' Lines: '' @ num (count_lines (rv_content r)), '' Words: '' @ num (length (py_words (rv_content r))),
                '' Chars: '' @ num chars]
              @ stamp_line (ke_time env) ''  Created: '' (rv_created r)
              @ stamp_line (ke_time env) ''  Updated: '' (rv_updated r)
              @ (case rv_kb_name r of None \<Rightarrow> [] | Some name \<Rightarrow> if name = [] then []
                 else [''      KB: '' @ name @ '' ('' @ (case rv_kb r of None \<Rightarrow> ''None'' | Some i \<Rightarrow> i) @ '')''])))))"

text \<open>\<^verbatim>\<open>^'?(\d+),(\d+)p?'?$\<close>, the quotes only where \<open>q\<close> says so\<close>

definition drop_one :: "char \<Rightarrow> string \<Rightarrow> string" where
  "drop_one c s = (case s of [] \<Rightarrow> [] | x # r \<Rightarrow> if x = c then r else s)"

definition sed_range :: "bool \<Rightarrow> string \<Rightarrow> (nat \<times> nat) option" where
  "sed_range q s =
     Option.bind (after_digits (if q then drop_one CHR 0x27 s else s)) (\<lambda>(a, r).
     Option.bind (after_text False '','' r) (\<lambda>r. Option.bind (after_digits r) (\<lambda>(b, r).
       let r = drop_one CHR ''p'' r; r = (if q then drop_one CHR 0x27 r else r)
       in if r = [] \<or> r = nl then Some (digits_val a, digits_val b) else None)))"

definition line_range :: "nat \<Rightarrow> nat \<Rightarrow> 'a list \<Rightarrow> 'a list" where
  "line_range start end xs = drop (start - 1) (take end xs)"

definition kb_sed :: "kb_env \<Rightarrow> kb_caller \<Rightarrow> attachments \<Rightarrow> string list \<Rightarrow> char set \<Rightarrow> string option \<Rightarrow> string res" where
  "kb_sed env user mk args flags piped = (case piped of
      Some s \<Rightarrow>
        (let range = (case args of [] \<Rightarrow> None | a # _ \<Rightarrow> if CHR ''n'' \<in> flags then sed_range False a else None)
         in Inr (py_join nl (case range of
              None \<Rightarrow> lines_of s
            | Some (a, b) \<Rightarrow> line_range a (if b = 0 then length (lines_of s) else b) (lines_of s))))
    | None \<Rightarrow>
        (let ranges = filter (\<lambda>a. sed_range True a \<noteq> None) args; refs = filter (\<lambda>a. sed_range True a = None) args
         in if ranges = [] \<or> last ranges = [] \<or> refs = [] \<or> last refs = []
            then Inr (''Usage: sed -n '' @ [CHR 0x27] @ ''40,60p'' @ [CHR 0x27] @ '' <file>'')
            else (case sed_range True (last ranges) of
                None \<Rightarrow> Inl AttributeError
              | Some (a, b) \<Rightarrow>
                  (if b < a then Inr (''Invalid range: start ('' @ nat_digits a @ '') > end ('' @ nat_digits b @ '')'')
                   else on_file env user mk [] [last refs] (\<lambda>r.
                     let ls = lines_of (rv_content r) in
                     Inr (py_join nl (line_range a b ls) @ nl @ ''[lines '' @ nat_digits a @ ''-''
                        @ nat_digits (min b (length ls)) @ '' of '' @ nat_digits (length ls) @ '']''))))))"

section \<open>Searching\<close>

text \<open>\<^verbatim>\<open>s.split(sep)\<close> for a text \<open>sep\<close>\<close>

fun scan_parts :: "(char + unit) list \<Rightarrow> string list" where
  "scan_parts [] = [[]]"
| "scan_parts (Inl c # r) = (case scan_parts r of [] \<Rightarrow> [[c]] | w # ws \<Rightarrow> (c # w) # ws)"
| "scan_parts (Inr u # r) = [] # scan_parts r"

definition split_on :: "string \<Rightarrow> string \<Rightarrow> string list" where
  "split_on sep s = scan_parts (scan (text_at sep) s)"

text \<open>The two characters that the program writes for a line feed in some of its texts\<close>

definition raw_nl :: string where
  "raw_nl = [CHR 0x5C, CHR ''n'']"

definition matching_lines :: "(string \<Rightarrow> bool) \<Rightarrow> string list \<Rightarrow> string list" where
  "matching_lines m ls = map (\<lambda>(i, line). nat_digits i @ '': '' @ line) (filter (\<lambda>(i, line). m line) (numbered ls))"

definition no_matches :: "string \<Rightarrow> string" where
  "no_matches pattern = ''No matches for '' @ quote_text pattern"

record grep_args =
  ga_ext :: string
  ga_scope :: string
  ga_file :: string

text \<open>The arguments after the pattern; the empty text is one that was not given.\<close>

definition grep_arg :: "grep_args \<Rightarrow> string \<Rightarrow> grep_args" where
  "grep_arg g arg =
     (if CHR ''*'' \<in> set arg \<or> py_startswith arg ''.''
      then g\<lparr>ga_ext := dropWhile (\<lambda>c. c = CHR ''.'') (dropWhile (\<lambda>c. c = CHR ''*'') arg)\<rparr>
      else if py_endswith arg ''/'' then g\<lparr>ga_scope := strip_slashes arg\<rparr>
      else g\<lparr>ga_file := arg\<rparr>)"

definition max_grep_files :: nat where
  "max_grep_files = 200"

definition max_grep_matches :: nat where
  "max_grep_matches = 50"

text \<open>The files below a directory of that path in any of the knowledge bases\<close>

definition scope_ids :: "kb_env \<Rightarrow> file_info list \<Rightarrow> string \<Rightarrow> string list" where
  "scope_ids env fis scope =
     concat (map (\<lambda>kb. case resolve_dir_path (ke_tables env) scope kb of
         None \<Rightarrow> []
       | Some i \<Rightarrow> if i = [] then [] else get_descendant_dir_ids (ke_tables env) i kb) (info_kbs env fis))"

definition in_scope :: "string list \<Rightarrow> file_info list \<Rightarrow> file_info list" where
  "in_scope ids fis = filter (\<lambda>fi. case fi_dir fi of None \<Rightarrow> False | Some i \<Rightarrow> i \<in> set ids) fis"

text \<open>The numbered matches of each file that has some\<close>

definition file_matches :: "kb_env \<Rightarrow> (string \<Rightarrow> bool) \<Rightarrow> file_info list \<Rightarrow> (file_info \<times> (nat \<times> string) list) list" where
  "file_matches env m fis = filter (\<lambda>fm. snd fm \<noteq> []) (map (\<lambda>fi. (fi,
     (case get_file_by_id (ke_files env) (fi_id fi) of
        None \<Rightarrow> []
      | Some f \<Rightarrow> (case fl_data f of
            None \<Rightarrow> []
          | Some c \<Rightarrow> if c = [] then [] else filter (\<lambda>(i, line). m line) (numbered (lines_of c)))))) fis)"

definition grep_output :: "char set \<Rightarrow> string \<Rightarrow> nat \<Rightarrow> (file_info \<times> (nat \<times> string) list) list \<Rightarrow> string" where
  "grep_output flags pattern n fms =
     (let total = sum_list (map (\<lambda>fm. length (snd fm)) fms);
          label = (\<lambda>fi. fi_id fi @ ''  '' @ fi_name fi) in
      if CHR ''c'' \<in> flags
      then (if fms = [] then no_matches pattern
            else py_join nl (map (\<lambda>(fi, ms). label fi @ '': '' @ nat_digits (length ms)) fms
              @ [''Total: '' @ nat_digits total @ '' matches in '' @ nat_digits (length fms) @ '' files'']))
      else if CHR ''l'' \<in> flags
      then (if fms = [] then no_matches pattern else py_join nl (map (\<lambda>(fi, ms). label fi) fms))
      else (let results = take max_grep_matches (concat (map (\<lambda>(fi, ms).
                map (\<lambda>(i, line). label fi @ '':'' @ nat_digits i @ '': '' @ py_rstrip line) ms) fms)) in
            if results = [] then no_matches pattern @ '' across '' @ nat_digits n @ '' files''
            else py_join nl results @ (if max_grep_matches < total
              then nl @ ''[showing 50 of '' @ nat_digits total @ '' matches]'' else [])))"

definition grep_files ::
  "kb_env \<Rightarrow> kb_caller \<Rightarrow> attachments \<Rightarrow> char set \<Rightarrow> string \<Rightarrow> (string \<Rightarrow> bool) \<Rightarrow> string \<Rightarrow> string \<Rightarrow> string res" where
  "grep_files env user mk flags pattern m scope ext =
     (let fis = get_accessible_files env user mk None; ids = scope_ids env fis scope;
          none = ''No files found under '' @ quote_text (scope @ ''/'');
          scoped = (if scope = [] then fis else in_scope ids fis) in
      if scope \<noteq> [] \<and> (ids = [] \<or> scoped = []) then Inr none
      else let chosen = (if ext = [] then scoped else filter (\<lambda>fi. py_endswith (fi_name fi) (CHR ''.'' # ext)) scoped) in
        if max_grep_files < length chosen
        then Inr (''Too many files ('' @ nat_digits (length chosen) @ ''). Scope your search: grep '' @ quote_text pattern
          @ '' docs/ or grep '' @ quote_text pattern @ '' *.py'')
        else Inr (grep_output flags pattern (length chosen) (file_matches env m chosen)))"

definition grep_one :: "char set \<Rightarrow> string \<Rightarrow> (string \<Rightarrow> bool) \<Rightarrow> resolved_file \<Rightarrow> string" where
  "grep_one flags pattern m r =
     (let matched = matching_lines m (split_on raw_nl (rv_content r)); label = rv_id r @ ''  '' @ rv_name r in
      if CHR ''c'' \<in> flags then label @ '': '' @ nat_digits (length matched)
      else if CHR ''l'' \<in> flags then (if matched = [] then no_matches pattern else label)
      else if matched = [] then no_matches pattern @ '' in '' @ rv_name r
      else py_join raw_nl matched)"

definition kb_grep ::
  "kb_env \<Rightarrow> kb_caller \<Rightarrow> attachments \<Rightarrow> string list \<Rightarrow> char set \<Rightarrow> string option \<Rightarrow> string res" where
  "kb_grep env user mk args flags piped = (case args of
      [] \<Rightarrow> Inr (''Usage: grep [-E] [-i] [-l] [-c] '' @ quote_text ''pattern'' @ '' [file] [*.ext]'')
    | pattern # rest \<Rightarrow>
        (let g = foldl grep_arg \<lparr>ga_ext = [], ga_scope = [], ga_file = []\<rparr> rest in
         case build_matcher (ke_regex env) pattern (CHR ''i'' \<in> flags) (CHR ''E'' \<in> flags) of
           Inl err \<Rightarrow> Inr err
         | Inr m \<Rightarrow>
            (case piped of
               Some s \<Rightarrow> (let matched = matching_lines m (split_on raw_nl s)
                 in Inr (if matched = [] then no_matches pattern else py_join raw_nl matched))
             | None \<Rightarrow>
                (if ga_file g \<noteq> [] \<and> ga_scope g = []
                 then (case resolve_file env user mk (ga_file g) of
                     Missing \<Rightarrow> grep_files env user mk flags pattern m (ga_file g) (ga_ext g)
                   | Ambiguous e \<Rightarrow> Inr e
                   | Found r \<Rightarrow> Inr (grep_one flags pattern m r))
                 else grep_files env user mk flags pattern m (ga_scope g) (ga_ext g)))))"

definition kb_find :: "kb_env \<Rightarrow> kb_caller \<Rightarrow> attachments \<Rightarrow> string list \<Rightarrow> string res" where
  "kb_find env user mk args = (case args of
      [] \<Rightarrow> Inr (''Usage: find '' @ quote_text ''*.md'' @ '' or find docs/ '' @ quote_text ''*.md'')
    | a # rest \<Rightarrow>
        (let scoped = (rest \<noteq> [] \<and> (CHR ''/'' \<in> set a \<or> \<not> (CHR ''*'' \<in> set a \<or> CHR ''?'' \<in> set a)));
             scope = (if scoped then strip_slashes a else []);
             pattern = (if scoped then hd rest else a);
             fis = get_accessible_files env user mk None;
             chosen = (if scope = [] then fis else in_scope (scope_ids env fis scope) fis);
             matched = filter (\<lambda>fi. fn_match pattern (fi_name fi)) chosen
         in Inr (if matched = []
              then ''No files matching '' @ quote_text pattern @ (if scope = [] then [] else '' under '' @ quote_text (scope @ ''/''))
              else py_join nl (map (\<lambda>fi. fi_id fi @ ''  '' @ fi_name fi @
                (case fi_kb_name fi of None \<Rightarrow> [] | Some n \<Rightarrow> if n = [] then [] else '' ('' @ n @ '')'')) matched))))"

section \<open>Running a command line\<close>

definition command_names :: "string list" where
  "command_names = [''ls'', ''cat'', ''head'', ''tail'', ''grep'', ''find'', ''wc'', ''stat'', ''sed'', ''tree'']"

definition run_command ::
  "kb_env \<Rightarrow> kb_caller \<Rightarrow> attachments \<Rightarrow> string \<Rightarrow> string list \<Rightarrow> char set \<Rightarrow> string option \<Rightarrow> string res" where
  "run_command env user mk name args flags piped =
     (if name = ''ls'' then kb_ls env user mk args flags
      else if name = ''cat'' then kb_cat env user mk args flags
      else if name = ''head'' then kb_head env user mk args piped
      else if name = ''tail'' then kb_tail env user mk args piped
      else if name = ''grep'' then kb_grep env user mk args flags piped
      else if name = ''find'' then kb_find env user mk args
      else if name = ''wc'' then kb_wc env user mk args flags piped
      else if name = ''stat'' then kb_stat env user mk args
      else if name = ''sed'' then kb_sed env user mk args flags piped
      else kb_tree_cmd env user mk args)"

definition unknown_command :: "string \<Rightarrow> string" where
  "unknown_command name = ''Unknown command: '' @ name @ ''. Available: cat, find, grep, head, ls, sed, stat, tail, tree, wc''"

fun execute_pipeline ::
  "kb_env \<Rightarrow> kb_caller \<Rightarrow> attachments \<Rightarrow> string list list \<Rightarrow> string option \<Rightarrow> string res" where
  "execute_pipeline env user mk [] piped = Inr (case piped of None \<Rightarrow> [] | Some s \<Rightarrow> s)"
| "execute_pipeline env user mk (tokens # segs) piped =
     (let name = py_lower (hd tokens); (flags, args) = extract_flags (tl tokens) in
      if name \<notin> set command_names then Inr (unknown_command name)
      else rbind (run_command env user mk name args flags piped) (\<lambda>out. execute_pipeline env user mk segs (Some out)))"

definition kb_exec :: "kb_env \<Rightarrow> kb_caller option \<Rightarrow> attachments \<Rightarrow> string \<Rightarrow> string" where
  "kb_exec env user mk command = (case user of
      None \<Rightarrow> ''Error: User context not available''
    | Some u \<Rightarrow>
       (if py_strip command = []
        then ''Usage: kb_exec('' @ quote_text ''<command>'' @ ''). Run kb_exec('' @ quote_text ''ls'' @ '') to start.''
        else let segs = parse_pipeline (py_strip command) in
          if segs = [] then ''Could not parse command. Run kb_exec('' @ quote_text ''ls'' @ '') to start.''
          else (case execute_pipeline env u mk segs None of
              Inl e \<Rightarrow> ''Error: '' @ ke_error env e
            | Inr s \<Rightarrow> s)))"

section \<open>What the walks and searches find\<close>

text \<open>The worklist ends on every table, cycles of parents included, with the directory and everything
  below it in the knowledge base.
\<close>

theorem descendants_exact: "set (get_descendant_dir_ids t i kb) = (kb_below t kb)\<^sup>* `` {i}"
  unfolding get_descendant_dir_ids_def by (subst descend_exact) auto

lemma split_on_raw_nl:
  assumes "CHR 0x5C \<notin> set s"
  shows "split_on raw_nl s = [s]"
proof -
  have parts: "scan_parts (map Inl t) = [t]" for t
    by (induction t) simp_all
  have "text_at raw_nl (drop i s) = None" if "i < length s" for i
  proof -
    have "hd (drop i s) \<in> set s" "drop i s \<noteq> []"
      using that in_set_dropD [of "hd (drop i s)" i s] by (auto intro: hd_in_set)
    then show ?thesis
      using assms by (cases "drop i s") (auto simp: text_at_def raw_nl_def py_startswith_def)
  qed
  then show ?thesis
    using scan_none [of s "text_at raw_nl"] by (simp add: split_on_def parts)
qed

text \<open>
  The search in one file cuts its content at a backslash followed by the letter n, which stand
  doubled in the program's text, and not at its line feeds: without a backslash in it, the whole
  content is line 1, and a match shows all of it. The search over several files cuts at line feeds.
\<close>

theorem one_file_grep_shows_all:
  assumes "CHR 0x5C \<notin> set (rv_content r)" and "m (rv_content r)"
  shows "grep_one {} pattern m r = ''1: '' @ rv_content r"
proof -
  have "nat_digits 1 = ''1''"
    by code_simp
  then show ?thesis
    using assms split_on_raw_nl [OF assms(1)]
    by (simp add: grep_one_def matching_lines_def numbered_def)
qed

theorem one_file_grep_shows_all_witness:
  "grep_one {} ''b'' (\<lambda>s. CHR ''b'' \<in> set s) \<lparr>rv_id = ''f'', rv_name = ''n'', rv_content = ''a'' @ nl @ ''b'' @ nl @ ''c'', rv_meta = [],
     rv_updated = None, rv_created = None, rv_kb = None, rv_kb_name = None\<rparr> = ''1: a'' @ nl @ ''b'' @ nl @ ''c''"
  by (subst one_file_grep_shows_all) (simp_all add: nl_def)

end
