(* ===== verification/Kb_Access.thy ===== *)
theory Kb_Access
  imports Kb_Shell
begin

text \<open>
  What the commands over knowledge bases reveal: only files that the user may read or that are
  attached to the model, and nothing of the content of others.
\<close>

section \<open>Files out of reach\<close>

text \<open>A row that may differ, where its id is none of \<open>A\<close>: it keeps its id and that it has data or none.\<close>

definition same_for :: "string set \<Rightarrow> file_row \<Rightarrow> file_row \<Rightarrow> bool" where
  "same_for A f g = (g = f \<or> (fl_id f \<notin> A \<and> fl_id g = fl_id f \<and> (fl_data g = None) = (fl_data f = None)))"

lemma same_for_id: "same_for A f g \<Longrightarrow> fl_id g = fl_id f"
  by (auto simp: same_for_def)

lemma get_file_id: "get_file_by_id fs i = Some f \<Longrightarrow> f \<in> set fs \<and> fl_id f = i"
  unfolding get_file_by_id_def by (auto simp: find_Some_iff)

lemma get_file_same:
  assumes "list_all2 (same_for A) fs gs"
  shows "rel_option (same_for A) (get_file_by_id fs i) (get_file_by_id gs i)"
  using assms unfolding get_file_by_id_def
  by (induction rule: list_all2_induct) (auto dest: same_for_id)

text \<open>A file that is found under an id of \<open>A\<close>, and one that is not found, are as before.\<close>

lemma get_file_unchanged:
  assumes "list_all2 (same_for A) fs gs" and "\<And>f. get_file_by_id fs i = Some f \<Longrightarrow> i \<in> A"
  shows "get_file_by_id gs i = get_file_by_id fs i"
proof (cases "get_file_by_id fs i")
  case None
  then show ?thesis
    using get_file_same [OF assms(1), of i] by simp
next
  case (Some f)
  then obtain g where g: "get_file_by_id gs i = Some g" "same_for A f g"
    using get_file_same [OF assms(1), of i] by (auto simp: option_rel_Some1)
  then show ?thesis
    using get_file_id [OF Some] assms(2) [OF Some] Some by (auto simp: same_for_def)
qed

lemma linked_file:
  "(f, dir) \<in> set (get_files_with_directory_ids t fs kb) \<longleftrightarrow>
    (\<exists>l\<in>set (kt_links t). kf_kb l = kb \<and> kf_dir l = dir \<and> get_file_by_id fs (kf_file l) = Some f)"
  unfolding get_files_with_directory_ids_def by (auto split: option.splits)

lemma linked_id:
  "(f, dir) \<in> set (get_files_with_directory_ids t fs kb) \<Longrightarrow> \<exists>l\<in>set (kt_links t). kf_kb l = kb \<and> kf_file l = fl_id f"
  unfolding linked_file by (metis get_file_id)

lemma linked_files_same:
  assumes "list_all2 (same_for A) fs gs" and "\<And>f dir. (f, dir) \<in> set (get_files_with_directory_ids t fs kb) \<Longrightarrow> fl_id f \<in> A"
  shows "get_files_with_directory_ids t gs kb = get_files_with_directory_ids t fs kb"
proof -
  have "get_file_by_id gs (kf_file l) = get_file_by_id fs (kf_file l)" if "l \<in> set (filter (\<lambda>l. kf_kb l = kb) (kt_links t))" for l
  proof (rule get_file_unchanged [OF assms(1)])
    fix f assume f: "get_file_by_id fs (kf_file l) = Some f"
    then have "(f, kf_dir l) \<in> set (get_files_with_directory_ids t fs kb)"
      using that unfolding linked_file by auto
    then show "kf_file l \<in> A"
      using assms(2) get_file_id [OF f] by metis
  qed
  then show ?thesis
    unfolding get_files_with_directory_ids_def
    by (intro arg_cong [where f = concat] map_cong [OF refl]) (rule arg_cong [where f = "case_option [] _"])
qed

section \<open>The commands do not see what is out of reach\<close>

definition with_files :: "kb_env \<Rightarrow> file_row list \<Rightarrow> kb_env" where
  "with_files env gs = env\<lparr>ke_files := gs\<rparr>"

lemma with_files_fields [simp]:
  "ke_tables (with_files env gs) = ke_tables env" "ke_files (with_files env gs) = gs"
  "ke_groups (with_files env gs) = ke_groups env" "ke_grants (with_files env gs) = ke_grants env"
  "ke_order (with_files env gs) = ke_order env" "ke_regex (with_files env gs) = ke_regex env"
  "ke_float (with_files env gs) = ke_float env" "ke_float_commas (with_files env gs) = ke_float_commas env"
  "ke_date (with_files env gs) = ke_date env" "ke_time (with_files env gs) = ke_time env"
  "ke_error (with_files env gs) = ke_error env" "ke_glyphs (with_files env gs) = ke_glyphs env"
  "ke_depth (with_files env gs) = ke_depth env"
  by (simp_all add: with_files_def)

lemma accessible_kbs_no_files [simp]: "get_accessible_kbs (with_files env gs) user mk kid = get_accessible_kbs env user mk kid"
proof -
  have "kb_has_access (with_files env gs) = kb_has_access env"
    by (simp add: kb_has_access_def fun_eq_iff)
  then have "kb_readable (with_files env gs) = kb_readable env"
    by (intro ext) (simp add: kb_readable_def split: option.split)
  note r = this
  show ?thesis
    unfolding get_accessible_kbs_def kb_search_def with_files_fields r ..
qed

lemma line_no_files [simp]:
  "file_line (with_files env gs) = file_line env" "fmt_commas (with_files env gs) = fmt_commas env"
  "info_kbs (with_files env gs) = info_kbs env" "scope_ids (with_files env gs) = scope_ids env"
proof -
  show c: "fmt_commas (with_files env gs) = fmt_commas env"
    by (intro ext) (simp add: fmt_commas_def split: pv.split)
  then have "fmt_size (with_files env gs) = fmt_size env" "fmt_date (with_files env gs) = fmt_date env"
    unfolding fmt_size_def fmt_date_def with_files_fields by (simp_all only: fun_eq_iff simp_thms)
  then show "file_line (with_files env gs) = file_line env"
    by (simp add: file_line_def fun_eq_iff)
  show i: "info_kbs (with_files env gs) = info_kbs env"
    by (simp add: info_kbs_def fun_eq_iff)
  show "scope_ids (with_files env gs) = scope_ids env"
    unfolding scope_ids_def i with_files_fields ..
qed

definition reach_ids :: "kb_env \<Rightarrow> kb_caller \<Rightarrow> attachments \<Rightarrow> string set" where
  "reach_ids env user mk = fi_id ` set (get_accessible_files env user mk None)"

lemma reach_linked:
  assumes "k \<in> set (get_accessible_kbs env user mk None)"
    and "(f, dir) \<in> set (get_files_with_directory_ids (ke_tables env) (ke_files env) (kb_id k))"
  shows "fl_id f \<in> reach_ids env user mk"
proof -
  have "file_info_of f dir (Some (kb_id k)) (Some (kb_name k)) \<in> set (get_accessible_files env user mk None)"
    using assms unfolding get_accessible_files_def by force
  then show ?thesis
    unfolding reach_ids_def by (rule rev_image_eqI) (simp add: file_info_of_def)
qed

lemma reach_single:
  assumes "attached mk" and "j \<in> set (ke_order env (attached_ids ''file'' mk))" and "get_file_by_id (ke_files env) j = Some f"
  shows "j \<in> reach_ids env user mk"
proof -
  have "file_info_of f None None None \<in> set (get_accessible_files env user mk None)"
    using assms unfolding get_accessible_files_def by force
  then show ?thesis
    unfolding reach_ids_def by (rule rev_image_eqI) (simp add: file_info_of_def get_file_id [OF assms(3)])
qed

lemma kb_readable_access:
  assumes "k \<in> set (kb_readable env user i)"
  shows "k \<in> set (kt_bases (ke_tables env)) \<and> kb_has_access env user k \<and> kb_id k = i"
  using assms unfolding kb_readable_def get_knowledge_by_id_def
  by (auto dest!: sym [of "Some _"] simp: find_Some_iff split: option.splits if_splits)

text \<open>The knowledge bases that are asked for one by one are among those of the whole list.\<close>

lemma accessible_one:
  assumes "k \<in> set (get_accessible_kbs env user mk kid)" and "case kid of None \<Rightarrow> True | Some i \<Rightarrow> i \<in> kb_id ` set (get_accessible_kbs env user mk None)"
  shows "\<exists>k'\<in>set (get_accessible_kbs env user mk None). kb_id k' = kb_id k"
proof (cases "case kid of None \<Rightarrow> True | Some i \<Rightarrow> i = []")
  case True
  then have "get_accessible_kbs env user mk kid = get_accessible_kbs env user mk None"
    unfolding get_accessible_kbs_def by (cases kid) simp_all
  then show ?thesis
    using assms(1) by auto
next
  case False
  then obtain i where "kid = Some i" "i \<noteq> []"
    by (cases kid) auto
  moreover from this have "k \<in> set (kb_readable env user i)"
    using assms(1) unfolding get_accessible_kbs_def Let_def option.case
    by (auto split: if_splits)
  ultimately show ?thesis
    using assms(2) kb_readable_access by fastforce
qed

lemma accessible_files_same:
  assumes same: "list_all2 (same_for (reach_ids env user mk)) (ke_files env) gs"
    and kid: "case kid of None \<Rightarrow> True | Some i \<Rightarrow> i \<in> kb_id ` set (get_accessible_kbs env user mk None)"
  shows "get_accessible_files (with_files env gs) user mk kid = get_accessible_files env user mk kid"
proof -
  have "get_files_with_directory_ids (ke_tables env) gs (kb_id k) = get_files_with_directory_ids (ke_tables env) (ke_files env) (kb_id k)"
    if k: "k \<in> set (get_accessible_kbs env user mk kid)" for k
    by (rule linked_files_same [OF same]) (metis accessible_one [OF k kid] reach_linked)
  moreover have "get_file_by_id gs j = get_file_by_id (ke_files env) j"
    if "attached mk" "j \<in> set (ke_order env (attached_ids ''file'' mk))" for j
    by (rule get_file_unchanged [OF same]) (rule reach_single [OF that])
  ultimately show ?thesis
    unfolding get_accessible_files_def by (simp cong: map_cong)
qed

lemmas all_files_same = accessible_files_same [where kid = None, simplified]

lemma directory_tree_same:
  assumes same: "list_all2 (same_for (reach_ids env user mk)) (ke_files env) gs"
    and k: "k \<in> set (get_accessible_kbs env user mk None)"
  shows "build_directory_tree (with_files env gs) (kb_id k) = build_directory_tree env (kb_id k)"
proof -
  have "get_files_with_directory_ids (ke_tables env) gs (kb_id k) = get_files_with_directory_ids (ke_tables env) (ke_files env) (kb_id k)"
    by (rule linked_files_same [OF same]) (rule reach_linked [OF k])
  then show ?thesis
    unfolding build_directory_tree_def with_files_fields by (simp only:)
qed

lemma filter_single: "filter P xs = [x] \<Longrightarrow> x \<in> set xs"
  by (metis filter_is_subset list.set_intros(1) subsetD)

lemma open_info_same:
  assumes "list_all2 (same_for A) (ke_files env) gs" and "fi_id fi \<in> A"
  shows "open_info (with_files env gs) fi = open_info env fi"
  using get_file_unchanged [OF assms(1), of "fi_id fi"] assms(2) by (simp add: open_info_def)

lemma open_name_same:
  assumes "list_all2 (same_for A) (ke_files env) gs" and "fi_id ` set fis \<subseteq> A"
  shows "open_name (with_files env gs) fis ref = open_name env fis ref"
proof -
  have "open_info (with_files env gs) fi = open_info env fi" if "filter P fis = [fi]" for fi and P
    by (rule open_info_same [OF assms(1)]) (use assms(2) filter_single [OF that] in auto)
  then show ?thesis
    unfolding open_name_def by (simp split: list.split)
qed

lemma open_path_same:
  assumes "list_all2 (same_for A) (ke_files env) gs" and "fi_id ` set fis \<subseteq> A"
  shows "open_path (with_files env gs) fis ref = open_path env fis ref"
proof -
  have "(case filter (\<lambda>fi. fi_name fi = name \<and> fi_dir fi = Some i) fis of [fi] \<Rightarrow> open_info (with_files env gs) fi | _ \<Rightarrow> None)
      = (case filter (\<lambda>fi. fi_name fi = name \<and> fi_dir fi = Some i) fis of [fi] \<Rightarrow> open_info env fi | _ \<Rightarrow> None)" for name i
  proof -
    have "open_info (with_files env gs) fi = open_info env fi" if "filter P fis = [fi]" for fi and P
      by (rule open_info_same [OF assms(1)]) (use assms(2) filter_single [OF that] in auto)
    then show ?thesis
      by (simp split: list.split)
  qed
  note r = this
  show ?thesis
    unfolding open_path_def with_files_fields line_no_files r ..
qed

lemma direct_file_same:
  assumes "list_all2 (same_for A) (ke_files env) gs"
  shows "(case (case get_file_by_id gs ref of None \<Rightarrow> None | Some f \<Rightarrow> map_option (\<lambda>c. resolved_of f c None None) (fl_data f)) of
            Some r \<Rightarrow> (if rv_id r \<in> A then Found r else Missing) | None \<Rightarrow> other)
       = (case (case get_file_by_id (ke_files env) ref of None \<Rightarrow> None | Some f \<Rightarrow> map_option (\<lambda>c. resolved_of f c None None) (fl_data f)) of
            Some r \<Rightarrow> (if rv_id r \<in> A then Found r else Missing) | None \<Rightarrow> other)"
proof (cases "get_file_by_id (ke_files env) ref")
  case None
  then show ?thesis
    using get_file_same [OF assms, of ref] by simp
next
  case (Some f)
  then obtain g where g: "get_file_by_id gs ref = Some g" "same_for A f g"
    using get_file_same [OF assms, of ref] by (auto simp: option_rel_Some1)
  show ?thesis
    unfolding g(1) Some using g(2) by (cases "fl_data f") (auto simp: same_for_def resolved_of_def)
qed

lemma resolve_file_same:
  assumes "list_all2 (same_for (reach_ids env user mk)) (ke_files env) gs"
  shows "resolve_file (with_files env gs) user mk ref = resolve_file env user mk ref"
proof -
  let ?fis = "get_accessible_files env user mk None"
  have sub: "fi_id ` set ?fis \<subseteq> reach_ids env user mk"
    by (simp add: reach_ids_def)
  show ?thesis
    unfolding resolve_file_def Let_def all_files_same [OF assms] open_path_same [OF assms sub] open_name_same [OF assms sub]
      with_files_fields reach_ids_def [symmetric] by (rule direct_file_same [OF assms])
qed

section \<open>Command by command\<close>


lemma on_file_same:
  assumes same: "list_all2 (same_for (reach_ids env user mk)) (ke_files env) gs"
  shows "on_file (with_files env gs) user mk usage args go = on_file env user mk usage args go"
  unfolding on_file_def resolve_file_same [OF same] ..

lemma direct_infos_same:
  assumes same: "list_all2 (same_for (reach_ids env user mk)) (ke_files env) gs"
  shows "direct_infos (with_files env gs) user mk = direct_infos env user mk"
  unfolding direct_infos_def all_files_same [OF same] ..

lemma ls_same:
  assumes same: "list_all2 (same_for (reach_ids env user mk)) (ke_files env) gs"
  shows "kb_ls (with_files env gs) user mk args flags = kb_ls env user mk args flags"
proof -
  let ?kbs = "get_accessible_kbs env user mk None"
  have flat: "ls_flat (with_files env gs) (kb_id k) = ls_flat env (kb_id k)" if "k \<in> set ?kbs" for k
    unfolding ls_flat_def directory_tree_same [OF same that] line_no_files ..
  have level: "ls_level (with_files env gs) user mk path (kb_id k) = ls_level env user mk path (kb_id k)" if "k \<in> set ?kbs" for path k
  proof -
    have "get_accessible_files (with_files env gs) user mk (Some (kb_id k)) = get_accessible_files env user mk (Some (kb_id k))"
      by (rule accessible_files_same [OF same]) (use that in simp)
    note files = this
    show ?thesis
      unfolding ls_level_def files line_no_files with_files_fields ..
  qed
  have "rmapM (\<lambda>k. rmap (\<lambda>ls. kb_header k # ls) (if b then ls_flat (with_files env gs) (kb_id k)
            else ls_level (with_files env gs) user mk path (kb_id k))) (case tg of None \<Rightarrow> ?kbs | Some i \<Rightarrow> filter (\<lambda>k. kb_id k = i) ?kbs)
      = rmapM (\<lambda>k. rmap (\<lambda>ls. kb_header k # ls) (if b then ls_flat env (kb_id k)
            else ls_level env user mk path (kb_id k))) (case tg of None \<Rightarrow> ?kbs | Some i \<Rightarrow> filter (\<lambda>k. kb_id k = i) ?kbs)"
    for b path tg
    by (rule rmapM_cong [OF refl]) (simp add: flat level split: option.splits)
  note levels = this
  show ?thesis
    unfolding kb_ls_def Let_def accessible_kbs_no_files direct_infos_same [OF same] line_no_files levels ..
qed

lemma tree_same:
  assumes same: "list_all2 (same_for (reach_ids env user mk)) (ke_files env) gs"
  shows "kb_tree_cmd (with_files env gs) user mk args = kb_tree_cmd env user mk args"
proof -
  have "rmapM (tree_lines (with_files env gs) scope) (get_accessible_kbs env user mk None)
      = rmapM (tree_lines env scope) (get_accessible_kbs env user mk None)" for scope
    by (rule rmapM_cong [OF refl], unfold tree_lines_def with_files_fields) (simp only: directory_tree_same [OF same])
  note t = this
  show ?thesis
    unfolding kb_tree_cmd_def Let_def accessible_kbs_no_files direct_infos_same [OF same] t with_files_fields ..
qed

lemma reading_same:
  assumes same: "list_all2 (same_for (reach_ids env user mk)) (ke_files env) gs"
  shows "kb_cat (with_files env gs) user mk args flags = kb_cat env user mk args flags"
  "kb_head (with_files env gs) user mk args piped = kb_head env user mk args piped"
  "kb_tail (with_files env gs) user mk args piped = kb_tail env user mk args piped"
  "kb_wc (with_files env gs) user mk args flags piped = kb_wc env user mk args flags piped"
  "kb_stat (with_files env gs) user mk args = kb_stat env user mk args"
  "kb_sed (with_files env gs) user mk args flags piped = kb_sed env user mk args flags piped"
  unfolding kb_cat_def kb_head_def kb_tail_def kb_wc_def kb_stat_def kb_sed_def on_file_same [OF same] with_files_fields line_no_files
  by (rule refl)+

lemma find_same:
  assumes same: "list_all2 (same_for (reach_ids env user mk)) (ke_files env) gs"
  shows "kb_find (with_files env gs) user mk args = kb_find env user mk args"
  unfolding kb_find_def all_files_same [OF same] line_no_files ..

lemma file_matches_same:
  assumes same: "list_all2 (same_for (reach_ids env user mk)) (ke_files env) gs"
    and ids: "fi_id ` set fis \<subseteq> reach_ids env user mk"
  shows "file_matches (with_files env gs) m fis = file_matches env m fis"
proof -
  have "get_file_by_id gs (fi_id fi) = get_file_by_id (ke_files env) (fi_id fi)" if "fi \<in> set fis" for fi
    by (rule get_file_unchanged [OF same]) (use that ids in auto)
  then show ?thesis
    by (simp add: file_matches_def cong: map_cong)
qed

lemma grep_files_same:
  assumes same: "list_all2 (same_for (reach_ids env user mk)) (ke_files env) gs"
  shows "grep_files (with_files env gs) user mk flags pattern m scope ext = grep_files env user mk flags pattern m scope ext"
proof -
  let ?fis = "get_accessible_files env user mk None"
  have "file_matches (with_files env gs) m (if ext = [] then (if scope = [] then ?fis else in_scope ids ?fis) else filter p (if scope = [] then ?fis else in_scope ids ?fis))
      = file_matches env m (if ext = [] then (if scope = [] then ?fis else in_scope ids ?fis) else filter p (if scope = [] then ?fis else in_scope ids ?fis))"
    for p ids
    by (rule file_matches_same [OF same]) (auto simp: reach_ids_def in_scope_def)
  note fm = this
  show ?thesis
    unfolding grep_files_def Let_def all_files_same [OF same] line_no_files fm ..
qed

lemma grep_same:
  assumes same: "list_all2 (same_for (reach_ids env user mk)) (ke_files env) gs"
  shows "kb_grep (with_files env gs) user mk args flags piped = kb_grep env user mk args flags piped"
  unfolding kb_grep_def grep_files_same [OF same] resolve_file_same [OF same] with_files_fields ..

lemma pipeline_same:
  assumes same: "list_all2 (same_for (reach_ids env user mk)) (ke_files env) gs"
  shows "execute_pipeline (with_files env gs) user mk segs piped = execute_pipeline env user mk segs piped"
proof -
  have "run_command (with_files env gs) user mk = run_command env user mk"
    by (intro ext, unfold run_command_def ls_same [OF same] tree_same [OF same] reading_same [OF same] find_same [OF same] grep_same [OF same], rule refl)
  note run = this
  show ?thesis
    by (induction segs arbitrary: piped) (simp_all only: execute_pipeline.simps run)
qed

lemma exec_same:
  assumes same: "list_all2 (same_for (reach_ids env user mk)) (ke_files env) gs"
  shows "kb_exec (with_files env gs) (Some user) mk command = kb_exec env (Some user) mk command"
  unfolding kb_exec_def option.case pipeline_same [OF same] with_files_fields ..

section \<open>What is within reach\<close>

text \<open>The rule of access: an attached file, or a file linked into a knowledge base (an attached one,
  where something is attached) that the user owns, administers or has a grant to read\<close>

definition may_read :: "kb_env \<Rightarrow> kb_caller \<Rightarrow> attachments \<Rightarrow> string \<Rightarrow> bool" where
  "may_read env user mk i =
     (i \<in> set (attached_ids ''file'' mk)
      \<or> (\<exists>k\<in>set (kt_bases (ke_tables env)). kb_has_access env user k
           \<and> (attached mk \<longrightarrow> kb_id k \<in> set (attached_ids ''collection'' mk))
           \<and> (\<exists>l\<in>set (kt_links (ke_tables env)). kf_kb l = kb_id k \<and> kf_file l = i)))"

lemma kb_search_access:
  assumes "kc_id user \<noteq> []" and "k \<in> set (kb_search env user)"
  shows "k \<in> set (kt_bases (ke_tables env)) \<and> kb_has_access env user k"
proof -
  let ?gids = "map g_id (get_groups_by_member_id (ke_groups env) (kc_id user))"
  have k: "k \<in> set (kt_bases (ke_tables env))"
    and p: "has_permission_filter (ke_grants env) ''knowledge'' ''read'' ?gids (Some (kc_id user))
             [\<lparr>d_id = kb_id k, d_user_id = kb_owner k\<rparr>] \<noteq> []"
    using assms(2) unfolding kb_search_def Let_def
    by (auto dest!: in_set_takeD)
  have r: "''read'' \<noteq> ''read_only''"
    by simp
  have "kb_has_access env user k"
    using p unfolding permission_filter_check [OF r assms(1), where db = "ke_groups env"] kb_has_access_def
    by (simp split: if_splits)
  then show ?thesis
    using k by blast
qed

lemma accessible_kb:
  assumes "kc_id user \<noteq> []" and "\<And>xs. set (ke_order env xs) \<subseteq> set xs" and "k \<in> set (get_accessible_kbs env user mk None)"
  shows "k \<in> set (kt_bases (ke_tables env)) \<and> kb_has_access env user k
    \<and> (attached mk \<longrightarrow> kb_id k \<in> set (attached_ids ''collection'' mk))"
proof (cases "attached mk")
  case True
  then obtain i where "i \<in> set (ke_order env (attached_ids ''collection'' mk))" "k \<in> set (kb_readable env user i)"
    using assms(3) by (auto simp: get_accessible_kbs_def)
  then show ?thesis
    using kb_readable_access assms(2) by blast
next
  case False
  then show ?thesis
    using assms(3) kb_search_access [OF assms(1)] by (simp add: get_accessible_kbs_def)
qed

lemma reach_may_read:
  assumes "kc_id user \<noteq> []" and "\<And>xs. set (ke_order env xs) \<subseteq> set xs" and "i \<in> reach_ids env user mk"
  shows "may_read env user mk i"
proof -
  obtain fi where fi: "fi \<in> set (get_accessible_files env user mk None)" "i = fi_id fi"
    using assms(3) by (auto simp: reach_ids_def)
  let ?single = "\<lambda>j. set (case get_file_by_id (ke_files env) j of None \<Rightarrow> [] | Some f \<Rightarrow> [file_info_of f None None None])"
  have "fi \<in> (\<Union>k\<in>set (get_accessible_kbs env user mk None). (\<lambda>(f, dir). file_info_of f dir (Some (kb_id k)) (Some (kb_name k))) `
          set (get_files_with_directory_ids (ke_tables env) (ke_files env) (kb_id k)))
      \<union> (\<Union>j\<in>set (ke_order env (attached_ids ''file'' mk)). ?single j)"
    using fi(1) unfolding get_accessible_files_def by (cases "attached mk") (simp_all add: image_Union)
  then consider (kb) k x where "k \<in> set (get_accessible_kbs env user mk None)"
      "x \<in> set (get_files_with_directory_ids (ke_tables env) (ke_files env) (kb_id k))"
      "fi = (case x of (f, dir) \<Rightarrow> file_info_of f dir (Some (kb_id k)) (Some (kb_name k)))"
    | (single) j where "j \<in> set (ke_order env (attached_ids ''file'' mk))" "fi \<in> ?single j"
    by blast
  then show ?thesis
  proof cases
    case kb
    then show ?thesis
      using accessible_kb [OF assms(1,2) kb(1)] linked_id [of "fst x" "snd x"] fi(2)
      unfolding may_read_def by (cases x) (auto simp: file_info_of_def)
  next
    case single
    then obtain f where "get_file_by_id (ke_files env) j = Some f" "fi_id fi = fl_id f"
      by (cases "get_file_by_id (ke_files env) j") (simp_all add: file_info_of_def)
    then show ?thesis
      using single(1) assms(2) get_file_id fi(2) unfolding may_read_def by fastforce
  qed
qed

section \<open>Isolation\<close>

lemma same_for_mono: "same_for B f g \<Longrightarrow> A \<subseteq> B \<Longrightarrow> same_for A f g"
  by (auto simp: same_for_def)

text \<open>C31 No command line makes a difference between two states of the stored files that differ only in
  files that the user may not read: their names, contents, sizes, owners and times never show, in
  no listing, count, match or message of an error.
\<close>

theorem exec_isolates_unreadable:
  assumes "kc_id user \<noteq> []" and "\<And>xs. set (ke_order env xs) \<subseteq> set xs"
    and "list_all2 (\<lambda>f g. g = f \<or> (\<not> may_read env user mk (fl_id f) \<and> fl_id g = fl_id f \<and> (fl_data g = None) = (fl_data f = None)))
           (ke_files env) gs"
  shows "kb_exec (env\<lparr>ke_files := gs\<rparr>) (Some user) mk command = kb_exec env (Some user) mk command"
proof -
  have "list_all2 (same_for {i. may_read env user mk i}) (ke_files env) gs"
    using assms(3) by (simp add: same_for_def [abs_def])
  then have "list_all2 (same_for (reach_ids env user mk)) (ke_files env) gs"
    by (rule list_all2_mono) (use reach_may_read [OF assms(1,2)] same_for_mono in blast)
  from exec_same [OF this] show ?thesis
    unfolding with_files_def .
qed

definition sample_file :: "string \<Rightarrow> string \<Rightarrow> string \<Rightarrow> file_row" where
  "sample_file i name data = \<lparr>fl_id = i, fl_name = name, fl_user = ''ann'', fl_hash = None, fl_path = i, fl_data = Some data,
     fl_meta = [], fl_created = None, fl_updated = None\<rparr>"

text \<open>Bob's own knowledge base \<open>z\<close> holds \<open>f2\<close>; \<open>f1\<close> is in Ann's.\<close>

definition sample_shell :: kb_env where
  "sample_shell = \<lparr>ke_tables = sample_bases\<lparr>kt_links :=
       [\<lparr>kf_id = ''l1'', kf_kb = ''k'', kf_file = ''f1'', kf_dir = None, kf_user = ''ann'', kf_created = 0, kf_updated = 0\<rparr>,
        \<lparr>kf_id = ''l2'', kf_kb = ''z'', kf_file = ''f2'', kf_dir = None, kf_user = ''bob'', kf_created = 0, kf_updated = 0\<rparr>]\<rparr>,
     ke_files = [sample_file ''f1'' ''a.md'' ''one'', sample_file ''f2'' ''b.md'' ''two one'']
     , ke_groups = no_groups, ke_grants = [], ke_order = (\<lambda>xs. xs), ke_regex = (\<lambda>ci p. Inl []), ke_float = (\<lambda>x. []),
     ke_float_commas = (\<lambda>x. []), ke_date = (\<lambda>x. []), ke_time = (\<lambda>x. []), ke_error = (\<lambda>e. []),
     ke_glyphs = \<lparr>gl_folder = ''[d]'', gl_last = ''`- '', gl_mid = ''|- '', gl_bar = ''|  '', gl_dash = ''-''\<rparr>, ke_depth = 9\<rparr>"

lemma sample_unreadable: "\<not> may_read sample_shell sample_caller None ''f1''"
  by code_simp

theorem exec_isolates_unreadable_witness:
  "kb_exec (sample_shell\<lparr>ke_files := [sample_file ''f1'' ''secret.md'' ''other'', sample_file ''f2'' ''b.md'' ''two one'']\<rparr>)
     (Some sample_caller) None ''grep one'' = ''f2  b.md:1: two one''"
proof -
  have "kb_exec sample_shell (Some sample_caller) None ''grep one'' = ''f2  b.md:1: two one''"
    by code_simp
  moreover have "list_all2 (\<lambda>f g. g = f \<or> (\<not> may_read sample_shell sample_caller None (fl_id f) \<and> fl_id g = fl_id f \<and> (fl_data g = None) = (fl_data f = None)))
      (ke_files sample_shell) [sample_file ''f1'' ''secret.md'' ''other'', sample_file ''f2'' ''b.md'' ''two one'']"
    using sample_unreadable by (simp add: sample_shell_def sample_file_def)
  moreover have "kc_id sample_caller \<noteq> []" "\<And>xs. set (ke_order sample_shell xs) \<subseteq> set xs"
    by (simp_all add: sample_caller_def sample_shell_def)
  ultimately show ?thesis
    using exec_isolates_unreadable [of sample_caller sample_shell None] by simp
qed

end
