(* ===== verification/Response_Events.thy ===== *)
theory Response_Events
  imports Json
begin

text \<open>
  The events of the Responses API as they build the output of an answer: \<^verbatim>\<open>deep_merge\<close>,
  \<^verbatim>\<open>handle_responses_streaming_event\<close>, \<^verbatim>\<open>merge_streamed_reasoning_details\<close> and the splitting of
  tool calls of \<^verbatim>\<open>backend/openlaunch/utils/middleware.py\<close>. An output is the list of its items;
  an output in a final event that is empty but no list counts as the empty list.
\<close>

section \<open>Merging\<close>

fun deep_merge :: "pv \<Rightarrow> pv \<Rightarrow> pv"
  and merge_items :: "pdict \<Rightarrow> pdict \<Rightarrow> pdict" where
  "deep_merge t (PDict b) = (case t of PDict a \<Rightarrow> PDict (merge_items a b) | _ \<Rightarrow> PDict b)"
| "deep_merge t (PStr y) = (case t of PStr x \<Rightarrow> PStr (x @ y) | _ \<Rightarrow> PStr y)"
| "deep_merge t s = s"
| "merge_items a [] = a"
| "merge_items a ((k, v) # b) =
     merge_items (od_set k (case od_get a k of Some w \<Rightarrow> deep_merge w v | None \<Rightarrow> v) a) b"

section \<open>Places in lists\<close>

text \<open>\<^verbatim>\<open>0 <= v < n\<close>\<close>

definition in_bounds :: "pv \<Rightarrow> nat \<Rightarrow> bool res" where
  "in_bounds v n = (case v of
      PFlt x \<Rightarrow> Inr (0 \<le> x \<and> x < of_nat n)
    | _ \<Rightarrow> (case as_int v of None \<Rightarrow> Inl TypeError | Some i \<Rightarrow> Inr (0 \<le> i \<and> i < int n)))"

text \<open>The place that \<^verbatim>\<open>xs[v]\<close> reads in a list of length \<open>n\<close>\<close>

definition list_place :: "pv \<Rightarrow> nat \<Rightarrow> nat res" where
  "list_place v n = (case as_int v of
      None \<Rightarrow> Inl TypeError
    | Some i \<Rightarrow> (if 0 \<le> i \<and> i < int n then Inr (nat i)
               else if i < 0 \<and> - i \<le> int n then Inr (nat (int n + i)) else Inl IndexError))"

text \<open>\<^verbatim>\<open>while len(xs) <= v: xs.append(x)\<close>\<close>

definition pad_list :: "pv list \<Rightarrow> pv \<Rightarrow> pv \<Rightarrow> pv list res" where
  "pad_list xs v x = (case v of
      PFlt q \<Rightarrow> Inr (xs @ replicate (nat (\<lfloor>q\<rfloor> + 1) - length xs) x)
    | _ \<Rightarrow> (case as_int v of None \<Rightarrow> Inl TypeError
          | Some i \<Rightarrow> Inr (xs @ replicate (nat (i + 1) - length xs) x)))"

text \<open>\<^verbatim>\<open>v.copy()\<close>\<close>

definition pcopy :: "pv \<Rightarrow> pv res" where
  "pcopy v = (case v of PDict d \<Rightarrow> Inr v | PList xs \<Rightarrow> Inr v | _ \<Rightarrow> Inl AttributeError)"

text \<open>The list under a key, copied, or a new one\<close>

definition own_list :: "string \<Rightarrow> pv \<Rightarrow> pv list res" where
  "own_list key item = rbind (pin key item) (\<lambda>b. if b then rbind (pidx item key) piter else Inr [])"

text \<open>The item that an event is about: the last one where it does not say\<close>

definition addressed :: "pdict \<Rightarrow> pv list \<Rightarrow> nat option res" where
  "addressed data out =
     (let v = od_getd data ''output_index'' (PInt (int (length out) - 1)) in
      if out = [] then Inr None
      else rbind (in_bounds v (length out)) (\<lambda>b.
        if \<not> b then Inr None else rmap Some (list_place v (length out))))"

definition with_item :: "pdict \<Rightarrow> pv list \<Rightarrow> 'a res \<Rightarrow> (nat \<Rightarrow> pv \<Rightarrow> 'a res) \<Rightarrow> 'a res" where
  "with_item data out none go =
     rbind (addressed data out) (\<lambda>p. case p of None \<Rightarrow> none | Some i \<Rightarrow> rbind (pcopy (out ! i)) (go i))"

section \<open>One event\<close>

type_synonym event_result = "(pv list \<times> pdict option) res"

definition item_added :: "pdict \<Rightarrow> pv list \<Rightarrow> event_result" where
  "item_added data out =
     (let item = od_getd data ''item'' (PDict []) in Inr (if truthy item then out @ [item] else out, None))"

definition content_part_added :: "pdict \<Rightarrow> pv list \<Rightarrow> event_result" where
  "content_part_added data out =
     with_item data out (Inr (out, None)) (\<lambda>i item.
       rbind (own_list ''content'' item) (\<lambda>xs.
       rbind (pset item ''content'' (PList xs)) (\<lambda>item.
       rbind (pget item ''type'' PNone) (\<lambda>t.
         if t = PStr ''reasoning'' then Inr (out[i := item], None)
         else rbind (pset item ''content'' (PList (xs @ [od_getd data ''part'' (PDict [])]))) (\<lambda>item.
           Inr (out[i := item], None))))))"

definition summary_part_added :: "pdict \<Rightarrow> pv list \<Rightarrow> event_result" where
  "summary_part_added data out =
     with_item data out (Inr (out, None)) (\<lambda>i item.
       rbind (own_list ''summary'' item) (\<lambda>xs.
       rbind (pset item ''summary'' (PList (xs @ [od_getd data ''part'' (PDict [])]))) (\<lambda>item.
         Inr (out[i := item], None))))"

text \<open>A part of a list in an item, padded with empty ones, with a change of the part\<close>

definition change_part ::
  "string \<Rightarrow> string \<Rightarrow> pv \<Rightarrow> pv \<Rightarrow> (pv \<Rightarrow> pv res) \<Rightarrow> pv res" where
  "change_part key kind index item change =
     rbind (own_list key item) (\<lambda>xs.
     rbind (pset item key (PList xs)) (\<lambda>item.
     rbind (pad_list xs index (PDict [(''type'', PStr kind), (''text'', PStr [])])) (\<lambda>xs.
     rbind (list_place index (length xs)) (\<lambda>j.
     rbind (pcopy (xs ! j)) (\<lambda>part.
     rbind (change part) (\<lambda>part. pset item key (PList (xs[j := part]))))))))"

text \<open>A field that grows by a delta: None starts empty\<close>

definition grown :: "pv \<Rightarrow> pv \<Rightarrow> pv" where
  "grown cur delta = deep_merge (if cur = PNone then (if is_dict delta then PDict [] else PStr []) else cur) delta"

definition text_key :: "string \<Rightarrow> string" where
  "text_key delta_type = (if delta_type \<in> {''text'', ''output_text''} then ''text'' else delta_type)"

definition message_delta :: "pdict \<Rightarrow> string \<Rightarrow> pv \<Rightarrow> pv \<Rightarrow> pv res" where
  "message_delta data delta_type delta item =
     (if delta_type \<in> {''reasoning_text'', ''reasoning_summary_text''} then Inr item
      else change_part ''content'' ''text'' (od_getd data ''content_index'' (PInt 0)) item (\<lambda>part.
        rbind (pget part (text_key delta_type) PNone) (\<lambda>cur. pset part (text_key delta_type) (grown cur delta))))"

definition reasoning_delta :: "pdict \<Rightarrow> string \<Rightarrow> pv \<Rightarrow> pv \<Rightarrow> pv res" where
  "reasoning_delta data delta_type delta item =
     (let grow = (\<lambda>part. rbind (pget part ''text'' (PStr [])) (\<lambda>cur. pset part ''text'' (deep_merge cur delta))) in
      if delta_type = ''reasoning_summary_text''
      then change_part ''summary'' ''summary_text'' (od_getd data ''summary_index'' (PInt 0)) item grow
      else if delta_type = ''reasoning_text''
      then change_part ''content'' ''text'' (od_getd data ''content_index'' (PInt 0)) item grow
      else Inr item)"

definition other_delta :: "string \<Rightarrow> pv \<Rightarrow> pv \<Rightarrow> pv res" where
  "other_delta delta_type delta item =
     rbind (pget item (text_key delta_type) PNone) (\<lambda>cur. pset item (text_key delta_type) (grown cur delta))"

definition item_delta :: "(rat \<Rightarrow> string) \<Rightarrow> pdict \<Rightarrow> string \<Rightarrow> pv \<Rightarrow> pv res" where
  "item_delta f data delta_type item =
     (let delta = od_getd data ''delta'' (PStr []) in
      rbind (pget item ''type'' (PStr [])) (\<lambda>t.
        if delta_type = ''function_call_arguments''
        then (if t = PStr ''function_call''
              then rbind (pget item ''arguments'' (PStr [])) (\<lambda>args. (case args of
                     PStr a \<Rightarrow> pset item ''arguments'' (PStr (a @ py_str f delta)) | _ \<Rightarrow> Inl TypeError))
              else Inr item)
        else if t = PStr ''message'' then message_delta data delta_type delta item
        else if t = PStr ''reasoning'' then reasoning_delta data delta_type delta item
        else other_delta delta_type delta item))"

text \<open>A delta that is about no item ends with the unbound name of its result.\<close>

definition delta_event :: "(rat \<Rightarrow> string) \<Rightarrow> string list \<Rightarrow> pdict \<Rightarrow> pv list \<Rightarrow> event_result" where
  "delta_event f parts data out =
     (if length parts < 3 then Inl TypeError
      else with_item data out (Inl UnboundLocalError) (\<lambda>i item.
        rbind (item_delta f data (parts ! 1) item) (\<lambda>item. Inr (out[i := item], None))))"

definition part_done :: "string \<Rightarrow> string \<Rightarrow> pdict \<Rightarrow> pv list \<Rightarrow> event_result" where
  "part_done key index_key data out =
     (let part = od_getd data ''part'' PNone in
      if \<not> truthy part then Inr (out, None)
      else with_item data out (Inr (out, None)) (\<lambda>i item.
        rbind (pin key item) (\<lambda>b.
          if \<not> b then Inr (out, None)
          else rbind (own_list key item) (\<lambda>xs.
            rbind (pset item key (PList xs)) (\<lambda>item.
              let index = od_getd data index_key (PInt (int (length xs) - 1)) in
              rbind (in_bounds index (length xs)) (\<lambda>inside.
                if \<not> inside then Inr (out, None)
                else rbind (list_place index (length xs)) (\<lambda>j.
                  rbind (pset item key (PList (xs[j := part]))) (\<lambda>item. Inr (out[i := item], Some [])))))))))"

definition done_key :: "string \<Rightarrow> string" where
  "done_key name =
     (if name = ''function_call_arguments'' then ''arguments''
      else if name \<in> {''text'', ''output_text'', ''reasoning_text'', ''reasoning_summary_text''} then ''text''
      else name)"

definition message_done :: "pdict \<Rightarrow> string \<Rightarrow> pv \<Rightarrow> pv \<Rightarrow> pv res" where
  "message_done data key final item =
     (let index = od_getd data ''content_index'' (PInt 0) in
      rbind (pin ''content'' item) (\<lambda>b.
        if \<not> b then Inr item
        else rbind (own_list ''content'' item) (\<lambda>xs.
          rbind (pset item ''content'' (PList xs)) (\<lambda>item.
          rbind (case index of
              PFlt q \<Rightarrow> Inr (q < of_nat (length xs))
            | _ \<Rightarrow> (case as_int index of None \<Rightarrow> Inl TypeError | Some j \<Rightarrow> Inr (j < int (length xs)))) (\<lambda>longer.
            if \<not> longer then Inr item
            else rbind (list_place index (length xs)) (\<lambda>j.
              rbind (pcopy (xs ! j)) (\<lambda>part. rbind (pset part key final) (\<lambda>part.
                pset item ''content'' (PList (xs[j := part])))))))))) "

definition item_done :: "pdict \<Rightarrow> string \<Rightarrow> pv \<Rightarrow> pv \<Rightarrow> pv res" where
  "item_done data name final item =
     rbind (pget item ''type'' (PStr [])) (\<lambda>t.
       if name = ''function_call_arguments''
       then (if t = PStr ''function_call'' then pset item ''arguments'' final else Inr item)
       else if t = PStr ''message'' then message_done data (done_key name) final item
       else if t = PStr ''reasoning'' then pset item ''status'' (PStr ''completed'')
       else pset item (done_key name) final)"

definition field_done :: "string \<Rightarrow> pdict \<Rightarrow> pv list \<Rightarrow> event_result" where
  "field_done name data out =
     rbind (addressed data out) (\<lambda>p. case p of
        None \<Rightarrow> Inr (out, None)
      | Some i \<Rightarrow> (case od_get data (done_key name) of
            None \<Rightarrow> Inr (out, None)
          | Some final \<Rightarrow>
              rbind (pcopy (out ! i)) (\<lambda>item. rbind (item_done data name final item) (\<lambda>item.
                Inr (out[i := item], Some [])))))"

definition done_event :: "string list \<Rightarrow> pdict \<Rightarrow> pv list \<Rightarrow> event_result" where
  "done_event parts data out =
     (if length parts < 3 then Inr (out, None)
      else let name = parts ! 1 in
        if name = ''content_part'' then part_done ''content'' ''content_index'' data out
        else if name = ''reasoning_summary_part'' then part_done ''summary'' ''summary_index'' data out
        else if name \<in> {''output_item'', ''completed'', ''failed''} then Inr (out, None)
        else field_done name data out)"

text \<open>The branch for a finished item, after the one for every event that is done\<close>

definition output_item_done :: "pdict \<Rightarrow> pv list \<Rightarrow> event_result" where
  "output_item_done data out =
     (let item = od_getd data ''item'' PNone; v = od_getd data ''output_index'' (PInt (int (length out) - 1)) in
      if \<not> truthy item then Inr (out, Some [])
      else rbind (in_bounds v (length out)) (\<lambda>b.
        if b then rbind (list_place v (length out)) (\<lambda>i. Inr (out[i := item], Some []))
        else Inr (out @ [item], Some [])))"

definition finish_item :: "pv \<Rightarrow> pv res" where
  "finish_item item =
     rbind (pget item ''type'' PNone) (\<lambda>t.
       if t = PStr ''reasoning'' then pset item ''status'' (PStr ''completed'') else Inr item)"

definition response_completed :: "pdict \<Rightarrow> pv list \<Rightarrow> event_result" where
  "response_completed data out =
     (let r = od_getd data ''response'' (PDict []) in
      rbind (pget r ''output'' PNone) (\<lambda>final.
      rbind (if final = PNone then Inr out else if truthy final then piter final else Inr []) (\<lambda>items.
      rbind (rmapM finish_item items) (\<lambda>items.
      rbind (pget r ''usage'' PNone) (\<lambda>usage.
      rbind (pget r ''id'' PNone) (\<lambda>i.
        Inr (items, Some [(''usage'', usage), (''done'', PBool True), (''response_id'', i)])))))))"

definition response_failed :: "pdict \<Rightarrow> pv list \<Rightarrow> event_result" where
  "response_failed data out =
     rbind (pget (od_getd data ''response'' (PDict [])) ''error'' (PDict [])) (\<lambda>err. Inr (out, Some [(''error'', err)]))"

definition handle_responses_streaming_event ::
  "(rat \<Rightarrow> string) \<Rightarrow> pdict \<Rightarrow> pv list \<Rightarrow> event_result" where
  "handle_responses_streaming_event f data out = (case od_getd data ''type'' (PStr []) of
      PStr t \<Rightarrow>
        (if t = ''response.output_item.added'' then item_added data out
         else if t = ''response.content_part.added'' then content_part_added data out
         else if t = ''response.reasoning_summary_part.added'' then summary_part_added data out
         else if py_startswith t ''response.'' \<and> py_endswith t ''.delta''
           then delta_event f (py_split CHR ''.'' t) data out
         else if py_startswith t ''response.'' \<and> py_endswith t ''.done''
           then done_event (py_split CHR ''.'' t) data out
         else if t = ''response.output_item.done'' then output_item_done data out
         else if t = ''response.completed'' then response_completed data out
         else if t = ''response.in_progress'' then Inr (out, None)
         else if t = ''response.failed'' then response_failed data out
         else Inr (out, None))
    | _ \<Rightarrow> Inl AttributeError)"

section \<open>Details of a reasoning\<close>

definition num_value :: "pv \<Rightarrow> rat option" where
  "num_value v = (case v of PFlt x \<Rightarrow> Some x | _ \<Rightarrow> map_option of_int (as_int v))"

text \<open>The first entry whose index equals the number\<close>

fun find_detail :: "rat \<Rightarrow> pv list \<Rightarrow> nat option res" where
  "find_detail q [] = Inr None"
| "find_detail q (d # ds) =
     rbind (pget d ''index'' PNone) (\<lambda>i.
       if num_value i = Some q then Inr (Some 0) else rmap (map_option Suc) (find_detail q ds))"

definition merge_detail_key :: "pdict \<Rightarrow> string \<times> pv \<Rightarrow> pdict" where
  "merge_detail_key d kv = (case (snd kv, od_getd d (fst kv) PNone) of
      (PStr y, PStr x) \<Rightarrow> od_set (fst kv) (PStr (if fst kv \<in> {''text'', ''summary''} then x @ y else y)) d
    | _ \<Rightarrow> od_set (fst kv) (snd kv) d)"

definition merge_detail :: "pv list \<Rightarrow> pv \<Rightarrow> pv list res" where
  "merge_detail target item = (case item of
      PDict d \<Rightarrow>
        rbind (case as_int (od_getd d ''index'' PNone) of
            None \<Rightarrow> Inr None | Some i \<Rightarrow> find_detail (of_int i) target) (\<lambda>p. (case p of
          None \<Rightarrow> Inr (target @ [item])
        | Some i \<Rightarrow> (case target ! i of
              PDict e \<Rightarrow> Inr (target[i := PDict (foldl merge_detail_key e d)])
            | _ \<Rightarrow> Inl AttributeError)))
    | _ \<Rightarrow> Inr target)"

definition merge_streamed_reasoning_details :: "pv list \<Rightarrow> pv \<Rightarrow> pv list res" where
  "merge_streamed_reasoning_details target details =
     rfoldM merge_detail target (case details of PList xs \<Rightarrow> xs | _ \<Rightarrow> [details])"

section \<open>Tool calls\<close>

text \<open>The values that stand one after the other in a text, or None where one of them is broken\<close>

function split_values :: "(string \<Rightarrow> rat) \<Rightarrow> string \<Rightarrow> string list option" where
  "split_values f s =
     (let t = dropWhile is_space s in
      if t = [] then Some []
      else (case p_value f (2 * length t + 2) t of
          None \<Rightarrow> None
        | Some (v, r) \<Rightarrow> map_option ((#) (py_strip (take (length t - length r) t))) (split_values f r)))"
  by pat_completeness auto
termination
proof (relation "measure (\<lambda>(f, s). length s)", goal_cases)
  case (2 f s t vr v r)
  then have "length r < length t"
    using p_value_shorter(1) by metis
  then show ?case
    using 2 length_dropWhile_le [of is_space s] by simp
qed simp

declare split_values.simps [simp del]

definition split_json_objects :: "(string \<Rightarrow> rat) \<Rightarrow> string \<Rightarrow> string list" where
  "split_json_objects f raw = (case split_values f raw of
      None \<Rightarrow> [raw]
    | Some xs \<Rightarrow> (if xs = [] then [raw] else xs))"

text \<open>The clones of a call, one for each of its arguments; the generated ids are numbered.\<close>

definition clone_call :: "(nat \<Rightarrow> string) \<Rightarrow> nat \<Rightarrow> pv \<Rightarrow> string \<Rightarrow> pv res" where
  "clone_call new_id k call arg =
     rbind (pset call ''id'' (PStr (''call_'' @ new_id k))) (\<lambda>c.
     rbind (pidx c ''function'') (\<lambda>fn.
     rbind (pset fn ''arguments'' (PStr arg)) (\<lambda>fn. pset c ''function'' fn)))"

definition split_call :: "(string \<Rightarrow> rat) \<Rightarrow> (nat \<Rightarrow> string) \<Rightarrow> nat \<times> pv list \<Rightarrow> pv \<Rightarrow> (nat \<times> pv list) res" where
  "split_call f new_id s call =
     rbind (pget call ''function'' (PDict [])) (\<lambda>fn.
     rbind (pget fn ''arguments'' (PStr [])) (\<lambda>a. (case a of
        PStr raw \<Rightarrow>
          (let args = split_json_objects f raw in
           if length args \<le> 1 then Inr (fst s, snd s @ [call])
           else rmap (\<lambda>cs. (fst s + length args, snd s @ cs))
                  (rmapM (\<lambda>(j, arg). clone_call new_id (fst s + j) call arg) (zip [0..<length args] args)))
      | _ \<Rightarrow> Inl TypeError)))"

definition split_tool_calls :: "(string \<Rightarrow> rat) \<Rightarrow> (nat \<Rightarrow> string) \<Rightarrow> pv list \<Rightarrow> pv list res" where
  "split_tool_calls f new_id calls = rmap snd (rfoldM (split_call f new_id) (0, []) calls)"

text \<open>The calls among the items of an output that have no result yet, as calls of a chat completion\<close>

definition handled_ids :: "pv list \<Rightarrow> pv list res" where
  "handled_ids items =
     rbind (rfilterM (\<lambda>i. rmap (\<lambda>t. t = PStr ''function_call_output'') (pget i ''type'' PNone)) items)
       (rmapM (\<lambda>i. rbind (pget i ''call_id'' PNone) hash_key))"

definition output_call :: "(rat \<Rightarrow> string) \<Rightarrow> pv list \<Rightarrow> pv list \<Rightarrow> pv \<Rightarrow> pv list res" where
  "output_call f handled calls item =
     rbind (pget item ''type'' PNone) (\<lambda>t.
       if t \<noteq> PStr ''function_call'' then Inr calls
       else rbind (pget item ''call_id'' PNone) (\<lambda>i. rbind (hash_key i) (\<lambda>h.
         if h \<in> set handled then Inr calls
         else rbind (pget item ''arguments'' (PStr ''{}'')) (\<lambda>a.
              rbind (pget item ''call_id'' (PStr [])) (\<lambda>i.
              rbind (pget item ''name'' (PStr [])) (\<lambda>name.
                Inr (calls @ [PDict [(''id'', i), (''index'', PInt (int (length calls))),
                  (''function'', PDict [(''name'', name),
                     (''arguments'', if is_str a then a else PStr (json_dumps True f a))])]])))))))"

definition responses_api_tool_calls :: "(rat \<Rightarrow> string) \<Rightarrow> pv list \<Rightarrow> pv list \<Rightarrow> pv list res" where
  "responses_api_tool_calls f prior out =
     rbind (handled_ids (prior @ out)) (\<lambda>handled. rfoldM (output_call f handled) [] out)"

section \<open>Splitting finds the values that were written\<close>

lemma plain_object_write:
  assumes "json_plain v" and "blank sp" and "num_end r"
  shows "p_value g (2 * length (json_write sp a f v @ r) + 2) (json_write sp a f v @ r) = Some (v, r)"
  by (rule json_roundtrip(1) [OF assms(2,1) _ assms(3)]) (use dumps_length(1) [OF assms(1), of sp a f] in simp)

lemma strip_braces: "py_strip (CHR ''{'' # s @ ''}'') = CHR ''{'' # s @ ''}''"
  by (simp add: py_strip_def py_lstrip_def py_rstrip_def is_space_def)

lemma num_end_brace [simp]: "num_end (CHR ''{'' # s)"
  by (simp add: num_end_def is_digit_char_def)

lemma split_values_step:
  assumes "dropWhile is_space (w @ r) = w @ r" and "w @ r \<noteq> []" and "py_strip w = w"
    and "p_value g (2 * length (w @ r) + 2) (w @ r) = Some (v, r)"
  shows "split_values g (w @ r) = map_option ((#) w) (split_values g r)"
proof -
  have "split_values g (w @ r) = (case Some (v, r) of None \<Rightarrow> None
      | Some (v, q) \<Rightarrow> map_option ((#) (py_strip (take (length (w @ r) - length q) (w @ r)))) (split_values g q))"
    unfolding assms(4) [symmetric] by (subst split_values.simps) (simp only: assms(1,2) Let_def if_False)
  then show ?thesis
    by (simp add: assms(3))
qed

lemma split_values_objects:
  assumes "blank sp" and "\<forall>v\<in>set vs. is_dict v \<and> json_plain v"
  shows "split_values g (concat (map (json_write sp a f) vs)) = Some (map (json_write sp a f) vs)"
  using assms(2)
proof (induction vs)
  case Nil
  then show ?case
    by (subst split_values.simps) simp
next
  case (Cons v vs)
  then obtain d where v: "v = PDict d"
    by (cases v) auto
  let ?w = "json_write sp a f v" and ?r = "concat (map (json_write sp a f) vs)"
  have ends: "num_end ?r"
    using Cons.prems by (cases vs; cases "hd vs") auto
  have w: "\<exists>s. ?w = CHR ''{'' # s @ ''}''"
    by (simp add: v)
  have "dropWhile is_space (?w @ ?r) = ?w @ ?r"
    by (simp add: v is_space_def)
  moreover have "?w @ ?r \<noteq> []"
    by (simp add: v)
  moreover have "p_value g (2 * length (?w @ ?r) + 2) (?w @ ?r) = Some (v, ?r)"
    by (rule plain_object_write [OF _ assms(1) ends]) (use Cons.prems in simp)
  moreover have "py_strip ?w = ?w"
    using w strip_braces by metis
  ultimately have "split_values g (?w @ ?r) = map_option ((#) ?w) (split_values g ?r)"
    by (intro split_values_step)
  then show ?case
    using Cons by simp
qed

text \<open>The name of a call's function and the text of its arguments\<close>

definition call_text :: "pv \<Rightarrow> (pv \<times> string) option" where
  "call_text call = (case call of
      PDict c \<Rightarrow> (case od_getd c ''function'' PNone of
          PDict fn \<Rightarrow> (case od_getd fn ''arguments'' PNone of PStr a \<Rightarrow> Some (od_getd fn ''name'' PNone, a) | _ \<Rightarrow> None)
        | _ \<Rightarrow> None)
    | _ \<Rightarrow> None)"

lemma call_text_Some:
  "call_text call = Some (name, a) \<longleftrightarrow> (\<exists>c fn. call = PDict c \<and> od_get c ''function'' = Some (PDict fn)
     \<and> od_get fn ''arguments'' = Some (PStr a) \<and> name = od_getd fn ''name'' PNone)"
  unfolding call_text_def od_getd_def by (auto split: pv.splits option.splits)

lemma clone_text:
  assumes "call_text call = Some (name, a)"
  shows "\<exists>c. clone_call new_id k call arg = Inr c \<and> call_text c = Some (name, arg)"
  using assms unfolding call_text_Some by (auto simp: clone_call_def pidx_dict call_text_def od_getd_def)

lemma clones_text:
  assumes "call_text call = Some (name, a)"
  shows "\<exists>cs. rmapM (\<lambda>(j, arg). clone_call new_id (k + j) call arg) (zip js args) = Inr cs
    \<and> map call_text cs = map (\<lambda>arg. Some (name, arg)) (take (length js) args)"
proof (induction args arbitrary: js)
  case (Cons arg args)
  show ?case
  proof (cases js)
    case (Cons j js')
    then show ?thesis
      using Cons.IH [of js'] clone_text [OF assms, of new_id "k + j" arg] by auto
  qed simp
qed simp

lemma split_call_objects:
  assumes "call_text call = Some (name, concat (map (json_write sp a f) vs))"
    and "blank sp" and "vs \<noteq> []" and "\<forall>v\<in>set vs. is_dict v \<and> json_plain v"
  shows "\<exists>k' cs. split_call g new_id (k, acc) call = Inr (k', acc @ cs)
    \<and> map call_text cs = map (\<lambda>v. Some (name, json_write sp a f v)) vs"
proof -
  let ?args = "map (json_write sp a f) vs"
  have s: "split_json_objects g (concat ?args) = ?args"
    using split_values_objects [OF assms(2,4), of g a f] assms(3) by (simp add: split_json_objects_def)
  obtain c fn where c: "call = PDict c" "od_get c ''function'' = Some (PDict fn)" "od_get fn ''arguments'' = Some (PStr (concat ?args))"
    using assms(1) unfolding call_text_Some by blast
  have read: "split_call g new_id (k, acc) call =
      (if length vs \<le> 1 then Inr (k, acc @ [call])
       else rmap (\<lambda>cs. (k + length vs, acc @ cs)) (rmapM (\<lambda>(j, arg). clone_call new_id (k + j) call arg) (zip [0..<length vs] ?args)))"
    using c by (simp add: split_call_def od_getd_def s)
  show ?thesis
  proof (cases "length vs \<le> 1")
    case True
    then obtain v where "vs = [v]"
      using assms(3) by (cases vs) auto
    then show ?thesis
      using read assms(1) by auto
  next
    case False
    then show ?thesis
      using read clones_text [OF assms(1), of new_id k "[0..<length vs]" ?args] by auto
  qed
qed

lemma split_calls_objects:
  assumes "list_all2 (\<lambda>call s. call_text call = Some (fst s, concat (map (json_write sp a f) (snd s)))) calls specs"
    and "blank sp" and "\<forall>s\<in>set specs. snd s \<noteq> [] \<and> (\<forall>v\<in>set (snd s). is_dict v \<and> json_plain v)"
  shows "\<exists>k' cs. rfoldM (split_call g new_id) (k, acc) calls = Inr (k', acc @ cs)
    \<and> map call_text cs = concat (map (\<lambda>(name, vs). map (\<lambda>v. Some (name, json_write sp a f v)) vs) specs)"
  using assms(1,3)
proof (induction calls specs arbitrary: k acc rule: list_all2_induct)
  case (Cons call calls s specs)
  obtain k1 cs1 where 1: "split_call g new_id (k, acc) call = Inr (k1, acc @ cs1)"
      "map call_text cs1 = map (\<lambda>v. Some (fst s, json_write sp a f v)) (snd s)"
    using split_call_objects [OF _ assms(2), of call "fst s" a f "snd s" g new_id k acc] Cons by auto
  obtain k2 cs2 where 2: "rfoldM (split_call g new_id) (k1, acc @ cs1) calls = Inr (k2, (acc @ cs1) @ cs2)"
      "map call_text cs2 = concat (map (\<lambda>(name, vs). map (\<lambda>v. Some (name, json_write sp a f v)) vs) specs)"
    using Cons.IH [of k1 "acc @ cs1"] Cons.prems by auto
  show ?case
    using 1 2 by (cases s) auto
qed simp

text \<open>Calls whose arguments are several objects one after the other become one call for each object: the
  name stays, every object's text is the arguments of exactly one call, and the order is kept.
\<close>

theorem split_calls_exact:
  assumes "list_all2 (\<lambda>call s. call_text call = Some (fst s, concat (map (json_write sp a f) (snd s)))) calls specs"
    and "blank sp" and "\<forall>s\<in>set specs. snd s \<noteq> [] \<and> (\<forall>v\<in>set (snd s). is_dict v \<and> json_plain v)"
  shows "\<exists>cs. split_tool_calls g new_id calls = Inr cs
    \<and> map call_text cs = concat (map (\<lambda>(name, vs). map (\<lambda>v. Some (name, json_write sp a f v)) vs) specs)"
  using split_calls_objects [OF assms, of g new_id 0 "[]"] by (auto simp: split_tool_calls_def)

theorem split_calls_exact_witness:
  "\<exists>cs. split_tool_calls (\<lambda>_. 0) (\<lambda>_. []) [PDict [(''function'', PDict [(''name'', PStr ''s''), (''arguments'', PStr ''{}{}'')])]] = Inr cs
     \<and> map call_text cs = [Some (PStr ''s'', ''{}''), Some (PStr ''s'', ''{}'')]"
  using split_calls_exact [of "[]" False "\<lambda>_. []"
      "[PDict [(''function'', PDict [(''name'', PStr ''s''), (''arguments'', PStr ''{}{}'')])]]"
      "[(PStr ''s'', [PDict [], PDict []])]" "\<lambda>_. 0" "\<lambda>_. []"]
  by (simp add: call_text_def blank_def)

section \<open>An event touches one item\<close>

definition touched :: "pv list \<Rightarrow> pv list \<Rightarrow> bool" where
  "touched out out' = (out' = out \<or> (\<exists>i<length out. \<exists>x. out' = out[i := x]) \<or> (\<exists>x. out' = out @ [x]))"

lemma touched_simps [simp]: "touched out out" "touched out (out[i := x])" "touched out (out @ [x])"
  by (auto simp: touched_def) (metis list_update_beyond not_less)

lemma with_item_post:
  assumes "rpost none Q" and "\<And>i item. rpost (go i item) Q"
  shows "rpost (with_item data out none go) Q"
  unfolding with_item_def using assms by (intro rpost_bindI) (auto split: option.split intro: rpost_bindI)

lemma branches_touch:
  "rpost (item_added data out) (\<lambda>r. touched out (fst r))"
  "rpost (content_part_added data out) (\<lambda>r. touched out (fst r))"
  "rpost (summary_part_added data out) (\<lambda>r. touched out (fst r))"
  "rpost (delta_event f parts data out) (\<lambda>r. touched out (fst r))"
  "rpost (part_done key ikey data out) (\<lambda>r. touched out (fst r))"
  "rpost (field_done name data out) (\<lambda>r. touched out (fst r))"
  "rpost (output_item_done data out) (\<lambda>r. touched out (fst r))"
  "rpost (response_failed data out) (\<lambda>r. touched out (fst r))"
  by (simp add: item_added_def Let_def)
    (auto simp: content_part_added_def summary_part_added_def delta_event_def part_done_def field_done_def output_item_done_def
      response_failed_def Let_def split: option.split intro!: with_item_post rpost_bindI)

text \<open>Every event but the final one leaves the output as it is, replaces one item or appends one: no
  item is lost, and no two items change at once.
\<close>

theorem event_touches_one_item:
  assumes "handle_responses_streaming_event f data out = Inr (out', m)"
    and "od_getd data ''type'' (PStr []) \<noteq> PStr ''response.completed''"
  shows "out' = out \<or> (\<exists>i<length out. \<exists>x. out' = out[i := x]) \<or> (\<exists>x. out' = out @ [x])"
proof -
  have "rpost (handle_responses_streaming_event f data out) (\<lambda>r. touched out (fst r))"
  proof (cases "od_getd data ''type'' (PStr [])")
    case (PStr t)
    have "t \<noteq> ''response.completed''"
      using assms(2) PStr by simp
    then show ?thesis
      unfolding handle_responses_streaming_event_def PStr pv.case done_event_def Let_def
      by (simp only: if_False) (intro rpost_ifI branches_touch, simp_all)
  qed (simp_all add: handle_responses_streaming_event_def)
  then show ?thesis
    using assms(1) by (simp add: rpost_def touched_def)
qed

theorem event_touches_one_item_witness:
  "fst (projr (handle_responses_streaming_event (\<lambda>_. []) [(''type'', PStr ''response.output_item.added''),
       (''item'', PDict [(''type'', PStr ''message'')])] [])) = [PDict [(''type'', PStr ''message'')]]
   \<and> touched [] [PDict [(''type'', PStr ''message'')]]"
proof -
  have "handle_responses_streaming_event (\<lambda>_. []) [(''type'', PStr ''response.output_item.added''),
       (''item'', PDict [(''type'', PStr ''message'')])] [] = Inr ([PDict [(''type'', PStr ''message'')]], None)"
    by code_simp
  then show ?thesis
    using event_touches_one_item [of "\<lambda>_. []" "[(''type'', PStr ''response.output_item.added''),
       (''item'', PDict [(''type'', PStr ''message'')])]" "[]"] by (auto simp: touched_def)
qed

section \<open>What is never reached\<close>

lemma event_names:
  "py_split CHR ''.'' ''response.output_item.done'' = [''response'', ''output_item'', ''done'']"
  "py_split CHR ''.'' ''response.output_text.delta'' = [''response'', ''output_text'', ''delta'']"
  "py_split CHR ''.'' ''response.function_call_arguments.delta'' = [''response'', ''function_call_arguments'', ''delta'']"
  "py_split CHR ''.'' ''response.reasoning_summary_text.delta'' = [''response'', ''reasoning_summary_text'', ''delta'']"
  "py_split CHR ''.'' ''response.output_text.done'' = [''response'', ''output_text'', ''done'']"
  "py_split CHR ''.'' ''response.content_part.done'' = [''response'', ''content_part'', ''done'']"
  "py_split CHR ''.'' ''response.function_call_arguments.done'' = [''response'', ''function_call_arguments'', ''done'']"
  by code_simp+

lemma event_kind:
  assumes "od_get data ''type'' = Some (PStr t)"
  shows "t = ''response.output_item.added'' \<Longrightarrow> handle_responses_streaming_event f data out = item_added data out"
    "t = ''response.content_part.added'' \<Longrightarrow> handle_responses_streaming_event f data out = content_part_added data out"
    "t = ''response.reasoning_summary_part.added'' \<Longrightarrow> handle_responses_streaming_event f data out = summary_part_added data out"
    "py_startswith t ''response.'' \<and> py_endswith t ''.delta'' \<Longrightarrow>
       handle_responses_streaming_event f data out = delta_event f (py_split CHR ''.'' t) data out"
    "py_startswith t ''response.'' \<and> py_endswith t ''.done'' \<Longrightarrow>
       handle_responses_streaming_event f data out = done_event (py_split CHR ''.'' t) data out"
proof -
  have h: "handle_responses_streaming_event f data out =
       (if t = ''response.output_item.added'' then item_added data out
         else if t = ''response.content_part.added'' then content_part_added data out
         else if t = ''response.reasoning_summary_part.added'' then summary_part_added data out
         else if py_startswith t ''response.'' \<and> py_endswith t ''.delta''
           then delta_event f (py_split CHR ''.'' t) data out
         else if py_startswith t ''response.'' \<and> py_endswith t ''.done''
           then done_event (py_split CHR ''.'' t) data out
         else if t = ''response.output_item.done'' then output_item_done data out
         else if t = ''response.completed'' then response_completed data out
         else if t = ''response.in_progress'' then Inr (out, None)
         else if t = ''response.failed'' then response_failed data out
         else Inr (out, None))"
    using assms by (simp add: handle_responses_streaming_event_def od_getd_def)
  have no: "\<not> py_endswith ''response.output_item.added'' ''.delta''" "\<not> py_endswith ''response.content_part.added'' ''.delta''"
    "\<not> py_endswith ''response.reasoning_summary_part.added'' ''.delta''"
    "\<not> py_endswith ''response.output_item.added'' ''.done''" "\<not> py_endswith ''response.content_part.added'' ''.done''"
    "\<not> py_endswith ''response.reasoning_summary_part.added'' ''.done''"
    by code_simp+
  have no2: "\<not> py_endswith t ''.delta''" if "py_endswith t ''.done''"
    using that by (auto simp: py_endswith_iff append_eq_append_conv2 Cons_eq_append_conv)
  show "t = ''response.output_item.added'' \<Longrightarrow> handle_responses_streaming_event f data out = item_added data out"
    unfolding h by simp
  show "t = ''response.content_part.added'' \<Longrightarrow> handle_responses_streaming_event f data out = content_part_added data out"
    unfolding h by simp
  show "t = ''response.reasoning_summary_part.added'' \<Longrightarrow> handle_responses_streaming_event f data out = summary_part_added data out"
    unfolding h by simp
  have t: "t \<noteq> ''response.output_item.added''" "t \<noteq> ''response.content_part.added''"
    "t \<noteq> ''response.reasoning_summary_part.added''" if "py_endswith t ''.delta'' \<or> py_endswith t ''.done''"
    using that no by auto
  show "py_startswith t ''response.'' \<and> py_endswith t ''.delta'' \<Longrightarrow>
       handle_responses_streaming_event f data out = delta_event f (py_split CHR ''.'' t) data out"
    unfolding h using t by (simp only: if_True if_False simp_thms)
  show "py_startswith t ''response.'' \<and> py_endswith t ''.done'' \<Longrightarrow>
       handle_responses_streaming_event f data out = done_event (py_split CHR ''.'' t) data out"
    unfolding h using t no2 by (simp only: if_True if_False simp_thms)
qed

text \<open>The finished item of \<^verbatim>\<open>response.output_item.done\<close> is never stored: the branch for every event that
  is done comes before its own.\<close>

lemma finished_item_ignored:
  assumes "od_get data ''type'' = Some (PStr ''response.output_item.done'')"
  shows "handle_responses_streaming_event f data out = Inr (out, None)"
proof -
  have "py_startswith ''response.output_item.done'' ''response.'' \<and> py_endswith ''response.output_item.done'' ''.done''"
    by code_simp
  then show ?thesis
    using event_kind(5) [OF assms] by (simp add: event_names done_event_def)
qed

text \<open>A delta before its item raises.\<close>

lemma delta_without_item:
  assumes "od_get data ''type'' = Some (PStr ''response.output_text.delta'')"
  shows "handle_responses_streaming_event f data [] = Inl UnboundLocalError"
proof -
  have "py_startswith ''response.output_text.delta'' ''response.'' \<and> py_endswith ''response.output_text.delta'' ''.delta''"
    by code_simp
  then show ?thesis
    using event_kind(4) [OF assms] by (simp add: event_names delta_event_def with_item_def addressed_def)
qed

section \<open>A whole stream\<close>

text \<open>The items of an answer with the pieces in which their texts are sent\<close>

datatype sent_item =
    MessageItem string "string list list"
  | CallItem string string string "string list"
  | ReasoningItem string "string list list"

definition text_part :: "string \<Rightarrow> pv" where
  "text_part s = PDict [(''type'', PStr ''output_text''), (''text'', PStr s), (''annotations'', PList [])]"

definition summary_part :: "string \<Rightarrow> pv" where
  "summary_part s = PDict [(''type'', PStr ''summary_text''), (''text'', PStr s)]"

definition message_item :: "string \<Rightarrow> pv list \<Rightarrow> pv" where
  "message_item i parts = PDict [(''type'', PStr ''message''), (''id'', PStr i), (''status'', PStr ''in_progress''),
     (''role'', PStr ''assistant''), (''content'', PList parts)]"

definition call_item :: "string \<Rightarrow> string \<Rightarrow> string \<Rightarrow> string \<Rightarrow> pv" where
  "call_item i cid name args = PDict [(''type'', PStr ''function_call''), (''id'', PStr i), (''call_id'', PStr cid),
     (''name'', PStr name), (''arguments'', PStr args)]"

definition reasoning_item :: "string \<Rightarrow> pv list \<Rightarrow> pv" where
  "reasoning_item i parts = PDict [(''type'', PStr ''reasoning''), (''id'', PStr i), (''summary'', PList parts)]"

fun final_item :: "sent_item \<Rightarrow> pv" where
  "final_item (MessageItem i parts) = message_item i (map (\<lambda>cs. text_part (concat cs)) parts)"
| "final_item (CallItem i cid name cs) = call_item i cid name (concat cs)"
| "final_item (ReasoningItem i parts) = reasoning_item i (map (\<lambda>cs. summary_part (concat cs)) parts)"

definition at_item :: "nat \<Rightarrow> pdict" where
  "at_item k = [(''output_index'', PInt (int k))]"

definition text_delta :: "nat \<Rightarrow> nat \<Rightarrow> string \<Rightarrow> pdict" where
  "text_delta k j c = [(''type'', PStr ''response.output_text.delta''), (''content_index'', PInt (int j)), (''delta'', PStr c)] @ at_item k"

definition summary_delta :: "nat \<Rightarrow> nat \<Rightarrow> string \<Rightarrow> pdict" where
  "summary_delta k j c = [(''type'', PStr ''response.reasoning_summary_text.delta''), (''summary_index'', PInt (int j)), (''delta'', PStr c)] @ at_item k"

definition call_delta :: "nat \<Rightarrow> string \<Rightarrow> pdict" where
  "call_delta k c = [(''type'', PStr ''response.function_call_arguments.delta''), (''delta'', PStr c)] @ at_item k"

definition text_done :: "nat \<Rightarrow> nat \<Rightarrow> string \<Rightarrow> pdict" where
  "text_done k j s = [(''type'', PStr ''response.output_text.done''), (''content_index'', PInt (int j)), (''text'', PStr s)] @ at_item k"

definition text_part_done :: "nat \<Rightarrow> nat \<Rightarrow> string \<Rightarrow> pdict" where
  "text_part_done k j s = [(''type'', PStr ''response.content_part.done''), (''content_index'', PInt (int j)), (''part'', text_part s)] @ at_item k"

definition call_done :: "nat \<Rightarrow> string \<Rightarrow> pdict" where
  "call_done k s = [(''type'', PStr ''response.function_call_arguments.done''), (''arguments'', PStr s)] @ at_item k"

definition added :: "nat \<Rightarrow> pv \<Rightarrow> pdict" where
  "added k item = [(''type'', PStr ''response.output_item.added''), (''item'', item)] @ at_item k"

definition item_finished :: "nat \<Rightarrow> pv \<Rightarrow> pdict" where
  "item_finished k item = [(''type'', PStr ''response.output_item.done''), (''item'', item)] @ at_item k"

definition text_events :: "bool \<Rightarrow> nat \<Rightarrow> nat \<Rightarrow> string list \<Rightarrow> pdict list" where
  "text_events dones k j cs =
     ([(''type'', PStr ''response.content_part.added''), (''part'', text_part [])] @ at_item k)
     # map (text_delta k j) cs @ (if dones then [text_done k j (concat cs), text_part_done k j (concat cs)] else [])"

definition summary_events :: "nat \<Rightarrow> nat \<Rightarrow> string list \<Rightarrow> pdict list" where
  "summary_events k j cs =
     ([(''type'', PStr ''response.reasoning_summary_part.added''), (''part'', summary_part [])] @ at_item k)
     # map (summary_delta k j) cs"

fun parts_from :: "(nat \<Rightarrow> string list \<Rightarrow> pdict list) \<Rightarrow> nat \<Rightarrow> string list list \<Rightarrow> pdict list" where
  "parts_from ev j [] = []"
| "parts_from ev j (cs # css) = ev j cs @ parts_from ev (Suc j) css"

text \<open>The events of an item, those that report something as done only where \<open>dones\<close> says so\<close>

fun item_events :: "bool \<Rightarrow> nat \<Rightarrow> sent_item \<Rightarrow> pdict list" where
  "item_events dones k (MessageItem i parts) =
     added k (message_item i []) # parts_from (text_events dones k) 0 parts
     @ (if dones then [item_finished k (final_item (MessageItem i parts))] else [])"
| "item_events dones k (CallItem i cid name cs) =
     added k (call_item i cid name []) # map (call_delta k) cs
     @ (if dones then [call_done k (concat cs), item_finished k (final_item (CallItem i cid name cs))] else [])"
| "item_events dones k (ReasoningItem i parts) =
     added k (reasoning_item i []) # parts_from (summary_events k) 0 parts
     @ (if dones then [item_finished k (final_item (ReasoningItem i parts))] else [])"

fun stream_events :: "bool \<Rightarrow> nat \<Rightarrow> sent_item list \<Rightarrow> pdict list" where
  "stream_events dones k [] = []"
| "stream_events dones k (it # its) = item_events dones k it @ stream_events dones (Suc k) its"

definition run_events :: "(rat \<Rightarrow> string) \<Rightarrow> pv list \<Rightarrow> pdict list \<Rightarrow> pv list res" where
  "run_events f out es = rfoldM (\<lambda>out e. rmap fst (handle_responses_streaming_event f e out)) out es"

lemma run_events_simps [simp]:
  "run_events f out [] = Inr out"
  "run_events f out (es @ es') = rbind (run_events f out es) (\<lambda>out. run_events f out es')"
  by (simp_all add: run_events_def rfoldM_append)

lemma run_event: "handle_responses_streaming_event f e out = Inr (out', m) \<Longrightarrow> run_events f out (e # es) = run_events f out' es"
  by (simp add: run_events_def)

section \<open>Step by step\<close>

lemma addressed_last:
  assumes "od_get data ''output_index'' = Some (PInt (int (length pre)))"
  shows "addressed data (pre @ [item]) = Inr (Some (length pre))"
  using assms by (simp add: addressed_def in_bounds_def list_place_def as_int_def od_getd_def)

lemma with_last:
  assumes "od_get data ''output_index'' = Some (PInt (int (length pre)))" and "is_dict item"
  shows "with_item data (pre @ [item]) none go = go (length pre) item"
  using assms(2) by (cases item) (simp_all add: with_item_def addressed_last [OF assms(1)] pcopy_def)

lemma at_item_get: "od_get (at_item k) ''output_index'' = Some (PInt (int k))"
  by (simp add: at_item_def)

lemma message_item_fields:
  "is_dict (message_item i ps)" "pget (message_item i ps) ''type'' d = Inr (PStr ''message'')"
  "pin ''content'' (message_item i ps) = Inr True" "pidx (message_item i ps) ''content'' = Inr (PList ps)"
  "pset (message_item i ps) ''content'' (PList qs) = Inr (message_item i qs)"
  by (simp_all add: message_item_def pidx_dict od_has_def)

lemma reasoning_item_fields:
  "is_dict (reasoning_item i ps)" "pget (reasoning_item i ps) ''type'' d = Inr (PStr ''reasoning'')"
  "pin ''summary'' (reasoning_item i ps) = Inr True" "pidx (reasoning_item i ps) ''summary'' = Inr (PList ps)"
  "pset (reasoning_item i ps) ''summary'' (PList qs) = Inr (reasoning_item i qs)"
  by (simp_all add: reasoning_item_def pidx_dict od_has_def)

lemma call_item_fields:
  "is_dict (call_item i c n a)" "pget (call_item i c n a) ''type'' d = Inr (PStr ''function_call'')"
  "pget (call_item i c n a) ''arguments'' d = Inr (PStr a)"
  "pset (call_item i c n a) ''arguments'' (PStr b) = Inr (call_item i c n b)"
  by (simp_all add: call_item_def)

lemma text_part_fields:
  "pcopy (text_part s) = Inr (text_part s)" "pget (text_part s) ''text'' d = Inr (PStr s)"
  "pset (text_part s) ''text'' (PStr t) = Inr (text_part t)" "truthy (text_part s)"
  "pcopy (summary_part s) = Inr (summary_part s)" "pget (summary_part s) ''text'' d = Inr (PStr s)"
  "pset (summary_part s) ''text'' (PStr t) = Inr (summary_part t)"
  by (simp_all add: text_part_def summary_part_def pcopy_def)

lemma change_last_part:
  assumes "pin key item = Inr True" and "pidx item key = Inr (PList (ps @ [p]))" and "pset item key (PList (ps @ [p])) = Inr item"
    and "pcopy p = Inr p" and "change p = Inr p'"
  shows "change_part key kind (PInt (int (length ps))) item change = pset item key (PList (ps @ [p']))"
  using assms by (simp add: change_part_def own_list_def pad_list_def as_int_def list_place_def)

lemma delta_names:
  "py_startswith ''response.output_text.delta'' ''response.'' \<and> py_endswith ''response.output_text.delta'' ''.delta''"
  "py_startswith ''response.function_call_arguments.delta'' ''response.'' \<and> py_endswith ''response.function_call_arguments.delta'' ''.delta''"
  "py_startswith ''response.reasoning_summary_text.delta'' ''response.'' \<and> py_endswith ''response.reasoning_summary_text.delta'' ''.delta''"
  "py_startswith ''response.output_text.done'' ''response.'' \<and> py_endswith ''response.output_text.done'' ''.done''"
  "py_startswith ''response.content_part.done'' ''response.'' \<and> py_endswith ''response.content_part.done'' ''.done''"
  "py_startswith ''response.function_call_arguments.done'' ''response.'' \<and> py_endswith ''response.function_call_arguments.done'' ''.done''"
  by code_simp+

lemma at_last: "od_get (es @ at_item k) ''output_index'' = Some (PInt (int k))" if "od_get es ''output_index'' = None"
  using that by (simp add: at_item_def map_add_def)

lemma text_delta_step:
  "handle_responses_streaming_event f (text_delta (length pre) (length ps) c) (pre @ [message_item i (ps @ [text_part s])])
     = Inr (pre @ [message_item i (ps @ [text_part (s @ c)])], None)"
proof -
  let ?e = "text_delta (length pre) (length ps) c" and ?item = "message_item i (ps @ [text_part s])"
  have e: "od_get ?e ''type'' = Some (PStr ''response.output_text.delta'')" "od_get ?e ''output_index'' = Some (PInt (int (length pre)))"
    "od_getd ?e ''content_index'' (PInt 0) = PInt (int (length ps))" "od_getd ?e ''delta'' (PStr []) = PStr c"
    by (simp_all add: text_delta_def at_item_def)
  have "change_part ''content'' ''text'' (PInt (int (length ps))) ?item
      (\<lambda>part. rbind (pget part ''text'' PNone) (\<lambda>cur. pset part ''text'' (grown cur (PStr c))))
    = pset ?item ''content'' (PList (ps @ [text_part (s @ c)]))"
    by (rule change_last_part [where p = "text_part s"]) (simp_all add: message_item_fields text_part_fields grown_def)
  then have "item_delta f ?e ''output_text'' ?item = Inr (message_item i (ps @ [text_part (s @ c)]))"
    by (simp add: item_delta_def message_item_fields message_delta_def e text_key_def)
  then show ?thesis
    using event_kind(4) [OF e(1) delta_names(1)]
    by (simp add: event_names delta_event_def with_last [OF e(2) message_item_fields(1)])
qed

lemma summary_delta_step:
  "handle_responses_streaming_event f (summary_delta (length pre) (length ps) c) (pre @ [reasoning_item i (ps @ [summary_part s])])
     = Inr (pre @ [reasoning_item i (ps @ [summary_part (s @ c)])], None)"
proof -
  let ?e = "summary_delta (length pre) (length ps) c" and ?item = "reasoning_item i (ps @ [summary_part s])"
  have e: "od_get ?e ''type'' = Some (PStr ''response.reasoning_summary_text.delta'')" "od_get ?e ''output_index'' = Some (PInt (int (length pre)))"
    "od_getd ?e ''summary_index'' (PInt 0) = PInt (int (length ps))" "od_getd ?e ''delta'' (PStr []) = PStr c"
    by (simp_all add: summary_delta_def at_item_def)
  have "change_part ''summary'' ''summary_text'' (PInt (int (length ps))) ?item
      (\<lambda>part. rbind (pget part ''text'' (PStr [])) (\<lambda>cur. pset part ''text'' (deep_merge cur (PStr c))))
    = pset ?item ''summary'' (PList (ps @ [summary_part (s @ c)]))"
    by (rule change_last_part [where p = "summary_part s"]) (simp_all add: reasoning_item_fields text_part_fields)
  then have "item_delta f ?e ''reasoning_summary_text'' ?item = Inr (reasoning_item i (ps @ [summary_part (s @ c)]))"
    by (simp add: item_delta_def reasoning_item_fields reasoning_delta_def e)
  then show ?thesis
    using event_kind(4) [OF e(1) delta_names(3)]
    by (simp add: event_names delta_event_def with_last [OF e(2) reasoning_item_fields(1)])
qed

lemma call_delta_step:
  "handle_responses_streaming_event f (call_delta (length pre) c) (pre @ [call_item i cid name a])
     = Inr (pre @ [call_item i cid name (a @ c)], None)"
proof -
  let ?e = "call_delta (length pre) c"
  have e: "od_get ?e ''type'' = Some (PStr ''response.function_call_arguments.delta'')" "od_get ?e ''output_index'' = Some (PInt (int (length pre)))"
    "od_getd ?e ''delta'' (PStr []) = PStr c"
    by (simp_all add: call_delta_def at_item_def)
  have "item_delta f ?e ''function_call_arguments'' (call_item i cid name a) = Inr (call_item i cid name (a @ c))"
    by (simp add: item_delta_def call_item_fields e py_str_def)
  then show ?thesis
    using event_kind(4) [OF e(1) delta_names(2)]
    by (simp add: event_names delta_event_def with_last [OF e(2) call_item_fields(1)])
qed

lemma text_done_step:
  "handle_responses_streaming_event f (text_done (length pre) (length ps) s) (pre @ [message_item i (ps @ [text_part s'])])
     = Inr (pre @ [message_item i (ps @ [text_part s])], Some [])"
proof -
  let ?e = "text_done (length pre) (length ps) s" and ?item = "message_item i (ps @ [text_part s'])"
  have e: "od_get ?e ''type'' = Some (PStr ''response.output_text.done'')" "od_get ?e ''output_index'' = Some (PInt (int (length pre)))"
    "od_getd ?e ''content_index'' (PInt 0) = PInt (int (length ps))" "od_get ?e ''text'' = Some (PStr s)"
    by (simp_all add: text_done_def at_item_def)
  have "done_key ''output_text'' = ''text''"
    by (simp add: done_key_def)
  moreover have "message_done ?e ''text'' (PStr s) ?item = Inr (message_item i (ps @ [text_part s]))"
    by (simp add: message_done_def e message_item_fields own_list_def as_int_def list_place_def text_part_fields)
  ultimately have "item_done ?e ''output_text'' (PStr s) ?item = Inr (message_item i (ps @ [text_part s]))"
    by (simp add: item_done_def message_item_fields)
  moreover have "pcopy ?item = Inr ?item"
    by (simp add: message_item_def pcopy_def)
  ultimately show ?thesis
    using event_kind(5) [OF e(1) delta_names(4)] \<open>done_key _ = _\<close>
    by (simp add: event_names done_event_def field_done_def addressed_last [OF e(2)] e(4))
qed

lemma part_done_step:
  "handle_responses_streaming_event f (text_part_done (length pre) (length ps) s) (pre @ [message_item i (ps @ [text_part s'])])
     = Inr (pre @ [message_item i (ps @ [text_part s])], Some [])"
proof -
  let ?e = "text_part_done (length pre) (length ps) s"
  have e: "od_get ?e ''type'' = Some (PStr ''response.content_part.done'')" "od_get ?e ''output_index'' = Some (PInt (int (length pre)))"
    "od_getd ?e ''content_index'' d = PInt (int (length ps))" "od_getd ?e ''part'' PNone = text_part s" for d
    by (simp_all add: text_part_done_def at_item_def)
  show ?thesis
    using event_kind(5) [OF e(1) delta_names(5)]
    by (simp add: event_names done_event_def part_done_def with_last [OF e(2) message_item_fields(1)] e(3,4) message_item_fields
        text_part_fields own_list_def in_bounds_def list_place_def as_int_def)
qed

lemma call_done_step:
  "handle_responses_streaming_event f (call_done (length pre) b) (pre @ [call_item i cid name a])
     = Inr (pre @ [call_item i cid name b], Some [])"
proof -
  let ?e = "call_done (length pre) b"
  have e: "od_get ?e ''type'' = Some (PStr ''response.function_call_arguments.done'')" "od_get ?e ''output_index'' = Some (PInt (int (length pre)))"
    "od_get ?e ''arguments'' = Some (PStr b)"
    by (simp_all add: call_done_def at_item_def)
  have "done_key ''function_call_arguments'' = ''arguments''" "pcopy (call_item i cid name a) = Inr (call_item i cid name a)"
    by (simp_all add: done_key_def call_item_def pcopy_def)
  moreover have "item_done ?e ''function_call_arguments'' (PStr b) (call_item i cid name a) = Inr (call_item i cid name b)"
    by (simp add: item_done_def call_item_fields)
  ultimately show ?thesis
    using event_kind(5) [OF e(1) delta_names(6)]
    by (simp add: event_names done_event_def field_done_def addressed_last [OF e(2)] e(3))
qed

section \<open>Streams rebuild what was sent\<close>

lemma added_step: "handle_responses_streaming_event f (added k item) out = Inr (out @ [item], None)" if "truthy item"
proof -
  have "od_get (added k item) ''type'' = Some (PStr ''response.output_item.added'')" "od_getd (added k item) ''item'' (PDict []) = item"
    by (simp_all add: added_def)
  then show ?thesis
    using that event_kind(1) by (simp add: item_added_def)
qed

lemma finished_step: "handle_responses_streaming_event f (item_finished k item) out = Inr (out, None)"
  by (rule finished_item_ignored) (simp add: item_finished_def)

lemma part_added_step:
  "handle_responses_streaming_event f
     ([(''type'', PStr ''response.content_part.added''), (''part'', p)] @ at_item (length pre)) (pre @ [message_item i ps])
     = Inr (pre @ [message_item i (ps @ [p])], None)"
proof -
  let ?e = "[(''type'', PStr ''response.content_part.added''), (''part'', p)] @ at_item (length pre)"
  have e: "od_get ?e ''type'' = Some (PStr ''response.content_part.added'')" "od_get ?e ''output_index'' = Some (PInt (int (length pre)))"
    "od_getd ?e ''part'' (PDict []) = p"
    by (simp_all add: at_item_def)
  show ?thesis
    unfolding event_kind(2) [OF e(1) refl] content_part_added_def with_last [OF e(2) message_item_fields(1)] e(3)
    by (simp add: message_item_fields own_list_def)
qed

lemma summary_added_step:
  "handle_responses_streaming_event f
     ([(''type'', PStr ''response.reasoning_summary_part.added''), (''part'', p)] @ at_item (length pre)) (pre @ [reasoning_item i ps])
     = Inr (pre @ [reasoning_item i (ps @ [p])], None)"
proof -
  let ?e = "[(''type'', PStr ''response.reasoning_summary_part.added''), (''part'', p)] @ at_item (length pre)"
  have e: "od_get ?e ''type'' = Some (PStr ''response.reasoning_summary_part.added'')" "od_get ?e ''output_index'' = Some (PInt (int (length pre)))"
    "od_getd ?e ''part'' (PDict []) = p"
    by (simp_all add: at_item_def)
  show ?thesis
    unfolding event_kind(3) [OF e(1) refl] summary_part_added_def with_last [OF e(2) reasoning_item_fields(1)] e(3)
    by (simp add: reasoning_item_fields own_list_def)
qed

lemma run_text_deltas:
  "run_events f (pre @ [message_item i (ps @ [text_part s])]) (map (text_delta (length pre) (length ps)) cs)
     = Inr (pre @ [message_item i (ps @ [text_part (s @ concat cs)])])"
  by (induction cs arbitrary: s) (simp_all add: run_event [OF text_delta_step])

lemma run_summary_deltas:
  "run_events f (pre @ [reasoning_item i (ps @ [summary_part s])]) (map (summary_delta (length pre) (length ps)) cs)
     = Inr (pre @ [reasoning_item i (ps @ [summary_part (s @ concat cs)])])"
  by (induction cs arbitrary: s) (simp_all add: run_event [OF summary_delta_step])

lemma run_call_deltas:
  "run_events f (pre @ [call_item i cid name a]) (map (call_delta (length pre)) cs) = Inr (pre @ [call_item i cid name (a @ concat cs)])"
  by (induction cs arbitrary: a) (simp_all add: run_event [OF call_delta_step])

lemma run_text_events:
  "run_events f (pre @ [message_item i ps]) (text_events dones (length pre) (length ps) cs)
     = Inr (pre @ [message_item i (ps @ [text_part (concat cs)])])"
  using run_text_deltas [of f pre i ps "[]" cs]
  by (simp add: text_events_def run_event [OF part_added_step] run_event [OF text_done_step] run_event [OF part_done_step]
      del: append_Cons)

lemma run_summary_events:
  "run_events f (pre @ [reasoning_item i ps]) (summary_events (length pre) (length ps) cs)
     = Inr (pre @ [reasoning_item i (ps @ [summary_part (concat cs)])])"
  using run_summary_deltas [of f pre i ps "[]" cs]
  by (simp add: summary_events_def run_event [OF summary_added_step] del: append_Cons)

lemma run_parts:
  assumes "\<And>ps cs. run_events f (pre @ [item ps]) (ev (length ps) cs) = Inr (pre @ [item (ps @ [part (concat cs)])])"
  shows "run_events f (pre @ [item ps]) (parts_from ev (length ps) css) = Inr (pre @ [item (ps @ map (\<lambda>cs. part (concat cs)) css)])"
proof (induction css arbitrary: ps)
  case (Cons cs css)
  then show ?case
    using Cons.IH [of "ps @ [part (concat cs)]"] by (simp add: assms)
qed simp

lemma run_item: "run_events f pre (item_events dones (length pre) it) = Inr (pre @ [final_item it])"
proof (cases it)
  case (MessageItem i parts)
  have "truthy (message_item i [])"
    by (simp add: message_item_def)
  then show ?thesis
    using run_parts [where item = "message_item i" and part = text_part and ev = "text_events dones (length pre)" and pre = pre and f = f
        and ps = "[]" and css = parts, OF run_text_events]
    by (simp add: MessageItem run_event [OF added_step] run_event [OF finished_step])
next
  case (CallItem i cid name cs)
  have "truthy (call_item i cid name [])"
    by (simp add: call_item_def)
  then show ?thesis
    using run_call_deltas [of f pre i cid name "[]" cs]
    by (simp add: CallItem run_event [OF added_step] run_event [OF finished_step] run_event [OF call_done_step])
next
  case (ReasoningItem i parts)
  have "truthy (reasoning_item i [])"
    by (simp add: reasoning_item_def)
  then show ?thesis
    using run_parts [where item = "reasoning_item i" and part = summary_part and ev = "summary_events (length pre)" and pre = pre and f = f
        and ps = "[]" and css = parts, OF run_summary_events]
    by (simp add: ReasoningItem run_event [OF added_step] run_event [OF finished_step])
qed

lemma run_stream: "run_events f pre (stream_events dones (length pre) its) = Inr (pre @ map final_item its)"
proof (induction its arbitrary: pre)
  case (Cons it its)
  then show ?case
    using Cons.IH [of "pre @ [final_item it]"] by (simp add: run_item)
qed simp


end
