(* ===== verification/Output_Stream.thy ===== *)
theory Output_Stream
  imports Response_Events Text_Scan
begin

text \<open>
  The deltas of a chat completion as they build the output of an answer, the inner part of
  \<^verbatim>\<open>stream_body_handler\<close> in \<^verbatim>\<open>backend/openlaunch/utils/middleware.py\<close>: the pieces of tool calls, the
  reasoning a provider sends apart, the text with its tags for reasoning, solutions and code, and the
  clean-up at the end of the stream. The items are those that the handler makes itself; the clock is
  read once for every delta, generated ids are numbered, and the conversion of inline images, the
  events sent to the browser and the stored copies are not modelled.
\<close>

section \<open>Output items\<close>

record out_item =
  oi_type :: string
  oi_id :: string
  oi_status :: string
  oi_content :: "(string \<times> string) list"
  oi_code :: string
  oi_lang :: string
  oi_tag :: "string option"
  oi_marks :: "string \<times> string"
  oi_attrs :: "(string, string) od"
  oi_started :: "rat option"
  oi_ended :: "rat option"
  oi_duration :: "int option"
  oi_details :: "pv list"

definition code_type :: string where
  "code_type = ''openlaunch:code_interpreter''"

definition new_item :: "string \<Rightarrow> string \<Rightarrow> out_item" where
  "new_item ty i = \<lparr>oi_type = ty, oi_id = i, oi_status = ''in_progress'', oi_content = [], oi_code = [], oi_lang = [],
     oi_tag = None, oi_marks = ([], []), oi_attrs = [], oi_started = None, oi_ended = None, oi_duration = None, oi_details = []\<rparr>"

definition text_item :: "string \<Rightarrow> string \<Rightarrow> out_item" where
  "text_item i s = (new_item ''message'' (''msg_'' @ i))\<lparr>oi_content := [(''output_text'', s)]\<rparr>"

definition last_type :: "out_item list \<Rightarrow> string" where
  "last_type out = (if out = [] then [] else oi_type (last out))"

definition part_text :: "(string \<times> string) list \<Rightarrow> string" where
  "part_text ps = (if ps \<noteq> [] \<and> fst (last ps) = ''output_text'' then snd (last ps) else [])"

definition set_part_text :: "string \<Rightarrow> (string \<times> string) list \<Rightarrow> (string \<times> string) list" where
  "set_part_text s ps = (if ps \<noteq> [] \<and> fst (last ps) = ''output_text'' then butlast ps @ [(''output_text'', s)] else ps)"

text \<open>Text added to the last part, or in place of the parts where the last one is no text\<close>

definition add_part_text :: "string \<Rightarrow> (string \<times> string) list \<Rightarrow> (string \<times> string) list" where
  "add_part_text s ps =
     (if ps \<noteq> [] \<and> fst (last ps) = ''output_text'' then butlast ps @ [(''output_text'', snd (last ps) @ s)]
      else [(''output_text'', s)])"

definition change_last :: "(out_item \<Rightarrow> out_item) \<Rightarrow> out_item list \<Rightarrow> out_item list" where
  "change_last f out = (if out = [] then [] else butlast out @ [f (last out)])"

definition get_last_text :: "out_item list \<Rightarrow> string" where
  "get_last_text out = (if last_type out = ''message'' then part_text (oi_content (last out)) else [])"

definition set_last_text :: "string \<Rightarrow> out_item list \<Rightarrow> out_item list" where
  "set_last_text s out =
     (if last_type out = ''message'' then change_last (\<lambda>x. x\<lparr>oi_content := set_part_text s (oi_content x)\<rparr>) out else out)"

section \<open>Tags\<close>

text \<open>\<^verbatim>\<open>(\s.*?)?>\<close> after the name of a tag: what stands before the bracket, which no line feed parts from it\<close>

definition tag_tail :: "string \<Rightarrow> string option" where
  "tag_tail r = (case r of
      [] \<Rightarrow> None
    | c # q \<Rightarrow>
       (if c = CHR ''>'' then Some []
        else let body = takeWhile (\<lambda>d. d \<noteq> CHR ''>'') q in
          if is_space c \<and> CHR ''>'' \<in> set q \<and> CHR 0x0A \<notin> set body then Some (c # body) else None))"

text \<open>A start tag at the beginning of a text: its length there and its attributes\<close>

definition tag_at :: "string \<Rightarrow> string \<Rightarrow> (nat \<times> string) option" where
  "tag_at tag s =
     (if py_startswith tag ''<'' \<and> py_endswith tag ''>''
      then (let opening = butlast tag in
        if py_startswith s opening
        then map_option (\<lambda>a. (length opening + length a + 1, a)) (tag_tail (drop (length opening) s))
        else None)
      else if py_startswith s tag then Some (length tag, []) else None)"

text \<open>\<^verbatim>\<open>re.search\<close>: the text before the first occurrence, its attributes and the text after it\<close>

fun find_tag :: "string \<Rightarrow> string \<Rightarrow> (string \<times> string \<times> string) option" where
  "find_tag tag [] = map_option (\<lambda>(n, a). ([], a, [])) (tag_at tag [])"
| "find_tag tag (c # s) = (case tag_at tag (c # s) of
      Some (n, a) \<Rightarrow> Some ([], a, drop n (c # s))
    | None \<Rightarrow> map_option (\<lambda>(b, a, r). (c # b, a, r)) (find_tag tag s))"

text \<open>The first tag of the list that occurs\<close>

fun first_tag :: "(string \<times> string) list \<Rightarrow> string \<Rightarrow> ((string \<times> string) \<times> string \<times> string \<times> string) option" where
  "first_tag [] s = None"
| "first_tag (t # ts) s = (case find_tag (fst t) s of Some r \<Rightarrow> Some (t, r) | None \<Rightarrow> first_tag ts s)"

text \<open>\<^verbatim>\<open>re.sub(start_tag_pattern, '', s)\<close>\<close>

definition drop_tags :: "string \<Rightarrow> string \<Rightarrow> string" where
  "drop_tags tag s = (if tag = [] then s else concat (map (case_sum (\<lambda>c. [c]) (\<lambda>_. [])) (scan (tag_at tag) s)))"

text \<open>The text before and after the first occurrence of a text\<close>

fun cut_at :: "string \<Rightarrow> string \<Rightarrow> (string \<times> string) option" where
  "cut_at sep [] = (if sep = [] then Some ([], []) else None)"
| "cut_at sep (c # s) =
     (if py_startswith (c # s) sep then Some ([], drop (length sep) (c # s))
      else map_option (apfst ((#) c)) (cut_at sep s))"

text \<open>\<^verbatim>\<open>(\w+)\s*=\s*"([^"]+)"\<close> at the beginning of a text\<close>

definition attr_at :: "string \<Rightarrow> (nat \<times> string \<times> string) option" where
  "attr_at s =
     (let key = takeWhile word_char s; r = dropWhile is_space (dropWhile word_char s) in
      if key = [] then None
      else (case r of
          [] \<Rightarrow> None
        | c # q \<Rightarrow>
           (if c \<noteq> CHR ''='' then None
            else (case dropWhile is_space q of
                [] \<Rightarrow> None
              | d # v \<Rightarrow>
                 (let val = takeWhile (\<lambda>x. x \<noteq> CHR 0x22) v in
                  if d \<noteq> CHR 0x22 \<or> val = [] \<or> CHR 0x22 \<notin> set v then None
                  else Some (length s - length v + length val + 1, key, val))))))"

definition extract_attributes :: "string \<Rightarrow> (string, string) od" where
  "extract_attributes s =
     foldl (\<lambda>d x. (case x of Inl c \<Rightarrow> d | Inr (k, v) \<Rightarrow> od_set k v d)) [] (scan attr_at s)"

section \<open>The tag handler\<close>

record stream_env =
  se_id :: "nat \<Rightarrow> string"
  se_now :: rat
  se_depth :: nat

text \<open>The number of the next generated id and the output\<close>

type_synonym out_state = "nat \<times> out_item list"

definition block_type :: "string \<Rightarrow> string" where
  "block_type ct = (if ct = ''reasoning'' then ''reasoning'' else if ct = ''solution'' then ''message''
     else if ct = ''code_interpreter'' then code_type else ct)"

definition open_block :: "stream_env \<Rightarrow> string \<Rightarrow> string \<times> string \<Rightarrow> (string, string) od \<Rightarrow> nat \<Rightarrow> out_item" where
  "open_block env ct marks attrs n =
     (let it = (\<lambda>ty p. (new_item ty (p @ se_id env n))\<lparr>oi_marks := marks, oi_attrs := attrs, oi_started := Some (se_now env)\<rparr>) in
      if block_type ct = ''reasoning'' then it ''reasoning'' ''r_''
      else if block_type ct = code_type then (it code_type ''ci_'')\<lparr>oi_lang := od_getd attrs ''lang'' ''python''\<rparr>
      else (it ''message'' ''msg_'')\<lparr>oi_content := [(''output_text'', [])], oi_tag := Some ct\<rparr>)"

text \<open>The text of a block that is open at the end of the output\<close>

definition block_text :: "out_item \<Rightarrow> string" where
  "block_text item = (if oi_type item = code_type then oi_code item else part_text (oi_content item))"

definition fill_block :: "string \<Rightarrow> out_item \<Rightarrow> out_item" where
  "fill_block s item =
     (if oi_type item = ''reasoning'' then item\<lparr>oi_content := [(''output_text'', s)]\<rparr>
      else if oi_type item = code_type then item\<lparr>oi_code := s\<rparr>
      else item\<lparr>oi_content := set_part_text s (oi_content item)\<rparr>)"

definition end_block :: "rat \<Rightarrow> out_item \<Rightarrow> out_item res" where
  "end_block now item =
     (if oi_type item = ''reasoning'' \<or> oi_type item = code_type
      then (case oi_started item of
          None \<Rightarrow> Inl (KeyError ''started_at'')
        | Some t \<Rightarrow> Inr (item\<lparr>oi_ended := Some now, oi_duration := Some (trunc_rat (now - t)),
            oi_status := (if oi_type item = ''reasoning'' then ''completed'' else oi_status item)\<rparr>))
      else Inr (item\<lparr>oi_ended := Some now\<rparr>))"

text \<open>The block at the end of the output is closed where its text has the end tag.\<close>

definition close_block :: "stream_env \<Rightarrow> out_state \<Rightarrow> (out_state \<times> bool) res" where
  "close_block env s =
     (let (n, out) = s; item = last out; marks = oi_marks item; text = block_text item in
      if cut_at (snd marks) text = None then Inr (s, False)
      else (let stripped = py_strip (drop_tags (fst marks) text);
                parts = (case cut_at (snd marks) stripped of None \<Rightarrow> (stripped, []) | Some p \<Rightarrow> p);
                body = py_strip (fst parts); rest = text_item (se_id env n) (py_strip (snd parts)) in
        if body \<noteq> []
        then rmap (\<lambda>it. ((Suc n, butlast out @ [it, rest]), True)) (end_block (se_now env) (fill_block body item))
        else Inr ((Suc n, butlast out @ [rest]), True)))"

definition in_block :: "string \<Rightarrow> out_item list \<Rightarrow> bool" where
  "in_block ct out =
     ((last_type out = ''reasoning'' \<and> ct = ''reasoning'') \<or> (last_type out = code_type \<and> ct = ''code_interpreter'')
      \<or> (last_type out = ''message'' \<and> oi_tag (last out) = Some ct))"

fun tag_output_handler ::
  "nat \<Rightarrow> stream_env \<Rightarrow> string \<Rightarrow> (string \<times> string) list \<Rightarrow> out_state \<Rightarrow> (out_state \<times> bool) res" where
  "tag_output_handler 0 env ct tags s = Inl RecursionError"
| "tag_output_handler (Suc depth) env ct tags (n, out) =
     (if last_type out = ''message''
      then (case first_tag tags (get_last_text out) of
          None \<Rightarrow> Inr ((n, out), False)
        | Some (marks, before, attr, after) \<Rightarrow>
            (let kept = set_last_text before out;
                 kept = (if py_strip before = [] then butlast kept else kept);
                 block = open_block env ct marks (extract_attributes attr) n
             in if after = [] then Inr ((Suc n, kept @ [block]), False)
                else tag_output_handler depth env ct tags (Suc n, kept @ [fill_block after block])))
      else if in_block ct out then close_block env (n, out)
      else Inr ((n, out), False))"

section \<open>Deltas\<close>

record stream_cfg =
  sc_reasoning :: bool
  sc_tags :: "(string \<times> string) list"
  sc_code :: bool

definition solution_tags :: "(string \<times> string) list" where
  "solution_tags = [(''<|begin_of_solution|>'', ''<|end_of_solution|>'')]"

definition code_tags :: "(string \<times> string) list" where
  "code_tags = [(''<code_interpreter>'', ''</code_interpreter>'')]"

text \<open>The tags for reasoning, but for the one with signs beyond Latin-1\<close>

definition reasoning_tags :: "(string \<times> string) list" where
  "reasoning_tags = [(''<think>'', ''</think>''), (''<thinking>'', ''</thinking>''), (''<reason>'', ''</reason>''),
     (''<reasoning>'', ''</reasoning>''), (''<thought>'', ''</thought>''), (''<Thought>'', ''</Thought>''),
     (''<|begin_of_thought|>'', ''<|end_of_thought|>'')]"

text \<open>Reasoning that a provider sends apart from the text\<close>

definition sent_apart :: "out_item \<Rightarrow> bool" where
  "sent_apart item = (od_getd (oi_attrs item) ''type'' [] = ''reasoning_content'')"

definition new_reasoning :: "stream_env \<Rightarrow> nat \<Rightarrow> out_item" where
  "new_reasoning env n = (new_item ''reasoning'' (''r_'' @ se_id env n))
     \<lparr>oi_marks := (''<think>'', ''</think>''), oi_attrs := [(''type'', ''reasoning_content'')], oi_started := Some (se_now env)\<rparr>"

definition last_reasoning :: "out_item list \<Rightarrow> nat option" where
  "last_reasoning out =
     (let ks = filter (\<lambda>k. oi_type (out ! k) = ''reasoning'') [0..<length out] in if ks = [] then None else Some (last ks))"

text \<open>The item that takes a piece of reasoning: details alone go to the last reasoning, wherever it is.\<close>

definition reasoning_place :: "stream_env \<Rightarrow> bool \<Rightarrow> out_state \<Rightarrow> out_state \<times> nat" where
  "reasoning_place env details_only s =
     (let (n, out) = s in
      case (if details_only then last_reasoning out else None) of
        Some k \<Rightarrow> (s, k)
      | None \<Rightarrow> (if last_type out = ''reasoning'' then (s, length out - 1)
                else ((Suc n, out @ [new_reasoning env n]), length out)))"

definition reasoning_delta_step :: "stream_env \<Rightarrow> string \<Rightarrow> pv \<Rightarrow> out_state \<Rightarrow> out_state res" where
  "reasoning_delta_step env text details s =
     (if text = [] \<and> \<not> truthy details then Inr s
      else (case reasoning_place env (truthy details \<and> text = []) s of ((n, out), k) \<Rightarrow>
        let item = (if text = [] then out ! k else (out ! k)\<lparr>oi_content := add_part_text text (oi_content (out ! k))\<rparr>) in
        if truthy details
        then rmap (\<lambda>ds. (n, out[k := item\<lparr>oi_details := ds\<rparr>])) (merge_streamed_reasoning_details (oi_details item) details)
        else Inr (n, out[k := item])))"

text \<open>Text ends the reasoning that was sent apart.\<close>

definition end_apart :: "stream_env \<Rightarrow> out_state \<Rightarrow> out_state res" where
  "end_apart env s =
     (let (n, out) = s in
      if last_type out = ''reasoning'' \<and> sent_apart (last out)
      then rmap (\<lambda>it. (Suc n, butlast out @ [it, text_item (se_id env n) []])) (end_block (se_now env) (last out))
      else Inr s)"

definition inside_block :: "out_item list \<Rightarrow> bool" where
  "inside_block out = (out \<noteq> [] \<and> oi_status (last out) = ''in_progress'' \<and> \<not> sent_apart (last out)
     \<and> (last_type out = ''reasoning'' \<or> last_type out = code_type
        \<or> (last_type out = ''message'' \<and> oi_tag (last out) \<noteq> None)))"

definition add_text :: "stream_env \<Rightarrow> string \<Rightarrow> out_state \<Rightarrow> out_state" where
  "add_text env v s =
     (let (n, out) = s; add = (\<lambda>it. it\<lparr>oi_content := add_part_text v (oi_content it)\<rparr>) in
      if inside_block out
      then (n, change_last (\<lambda>it. if oi_type it = code_type then it\<lparr>oi_code := oi_code it @ v\<rparr> else add it) out)
      else if last_type out = ''message'' then (n, change_last add out)
      else (Suc n, out @ [add (text_item (se_id env n) [])]))"

definition detect_tags :: "stream_env \<Rightarrow> stream_cfg \<Rightarrow> out_state \<Rightarrow> (out_state \<times> bool) res" where
  "detect_tags env cfg s =
     rbind (if sc_reasoning cfg
            then rbind (tag_output_handler (se_depth env) env ''reasoning'' (sc_tags cfg) s) (\<lambda>(s, _).
                 rmap fst (tag_output_handler (se_depth env) env ''solution'' solution_tags s))
            else Inr s) (\<lambda>s.
       if sc_code cfg then tag_output_handler (se_depth env) env ''code_interpreter'' code_tags s else Inr (s, False))"

text \<open>A piece of text; the flag says that a block of code has ended, which stops the stream.\<close>

definition content_delta :: "stream_env \<Rightarrow> stream_cfg \<Rightarrow> string \<Rightarrow> out_state \<Rightarrow> (out_state \<times> bool) res" where
  "content_delta env cfg v s =
     (if v = [] then Inr (s, False)
      else rbind (end_apart env s) (\<lambda>s. detect_tags env cfg (add_text env v s)))"

section \<open>Pieces of tool calls\<close>

definition same_value :: "pv \<Rightarrow> pv \<Rightarrow> bool" where
  "same_value a b = (a = b \<or> (num_value a \<noteq> None \<and> num_value a = num_value b))"

fun find_call :: "pv \<Rightarrow> pv list \<Rightarrow> nat option res" where
  "find_call i [] = Inr None"
| "find_call i (c # cs) =
     rbind (pget c ''index'' PNone) (\<lambda>j. if same_value j i then Inr (Some 0) else rmap (map_option Suc) (find_call i cs))"

definition set_default :: "pv \<Rightarrow> string \<Rightarrow> pv \<Rightarrow> pv res" where
  "set_default v k x = (case v of PDict d \<Rightarrow> Inr (if od_has d k then v else PDict (od_set k x d)) | _ \<Rightarrow> Inl AttributeError)"

definition first_piece :: "pv \<Rightarrow> pv res" where
  "first_piece d =
     rbind (set_default d ''function'' (PDict [])) (\<lambda>d. rbind (pidx d ''function'') (\<lambda>fn.
     rbind (set_default fn ''name'' (PStr [])) (\<lambda>fn. rbind (set_default fn ''arguments'' (PStr [])) (\<lambda>fn.
       pset d ''function'' fn))))"

text \<open>A later piece: a name replaces the one before, arguments are added; they are texts.\<close>

definition next_piece :: "pv \<Rightarrow> pv \<Rightarrow> pv res" where
  "next_piece c d =
     rbind (pget d ''function'' (PDict [])) (\<lambda>g. rbind (pget g ''name'' PNone) (\<lambda>name. rbind (pget g ''arguments'' PNone) (\<lambda>args.
     rbind (pidx c ''function'') (\<lambda>fn.
     rbind (if truthy name then pset fn ''name'' name else Inr fn) (\<lambda>fn.
     rbind (if \<not> truthy args then Inr fn
            else rbind (pidx fn ''arguments'') (\<lambda>a. (case (a, args) of
                (PStr x, PStr y) \<Rightarrow> pset fn ''arguments'' (PStr (x @ y)) | _ \<Rightarrow> Inl TypeError))) (\<lambda>fn.
       pset c ''function'' fn))))))"

definition call_piece :: "pv list \<Rightarrow> pv \<Rightarrow> pv list res" where
  "call_piece calls d =
     rbind (pget d ''index'' PNone) (\<lambda>i.
       if i = PNone then Inr calls
       else rbind (find_call i calls) (\<lambda>p. case p of
           None \<Rightarrow> rmap (\<lambda>d. calls @ [d]) (first_piece d)
         | Some k \<Rightarrow> rmap (\<lambda>c. calls[k := c]) (next_piece (calls ! k) d)))"

text \<open>The items that show the calls while they are read\<close>

definition pending_call :: "(nat \<Rightarrow> string) \<Rightarrow> nat \<Rightarrow> pv \<Rightarrow> pv res" where
  "pending_call new_id n c =
     rbind (pget c ''id'' (PStr [])) (\<lambda>i. rbind (pget c ''function'' (PDict [])) (\<lambda>fn.
     rbind (pget fn ''name'' (PStr [])) (\<lambda>name. rbind (pget fn ''arguments'' (PStr ''{}'')) (\<lambda>a.
       Inr (PDict [(''type'', PStr ''function_call''), (''id'', py_or i (PStr (''fc_'' @ new_id n))), (''call_id'', i),
         (''name'', name), (''arguments'', a), (''status'', PStr ''in_progress'')])))))"

section \<open>The whole stream\<close>

record delta =
  de_now :: rat
  de_calls :: "pv list"
  de_reasoning :: string
  de_details :: pv
  de_text :: string

record answer_state =
  st_calls :: "pv list"
  st_out :: out_state
  st_stopped :: bool

definition delta_step :: "(nat \<Rightarrow> string) \<Rightarrow> nat \<Rightarrow> stream_cfg \<Rightarrow> answer_state \<Rightarrow> delta \<Rightarrow> answer_state res" where
  "delta_step new_id depth cfg s d =
     (if st_stopped s then Inr s
      else let env = \<lparr>se_id = new_id, se_now = de_now d, se_depth = depth\<rparr> in
        rbind (rfoldM call_piece (st_calls s) (de_calls d)) (\<lambda>calls.
        rbind (reasoning_delta_step env (de_reasoning d) (de_details d) (st_out s)) (\<lambda>o1.
        rbind (content_delta env cfg (de_text d) o1) (\<lambda>(o2, stop).
          Inr \<lparr>st_calls = calls, st_out = o2, st_stopped = stop\<rparr>))))"

text \<open>A reasoning that is still open at the end is closed.\<close>

definition finish_reasoning :: "stream_env \<Rightarrow> out_state \<Rightarrow> out_state res" where
  "finish_reasoning env s =
     (let (n, out) = s in
      if last_type out = ''reasoning'' \<and> oi_ended (last out) = None
      then (case oi_started (last out) of
          None \<Rightarrow> Inl (KeyError ''started_at'')
        | Some t \<Rightarrow> Inr (n, butlast out @ [(last out)\<lparr>oi_ended := Some (se_now env),
            oi_duration := Some (trunc_rat (se_now env - t)), oi_status := ''completed''\<rparr>]))
      else Inr (n, out))"

text \<open>The clean-up: the last text is stripped and goes when it is empty.\<close>

definition finish_output :: "stream_env \<Rightarrow> out_state \<Rightarrow> out_state res" where
  "finish_output env s =
     (let (n, out) = s in
      if out = [] then Inr s
      else finish_reasoning env
            (if last_type out = ''message'' \<and> oi_content (last out) \<noteq> [] \<and> fst (last (oi_content (last out))) = ''output_text''
             then (let t = py_strip (get_last_text out); kept = set_last_text t out in
               if t \<noteq> [] then (n, kept)
               else if butlast kept = [] then (Suc n, [text_item (se_id env n) []]) else (n, butlast kept))
             else (n, out)))"

definition stream_output ::
  "(nat \<Rightarrow> string) \<Rightarrow> nat \<Rightarrow> rat \<Rightarrow> stream_cfg \<Rightarrow> out_state \<Rightarrow> delta list \<Rightarrow> (pv list \<times> out_state) res" where
  "stream_output new_id depth now cfg start ds =
     rbind (rfoldM (delta_step new_id depth cfg) \<lparr>st_calls = [], st_out = start, st_stopped = False\<rparr> ds) (\<lambda>s.
     rmap (Pair (st_calls s)) (finish_output \<lparr>se_id = new_id, se_now = now, se_depth = depth\<rparr> (st_out s)))"

section \<open>Pieces of calls, put together\<close>

text \<open>A piece as providers send it: the first piece of a call has its id, later ones have none.\<close>

record call_part =
  cp_index :: int
  cp_id :: "string option"
  cp_name :: string
  cp_args :: string

definition part_dict :: "call_part \<Rightarrow> pv" where
  "part_dict p = PDict ((''index'', PInt (cp_index p))
     # (case cp_id p of None \<Rightarrow> [] | Some i \<Rightarrow> [(''id'', PStr i), (''type'', PStr ''function'')])
     @ [(''function'', PDict [(''name'', PStr (cp_name p)), (''arguments'', PStr (cp_args p))])])"

text \<open>The call of an index: what the first of its pieces has, the last name sent and all arguments in their order\<close>

definition whole_call :: "call_part list \<Rightarrow> int \<Rightarrow> call_part" where
  "whole_call ps i =
     (let qs = filter (\<lambda>p. cp_index p = i) ps in
      (hd qs)\<lparr>cp_name := foldl (\<lambda>n q. if cp_name q = [] then n else cp_name q) [] qs, cp_args := concat (map cp_args qs)\<rparr>)"

text \<open>The calls in the order in which their indices first appear\<close>

definition whole_calls :: "call_part list \<Rightarrow> pv list" where
  "whole_calls ps = map (\<lambda>i. part_dict (whole_call ps i)) (dedup (map cp_index ps))"

lemma pidx_part [simp]:
  "pidx (part_dict p) ''function'' = Inr (PDict [(''name'', PStr (cp_name p)), (''arguments'', PStr (cp_args p))])"
  by (cases "cp_id p") (simp_all add: part_dict_def pidx_def)

lemma pget_part [simp]:
  "pget (part_dict p) ''function'' x = Inr (PDict [(''name'', PStr (cp_name p)), (''arguments'', PStr (cp_args p))])"
  "pget (part_dict p) ''index'' x = Inr (PInt (cp_index p))"
  by (cases "cp_id p"; simp add: part_dict_def pget_def od_getd_def)+

lemma pset_part:
  "pset (part_dict p) ''function'' (PDict [(''name'', PStr n), (''arguments'', PStr a)])
     = Inr (part_dict (p\<lparr>cp_name := n, cp_args := a\<rparr>))"
  by (cases "cp_id p") (simp_all add: part_dict_def)

lemma first_piece_part: "first_piece (part_dict p) = Inr (part_dict p)"
proof -
  have "set_default (part_dict p) ''function'' (PDict []) = Inr (part_dict p)"
    by (cases "cp_id p") (simp_all add: part_dict_def set_default_def od_has_def)
  then show ?thesis
    by (simp add: first_piece_def set_default_def od_has_def pset_part)
qed

lemma next_piece_part:
  "next_piece (part_dict c) (part_dict d)
     = Inr (part_dict (c\<lparr>cp_name := (if cp_name d = [] then cp_name c else cp_name d), cp_args := cp_args c @ cp_args d\<rparr>))"
proof -
  define fd where "fd = PDict [(''name'', PStr (cp_name d)), (''arguments'', PStr (cp_args d))]"
  define fc where "fc = PDict [(''name'', PStr (cp_name c)), (''arguments'', PStr (cp_args c))]"
  have parts: "pget fd ''name'' PNone = Inr (PStr (cp_name d))" "pget fd ''arguments'' PNone = Inr (PStr (cp_args d))"
    by (simp_all add: fd_def pget_def od_getd_def)
  show ?thesis
    unfolding next_piece_def pget_part pidx_part rbind_simps fd_def [symmetric] parts
    by (simp add: pidx_def pset_part)
qed

lemma same_value_PInt [simp]: "same_value (PInt i) (PInt j) = (i = j)"
  by (simp add: same_value_def num_value_def as_int_def)

lemma find_call_new: "i \<notin> cp_index ` set qs \<Longrightarrow> find_call (PInt i) (map part_dict qs) = Inr None"
  by (induction qs) auto

lemma find_call_at:
  "cp_index q = i \<Longrightarrow> i \<notin> cp_index ` set xs \<Longrightarrow> find_call (PInt i) (map part_dict (xs @ q # ys)) = Inr (Some (length xs))"
  by (induction xs) auto

lemma call_piece_new:
  assumes "cp_index p \<notin> cp_index ` set qs"
  shows "call_piece (map part_dict qs) (part_dict p) = Inr (map part_dict (qs @ [p]))"
  using find_call_new [OF assms] by (simp add: call_piece_def first_piece_part)

lemma call_piece_at:
  assumes "cp_index q = cp_index p" and "cp_index p \<notin> cp_index ` set xs"
  shows "call_piece (map part_dict (xs @ q # ys)) (part_dict p) = Inr (map part_dict
     (xs @ q\<lparr>cp_name := (if cp_name p = [] then cp_name q else cp_name p), cp_args := cp_args q @ cp_args p\<rparr> # ys))"
  using find_call_at [OF assms, of ys] by (simp add: call_piece_def next_piece_part nth_append list_update_append)

lemma dedup_acc_snoc:
  "dedup_acc seen (xs @ [x]) = (if x \<in> set seen \<union> set xs then dedup_acc seen xs else dedup_acc seen xs @ [x])"
  by (induction seen xs rule: dedup_acc.induct) auto

lemma dedup_snoc: "dedup (xs @ [x]) = (if x \<in> set xs then dedup xs else dedup xs @ [x])"
  by (simp add: dedup_def dedup_acc_snoc)

lemma whole_call_snoc:
  "whole_call (ps @ [p]) i = (if cp_index p \<noteq> i then whole_call ps i
     else if i \<notin> cp_index ` set ps then p
     else (whole_call ps i)\<lparr>cp_name := (if cp_name p = [] then cp_name (whole_call ps i) else cp_name p),
       cp_args := cp_args (whole_call ps i) @ cp_args p\<rparr>)"
proof -
  have none: "filter (\<lambda>q. cp_index q = i) ps = [] \<longleftrightarrow> i \<notin> cp_index ` set ps"
    by (auto simp: filter_empty_conv)
  show ?thesis
  proof (cases "filter (\<lambda>q. cp_index q = i) ps")
    case Nil
    then show ?thesis
      using none by (simp add: whole_call_def)
  next
    case (Cons q qs)
    then show ?thesis
      using none by (simp add: whole_call_def)
  qed
qed

lemma cp_index_whole_call: "i \<in> cp_index ` set ps \<Longrightarrow> cp_index (whole_call ps i) = i"
  using hd_in_set [of "filter (\<lambda>q. cp_index q = i) ps"] by (auto simp: whole_call_def filter_empty_conv Let_def)

lemma pieces_put_together:
  "rfoldM call_piece [] (map part_dict ps) = Inr (whole_calls ps)"
  unfolding whole_calls_def
proof (induction ps rule: rev_induct)
  case (snoc p ps)
  let ?is = "dedup (map cp_index ps)"
  define qs where "qs = map (whole_call ps) ?is"
  have calls: "rfoldM call_piece [] (map part_dict ps) = Inr (map part_dict qs)"
    using snoc.IH by (simp add: qs_def)
  have idx: "map cp_index qs = ?is"
  proof -
    have "cp_index (whole_call ps i) = i" if "i \<in> set ?is" for i
      using that by (intro cp_index_whole_call) simp
    then show ?thesis
      unfolding qs_def map_map comp_def by (rule map_idI)
  qed
  have others: "j \<noteq> cp_index p \<Longrightarrow> whole_call (ps @ [p]) j = whole_call ps j" for j
    by (simp add: whole_call_snoc)
  have step: "call_piece (map part_dict qs) (part_dict p)
      = Inr (map (\<lambda>i. part_dict (whole_call (ps @ [p]) i)) (dedup (map cp_index (ps @ [p]))))"
  proof (cases "cp_index p \<in> set ?is")
    case False
    then have new: "cp_index p \<notin> cp_index ` set qs"
      using idx by (metis set_map)
    have "map (whole_call (ps @ [p])) ?is = map (whole_call ps) ?is"
      using False by (intro map_cong [OF refl] others) (metis)
    moreover have "whole_call (ps @ [p]) (cp_index p) = p"
      using False by (simp add: whole_call_snoc)
    ultimately have "map (whole_call (ps @ [p])) (?is @ [cp_index p]) = qs @ [p]"
      by (simp add: qs_def)
    then have "map part_dict (map (whole_call (ps @ [p])) (?is @ [cp_index p])) = map part_dict (qs @ [p])"
      by simp
    then have eq: "map (\<lambda>i. part_dict (whole_call (ps @ [p]) i)) (?is @ [cp_index p]) = map part_dict (qs @ [p])"
      unfolding map_map comp_def .
    have dd: "dedup (map cp_index (ps @ [p])) = ?is @ [cp_index p]"
      using False by (simp add: dedup_snoc)
    show ?thesis
      unfolding dd eq by (rule call_piece_new [OF new])
  next
    case True
    then obtain js ks where split: "?is = js @ cp_index p # ks" and "distinct (js @ cp_index p # ks)"
      by (metis split_list dedup_simps(2))
    then have away: "cp_index p \<notin> set js" "cp_index p \<notin> set ks"
      by auto
    define q where "q = whole_call ps (cp_index p)"
    have q: "cp_index q = cp_index p"
      using True by (simp add: q_def cp_index_whole_call)
    have xs: "cp_index p \<notin> cp_index ` set (map (whole_call ps) js)"
    proof -
      have "set js \<subseteq> cp_index ` set ps"
        using split by (metis Un_upper1 dedup_simps(1) set_append set_map)
      then show ?thesis
        using away(1) by (auto simp: cp_index_whole_call subset_eq)
    qed
    have "map (whole_call (ps @ [p])) js = map (whole_call ps) js"
      using away(1) by (intro map_cong [OF refl] others) metis
    moreover have "map (whole_call (ps @ [p])) ks = map (whole_call ps) ks"
      using away(2) by (intro map_cong [OF refl] others) metis
    moreover have "whole_call (ps @ [p]) (cp_index p)
        = q\<lparr>cp_name := (if cp_name p = [] then cp_name q else cp_name p), cp_args := cp_args q @ cp_args p\<rparr>"
      using True by (simp add: q_def whole_call_snoc)
    ultimately have new: "map (whole_call (ps @ [p])) ?is = map (whole_call ps) js
        @ q\<lparr>cp_name := (if cp_name p = [] then cp_name q else cp_name p), cp_args := cp_args q @ cp_args p\<rparr>
        # map (whole_call ps) ks"
      by (simp add: split)
    have qs: "qs = map (whole_call ps) js @ q # map (whole_call ps) ks"
      by (simp add: qs_def split q_def)
    have dd: "dedup (map cp_index (ps @ [p])) = ?is"
      using True by (simp add: dedup_snoc)
    show ?thesis
      unfolding dd qs call_piece_at [OF q xs] new [symmetric] map_map comp_def ..
  qed
  show ?case
    using step by (simp add: rfoldM_append calls)
qed (simp add: dedup_def)

lemma put_together_append: "rfoldM call_piece (whole_calls ps) (map part_dict qs) = Inr (whole_calls (ps @ qs))"
  using pieces_put_together [of "ps @ qs"] by (simp add: rfoldM_append pieces_put_together)

section \<open>Text without tags\<close>

text \<open>What a reader sees of an item: its kind and its text\<close>

definition shape :: "out_item \<Rightarrow> string \<times> string" where
  "shape item = (oi_type item, block_text item)"

definition msg_kind :: string where "msg_kind = ''message''"

definition think_kind :: string where "think_kind = ''reasoning''"

lemma kinds: "''message'' = msg_kind" "''reasoning'' = think_kind"
  by (simp_all add: msg_kind_def think_kind_def)

lemma kinds_differ [simp]: "msg_kind \<noteq> think_kind" "think_kind \<noteq> msg_kind" "msg_kind \<noteq> code_type" "think_kind \<noteq> code_type"
  "code_type \<noteq> msg_kind" "code_type \<noteq> think_kind" "msg_kind \<noteq> []" "think_kind \<noteq> []" "[] \<noteq> msg_kind" "[] \<noteq> think_kind"
  "''solution'' \<noteq> think_kind" "''code_interpreter'' \<noteq> think_kind"
  by (simp_all add: msg_kind_def think_kind_def code_type_def)

definition open_tags :: "(string \<times> string) list \<Rightarrow> bool" where
  "open_tags ts = list_all (\<lambda>t. fst t \<noteq> [] \<and> hd (fst t) = CHR ''<'') ts"

lemma tag_at_other:
  assumes "t \<noteq> []" and "hd t = CHR ''<''" and "s = [] \<or> hd s \<noteq> CHR ''<''"
  shows "tag_at t s = None"
proof -
  have none: "\<not> py_startswith s u" if "u \<noteq> []" "hd u = CHR ''<''" for u
    using that assms(3) by (cases u; cases s) auto
  have "butlast t \<noteq> [] \<and> hd (butlast t) = CHR ''<''" if "py_endswith t ''>''"
  proof (cases "butlast t")
    case Nil
    then have "t = [CHR ''<'']"
      using assms(1,2) by (metis append_butlast_last_id append_Nil list.sel(1))
    then show ?thesis
      using that by (simp add: py_endswith_def)
  next
    case (Cons c u)
    then show ?thesis
      using assms(1,2) by (metis append_butlast_last_id append_Cons list.sel(1) list.distinct(1))
  qed
  then show ?thesis
    using none [of t] none [of "butlast t"] assms by (auto simp: tag_at_def)
qed

lemma find_tag_skip:
  assumes "t \<noteq> []" and "hd t = CHR ''<''" and "CHR ''<'' \<notin> set a"
  shows "find_tag t (a @ s) = map_option (\<lambda>(b, r). (a @ b, r)) (find_tag t s)"
  using assms(3)
proof (induction a)
  case Nil
  show ?case
    by (cases "find_tag t s") auto
next
  case (Cons c a)
  have "tag_at t (c # a @ s) = None"
    using Cons.prems by (intro tag_at_other [OF assms(1,2)]) auto
  then show ?case
    using Cons by (simp add: option.map_comp comp_def split_def)
qed

lemma find_tag_none:
  assumes "t \<noteq> []" and "hd t = CHR ''<''" and "CHR ''<'' \<notin> set s"
  shows "find_tag t s = None"
  using find_tag_skip [OF assms, of "[]"] tag_at_other [OF assms(1,2), of "[]"] by simp

lemma first_tag_none: "open_tags ts \<Longrightarrow> CHR ''<'' \<notin> set s \<Longrightarrow> first_tag ts s = None"
  by (induction ts) (auto simp: open_tags_def find_tag_none)

lemma default_tags_open [simp]: "open_tags solution_tags" "open_tags code_tags" "open_tags reasoning_tags"
  by (simp_all add: open_tags_def solution_tags_def code_tags_def reasoning_tags_def)

text \<open>An output that ends in a text in which no tag is found, or in something that no tag closes, stays as it is.\<close>

lemma handler_keeps:
  assumes "last_type out = msg_kind \<Longrightarrow> first_tag tags (get_last_text out) = None"
    and "last_type out \<noteq> msg_kind \<Longrightarrow> \<not> in_block ct out"
  shows "tag_output_handler (Suc k) env ct tags (n, out) = Inr ((n, out), False)"
  using assms by (simp add: kinds)

lemma detect_keeps:
  assumes "last_type out = msg_kind" and "0 < se_depth env"
    and "first_tag (sc_tags cfg) (get_last_text out) = None" and "first_tag solution_tags (get_last_text out) = None"
    and "first_tag code_tags (get_last_text out) = None"
  shows "detect_tags env cfg (n, out) = Inr ((n, out), False)"
proof -
  obtain k where k: "se_depth env = Suc k"
    using assms(2) gr0_implies_Suc by blast
  show ?thesis
    using assms by (simp add: detect_tags_def k kinds)
qed

definition one_text :: "string \<Rightarrow> (string \<times> string) list" where
  "one_text s = [(''output_text'', s)]"

lemma one_text_simps [simp]:
  "part_text (one_text s) = s" "set_part_text t (one_text s) = one_text t" "add_part_text t (one_text s) = one_text (s @ t)"
  "add_part_text t [] = one_text t" "part_text [] = []"
  "one_text s = one_text t \<longleftrightarrow> s = t"
  by (simp_all add: one_text_def part_text_def set_part_text_def add_part_text_def)

lemma last_type_simps [simp]: "last_type [] = []" "last_type (out @ [it]) = oi_type it"
  by (simp_all add: last_type_def)

lemma change_last_snoc [simp]: "change_last f (out @ [it]) = out @ [f it]"
  by (simp add: change_last_def)

lemma get_last_text_snoc: "get_last_text (out @ [it]) = (if oi_type it = msg_kind then part_text (oi_content it) else [])"
  by (simp add: get_last_text_def kinds)

lemma new_item_simps [simp]:
  "oi_type (new_item ty i) = ty" "oi_tag (new_item ty i) = None" "oi_attrs (new_item ty i) = []" "oi_content (new_item ty i) = []"
  "oi_status (new_item ty i) = ''in_progress''" "oi_ended (new_item ty i) = None"
  by (simp_all add: new_item_def)

lemma text_item_simps [simp]:
  "oi_type (text_item i s) = msg_kind" "oi_tag (text_item i s) = None" "oi_attrs (text_item i s) = []"
  "oi_content (text_item i s) = one_text s"
  by (simp_all add: text_item_def one_text_def kinds)

lemma text_item_set [simp]: "(text_item i s)\<lparr>oi_content := one_text t\<rparr> = text_item i t"
  by (simp add: text_item_def one_text_def)

lemma new_reasoning_simps [simp]:
  "oi_type (new_reasoning env n) = think_kind" "sent_apart (new_reasoning env n)" "oi_started (new_reasoning env n) = Some (se_now env)"
  "oi_content (new_reasoning env n) = []" "oi_ended (new_reasoning env n) = None"
  by (simp_all add: new_reasoning_def sent_apart_def kinds od_getd_def new_item_def)

lemma sent_apart_update [simp]:
  "sent_apart (it\<lparr>oi_content := c\<rparr>) = sent_apart it" "sent_apart (it\<lparr>oi_ended := e, oi_duration := d, oi_status := s\<rparr>) = sent_apart it"
  by (simp_all add: sent_apart_def)

text \<open>Messages without tags and reasoning that was sent apart\<close>

definition plain_item :: "out_item \<Rightarrow> bool" where
  "plain_item it =
     (\<exists>s. oi_content it = one_text s \<and>
        (oi_type it = msg_kind \<and> oi_tag it = None \<and> CHR ''<'' \<notin> set s
         \<or> oi_type it = think_kind \<and> sent_apart it \<and> oi_started it \<noteq> None))"

lemma plain_itemE:
  assumes "plain_item it"
  obtains (message) s where "oi_content it = one_text s" "oi_type it = msg_kind" "oi_tag it = None" "CHR ''<'' \<notin> set s"
    | (think) s t where "oi_content it = one_text s" "oi_type it = think_kind" "sent_apart it" "oi_started it = Some t"
  using assms unfolding plain_item_def by blast

lemma shape_text [simp]: "oi_content it = one_text s \<Longrightarrow> oi_type it \<noteq> code_type \<Longrightarrow> shape it = (oi_type it, s)"
  by (simp add: shape_def block_text_def)

lemma end_block_think: "oi_type it = think_kind \<Longrightarrow> oi_started it = Some t \<Longrightarrow>
   end_block now it = Inr (it\<lparr>oi_ended := Some now, oi_duration := Some (trunc_rat (now - t)), oi_status := ''completed''\<rparr>)"
  by (simp add: end_block_def kinds)

lemma not_inside_message: "oi_type it = msg_kind \<Longrightarrow> oi_tag it = None \<Longrightarrow> \<not> inside_block (out @ [it])"
  by (simp add: inside_block_def kinds)

lemma add_text_message:
  assumes "oi_type it = msg_kind" and "oi_tag it = None"
  shows "add_text env v (n, out @ [it]) = (n, out @ [it\<lparr>oi_content := add_part_text v (oi_content it)\<rparr>])"
  using not_inside_message [OF assms] assms by (simp add: add_text_def kinds)

lemma add_text_first: "add_text env v (n, []) = (Suc n, [text_item (se_id env n) v])"
  by (simp add: add_text_def inside_block_def text_item_def add_part_text_def)

text \<open>Pieces of text are joined to the last one of their kind.\<close>

definition add_run :: "(string \<times> string) list \<Rightarrow> string \<times> string \<Rightarrow> (string \<times> string) list" where
  "add_run rs p =
     (if snd p = [] then rs
      else if rs \<noteq> [] \<and> fst (last rs) = fst p then butlast rs @ [(fst p, snd (last rs) @ snd p)] else rs @ [p])"

lemma add_run_simps [simp]:
  "add_run rs (k, []) = rs" "t \<noteq> [] \<Longrightarrow> add_run [] (k, t) = [(k, t)]"
  "t \<noteq> [] \<Longrightarrow> add_run (rs @ [(j, s)]) (k, t) = (if j = k then rs @ [(k, s @ t)] else rs @ [(j, s), (k, t)])"
  by (simp_all add: add_run_def)

text \<open>An output of plain items with the given shape\<close>

definition plain_out :: "out_item list \<Rightarrow> (string \<times> string) list \<Rightarrow> bool" where
  "plain_out out rs = (list_all plain_item out \<and> map shape out = rs)"

lemma plain_out_cases:
  assumes "plain_out out rs"
  obtains (empty) "out = []" "rs = []"
    | (message) xs it qs s where "out = xs @ [it]" "rs = qs @ [(msg_kind, s)]" "plain_out xs qs"
        "oi_content it = one_text s" "oi_type it = msg_kind" "oi_tag it = None" "CHR ''<'' \<notin> set s"
    | (think) xs it qs s t where "out = xs @ [it]" "rs = qs @ [(think_kind, s)]" "plain_out xs qs"
        "oi_content it = one_text s" "oi_type it = think_kind" "sent_apart it" "oi_started it = Some t"
proof (cases out rule: rev_cases)
  case Nil
  then show ?thesis
    using assms empty by (simp add: plain_out_def)
next
  case (snoc xs it)
  then have it: "plain_item it" and rest: "plain_out xs (map shape xs)" and rs: "rs = map shape xs @ [shape it]"
    using assms by (auto simp: plain_out_def)
  from it show ?thesis
  proof (cases rule: plain_itemE)
    case (message s)
    then show ?thesis
      using that(2) [of xs it "map shape xs" s] snoc rest rs by simp
  next
    case (think s t)
    then show ?thesis
      using that(3) [of xs it "map shape xs" s t] snoc rest rs by simp
  qed
qed

lemma plain_out_message:
  "plain_out xs qs \<Longrightarrow> oi_content it = one_text s \<Longrightarrow> oi_type it = msg_kind \<Longrightarrow> oi_tag it = None \<Longrightarrow> CHR ''<'' \<notin> set s
     \<Longrightarrow> plain_out (xs @ [it]) (qs @ [(msg_kind, s)])"
  by (auto simp: plain_out_def plain_item_def)

lemma plain_out_think:
  "plain_out xs qs \<Longrightarrow> oi_content it = one_text s \<Longrightarrow> oi_type it = think_kind \<Longrightarrow> sent_apart it \<Longrightarrow> oi_started it \<noteq> None
     \<Longrightarrow> plain_out (xs @ [it]) (qs @ [(think_kind, s)])"
  by (auto simp: plain_out_def plain_item_def)

lemma reasoning_text_step:
  assumes "plain_out out rs"
  shows "\<exists>m out'. reasoning_delta_step env v PNone (n, out) = Inr (m, out') \<and> plain_out out' (add_run rs (think_kind, v))"
proof (cases "v = []")
  case True
  then show ?thesis
    using assms by (simp add: reasoning_delta_step_def)
next
  case v: False
  have new: "reasoning_delta_step env v PNone (n, out)
      = Inr (Suc n, out @ [(new_reasoning env n)\<lparr>oi_content := one_text v\<rparr>])" if "last_type out \<noteq> think_kind"
    using v that by (simp add: reasoning_delta_step_def reasoning_place_def kinds)
  have item: "plain_out (xs @ [(new_reasoning env n)\<lparr>oi_content := one_text v\<rparr>]) (qs @ [(think_kind, v)])"
    if "plain_out xs qs" for xs qs
    using that by (intro plain_out_think) simp_all
  show ?thesis
    using assms
  proof (cases rule: plain_out_cases)
    case empty
    then show ?thesis
      using new item [of "[]" "[]"] v by (simp add: plain_out_def)
  next
    case (message xs it qs s)
    have "add_run rs (think_kind, v) = rs @ [(think_kind, v)]"
      using message(2) v by simp
    then show ?thesis
      using new item [OF assms] message(1,5) by simp
  next
    case (think xs it qs s t)
    have "reasoning_delta_step env v PNone (n, out) = Inr (n, xs @ [it\<lparr>oi_content := one_text (s @ v)\<rparr>])"
      using v think(1,4,5) by (simp add: reasoning_delta_step_def reasoning_place_def kinds nth_append list_update_append)
    moreover have "plain_out (xs @ [it\<lparr>oi_content := one_text (s @ v)\<rparr>]) (qs @ [(think_kind, s @ v)])"
      using think by (intro plain_out_think) simp_all
    ultimately show ?thesis
      using v think(2) by simp
  qed
qed

lemma detect_plain:
  assumes "oi_content it = one_text s" and "oi_type it = msg_kind" and "CHR ''<'' \<notin> set s"
    and "0 < se_depth env" and "open_tags (sc_tags cfg)"
  shows "detect_tags env cfg (n, xs @ [it]) = Inr ((n, xs @ [it]), False)"
  using assms by (intro detect_keeps) (simp_all add: get_last_text_snoc first_tag_none)

lemma content_text_step:
  assumes out: "plain_out out rs" and v: "CHR ''<'' \<notin> set v"
    and env: "0 < se_depth env" and cfg: "open_tags (sc_tags cfg)"
  shows "\<exists>m out'. content_delta env cfg v (n, out) = Inr ((m, out'), False) \<and> plain_out out' (add_run rs (msg_kind, v))"
proof (cases "v = []")
  case True
  then show ?thesis
    using out by (simp add: content_delta_def)
next
  case nonempty: False
  have fresh: "plain_out (xs @ [text_item i v]) (qs @ [(msg_kind, v)])" if "plain_out xs qs" for xs qs i
    using that v by (intro plain_out_message) simp_all
  have stays: "detect_tags env cfg (m, xs @ [text_item i v]) = Inr ((m, xs @ [text_item i v]), False)" for m xs i
    using v env cfg by (intro detect_plain) simp_all
  show ?thesis
    using out
  proof (cases rule: plain_out_cases)
    case empty
    have "content_delta env cfg v (n, out) = Inr ((Suc n, [] @ [text_item (se_id env n) v]), False)"
      using nonempty empty(1) stays [of "Suc n" "[]"] by (simp add: content_delta_def end_apart_def add_text_first kinds)
    then show ?thesis
      using fresh [of "[]" "[]"] empty(2) nonempty by (auto simp: plain_out_def)
  next
    case (message xs it qs s)
    define new where "new = it\<lparr>oi_content := one_text (s @ v)\<rparr>"
    have "end_apart env (n, out) = Inr (n, out)"
      using message(1,5) by (simp add: end_apart_def kinds)
    moreover have "add_text env v (n, out) = (n, xs @ [new])"
      using add_text_message [OF message(5,6)] message(1,4) by (simp add: new_def)
    moreover have "detect_tags env cfg (n, xs @ [new]) = Inr ((n, xs @ [new]), False)"
      using message v env cfg by (intro detect_plain [of _ "s @ v"]) (simp_all add: new_def)
    ultimately have "content_delta env cfg v (n, out) = Inr ((n, xs @ [new]), False)"
      using nonempty by (simp add: content_delta_def)
    moreover have "plain_out (xs @ [new]) (qs @ [(msg_kind, s @ v)])"
      using message v by (intro plain_out_message) (simp_all add: new_def)
    ultimately show ?thesis
      using nonempty message(2) by simp
  next
    case (think xs it qs s t)
    define old where "old = it\<lparr>oi_ended := Some (se_now env), oi_duration := Some (trunc_rat (se_now env - t)), oi_status := ''completed''\<rparr>"
    have "end_apart env (n, out) = Inr (Suc n, (xs @ [old]) @ [text_item (se_id env n) []])"
      using think(1,5,6,7) by (simp add: end_apart_def kinds end_block_think old_def)
    moreover have "add_text env v (Suc n, (xs @ [old]) @ [text_item (se_id env n) []]) = (Suc n, (xs @ [old]) @ [text_item (se_id env n) v])"
      using add_text_message [of "text_item (se_id env n) []" env v "Suc n" "xs @ [old]"] by simp
    ultimately have "content_delta env cfg v (n, out) = Inr ((Suc n, (xs @ [old]) @ [text_item (se_id env n) v]), False)"
      using nonempty stays [of "Suc n" "xs @ [old]"] by (simp add: content_delta_def)
    moreover have "plain_out (xs @ [old]) rs"
      using think unfolding think(2) by (intro plain_out_think) (simp_all add: old_def)
    ultimately show ?thesis
      using fresh [of "xs @ [old]" rs] nonempty think(2) by simp
  qed
qed

text \<open>A delta of an ordinary provider: pieces of calls, reasoning sent apart and text\<close>

definition plain_delta :: "rat \<times> call_part list \<times> string \<times> string \<Rightarrow> delta" where
  "plain_delta = (\<lambda>(now, ps, r, t). \<lparr>de_now = now, de_calls = map part_dict ps, de_reasoning = r, de_details = PNone, de_text = t\<rparr>)"

definition sent_parts :: "(rat \<times> call_part list \<times> string \<times> string) list \<Rightarrow> call_part list" where
  "sent_parts ds = concat (map (\<lambda>(now, ps, r, t). ps) ds)"

definition text_runs :: "(rat \<times> call_part list \<times> string \<times> string) list \<Rightarrow> (string \<times> string) list" where
  "text_runs ds = foldl add_run [] (concat (map (\<lambda>(now, ps, r, t). [(''reasoning'', r), (''message'', t)]) ds))"

definition tidy_runs :: "(string \<times> string) list \<Rightarrow> (string \<times> string) list" where
  "tidy_runs rs =
     (if rs \<noteq> [] \<and> fst (last rs) = ''message''
      then (let t = py_strip (snd (last rs)) in
        if t \<noteq> [] then butlast rs @ [(''message'', t)] else if butlast rs = [] then [(''message'', [])] else butlast rs)
      else rs)"

lemma delta_step_plain:
  assumes "plain_out out rs" and "CHR ''<'' \<notin> set t" and "0 < depth" and "open_tags (sc_tags cfg)"
    and calls: "rfoldM call_piece calls (map part_dict ps) = Inr calls'"
  shows "\<exists>m out'. delta_step new_id depth cfg \<lparr>st_calls = calls, st_out = (n, out), st_stopped = False\<rparr> (plain_delta (now, ps, r, t))
      = Inr \<lparr>st_calls = calls', st_out = (m, out'), st_stopped = False\<rparr>
    \<and> plain_out out' (add_run (add_run rs (''reasoning'', r)) (''message'', t))"
proof -
  define env where "env = \<lparr>se_id = new_id, se_now = now, se_depth = depth\<rparr>"
  obtain k o1 where 1: "reasoning_delta_step env r PNone (n, out) = Inr (k, o1)" "plain_out o1 (add_run rs (''reasoning'', r))"
    using reasoning_text_step [OF assms(1), of env r n] by (auto simp: kinds)
  obtain m o2 where 2: "content_delta env cfg t (k, o1) = Inr ((m, o2), False)"
      "plain_out o2 (add_run (add_run rs (''reasoning'', r)) (''message'', t))"
    using content_text_step [OF 1(2) assms(2), of env cfg k] assms(3,4) by (auto simp: kinds env_def)
  show ?thesis
    using 1(1) 2 calls by (simp add: delta_step_def plain_delta_def env_def)
qed

lemma stream_plain:
  assumes "0 < depth" and "open_tags (sc_tags cfg)" and "list_all (\<lambda>(now, ps, r, t). CHR ''<'' \<notin> set t) ds"
  shows "\<exists>m out. rfoldM (delta_step new_id depth cfg) \<lparr>st_calls = [], st_out = (0, []), st_stopped = False\<rparr> (map plain_delta ds)
      = Inr \<lparr>st_calls = whole_calls (sent_parts ds), st_out = (m, out), st_stopped = False\<rparr>
    \<and> plain_out out (text_runs ds)"
  using assms(3)
proof (induction ds rule: rev_induct)
  case Nil
  show ?case
    by (simp add: plain_out_def text_runs_def dedup_def sent_parts_def whole_calls_def)
next
  case (snoc d ds)
  obtain now ps r t where d: "d = (now, ps, r, t)"
    by (cases d)
  obtain m out where ih: "rfoldM (delta_step new_id depth cfg) \<lparr>st_calls = [], st_out = (0, []), st_stopped = False\<rparr> (map plain_delta ds)
      = Inr \<lparr>st_calls = whole_calls (sent_parts ds), st_out = (m, out), st_stopped = False\<rparr>" "plain_out out (text_runs ds)"
    using snoc by auto
  have t: "CHR ''<'' \<notin> set t"
    using snoc.prems by (simp add: d)
  have runs: "text_runs (ds @ [d]) = add_run (add_run (text_runs ds) (''reasoning'', r)) (''message'', t)"
    and parts: "sent_parts (ds @ [d]) = sent_parts ds @ ps"
    by (simp_all add: text_runs_def sent_parts_def d)
  show ?case
    using delta_step_plain [OF ih(2) t assms(1,2) put_together_append [of "sent_parts ds" ps], of new_id m now r] ih(1)
    unfolding runs parts by (auto simp: rfoldM_append d)
qed

lemma set_last_text_snoc:
  "oi_type it = msg_kind \<Longrightarrow> set_last_text s (out @ [it]) = out @ [it\<lparr>oi_content := set_part_text s (oi_content it)\<rparr>]"
  by (simp add: set_last_text_def kinds)

lemma finish_reasoning_plain:
  assumes "plain_out out rs"
  shows "\<exists>m out'. finish_reasoning env (n, out) = Inr (m, out') \<and> map shape out' = rs"
  using assms
proof (cases rule: plain_out_cases)
  case (think xs it qs s t)
  then show ?thesis
    by (simp add: finish_reasoning_def kinds plain_out_def)
qed (auto simp: finish_reasoning_def kinds plain_out_def)

lemma finish_plain:
  assumes "plain_out out rs"
  shows "\<exists>m out'. finish_output env (n, out) = Inr (m, out') \<and> map shape out' = tidy_runs rs"
  using assms
proof (cases rule: plain_out_cases)
  case empty
  then show ?thesis
    by (simp add: finish_output_def tidy_runs_def)
next
  case (think xs it qs s t)
  have "finish_output env (n, out) = finish_reasoning env (n, out)" and "tidy_runs rs = rs"
    using think by (simp_all add: finish_output_def finish_reasoning_def tidy_runs_def kinds)
  then show ?thesis
    using finish_reasoning_plain [OF assms] by simp
next
  case (message xs it qs s)
  have last: "oi_content it \<noteq> []" "fst (last (oi_content it)) = ''output_text''" "get_last_text (xs @ [it]) = s"
    using message(4,5) by (simp_all add: one_text_def get_last_text_snoc part_text_def)
  have kept: "set_last_text u (xs @ [it]) = xs @ [it\<lparr>oi_content := one_text u\<rparr>]" for u
    using message(4,5) by (simp add: set_last_text_snoc)
  show ?thesis
  proof (cases "py_strip s = []")
    case False
    then have "finish_output env (n, out) = Inr (n, xs @ [it\<lparr>oi_content := one_text (py_strip s)\<rparr>])"
      using message(1,5) last kept by (simp add: finish_output_def finish_reasoning_def kinds Let_def)
    then show ?thesis
      using False message(2,3,5) by (simp add: tidy_runs_def kinds plain_out_def)
  next
    case True
    show ?thesis
    proof (cases "xs = []")
      case empty: True
      then have "finish_output env (n, out) = Inr (Suc n, [text_item (se_id env n) []])"
        using True message(1,5) last kept by (simp add: finish_output_def finish_reasoning_def kinds Let_def last_type_def)
      then show ?thesis
        using True empty message(2,3) by (simp add: tidy_runs_def kinds plain_out_def)
    next
      case False
      have "finish_output env (n, out) = finish_reasoning env (n, xs)"
        using True False message(1,5) last kept by (simp add: finish_output_def kinds Let_def finish_reasoning_def)
      moreover have "tidy_runs rs = qs"
        using True False message(2,3) by (auto simp: tidy_runs_def kinds plain_out_def)
      ultimately show ?thesis
        using finish_reasoning_plain [OF message(3)] by simp
    qed
  qed
qed

text \<open>C39 A stream without tags gives exactly what was sent: its calls put together from their pieces, and its
  reasoning and text in turns, one item for each turn with the joined text of its pieces. Only the last text is
  stripped, and it goes when nothing is left of it.\<close>

theorem plain_stream_exact:
  assumes "0 < depth" and "open_tags (sc_tags cfg)" and "list_all (\<lambda>(now, ps, r, t). CHR ''<'' \<notin> set t) ds"
  shows "\<exists>m out. stream_output new_id depth now cfg (0, []) (map plain_delta ds) = Inr (whole_calls (sent_parts ds), (m, out))
    \<and> map shape out = tidy_runs (text_runs ds)"
proof -
  obtain m out where run: "rfoldM (delta_step new_id depth cfg) \<lparr>st_calls = [], st_out = (0, []), st_stopped = False\<rparr> (map plain_delta ds)
      = Inr \<lparr>st_calls = whole_calls (sent_parts ds), st_out = (m, out), st_stopped = False\<rparr>" "plain_out out (text_runs ds)"
    using stream_plain [OF assms] by blast
  then show ?thesis
    using finish_plain [OF run(2), of "\<lparr>se_id = new_id, se_now = now, se_depth = depth\<rparr>" m] by (auto simp: stream_output_def)
qed

lemma plain_stream_exact_witness:
  "\<exists>m out. stream_output (\<lambda>n. ''x'') 5 9 \<lparr>sc_reasoning = True, sc_tags = reasoning_tags, sc_code = True\<rparr> (0, [])
      (map plain_delta [(1, [], ''Let me '', []), (2, [], ''see.'', ''It is''), (3, [], [], '' 4. '')])
    = Inr (whole_calls [], (m, out))
    \<and> map shape out = [(''reasoning'', ''Let me see.''), (''message'', ''It is 4.'')]"
proof -
  let ?ds = "[(1, [], ''Let me '', []), (2, [], ''see.'', ''It is''), (3, [], [], '' 4. '')]
    :: (rat \<times> call_part list \<times> string \<times> string) list"
  have parts: "sent_parts ?ds = []" and runs: "tidy_runs (text_runs ?ds) = [(''reasoning'', ''Let me see.''), (''message'', ''It is 4.'')]"
    by code_simp+
  show ?thesis
    using plain_stream_exact [of 5 "\<lparr>sc_reasoning = True, sc_tags = reasoning_tags, sc_code = True\<rparr>" ?ds "\<lambda>n. ''x''" 9]
    unfolding parts runs by simp
qed

section \<open>Text around tags\<close>

definition stream_sample :: stream_env where
  "stream_sample = \<lparr>se_id = (\<lambda>n. ''x''), se_now = 1, se_depth = 9\<rparr>"

definition tag_cfg :: stream_cfg where
  "tag_cfg = \<lparr>sc_reasoning = True, sc_tags = reasoning_tags, sc_code = False\<rparr>"

definition shapes_after :: "string list \<Rightarrow> (string \<times> string) list res" where
  "shapes_after vs =
     rmap (\<lambda>((n, out), _). map shape out)
       (rfoldM (\<lambda>(s, _) v. content_delta stream_sample tag_cfg v s) ((0, []), False) vs)"

text \<open>The space after the first piece of an answer that follows the reasoning is lost.\<close>

lemma space_after_reasoning_lost:
  "shapes_after [''<think>x</think>Hello '', ''world''] = Inr [(''reasoning'', ''x''), (''message'', ''Helloworld'')]"
  "shapes_after [''<think>x</think>'', ''Hello '', ''world''] = Inr [(''reasoning'', ''x''), (''message'', ''Hello world'')]"
  by code_simp+

text \<open>The end of a solution is never found: the end tag stays in the text.\<close>

lemma solution_not_closed:
  "shapes_after [''<|begin_of_solution|>4'', ''<|end_of_solution|>'', '' Done'']
     = Inr [(''message'', ''4<|end_of_solution|> Done'')]"
  by code_simp

definition think_start :: string where "think_start = ''<think>''"

definition think_end :: string where "think_end = ''</think>''"

definition squeeze :: "string \<Rightarrow> string" where
  "squeeze s = filter (\<lambda>c. \<not> is_space c) s"

lemma squeeze_append [simp]: "squeeze (s @ t) = squeeze s @ squeeze t"
  by (simp add: squeeze_def)

lemma squeeze_dropWhile: "squeeze (dropWhile is_space s) = squeeze s"
  by (induction s) (simp_all add: squeeze_def)

lemma squeeze_rev: "squeeze (rev s) = rev (squeeze s)"
  by (simp add: squeeze_def rev_filter)

lemma squeeze_strip [simp]: "squeeze (py_rstrip s) = squeeze s" "squeeze (py_strip s) = squeeze s"
  by (simp_all add: py_strip_def py_rstrip_def py_lstrip_def squeeze_dropWhile squeeze_rev)

lemma strip_no_new: "x \<notin> set s \<Longrightarrow> x \<notin> set (py_rstrip s)" "x \<notin> set s \<Longrightarrow> x \<notin> set (py_lstrip s)" "x \<notin> set s \<Longrightarrow> x \<notin> set (py_strip s)"
  by (auto simp: py_strip_def py_rstrip_def py_lstrip_def dest!: set_dropWhileD)

text \<open>White space around a text with a tag in it belongs to the texts before and after the tag.\<close>

lemma lstrip_before: "\<not> is_space d \<Longrightarrow> py_lstrip (b @ d # s) = py_lstrip b @ d # s"
  by (induction b) (simp_all add: py_lstrip_def)

lemma rstrip_after: "\<not> is_space d \<Longrightarrow> py_rstrip (s @ d # r) = s @ d # py_rstrip r"
  by (simp add: py_rstrip_def dropWhile_append3 dropWhile_append)

lemma strip_lstrip [simp]: "py_strip (py_lstrip s) = py_strip s"
  by (simp add: py_strip_def py_lstrip_def)

lemma think_end_split: "think_end = CHR ''<'' # ''/think>''" "think_end = ''</think'' @ [CHR ''>'']"
  by (simp_all add: think_end_def)

lemma strip_around: "py_strip (b @ think_end @ r) = py_lstrip b @ think_end @ py_rstrip r"
proof -
  have open_bracket: "\<not> is_space CHR ''<''" and close_bracket: "\<not> is_space CHR ''>''"
    by code_simp+
  have "py_lstrip (b @ think_end @ r) = (py_lstrip b @ ''</think'') @ CHR ''>'' # r"
    using lstrip_before [OF open_bracket, of b "''/think>'' @ r"] by (simp add: think_end_def)
  then show ?thesis
    using rstrip_after [OF close_bracket, of "py_lstrip b @ ''</think''" r] by (simp add: py_strip_def think_end_def)
qed

lemma cut_at_skip:
  assumes "x \<notin> set b"
  shows "cut_at (x # e) (b @ s) = map_option (apfst ((@) b)) (cut_at (x # e) s)"
  using assms
proof (induction b)
  case Nil
  show ?case
    by (cases "cut_at (x # e) s") auto
next
  case (Cons d b)
  then show ?case
    by (simp add: option.map_comp comp_def apfst_compose) (cases "cut_at (x # e) s"; auto)
qed

lemma cut_at_think_end: "CHR ''<'' \<notin> set b \<Longrightarrow> cut_at think_end (b @ think_end @ r) = Some (b, r)"
  using cut_at_skip [of "CHR ''<''" b "''/think>''" "think_end @ r"] by (simp add: think_end_def)

lemma cut_at_part:
  assumes "CHR ''<'' \<notin> set b" and "k < length think_end"
  shows "cut_at think_end (b @ take k think_end) = None"
proof -
  have "list_all (\<lambda>k. cut_at think_end (take k think_end) = None) [0..<length think_end]"
    by code_simp
  then have "cut_at think_end (take k think_end) = None"
    using assms(2) by (simp add: list_all_iff)
  then show ?thesis
    using cut_at_skip [OF assms(1), of "''/think>''"] by (simp add: think_end_def)
qed

lemma cut_at_none: "CHR ''<'' \<notin> set b \<Longrightarrow> cut_at think_end b = None"
  using cut_at_part [of b 0] by (simp add: think_end_def)

lemma drop_tags_none:
  assumes "CHR ''<'' \<notin> set b" and "CHR ''<'' \<notin> set r"
  shows "drop_tags think_start (b @ think_end @ r) = b @ think_end @ r"
proof -
  let ?m = "tag_at think_start"
  have other: "s = [] \<or> hd s \<noteq> CHR ''<'' \<Longrightarrow> ?m s = None" for s
    by (rule tag_at_other) (simp_all add: think_start_def)
  have "scan ?m (b @ think_end @ r) = map Inl b @ scan ?m (think_end @ r)"
    using assms(1) by (intro scan_literal other) (auto simp: hd_append hd_drop_conv_nth in_set_conv_nth)
  moreover have "scan ?m (think_end @ r) = map Inl (think_end @ r)"
  proof (rule scan_none)
    fix i assume i: "i < length (think_end @ r)"
    show "?m (drop i (think_end @ r)) = None"
    proof (cases i)
      case 0
      then show ?thesis
        by (simp add: think_start_def think_end_def tag_at_def py_endswith_def)
    next
      case (Suc j)
      have "CHR ''<'' \<notin> set (''/think>'' @ r)"
        using assms(2) by simp
      moreover have "hd (drop j (''/think>'' @ r)) \<in> set (''/think>'' @ r)"
        using i Suc by (simp only: hd_drop_conv_nth nth_mem think_end_def append_Cons length_Cons)
      ultimately show ?thesis
        using Suc by (intro other) (auto simp: think_end_def)
    qed
  qed
  ultimately show ?thesis
    by (simp add: drop_tags_def think_start_def)
qed

text \<open>A reasoning between tags that is still open, and its text so far\<close>

definition open_think :: "out_item \<Rightarrow> string \<Rightarrow> bool" where
  "open_think it q = (oi_type it = think_kind \<and> \<not> sent_apart it \<and> oi_status it = ''in_progress'' \<and> oi_marks it = (think_start, think_end)
     \<and> oi_started it \<noteq> None \<and> oi_content it = (if q = [] then [] else one_text q))"

lemma open_think_simps:
  assumes "open_think it q"
  shows "oi_type it = think_kind" "block_text it = q" "inside_block (xs @ [it])" "in_block ''reasoning'' (xs @ [it])" "\<not> in_block ''solution'' (xs @ [it])"
    "\<not> in_block ''code_interpreter'' (xs @ [it])" "end_apart env (n, xs @ [it]) = Inr (n, xs @ [it])"
  using assms by (simp_all add: open_think_def block_text_def inside_block_def in_block_def end_apart_def kinds)

lemma add_text_think:
  assumes "open_think it q" and "v \<noteq> []"
  obtains it' where "add_text env v (n, xs @ [it]) = (n, xs @ [it'])" and "open_think it' (q @ v)"
proof
  show "add_text env v (n, xs @ [it]) = (n, xs @ [it\<lparr>oi_content := add_part_text v (oi_content it)\<rparr>])"
    using open_think_simps(1,3) [OF assms(1)] by (simp add: add_text_def)
  show "open_think (it\<lparr>oi_content := add_part_text v (oi_content it)\<rparr>) (q @ v)"
    using assms by (auto simp: open_think_def)
qed

lemma handler_open:
  assumes "open_think it q" and "cut_at think_end q = None"
  shows "tag_output_handler (Suc k) env ''reasoning'' tags (n, xs @ [it]) = Inr ((n, xs @ [it]), False)"
  using open_think_simps(1,2,4) [OF assms(1)] assms by (simp add: kinds close_block_def open_think_def)

definition think_shape :: "string \<Rightarrow> (string \<times> string) list" where
  "think_shape b = (if py_strip b = [] then [] else [(think_kind, py_strip b)])"

lemma handler_close:
  assumes it: "open_think it (b @ think_end @ r)" and b: "CHR ''<'' \<notin> set b" and r: "CHR ''<'' \<notin> set r"
  shows "\<exists>ys. tag_output_handler (Suc k) env ''reasoning'' tags (n, xs @ [it])
      = Inr ((Suc n, xs @ ys @ [text_item (se_id env n) (py_strip (py_rstrip r))]), True) \<and> map shape ys = think_shape b"
proof -
  obtain t where t: "oi_started it = Some t"
    using it by (auto simp: open_think_def)
  have marks: "oi_marks it = (think_start, think_end)" and ty: "oi_type it = think_kind"
    using it by (simp_all add: open_think_def)
  have cut: "cut_at think_end (b @ think_end @ r) = Some (b, r)"
    by (rule cut_at_think_end [OF b])
  have cut': "cut_at think_end (py_lstrip b @ think_end @ py_rstrip r) = Some (py_lstrip b, py_rstrip r)"
    by (rule cut_at_think_end) (rule strip_no_new(2) [OF b])
  let ?rest = "text_item (se_id env n) (py_strip (py_rstrip r))"
  have handler: "tag_output_handler (Suc k) env ''reasoning'' tags (n, xs @ [it]) = close_block env (n, xs @ [it])"
    using open_think_simps(1,4) [OF it] by (simp add: kinds)
  have close: "close_block env (n, xs @ [it]) = (if py_strip b \<noteq> []
      then rmap (\<lambda>x. ((Suc n, xs @ [x, ?rest]), True)) (end_block (se_now env) (fill_block (py_strip b) it))
      else Inr ((Suc n, xs @ [?rest]), True))"
    by (simp add: close_block_def marks open_think_simps(2) [OF it] cut drop_tags_none [OF b r] strip_around cut')
  show ?thesis
  proof (cases "py_strip b = []")
    case True
    then show ?thesis
      unfolding handler close by (intro exI [of _ "[]"]) (simp add: think_shape_def)
  next
    case False
    define done_it where "done_it = (fill_block (py_strip b) it)\<lparr>oi_ended := Some (se_now env),
      oi_duration := Some (trunc_rat (se_now env - t)), oi_status := ''completed''\<rparr>"
    have fill: "oi_type (fill_block (py_strip b) it) = think_kind" "oi_started (fill_block (py_strip b) it) = Some t"
        "oi_content (fill_block (py_strip b) it) = one_text (py_strip b)"
      using ty t by (simp_all add: fill_block_def kinds one_text_def)
    then have "shape done_it = (think_kind, py_strip b)"
      by (simp add: done_it_def)
    then show ?thesis
      using False end_block_think [OF fill(1,2), of "se_now env"] unfolding handler close
      by (intro exI [of _ "[done_it]"]) (simp add: think_shape_def done_it_def)
  qed
qed

text \<open>A text with the start tag in it becomes the text before the tag and an open reasoning.\<close>

definition before_shape :: "string \<Rightarrow> (string \<times> string) list" where
  "before_shape a = (if py_strip a = [] then [] else [(msg_kind, a)])"

lemma first_tag_start:
  assumes "CHR ''<'' \<notin> set a"
  shows "first_tag reasoning_tags (a @ think_start @ q) = Some ((think_start, think_end), a, [], q)"
proof -
  have "find_tag think_start (think_start @ q) = Some ([], [], q)"
    by (simp add: think_start_def tag_at_def tag_tail_def py_endswith_def)
  then have "find_tag think_start (a @ think_start @ q) = Some (a, [], q)"
    using find_tag_skip [of think_start a "think_start @ q"] assms by (simp add: think_start_def)
  then show ?thesis
    unfolding think_start_def think_end_def by (simp add: reasoning_tags_def)
qed

lemma handler_start:
  assumes "oi_type it = msg_kind" and "oi_content it = one_text (a @ think_start @ q)" and "CHR ''<'' \<notin> set a"
  shows "\<exists>xs bl. tag_output_handler (Suc (Suc k)) env ''reasoning'' reasoning_tags (n, [it])
      = (if q = [] then Inr ((Suc n, xs @ [bl]), False)
         else tag_output_handler (Suc k) env ''reasoning'' reasoning_tags (Suc n, xs @ [bl]))
    \<and> map shape xs = before_shape a \<and> open_think bl q"
proof -
  define xs where "xs = (if py_strip a = [] then [] else [it\<lparr>oi_content := one_text a\<rparr>])"
  define bl where "bl = open_block env ''reasoning'' (think_start, think_end) [] n"
  have open_bl: "open_think (if q = [] then bl else fill_block q bl) q"
    by (simp add: bl_def open_block_def block_type_def open_think_def fill_block_def sent_apart_def od_getd_def new_item_def
        kinds one_text_def)
  have kept: "(if py_strip a = [] then butlast (set_last_text a [it]) else set_last_text a [it]) = xs"
    using set_last_text_snoc [OF assms(1), of a "[]"] assms(2) by (simp add: xs_def)
  have whole: "get_last_text [it] = a @ think_start @ q"
    using get_last_text_snoc [of "[]" it] assms(1,2) by simp
  have ty: "last_type [it] = msg_kind"
    using last_type_simps(2) [of "[]" it] assms(1) by simp
  have attrs: "extract_attributes [] = []"
    by (simp add: extract_attributes_def)
  have "tag_output_handler (Suc (Suc k)) env ''reasoning'' reasoning_tags (n, [it])
      = (if q = [] then Inr ((Suc n, xs @ [bl]), False)
         else tag_output_handler (Suc k) env ''reasoning'' reasoning_tags (Suc n, xs @ [fill_block q bl]))"
    by (subst tag_output_handler.simps) (simp add: ty kinds whole first_tag_start [OF assms(3)] kept attrs bl_def Let_def)
  moreover have "map shape xs = before_shape a"
    using assms(1) by (simp add: xs_def before_shape_def)
  ultimately show ?thesis
    using open_bl by (cases "q = []") auto
qed

text \<open>An output whose end no handler changes\<close>

definition quiet :: "out_item list \<Rightarrow> bool" where
  "quiet out = (last_type out = msg_kind \<and> CHR ''<'' \<notin> set (get_last_text out)
     \<or> last_type out = think_kind)"

lemma quiet_keeps:
  assumes "quiet out" and "open_tags tags" and "ct \<noteq> ''reasoning''"
  shows "tag_output_handler (Suc k) env ct tags (n, out) = Inr ((n, out), False)"
  using assms by (intro handler_keeps) (auto simp: quiet_def first_tag_none in_block_def kinds)

lemma detect_after:
  assumes "tag_output_handler (se_depth env) env ''reasoning'' (sc_tags cfg) (n, out) = Inr ((m, out'), f)"
    and "quiet out'" and "sc_reasoning cfg" and "0 < se_depth env"
  shows "detect_tags env cfg (n, out) = Inr ((m, out'), False)"
proof -
  obtain k where k: "se_depth env = Suc k"
    using assms(4) gr0_implies_Suc by blast
  have "tag_output_handler (Suc k) env ''solution'' solution_tags (m, out') = Inr ((m, out'), False)"
    and "tag_output_handler (Suc k) env ''code_interpreter'' code_tags (m, out') = Inr ((m, out'), False)"
    by (intro quiet_keeps assms(2); simp)+
  then show ?thesis
    using assms(1,3) unfolding detect_tags_def k by simp
qed

text \<open>The output after a first part of a text \<open>a <think> b </think> c\<close>\<close>

definition tagged :: "string \<Rightarrow> string \<Rightarrow> string \<Rightarrow> string" where
  "tagged a b c = a @ think_start @ b @ think_end @ c"

definition reads_before :: "string \<Rightarrow> string \<Rightarrow> out_item list \<Rightarrow> bool" where
  "reads_before a p out = (length p < length a + length think_start
     \<and> (if p = [] then out = [] else \<exists>it. out = [it] \<and> oi_type it = msg_kind \<and> oi_tag it = None \<and> oi_content it = one_text p))"

definition reads_inside :: "string \<Rightarrow> string \<Rightarrow> string \<Rightarrow> out_item list \<Rightarrow> bool" where
  "reads_inside a b p out = (\<exists>q xs it. p = a @ think_start @ q \<and> length q < length b + length think_end
     \<and> out = xs @ [it] \<and> map shape xs = before_shape a \<and> open_think it q)"

definition reads_after :: "string \<Rightarrow> string \<Rightarrow> string \<Rightarrow> out_item list \<Rightarrow> bool" where
  "reads_after a b p out = (\<exists>r xs it s. p = tagged a b r \<and> out = xs @ [it] \<and> map shape xs = before_shape a @ think_shape b
     \<and> oi_type it = msg_kind \<and> oi_tag it = None \<and> oi_content it = one_text s \<and> CHR ''<'' \<notin> set s \<and> squeeze s = squeeze r)"

definition reads :: "string \<Rightarrow> string \<Rightarrow> string \<Rightarrow> out_item list \<Rightarrow> bool" where
  "reads a b p out = (reads_before a p out \<or> reads_inside a b p out \<or> reads_after a b p out)"

text \<open>A first part of a text ends before or in the start tag, before or in the end tag, or after it.\<close>

lemma first_part_cases:
  assumes "p @ rest = tagged a b c"
  obtains (before) "length p < length a + length think_start"
    | (inside) q where "p = a @ think_start @ q" "length q < length b + length think_end" "\<exists>u. q @ u = b @ think_end"
    | (after) r where "p = tagged a b r" "\<exists>u. r @ u = c"
proof -
  consider "length p < length a + length think_start"
    | u where "p = (a @ think_start) @ u" "u @ rest = b @ think_end @ c"
  proof (cases "length p < length a + length think_start")
    case False
    have "p @ rest = (a @ think_start) @ (b @ think_end @ c)"
      using assms by (simp add: tagged_def)
    then obtain us where "p = (a @ think_start) @ us \<and> us @ rest = b @ think_end @ c
        \<or> p @ us = a @ think_start \<and> rest = us @ b @ think_end @ c"
      unfolding append_eq_append_conv2 by blast
    then show ?thesis
    proof
      assume "p = (a @ think_start) @ us \<and> us @ rest = b @ think_end @ c"
      then show ?thesis
        using that(2) by blast
    next
      assume x: "p @ us = a @ think_start \<and> rest = us @ b @ think_end @ c"
      then have "length p + length us = length a + length think_start"
        by (metis length_append)
      then have "length us = 0"
        using False by linarith
      then have "us = []"
        by simp
      then show ?thesis
        using x that(2) [of "[]"] by simp
    qed
  qed (rule that(1))
  then show ?thesis
  proof cases
    case 1
    then show ?thesis
      by (rule before)
  next
    case (2 u)
    have "u @ rest = (b @ think_end) @ c"
      using 2(2) by simp
    then obtain us where "u = (b @ think_end) @ us \<and> us @ rest = c \<or> u @ us = b @ think_end \<and> rest = us @ c"
      unfolding append_eq_append_conv2 by blast
    then consider "u = (b @ think_end) @ us" "us @ rest = c" | "u @ us = b @ think_end" "us \<noteq> []"
      | "u = (b @ think_end) @ []" "rest = c"
      by fastforce
    then show ?thesis
    proof cases
      case x: 1
      then show ?thesis
        using 2(1) by (intro after [of us]) (auto simp: tagged_def)
    next
      case x: 2
      have "length u + length us = length b + length think_end"
        using arg_cong [OF x(1), of length] by simp
      then show ?thesis
        using 2(1) x by (intro inside [of u]) (auto simp: length_greater_0_conv [symmetric] simp del: length_greater_0_conv)
    next
      case x: 3
      then show ?thesis
        using 2(1) by (intro after [of "[]"]) (auto simp: tagged_def)
    qed
  qed
qed

lemma cut_inside:
  assumes "q @ u = b @ think_end" and "length q < length b + length think_end" and "CHR ''<'' \<notin> set b"
  shows "cut_at think_end q = None"
proof (cases "length q \<le> length b")
  case True
  then have "q = take (length q) b"
    using assms(1) by (metis append_eq_append_conv_if)
  then have "CHR ''<'' \<notin> set q"
    using assms(3) by (metis in_set_takeD)
  then show ?thesis
    by (rule cut_at_none)
next
  case False
  then have "q = b @ take (length q - length b) think_end"
    using arg_cong [OF assms(1), of "take (length q)"] by simp
  moreover have "length q - length b < length think_end"
    using False assms(2) by simp
  ultimately show ?thesis
    using cut_at_part [OF assms(3), of "length q - length b"] by metis
qed

lemma first_tags_before:
  assumes "p @ rest = tagged a b c" and "length p < length a + length think_start" and "CHR ''<'' \<notin> set a"
    and ts: "ts = reasoning_tags \<or> ts = solution_tags \<or> ts = code_tags"
  shows "first_tag ts p = None"
proof (cases "length p \<le> length a")
  case True
  then have "p = take (length p) a"
    using assms(1) unfolding tagged_def by (metis append_eq_append_conv_if)
  then have "CHR ''<'' \<notin> set p"
    using assms(3) by (metis in_set_takeD)
  then show ?thesis
    using ts by (auto intro: first_tag_none)
next
  case False
  define k where "k = length p - length a"
  have p: "p = a @ take k think_start" and k: "k < length think_start"
    using False arg_cong [OF assms(1), of "take (length p)"] assms(2) by (simp_all add: tagged_def k_def)
  have "list_all (\<lambda>k. \<forall>ts \<in> {reasoning_tags, solution_tags, code_tags}. first_tag ts (take k think_start) = None) [0..<length think_start]"
    by code_simp
  then have "first_tag ts (take k think_start) = None"
    using k ts by (auto simp: list_all_iff)
  moreover have "open_tags ts"
    using ts by auto
  then have "first_tag ts (take k think_start) = None \<Longrightarrow> first_tag ts (a @ take k think_start) = None"
    by (induction ts) (auto simp: open_tags_def find_tag_skip assms(3) split: option.splits)
  ultimately show ?thesis
    using p by simp
qed

text \<open>The handlers after a piece: the open reasoning takes the text up to its end, where it is closed.\<close>

lemma open_think_detect:
  assumes it: "open_think it q" and shape: "map shape xs = before_shape a"
    and part: "(a @ think_start @ q) @ rest = tagged a b c"
    and abc: "CHR ''<'' \<notin> set b" "CHR ''<'' \<notin> set c"
  shows "\<exists>m out f. tag_output_handler (Suc k) env ''reasoning'' tags (n, xs @ [it]) = Inr ((m, out), f)
    \<and> quiet out \<and> (reads_inside a b (a @ think_start @ q) out \<or> reads_after a b (a @ think_start @ q) out)"
proof -
  have "q @ rest = b @ think_end @ c"
    using part by (simp add: tagged_def)
  then have "(a @ think_start @ q) @ rest = tagged a b c"
    by (simp add: tagged_def)
  then show ?thesis
  proof (cases rule: first_part_cases)
    case before
    then show ?thesis
      by simp
  next
    case (inside q')
    then have "cut_at think_end q = None"
      using cut_inside abc(1) by auto
    then have "tag_output_handler (Suc k) env ''reasoning'' tags (n, xs @ [it]) = Inr ((n, xs @ [it]), False)"
      by (rule handler_open [OF it])
    moreover have "quiet (xs @ [it])"
      using open_think_simps(1) [OF it] by (simp add: quiet_def)
    moreover have "reads_inside a b (a @ think_start @ q) (xs @ [it])"
      using inside it shape unfolding reads_inside_def by auto
    ultimately show ?thesis
      by blast
  next
    case (after r)
    then have q: "q = b @ think_end @ r" and r: "CHR ''<'' \<notin> set r"
      using abc(2) by (auto simp: tagged_def)
    obtain ys where ys: "tag_output_handler (Suc k) env ''reasoning'' tags (n, xs @ [it])
        = Inr ((Suc n, xs @ ys @ [text_item (se_id env n) (py_strip (py_rstrip r))]), True)" "map shape ys = think_shape b"
      using handler_close [OF it [unfolded q] abc(1) r] by blast
    let ?s = "py_strip (py_rstrip r)"
    have s: "CHR ''<'' \<notin> set ?s"
      using r by (intro strip_no_new)
    have "quiet ((xs @ ys) @ [text_item (se_id env n) ?s])"
      unfolding quiet_def get_last_text_snoc last_type_simps using s by simp
    moreover have "reads_after a b (a @ think_start @ q) ((xs @ ys) @ [text_item (se_id env n) ?s])"
      unfolding reads_after_def using shape ys(2) s
      by (intro exI [of _ r] exI [of _ "xs @ ys"] exI [of _ "text_item (se_id env n) ?s"] exI [of _ ?s]) (simp add: tagged_def q)
    ultimately show ?thesis
      using ys(1) by auto
  qed
qed

lemma message_detect:
  assumes it: "oi_type it = msg_kind" "oi_tag it = None" "oi_content it = one_text p" and nonempty: "p \<noteq> []"
    and part: "p @ rest = tagged a b c"
    and abc: "CHR ''<'' \<notin> set a" "CHR ''<'' \<notin> set b" "CHR ''<'' \<notin> set c"
    and cfg: "sc_reasoning cfg" "sc_tags cfg = reasoning_tags" and depth: "1 < se_depth env"
  shows "\<exists>m out. detect_tags env cfg (n, [it]) = Inr ((m, out), False) \<and> reads a b p out"
proof (cases "length p < length a + length think_start")
  case True
  have "first_tag ts p = None" if "ts \<in> {reasoning_tags, solution_tags, code_tags}" for ts
    using first_tags_before [OF part True abc(1)] that by auto
  then have "detect_tags env cfg (n, [] @ [it]) = Inr ((n, [] @ [it]), False)"
    using it depth cfg unfolding last_type_simps get_last_text_snoc
    by (intro detect_keeps) (auto simp: get_last_text_snoc [of "[]", simplified] last_type_simps(2) [of "[]", simplified])
  moreover have "reads_before a p [it]"
    using True it nonempty by (simp add: reads_before_def)
  ultimately show ?thesis
    by (auto simp: reads_def)
next
  case False
  have "\<exists>q. p = a @ think_start @ q"
    using part
  proof (cases rule: first_part_cases)
    case before
    then show ?thesis
      using False by simp
  qed (auto simp: tagged_def)
  then obtain q where p: "p = a @ think_start @ q"
    by blast
  obtain k where k: "se_depth env = Suc (Suc k)"
    using that [of "se_depth env - 2"] depth by simp
  obtain xs bl where start: "tag_output_handler (Suc (Suc k)) env ''reasoning'' reasoning_tags (n, [it])
      = (if q = [] then Inr ((Suc n, xs @ [bl]), False)
         else tag_output_handler (Suc k) env ''reasoning'' reasoning_tags (Suc n, xs @ [bl]))"
      "map shape xs = before_shape a" "open_think bl q"
    using handler_start [OF it(1) it(3) [unfolded p] abc(1), of k env n] by (elim exE conjE) (rule that)
  obtain m out f where go: "tag_output_handler (Suc k) env ''reasoning'' reasoning_tags (Suc n, xs @ [bl]) = Inr ((m, out), f)"
      "quiet out" "reads_inside a b (a @ think_start @ q) out \<or> reads_after a b (a @ think_start @ q) out"
    using open_think_detect [OF start(3,2) part [unfolded p] abc(2,3)] by blast
  have "\<exists>f. tag_output_handler (Suc (Suc k)) env ''reasoning'' reasoning_tags (n, [it]) = Inr ((m, out), f)"
  proof (cases "q = []")
    case True
    then have "tag_output_handler (Suc k) env ''reasoning'' reasoning_tags (Suc n, xs @ [bl]) = Inr ((Suc n, xs @ [bl]), False)"
      using start(3) cut_at_none [of "[]"] by (intro handler_open) auto
    then show ?thesis
      using True start(1) go(1) by auto
  next
    case False
    then show ?thesis
      using start(1) go(1) by auto
  qed
  then have "detect_tags env cfg (n, [it]) = Inr ((m, out), False)"
    using detect_after [of env cfg n "[it]" m out] go(2) cfg unfolding k by auto
  moreover have "reads a b p out"
    using go(3) unfolding reads_def p by blast
  ultimately show ?thesis
    by blast
qed

lemma reads_step:
  assumes st: "reads a b p out" and v: "v \<noteq> []" and part: "(p @ v) @ rest = tagged a b c"
    and abc: "CHR ''<'' \<notin> set a" "CHR ''<'' \<notin> set b" "CHR ''<'' \<notin> set c"
    and cfg: "sc_reasoning cfg" "sc_tags cfg = reasoning_tags" and depth: "1 < se_depth env"
  shows "\<exists>m out'. content_delta env cfg v (n, out) = Inr ((m, out'), False) \<and> reads a b (p @ v) out'"
  using st [unfolded reads_def]
proof (elim disjE)
  assume before: "reads_before a p out"
  show ?thesis
  proof (cases "p = []")
    case True
    then have "content_delta env cfg v (n, out) = detect_tags env cfg (Suc n, [text_item (se_id env n) v])"
      using before v by (simp add: reads_before_def content_delta_def end_apart_def add_text_first)
    then show ?thesis
      using True message_detect [of "text_item (se_id env n) v" v rest a b c cfg env "Suc n"] v part abc cfg depth by (simp add: reads_def)
  next
    case False
    then obtain it where it: "out = [] @ [it]" "oi_type it = msg_kind" "oi_tag it = None" "oi_content it = one_text p"
      using before by (auto simp: reads_before_def)
    have "end_apart env (n, [] @ [it]) = Inr (n, [] @ [it])"
      using it last_type_simps(2) [of "[]" it] by (simp add: end_apart_def kinds)
    then have "content_delta env cfg v (n, out) = detect_tags env cfg (n, [it\<lparr>oi_content := one_text (p @ v)\<rparr>])"
      using v it add_text_message [OF it(2,3), of env v n "[]"] by (simp add: content_delta_def)
    then show ?thesis
      using message_detect [of "it\<lparr>oi_content := one_text (p @ v)\<rparr>" "p @ v" rest a b c cfg env n] v it part abc cfg depth by (simp add: reads_def)
  qed
next
  assume "reads_inside a b p out"
  then obtain q xs it where in_: "p = a @ think_start @ q" "out = xs @ [it]" "map shape xs = before_shape a" "open_think it q"
    by (auto simp: reads_inside_def)
  obtain it' where it': "add_text env v (n, xs @ [it]) = (n, xs @ [it'])" "open_think it' (q @ v)"
    using add_text_think [OF in_(4) v] by blast
  obtain k where k: "se_depth env = Suc k"
    using that [of "se_depth env - 1"] depth by simp
  obtain m out' f where go: "tag_output_handler (Suc k) env ''reasoning'' (sc_tags cfg) (n, xs @ [it']) = Inr ((m, out'), f)" "quiet out'"
      "reads_inside a b (a @ think_start @ q @ v) out' \<or> reads_after a b (a @ think_start @ q @ v) out'"
    using open_think_detect [OF it'(2) in_(3), of rest b c k env "sc_tags cfg" n] part abc in_(1) by auto
  have "detect_tags env cfg (n, xs @ [it']) = Inr ((m, out'), False)"
    using detect_after [of env cfg n "xs @ [it']" m out' f] go(1,2) cfg k by simp
  then have "content_delta env cfg v (n, out) = Inr ((m, out'), False)"
    using v it'(1) open_think_simps(7) [OF in_(4)] in_(2) by (simp add: content_delta_def)
  then show ?thesis
    using go(3) in_(1) by (auto simp: reads_def)
next
  assume "reads_after a b p out"
  then obtain r xs it s where af: "p = tagged a b r" "out = xs @ [it]" "map shape xs = before_shape a @ think_shape b"
      "oi_type it = msg_kind" "oi_tag it = None" "oi_content it = one_text s" "CHR ''<'' \<notin> set s" "squeeze s = squeeze r"
    unfolding reads_after_def by blast
  define new where "new = it\<lparr>oi_content := one_text (s @ v)\<rparr>"
  have "CHR ''<'' \<notin> set v"
    using part af(1) abc(3) by (auto simp: tagged_def)
  then have sv: "CHR ''<'' \<notin> set (s @ v)"
    using af(7) by simp
  have "end_apart env (n, out) = Inr (n, out)"
    using af(2,4) by (simp add: end_apart_def kinds)
  moreover have "add_text env v (n, out) = (n, xs @ [new])"
    using add_text_message [OF af(4,5)] af(2,6) by (simp add: new_def)
  moreover have "detect_tags env cfg (n, xs @ [new]) = Inr ((n, xs @ [new]), False)"
    using af sv depth cfg by (intro detect_plain [of _ "s @ v"]) (simp_all add: new_def)
  ultimately have "content_delta env cfg v (n, out) = Inr ((n, xs @ [new]), False)"
    using v by (simp add: content_delta_def)
  moreover have "reads_after a b (p @ v) (xs @ [new])"
    unfolding reads_after_def using af sv
    by (intro exI [of _ "r @ v"] exI [of _ xs] exI [of _ new] exI [of _ "s @ v"]) (simp add: tagged_def new_def)
  ultimately show ?thesis
    by (auto simp: reads_def)
qed

text \<open>The deltas of an answer that comes as text only\<close>

definition text_only_delta :: "rat \<times> string \<Rightarrow> delta" where
  "text_only_delta = (\<lambda>(now, v). plain_delta (now, [], [], v))"

lemma stream_reads:
  assumes abc: "CHR ''<'' \<notin> set a" "CHR ''<'' \<notin> set b" "CHR ''<'' \<notin> set c"
    and cfg: "sc_reasoning cfg" "sc_tags cfg = reasoning_tags" and depth: "1 < depth"
  shows "concat (map snd vs) @ rest = tagged a b c \<Longrightarrow>
    \<exists>m out. rfoldM (delta_step new_id depth cfg) \<lparr>st_calls = [], st_out = (0, []), st_stopped = False\<rparr> (map text_only_delta vs)
        = Inr \<lparr>st_calls = [], st_out = (m, out), st_stopped = False\<rparr>
      \<and> reads a b (concat (map snd vs)) out"
proof (induction vs arbitrary: rest rule: rev_induct)
  case Nil
  show ?case
    by (simp add: reads_def reads_before_def think_start_def)
next
  case (snoc d vs)
  obtain now v where d: "d = (now, v)"
    by (cases d)
  obtain m out where ih: "rfoldM (delta_step new_id depth cfg) \<lparr>st_calls = [], st_out = (0, []), st_stopped = False\<rparr> (map text_only_delta vs)
        = Inr \<lparr>st_calls = [], st_out = (m, out), st_stopped = False\<rparr>" "reads a b (concat (map snd vs)) out"
    using snoc.IH [of "v @ rest"] snoc.prems d by auto
  let ?env = "\<lparr>se_id = new_id, se_now = now, se_depth = depth\<rparr>"
  have "\<exists>m' out'. content_delta ?env cfg v (m, out) = Inr ((m', out'), False) \<and> reads a b (concat (map snd vs) @ v) out'"
  proof (cases "v = []")
    case True
    then show ?thesis
      using ih(2) by (simp add: content_delta_def)
  next
    case False
    then show ?thesis
      using snoc.prems d depth by (intro reads_step [OF ih(2) False _ abc cfg]) auto
  qed
  then obtain m' out' where go: "content_delta ?env cfg v (m, out) = Inr ((m', out'), False)" "reads a b (concat (map snd vs) @ v) out'"
    by blast
  have "delta_step new_id depth cfg \<lparr>st_calls = [], st_out = (m, out), st_stopped = False\<rparr> (text_only_delta d)
      = Inr \<lparr>st_calls = [], st_out = (m', out'), st_stopped = False\<rparr>"
    using go(1) by (simp add: d delta_step_def text_only_delta_def plain_delta_def reasoning_delta_step_def)
  then show ?case
    using ih(1) go(2) by (simp add: rfoldM_append d)
qed



end
