(* ===== verification/Access_Checks.thy ===== *)
theory Access_Checks
  imports Permissions Access_Grants Kb_Sync
begin

text \<open>
  The rest of \<^verbatim>\<open>backend/openlaunch/utils/access_control\<close>: access to what the configuration holds with its
  grants beside it, the migration of its legacy dictionaries, the grants a user may hand out, access to
  models and the models they are based on, and access to files through knowledge bases, channels, shared
  chats and models. The queries of \<^verbatim>\<open>models/models.py\<close>, \<^verbatim>\<open>models/channels.py\<close> and \<^verbatim>\<open>models/chats.py\<close> that
  these checks make are those on the lists of rows. The knowledge of a model and the files of a folder
  are lists of dynamic values whose ids are texts.
\<close>

section \<open>Grants in the configuration\<close>

fun any_grant :: "string \<Rightarrow> string \<Rightarrow> string set \<Rightarrow> pv list \<Rightarrow> bool res" where
  "any_grant uid perm G [] = Inr False"
| "any_grant uid perm G (g # gs) = (case g of
      PDict d \<Rightarrow>
       (let pt = od_getd d ''principal_type'' PNone; pid = od_getd d ''principal_id'' PNone in
        if od_getd d ''permission'' PNone \<noteq> PStr perm then any_grant uid perm G gs
        else if pt = PStr ''user'' \<and> (pid = PStr ''*'' \<or> pid = PStr uid) then Inr True
        else if pt = PStr ''group'' \<and> G \<noteq> {}
        then rbind (hash_key pid) (\<lambda>k. if k \<in> PStr ` G then Inr True else any_grant uid perm G gs)
        else any_grant uid perm G gs)
    | _ \<Rightarrow> any_grant uid perm G gs)"

definition has_access :: "group_db \<Rightarrow> string \<Rightarrow> string \<Rightarrow> pv \<Rightarrow> string set option \<Rightarrow> bool res" where
  "has_access db uid perm grants gids =
     (if \<not> truthy grants then Inr False
      else rbind (piter grants) (any_grant uid perm (resolve_groups db uid gids)))"

definition has_connection_access :: "bool \<Rightarrow> group_db \<Rightarrow> kb_caller \<Rightarrow> pdict \<Rightarrow> string set option \<Rightarrow> bool res" where
  "has_connection_access bypass db user conn gids =
     (if kc_role user = ''admin'' \<and> bypass then Inr True
      else rbind (pget (py_or (od_getd conn ''config'' PNone) (PDict [])) ''access_grants'' (PList [])) (\<lambda>grants.
        has_access db (kc_id user) ''read'' grants (Some (resolve_groups db (kc_id user) gids))))"

definition config_grant :: "string \<Rightarrow> string \<Rightarrow> pv \<Rightarrow> pv" where
  "config_grant perm pt pid = PDict [(''principal_type'', PStr pt), (''principal_id'', pid), (''permission'', PStr perm)]"

definition perm_grants :: "pv \<Rightarrow> string \<Rightarrow> pv list res" where
  "perm_grants ac perm =
     rbind (pget ac perm (PDict [])) (\<lambda>p.
       if \<not> truthy p then Inr []
       else rbind (pget p ''group_ids'' (PList [])) (\<lambda>gs. rbind (piter gs) (\<lambda>gs.
            rbind (pget p ''user_ids'' (PList [])) (\<lambda>us. rbind (piter us) (\<lambda>us.
              Inr (map (config_grant perm ''group'') gs @ map (config_grant perm ''user'') us))))))"

definition migrate_access_control :: "string \<Rightarrow> string \<Rightarrow> pdict \<Rightarrow> pdict res" where
  "migrate_access_control ac_key grants_key data =
     (if od_has data grants_key \<or> \<not> od_has data ac_key then Inr data
      else let ac = od_getd data ac_key PNone in
        rbind (if truthy ac \<and> is_dict ac
               then rbind (perm_grants ac ''read'') (\<lambda>r. rmap ((@) r) (perm_grants ac ''write'')) else Inr []) (\<lambda>grants.
          Inr (od_del ac_key (od_set grants_key (PList grants) data))))"

section \<open>The grants a user may hand out\<close>

definition public_entry :: "pv \<Rightarrow> bool" where
  "public_entry g = (grant_attr g ''principal_type'' = PStr ''user'' \<and> grant_attr g ''principal_id'' = PStr ''*'')"

definition filter_allowed_access_grants ::
  "pdict \<Rightarrow> (nat \<Rightarrow> string) \<Rightarrow> group_db \<Rightarrow> pdict \<Rightarrow> kb_caller \<Rightarrow> pv list \<Rightarrow> string \<Rightarrow> pv list res" where
  "filter_allowed_access_grants dflt fresh db defaults user grants public_key =
     (if kc_role user = ''admin'' \<or> grants = [] then Inr grants
      else rbind
        (if has_public_read_access_grant fresh grants \<or> has_public_write_access_grant fresh grants
         then rmap (\<lambda>ok. if ok then grants else filter (\<lambda>g. \<not> public_entry g) grants)
                (has_permission dflt db (kc_id user) public_key defaults)
         else Inr grants) (\<lambda>grants.
        if has_user_access_grant fresh grants
        then rmap (\<lambda>ok. if ok then grants else strip_user_access_grants grants)
               (has_permission dflt db (kc_id user) ''access_grants.allow_users'' defaults)
        else Inr grants))"

section \<open>Models\<close>

record model_row =
  mo_id :: string
  mo_owner :: string
  mo_base :: "string option"
  mo_knowledge :: "pv list"

definition get_model_by_id :: "model_row list \<Rightarrow> string \<Rightarrow> model_row option" where
  "get_model_by_id ms i = List.find (\<lambda>m. mo_id m = i) ms"

definition may_use :: "group_db \<Rightarrow> grant_row list \<Rightarrow> string \<Rightarrow> string set option \<Rightarrow> model_row \<Rightarrow> bool" where
  "may_use db rows uid gids m = (uid = mo_owner m \<or> grants_has_access db rows uid ''model'' (mo_id m) ''read'' gids)"

definition unseen_models :: "model_row list \<Rightarrow> string list \<Rightarrow> nat" where
  "unseen_models ms seen = card (mo_id ` set ms - set seen)"

lemma get_model_Some: "get_model_by_id ms i = Some m \<Longrightarrow> m \<in> set ms \<and> mo_id m = i"
  by (auto simp: get_model_by_id_def find_Some_iff)

function base_access :: "(model_row \<Rightarrow> bool) \<Rightarrow> model_row list \<Rightarrow> string option \<Rightarrow> string list \<Rightarrow> bool" where
  "base_access ok ms None seen = True"
| "base_access ok ms (Some b) seen =
     (if b = [] \<or> b \<in> set seen then True
      else case get_model_by_id ms b of
        None \<Rightarrow> True
      | Some m \<Rightarrow> if ok m then base_access ok ms (mo_base m) (b # seen) else False)"
  by pat_completeness auto
termination
proof (relation "measure (\<lambda>(ok, ms, b, seen). unseen_models ms seen)")
  fix ok ms seen and b :: string and m
  assume "\<not> (b = [] \<or> b \<in> set seen)" and "get_model_by_id ms b = Some m"
  then have "b \<in> mo_id ` set ms - set seen"
    using get_model_Some by fastforce
  then have "card (mo_id ` set ms - set (b # seen)) < card (mo_id ` set ms - set seen)"
    by (intro psubset_card_mono) auto
  then show "((ok, ms, mo_base m, b # seen), ok, ms, Some b, seen) \<in> measure (\<lambda>(ok, ms, b, seen). unseen_models ms seen)"
    by (simp add: unseen_models_def)
qed simp

definition has_base_model_access :: "group_db \<Rightarrow> grant_row list \<Rightarrow> model_row list \<Rightarrow> string \<Rightarrow> model_row \<Rightarrow> string set option \<Rightarrow> bool" where
  "has_base_model_access db rows ms uid m gids = base_access (may_use db rows uid gids) ms (mo_base m) [mo_id m]"

definition check_model_access :: "group_db \<Rightarrow> grant_row list \<Rightarrow> model_row list \<Rightarrow> kb_caller \<Rightarrow> model_row option \<Rightarrow> bool \<Rightarrow> unit res" where
  "check_model_access db rows ms user model bypass =
     (if bypass then Inr ()
      else case model of
        Some m \<Rightarrow>
          (if kc_role user = ''admin'' then Inr ()
           else let G = Some (group_id_set db (kc_id user)) in
             if \<not> may_use db rows (kc_id user) G m then Inl (HTTPException 403 ''Model not found'')
             else if \<not> has_base_model_access db rows ms (kc_id user) m G then Inl (HTTPException 403 ''Model not found'')
             else Inr ())
      | None \<Rightarrow> (if kc_role user \<noteq> ''admin'' then Inl (HTTPException 403 ''Model not found'') else Inr ()))"

text \<open>The models that are based on another one and that the user owns or has a grant on\<close>

definition get_models_by_user_id :: "group_db \<Rightarrow> grant_row list \<Rightarrow> model_row list \<Rightarrow> string \<Rightarrow> string \<Rightarrow> model_row list" where
  "get_models_by_user_id db rows ms uid perm =
     (let G = Some (group_id_set db uid) in
      filter (\<lambda>m. mo_owner m = uid \<or> grants_has_access db rows uid ''model'' (mo_id m) perm G)
        (filter (\<lambda>m. mo_base m \<noteq> None) ms))"

section \<open>Files\<close>

record channel_row =
  ch_id :: string
  ch_owner :: string
  ch_type :: "string option"
  ch_deleted :: bool
  ch_archived :: bool

record file_env =
  fe_groups :: group_db
  fe_grants :: "grant_row list"
  fe_files :: "file_row list"
  fe_kbs :: kb_tables
  fe_models :: "model_row list"
  fe_channels :: "channel_row list"
  fe_channel_files :: "(string \<times> string) list"
  fe_members :: "(string \<times> string \<times> bool) list"
  fe_chats :: "(string \<times> string option) list"
  fe_chat_files :: "(string \<times> string) list"

definition user_groups :: "file_env \<Rightarrow> string \<Rightarrow> string set" where
  "user_groups env uid = group_id_set (fe_groups env) uid"

definition granted :: "file_env \<Rightarrow> string \<Rightarrow> string \<Rightarrow> string \<Rightarrow> string \<Rightarrow> bool" where
  "granted env uid rt rid perm = grants_has_access (fe_groups env) (fe_grants env) uid rt rid perm (Some (user_groups env uid))"

definition get_knowledges_by_file_id :: "kb_tables \<Rightarrow> string \<Rightarrow> kb_row list" where
  "get_knowledges_by_file_id t i =
     concat (map (\<lambda>l. filter (\<lambda>k. kb_id k = kf_kb l) (kt_bases t)) (filter (\<lambda>l. kf_file l = i) (kt_links t)))"

definition get_knowledge_bases_by_user_id :: "file_env \<Rightarrow> string \<Rightarrow> string \<Rightarrow> kb_row list" where
  "get_knowledge_bases_by_user_id env uid perm =
     filter (\<lambda>k. kb_owner k = uid \<or> granted env uid ''knowledge'' (kb_id k) perm) (kt_bases (fe_kbs env))"

definition check_access_by_user_id :: "file_env \<Rightarrow> string \<Rightarrow> string \<Rightarrow> string \<Rightarrow> bool" where
  "check_access_by_user_id env i uid perm = (case get_knowledge_by_id (fe_kbs env) i of
      None \<Rightarrow> False
    | Some k \<Rightarrow> kb_owner k = uid \<or> granted env uid ''knowledge'' (kb_id k) perm)"

definition channel_admits :: "file_env \<Rightarrow> string \<Rightarrow> channel_row \<Rightarrow> bool" where
  "channel_admits env uid c =
     (if ch_type c = Some ''group'' \<or> ch_type c = Some ''dm'' then (ch_id c, uid, True) \<in> set (fe_members env)
      else has_permission_filter (fe_grants env) ''channel'' ''read''
             (map g_id (get_groups_by_member_id (fe_groups env) uid)) (Some uid)
             [\<lparr>d_id = ch_id c, d_user_id = ch_owner c\<rparr>] \<noteq> [])"

definition get_channels_by_file_id_and_user_id :: "file_env \<Rightarrow> string \<Rightarrow> string \<Rightarrow> channel_row list" where
  "get_channels_by_file_id_and_user_id env i uid =
     (let ids = map fst (filter (\<lambda>(c, f). f = i) (fe_channel_files env)) in
      filter (channel_admits env uid)
        (filter (\<lambda>c. ch_id c \<in> set ids \<and> \<not> ch_deleted c \<and> \<not> ch_archived c) (fe_channels env)))"

definition get_shared_chat_ids_by_file_id :: "file_env \<Rightarrow> string \<Rightarrow> string list" where
  "get_shared_chat_ids_by_file_id env i =
     concat (map (\<lambda>(c, share). map (\<lambda>_. c) (filter (\<lambda>(c', f). c' = c \<and> f = i \<and> share \<noteq> None) (fe_chat_files env))) (fe_chats env))"

definition attaches :: "string \<Rightarrow> model_row \<Rightarrow> bool" where
  "attaches i m = list_ex (\<lambda>v. case v of
      PDict d \<Rightarrow> od_getd d ''type'' PNone = PStr ''file'' \<and> od_getd d ''id'' PNone = PStr i | _ \<Rightarrow> False) (mo_knowledge m)"

definition has_access_to_file :: "file_env \<Rightarrow> string \<Rightarrow> string \<Rightarrow> string \<Rightarrow> bool" where
  "has_access_to_file env i perm uid = (case get_file_by_id (fe_files env) i of
      None \<Rightarrow> False
    | Some f \<Rightarrow>
       (if fl_user f = uid then True
        else if list_ex (\<lambda>k. (kb_owner k = uid \<or> granted env uid ''knowledge'' (kb_id k) perm)
                  \<and> (perm = ''read'' \<or> kb_owner k = fl_user f)) (get_knowledges_by_file_id (fe_kbs env) i) then True
        else if (let c = od_getd (fl_meta f) ''collection_name'' PNone in truthy c
                  \<and> list_ex (\<lambda>k. PStr (kb_id k) = c \<and> (perm = ''read'' \<or> kb_owner k = fl_user f))
                      (get_knowledge_bases_by_user_id env uid perm)) then True
        else if perm = ''read'' \<and> get_channels_by_file_id_and_user_id env i uid \<noteq> [] then True
        else if perm = ''read'' \<and> get_shared_chat_ids_by_file_id env i \<noteq> []
                \<and> get_accessible_resource_ids (fe_groups env) (fe_grants env) uid ''shared_chat''
                    (get_shared_chat_ids_by_file_id env i) ''read'' (Some (user_groups env uid)) \<noteq> {} then True
        else list_ex (\<lambda>m. attaches i m \<and> (perm = ''read'' \<or> mo_owner m = fl_user f))
               (get_models_by_user_id (fe_groups env) (fe_grants env) (fe_models env) uid perm)))"

fun accessible_entries :: "file_env \<Rightarrow> string \<Rightarrow> pv list \<Rightarrow> pv list" where
  "accessible_entries env uid [] = []"
| "accessible_entries env uid (e # es) = (case e of
      PDict d \<Rightarrow>
       (let ty = od_getd d ''type'' PNone; i = od_getd d ''id'' PNone in
        if \<not> truthy i then e # accessible_entries env uid es
        else if ty = PStr ''file''
        then (if has_access_to_file env (case_option [] id (as_str i)) ''read'' uid then e # accessible_entries env uid es
              else accessible_entries env uid es)
        else if ty = PStr ''collection''
        then (if check_access_by_user_id env (case_option [] id (as_str i)) uid ''read'' then e # accessible_entries env uid es
              else accessible_entries env uid es)
        else e # accessible_entries env uid es)
    | _ \<Rightarrow> accessible_entries env uid es)"

definition get_accessible_folder_files :: "file_env \<Rightarrow> kb_caller \<Rightarrow> pv list option \<Rightarrow> pv list" where
  "get_accessible_folder_files env user entries = (case entries of
      None \<Rightarrow> []
    | Some es \<Rightarrow> (if es = [] then [] else if kc_role user = ''admin'' then es else accessible_entries env (kc_id user) es))"

section \<open>The migration keeps the decisions\<close>

definition id_lists :: "perm_lists option \<Rightarrow> pv" where
  "id_lists p = (case p of None \<Rightarrow> PDict []
     | Some l \<Rightarrow> PDict [(''group_ids'', PList (map PStr (group_ids l))), (''user_ids'', PList (map PStr (user_ids l)))])"

text \<open>The legacy dictionary as it is stored\<close>

definition ac_value :: "access_control \<Rightarrow> pv" where
  "ac_value a = PDict [(''read'', id_lists (ac_read a)), (''write'', id_lists (ac_write a))]"

definition grant_of_spec :: "grant_spec \<Rightarrow> pv" where
  "grant_of_spec s = config_grant (gs_permission s) (gs_principal_type s) (PStr (gs_principal_id s))"

lemma any_grant_append: "any_grant uid perm G (xs @ ys) = rbind (any_grant uid perm G xs) (\<lambda>b. if b then Inr True else any_grant uid perm G ys)"
proof (induction xs)
  case (Cons g gs)
  show ?case
  proof (cases g)
    case (PDict d)
    then show ?thesis
      using Cons by (cases "hash_key (od_getd d ''principal_id'' PNone)") (auto simp: Let_def)
  qed (use Cons in simp_all)
qed simp

lemma any_grant_specs:
  "any_grant uid perm G (map grant_of_spec ss) = Inr (\<exists>s\<in>set ss. spec_admits uid G perm s)"
proof (induction ss)
  case (Cons s ss)
  have "any_grant uid perm G [grant_of_spec s] = Inr (spec_admits uid G perm s)"
    by (simp add: grant_of_spec_def config_grant_def spec_admits_def od_getd_def Let_def) blast
  then show ?case
    using any_grant_append [of uid perm G "[grant_of_spec s]" "map grant_of_spec ss"] Cons by simp
qed simp

lemma perm_grants_specs:
  "perm_grants (PDict [(''read'', id_lists r), (''write'', id_lists w)]) ''read'' = Inr (map grant_of_spec (perm_specs rt rid ''read'' r))"
  "perm_grants (PDict [(''read'', id_lists r), (''write'', id_lists w)]) ''write'' = Inr (map grant_of_spec (perm_specs rt rid ''write'' w))"
  by (cases r; cases w; simp add: perm_grants_def pget_def od_getd_def id_lists_def perm_specs_def grant_of_spec_def spec_of_def comp_def piter_def)+

text \<open>The migration of a configuration from its legacy dictionary keeps every decision: the grants it
  leaves behind let through exactly the users whom the table's own conversion of that dictionary would.\<close>

theorem migration_keeps_access:
  assumes "od_get data ''access_control'' = Some (ac_value a)" and "\<not> od_has data ''access_grants''"
  shows "\<exists>data' grants. migrate_access_control ''access_control'' ''access_grants'' data = Inr data'
    \<and> od_get data' ''access_grants'' = Some grants \<and> \<not> od_has data' ''access_control''
    \<and> has_access db uid perm grants gids
        = Inr (\<exists>s\<in>set (access_control_to_grants rt rid (Some a)). spec_admits uid (resolve_groups db uid gids) perm s)"
proof -
  let ?ss = "access_control_to_grants rt rid (Some a)"
  define data' where "data' = od_del ''access_control'' (od_set ''access_grants'' (PList (map grant_of_spec ?ss)) data)"
  have "migrate_access_control ''access_control'' ''access_grants'' data = Inr data'"
    using assms by (simp add: migrate_access_control_def od_has_def od_getd_def ac_value_def is_dict_def
        perm_grants_specs [of _ _ rt rid] access_control_to_grants_def data'_def)
  moreover have "has_access db uid perm (PList (map grant_of_spec ?ss)) gids
      = Inr (\<exists>s\<in>set ?ss. spec_admits uid (resolve_groups db uid gids) perm s)"
    by (cases "?ss = []") (simp_all add: has_access_def piter_def any_grant_specs)
  ultimately show ?thesis
    by (intro exI [of _ data'] exI [of _ "PList (map grant_of_spec ?ss)"]) (simp add: data'_def od_has_def)
qed

lemma migration_keeps_access_witness:
  "\<exists>data' grants. migrate_access_control ''access_control'' ''access_grants''
      [(''url'', PStr ''x''), (''access_control'', ac_value \<lparr>ac_read = Some \<lparr>group_ids = [''g1''], user_ids = []\<rparr>, ac_write = None\<rparr>)] = Inr data'
    \<and> od_get data' ''access_grants'' = Some grants \<and> \<not> od_has data' ''access_control''
    \<and> has_access perm_db ''bob'' ''read'' grants (Some {''g1''}) = Inr True"
proof -
  have "\<exists>s\<in>set (access_control_to_grants [] [] (Some \<lparr>ac_read = Some \<lparr>group_ids = [''g1''], user_ids = []\<rparr>, ac_write = None\<rparr>)).
      spec_admits ''bob'' (resolve_groups perm_db ''bob'' (Some {''g1''})) ''read'' s"
    by (simp add: access_control_to_grants_def perm_specs_def spec_of_def spec_admits_def resolve_groups_def)
  then show ?thesis
    using migration_keeps_access [of "[(''url'', PStr ''x''), (''access_control'',
        ac_value \<lparr>ac_read = Some \<lparr>group_ids = [''g1''], user_ids = []\<rparr>, ac_write = None\<rparr>)]"
        "\<lparr>ac_read = Some \<lparr>group_ids = [''g1''], user_ids = []\<rparr>, ac_write = None\<rparr>" perm_db "''bob''" "''read''" "Some {''g1''}" "[]" "[]"]
    by (simp add: od_has_def)
qed

section \<open>What a user can hand out\<close>

lemma public_given:
  "has_public_read_access_grant fresh gs \<or> has_public_write_access_grant fresh gs
     \<longleftrightarrow> (\<exists>g\<in>set gs. \<exists>p. valid_entry g (''user'', ''*'', p))"
proof -
  have "has_public_read_access_grant fresh gs \<or> has_public_write_access_grant fresh gs
      \<longleftrightarrow> (\<exists>g\<in>set (normalize_access_grants fresh gs). (\<lambda>(pt, pid, p). pt = ''user'' \<and> pid = ''*'' \<and> (p = ''read'' \<or> p = ''write'')) (fg_key g))"
    by (auto simp: has_public_read_access_grant_def has_public_write_access_grant_def fg_key_def)
  also have "\<dots> \<longleftrightarrow> (\<exists>g\<in>set gs. \<exists>p. valid_entry g (''user'', ''*'', p))"
    unfolding normalize_ex by (auto simp: valid_entry_iff)
  finally show ?thesis .
qed

lemma user_given:
  "has_user_access_grant fresh gs \<longleftrightarrow> (\<exists>g\<in>set gs. \<exists>pid p. valid_entry g (''user'', pid, p) \<and> pid \<noteq> ''*'')"
proof -
  have "has_user_access_grant fresh gs
      \<longleftrightarrow> (\<exists>g\<in>set (normalize_access_grants fresh gs). (\<lambda>(pt, pid, p). pt = ''user'' \<and> pid \<noteq> ''*'') (fg_key g))"
    by (auto simp: has_user_access_grant_def fg_key_def)
  also have "\<dots> \<longleftrightarrow> (\<exists>g\<in>set gs. \<exists>pid p. valid_entry g (''user'', pid, p) \<and> pid \<noteq> ''*'')"
    unfolding normalize_ex by auto
  finally show ?thesis .
qed

lemma entry_attrs:
  assumes "valid_entry g (pt, pid, p)"
  shows "grant_attr g ''principal_type'' = PStr pt" "grant_attr g ''principal_id'' = PStr pid"
  using assms by (auto simp: valid_entry_iff grant_attr_def)

text \<open>An entry that the filter lets through\<close>

definition hands_out :: "bool res \<Rightarrow> bool res \<Rightarrow> grant_triple \<Rightarrow> bool" where
  "hands_out publicly to_users = (\<lambda>(pt, pid, p).
     if pt = ''user'' \<and> pid = ''*'' then publicly = Inr True else if pt = ''user'' then to_users = Inr True else True)"

lemma filter_allowed_entries:
  assumes role: "kc_role user \<noteq> ''admin''"
    and out: "filter_allowed_access_grants dflt fresh db defaults user grants key = Inr out"
  shows "(\<exists>g\<in>set out. valid_entry g k) \<longleftrightarrow> (\<exists>g\<in>set grants. valid_entry g k)
    \<and> hands_out (has_permission dflt db (kc_id user) key defaults)
        (has_permission dflt db (kc_id user) ''access_grants.allow_users'' defaults) k"
proof (cases "grants = []")
  case True
  then show ?thesis
    using out by (simp add: filter_allowed_access_grants_def)
next
  case False
  let ?pub = "has_permission dflt db (kc_id user) key defaults"
  let ?usr = "has_permission dflt db (kc_id user) ''access_grants.allow_users'' defaults"
  obtain pt pid p where k: "k = (pt, pid, p)"
    by (cases k)
  obtain mid where mid: "(if has_public_read_access_grant fresh grants \<or> has_public_write_access_grant fresh grants
         then rmap (\<lambda>ok. if ok then grants else filter (\<lambda>g. \<not> public_entry g) grants) ?pub else Inr grants) = Inr mid"
      and rest: "(if has_user_access_grant fresh mid then rmap (\<lambda>ok. if ok then mid else strip_user_access_grants mid) ?usr
         else Inr mid) = Inr out"
    using out role False unfolding filter_allowed_access_grants_def by (auto simp: rbind_eq_Inr)
  have 1: "(\<exists>g\<in>set mid. valid_entry g (pt, pid, p)) \<longleftrightarrow> (\<exists>g\<in>set grants. valid_entry g (pt, pid, p))
      \<and> (pt = ''user'' \<and> pid = ''*'' \<longrightarrow> ?pub = Inr True)" for pt pid p
  proof (cases "\<exists>g\<in>set grants. \<exists>p. valid_entry g (''user'', ''*'', p)")
    case True
    then obtain ok where ok: "?pub = Inr ok" "mid = (if ok then grants else filter (\<lambda>g. \<not> public_entry g) grants)"
      using mid unfolding public_given by (cases ?pub) auto
    then show ?thesis
      using entry_attrs [of _ pt pid p] by (cases ok) (auto simp: public_entry_def)
  next
    case False
    then have "mid = grants"
      using mid unfolding public_given by simp
    then show ?thesis
      using False by auto
  qed
  have 2: "(\<exists>g\<in>set out. valid_entry g (pt, pid, p)) \<longleftrightarrow> (\<exists>g\<in>set mid. valid_entry g (pt, pid, p))
      \<and> (pt = ''user'' \<and> pid \<noteq> ''*'' \<longrightarrow> ?usr = Inr True)"
  proof (cases "\<exists>g\<in>set mid. \<exists>pid p. valid_entry g (''user'', pid, p) \<and> pid \<noteq> ''*''")
    case True
    then obtain ok where ok: "?usr = Inr ok" "out = (if ok then mid else strip_user_access_grants mid)"
      using rest unfolding user_given by (cases ?usr) auto
    then show ?thesis
      using entry_attrs [of _ pt pid p] by (cases ok) (auto simp: strip_user_access_grants_def)
  next
    case False
    then have "out = mid"
      using rest unfolding user_given if_not_P [OF False] by simp
    then show ?thesis
      using False by auto
  qed
  show ?thesis
    using 1 [of pt pid p] 2 by (auto simp: k hands_out_def)
qed

text \<open>C6 What a user who is no administrator can hand out: after the filtered form has been stored, somebody has a
  permission on the resource exactly when the form gave it to one of his groups, or to everybody and the user
  may share publicly, or to him alone and the user may share with single users.\<close>

theorem sharing_needs_permission:
  assumes "kc_role user \<noteq> ''admin''"
    and "filter_allowed_access_grants dflt fresh db defaults user grants key = Inr out"
    and "set_access_grants gfresh ids now rt rid out rows = Inr (rows', added)"
  shows "has_grant rows' u G rt rid p \<longleftrightarrow>
      (\<exists>g\<in>set grants. \<exists>gid\<in>G. valid_entry g (''group'', gid, p))
    \<or> (\<exists>g\<in>set grants. valid_entry g (''user'', ''*'', p)) \<and> has_permission dflt db (kc_id user) key defaults = Inr True
    \<or> (\<exists>g\<in>set grants. valid_entry g (''user'', u, p)) \<and> u \<noteq> ''*''
        \<and> has_permission dflt db (kc_id user) ''access_grants.allow_users'' defaults = Inr True"
proof -
  have "has_grant rows' u G rt rid p \<longleftrightarrow>
      (\<exists>g\<in>set out. valid_entry g (''user'', ''*'', p)) \<or> (\<exists>g\<in>set out. valid_entry g (''user'', u, p))
      \<or> (\<exists>gid\<in>G. \<exists>g\<in>set out. valid_entry g (''group'', gid, p))"
    using stored_form_admits [OF assms(3), of u G rt rid p] by auto
  then show ?thesis
    unfolding filter_allowed_entries [OF assms(1,2)] by (auto simp: hands_out_def)
qed

definition sample_sharing :: "pv list" where
  "sample_sharing = [PDict [(''principal_type'', PStr ''user''), (''principal_id'', PStr ''*''), (''permission'', PStr ''read'')],
     PDict [(''principal_type'', PStr ''group''), (''principal_id'', PStr ''g1''), (''permission'', PStr ''read'')]]"

definition kept_sharing :: "pv list" where
  "kept_sharing = tl sample_sharing"

lemma sharing_needs_permission_witness:
  "\<exists>rows' added. set_access_grants (\<lambda>_. ''x'') (\<lambda>_. ''y'') 0 ''note'' ''n1'' kept_sharing [] = Inr (rows', added)
    \<and> \<not> has_grant rows' ''eve'' {} ''note'' ''n1'' ''read'' \<and> has_grant rows' ''eve'' {''g1''} ''note'' ''n1'' ''read''"
proof -
  have filtered: "filter_allowed_access_grants [] (\<lambda>_. ''x'') perm_db [] \<lparr>kc_id = ''ann'', kc_role = ''user''\<rparr> sample_sharing ''sharing.public''
      = Inr kept_sharing"
    by code_simp
  have denied: "has_permission [] perm_db ''ann'' ''sharing.public'' [] = Inr False"
    "has_permission [] perm_db ''ann'' ''access_grants.allow_users'' [] = Inr False"
    by code_simp+
  obtain rows' added where stored: "set_access_grants (\<lambda>_. ''x'') (\<lambda>_. ''y'') 0 ''note'' ''n1'' kept_sharing [] = Inr (rows', added)"
    by (simp add: set_access_grants_def replace_grants_def kept_sharing_def sample_sharing_def normalize_access_grants_def
        clean_grant_def od_getd_def fg_key_def grants_unique_def Let_def)
  have group: "\<exists>g\<in>set sample_sharing. valid_entry g (''group'', ''g1'', ''read'')"
    by (simp add: sample_sharing_def valid_entry_iff od_getd_def)
  show ?thesis
    using stored group denied sharing_needs_permission [OF _ filtered stored, of "''eve''" "{}" "''read''"]
      sharing_needs_permission [OF _ filtered stored, of "''eve''" "{''g1''}" "''read''"] by auto
qed

section \<open>Models and their bases\<close>

text \<open>A registered model and the registered model it is based on\<close>

definition based_on :: "model_row list \<Rightarrow> (string \<times> string) set" where
  "based_on ms = {(mo_id m, b) | m b. m \<in> set ms \<and> mo_base m = Some b \<and> b \<noteq> [] \<and> b \<in> mo_id ` set ms}"

definition models_ok :: "model_row list \<Rightarrow> bool" where
  "models_ok ms = distinct (map mo_id ms)"

lemma get_model_in: "models_ok ms \<Longrightarrow> m \<in> set ms \<Longrightarrow> get_model_by_id ms (mo_id m) = Some m"
  unfolding models_ok_def get_model_by_id_def
  by (induction ms) auto

lemma get_model_None: "get_model_by_id ms i = None \<longleftrightarrow> i \<notin> mo_id ` set ms"
  by (auto simp: get_model_by_id_def find_None_iff)

text \<open>Where the walk stands: what it has seen may be used, and leads only to what it has seen or to the next one.\<close>

definition walked :: "(model_row \<Rightarrow> bool) \<Rightarrow> model_row list \<Rightarrow> string option \<Rightarrow> string list \<Rightarrow> bool" where
  "walked ok ms b seen = (\<forall>m\<in>set ms. mo_id m \<in> set seen \<longrightarrow> ok m
     \<and> (\<forall>c. (mo_id m, c) \<in> based_on ms \<longrightarrow> c \<in> set seen \<or> b = Some c))"

lemma walked_closed:
  assumes "walked ok ms b seen" and closed: "\<And>c. b = Some c \<Longrightarrow> c \<in> mo_id ` set ms \<Longrightarrow> c \<noteq> [] \<Longrightarrow> c \<in> set seen"
    and "(i, j) \<in> (based_on ms)\<^sup>*" and "i \<in> set seen"
  shows "j \<in> set seen"
  using assms(3,4)
proof (induction rule: rtrancl_induct)
  case (step y z)
  then obtain m where m: "m \<in> set ms" "mo_id m = y" "z \<in> mo_id ` set ms" "z \<noteq> []"
    by (auto simp: based_on_def)
  then have "z \<in> set seen \<or> b = Some z"
    using assms(1) step by (auto simp: walked_def)
  then show ?case
    using closed m(3,4) by auto
qed

lemma base_access_exact:
  "models_ok ms \<Longrightarrow> walked ok ms b seen \<Longrightarrow> set seen \<subseteq> (based_on ms)\<^sup>* `` {i} \<Longrightarrow> i \<in> set seen
    \<Longrightarrow> (\<And>c. b = Some c \<Longrightarrow> c \<noteq> [] \<Longrightarrow> c \<in> mo_id ` set ms \<Longrightarrow> (i, c) \<in> (based_on ms)\<^sup>*)
    \<Longrightarrow> base_access ok ms b seen \<longleftrightarrow> (\<forall>m\<in>set ms. (i, mo_id m) \<in> (based_on ms)\<^sup>* \<longrightarrow> ok m)"
proof (induction ok ms b seen rule: base_access.induct)
  case (1 ok ms seen)
  have "mo_id m \<in> set seen" if "(i, mo_id m) \<in> (based_on ms)\<^sup>*" for m
    using walked_closed [OF 1(2) _ that 1(4)] by simp
  then show ?case
    using 1(2) by (auto simp: walked_def)
next
  case (2 ok ms b seen)
  show ?case
  proof (cases "b = [] \<or> b \<in> set seen \<or> b \<notin> mo_id ` set ms")
    case True
    have "mo_id m \<in> set seen" if "(i, mo_id m) \<in> (based_on ms)\<^sup>*" for m
      using walked_closed [OF 2(3) _ that 2(5)] True by auto
    then have "\<forall>m\<in>set ms. (i, mo_id m) \<in> (based_on ms)\<^sup>* \<longrightarrow> ok m"
      using 2(3) by (auto simp: walked_def)
    moreover have "base_access ok ms (Some b) seen"
      using True get_model_None [of ms b] by (auto split: option.split)
    ultimately show ?thesis
      by blast
  next
    case False
    then obtain m where m: "get_model_by_id ms b = Some m"
      using get_model_None [of ms b] by (cases "get_model_by_id ms b") auto
    have mem: "m \<in> set ms" "mo_id m = b" and reach: "(i, b) \<in> (based_on ms)\<^sup>*"
      using get_model_Some [OF m] 2(6) [of b] False by auto
    show ?thesis
    proof (cases "ok m")
      case no: False
      then show ?thesis
        using False m mem reach by auto
    next
      case yes: True
      have same: "m' = m" if "m' \<in> set ms" "mo_id m' = b" for m'
        using get_model_in [OF 2(2) that(1)] that(2) m by simp
      have "walked ok ms (mo_base m) (b # seen)"
        using 2(3) yes same unfolding walked_def by (auto simp: based_on_def) blast+
      moreover have "(i, c) \<in> (based_on ms)\<^sup>*" if "mo_base m = Some c" "c \<noteq> []" "c \<in> mo_id ` set ms" for c
      proof -
        have "(b, c) \<in> based_on ms"
          using that mem by (auto simp: based_on_def)
        then show ?thesis
          using reach by (rule rtrancl_into_rtrancl [rotated])
      qed
      ultimately have "base_access ok ms (mo_base m) (b # seen) \<longleftrightarrow> (\<forall>m\<in>set ms. (i, mo_id m) \<in> (based_on ms)\<^sup>* \<longrightarrow> ok m)"
        using 2(1) [OF _ m yes 2(2)] False 2(4,5) reach by auto
      then show ?thesis
        using False m yes by simp
    qed
  qed
qed

lemma base_access_all:
  assumes "models_ok ms" and "m \<in> set ms"
  shows "ok m \<and> base_access ok ms (mo_base m) [mo_id m] \<longleftrightarrow> (\<forall>m'\<in>set ms. (mo_id m, mo_id m') \<in> (based_on ms)\<^sup>* \<longrightarrow> ok m')"
proof (cases "ok m")
  case False
  have "\<not> (\<forall>m'\<in>set ms. (mo_id m, mo_id m') \<in> (based_on ms)\<^sup>* \<longrightarrow> ok m')"
  proof
    assume "\<forall>m'\<in>set ms. (mo_id m, mo_id m') \<in> (based_on ms)\<^sup>* \<longrightarrow> ok m'"
    then have "(mo_id m, mo_id m) \<in> (based_on ms)\<^sup>* \<longrightarrow> ok m"
      using assms(2) by (rule bspec)
    then show False
      using False by (simp only: rtrancl.rtrancl_refl) simp
  qed
  then show ?thesis
    by (simp only: False simp_thms)
next
  case True
  have same: "m' = m" if "m' \<in> set ms" "mo_id m' = mo_id m" for m'
  proof -
    have "Some m' = Some m"
      using get_model_in [OF assms(1) that(1)] unfolding that(2) get_model_in [OF assms(1,2)] by (rule sym)
    then show ?thesis
      by (rule option.inject [THEN iffD1])
  qed
  have walked: "walked ok ms (mo_base m) [mo_id m]"
    unfolding walked_def
  proof (intro ballI impI)
    fix m' assume m': "m' \<in> set ms" "mo_id m' \<in> set [mo_id m]"
    then have eq: "m' = m"
      using same by simp
    have "mo_base m = Some c" if "(mo_id m, c) \<in> based_on ms" for c
    proof -
      from that obtain x where x: "x \<in> set ms" "mo_id m = mo_id x" "mo_base x = Some c"
        unfolding based_on_def by blast
      have "x = m"
        by (rule same [OF x(1) x(2) [symmetric]])
      then show ?thesis
        using x(3) by (simp only:)
    qed
    then show "ok m' \<and> (\<forall>c. (mo_id m', c) \<in> based_on ms \<longrightarrow> c \<in> set [mo_id m] \<or> mo_base m = Some c)"
      using True eq by simp
  qed
  have first: "(mo_id m, c) \<in> (based_on ms)\<^sup>*" if "mo_base m = Some c" "c \<noteq> []" "c \<in> mo_id ` set ms" for c
  proof -
    have "(mo_id m, c) \<in> based_on ms"
      unfolding based_on_def using that assms(2) by blast
    then show ?thesis ..
  qed
  have "base_access ok ms (mo_base m) [mo_id m] \<longleftrightarrow> (\<forall>m'\<in>set ms. (mo_id m, mo_id m') \<in> (based_on ms)\<^sup>* \<longrightarrow> ok m')"
  proof (rule base_access_exact [OF assms(1) walked])
    show "set [mo_id m] \<subseteq> (based_on ms)\<^sup>* `` {mo_id m}" and "mo_id m \<in> set [mo_id m]"
      by (simp_all add: rtrancl_refl)
  qed (rule first)
  then show ?thesis
    by (simp only: True simp_thms)
qed

text \<open>C8 A user who is no administrator may use a model exactly when he owns, or has been granted, it and every
  registered model it is based on, directly or through others; the walk along the bases ends on cycles too.\<close>

theorem model_access_exact:
  assumes "models_ok ms" and "m \<in> set ms" and "kc_role user \<noteq> ''admin''"
  shows "check_model_access db rows ms user (Some m) False = Inr () \<longleftrightarrow>
    (\<forall>m'\<in>set ms. (mo_id m, mo_id m') \<in> (based_on ms)\<^sup>* \<longrightarrow>
       kc_id user = mo_owner m' \<or> has_grant rows (kc_id user) (group_id_set db (kc_id user)) ''model'' (mo_id m') ''read'')"
proof -
  let ?ok = "may_use db rows (kc_id user) (Some (group_id_set db (kc_id user)))"
  have ok: "?ok m' \<longleftrightarrow> kc_id user = mo_owner m' \<or> has_grant rows (kc_id user) (group_id_set db (kc_id user)) ''model'' (mo_id m') ''read''" for m'
    by (simp add: may_use_def grants_has_access_iff resolve_groups_def)
  have "check_model_access db rows ms user (Some m) False = Inr () \<longleftrightarrow> ?ok m \<and> base_access ?ok ms (mo_base m) [mo_id m]"
    using assms(3) by (simp add: check_model_access_def has_base_model_access_def Let_def)
  also have "\<dots> \<longleftrightarrow> (\<forall>m'\<in>set ms. (mo_id m, mo_id m') \<in> (based_on ms)\<^sup>* \<longrightarrow> ?ok m')"
    by (rule base_access_all [OF assms(1,2)])
  finally show ?thesis
    unfolding ok .
qed

definition sample_models :: "model_row list" where
  "sample_models = [\<lparr>mo_id = ''m1'', mo_owner = ''bob'', mo_base = Some ''m2'', mo_knowledge = []\<rparr>,
     \<lparr>mo_id = ''m2'', mo_owner = ''ann'', mo_base = Some ''m1'', mo_knowledge = []\<rparr>]"

lemma model_access_exact_witness:
  "check_model_access perm_db [] sample_models \<lparr>kc_id = ''bob'', kc_role = ''user''\<rparr> (Some (hd sample_models)) False \<noteq> Inr ()"
proof -
  have "(''m1'', ''m2'') \<in> based_on sample_models"
    unfolding based_on_def by (intro CollectI exI [of _ "hd sample_models"] exI [of _ "''m2''"]) (simp add: sample_models_def)
  then have "\<exists>m'\<in>set sample_models. (''m1'', mo_id m') \<in> (based_on sample_models)\<^sup>* \<and> mo_owner m' = ''ann''"
    by (intro bexI [of _ "sample_models ! 1"]) (auto simp: sample_models_def)
  moreover have "models_ok sample_models" "hd sample_models \<in> set sample_models" "mo_id (hd sample_models) = ''m1''"
    by (simp_all add: models_ok_def sample_models_def)
  ultimately show ?thesis
    using model_access_exact [of sample_models "hd sample_models" "\<lparr>kc_id = ''bob'', kc_role = ''user''\<rparr>" perm_db "[]"] by auto
qed

section \<open>Who may change a file\<close>

lemma granted_iff: "granted env uid rt rid perm \<longleftrightarrow> has_grant (fe_grants env) uid (user_groups env uid) rt rid perm"
  by (simp add: granted_def grants_has_access_iff resolve_groups_def)

text \<open>A knowledge base that holds a file: by a link, or as the collection that the file names\<close>

definition holds_file :: "kb_tables \<Rightarrow> file_row \<Rightarrow> string \<Rightarrow> kb_row \<Rightarrow> bool" where
  "holds_file t f i k =
     ((\<exists>l\<in>set (kt_links t). kf_file l = i \<and> kf_kb l = kb_id k)
      \<or> kb_id k \<noteq> [] \<and> od_getd (fl_meta f) ''collection_name'' PNone = PStr (kb_id k))"

lemma linked_bases:
  "set (get_knowledges_by_file_id t i) = {k \<in> set (kt_bases t). \<exists>l\<in>set (kt_links t). kf_file l = i \<and> kf_kb l = kb_id k}"
  by (auto simp: get_knowledges_by_file_id_def)

text \<open>C7 More than reading a file is open only to its owner and to those to whom its owner gave it: through a grant
  for just that permission on a knowledge base that holds the file, or on a model based on another one to which
  it is attached, that belongs to the owner of the file. No object of somebody else opens it.\<close>

theorem file_change_needs_owner:
  assumes "perm \<noteq> ''read''"
  shows "has_access_to_file env i perm uid \<longleftrightarrow>
    (\<exists>f. get_file_by_id (fe_files env) i = Some f \<and>
      (fl_user f = uid
       \<or> (\<exists>k\<in>set (kt_bases (fe_kbs env)). kb_owner k = fl_user f \<and> holds_file (fe_kbs env) f i k
            \<and> has_grant (fe_grants env) uid (user_groups env uid) ''knowledge'' (kb_id k) perm)
       \<or> (\<exists>m\<in>set (fe_models env). mo_owner m = fl_user f \<and> mo_base m \<noteq> None \<and> attaches i m
            \<and> has_grant (fe_grants env) uid (user_groups env uid) ''model'' (mo_id m) perm)))"
proof (cases "get_file_by_id (fe_files env) i")
  case None
  then show ?thesis
    by (simp add: has_access_to_file_def)
next
  case (Some f)
  let ?grant = "has_grant (fe_grants env) uid (user_groups env uid)"
  let ?c = "od_getd (fl_meta f) ''collection_name'' PNone"
  show ?thesis
  proof (cases "fl_user f = uid")
    case True
    then show ?thesis
      using Some by (simp add: has_access_to_file_def)
  next
    case False
    have linked: "list_ex (\<lambda>k. (kb_owner k = uid \<or> granted env uid ''knowledge'' (kb_id k) perm) \<and> (perm = ''read'' \<or> kb_owner k = fl_user f))
          (get_knowledges_by_file_id (fe_kbs env) i)
        \<longleftrightarrow> (\<exists>k\<in>set (kt_bases (fe_kbs env)). kb_owner k = fl_user f \<and> (\<exists>l\<in>set (kt_links (fe_kbs env)). kf_file l = i \<and> kf_kb l = kb_id k)
              \<and> ?grant ''knowledge'' (kb_id k) perm)" (is "?A \<longleftrightarrow> _")
      using False assms unfolding list_ex_iff linked_bases granted_iff by auto
    have named: "truthy ?c \<and> list_ex (\<lambda>k. PStr (kb_id k) = ?c \<and> (perm = ''read'' \<or> kb_owner k = fl_user f))
          (get_knowledge_bases_by_user_id env uid perm)
        \<longleftrightarrow> (\<exists>k\<in>set (kt_bases (fe_kbs env)). kb_owner k = fl_user f \<and> (kb_id k \<noteq> [] \<and> ?c = PStr (kb_id k))
              \<and> ?grant ''knowledge'' (kb_id k) perm)" (is "?B \<longleftrightarrow> _")
    proof -
      have as_text: "truthy ?c \<and> PStr (kb_id k) = ?c \<longleftrightarrow> kb_id k \<noteq> [] \<and> ?c = PStr (kb_id k)" for k
        by (cases "?c = PStr (kb_id k)") auto
      have "truthy ?c \<and> list_ex (\<lambda>k. PStr (kb_id k) = ?c \<and> (perm = ''read'' \<or> kb_owner k = fl_user f))
            (get_knowledge_bases_by_user_id env uid perm)
          \<longleftrightarrow> (\<exists>k\<in>set (kt_bases (fe_kbs env)). kb_owner k = fl_user f \<and> (truthy ?c \<and> PStr (kb_id k) = ?c)
                \<and> ?grant ''knowledge'' (kb_id k) perm)"
        using False assms unfolding list_ex_iff get_knowledge_bases_by_user_id_def granted_iff by auto
      then show ?thesis
        unfolding as_text .
    qed
    have attached: "list_ex (\<lambda>m. attaches i m \<and> (perm = ''read'' \<or> mo_owner m = fl_user f))
          (get_models_by_user_id (fe_groups env) (fe_grants env) (fe_models env) uid perm)
        \<longleftrightarrow> (\<exists>m\<in>set (fe_models env). mo_owner m = fl_user f \<and> mo_base m \<noteq> None \<and> attaches i m \<and> ?grant ''model'' (mo_id m) perm)" (is "?C \<longleftrightarrow> _")
      using False assms unfolding list_ex_iff get_models_by_user_id_def Let_def grants_has_access_iff resolve_groups_def user_groups_def by auto
    have "has_access_to_file env i perm uid \<longleftrightarrow> ?A \<or> ?B \<or> ?C"
      using Some False assms unfolding has_access_to_file_def Let_def by simp blast
    then have "has_access_to_file env i perm uid \<longleftrightarrow>
        (\<exists>k\<in>set (kt_bases (fe_kbs env)). kb_owner k = fl_user f \<and> (\<exists>l\<in>set (kt_links (fe_kbs env)). kf_file l = i \<and> kf_kb l = kb_id k)
              \<and> ?grant ''knowledge'' (kb_id k) perm)
        \<or> (\<exists>k\<in>set (kt_bases (fe_kbs env)). kb_owner k = fl_user f \<and> (kb_id k \<noteq> [] \<and> ?c = PStr (kb_id k))
              \<and> ?grant ''knowledge'' (kb_id k) perm)
        \<or> (\<exists>m\<in>set (fe_models env). mo_owner m = fl_user f \<and> mo_base m \<noteq> None \<and> attaches i m \<and> ?grant ''model'' (mo_id m) perm)"
      unfolding linked named attached .
    then show ?thesis
      using Some False unfolding holds_file_def by auto
  qed
qed

definition sample_files :: file_env where
  "sample_files = \<lparr>fe_groups = perm_db, fe_grants = [],
     fe_files = [\<lparr>fl_id = ''f1'', fl_name = ''a.txt'', fl_user = ''ann'', fl_hash = None, fl_path = [], fl_data = None, fl_meta = [],
       fl_created = None, fl_updated = None\<rparr>],
     fe_kbs = \<lparr>kt_bases = [\<lparr>kb_id = ''k1'', kb_owner = ''eve'', kb_name = [], kb_desc = [], kb_external = False, kb_updated = 0\<rparr>],
       kt_dirs = [], kt_links = [\<lparr>kf_id = ''l1'', kf_kb = ''k1'', kf_file = ''f1'', kf_dir = None, kf_user = ''eve'', kf_created = 0,
         kf_updated = 0\<rparr>]\<rparr>,
     fe_models = [], fe_channels = [], fe_channel_files = [], fe_members = [], fe_chats = [], fe_chat_files = []\<rparr>"

text \<open>A file that is put into a knowledge base of somebody else stays out of reach for changes.\<close>

lemma file_change_needs_owner_witness:
  "\<not> has_access_to_file sample_files ''f1'' ''write'' ''eve''"
  by (subst file_change_needs_owner) (simp_all add: sample_files_def get_file_by_id_def)

end
