(* ===== verification/Automations.thy ===== *)
theory Automations
  imports Permissions Kb_Directories Text_Scan
begin

text \<open>
  \<^verbatim>\<open>backend/openlaunch/models/automations.py\<close>, the schedules and the execution of
  \<^verbatim>\<open>utils/automations.py\<close>, \<^verbatim>\<open>expand_recurring_event\<close> of \<^verbatim>\<open>utils/calendar.py\<close> and the endpoints of
  \<^verbatim>\<open>routers/automations.py\<close>. Recurrence rules are read by the library dateutil and local times come from
  the time-zone data: both are arguments. An instant is a number of nanoseconds, a local time a number of
  seconds, since occurrences fall on whole seconds. Published events are left out, and so are the payload
  of a run and the settings that it takes from its model.
\<close>

section \<open>Recurrence rules\<close>

text \<open>\<open>ro_rule s b p\<close> reads the rule \<open>s\<close> at the local time \<open>p\<close>, anchored at the fixed epoch when \<open>b\<close>, and gives
  its method \<^verbatim>\<open>after\<close>, or the error of the parser; \<open>co_local z t\<close> is the local time of an instant and \<open>co_stamp z d\<close>
  the instant of a local time, in a zone or (None) on the server.\<close>

record clock_ops =
  co_zone :: "string \<Rightarrow> bool"
  co_local :: "string option \<Rightarrow> int \<Rightarrow> int"
  co_stamp :: "string option \<Rightarrow> int \<Rightarrow> int"
  ro_rule :: "string \<Rightarrow> bool \<Rightarrow> int \<Rightarrow> (int \<Rightarrow> int option) res"

definition resolve_tz :: "clock_ops \<Rightarrow> string option \<Rightarrow> string option" where
  "resolve_tz co tz = (case tz of None \<Rightarrow> None | Some z \<Rightarrow> if z \<noteq> [] \<and> co_zone co z then Some z else None)"

definition rule_parts :: "string \<Rightarrow> (string, string) od" where
  "rule_parts s =
     foldl (\<lambda>d p. if CHR ''='' \<in> set p then od_set (takeWhile (\<lambda>c. c \<noteq> CHR ''='') p) (tl (dropWhile (\<lambda>c. c \<noteq> CHR ''='') p)) d else d)
       [] (py_split CHR '';'' (py_replace ''RRULE:'' [] s))"

definition parse_rule :: "clock_ops \<Rightarrow> int \<Rightarrow> string \<Rightarrow> (int \<Rightarrow> int option) res" where
  "parse_rule co t s =
     (let freq = od_getd (rule_parts s) ''FREQ'' [] in
      ro_rule co s (freq = ''MINUTELY'' \<or> freq = ''HOURLY'') (co_local co None t))"

definition validate_rrule :: "clock_ops \<Rightarrow> int \<Rightarrow> string \<Rightarrow> string option \<Rightarrow> unit res" where
  "validate_rrule co t s tz = (case parse_rule co t s of
      Inl e \<Rightarrow> Inl (ValueError ''invalid rrule'')
    | Inr after \<Rightarrow> (if after (co_local co (resolve_tz co tz) t) = None then Inl (ValueError ''no future runs'') else Inr ()))"

definition next_run_ns :: "clock_ops \<Rightarrow> int \<Rightarrow> string \<Rightarrow> string option \<Rightarrow> int option res" where
  "next_run_ns co t s tz =
     (let z = resolve_tz co tz in
      rmap (\<lambda>after. map_option (co_stamp co z) (after (co_local co z t))) (parse_rule co t s))"

fun occurrences :: "(int \<Rightarrow> int option) \<Rightarrow> nat \<Rightarrow> int \<Rightarrow> int list" where
  "occurrences after 0 d = []"
| "occurrences after (Suc n) d = (case after d of None \<Rightarrow> [] | Some e \<Rightarrow> e # occurrences after n e)"

definition next_n_runs_ns :: "clock_ops \<Rightarrow> int \<Rightarrow> string \<Rightarrow> nat \<Rightarrow> string option \<Rightarrow> int list res" where
  "next_n_runs_ns co t s n tz =
     (let z = resolve_tz co tz in
      rmap (\<lambda>after. map (co_stamp co z) (occurrences after n (co_local co z t))) (parse_rule co t s))"

definition rrule_interval_seconds :: "clock_ops \<Rightarrow> int \<Rightarrow> string \<Rightarrow> int option res" where
  "rrule_interval_seconds co t s =
     (if py_contains s ''COUNT=1'' then Inr None
      else rmap (\<lambda>after. case after (co_local co None t) of
             None \<Rightarrow> None
           | Some a \<Rightarrow> map_option (\<lambda>b. b - a) (after a)) (parse_rule co t s))"

section \<open>The table\<close>

record auto_row =
  au_id :: string
  au_user :: string
  au_name :: string
  au_data :: pdict
  au_meta :: pv
  au_active :: bool
  au_last :: "int option"
  au_next :: "int option"
  au_created :: int
  au_updated :: int

record auto_form =
  af_name :: string
  af_prompt :: string
  af_model :: string
  af_rrule :: string
  af_terminal :: pv
  af_meta :: pv
  af_active :: "bool option"

definition form_data :: "auto_form \<Rightarrow> pdict" where
  "form_data f = [(''prompt'', PStr (af_prompt f)), (''model_id'', PStr (af_model f)), (''rrule'', PStr (af_rrule f)),
     (''terminal'', af_terminal f)]"

text \<open>A null for the flag is refused by the column, which its default does not replace.\<close>

definition insert_automation :: "string \<Rightarrow> int \<Rightarrow> string \<Rightarrow> auto_form \<Rightarrow> int option \<Rightarrow> auto_row list \<Rightarrow> (auto_row list \<times> auto_row) res" where
  "insert_automation new_id now uid f next_run rows = (case af_active f of
      None \<Rightarrow> Inl IntegrityError
    | Some act \<Rightarrow>
       (let r = \<lparr>au_id = new_id, au_user = uid, au_name = af_name f, au_data = form_data f, au_meta = af_meta f, au_active = act,
                 au_last = None, au_next = next_run, au_created = now, au_updated = now\<rparr>
        in if new_id \<in> au_id ` set rows then Inl IntegrityError else Inr (rows @ [r], r)))"

definition count_by_user :: "string \<Rightarrow> auto_row list \<Rightarrow> nat" where
  "count_by_user uid rows = length (filter (\<lambda>r. au_user r = uid) rows)"

definition get_by_id :: "string \<Rightarrow> auto_row list \<Rightarrow> auto_row option" where
  "get_by_id i rows = List.find (\<lambda>r. au_id r = i) rows"

definition newest_first :: "auto_row list \<Rightarrow> auto_row list" where
  "newest_first rows = sort_key (\<lambda>r. - au_created r) rows"

definition get_active_by_user :: "string \<Rightarrow> auto_row list \<Rightarrow> auto_row list" where
  "get_active_by_user uid rows = newest_first (filter (\<lambda>r. au_user r = uid \<and> au_active r) rows)"

text \<open>\<open>like q r\<close>: the name or the stored data contain the query.\<close>

definition search_automations ::
  "(string \<Rightarrow> auto_row \<Rightarrow> bool) \<Rightarrow> string \<Rightarrow> string option \<Rightarrow> string option \<Rightarrow> nat \<Rightarrow> nat \<Rightarrow> auto_row list \<Rightarrow> auto_row list \<times> nat" where
  "search_automations like uid query status skip limit rows =
     (let found = newest_first (filter (\<lambda>r. au_user r = uid
            \<and> (case query of None \<Rightarrow> True | Some q \<Rightarrow> q = [] \<or> like q r)
            \<and> (status = Some ''active'' \<longrightarrow> au_active r) \<and> (status = Some ''paused'' \<longrightarrow> \<not> au_active r)) rows);
          page = drop skip found
      in (if limit = 0 then page else take limit page, length found))"

definition change_row :: "string \<Rightarrow> (auto_row \<Rightarrow> auto_row) \<Rightarrow> auto_row list \<Rightarrow> auto_row list" where
  "change_row i f rows = map (\<lambda>r. if au_id r = i then f r else r) rows"

definition update_row :: "int \<Rightarrow> auto_form \<Rightarrow> int option \<Rightarrow> auto_row \<Rightarrow> auto_row" where
  "update_row now f next_run r =
     r\<lparr>au_name := af_name f, au_data := form_data f, au_meta := af_meta f,
       au_active := (case af_active f of None \<Rightarrow> au_active r | Some a \<Rightarrow> a), au_next := next_run, au_updated := now\<rparr>"

definition update_by_id :: "int \<Rightarrow> string \<Rightarrow> auto_form \<Rightarrow> int option \<Rightarrow> auto_row list \<Rightarrow> auto_row list \<times> auto_row option" where
  "update_by_id now i f next_run rows = (case get_by_id i rows of
      None \<Rightarrow> (rows, None)
    | Some r \<Rightarrow> (change_row i (update_row now f next_run) rows, Some (update_row now f next_run r)))"

definition toggle_row :: "int \<Rightarrow> int option \<Rightarrow> auto_row \<Rightarrow> auto_row" where
  "toggle_row now next_run r = r\<lparr>au_active := \<not> au_active r, au_next := (if au_active r then None else next_run), au_updated := now\<rparr>"

definition toggle_automation :: "int \<Rightarrow> string \<Rightarrow> int option \<Rightarrow> auto_row list \<Rightarrow> auto_row list \<times> auto_row option" where
  "toggle_automation now i next_run rows = (case get_by_id i rows of
      None \<Rightarrow> (rows, None)
    | Some r \<Rightarrow> (change_row i (toggle_row now next_run) rows, Some (toggle_row now next_run r)))"

definition delete_automation :: "string \<Rightarrow> auto_row list \<Rightarrow> auto_row list \<times> bool" where
  "delete_automation i rows = (case get_by_id i rows of
      None \<Rightarrow> (rows, False) | Some r \<Rightarrow> (filter (\<lambda>r. au_id r \<noteq> i) rows, True))"

section \<open>Claiming what is due\<close>

definition due :: "int \<Rightarrow> auto_row \<Rightarrow> bool" where
  "due now r = (au_active r \<and> (case au_next r of None \<Rightarrow> False | Some n \<Rightarrow> n \<le> now))"

definition next_of :: "auto_row \<Rightarrow> int" where
  "next_of r = (case au_next r of None \<Rightarrow> 0 | Some n \<Rightarrow> n)"

definition due_rows :: "int \<Rightarrow> auto_row list \<Rightarrow> auto_row list" where
  "due_rows now rows = sort_key next_of (filter (due now) rows)"

text \<open>The next run of a claimed row: \<open>zone\<close> gives the time zone of a user who has one.\<close>

definition reschedule :: "clock_ops \<Rightarrow> (string \<Rightarrow> string option) \<Rightarrow> int \<Rightarrow> int \<Rightarrow> auto_row \<Rightarrow> auto_row res" where
  "reschedule co zone t now r =
     rbind (case od_getd (au_data r) ''rrule'' (PStr []) of PStr s \<Rightarrow> next_run_ns co t s (zone (au_user r)) | _ \<Rightarrow> Inl AttributeError)
       (\<lambda>n. Inr (r\<lparr>au_last := Some now, au_next := n\<rparr>))"

definition put_rows :: "auto_row list \<Rightarrow> auto_row list \<Rightarrow> auto_row list" where
  "put_rows new rows = map (\<lambda>r. case get_by_id (au_id r) new of None \<Rightarrow> r | Some x \<Rightarrow> x) rows"

definition claim_due ::
  "clock_ops \<Rightarrow> (string \<Rightarrow> string option) \<Rightarrow> int \<Rightarrow> int \<Rightarrow> nat \<Rightarrow> auto_row list \<Rightarrow> (auto_row list \<times> auto_row list) res" where
  "claim_due co zone t now limit rows =
     rmap (\<lambda>claimed. (put_rows claimed rows, claimed)) (rmapM (reschedule co zone t now) (take limit (due_rows now rows)))"

section \<open>Runs\<close>

record run_row =
  ru_id :: string
  ru_automation :: string
  ru_chat :: "string option"
  ru_status :: string
  ru_error :: "string option"
  ru_created :: int

definition insert_run :: "string \<Rightarrow> int \<Rightarrow> string \<Rightarrow> string \<Rightarrow> string option \<Rightarrow> string option \<Rightarrow> run_row list \<Rightarrow> run_row list" where
  "insert_run new_id now aid status chat err runs =
     runs @ [\<lparr>ru_id = new_id, ru_automation = aid, ru_chat = chat, ru_status = status, ru_error = err, ru_created = now\<rparr>]"

definition get_by_automation :: "string \<Rightarrow> nat \<Rightarrow> nat \<Rightarrow> run_row list \<Rightarrow> run_row list" where
  "get_by_automation aid skip limit runs =
     take limit (drop skip (sort_key (\<lambda>r. - ru_created r) (filter (\<lambda>r. ru_automation r = aid) runs)))"

definition get_latest :: "string \<Rightarrow> run_row list \<Rightarrow> run_row option" where
  "get_latest aid runs = (case sort_key (\<lambda>r. - ru_created r) (filter (\<lambda>r. ru_automation r = aid) runs) of [] \<Rightarrow> None | r # _ \<Rightarrow> Some r)"

definition latest_time :: "string \<Rightarrow> run_row list \<Rightarrow> int" where
  "latest_time aid runs = Max (set (map ru_created (filter (\<lambda>r. ru_automation r = aid) runs)))"

definition get_latest_batch :: "string list \<Rightarrow> run_row list \<Rightarrow> (string, run_row) od" where
  "get_latest_batch aids runs =
     foldl (\<lambda>d r. od_set (ru_automation r) r d) []
       (filter (\<lambda>r. ru_automation r \<in> set aids \<and> ru_created r = latest_time (ru_automation r) runs) runs)"

definition delete_by_automation :: "string \<Rightarrow> run_row list \<Rightarrow> run_row list \<times> nat" where
  "delete_by_automation aid runs =
     (filter (\<lambda>r. ru_automation r \<noteq> aid) runs, length (filter (\<lambda>r. ru_automation r = aid) runs))"

definition get_runs_by_user_range :: "string \<Rightarrow> int \<Rightarrow> int \<Rightarrow> nat \<Rightarrow> auto_row list \<Rightarrow> run_row list \<Rightarrow> (run_row \<times> auto_row) list" where
  "get_runs_by_user_range uid start stop limit rows runs =
     take limit (sort_key (\<lambda>(r, a). - ru_created r)
       (concat (map (\<lambda>r. map (Pair r) (filter (\<lambda>a. au_id a = ru_automation r \<and> au_user a = uid) rows))
         (filter (\<lambda>r. start \<le> ru_created r \<and> ru_created r < stop) runs))))"

section \<open>Endpoints\<close>

record auto_config =
  cf_enabled :: pv
  cf_permissions :: pdict
  cf_max_count :: pv
  cf_min_interval :: pv

text \<open>What the handlers read: the settings, the groups, the clock (\<open>ae_time\<close>) and the time zone of the caller\<close>

record auto_env =
  ae_config :: auto_config
  ae_defaults :: pdict
  ae_groups :: group_db
  ae_clock :: clock_ops
  ae_time :: int
  ae_timezone :: "string option"

definition check_automations_permission :: "auto_env \<Rightarrow> kb_caller \<Rightarrow> unit res" where
  "check_automations_permission env user =
     (if \<not> truthy (cf_enabled (ae_config env)) then Inl (HTTPException 403 ''401 Unauthorized'')
      else if kc_role user = ''admin'' then Inr ()
      else rbind (has_permission (ae_defaults env) (ae_groups env) (kc_id user) ''features.automations'' (cf_permissions (ae_config env)))
        (\<lambda>ok. if ok then Inr () else Inl (HTTPException 403 ''401 Unauthorized'')))"

definition check_automation_access :: "auto_row option \<Rightarrow> kb_caller \<Rightarrow> auto_row res" where
  "check_automation_access a user = (case a of
      None \<Rightarrow> Inl (HTTPException 404 ''not found'')
    | Some r \<Rightarrow> (if kc_role user \<noteq> ''admin'' \<and> kc_id user \<noteq> au_user r then Inl (HTTPException 403 ''401 Unauthorized'') else Inr r))"

definition check_automation_limits :: "auto_env \<Rightarrow> kb_caller \<Rightarrow> string \<Rightarrow> bool \<Rightarrow> auto_row list \<Rightarrow> unit res" where
  "check_automation_limits env user rrule is_create rows =
     (if kc_role user = ''admin'' then Inr ()
      else rbind
        (if is_create \<and> truthy (cf_max_count (ae_config env))
         then rbind (py_int (cf_max_count (ae_config env))) (\<lambda>m.
           if 0 < m \<and> m \<le> int (count_by_user (kc_id user) rows) then Inl (HTTPException 403 ''limit reached'') else Inr ())
         else Inr ()) (\<lambda>_.
        if truthy (cf_min_interval (ae_config env))
        then rbind (py_int (cf_min_interval (ae_config env))) (\<lambda>m.
          if 0 < m
          then rbind (rrule_interval_seconds (ae_clock env) (ae_time env) rrule) (\<lambda>i. case i of
              None \<Rightarrow> Inr ()
            | Some s \<Rightarrow> (if s < m then Inl (HTTPException 400 ''too frequent'') else Inr ()))
          else Inr ())
        else Inr ()))"

definition bad_request :: "unit res \<Rightarrow> unit res" where
  "bad_request r = (case r of Inl (ValueError s) \<Rightarrow> Inl (HTTPException 400 s) | _ \<Rightarrow> r)"

definition create_new_automation :: "auto_env \<Rightarrow> string \<Rightarrow> kb_caller \<Rightarrow> auto_form \<Rightarrow> auto_row list \<Rightarrow> (auto_row list \<times> auto_row) res" where
  "create_new_automation env new_id user f rows =
     rbind (check_automations_permission env user) (\<lambda>_.
     rbind (bad_request (validate_rrule (ae_clock env) (ae_time env) (af_rrule f) (ae_timezone env))) (\<lambda>_.
     rbind (check_automation_limits env user (af_rrule f) True rows) (\<lambda>_.
     rbind (next_run_ns (ae_clock env) (ae_time env) (af_rrule f) (ae_timezone env)) (\<lambda>n.
       insert_automation new_id (ae_time env) (kc_id user) f n rows))))"

definition update_automation_by_id :: "auto_env \<Rightarrow> string \<Rightarrow> kb_caller \<Rightarrow> auto_form \<Rightarrow> auto_row list \<Rightarrow> (auto_row list \<times> auto_row option) res" where
  "update_automation_by_id env i user f rows =
     rbind (check_automations_permission env user) (\<lambda>_.
     rbind (check_automation_access (get_by_id i rows) user) (\<lambda>_.
     rbind (bad_request (validate_rrule (ae_clock env) (ae_time env) (af_rrule f) (ae_timezone env))) (\<lambda>_.
     rbind (check_automation_limits env user (af_rrule f) False rows) (\<lambda>_.
     rbind (next_run_ns (ae_clock env) (ae_time env) (af_rrule f) (ae_timezone env)) (\<lambda>n.
       Inr (update_by_id (ae_time env) i f n rows))))))"

definition toggle_automation_by_id :: "auto_env \<Rightarrow> string \<Rightarrow> kb_caller \<Rightarrow> auto_row list \<Rightarrow> (auto_row list \<times> auto_row option) res" where
  "toggle_automation_by_id env i user rows =
     rbind (check_automations_permission env user) (\<lambda>_.
     rbind (check_automation_access (get_by_id i rows) user) (\<lambda>r.
     rbind (pidx (PDict (au_data r)) ''rrule'') (\<lambda>s.
     rbind (case s of PStr s \<Rightarrow> next_run_ns (ae_clock env) (ae_time env) s (ae_timezone env) | _ \<Rightarrow> Inl AttributeError) (\<lambda>n.
       Inr (toggle_automation (ae_time env) i n rows)))))"

definition delete_automation_by_id ::
  "auto_env \<Rightarrow> string \<Rightarrow> kb_caller \<Rightarrow> auto_row list \<times> run_row list \<Rightarrow> ((auto_row list \<times> run_row list) \<times> bool) res" where
  "delete_automation_by_id env i user s =
     rbind (check_automations_permission env user) (\<lambda>_.
     rbind (check_automation_access (get_by_id i (fst s)) user) (\<lambda>_.
       Inr ((fst (delete_automation i (fst s)), fst (delete_by_automation i (snd s))), snd (delete_automation i (fst s)))))"

definition get_automation_runs :: "auto_env \<Rightarrow> string \<Rightarrow> nat \<Rightarrow> nat \<Rightarrow> kb_caller \<Rightarrow> auto_row list \<times> run_row list \<Rightarrow> run_row list res" where
  "get_automation_runs env i skip limit user s =
     rbind (check_automations_permission env user) (\<lambda>_.
     rbind (check_automation_access (get_by_id i (fst s)) user) (\<lambda>_. Inr (get_by_automation i skip limit (snd s))))"

definition get_automation_items ::
  "(string \<Rightarrow> auto_row \<Rightarrow> bool) \<Rightarrow> auto_env \<Rightarrow> string option \<Rightarrow> string option \<Rightarrow> int \<Rightarrow> kb_caller \<Rightarrow> auto_row list \<times> run_row list \<Rightarrow>
   ((auto_row \<times> run_row option) list \<times> nat) res" where
  "get_automation_items like env query status page user s =
     rbind (check_automations_permission env user) (\<lambda>_.
       let (items, total) = search_automations like (kc_id user) query status (nat ((max 1 page - 1) * 30)) 30 (fst s);
           latest = get_latest_batch (map au_id items) (snd s)
       in Inr (map (\<lambda>r. (r, od_get latest (au_id r))) items, total))"

text \<open>One automation with its last run and its next five runs\<close>

definition enrich_automation :: "auto_env \<Rightarrow> auto_row \<Rightarrow> run_row list \<Rightarrow> (auto_row \<times> run_row option \<times> int list) res" where
  "enrich_automation env r runs =
     rbind (pidx (PDict (au_data r)) ''rrule'') (\<lambda>s.
     rbind (case s of PStr s \<Rightarrow> next_n_runs_ns (ae_clock env) (ae_time env) s 5 (ae_timezone env) | _ \<Rightarrow> Inl AttributeError) (\<lambda>ns.
       Inr (r, get_latest (au_id r) runs, ns)))"

definition get_automation_by_id :: "auto_env \<Rightarrow> string \<Rightarrow> kb_caller \<Rightarrow> auto_row list \<times> run_row list \<Rightarrow> (auto_row \<times> run_row option \<times> int list) res" where
  "get_automation_by_id env i user s =
     rbind (check_automations_permission env user) (\<lambda>_.
     rbind (check_automation_access (get_by_id i (fst s)) user) (\<lambda>r. enrich_automation env r (snd s)))"

section \<open>Execution\<close>

text \<open>The outside of a run: the stored user, his permission, the prompt, the new chat (None where it cannot be
  stored) and the answer of the pipeline, each of which may raise; \<open>xe_text\<close> is the text of an error.\<close>

record run_env =
  xe_user :: "string \<Rightarrow> kb_caller option"
  xe_allowed :: "kb_caller \<Rightarrow> bool res"
  xe_prompt :: "pv \<Rightarrow> kb_caller \<Rightarrow> string res"
  xe_chat :: "auto_row \<Rightarrow> string \<Rightarrow> pv \<Rightarrow> string option res"
  xe_answer :: "string \<Rightarrow> pv \<Rightarrow> unit res"
  xe_text :: "py_error \<Rightarrow> string"

datatype run_result = RunError string | RunSuccess string

definition run_automation :: "run_env \<Rightarrow> auto_row \<Rightarrow> run_result res" where
  "run_automation env a = (case xe_user env (au_user a) of
      None \<Rightarrow> Inr (RunError ''User not found'')
    | Some user \<Rightarrow>
        rbind (if kc_role user \<noteq> ''user'' \<and> kc_role user \<noteq> ''admin'' then Inr False
               else if kc_role user = ''admin'' then Inr True else xe_allowed env user) (\<lambda>ok.
        if \<not> ok then Inr (RunError ''Owner no longer permitted to run automations'')
        else rbind (pidx (PDict (au_data a)) ''prompt'') (\<lambda>p.
             rbind (xe_prompt env p user) (\<lambda>prompt.
             rbind (pidx (PDict (au_data a)) ''model_id'') (\<lambda>model.
             rbind (xe_chat env a prompt model) (\<lambda>chat. case chat of
                 None \<Rightarrow> Inr (RunError ''Failed to create chat'')
               | Some c \<Rightarrow> rmap (\<lambda>_. RunSuccess c) (xe_answer env c model)))))))"

text \<open>Whatever happens, it is recorded.\<close>

definition execute_automation :: "run_env \<Rightarrow> string \<Rightarrow> int \<Rightarrow> auto_row \<Rightarrow> run_row list \<Rightarrow> run_row list" where
  "execute_automation env new_id now a runs = (case run_automation env a of
      Inr (RunError e) \<Rightarrow> insert_run new_id now (au_id a) ''error'' None (Some e) runs
    | Inr (RunSuccess c) \<Rightarrow> insert_run new_id now (au_id a) ''success'' (Some c) None runs
    | Inl e \<Rightarrow> insert_run new_id now (au_id a) ''error'' None (Some (take 4000 (xe_text env e))) runs)"

section \<open>Recurring events\<close>

record event_row =
  ev_id :: string
  ev_rrule :: "string option"
  ev_start :: int
  ev_end :: "int option"
  ev_instance :: "string option"

definition event_instance :: "event_row \<Rightarrow> int \<Rightarrow> event_row" where
  "event_instance e s =
     e\<lparr>ev_start := s,
       ev_end := (case ev_end e of Some x \<Rightarrow> if x \<noteq> 0 \<and> x - ev_start e \<noteq> 0 then Some (s + (x - ev_start e)) else None | None \<Rightarrow> None),
       ev_instance := Some (ev_id e @ ''_'' @ py_str_int s)\<rparr>"

partial_function (option) expand_loop ::
  "(int \<Rightarrow> int option) \<Rightarrow> (int \<Rightarrow> int) \<Rightarrow> event_row \<Rightarrow> int \<Rightarrow> int \<Rightarrow> nat \<Rightarrow> int option \<Rightarrow> event_row list \<Rightarrow> event_row list option" where
  "expand_loop after stamp e start stop limit d acc = (case d of
      None \<Rightarrow> Some acc
    | Some x \<Rightarrow>
       (if x < stop \<and> length acc < limit
        then expand_loop after stamp e start stop limit (after x) (if start \<le> stamp x then acc @ [event_instance e (stamp x)] else acc)
        else Some acc))"

text \<open>\<open>anchored s d\<close> reads the rule anchored at the local start of the event and gives \<^verbatim>\<open>after\<close>; the first
  occurrence is asked for with that of the scan's start included. The range begins and ends on whole seconds.\<close>

definition expand_recurring_event ::
  "(string \<Rightarrow> int \<Rightarrow> (int \<Rightarrow> int option) res) \<Rightarrow> clock_ops \<Rightarrow> event_row \<Rightarrow> int \<Rightarrow> int \<Rightarrow> string option \<Rightarrow> nat \<Rightarrow> event_row list option" where
  "expand_recurring_event anchored co e start stop tz limit = (case ev_rrule e of
      None \<Rightarrow> Some [e]
    | Some s \<Rightarrow>
       (if s = [] then Some [e]
        else case anchored s (co_local co None (ev_start e)) of
          Inl _ \<Rightarrow> Some [e]
        | Inr after \<Rightarrow>
            expand_loop after (co_stamp co (resolve_tz co tz)) e start (co_local co None stop) limit
              (after (co_local co None start - 86400 - 1)) []))"

section \<open>What is documented of rules and clocks\<close>

text \<open>\<^verbatim>\<open>after\<close> gives a later time; in a zone whose clock is not put back a later local time is a later instant.\<close>

definition rules_ok :: "clock_ops \<Rightarrow> bool" where
  "rules_ok co = (\<forall>s b p after x d. ro_rule co s b p = Inr after \<longrightarrow> after x = Some d \<longrightarrow> x < d)"

definition clock_ok :: "clock_ops \<Rightarrow> bool" where
  "clock_ok co = (\<forall>z t d. co_local co z t < d \<longrightarrow> t < co_stamp co z d)"

lemma next_run_later:
  assumes "rules_ok co" and "clock_ok co" and "next_run_ns co t s tz = Inr (Some n)"
  shows "t < n"
proof -
  obtain after d where "parse_rule co t s = Inr after" "after (co_local co (resolve_tz co tz) t) = Some d"
      and n: "n = co_stamp co (resolve_tz co tz) d"
    using assms(3) by (cases "parse_rule co t s") (auto simp: next_run_ns_def Let_def)
  then have "co_local co (resolve_tz co tz) t < d"
    using assms(1) unfolding rules_ok_def parse_rule_def Let_def by blast
  then show ?thesis
    using assms(2) unfolding clock_ok_def n by blast
qed

lemma occurrences_later:
  assumes "\<And>x d. after x = Some d \<Longrightarrow> x < (d :: int)"
  shows "sorted_wrt (<) (d # occurrences after n d) \<and> length (occurrences after n d) \<le> n"
proof (induction n arbitrary: d)
  case (Suc n)
  show ?case
  proof (cases "after d")
    case (Some e)
    then show ?thesis
      using assms [OF Some] Suc.IH [of e] by fastforce
  qed simp
qed simp

section \<open>A claim and the next one\<close>

lemma get_by_id_Some: "get_by_id i rows = Some r \<Longrightarrow> r \<in> set rows \<and> au_id r = i"
  by (auto simp: get_by_id_def find_Some_iff)

lemma get_by_id_None: "get_by_id i rows = None \<longleftrightarrow> i \<notin> au_id ` set rows"
  by (auto simp: get_by_id_def find_None_iff)

lemma get_by_id_in: "distinct (map au_id rows) \<Longrightarrow> r \<in> set rows \<Longrightarrow> get_by_id (au_id r) rows = Some r"
  by (induction rows) (auto simp: get_by_id_def)

lemma reschedule_Some:
  assumes "reschedule co zone t now r = Inr c"
  shows "au_id c = au_id r \<and> (\<exists>s. next_run_ns co t s (zone (au_user r)) = Inr (au_next c))"
proof -
  obtain s n where "next_run_ns co t s (zone (au_user r)) = Inr n" "c = r\<lparr>au_last := Some now, au_next := n\<rparr>"
    using assms unfolding reschedule_def by (cases "od_getd (au_data r) ''rrule'' (PStr [])") (auto simp: rbind_eq_Inr)
  then show ?thesis
    by auto
qed

lemma filter_put_rows:
  assumes "\<And>c. c \<in> set new \<Longrightarrow> \<not> P c"
  shows "filter P (put_rows new rows) = filter (\<lambda>r. au_id r \<notin> au_id ` set new) (filter P rows)"
proof (induction rows)
  case (Cons r rows)
  show ?case
  proof (cases "get_by_id (au_id r) new")
    case None
    then show ?thesis
      using Cons get_by_id_None [of "au_id r" new] by (simp add: put_rows_def)
  next
    case (Some c)
    then have "\<not> P c" and "au_id r \<in> au_id ` set new"
      using get_by_id_Some [OF Some] assms by (blast, metis imageI)
    then show ?thesis
      using Cons Some by (simp add: put_rows_def)
  qed
qed (simp add: put_rows_def)

lemma filter_not_taken:
  "distinct (map f xs) \<Longrightarrow> filter (\<lambda>x. f x \<notin> set (map f (take n xs))) xs = drop n xs"
proof -
  assume dist: "distinct (map f xs)"
  have "filter (\<lambda>x. f x \<notin> set (map f (take n xs))) (take n xs @ drop n xs) = drop n xs"
  proof -
    have "distinct (map f (take n xs @ drop n xs))"
      using dist by simp
    then have "\<forall>x\<in>set (drop n xs). f x \<notin> set (map f (take n xs))"
      unfolding map_append distinct_append by (auto simp del: append_take_drop_id)
    then show ?thesis
      unfolding filter_append by (auto simp: filter_empty_conv filter_id_conv)
  qed
  then show ?thesis
    by simp
qed

lemma put_rows_ids: "map au_id (put_rows new rows) = map au_id rows"
  by (auto simp: put_rows_def dest: get_by_id_Some split: option.split)

text \<open>A row whose rule can be read at any time\<close>

definition readable :: "clock_ops \<Rightarrow> (string \<Rightarrow> string option) \<Rightarrow> int \<Rightarrow> auto_row \<Rightarrow> bool" where
  "readable co zone now r = (\<forall>t. \<exists>c. reschedule co zone t now r = Inr c)"

lemma claim_step:
  assumes laws: "rules_ok co" "clock_ok co" and ids: "distinct (map au_id rows)" and t: "now \<le> t"
    and read: "\<And>r. r \<in> set rows \<Longrightarrow> due now r \<Longrightarrow> readable co zone now r"
  shows "\<exists>rows' claimed. claim_due co zone t now limit rows = Inr (rows', claimed)
    \<and> map au_id claimed = map au_id (take limit (due_rows now rows))
    \<and> due_rows now rows' = drop limit (due_rows now rows)
    \<and> map au_id rows' = map au_id rows
    \<and> (\<forall>r\<in>set rows'. due now r \<longrightarrow> r \<in> set rows)"
proof -
  let ?D = "due_rows now rows"
  have D: "set ?D = {r \<in> set rows. due now r}" and dist: "distinct (map au_id ?D)"
  proof -
    show "set ?D = {r \<in> set rows. due now r}"
      by (auto simp: due_rows_def)
    have "distinct (map au_id (filter (due now) rows))"
      using ids by (rule distinct_map_filter)
    then show "distinct (map au_id ?D)"
      by (simp add: due_rows_def distinct_map)
  qed
  define f where "f r = (case reschedule co zone t now r of Inr c \<Rightarrow> c | Inl _ \<Rightarrow> r)" for r
  have step: "reschedule co zone t now r = Inr (f r)" if "r \<in> set (take limit ?D)" for r
    using read [of r] that D by (auto simp: readable_def f_def dest!: in_set_takeD split: sum.split) (metis sum.distinct(1))
  define claimed where "claimed = map f (take limit ?D)"
  have map: "rmapM (reschedule co zone t now) (take limit ?D) = Inr claimed"
    unfolding claimed_def by (rule rmapM_total) (rule step)
  have cid: "map au_id claimed = map au_id (take limit ?D)"
    unfolding claimed_def map_map by (rule map_cong [OF refl]) (use reschedule_Some [OF step] in auto)
  have later: "\<not> due now c" if c: "c \<in> set claimed" for c
  proof -
    obtain r where r: "r \<in> set (take limit ?D)" "c = f r"
      using c by (auto simp: claimed_def)
    obtain s where s: "next_run_ns co t s (zone (au_user r)) = Inr (au_next c)"
      using reschedule_Some [OF step [OF r(1)]] r(2) by auto
    show ?thesis
    proof (cases "au_next c")
      case (Some n)
      then have "t < n"
        using next_run_later [OF laws s [unfolded Some]] by simp
      then show ?thesis
        using Some t by (simp add: due_def)
    qed (simp add: due_def)
  qed
  have kept: "filter (due now) (put_rows claimed rows) = filter (\<lambda>r. au_id r \<notin> au_id ` set claimed) (filter (due now) rows)"
    by (rule filter_put_rows) (rule later)
  have "due_rows now (put_rows claimed rows) = filter (\<lambda>r. au_id r \<notin> au_id ` set claimed) ?D"
    using kept by (simp add: due_rows_def filter_sort)
  also have "\<dots> = drop limit ?D"
    unfolding set_map [symmetric] cid by (rule filter_not_taken [OF dist])
  finally have left: "due_rows now (put_rows claimed rows) = drop limit ?D" .
  have "r \<in> set rows" if "r \<in> set (put_rows claimed rows)" "due now r" for r
  proof -
    have "r \<in> set (filter (due now) (put_rows claimed rows))"
      using that by simp
    then show ?thesis
      unfolding kept by simp
  qed
  then show ?thesis
    using map cid left put_rows_ids [of claimed rows] by (auto simp: claim_due_def)
qed

text \<open>Polls one after the other, each with its own reading of the clock, that look for what is due at one instant\<close>

fun polls ::
  "clock_ops \<Rightarrow> (string \<Rightarrow> string option) \<Rightarrow> int \<Rightarrow> nat \<Rightarrow> int list \<Rightarrow> auto_row list \<Rightarrow> (auto_row list \<times> auto_row list) res" where
  "polls co zone now limit [] rows = Inr (rows, [])"
| "polls co zone now limit (t # ts) rows =
     rbind (claim_due co zone t now limit rows) (\<lambda>(rows, c). rmap (apsnd ((@) c)) (polls co zone now limit ts rows))"


section \<open>Who changes what\<close>

datatype auto_request = CreateAuto string auto_form | UpdateAuto string auto_form | ToggleAuto string | DeleteAuto string

definition handle_request :: "auto_env \<Rightarrow> kb_caller \<Rightarrow> auto_request \<Rightarrow> auto_row list \<times> run_row list \<Rightarrow> (auto_row list \<times> run_row list) res" where
  "handle_request env user q s = (case q of
      CreateAuto i f \<Rightarrow> rmap (\<lambda>(rows, _). (rows, snd s)) (create_new_automation env i user f (fst s))
    | UpdateAuto i f \<Rightarrow> rmap (\<lambda>(rows, _). (rows, snd s)) (update_automation_by_id env i user f (fst s))
    | ToggleAuto i \<Rightarrow> rmap (\<lambda>(rows, _). (rows, snd s)) (toggle_automation_by_id env i user (fst s))
    | DeleteAuto i \<Rightarrow> rmap fst (delete_automation_by_id env i user s))"

lemma access_granted:
  assumes "check_automation_access (get_by_id i rows) user = Inr r" and "kc_role user \<noteq> ''admin''"
  shows "get_by_id i rows = Some r \<and> au_user r = kc_id user"
  using assms by (auto simp: check_automation_access_def split: option.splits if_splits)

text \<open>A change to a row of the caller that stays his\<close>

lemma change_row_others:
  assumes "distinct (map au_id rows)" and "get_by_id i rows = Some r" and "au_user r = uid" and "\<And>x. au_user (f x) = au_user x"
  shows "filter (\<lambda>r. au_user r \<noteq> uid) (change_row i f rows) = filter (\<lambda>r. au_user r \<noteq> uid) rows"
proof -
  have "au_user x = uid" if "x \<in> set rows" "au_id x = i" for x
  proof -
    have "Some x = Some r"
      using get_by_id_in [OF assms(1) that(1)] unfolding that(2) assms(2) by (rule sym)
    then show ?thesis
      using assms(3) by simp
  qed
  then show ?thesis
    unfolding change_row_def
  proof (induction rows)
    case (Cons x xs)
    then show ?case
      using assms(4) [of x] by (cases "au_id x = i") simp_all
  qed simp
qed

lemma delete_others:
  assumes "distinct (map au_id rows)" and "get_by_id i rows = Some r" and "au_user r = uid"
  shows "filter (\<lambda>r. au_user r \<noteq> uid) (filter (\<lambda>r. au_id r \<noteq> i) rows) = filter (\<lambda>r. au_user r \<noteq> uid) rows"
proof -
  have "au_id x \<noteq> i" if "x \<in> set rows" "au_user x \<noteq> uid" for x
  proof
    assume "au_id x = i"
    then have "Some x = Some r"
      using get_by_id_in [OF assms(1) that(1)] assms(2) by simp
    then show False
      using that(2) assms(3) by simp
  qed
  then show ?thesis
    unfolding filter_filter by (intro filter_cong [OF refl]) blast
qed


section \<open>The limit, the recurring events and the runs\<close>

text \<open>Nobody but an administrator creates more automations than the limit allows.\<close>

lemma create_within_limit:
  assumes "kc_role user \<noteq> ''admin''" and "cf_max_count (ae_config env) = PInt m" and "0 < m"
    and "create_new_automation env i user f rows = Inr (rows', r)"
  shows "rows' = rows @ [r] \<and> int (count_by_user (kc_id user) rows') \<le> m"
proof -
  obtain n where limits: "check_automation_limits env user (af_rrule f) True rows = Inr ()"
      and insert: "insert_automation i (ae_time env) (kc_id user) f n rows = Inr (rows', r)"
    using assms(4) unfolding create_new_automation_def rbind_eq_Inr by auto
  have "\<not> m \<le> int (count_by_user (kc_id user) rows)"
    using limits assms(1-3) unfolding check_automation_limits_def by (auto simp: py_int_def rbind_eq_Inr split: if_splits)
  moreover have "rows' = rows @ [r]" "au_user r = kc_id user"
    using insert by (auto simp: insert_automation_def Let_def split: option.splits if_splits)
  ultimately show ?thesis
    by (simp add: count_by_user_def)
qed

lemma expand_loop_ends:
  assumes "\<And>x d. after x = Some d \<Longrightarrow> x < (d :: int)"
  shows "\<exists>xs. expand_loop after stamp e start stop limit d acc = Some (acc @ xs) \<and> length xs \<le> limit - length acc
    \<and> (\<forall>i\<in>set xs. start \<le> ev_start i \<and> (\<exists>x<stop. ev_start i = stamp x))"
proof (induction "case d of None \<Rightarrow> 0 | Some x \<Rightarrow> nat (stop - x)" arbitrary: d acc rule: less_induct)
  case less
  show ?case
  proof (cases d)
    case None
    then show ?thesis
      by (simp add: expand_loop.simps)
  next
    case (Some x)
    show ?thesis
    proof (cases "x < stop \<and> length acc < limit")
      case False
      then show ?thesis
        using Some by (subst expand_loop.simps) auto
    next
      case True
      define new where "new = (if start \<le> stamp x then [event_instance e (stamp x)] else [])"
      have smaller: "(case after x of None \<Rightarrow> 0 | Some y \<Rightarrow> nat (stop - y)) < (case d of None \<Rightarrow> 0 | Some x \<Rightarrow> nat (stop - x))"
        using assms [of x] True Some by (cases "after x") auto
      obtain xs where xs: "expand_loop after stamp e start stop limit (after x) (acc @ new) = Some ((acc @ new) @ xs)"
          "length xs \<le> limit - length (acc @ new)" "\<forall>i\<in>set xs. start \<le> ev_start i \<and> (\<exists>x<stop. ev_start i = stamp x)"
        using less [OF smaller, of "acc @ new"] by blast
      have "expand_loop after stamp e start stop limit d acc = expand_loop after stamp e start stop limit (after x) (acc @ new)"
        using Some True by (subst expand_loop.simps) (simp add: new_def)
      moreover have "length new + length xs \<le> limit - length acc"
        using xs(2) True by (auto simp: new_def)
      moreover have "\<forall>i\<in>set new. start \<le> ev_start i \<and> (\<exists>x<stop. ev_start i = stamp x)"
        using True by (auto simp: new_def event_instance_def)
      ultimately show ?thesis
        using xs(1,3) by (intro exI [of _ "new @ xs"]) auto
    qed
  qed
qed

text \<open>The expansion of an event ends, with at most the given number of instances that begin in the range.\<close>

lemma expansion_ends:
  assumes "\<And>s p after x d. anchored s p = Inr after \<Longrightarrow> after x = Some d \<Longrightarrow> x < d"
  shows "\<exists>xs. expand_recurring_event anchored co e start stop tz limit = Some xs \<and> (xs = [e] \<or> length xs \<le> limit
    \<and> (\<forall>i\<in>set xs. start \<le> ev_start i \<and> (\<exists>x<co_local co None stop. ev_start i = co_stamp co (resolve_tz co tz) x)))"
proof (cases "ev_rrule e")
  case (Some s)
  show ?thesis
  proof (cases "anchored s (co_local co None (ev_start e))")
    case (Inr after)
    then show ?thesis
      using Some expand_loop_ends [of after "co_stamp co (resolve_tz co tz)" e start "co_local co None stop" limit
          "after (co_local co None start - 86400 - 1)" "[]"] assms [OF Inr]
      by (cases "s = []") (auto simp: expand_recurring_event_def)
  qed (use Some in \<open>simp add: expand_recurring_event_def\<close>)
qed (simp add: expand_recurring_event_def)

text \<open>Every claimed automation leaves one run, and a successful one only where its owner may still run it.\<close>

lemma one_run_recorded:
  "\<exists>r. execute_automation env i now a runs = runs @ [r] \<and> ru_automation r = au_id a
    \<and> (ru_status r = ''success'' \<longrightarrow> (\<exists>u. xe_user env (au_user a) = Some u
         \<and> (kc_role u = ''admin'' \<or> kc_role u = ''user'' \<and> xe_allowed env u = Inr True)))"
proof (cases "run_automation env a")
  case (Inl e)
  then show ?thesis
    by (simp add: execute_automation_def insert_run_def)
next
  case (Inr out)
  show ?thesis
  proof (cases out)
    case (RunError s)
    then show ?thesis
      using Inr by (simp add: execute_automation_def insert_run_def)
  next
    case (RunSuccess c)
    then obtain u where u: "xe_user env (au_user a) = Some u"
      using Inr by (cases "xe_user env (au_user a)") (auto simp: run_automation_def)
    have "kc_role u = ''admin'' \<or> kc_role u = ''user'' \<and> xe_allowed env u = Inr True"
      using Inr RunSuccess u unfolding run_automation_def by (auto simp: rbind_eq_Inr split: if_splits)
    then show ?thesis
      using Inr RunSuccess u by (simp add: execute_automation_def insert_run_def)
  qed
qed

section \<open>Concrete runs\<close>

definition plain_clock :: clock_ops where
  "plain_clock = \<lparr>co_zone = (\<lambda>z. True), co_local = (\<lambda>z t. t div 1000000000), co_stamp = (\<lambda>z d. d * 1000000000),
     ro_rule = (\<lambda>s b p. Inr (\<lambda>x. Some ((x div 60 + 1) * 60)))\<rparr>"

lemma plain_clock_ok: "rules_ok plain_clock" "clock_ok plain_clock"
proof -
  have later: "t < d * k" if "t div k < d" "0 < k" for t d k :: int
  proof -
    have "t = t div k * k + t mod k" and "t mod k < k"
      using that(2) by simp_all
    then have "t < (t div k + 1) * k"
      unfolding distrib_right by linarith
    also have "\<dots> \<le> d * k"
      using that by (intro mult_right_mono) simp_all
    finally show ?thesis .
  qed
  have "x < (x div 60 + 1) * 60" for x :: int
    by (rule later) simp_all
  then show "rules_ok plain_clock"
    by (simp add: rules_ok_def plain_clock_def)
  have "t < d * 1000000000" if "t div 1000000000 < d" for t d :: int
    using that by (rule later) simp
  then show "clock_ok plain_clock"
    by (simp add: clock_ok_def plain_clock_def)
qed

definition every_minute :: "string \<Rightarrow> int \<Rightarrow> auto_row" where
  "every_minute i n = \<lparr>au_id = i, au_user = ''ann'', au_name = i, au_data = [(''rrule'', PStr ''FREQ=MINUTELY'')], au_meta = PNone,
     au_active = True, au_last = None, au_next = Some n, au_created = 0, au_updated = 0\<rparr>"


text \<open>The hour that comes twice: the clock of the zone is put back by one minute at second 100.\<close>

definition autumn_clock :: clock_ops where
  "autumn_clock = \<lparr>co_zone = (\<lambda>z. True),
     co_local = (\<lambda>z t. let s = t div 1000000000 in if z = None \<or> s < 100 then s else s - 60),
     co_stamp = (\<lambda>z d. d * 1000000000), ro_rule = (\<lambda>s b p. Inr (\<lambda>x. Some ((x div 10 + 1) * 10)))\<rparr>"

text \<open>The next run of a claimed automation lies in the past, so every poll claims it again.\<close>

lemma autumn_claims_again:
  "rmap (map (\<lambda>r. (au_id r, due 105000000000 r)) \<circ> snd)
     (claim_due autumn_clock (\<lambda>u. Some ''Europe/Berlin'') 105000000000 105000000000 10 [every_minute ''a'' 100000000000])
   = Inr [(''a'', True)]"
  by code_simp

text \<open>A rule that ends after ten runs is taken for one that runs once, and its interval is not checked.\<close>

lemma ten_runs_not_checked: "rrule_interval_seconds co t ''FREQ=SECONDLY;COUNT=10'' = Inr None"
  by (simp add: rrule_interval_seconds_def)

definition twice_a_day :: "int \<Rightarrow> int option" where
  "twice_a_day x = (if x mod 86400 < 60 then Some ((x div 86400) * 86400 + 60) else Some ((x div 86400 + 1) * 86400))"

text \<open>The interval is that of the next two runs only: two runs one minute apart pass the limit of an hour
  when the first of them has just been.\<close>

lemma only_one_gap_checked:
  "rrule_interval_seconds (plain_clock\<lparr>ro_rule := (\<lambda>s b p. Inr twice_a_day)\<rparr>) 30000000000 ''FREQ=DAILY;BYHOUR=0;BYMINUTE=0,1''
     = Inr (Some 86340)"
  "twice_a_day 86399 = Some 86400" "twice_a_day 86400 = Some 86460"
  by code_simp+

definition ann_env :: auto_env where
  "ann_env = \<lparr>ae_config = \<lparr>cf_enabled = PBool True, cf_permissions = [(''features'', PDict [(''automations'', PBool True)])],
       cf_max_count = PInt 1, cf_min_interval = PNone\<rparr>, ae_defaults = [], ae_groups = \<lparr>db_groups = [], db_members = []\<rparr>,
     ae_clock = plain_clock, ae_time = 5, ae_timezone = None\<rparr>"

definition two_owners :: "auto_row list \<times> run_row list" where
  "two_owners = ([every_minute ''a'' 80, (every_minute ''b'' 90)\<lparr>au_user := ''bob''\<rparr>], [])"

definition after_delete :: "auto_row list \<times> run_row list" where
  "after_delete = ([(every_minute ''b'' 90)\<lparr>au_user := ''bob''\<rparr>], [])"


end
