(* ===== verification/Control_Plane.thy ===== *)
theory Control_Plane
  imports Secret_Resolver "HOL-Library.List_Lexorder" "HOL-Library.Char_ord"
begin

text \<open>
  The control plane of administrators, \<^verbatim>\<open>backend/openlaunch/models/control_plane.py\<close> with its endpoints in
  \<^verbatim>\<open>routers/control_plane.py\<close>: data connections with references to their secrets, tool profiles with
  their assignments, and the audits. The validators of the forms are those of the classes; the test of a
  connection and the list of adapters are calls into drivers and are not modelled.
\<close>

section \<open>Validation\<close>

definition id_char :: "char \<Rightarrow> bool" where
  "id_char c = (let n = (of_char c :: nat) in
     48 \<le> n \<and> n \<le> 57 \<or> 65 \<le> n \<and> n \<le> 90 \<or> 97 \<le> n \<and> n \<le> 122)"

text \<open>\<^verbatim>\<open>^[A-Za-z0-9][A-Za-z0-9._-]{0,63}$\<close>\<close>

definition id_ok :: "string \<Rightarrow> bool" where
  "id_ok s = (case s of
      [] \<Rightarrow> False
    | c # r \<Rightarrow> id_char c \<and> length r \<le> 63 \<and> list_all (\<lambda>d. id_char d \<or> d = CHR ''.'' \<or> d = CHR ''_'' \<or> d = CHR ''-'') r)"

definition forbidden_keys :: "string list" where
  "forbidden_keys = [''url'', ''password'', ''token'', ''private_key'', ''connection_string'', ''redis_url'', ''username'', ''user'',
     ''config'', ''secret'', ''api_key'', ''key'']"

fun contains_secret :: "pv \<Rightarrow> bool" where
  "contains_secret (PDict d) =
     (list_ex (\<lambda>(k, v). py_lower k \<in> set forbidden_keys) d \<or> list_ex (\<lambda>(k, v). contains_secret v) d)"
| "contains_secret (PList xs) = list_ex contains_secret xs"
| "contains_secret _ = False"

text \<open>\<^verbatim>\<open>v in {...}\<close> for a set of texts\<close>

definition in_names :: "pv \<Rightarrow> string list \<Rightarrow> bool res" where
  "in_names v names = rmap (\<lambda>k. k \<in> PStr ` set names) (hash_key v)"

definition require_that :: "bool \<Rightarrow> string \<Rightarrow> unit res" where
  "require_that b msg = (if b then Inr () else Inl (ValueError msg))"

definition check_reference :: "pdict \<Rightarrow> unit res" where
  "check_reference ref =
     (let ty = od_getd ref ''type'' PNone in
      rbind (in_names ty [''env'', ''file'']) (\<lambda>b.
      rbind (require_that b ''Admin-managed connections support environment or file secret references.'') (\<lambda>_.
      rbind (require_that (set (od_keys ref) \<subseteq> set (if ty = PStr ''env'' then [''type'', ''name'', ''field''] else [''type'', ''path'', ''key'', ''field'']))
        ''Secret reference contains unsupported fields.'') (\<lambda>_.
      rbind (in_names (od_getd ref ''field'' (PStr ''url'')) secret_fields) (\<lambda>b.
      rbind (require_that b ''Secret reference field is invalid.'') (\<lambda>_.
      rbind (require_that (\<not> (ty = PStr ''env'' \<and> \<not> truthy (od_getd ref ''name'' PNone))) ''Environment secret references require a name.'') (\<lambda>_.
        require_that (\<not> (ty = PStr ''file'' \<and> \<not> truthy (od_getd ref ''path'' PNone))) ''File secret references require a path.'')))))))"

record connection_form =
  fc_id :: string
  fc_scope_type :: string
  fc_scope_id :: string
  fc_provider :: string
  fc_description :: string
  fc_enabled :: bool
  fc_metadata :: pdict
  fc_secret :: "pdict option"
  fc_policy :: pdict
  fc_grants :: "pdict list"

definition reject_secret_metadata :: "connection_form \<Rightarrow> unit res" where
  "reject_secret_metadata f =
     rbind (require_that (id_ok (fc_id f)) ''id'') (\<lambda>_.
     rbind (require_that (\<not> contains_secret (PDict (fc_metadata f))) ''Sensitive connection fields must use a secret reference.'') (\<lambda>_.
     rbind (require_that (fc_scope_type f \<in> {''instance'', ''organization'', ''workspace''}) ''Unsupported connection scope.'') (\<lambda>_.
       case fc_secret f of None \<Rightarrow> Inr () | Some ref \<Rightarrow> (if ref = [] then Inr () else check_reference ref))))"

record profile_form =
  fp_id :: string
  fp_name :: string
  fp_description :: string
  fp_enabled :: bool
  fp_assignments :: "(string, string) od list"
  fp_bundle :: pdict

definition assignment_scopes :: "string list" where
  "assignment_scopes = [''instance'', ''organization'', ''workspace'', ''user'', ''service_account'', ''api_credential'', ''model'']"

definition bad_assignment :: "(string, string) od \<Rightarrow> bool" where
  "bad_assignment a =
     ((case od_get a ''scope_type'' of None \<Rightarrow> True | Some s \<Rightarrow> s \<notin> set assignment_scopes) \<or> od_getd a ''scope_id'' [] = [])"

definition id_list :: "pv \<Rightarrow> bool" where
  "id_list v = (case v of PList xs \<Rightarrow> list_all (\<lambda>x. case x of PStr s \<Rightarrow> s \<noteq> [] | _ \<Rightarrow> False) xs | _ \<Rightarrow> False)"

definition validate_profile :: "profile_form \<Rightarrow> unit res" where
  "validate_profile f =
     rbind (require_that (id_ok (fp_id f)) ''id'') (\<lambda>_.
     rbind (require_that (\<not> list_ex bad_assignment (fp_assignments f)) ''Tool profile assignment is invalid.'') (\<lambda>_.
     rbind (require_that (set (od_keys (fp_bundle f)) \<subseteq> {''tool_ids'', ''builtins'', ''data_source_grants'', ''empty''})
       ''Tool profile contains unsupported fields.'') (\<lambda>_.
     rbind (require_that (list_all (\<lambda>k. id_list (od_getd (fp_bundle f) k (PList []))) [''tool_ids'', ''builtins'', ''data_source_grants''])
       ''Tool profile lists must be lists of identifiers.'') (\<lambda>_.
       require_that (case od_get (fp_bundle f) ''empty'' of None \<Rightarrow> True | Some (PBool b) \<Rightarrow> True | Some _ \<Rightarrow> False)
         ''Tool profile empty must be a boolean.''))))"

section \<open>The tables\<close>

record connection_row =
  co_id :: string
  co_scope_type :: string
  co_scope_id :: string
  co_provider :: string
  co_description :: string
  co_enabled :: bool
  co_metadata :: pdict
  co_secret :: "pdict option"
  co_policy :: pdict
  co_grants :: "pdict list"
  co_author :: string
  co_created :: int
  co_updated :: int

record profile_row =
  tp_id :: string
  tp_name :: string
  tp_description :: string
  tp_enabled :: bool
  tp_assignments :: "(string, string) od list"
  tp_bundle :: pdict
  tp_author :: string
  tp_created :: int
  tp_updated :: int

record connection_answer =
  ca_id :: string
  ca_scope :: "string \<times> string"
  ca_provider :: string
  ca_description :: string
  ca_enabled :: bool
  ca_metadata :: pdict
  ca_has_secret :: bool
  ca_policy :: pdict
  ca_grants :: "pdict list"
  ca_times :: "int \<times> int"

definition given_secret :: "pdict option \<Rightarrow> bool" where
  "given_secret r = (case r of None \<Rightarrow> False | Some d \<Rightarrow> d \<noteq> [])"

definition connection_response :: "connection_row \<Rightarrow> connection_answer" where
  "connection_response r = \<lparr>ca_id = co_id r, ca_scope = (co_scope_type r, co_scope_id r), ca_provider = co_provider r,
     ca_description = co_description r, ca_enabled = co_enabled r, ca_metadata = co_metadata r, ca_has_secret = given_secret (co_secret r),
     ca_policy = co_policy r, ca_grants = co_grants r, ca_times = (co_created r, co_updated r)\<rparr>"

definition list_connections :: "connection_row list \<Rightarrow> connection_answer list" where
  "list_connections rows = map connection_response (sort_key co_id rows)"

definition get_connection :: "string \<Rightarrow> connection_row list \<Rightarrow> connection_row option" where
  "get_connection i rows = List.find (\<lambda>r. co_id r = i) rows"

text \<open>A form without a reference keeps the stored one.\<close>

definition fill_connection :: "int \<Rightarrow> connection_form \<Rightarrow> connection_row \<Rightarrow> connection_row" where
  "fill_connection now f r =
     r\<lparr>co_id := fc_id f, co_scope_type := fc_scope_type f, co_scope_id := fc_scope_id f, co_provider := fc_provider f,
       co_description := fc_description f, co_enabled := fc_enabled f, co_metadata := fc_metadata f,
       co_secret := (if fc_secret f = None \<and> given_secret (co_secret r) then co_secret r else fc_secret f),
       co_policy := fc_policy f, co_grants := fc_grants f, co_updated := now\<rparr>"

definition blank_connection :: "int \<Rightarrow> string \<Rightarrow> string \<Rightarrow> connection_row" where
  "blank_connection now actor i = \<lparr>co_id = i, co_scope_type = ''instance'', co_scope_id = ''*'', co_provider = [], co_description = [],
     co_enabled = True, co_metadata = [], co_secret = None, co_policy = [], co_grants = [], co_author = actor, co_created = now,
     co_updated = now\<rparr>"

definition upsert_connection :: "int \<Rightarrow> connection_form \<Rightarrow> string \<Rightarrow> connection_row list \<Rightarrow> connection_row list \<times> connection_answer" where
  "upsert_connection now f actor rows = (case get_connection (fc_id f) rows of
      None \<Rightarrow> (let r = fill_connection now f (blank_connection now actor (fc_id f)) in (rows @ [r], connection_response r))
    | Some old \<Rightarrow> (let r = fill_connection now f old in
        (map (\<lambda>x. if co_id x = fc_id f then r else x) rows, connection_response r)))"

definition delete_connection :: "string \<Rightarrow> connection_row list \<Rightarrow> connection_row list \<times> bool" where
  "delete_connection i rows = (filter (\<lambda>r. co_id r \<noteq> i) rows, list_ex (\<lambda>r. co_id r = i) rows)"

definition list_profiles :: "profile_row list \<Rightarrow> profile_row list" where
  "list_profiles rows = sort_key tp_id rows"

definition get_profile :: "string \<Rightarrow> profile_row list \<Rightarrow> profile_row option" where
  "get_profile i rows = List.find (\<lambda>r. tp_id r = i) rows"

definition fill_profile :: "int \<Rightarrow> profile_form \<Rightarrow> profile_row \<Rightarrow> profile_row" where
  "fill_profile now f r = r\<lparr>tp_id := fp_id f, tp_name := fp_name f, tp_description := fp_description f, tp_enabled := fp_enabled f,
     tp_assignments := fp_assignments f, tp_bundle := fp_bundle f, tp_updated := now\<rparr>"

definition blank_profile :: "int \<Rightarrow> string \<Rightarrow> string \<Rightarrow> profile_row" where
  "blank_profile now actor i = \<lparr>tp_id = i, tp_name = [], tp_description = [], tp_enabled = True, tp_assignments = [], tp_bundle = [],
     tp_author = actor, tp_created = now, tp_updated = now\<rparr>"

definition upsert_profile :: "int \<Rightarrow> profile_form \<Rightarrow> string \<Rightarrow> profile_row list \<Rightarrow> profile_row list \<times> profile_row" where
  "upsert_profile now f actor rows = (case get_profile (fp_id f) rows of
      None \<Rightarrow> (let r = fill_profile now f (blank_profile now actor (fp_id f)) in (rows @ [r], r))
    | Some old \<Rightarrow> (let r = fill_profile now f old in (map (\<lambda>x. if tp_id x = fp_id f then r else x) rows, r)))"

definition delete_profile :: "string \<Rightarrow> profile_row list \<Rightarrow> profile_row list \<times> bool" where
  "delete_profile i rows = (filter (\<lambda>r. tp_id r \<noteq> i) rows, list_ex (\<lambda>r. tp_id r = i) rows)"

definition principals_of :: "string \<Rightarrow> string \<Rightarrow> (string, string) od \<Rightarrow> (string, string) od" where
  "principals_of uid model scopes = od_merge [(''instance'', ''*''), (''user'', uid), (''model'', model)] scopes"

definition assigned :: "(string, string) od \<Rightarrow> (string, string) od \<Rightarrow> bool" where
  "assigned principals a = (case od_get a ''scope_type'' of
      None \<Rightarrow> False
    | Some s \<Rightarrow> (case od_get principals s of None \<Rightarrow> False | Some p \<Rightarrow> od_get a ''scope_id'' = Some p))"

definition resolve_profile :: "string \<Rightarrow> string \<Rightarrow> string \<Rightarrow> (string, string) od \<Rightarrow> profile_row list \<Rightarrow> pdict option" where
  "resolve_profile i uid model scopes rows = (case get_profile i rows of
      None \<Rightarrow> None
    | Some p \<Rightarrow>
       (if \<not> tp_enabled p then None
        else if list_ex (assigned (principals_of uid model scopes)) (tp_assignments p) then Some (tp_bundle p) else None))"

text \<open>The enabled connections with their secrets, for the tools of a running request\<close>

definition runtime_connection :: "float_ops \<Rightarrow> (string, resolver) od \<Rightarrow> connection_row \<Rightarrow> pdict res" where
  "runtime_connection fo table r =
     rmap (\<lambda>m. od_set ''policy'' (PDict (co_policy r)) (od_set ''access_grants'' (PList (map PDict (co_grants r)))
         (od_set ''scope_id'' (PStr (co_scope_id r)) (od_set ''scope_type'' (PStr (co_scope_type r))
         (od_set ''description'' (PStr (co_description r)) (od_set ''type'' (PStr (co_provider r)) (od_set ''id'' (PStr (co_id r)) m)))))))
       (inject_connection_secret fo table (co_metadata r) (case co_secret r of None \<Rightarrow> PNone | Some d \<Rightarrow> PDict d))"

definition get_persisted_runtime_connections :: "float_ops \<Rightarrow> (string, resolver) od \<Rightarrow> connection_row list \<Rightarrow> pdict list res" where
  "get_persisted_runtime_connections fo table rows = rmapM (runtime_connection fo table) (filter co_enabled rows)"

section \<open>Audits\<close>

record audit_row =
  qa_id :: string
  qa_actor :: string
  qa_connection :: string
  qa_provider :: string
  qa_request :: string
  qa_call :: string
  qa_objects :: "string list"
  qa_decision :: string
  qa_fingerprint :: string
  qa_raw_sql :: "string option"
  qa_started :: int
  qa_ended :: int
  qa_duration :: int
  qa_rows :: int
  qa_bytes :: int
  qa_status :: string

record profile_audit =
  pa_id :: string
  pa_profile :: string
  pa_actor :: string
  pa_credential :: string
  pa_request :: string
  pa_endpoint :: string
  pa_outcome :: string
  pa_created :: int

definition audit_limit :: "int \<Rightarrow> nat" where
  "audit_limit limit = nat (min 1000 (max 1 limit))"

definition append_query_audit :: "string \<Rightarrow> audit_row \<Rightarrow> audit_row list \<Rightarrow> audit_row list" where
  "append_query_audit new_id e rows = rows @ [e\<lparr>qa_id := new_id\<rparr>]"

definition append_profile_audit :: "string \<Rightarrow> int \<Rightarrow> profile_audit \<Rightarrow> profile_audit list \<Rightarrow> profile_audit list" where
  "append_profile_audit new_id now e rows = rows @ [e\<lparr>pa_id := new_id, pa_created := now\<rparr>]"

definition list_profile_audits :: "int \<Rightarrow> profile_audit list \<Rightarrow> profile_audit list" where
  "list_profile_audits limit rows = take (audit_limit limit) (sort_key (\<lambda>r. - pa_created r) rows)"

definition list_query_audits :: "int \<Rightarrow> audit_row list \<Rightarrow> audit_row list" where
  "list_query_audits limit rows = take (audit_limit limit) (sort_key (\<lambda>r. - qa_started r) rows)"

definition prune_query_audits :: "int \<Rightarrow> audit_row list \<Rightarrow> audit_row list \<times> nat" where
  "prune_query_audits before rows = (filter (\<lambda>r. \<not> qa_ended r < before) rows, length (filter (\<lambda>r. qa_ended r < before) rows))"

section \<open>Endpoints\<close>

definition upsert_data_connection :: "int \<Rightarrow> string \<Rightarrow> connection_form \<Rightarrow> string \<Rightarrow> connection_row list \<Rightarrow> (connection_row list \<times> connection_answer) res" where
  "upsert_data_connection now i f actor rows =
     rbind (reject_secret_metadata f) (\<lambda>_.
       if i \<noteq> fc_id f then Inl (HTTPException 400 ''Connection ID does not match the request path.'')
       else Inr (upsert_connection now f actor rows))"

definition disabled_form :: "connection_row \<Rightarrow> connection_form" where
  "disabled_form r = \<lparr>fc_id = co_id r, fc_scope_type = co_scope_type r, fc_scope_id = co_scope_id r, fc_provider = co_provider r,
     fc_description = co_description r, fc_enabled = False, fc_metadata = co_metadata r, fc_secret = co_secret r,
     fc_policy = co_policy r, fc_grants = co_grants r\<rparr>"

definition disable_data_connection :: "int \<Rightarrow> string \<Rightarrow> string \<Rightarrow> connection_row list \<Rightarrow> (connection_row list \<times> connection_answer) res" where
  "disable_data_connection now i actor rows = (case get_connection i rows of
      None \<Rightarrow> Inl (HTTPException 404 ''Connection not found.'')
    | Some r \<Rightarrow> rbind (reject_secret_metadata (disabled_form r)) (\<lambda>_. Inr (upsert_connection now (disabled_form r) actor rows)))"

definition delete_data_connection :: "string \<Rightarrow> connection_row list \<Rightarrow> connection_row list res" where
  "delete_data_connection i rows =
     (case delete_connection i rows of (rows', ok) \<Rightarrow> if ok then Inr rows' else Inl (HTTPException 404 ''Connection not found.''))"

definition upsert_tool_profile :: "int \<Rightarrow> string \<Rightarrow> profile_form \<Rightarrow> string \<Rightarrow> profile_row list \<Rightarrow> (profile_row list \<times> profile_row) res" where
  "upsert_tool_profile now i f actor rows =
     rbind (validate_profile f) (\<lambda>_.
       if i \<noteq> fp_id f then Inl (HTTPException 400 ''Profile ID does not match the request path.'')
       else Inr (upsert_profile now f actor rows))"

definition delete_tool_profile :: "string \<Rightarrow> profile_row list \<Rightarrow> profile_row list res" where
  "delete_tool_profile i rows =
     (case delete_profile i rows of (rows', ok) \<Rightarrow> if ok then Inr rows' else Inl (HTTPException 404 ''Tool profile not found.''))"

section \<open>Requests on the connections\<close>

datatype connection_request =
    PutConnection int string connection_form string
  | DisableConnection int string string
  | DropConnection string
  | ListConnections

definition serve_one :: "connection_request \<Rightarrow> connection_row list \<Rightarrow> connection_row list \<times> connection_answer list res" where
  "serve_one q rows = (case q of
      PutConnection now i f actor \<Rightarrow>
        (case upsert_data_connection now i f actor rows of Inl e \<Rightarrow> (rows, Inl e) | Inr (rows', a) \<Rightarrow> (rows', Inr [a]))
    | DisableConnection now i actor \<Rightarrow>
        (case disable_data_connection now i actor rows of Inl e \<Rightarrow> (rows, Inl e) | Inr (rows', a) \<Rightarrow> (rows', Inr [a]))
    | DropConnection i \<Rightarrow> (case delete_data_connection i rows of Inl e \<Rightarrow> (rows, Inl e) | Inr rows' \<Rightarrow> (rows', Inr []))
    | ListConnections \<Rightarrow> (rows, Inr (list_connections rows)))"

fun serve :: "connection_request list \<Rightarrow> connection_row list \<Rightarrow> connection_row list \<times> connection_answer list res list" where
  "serve [] rows = (rows, [])"
| "serve (q # qs) rows = (case serve_one q rows of (rows', a) \<Rightarrow> apsnd ((#) a) (serve qs rows'))"

section \<open>What the table holds\<close>

definition secret_ok :: "pdict option \<Rightarrow> bool" where
  "secret_ok s = (case s of None \<Rightarrow> True | Some ref \<Rightarrow> ref = [] \<or> check_reference ref = Inr ())"

definition connection_ok :: "connection_row \<Rightarrow> bool" where
  "connection_ok r = (id_ok (co_id r) \<and> \<not> contains_secret (PDict (co_metadata r))
     \<and> co_scope_type r \<in> {''instance'', ''organization'', ''workspace''} \<and> secret_ok (co_secret r))"

definition connections_ok :: "connection_row list \<Rightarrow> bool" where
  "connections_ok rows = (distinct (map co_id rows) \<and> list_all connection_ok rows)"

lemma require_that_iff [simp]: "require_that b m = Inr x \<longleftrightarrow> b"
  by (simp add: require_that_def)

lemma reject_iff:
  "reject_secret_metadata f = Inr () \<longleftrightarrow> id_ok (fc_id f) \<and> \<not> contains_secret (PDict (fc_metadata f))
     \<and> fc_scope_type f \<in> {''instance'', ''organization'', ''workspace''} \<and> secret_ok (fc_secret f)"
proof -
  have "(case fc_secret f of None \<Rightarrow> Inr () | Some ref \<Rightarrow> (if ref = [] then Inr () else check_reference ref)) = Inr ()
      \<longleftrightarrow> secret_ok (fc_secret f)"
    by (auto simp: secret_ok_def split: option.split)
  then show ?thesis
    unfolding reject_secret_metadata_def rbind_eq_Inr require_that_iff by blast
qed

lemma disabled_accepted: "connection_ok r \<Longrightarrow> reject_secret_metadata (disabled_form r) = Inr ()"
  by (simp add: reject_iff connection_ok_def disabled_form_def)

lemma fill_ok:
  assumes "reject_secret_metadata f = Inr ()" and "secret_ok (co_secret r)"
  shows "connection_ok (fill_connection now f r)"
  using assms unfolding reject_iff by (simp add: connection_ok_def fill_connection_def)

lemma get_connection_Some: "get_connection i rows = Some r \<Longrightarrow> r \<in> set rows \<and> co_id r = i"
  by (auto simp: get_connection_def find_Some_iff)

lemma get_connection_None: "get_connection i rows = None \<longleftrightarrow> i \<notin> co_id ` set rows"
  by (auto simp: get_connection_def find_None_iff)

lemma upsert_ok:
  assumes "connections_ok rows" and "reject_secret_metadata f = Inr ()"
  shows "connections_ok (fst (upsert_connection now f actor rows))"
proof (cases "get_connection (fc_id f) rows")
  case None
  have "co_id (fill_connection now f (blank_connection now actor (fc_id f))) = fc_id f"
    by (simp add: fill_connection_def)
  moreover have "connection_ok (fill_connection now f (blank_connection now actor (fc_id f)))"
    by (rule fill_ok [OF assms(2)]) (simp add: blank_connection_def secret_ok_def)
  moreover have "fc_id f \<notin> co_id ` set rows"
    using None unfolding get_connection_None .
  ultimately show ?thesis
    using assms(1) None by (simp add: upsert_connection_def connections_ok_def Let_def)
next
  case (Some old)
  let ?r = "fill_connection now f old"
  have "connection_ok old"
    using get_connection_Some [OF Some] assms(1) by (auto simp: connections_ok_def list_all_iff)
  then have "connection_ok ?r"
    by (intro fill_ok [OF assms(2)]) (simp add: connection_ok_def)
  then have "list_all connection_ok (map (\<lambda>x. if co_id x = fc_id f then ?r else x) rows)"
    using assms(1) by (auto simp: connections_ok_def list_all_iff)
  moreover have "co_id ?r = fc_id f"
    by (simp add: fill_connection_def)
  then have ids: "map co_id (map (\<lambda>x. if co_id x = fc_id f then ?r else x) rows) = map co_id rows"
    by auto
  moreover have "fst (upsert_connection now f actor rows) = map (\<lambda>x. if co_id x = fc_id f then ?r else x) rows"
    using Some by (simp add: upsert_connection_def Let_def)
  ultimately show ?thesis
    using assms(1) unfolding connections_ok_def by (simp only: ids)
qed

lemma serve_one_ok: "connections_ok rows \<Longrightarrow> connections_ok (fst (serve_one q rows))"
proof (cases q)
  case (PutConnection now i f actor)
  then show "connections_ok rows \<Longrightarrow> connections_ok (fst (serve_one q rows))"
    using upsert_ok [of rows f now actor]
    by (cases "reject_secret_metadata f") (auto simp: serve_one_def upsert_data_connection_def split: prod.split)
next
  case (DisableConnection now i actor)
  assume ok: "connections_ok rows"
  show ?thesis
  proof (cases "get_connection i rows")
    case None
    then show ?thesis
      using ok DisableConnection by (simp add: serve_one_def disable_data_connection_def)
  next
    case (Some r)
    then have "reject_secret_metadata (disabled_form r) = Inr ()"
      using get_connection_Some [OF Some] ok by (intro disabled_accepted) (auto simp: connections_ok_def list_all_iff)
    then show ?thesis
      using DisableConnection Some upsert_ok [OF ok, of "disabled_form r" now actor]
      by (auto simp: serve_one_def disable_data_connection_def split: prod.split)
  qed
next
  case (DropConnection i)
  assume "connections_ok rows"
  then have "connections_ok (filter (\<lambda>r. co_id r \<noteq> i) rows)"
    by (auto simp: connections_ok_def list_all_iff distinct_map_filter)
  then show ?thesis
    using DropConnection \<open>connections_ok rows\<close> by (simp add: serve_one_def delete_data_connection_def delete_connection_def)
qed (simp add: serve_one_def)

lemma serve_ok: "connections_ok rows \<Longrightarrow> connections_ok (fst (serve qs rows))"
proof (induction qs arbitrary: rows)
  case (Cons q qs)
  then show ?case
    using serve_one_ok [OF Cons.prems, of q] Cons.IH by (cases "serve_one q rows") simp
qed simp

text \<open>The values inside a value, and what the recursive check finds among them\<close>

inductive inside :: "pv \<Rightarrow> pv \<Rightarrow> bool" where
  inside_self: "inside v v"
| inside_dict: "inside v w \<Longrightarrow> (k, w) \<in> set d \<Longrightarrow> inside v (PDict d)"
| inside_list: "inside v w \<Longrightarrow> w \<in> set xs \<Longrightarrow> inside v (PList xs)"

definition forbidden_inside :: "pv \<Rightarrow> bool" where
  "forbidden_inside v = (\<exists>d k w. inside (PDict d) v \<and> (k, w) \<in> set d \<and> py_lower k \<in> set forbidden_keys)"

lemma contains_secret_inside: "inside u v \<Longrightarrow> contains_secret u \<Longrightarrow> contains_secret v"
  by (induction rule: inside.induct) (auto simp: list_ex_iff)

lemma contains_secret_found: "contains_secret v \<Longrightarrow> forbidden_inside v"
proof (induction v rule: contains_secret.induct)
  case (1 d)
  show ?case
  proof (cases "list_ex (\<lambda>(k, v). py_lower k \<in> set forbidden_keys) d")
    case True
    then show ?thesis
      by (auto simp: list_ex_iff forbidden_inside_def intro: inside_self)
  next
    case False
    then obtain k v where v: "(k, v) \<in> set d" "contains_secret v"
      using 1 by (auto simp: list_ex_iff)
    then have "forbidden_inside v"
      by (intro "1.IH") auto
    then show ?thesis
      using v(1) by (auto simp: forbidden_inside_def intro: inside_dict)
  qed
next
  case (2 xs)
  then obtain v where "v \<in> set xs" "forbidden_inside v"
    by (auto simp: list_ex_iff)
  then show ?case
    by (auto simp: forbidden_inside_def intro: inside_list)
qed simp_all

lemma contains_secret_iff: "contains_secret v \<longleftrightarrow> forbidden_inside v"
proof
  assume "forbidden_inside v"
  then obtain d k w where d: "inside (PDict d) v" "(k, w) \<in> set d" "py_lower k \<in> set forbidden_keys"
    by (auto simp: forbidden_inside_def)
  then have "contains_secret (PDict d)"
    by (auto simp: list_ex_iff)
  then show "contains_secret v"
    using contains_secret_inside [OF d(1)] by simp
qed (rule contains_secret_found)

text \<open>Whatever is sent to the endpoints, the table holds each id once, supported scopes and references only, and at
  no depth of the open metadata a field that could hold a secret.\<close>

theorem connections_hold_no_secrets:
  "connections_ok (fst (serve qs [])) \<and> list_all (\<lambda>r. \<not> forbidden_inside (PDict (co_metadata r))) (fst (serve qs []))"
proof -
  have ok: "connections_ok (fst (serve qs []))"
    by (rule serve_ok) (simp add: connections_ok_def)
  then have "list_all (\<lambda>r. \<not> contains_secret (PDict (co_metadata r))) (fst (serve qs []))"
    by (auto simp: connections_ok_def connection_ok_def list_all_iff)
  with ok show ?thesis
    by (simp only: contains_secret_iff)
qed

section \<open>What the answers show\<close>

text \<open>The answers of all connections: everything of a reference but whether there is one is left out.\<close>

definition view :: "connection_row list \<Rightarrow> connection_answer list" where
  "view rows = map connection_response rows"

lemma ca_id_response [simp]: "ca_id (connection_response r) = co_id r"
  by (simp add: connection_response_def)

lemma insort_map: "map f (insort_key (\<lambda>x. g (f x)) x xs) = insort_key g (f x) (map f xs)"
  by (induction xs) simp_all

lemma sort_map: "map f (sort_key (\<lambda>x. g (f x)) xs) = sort_key g (map f xs)"
  by (induction xs) (simp_all add: insort_map)

lemma list_connections_view: "list_connections rows = sort_key ca_id (view rows)"
  using sort_map [of connection_response ca_id rows] by (simp add: list_connections_def view_def)

text \<open>The answer that a form gives in place of another one\<close>

definition answer_of :: "int \<Rightarrow> connection_form \<Rightarrow> connection_answer \<Rightarrow> connection_answer" where
  "answer_of now f a = \<lparr>ca_id = fc_id f, ca_scope = (fc_scope_type f, fc_scope_id f), ca_provider = fc_provider f,
     ca_description = fc_description f, ca_enabled = fc_enabled f, ca_metadata = fc_metadata f,
     ca_has_secret = (if fc_secret f = None then ca_has_secret a else given_secret (fc_secret f)),
     ca_policy = fc_policy f, ca_grants = fc_grants f, ca_times = (fst (ca_times a), now)\<rparr>"

lemma response_fill: "connection_response (fill_connection now f r) = answer_of now f (connection_response r)"
  by (auto simp: connection_response_def fill_connection_def answer_of_def given_secret_def)

definition find_answer :: "string \<Rightarrow> connection_answer list \<Rightarrow> connection_answer option" where
  "find_answer i vs = List.find (\<lambda>a. ca_id a = i) vs"

lemma find_answer_view: "find_answer i (view rows) = map_option connection_response (get_connection i rows)"
  by (induction rows) (simp_all add: find_answer_def view_def get_connection_def)

lemma upsert_view:
  "snd (upsert_connection now f actor rows) = (case find_answer (fc_id f) (view rows) of
      None \<Rightarrow> answer_of now f (connection_response (blank_connection now [] (fc_id f))) | Some a \<Rightarrow> answer_of now f a)"
  "view (fst (upsert_connection now f actor rows)) = (case find_answer (fc_id f) (view rows) of
      None \<Rightarrow> view rows @ [answer_of now f (connection_response (blank_connection now [] (fc_id f)))]
    | Some a \<Rightarrow> map (\<lambda>x. if ca_id x = fc_id f then answer_of now f a else x) (view rows))"
proof -
  have blank: "connection_response (blank_connection now actor i) = connection_response (blank_connection now [] i)" for i
    by (simp add: connection_response_def blank_connection_def)
  show "snd (upsert_connection now f actor rows) = (case find_answer (fc_id f) (view rows) of
      None \<Rightarrow> answer_of now f (connection_response (blank_connection now [] (fc_id f))) | Some a \<Rightarrow> answer_of now f a)"
    by (cases "get_connection (fc_id f) rows") (simp_all add: upsert_connection_def find_answer_view Let_def response_fill blank)
  show "view (fst (upsert_connection now f actor rows)) = (case find_answer (fc_id f) (view rows) of
      None \<Rightarrow> view rows @ [answer_of now f (connection_response (blank_connection now [] (fc_id f)))]
    | Some a \<Rightarrow> map (\<lambda>x. if ca_id x = fc_id f then answer_of now f a else x) (view rows))"
    unfolding find_answer_view
    by (cases "get_connection (fc_id f) rows")
      (simp_all add: upsert_connection_def Let_def view_def comp_def response_fill blank if_distrib [of connection_response] cong: if_cong)
qed

text \<open>The form of a disabled connection shows only what its answer shows.\<close>

lemma answer_disabled:
  "answer_of now (disabled_form r) (connection_response r) = (connection_response r)\<lparr>ca_enabled := False, ca_times := (co_created r, now)\<rparr>"
  by (auto simp: answer_of_def disabled_form_def connection_response_def given_secret_def)

lemma serve_one_view:
  assumes "connections_ok rows1" and "connections_ok rows2" and same: "view rows1 = view rows2"
  shows "snd (serve_one q rows1) = snd (serve_one q rows2) \<and> view (fst (serve_one q rows1)) = view (fst (serve_one q rows2))"
proof (cases q)
  case (PutConnection now i f actor)
  show ?thesis
  proof (cases "reject_secret_metadata f = Inr () \<and> i = fc_id f")
    case True
    then have run: "serve_one q rows = (fst (upsert_connection now f actor rows), Inr [snd (upsert_connection now f actor rows)])" for rows
      using PutConnection by (simp add: serve_one_def upsert_data_connection_def split: prod.split)
    show ?thesis
      unfolding run fst_conv snd_conv upsert_view same by simp
  next
    case False
    then show ?thesis
      using PutConnection same by (cases "reject_secret_metadata f") (simp_all add: serve_one_def upsert_data_connection_def)
  qed
next
  case (DisableConnection now i actor)
  have find: "map_option connection_response (get_connection i rows1) = map_option connection_response (get_connection i rows2)"
    using same find_answer_view by metis
  show ?thesis
  proof (cases "get_connection i rows1")
    case None
    then show ?thesis
      using find DisableConnection same by (simp add: serve_one_def disable_data_connection_def)
  next
    case (Some r1)
    then obtain r2 where r2: "get_connection i rows2 = Some r2" "connection_response r1 = connection_response r2"
      using find by (cases "get_connection i rows2") auto
    have run: "serve_one q rows = (fst (upsert_connection now (disabled_form r) actor rows), Inr [snd (upsert_connection now (disabled_form r) actor rows)])"
      if "connections_ok rows" "get_connection i rows = Some r" for rows r
    proof -
      have "reject_secret_metadata (disabled_form r) = Inr ()"
        using get_connection_Some [OF that(2)] that(1) by (intro disabled_accepted) (auto simp: connections_ok_def list_all_iff)
      then show ?thesis
        using DisableConnection that(2) by (simp add: serve_one_def disable_data_connection_def split: prod.split)
    qed
    have ids: "fc_id (disabled_form r1) = i" "fc_id (disabled_form r2) = i"
      using get_connection_Some [OF Some] get_connection_Some [OF r2(1)] by (simp_all add: disabled_form_def)
    have found: "find_answer i (view rows1) = Some (connection_response r1)" "find_answer i (view rows2) = Some (connection_response r2)"
      using Some r2(1) by (simp_all add: find_answer_view)
    have "co_created r1 = co_created r2"
      using arg_cong [OF r2(2), of "\<lambda>a. fst (ca_times a)"] by (simp add: connection_response_def)
    then have "(connection_response r1)\<lparr>ca_enabled := False, ca_times := (co_created r1, now)\<rparr>
        = (connection_response r2)\<lparr>ca_enabled := False, ca_times := (co_created r2, now)\<rparr>"
      by (simp only: r2(2))
    then have eq: "answer_of now (disabled_form r1) (connection_response r1) = answer_of now (disabled_form r2) (connection_response r2)"
      unfolding answer_disabled .
    show ?thesis
      unfolding run [OF assms(1) Some] run [OF assms(2) r2(1)] fst_conv snd_conv upsert_view ids found option.case eq using same by simp
  qed
next
  case (DropConnection i)
  have view: "view (filter (\<lambda>r. co_id r \<noteq> i) rows) = filter (\<lambda>a. ca_id a \<noteq> i) (view rows)" for rows
    by (simp add: view_def filter_map comp_def)
  have any: "list_ex (\<lambda>r. co_id r = i) rows = list_ex (\<lambda>a. ca_id a = i) (view rows)" for rows
    by (simp add: view_def list_ex_iff)
  show ?thesis
    using same DropConnection by (simp add: serve_one_def delete_data_connection_def delete_connection_def view any)
next
  case ListConnections
  then show ?thesis
    using same by (simp add: serve_one_def list_connections_view)
qed

lemma serve_view:
  "connections_ok rows1 \<Longrightarrow> connections_ok rows2 \<Longrightarrow> view rows1 = view rows2 \<Longrightarrow> snd (serve qs rows1) = snd (serve qs rows2)"
proof (induction qs arbitrary: rows1 rows2)
  case (Cons q qs)
  let ?t1 = "fst (serve_one q rows1)" and ?t2 = "fst (serve_one q rows2)"
  have run: "snd (serve (q # qs) rows) = snd (serve_one q rows) # snd (serve qs (fst (serve_one q rows)))" for rows
    by (simp add: split_def)
  have same: "snd (serve_one q rows1) = snd (serve_one q rows2)" "view ?t1 = view ?t2"
    using serve_one_view [OF Cons.prems, of q] by (rule conjunct1) (rule conjunct2 [OF serve_one_view [OF Cons.prems]])
  have "snd (serve qs ?t1) = snd (serve qs ?t2)"
    by (rule Cons.IH [OF serve_one_ok [OF Cons.prems(1)] serve_one_ok [OF Cons.prems(2)] same(2)])
  then show ?case
    unfolding run same(1) by (rule arg_cong)
qed simp


definition sample_connection :: "string \<Rightarrow> connection_row" where
  "sample_connection name = \<lparr>co_id = ''db'', co_scope_type = ''instance'', co_scope_id = ''*'', co_provider = ''postgresql'', co_description = [],
     co_enabled = True, co_metadata = [(''database'', PStr ''sales'')], co_secret = Some [(''type'', PStr ''env''), (''name'', PStr name)],
     co_policy = [], co_grants = [], co_author = ''ann'', co_created = 1, co_updated = 2\<rparr>"

definition sample_requests :: "connection_request list" where
  "sample_requests = [ListConnections, DisableConnection 3 ''db'' ''bob'', ListConnections]"


section \<open>Secrets at run time\<close>

text \<open>A connection without a reference has no field meant for a secret.\<close>

lemma no_reference_no_secret:
  assumes "connection_ok r" and "co_secret r = None" and "runtime_connection fo table r = Inr c" and "k \<in> set secret_fields"
  shows "\<not> od_has c k"
proof -
  have low: "py_lower k = k" and forbidden: "k \<in> set forbidden_keys"
    and other: "k \<notin> {''policy'', ''access_grants'', ''scope_id'', ''scope_type'', ''description'', ''type'', ''id''}"
  proof -
    have "list_all (\<lambda>k. py_lower k = k \<and> k \<in> set forbidden_keys
        \<and> k \<notin> {''policy'', ''access_grants'', ''scope_id'', ''scope_type'', ''description'', ''type'', ''id''}) secret_fields"
      by code_simp
    then show "py_lower k = k" "k \<in> set forbidden_keys"
        "k \<notin> {''policy'', ''access_grants'', ''scope_id'', ''scope_type'', ''description'', ''type'', ''id''}"
      using assms(4) by (simp_all add: list_all_iff)
  qed
  have "\<not> od_has (co_metadata r) k"
  proof
    assume "od_has (co_metadata r) k"
    then obtain v where "(k, v) \<in> set (co_metadata r)"
      by (auto simp: od_has_def dest: map_of_SomeD)
    then have "contains_secret (PDict (co_metadata r))"
      using low forbidden by (auto simp: list_ex_iff intro!: bexI [of _ "(k, v)"])
    then show False
      using assms(1) by (simp add: connection_ok_def)
  qed
  moreover have "c = od_set ''policy'' (PDict (co_policy r)) (od_set ''access_grants'' (PList (map PDict (co_grants r)))
         (od_set ''scope_id'' (PStr (co_scope_id r)) (od_set ''scope_type'' (PStr (co_scope_type r))
         (od_set ''description'' (PStr (co_description r)) (od_set ''type'' (PStr (co_provider r)) (od_set ''id'' (PStr (co_id r)) (co_metadata r)))))))"
    using assms(2,3) by (simp add: runtime_connection_def inject_connection_secret_def)
  ultimately show ?thesis
    using other by simp
qed

text \<open>One reference that cannot be resolved takes all connections away; the caller goes on without them.\<close>

lemma missing_secret_hides_all:
  assumes "r \<in> set rows" and "co_enabled r" and "runtime_connection fo table r = Inl e"
  shows "\<exists>e. get_persisted_runtime_connections fo table rows = Inl e"
proof -
  have "\<exists>e. rmapM (runtime_connection fo table) xs = Inl e" if "r \<in> set xs" for xs
    using that
  proof (induction xs)
    case (Cons x xs)
    show ?case
    proof (cases "runtime_connection fo table x")
      case (Inr c)
      then have "r \<in> set xs"
        using Cons.prems assms(3) by auto
      then obtain e where "rmapM (runtime_connection fo table) xs = Inl e"
        using Cons.IH by blast
      then show ?thesis
        using Inr by simp
    qed simp
  qed simp
  then show ?thesis
    using assms(1,2) by (simp add: get_persisted_runtime_connections_def)
qed

text \<open>A profile is given exactly where it is enabled and assigned to the instance or to something the caller acts as.\<close>

lemma resolve_profile_iff:
  "resolve_profile i uid model scopes rows = Some b \<longleftrightarrow> (\<exists>p. get_profile i rows = Some p \<and> tp_enabled p \<and> b = tp_bundle p
     \<and> (\<exists>a\<in>set (tp_assignments p). \<exists>s x. od_get a ''scope_type'' = Some s \<and> od_get a ''scope_id'' = Some x
          \<and> od_get (principals_of uid model scopes) s = Some x))"
proof -
  have "assigned ps a \<longleftrightarrow> (\<exists>s x. od_get a ''scope_type'' = Some s \<and> od_get a ''scope_id'' = Some x \<and> od_get ps s = Some x)" for ps a
    by (auto simp: assigned_def split: option.splits)
  then show ?thesis
    by (auto simp: resolve_profile_def list_ex_iff split: option.splits)
qed

end
