(* ===== verification/Retrieval.thy ===== *)
theory Retrieval
  imports Py_Value "HOL-Library.Multiset"
begin

text \<open>
  What becomes of retrieved and of prepared chunks: the merging of query results in
  \<^verbatim>\<open>backend/openlaunch/retrieval/utils.py\<close> and of small chunks in \<^verbatim>\<open>routers/retrieval.py\<close>. The hash of a text and the
  gauge of its size (characters or tokens) are parameters; distances are finite.
\<close>

section \<open>Query results\<close>

record query_result =
  qr_distances :: "rat list list"
  qr_documents :: "pv list list"
  qr_metadatas :: "pv list list"

record get_result =
  gt_documents :: "pv list list"
  gt_metadatas :: "pv list list"
  gt_ids :: "pv list list"

text \<open>\<^verbatim>\<open>xs[0]\<close>\<close>

definition first_of :: "'a list \<Rightarrow> 'a res" where
  "first_of xs = (case xs of [] \<Rightarrow> Inl IndexError | x # _ \<Rightarrow> Inr x)"

definition merge_get_results :: "get_result list \<Rightarrow> get_result res" where
  "merge_get_results rs =
     rmap (\<lambda>(ds, ms, is). \<lparr>gt_documents = [ds], gt_metadatas = [ms], gt_ids = [is]\<rparr>)
       (rfoldM (\<lambda>(ds, ms, is) r.
          rbind (first_of (gt_documents r)) (\<lambda>d.
          rbind (first_of (gt_metadatas r)) (\<lambda>m.
          rbind (first_of (gt_ids r)) (\<lambda>i. Inr (ds @ d, ms @ m, is @ i))))) ([], [], []) rs)"

text \<open>A result of a query as distance, text and metadata; \<^verbatim>\<open>combined\<close> keeps one for each hash.\<close>

type_synonym hit = "rat \<times> string \<times> pv"

definition note_hit :: "(string \<Rightarrow> string) \<Rightarrow> rat \<times> pv \<times> pv \<Rightarrow> (string, hit) od \<Rightarrow> (string, hit) od" where
  "note_hit hash e c = (case e of (sc, PStr s, m) \<Rightarrow>
       (case od_get c (hash s) of
          None \<Rightarrow> od_set (hash s) (sc, s, m) c
        | Some old \<Rightarrow> (if sc > fst old then od_set (hash s) (sc, s, m) c else c))
     | _ \<Rightarrow> c)"

definition hits_of :: "query_result \<Rightarrow> (rat \<times> pv \<times> pv) list" where
  "hits_of r = (if qr_distances r = [] \<or> qr_documents r = [] \<or> qr_metadatas r = [] then []
     else zip (hd (qr_distances r)) (zip (hd (qr_documents r)) (hd (qr_metadatas r))))"

definition combine_hits :: "(string \<Rightarrow> string) \<Rightarrow> query_result list \<Rightarrow> (string, hit) od" where
  "combine_hits hash rs = fold (note_hit hash) (concat (map hits_of rs)) []"

text \<open>\<^verbatim>\<open>xs[:k]\<close>\<close>

definition up_to :: "int \<Rightarrow> 'a list \<Rightarrow> 'a list" where
  "up_to k xs = (if k \<ge> 0 then take (nat k) xs else take (length xs - nat (- k)) xs)"

definition merge_and_sort_query_results :: "(string \<Rightarrow> string) \<Rightarrow> query_result list \<Rightarrow> int \<Rightarrow> query_result res" where
  "merge_and_sort_query_results hash rs k =
     (let combined = sort_key (\<lambda>x. - fst x) (map snd (combine_hits hash rs));
          best = up_to k combined in
      if combined \<noteq> [] \<and> best = [] then Inl (ValueError ''not enough values to unpack (expected 3, got 0)'')
      else Inr \<lparr>qr_distances = [map fst best], qr_documents = [map (\<lambda>x. PStr (fst (snd x))) best],
                qr_metadatas = [map (\<lambda>x. snd (snd x)) best]\<rparr>)"

section \<open>Chunks\<close>

record chunk =
  dc_content :: string
  dc_meta :: pdict

definition can_merge_chunks :: "chunk \<Rightarrow> chunk \<Rightarrow> bool" where
  "can_merge_chunks a b =
     (if od_getd (dc_meta a) ''source'' PNone \<noteq> od_getd (dc_meta b) ''source'' PNone then False
      else (let fa = od_getd (dc_meta a) ''file_id'' PNone; fb = od_getd (dc_meta b) ''file_id'' PNone in
        if fa \<noteq> PNone \<and> fb \<noteq> PNone then fa = fb else True))"

definition joined :: "string \<Rightarrow> string \<Rightarrow> string" where
  "joined a b = a @ nl @ nl @ b"

definition merge_backward :: "(string \<Rightarrow> int) \<Rightarrow> int \<Rightarrow> chunk list \<Rightarrow> string \<Rightarrow> chunk \<Rightarrow> chunk list option" where
  "merge_backward gauge max_size result content c =
     (if result = [] then None
      else (let prev = last result; merged = joined (dc_content prev) content in
        if \<not> can_merge_chunks prev c then None
        else if gauge merged > max_size then None
        else Some (butlast result @ [\<lparr>dc_content = merged, dc_meta = dc_meta prev\<rparr>])))"

definition emit :: "(string \<Rightarrow> int) \<Rightarrow> int \<Rightarrow> int \<Rightarrow> chunk list \<Rightarrow> string \<Rightarrow> chunk \<Rightarrow> chunk list" where
  "emit gauge min_size max_size result content c =
     (case (if gauge content < min_size then merge_backward gauge max_size result content c else None) of
        Some r \<Rightarrow> r
      | None \<Rightarrow> result @ [\<lparr>dc_content = content, dc_meta = dc_meta c\<rparr>])"

definition can_merge_forward :: "(string \<Rightarrow> int) \<Rightarrow> int \<Rightarrow> int \<Rightarrow> chunk \<Rightarrow> string \<Rightarrow> chunk \<Rightarrow> bool" where
  "can_merge_forward gauge min_size max_size cur content c =
     (can_merge_chunks cur c \<and> gauge content < min_size \<and> gauge (joined content (dc_content c)) \<le> max_size)"

fun merge_loop :: "(string \<Rightarrow> int) \<Rightarrow> int \<Rightarrow> int \<Rightarrow> chunk list \<Rightarrow> chunk \<Rightarrow> string \<Rightarrow> chunk list \<Rightarrow> chunk list" where
  "merge_loop gauge mn mx result cur content [] = emit gauge mn mx result content cur"
| "merge_loop gauge mn mx result cur content (c # cs) =
     (if can_merge_forward gauge mn mx cur content c then merge_loop gauge mn mx result cur (joined content (dc_content c)) cs
      else merge_loop gauge mn mx (emit gauge mn mx result content cur) c (dc_content c) cs)"

definition merge_docs_to_target_size :: "(string \<Rightarrow> int) \<Rightarrow> int \<Rightarrow> int \<Rightarrow> chunk list \<Rightarrow> chunk list" where
  "merge_docs_to_target_size gauge mn mx chunks =
     (if mn \<le> 0 then chunks
      else (case chunks of [] \<Rightarrow> [] | c # cs \<Rightarrow> merge_loop gauge mn mx [] c (dc_content c) cs))"

section \<open>The best results\<close>

definition text_hits :: "query_result list \<Rightarrow> hit set" where
  "text_hits rs = {(d, s, m). (d, PStr s, m) \<in> set (concat (map hits_of rs))}"

text \<open>What \<^verbatim>\<open>combined\<close> holds after some results: the best one of each text.\<close>

definition best_kept :: "(string \<Rightarrow> string) \<Rightarrow> (rat \<times> pv \<times> pv) list \<Rightarrow> (string, hit) od \<Rightarrow> bool" where
  "best_kept hash es c \<longleftrightarrow> od_ok c
     \<and> (\<forall>j d s m. od_get c j = Some (d, s, m) \<longrightarrow> j = hash s \<and> (d, PStr s, m) \<in> set es)
     \<and> (\<forall>d s m. (d, PStr s, m) \<in> set es \<longrightarrow> (\<exists>d' s' m'. od_get c (hash s) = Some (d', s', m') \<and> d' \<ge> d))"

lemma best_keptD: "best_kept hash es c \<Longrightarrow> (d, PStr s, m) \<in> set es \<Longrightarrow> \<exists>d' s' m'. od_get c (hash s) = Some (d', s', m') \<and> d' \<ge> d"
  unfolding best_kept_def by blast

lemma best_kept_entry: "best_kept hash es c \<Longrightarrow> od_get c j = Some (d, s, m) \<Longrightarrow> j = hash s \<and> (d, PStr s, m) \<in> set es"
  by (simp add: best_kept_def)

lemma best_kept_note:
  assumes "best_kept hash es c"
  shows "best_kept hash (es @ [e]) (note_hit hash e c)"
proof (cases e)
  case (fields sc doc m)
  show ?thesis
  proof (cases "\<exists>s. doc = PStr s")
    case False
    then have "note_hit hash e c = c"
      by (cases doc) (simp_all add: note_hit_def fields)
    moreover have "(d, PStr s, m') \<noteq> e" for d s m'
      using False fields by auto
    ultimately show ?thesis
      using assms unfolding best_kept_def by auto
  next
    case True
    then obtain s where doc: "doc = PStr s" by blast
    show ?thesis
    proof (cases "\<exists>old. od_get c (hash s) = Some old \<and> sc \<le> fst old")
      case True
      then obtain d0 s0 m0 where old: "od_get c (hash s) = Some (d0, s0, m0)" "sc \<le> d0" by auto
      then have "note_hit hash e c = c"
        by (simp add: note_hit_def fields doc)
      moreover have "\<exists>d' s' m'. od_get c (hash t) = Some (d', s', m') \<and> d' \<ge> d" if "(d, PStr t, n) \<in> set (es @ [e])" for d t n
      proof (cases "(d, PStr t, n) \<in> set es")
        case True
        then show ?thesis
          using best_keptD [OF assms] by blast
      next
        case False
        then show ?thesis
          using that old by (auto simp: fields doc)
      qed
      moreover have "set es \<subseteq> set (es @ [e])"
        by auto
      ultimately show ?thesis
        using assms unfolding best_kept_def by (metis (no_types, lifting) subsetD)
    next
      case False
      then have new: "note_hit hash e c = od_set (hash s) (sc, s, m) c"
        by (auto simp: note_hit_def fields doc split: option.split)
      show ?thesis
        unfolding best_kept_def new
      proof (intro conjI allI impI)
        show "od_ok (od_set (hash s) (sc, s, m) c)"
          using assms by (simp add: best_kept_def)
      next
        fix j d s' m'
        assume "od_get (od_set (hash s) (sc, s, m) c) j = Some (d, s', m')"
        then have "j = hash s \<and> d = sc \<and> s' = s \<and> m' = m \<or> od_get c j = Some (d, s', m')"
          by (auto split: if_splits)
        then show "j = hash s'" "(d, PStr s', m') \<in> set (es @ [e])"
          using assms by (auto simp: best_kept_def fields doc)
      next
        fix d s' m'
        assume "(d, PStr s', m') \<in> set (es @ [e])"
        then consider "(d, PStr s', m') \<in> set es" | "d = sc" "s' = s"
          by (auto simp: fields doc)
        then show "\<exists>d' s'' m''. od_get (od_set (hash s) (sc, s, m) c) (hash s') = Some (d', s'', m'') \<and> d \<le> d'"
        proof cases
          case 1
          then obtain d' s'' m'' where "od_get c (hash s') = Some (d', s'', m'')" "d \<le> d'"
            using best_keptD [OF assms] by blast
          then show ?thesis
            using False by (cases "hash s' = hash s") force+
        qed simp
      qed
    qed
  qed
qed

lemma best_kept_fold: "best_kept hash es c \<Longrightarrow> best_kept hash (es @ xs) (fold (note_hit hash) xs c)"
proof (induction xs arbitrary: es c)
  case (Cons x xs)
  show ?case
    using Cons.IH [OF best_kept_note [OF Cons.prems, of x]] by simp
qed simp

lemma combined_best: "best_kept hash (concat (map hits_of rs)) (combine_hits hash rs)"
  using best_kept_fold [of hash "[]" "[]" "concat (map hits_of rs)"] by (simp add: combine_hits_def best_kept_def)

text \<open>The merged results: the best hits of the given ones, each text once, in descending order, as many as asked for.\<close>

definition best_hits :: "query_result list \<Rightarrow> nat \<Rightarrow> hit list \<Rightarrow> bool" where
  "best_hits rs k best \<longleftrightarrow> set best \<subseteq> text_hits rs \<and> distinct (map (\<lambda>x. fst (snd x)) best)
     \<and> sorted_wrt (\<lambda>x y. fst x \<ge> fst y) best
     \<and> (\<forall>(d, s, m)\<in>text_hits rs. (\<exists>(d', s', m')\<in>set best. s' = s \<and> d' \<ge> d)
          \<or> length best = k \<and> (\<forall>x\<in>set best. fst x \<ge> d))"

definition result_of :: "hit list \<Rightarrow> query_result" where
  "result_of best = \<lparr>qr_distances = [map fst best], qr_documents = [map (\<lambda>x. PStr (fst (snd x))) best],
     qr_metadatas = [map (\<lambda>x. snd (snd x)) best]\<rparr>"

lemma combined_hits:
  fixes hash rs
  defines "hits \<equiv> map snd (combine_hits hash rs)"
  assumes "inj_on hash {s. \<exists>d m. (d, s, m) \<in> text_hits rs}"
  shows "set hits \<subseteq> text_hits rs" and "distinct (map (\<lambda>x. fst (snd x)) hits)"
    and "(d, s, m) \<in> text_hits rs \<Longrightarrow> \<exists>d' m'. (d', s, m') \<in> set hits \<and> d' \<ge> d"
proof -
  let ?c = "combine_hits hash rs"
  note best = combined_best [of hash rs]
  have ok: "distinct (map fst ?c)"
    using best by (simp add: best_kept_def od_ok_def)
  have entry: "j = hash s \<and> (d, s, m) \<in> text_hits rs" if "(j, d, s, m) \<in> set ?c" for j d s m
    using best_kept_entry [OF best, of j d s m] that ok by (simp add: text_hits_def)
  show "set hits \<subseteq> text_hits rs"
    using entry by (auto simp: hits_def)
  have "map fst ?c = map hash (map (\<lambda>x. fst (snd x)) hits)"
    using entry by (auto simp: hits_def)
  then show "distinct (map (\<lambda>x. fst (snd x)) hits)"
    using ok by (metis distinct_map)
  assume given: "(d, s, m) \<in> text_hits rs"
  then obtain d' s' m' where found: "od_get ?c (hash s) = Some (d', s', m')" "d' \<ge> d"
    using best_keptD [OF best, of d s m] by (auto simp: text_hits_def)
  then have "hash s = hash s'" "(d', s', m') \<in> text_hits rs"
    using best_kept_entry [OF best found(1)] by (auto simp: text_hits_def)
  then have "s' = s"
    using inj_onD [OF assms(2)] given by blast
  moreover have "(d', s', m') \<in> set hits"
    using map_of_SomeD [OF found(1)] by (force simp: hits_def)
  ultimately show "\<exists>d' m'. (d', s, m') \<in> set hits \<and> d' \<ge> d"
    using found(2) by blast
qed

lemma sorted_desc: "sorted_wrt (\<lambda>x y. fst x \<ge> fst y) (sort_key (\<lambda>x. - fst x) (xs :: hit list))"
proof -
  have "sorted (map (\<lambda>x. - fst x) (sort_key (\<lambda>x. - fst x) xs))"
    by (rule sorted_sort_key)
  then show ?thesis
    by (simp add: sorted_wrt_map)
qed

lemma best_hits_take:
  assumes "inj_on hash {s. \<exists>d m. (d, s, m) \<in> text_hits rs}"
  shows "best_hits rs k (take k (sort_key (\<lambda>x. - fst x) (map snd (combine_hits hash rs))))"
proof -
  let ?hits = "map snd (combine_hits hash rs)" and ?all = "sort_key (\<lambda>x. - fst x) (map snd (combine_hits hash rs))"
  note hits = combined_hits [OF assms]
  have perm: "set ?all = set ?hits" "mset ?all = mset ?hits"
    by simp_all
  have "distinct (map (\<lambda>x. fst (snd x)) ?all)"
    using hits(2) by (metis mset_map perm(2) mset_eq_imp_distinct_iff)
  then have "distinct (map (\<lambda>x. fst (snd x)) (take k ?all))"
    by (simp add: take_map [symmetric] distinct_take)
  moreover have "set (take k ?all) \<subseteq> text_hits rs"
    using set_take_subset [of k ?all] hits(1) perm(1) by blast
  moreover have "sorted_wrt (\<lambda>x y. fst x \<ge> fst y) (take k ?all)"
    using sorted_desc by (rule sorted_wrt_take)
  moreover have "(\<exists>(d', s', m')\<in>set (take k ?all). s' = s \<and> d' \<ge> d) \<or> length (take k ?all) = k \<and> (\<forall>x\<in>set (take k ?all). fst x \<ge> d)"
    if given: "(d, s, m) \<in> text_hits rs" for d s m
  proof -
    obtain d' m' where found: "(d', s, m') \<in> set ?all" "d' \<ge> d"
      using hits(3) [OF given] perm(1) by auto
    show ?thesis
    proof (cases "(d', s, m') \<in> set (take k ?all)")
      case True
      then show ?thesis
        using found(2) by blast
    next
      case False
      have "?all = take k ?all @ drop k ?all"
        by simp
      then have rest: "(d', s, m') \<in> set (drop k ?all)"
        using False found(1) by (metis Un_iff set_append)
      then have "length (take k ?all) = k"
        by (cases "k \<le> length ?all") auto
      moreover have "sorted_wrt (\<lambda>x y. fst x \<ge> fst y) (take k ?all @ drop k ?all)"
        using sorted_desc [of ?hits] by simp
      then have "fst x \<ge> d'" if "x \<in> set (take k ?all)" for x
        using that rest unfolding sorted_wrt_append by force
      ultimately show ?thesis
        using found(2) by fastforce
    qed
  qed
  ultimately show ?thesis
    unfolding best_hits_def by blast
qed

text \<open>Merging query results keeps the best: each text once, with its highest score, in descending order, as many as asked for.\<close>

theorem merged_results_best:
  assumes "inj_on hash {s. \<exists>d m. (d, s, m) \<in> text_hits rs}" and "k > 0"
  shows "\<exists>best. merge_and_sort_query_results hash rs k = Inr (result_of best) \<and> best_hits rs (nat k) best"
proof -
  let ?all = "sort_key (\<lambda>x. - fst x) (map snd (combine_hits hash rs))"
  have "up_to k ?all = take (nat k) ?all" "?all \<noteq> [] \<Longrightarrow> take (nat k) ?all \<noteq> []"
    using assms(2) by (simp_all add: up_to_def)
  then have "merge_and_sort_query_results hash rs k = Inr (result_of (take (nat k) ?all))"
    unfolding merge_and_sort_query_results_def Let_def result_of_def by auto
  then show ?thesis
    using best_hits_take [OF assms(1)] by blast
qed

section \<open>Merged chunks\<close>

abbreviation source_of :: "chunk \<Rightarrow> pv" where
  "source_of c \<equiv> od_getd (dc_meta c) ''source'' PNone"

abbreviation file_of :: "chunk \<Rightarrow> pv" where
  "file_of c \<equiv> od_getd (dc_meta c) ''file_id'' PNone"

definition whole_text :: "chunk list \<Rightarrow> string" where
  "whole_text p = py_join (nl @ nl) (map dc_content p)"

definition merged_chunk :: "chunk list \<Rightarrow> chunk" where
  "merged_chunk p = \<lparr>dc_content = whole_text p, dc_meta = dc_meta (hd p)\<rparr>"

text \<open>Chunks that may be one: within the limit, of one source, and of one file if all name their file.\<close>

definition part_ok :: "(string \<Rightarrow> int) \<Rightarrow> int \<Rightarrow> chunk list \<Rightarrow> bool" where
  "part_ok gauge mx p \<longleftrightarrow> p \<noteq> [] \<and> (length p = 1 \<or> gauge (whole_text p) \<le> mx)
     \<and> (\<forall>c\<in>set p. source_of c = source_of (hd p))
     \<and> ((\<forall>c\<in>set p. file_of c \<noteq> PNone) \<longrightarrow> (\<forall>c\<in>set p. file_of c = file_of (hd p)))"

lemma py_join_append:
  "xs \<noteq> [] \<Longrightarrow> ys \<noteq> [] \<Longrightarrow> py_join sep (xs @ ys) = py_join sep xs @ sep @ py_join sep ys"
  by (induction sep xs rule: py_join.induct) (auto simp: neq_Nil_conv)

lemma whole_append: "p \<noteq> [] \<Longrightarrow> q \<noteq> [] \<Longrightarrow> whole_text (p @ q) = joined (whole_text p) (whole_text q)"
  by (simp add: whole_text_def joined_def py_join_append)

lemma whole_single [simp]: "whole_text [c] = dc_content c"
  by (simp add: whole_text_def)

lemma part_single [simp]: "part_ok gauge mx [c]"
  by (simp add: part_ok_def)

lemma can_merge_iff:
  "can_merge_chunks a b \<longleftrightarrow> source_of a = source_of b \<and> (file_of a = PNone \<or> file_of b = PNone \<or> file_of a = file_of b)"
  unfolding can_merge_chunks_def Let_def by presburger

lemma part_source: "part_ok gauge mx p \<Longrightarrow> c \<in> set p \<Longrightarrow> source_of c = source_of (hd p)"
  unfolding part_ok_def by blast

lemma part_file: "part_ok gauge mx p \<Longrightarrow> \<forall>c\<in>set p. file_of c \<noteq> PNone \<Longrightarrow> c \<in> set p \<Longrightarrow> file_of c = file_of (hd p)"
  unfolding part_ok_def by blast

lemma part_append:
  assumes "part_ok gauge mx p" and "part_ok gauge mx q" and "can_merge_chunks (hd p) (hd q)"
    and "gauge (joined (whole_text p) (whole_text q)) \<le> mx"
  shows "part_ok gauge mx (p @ q)"
proof -
  have ne: "p \<noteq> []" "q \<noteq> []"
    using assms by (auto simp: part_ok_def)
  have source: "source_of (hd q) = source_of (hd p)"
    and fid: "file_of (hd p) \<noteq> PNone \<Longrightarrow> file_of (hd q) \<noteq> PNone \<Longrightarrow> file_of (hd q) = file_of (hd p)"
    using assms(3) unfolding can_merge_iff by metis+
  show ?thesis
    unfolding part_ok_def
  proof (intro conjI impI)
    show "p @ q \<noteq> []" "length (p @ q) = 1 \<or> gauge (whole_text (p @ q)) \<le> mx"
      using assms(4) ne by (simp_all add: whole_append)
    show "\<forall>c\<in>set (p @ q). source_of c = source_of (hd (p @ q))"
    proof
      fix c
      assume "c \<in> set (p @ q)"
      then consider "c \<in> set p" | "c \<in> set q"
        by auto
      then have "source_of c = source_of (hd p)"
      proof cases
        case 1
        show ?thesis
          by (rule part_source [OF assms(1) 1])
      next
        case 2
        have "source_of c = source_of (hd q)"
          by (rule part_source [OF assms(2) 2])
        then show ?thesis
          using source by (rule trans)
      qed
      then show "source_of c = source_of (hd (p @ q))"
        unfolding hd_append2 [OF ne(1)] .
    qed
    assume "\<forall>c\<in>set (p @ q). file_of c \<noteq> PNone"
    then have p: "\<forall>c\<in>set p. file_of c \<noteq> PNone" and q: "\<forall>c\<in>set q. file_of c \<noteq> PNone"
      by auto
    have all: "\<forall>c\<in>set p. file_of c = file_of (hd p)" "\<forall>c\<in>set q. file_of c = file_of (hd q)"
      using part_file [OF assms(1) p] part_file [OF assms(2) q] by blast+
    have "file_of (hd p) \<noteq> PNone" "file_of (hd q) \<noteq> PNone"
      using p q hd_in_set ne by blast+
    then have "file_of (hd q) = file_of (hd p)"
      by (rule fid)
    then show "\<forall>c\<in>set (p @ q). file_of c = file_of (hd (p @ q))"
      using all unfolding hd_append2 [OF ne(1)] set_append ball_Un by metis
  qed
qed

text \<open>Output that the given chunks have become\<close>

definition made_of :: "(string \<Rightarrow> int) \<Rightarrow> int \<Rightarrow> chunk list \<Rightarrow> chunk list \<Rightarrow> bool" where
  "made_of gauge mx chunks out \<longleftrightarrow> (\<exists>parts. concat parts = chunks \<and> out = map merged_chunk parts \<and> list_all (part_ok gauge mx) parts)"

lemma emit_made:
  assumes made: "made_of gauge mx done_chunks result" and p: "part_ok gauge mx p" "hd p = cur" "whole_text p = content"
  shows "made_of gauge mx (done_chunks @ p) (emit gauge mn mx result content cur)"
proof -
  obtain parts where parts: "concat parts = done_chunks" "result = map merged_chunk parts" "list_all (part_ok gauge mx) parts"
    using made by (auto simp: made_of_def)
  have plain: "made_of gauge mx (done_chunks @ p) (result @ [\<lparr>dc_content = content, dc_meta = dc_meta cur\<rparr>])"
    unfolding made_of_def using parts p by (intro exI [of _ "parts @ [p]"]) (simp add: merged_chunk_def)
  show ?thesis
  proof (cases "gauge content < mn")
    case False
    then show ?thesis
      using plain by (simp add: emit_def)
  next
    case True
    show ?thesis
    proof (cases "merge_backward gauge mx result content cur")
      case None
      then show ?thesis
        using True plain by (simp add: emit_def)
    next
      case (Some r)
      then have ne: "result \<noteq> []" and can: "can_merge_chunks (last result) cur"
        and fits: "gauge (joined (dc_content (last result)) content) \<le> mx"
        and r: "r = butlast result @ [\<lparr>dc_content = joined (dc_content (last result)) content, dc_meta = dc_meta (last result)\<rparr>]"
        by (auto simp: merge_backward_def Let_def split: if_splits)
      obtain ps q where pq: "parts = ps @ [q]"
        using ne parts(2) by (cases parts rule: rev_cases) auto
      then have last: "last result = merged_chunk q" and q: "part_ok gauge mx q" and first: "butlast result = map merged_chunk ps"
        using parts by (simp_all add: butlast_append)
      have qne: "q \<noteq> []" "p \<noteq> []"
        using q p(1) by (auto simp: part_ok_def)
      have "can_merge_chunks (hd q) (hd p)"
        using can last p(2) by (simp add: can_merge_chunks_def merged_chunk_def Let_def split: if_splits)
      then have "part_ok gauge mx (q @ p)"
        using fits last p by (intro part_append [OF q p(1)]) (simp_all add: merged_chunk_def)
      moreover have "r = map merged_chunk (ps @ [q @ p])"
        unfolding r first last using p qne by (simp add: merged_chunk_def whole_append)
      ultimately have "made_of gauge mx (done_chunks @ p) r"
        unfolding made_of_def using parts pq by (intro exI [of _ "ps @ [q @ p]"]) auto
      then show ?thesis
        using True Some by (simp add: emit_def)
    qed
  qed
qed

lemma merge_loop_made:
  assumes "made_of gauge mx done_chunks result" and "part_ok gauge mx p" "hd p = cur" "whole_text p = content"
  shows "made_of gauge mx (done_chunks @ p @ cs) (merge_loop gauge mn mx result cur content cs)"
  using assms
proof (induction cs arbitrary: done_chunks result p cur content)
  case Nil
  then show ?case
    by (simp add: emit_made)
next
  case (Cons c cs)
  show ?case
  proof (cases "can_merge_forward gauge mn mx cur content c")
    case True
    have "p \<noteq> []"
      using Cons.prems(2) by (simp add: part_ok_def)
    moreover have "part_ok gauge mx (p @ [c])"
      using True Cons.prems by (intro part_append) (simp_all add: can_merge_forward_def)
    ultimately have "made_of gauge mx (done_chunks @ (p @ [c]) @ cs) (merge_loop gauge mn mx result cur (joined content (dc_content c)) cs)"
      using Cons.prems by (intro Cons.IH) (simp_all add: whole_append)
    then show ?thesis
      using True by simp
  next
    case False
    have "made_of gauge mx ((done_chunks @ p) @ [c] @ cs) (merge_loop gauge mn mx (emit gauge mn mx result content cur) c (dc_content c) cs)"
      using emit_made [OF Cons.prems] by (intro Cons.IH) simp_all
    then show ?thesis
      using False by simp
  qed
qed

lemma merge_docs_made:
  "made_of gauge mx chunks (merge_docs_to_target_size gauge mn mx chunks)"
proof (cases "mn \<le> 0 \<or> chunks = []")
  case True
  have "concat (map (\<lambda>c. [c]) chunks) = chunks" "map merged_chunk (map (\<lambda>c. [c]) chunks) = chunks"
    by (induction chunks) (simp_all add: merged_chunk_def)
  then have "made_of gauge mx chunks chunks"
    unfolding made_of_def by (intro exI [of _ "map (\<lambda>c. [c]) chunks"]) (simp add: list_all_iff)
  then show ?thesis
    using True by (auto simp: merge_docs_to_target_size_def)
next
  case False
  then obtain c cs where "chunks = c # cs" "\<not> mn \<le> 0"
    by (auto simp: neq_Nil_conv)
  moreover have "made_of gauge mx ([] @ [c] @ cs) (merge_loop gauge mn mx [] c (dc_content c) cs)"
    by (rule merge_loop_made) (simp_all add: made_of_def)
  ultimately show ?thesis
    by (simp add: merge_docs_to_target_size_def)
qed

lemma merged_text_kept: "whole_text (merge_docs_to_target_size gauge mn mx chunks) = whole_text chunks"
proof -
  obtain parts where parts: "concat parts = chunks" "merge_docs_to_target_size gauge mn mx chunks = map merged_chunk parts"
      "list_all (part_ok gauge mx) parts"
    using merge_docs_made [of gauge mx chunks mn] by (auto simp: made_of_def)
  have "whole_text (map merged_chunk ps) = whole_text (concat ps)" if "list_all (part_ok gauge mx) ps" for ps
    using that
  proof (induction ps)
    case (Cons p ps)
    then have "p \<noteq> []"
      by (simp add: part_ok_def)
    show ?case
    proof (cases "ps = []")
      case False
      then have "concat ps \<noteq> []"
        using Cons.prems by (cases ps) (auto simp: part_ok_def)
      moreover have "whole_text (map merged_chunk (p # ps)) = joined (whole_text p) (whole_text (map merged_chunk ps))"
        using whole_append [of "[merged_chunk p]" "map merged_chunk ps"] False by (simp add: merged_chunk_def)
      ultimately show ?thesis
        using Cons \<open>p \<noteq> []\<close> by (simp add: whole_append)
    qed (simp add: merged_chunk_def)
  qed simp
  then show ?thesis
    using parts by simp
qed

text \<open>C23 Preparing chunks for the vector store loses and reorders nothing: the text of all chunks is kept, every chunk that
  comes out is a run of given chunks with the metadata of the first, and a run of more than one is within the size
  limit, of a single source, and of a single file if all of its chunks name their file.\<close>

theorem merged_chunks_exact:
  "made_of gauge mx chunks (merge_docs_to_target_size gauge mn mx chunks)
   \<and> whole_text (merge_docs_to_target_size gauge mn mx chunks) = whole_text chunks"
  using merge_docs_made merged_text_kept by blast

text \<open>A chunk that does not name its file lets chunks of two files become one.\<close>

definition unnamed_first :: "chunk list" where
  "unnamed_first = map (\<lambda>(t, f). \<lparr>dc_content = t, dc_meta = (''source'', PStr ''page'') # f\<rparr>)
     [(''a'', []), (''b'', [(''file_id'', PStr ''f1'')]), (''c'', [(''file_id'', PStr ''f2'')])]"

lemma files_can_mix:
  "map dc_content (merge_docs_to_target_size (\<lambda>s. int (length s)) 100 1000 unnamed_first) = [''a'' @ nl @ nl @ ''b'' @ nl @ nl @ ''c'']"
  by code_simp

text \<open>No result at all is asked for: with results at hand the code raises.\<close>

lemma none_wanted_raises:
  "combine_hits hash rs \<noteq> [] \<Longrightarrow> \<exists>e. merge_and_sort_query_results hash rs 0 = Inl e"
proof -
  assume "combine_hits hash rs \<noteq> []"
  then have "length (sort_key (\<lambda>x. - fst x) (map snd (combine_hits hash rs))) \<noteq> 0"
    by simp
  then have "sort_key (\<lambda>x. - fst x) (map snd (combine_hits hash rs)) \<noteq> []"
    unfolding length_0_conv .
  then show ?thesis
    by (simp add: merge_and_sort_query_results_def up_to_def)
qed

definition two_queries :: "query_result list" where
  "two_queries = [\<lparr>qr_distances = [[1 / 2, 1 / 4]], qr_documents = [[PStr ''a'', PStr ''b'']], qr_metadatas = [[PInt 1, PInt 2]]\<rparr>,
     \<lparr>qr_distances = [[3 / 4]], qr_documents = [[PStr ''b'']], qr_metadatas = [[PInt 3]]\<rparr>]"

lemma merged_results_best_witness:
  "merge_and_sort_query_results (\<lambda>s. s) two_queries 1 = Inr (result_of [(3 / 4, ''b'', PInt 3)]) \<and>
   (\<exists>best. merge_and_sort_query_results (\<lambda>s. s) two_queries 1 = Inr (result_of best) \<and> best_hits two_queries (nat 1) best)"
proof
  show "merge_and_sort_query_results (\<lambda>s. s) two_queries 1 = Inr (result_of [(3 / 4, ''b'', PInt 3)])"
    by code_simp
  show "\<exists>best. merge_and_sort_query_results (\<lambda>s. s) two_queries 1 = Inr (result_of best) \<and> best_hits two_queries (nat 1) best"
    by (rule merged_results_best) (simp_all add: inj_on_def)
qed

end
