(* ===== verification/Sources.thy ===== *)
theory Sources
  imports Access_Checks Chat_Messages
begin

text \<open>
  What a chat may retrieve from: \<^verbatim>\<open>filter_accessible_collections\<close> and \<^verbatim>\<open>get_sources_from_items\<close> of
  \<^verbatim>\<open>backend/openlaunch/retrieval/utils.py\<close> with the check of the endpoints in \<^verbatim>\<open>routers/retrieval.py\<close>. The items
  come from the client. The tables are those of \<open>file_env\<close> with notes and chats; the vector store, external knowledge
  bases and the content of a page are parameters.
\<close>

section \<open>What is read\<close>

record note_row =
  no_id :: string
  no_owner :: string
  no_title :: string
  no_data :: pv

record stored_chat =
  sc_id :: string
  sc_owner :: string
  sc_title :: string
  sc_chat :: pdict

record source_env =
  so_tables :: file_env
  so_notes :: "note_row list"
  so_chats :: "stored_chat list"
  so_unscoped :: bool
  so_bypass_access :: bool
  so_bypass_retrieval :: bool
  so_float :: "rat \<Rightarrow> string"
  so_page :: "pv \<Rightarrow> (pv \<times> pv) res"
  so_external :: "string \<Rightarrow> pdict option res"
  so_query :: "pv list \<Rightarrow> pdict option res"

section \<open>Collections\<close>

definition safe_char :: "char \<Rightarrow> bool" where
  "safe_char c = (let n = (of_char c :: nat) in
     48 \<le> n \<and> n \<le> 57 \<or> 65 \<le> n \<and> n \<le> 90 \<or> 97 \<le> n \<and> n \<le> 122 \<or> c = CHR ''_'' \<or> c = CHR ''-'')"

text \<open>\<^verbatim>\<open>^[A-Za-z0-9_-]{1,255}$\<close>: the dollar also matches before a line break at the end.\<close>

definition matches_safe :: "string \<Rightarrow> bool" where
  "matches_safe s = (let body = (if s \<noteq> [] \<and> last s = CHR 0x0A then butlast s else s) in
     body \<noteq> [] \<and> length body \<le> 255 \<and> list_all safe_char body)"

definition is_safe_collection_name :: "pv \<Rightarrow> bool" where
  "is_safe_collection_name v = (case v of PStr s \<Rightarrow> matches_safe s | _ \<Rightarrow> False)"

definition name_admitted :: "source_env \<Rightarrow> kb_caller \<Rightarrow> string \<Rightarrow> string \<Rightarrow> bool" where
  "name_admitted env user perm name =
     (if name = ''knowledge-bases'' then False
      else if py_startswith name ''file-'' then has_access_to_file (so_tables env) (drop 5 name) perm (kc_id user)
      else if py_startswith name ''user-memory-'' then name = ''user-memory-'' @ kc_id user
      else if py_startswith name ''web-search-'' then True
      else if check_access_by_user_id (so_tables env) name (kc_id user) perm then True
      else so_unscoped env \<and> get_knowledge_by_id (fe_kbs (so_tables env)) name = None)"

definition filter_accessible_collections :: "source_env \<Rightarrow> kb_caller \<Rightarrow> string \<Rightarrow> pv list \<Rightarrow> pv list" where
  "filter_accessible_collections env user perm names =
     (let safe = filter is_safe_collection_name names in
      if kc_role user = ''admin'' then safe
      else filter (\<lambda>v. case v of PStr s \<Rightarrow> name_admitted env user perm s | _ \<Rightarrow> False) safe)"

definition validate_collection_access :: "source_env \<Rightarrow> kb_caller \<Rightarrow> string \<Rightarrow> string list \<Rightarrow> unit res" where
  "validate_collection_access env user perm names =
     (if set (map PStr names) - set (filter_accessible_collections env user perm (map PStr names)) \<noteq> {}
      then Inl (HTTPException 403 ''Access prohibited'') else Inr ())"

section \<open>Items\<close>

text \<open>What an item leads to: a result found at once, names of collections to search, and bases that need not be searched again\<close>

record lookup =
  lk_result :: "pdict option"
  lk_names :: pv
  lk_extracted :: "pv list"

definition at_once :: "pdict \<Rightarrow> lookup" where
  "at_once d = \<lparr>lk_result = Some d, lk_names = PList [], lk_extracted = []\<rparr>"

definition in_collections :: "pv \<Rightarrow> lookup" where
  "in_collections names = \<lparr>lk_result = None, lk_names = names, lk_extracted = []\<rparr>"

definition no_lookup :: lookup where
  "no_lookup = in_collections (PList [])"

definition one_document :: "pv \<Rightarrow> pv \<Rightarrow> pdict" where
  "one_document content meta = [(''documents'', PList [PList [content]]), (''metadatas'', PList [PList [meta]])]"

definition item_get :: "pdict \<Rightarrow> string \<Rightarrow> pv" where
  "item_get item k = od_getd item k PNone"

definition item_file_result :: "pdict \<Rightarrow> pdict res" where
  "item_file_result item =
     (let f = od_getd item ''file'' (PDict []) in
      rbind (pget f ''data'' (PDict [])) (\<lambda>d. rbind (pget d ''content'' PNone) (\<lambda>c. rbind (pget f ''meta'' (PDict [])) (\<lambda>m.
        Inr (one_document c m)))))"

definition named_meta :: "pv \<Rightarrow> pv \<Rightarrow> pv" where
  "named_meta i name = PDict [(''file_id'', i), (''name'', name)]"

definition text_item :: "pdict \<Rightarrow> lookup res" where
  "text_item item =
     (if item_get item ''context'' = PStr ''full'' \<and> truthy (item_get item ''file'') then rmap at_once (item_file_result item)
      else if truthy (item_get item ''collection_name'') then Inr (in_collections (PList [item_get item ''collection_name'']))
      else if truthy (item_get item ''file'') then rmap at_once (item_file_result item)
      else Inr (at_once (one_document (item_get item ''content'') (named_meta (item_get item ''id'') (item_get item ''name'')))))"

definition note_readable :: "source_env \<Rightarrow> kb_caller \<Rightarrow> note_row \<Rightarrow> bool" where
  "note_readable env user n = (kc_role user = ''admin'' \<or> no_owner n = kc_id user
     \<or> grants_has_access (fe_groups (so_tables env)) (fe_grants (so_tables env)) (kc_id user) ''note'' (no_id n) ''read'' None)"

definition note_item :: "source_env \<Rightarrow> kb_caller \<Rightarrow> pdict \<Rightarrow> lookup res" where
  "note_item env user item = (case List.find (\<lambda>n. PStr (no_id n) = item_get item ''id'') (so_notes env) of
      None \<Rightarrow> Inr no_lookup
    | Some n \<Rightarrow>
       (if note_readable env user n
        then rbind (pget (no_data n) ''content'' (PDict [])) (\<lambda>c. rbind (pget c ''md'' (PStr [])) (\<lambda>md.
          Inr (at_once (one_document md (named_meta (PStr (no_id n)) (PStr (no_title n)))))))
        else Inr no_lookup))"

definition capitalize :: "string \<Rightarrow> string" where
  "capitalize s = (case s of [] \<Rightarrow> [] | c # r \<Rightarrow> upper_char c # py_lower r)"

definition message_lines :: "(rat \<Rightarrow> string) \<Rightarrow> pv \<Rightarrow> string res" where
  "message_lines f m =
     rbind (pget m ''role'' (PStr ''user'')) (\<lambda>r. rbind (pstr r) (\<lambda>role. rbind (pget m ''content'' PNone) (\<lambda>c.
       Inr (''#### '' @ capitalize role @ nl @ py_str f c @ nl))))"

text \<open>\<^verbatim>\<open>get_message_list\<close> always returns, so the last case does not occur.\<close>

definition message_history :: "(rat \<Rightarrow> string) \<Rightarrow> pv \<Rightarrow> pv \<Rightarrow> string res" where
  "message_history f messages i = (case get_message_list messages i of
      Some r \<Rightarrow> rbind r (\<lambda>ms. rmap (py_join nl) (rmapM (message_lines f) ms))
    | None \<Rightarrow> Inl RecursionError)"

definition chat_readable :: "kb_caller \<Rightarrow> stored_chat \<Rightarrow> bool" where
  "chat_readable user c = (kc_role user = ''admin'' \<or> sc_owner c = kc_id user)"

definition chat_item :: "source_env \<Rightarrow> kb_caller \<Rightarrow> pdict \<Rightarrow> lookup res" where
  "chat_item env user item = (case List.find (\<lambda>c. PStr (sc_id c) = item_get item ''id'') (so_chats env) of
      None \<Rightarrow> Inr no_lookup
    | Some c \<Rightarrow>
       (if chat_readable user c
        then (let h = od_getd (sc_chat c) ''history'' (PDict []) in
          rbind (pget h ''messages'' (PDict [])) (\<lambda>messages. rbind (pget h ''currentId'' PNone) (\<lambda>i.
            if truthy messages \<and> truthy i
            then rmap (\<lambda>t. at_once (one_document (PStr t) (named_meta (PStr (sc_id c)) (PStr (sc_title c))))) (message_history (so_float env) messages i)
            else Inr no_lookup)))
        else Inr no_lookup))"

definition url_item :: "source_env \<Rightarrow> pdict \<Rightarrow> lookup res" where
  "url_item env item =
     (let url = item_get item ''url'' in
      rbind (so_page env url) (\<lambda>(content, docs).
        Inr (if truthy docs then at_once (one_document content (PDict [(''url'', url), (''name'', url)])) else no_lookup)))"

definition file_readable :: "source_env \<Rightarrow> kb_caller \<Rightarrow> file_row \<Rightarrow> bool" where
  "file_readable env user f = (kc_role user = ''admin'' \<or> fl_user f = kc_id user
     \<or> has_access_to_file (so_tables env) (fl_id f) ''read'' (kc_id user))"

definition find_file :: "source_env \<Rightarrow> pv \<Rightarrow> file_row option" where
  "find_file env i = (case i of PStr s \<Rightarrow> get_file_by_id (fe_files (so_tables env)) s | _ \<Rightarrow> None)"

definition stored_content :: "file_row \<Rightarrow> pv res" where
  "stored_content f = (case fl_data f of None \<Rightarrow> Inl AttributeError | Some s \<Rightarrow> Inr (PStr s))"

definition file_meta :: "pv \<Rightarrow> file_row \<Rightarrow> pv" where
  "file_meta i f = PDict [(''file_id'', i), (''name'', PStr (fl_name f)), (''source'', PStr (fl_name f))]"

definition legacy_name :: "source_env \<Rightarrow> pdict \<Rightarrow> pv \<Rightarrow> pv" where
  "legacy_name env item i =
     (if truthy (item_get item ''legacy'') then PStr (py_str (so_float env) i) else PStr (''file-'' @ py_str (so_float env) i))"

text \<open>The content that a file item carries itself, with its metadata\<close>

definition carried_content :: "pdict \<Rightarrow> pv res" where
  "carried_content item =
     rbind (pget (od_getd item ''file'' (PDict [])) ''data'' (PDict [])) (\<lambda>d. pget d ''content'' (PStr []))"

definition carried_result :: "pdict \<Rightarrow> pdict res" where
  "carried_result item =
     rbind (carried_content item) (\<lambda>c.
     rbind (pget (item_get item ''file'') ''data'' (PDict [])) (\<lambda>d. rbind (pget d ''metadata'' (PDict [])) (\<lambda>m.
       case m of PDict md \<Rightarrow> Inr (one_document c (PDict (od_merge [(''file_id'', item_get item ''id''), (''name'', item_get item ''name'')] md)))
       | _ \<Rightarrow> Inl TypeError)))"

definition file_item :: "source_env \<Rightarrow> kb_caller \<Rightarrow> pdict \<Rightarrow> lookup res" where
  "file_item env user item =
     (let i = item_get item ''id'' in
      if item_get item ''context'' = PStr ''full'' \<or> so_bypass_retrieval env
      then rbind (carried_content item) (\<lambda>c.
        if truthy c then rmap at_once (carried_result item)
        else if truthy i then (case find_file env i of
            None \<Rightarrow> Inr no_lookup
          | Some f \<Rightarrow> (if file_readable env user f then rmap (\<lambda>t. at_once (one_document t (file_meta i f))) (stored_content f)
              else Inr no_lookup))
        else Inr no_lookup)
      else if \<not> truthy i then Inr no_lookup
      else if so_bypass_access env then Inr (in_collections (PList [legacy_name env item i]))
      else (case find_file env i of
          None \<Rightarrow> Inr no_lookup
        | Some f \<Rightarrow> Inr (if file_readable env user f then in_collections (PList [legacy_name env item i]) else no_lookup)))"

definition base_readable :: "source_env \<Rightarrow> kb_caller \<Rightarrow> kb_row \<Rightarrow> bool" where
  "base_readable env user k = (kc_role user = ''admin'' \<or> kb_owner k = kc_id user
     \<or> grants_has_access (fe_groups (so_tables env)) (fe_grants (so_tables env)) (kc_id user) ''knowledge'' (kb_id k) ''read'' None)"

definition get_files_by_id :: "file_env \<Rightarrow> string \<Rightarrow> file_row list" where
  "get_files_by_id t kb = concat (map (\<lambda>l. case get_file_by_id (fe_files t) (kf_file l) of None \<Rightarrow> [] | Some f \<Rightarrow> [f])
     (filter (\<lambda>l. kf_kb l = kb) (kt_links (fe_kbs t))))"

definition all_files_result :: "file_row list \<Rightarrow> pdict res" where
  "all_files_result fs = rmap (\<lambda>cs. [(''documents'', PList [PList cs]), (''metadatas'', PList [PList (map (\<lambda>f. file_meta (PStr (fl_id f)) f) fs)])])
     (rmapM stored_content fs)"

text \<open>The names that a client gives for an old knowledge base are kept where they are those of its own files.\<close>

definition legacy_names :: "source_env \<Rightarrow> pdict \<Rightarrow> kb_row \<Rightarrow> pv res" where
  "legacy_names env item k =
     (let owned = PStr (kb_id k) # map (\<lambda>f. PStr (''file-'' @ fl_id f)) (get_files_by_id (so_tables env) (kb_id k)) in
      rbind (piter (py_or (item_get item ''collection_names'') (PList []))) (\<lambda>ns.
      rmap (\<lambda>valid. PList (if valid \<noteq> [] then valid else [PStr (kb_id k)]))
        (rfilterM (\<lambda>n. rmap (\<lambda>h. h \<in> set owned) (hash_key n)) ns)))"

definition find_base :: "source_env \<Rightarrow> pv \<Rightarrow> kb_row option" where
  "find_base env i = (case i of PStr s \<Rightarrow> get_knowledge_by_id (fe_kbs (so_tables env)) s | _ \<Rightarrow> None)"

definition collection_item :: "source_env \<Rightarrow> kb_caller \<Rightarrow> pdict \<Rightarrow> lookup res" where
  "collection_item env user item = (case find_base env (item_get item ''id'') of
      None \<Rightarrow> Inr no_lookup
    | Some k \<Rightarrow>
       (if \<not> base_readable env user k then Inr no_lookup
        else if kb_external k
        then rmap (\<lambda>r. \<lparr>lk_result = r, lk_names = PList [], lk_extracted = [PStr (kb_id k)]\<rparr>) (so_external env (kb_id k))
        else if item_get item ''context'' = PStr ''full'' \<or> so_bypass_retrieval env
        then (if base_readable env user k then rmap at_once (all_files_result (get_files_by_id (so_tables env) (kb_id k))) else Inr no_lookup)
        else if truthy (item_get item ''legacy'')
        then (if so_bypass_access env then Inr (in_collections (od_getd item ''collection_names'' (PList [])))
              else rmap in_collections (legacy_names env item k))
        else Inr (in_collections (PList [item_get item ''id'']))))"

definition docs_item :: "pdict \<Rightarrow> lookup res" where
  "docs_item item =
     rbind (piter (item_get item ''docs'')) (\<lambda>ds.
     rbind (rmapM (\<lambda>d. pget d ''content'' PNone) ds) (\<lambda>cs.
     rbind (rmapM (\<lambda>d. pget d ''metadata'' PNone) ds) (\<lambda>ms.
       Inr (at_once [(''documents'', PList [PList cs]), (''metadatas'', PList [PList ms])]))))"

definition untyped_item :: "source_env \<Rightarrow> pdict \<Rightarrow> lookup res" where
  "untyped_item env item =
     (if truthy (item_get item ''docs'') then docs_item item
      else if item_get item ''type'' = PStr ''web_search'' \<and> truthy (item_get item ''collection_name'')
      then Inr (in_collections (PList [item_get item ''collection_name'']))
      else if truthy (item_get item ''collection_name'')
      then Inr (if so_bypass_access env then in_collections (PList [item_get item ''collection_name'']) else no_lookup)
      else if truthy (item_get item ''collection_names'') \<and> so_bypass_access env
      then rmap (\<lambda>ns. in_collections (PList ns)) (piter (item_get item ''collection_names''))
      else Inr no_lookup)"

definition look_up :: "source_env \<Rightarrow> kb_caller \<Rightarrow> pdict \<Rightarrow> lookup res" where
  "look_up env user item =
     (let ty = item_get item ''type'' in
      if ty = PStr ''text'' then text_item item
      else if ty = PStr ''note'' then note_item env user item
      else if ty = PStr ''chat'' then chat_item env user item
      else if ty = PStr ''url'' then url_item env item
      else if ty = PStr ''file'' then file_item env user item
      else if ty = PStr ''collection'' then collection_item env user item
      else untyped_item env item)"

section \<open>All items\<close>

text \<open>The set of the names that are not searched yet; \<^verbatim>\<open>set(...)\<close> hashes them.\<close>

definition new_names :: "pv list \<Rightarrow> pv \<Rightarrow> pv list res" where
  "new_names extracted v =
     rbind (piter v) (\<lambda>ns. rmap (\<lambda>hs. filter (\<lambda>h. h \<notin> set extracted) (dedup hs)) (rmapM hash_key ns))"

record source_state =
  ss_extracted :: "pv list"
  ss_results :: "pdict list"

text \<open>\<^verbatim>\<open>if query_result\<close>: a result is kept with its item\<close>

definition keep_result :: "pdict \<Rightarrow> pdict option \<Rightarrow> source_state \<Rightarrow> source_state" where
  "keep_result item r st = (case r of
      None \<Rightarrow> st
    | Some d \<Rightarrow> (if d = [] then st else st\<lparr>ss_results := ss_results st @ [od_set ''file'' (PDict (od_del ''data'' item)) d]\<rparr>))"

definition search_names :: "source_env \<Rightarrow> kb_caller \<Rightarrow> pdict \<Rightarrow> pv list \<Rightarrow> source_state \<Rightarrow> source_state" where
  "search_names env user item names st =
     (let allowed = filter_accessible_collections env user ''read'' names in
      if names = [] \<or> allowed = [] then st
      else keep_result item (case so_query env allowed of Inl e \<Rightarrow> None | Inr r \<Rightarrow> r)
             (st\<lparr>ss_extracted := ss_extracted st @ allowed\<rparr>))"

definition collect_item :: "source_env \<Rightarrow> kb_caller \<Rightarrow> source_state \<Rightarrow> pdict \<Rightarrow> source_state res" where
  "collect_item env user st item =
     rbind (look_up env user item) (\<lambda>l.
       let st' = st\<lparr>ss_extracted := ss_extracted st @ lk_extracted l\<rparr> in
       if lk_result l = None \<and> truthy (lk_names l)
       then rmap (\<lambda>names. search_names env user item names st') (new_names (ss_extracted st') (lk_names l))
       else Inr (keep_result item (lk_result l) st'))"

text \<open>The last loop: a result without documents or metadata is left out, as is one whose first entry is missing.\<close>

definition pfirst :: "pv \<Rightarrow> pv option" where
  "pfirst v = (case v of PList (x # _) \<Rightarrow> Some x | PStr (c # _) \<Rightarrow> Some (PStr [c]) | _ \<Rightarrow> None)"

definition source_from :: "pdict \<Rightarrow> pdict option" where
  "source_from d =
     (if \<not> od_has d ''documents'' \<or> \<not> od_has d ''metadatas'' then None
      else (case (pfirst (od_getd d ''documents'' PNone), pfirst (od_getd d ''metadatas'' PNone)) of
          (Some doc, Some meta) \<Rightarrow>
            (let s = [(''source'', od_getd d ''file'' PNone), (''document'', doc), (''metadata'', meta)]; ds = od_getd d ''distances'' PNone in
             if truthy ds then map_option (\<lambda>x. s @ [(''distances'', x)]) (pfirst ds) else Some s)
        | _ \<Rightarrow> None))"

definition get_sources_from_items :: "source_env \<Rightarrow> kb_caller \<Rightarrow> pdict list \<Rightarrow> pdict list res" where
  "get_sources_from_items env user items =
     rmap (\<lambda>st. List.map_filter source_from (ss_results st))
       (rfoldM (collect_item env user) \<lparr>ss_extracted = [], ss_results = []\<rparr> items)"

section \<open>What a user cannot see\<close>

definition hide_note :: "source_env \<Rightarrow> kb_caller \<Rightarrow> note_row \<Rightarrow> note_row" where
  "hide_note env user n = (if note_readable env user n then n else n\<lparr>no_title := [], no_data := PNone\<rparr>)"

definition hide_chat :: "kb_caller \<Rightarrow> stored_chat \<Rightarrow> stored_chat" where
  "hide_chat user c = (if chat_readable user c then c else c\<lparr>sc_title := [], sc_chat := []\<rparr>)"

definition hide_file :: "source_env \<Rightarrow> kb_caller \<Rightarrow> file_row \<Rightarrow> file_row" where
  "hide_file env user f = (if file_readable env user f then f else f\<lparr>fl_name := [], fl_hash := None, fl_path := [], fl_data := None\<rparr>)"

definition collection_admitted :: "source_env \<Rightarrow> kb_caller \<Rightarrow> pv \<Rightarrow> bool" where
  "collection_admitted env user v = (is_safe_collection_name v \<and> (kc_role user = ''admin'' \<or> name_admitted env user ''read'' (case_option [] id (as_str v))))"

text \<open>Everything out of the user's reach blanked: notes, chats, files, external bases and collections\<close>

definition blanked :: "source_env \<Rightarrow> kb_caller \<Rightarrow> source_env" where
  "blanked env user = env\<lparr>so_tables := (so_tables env)\<lparr>fe_files := map (hide_file env user) (fe_files (so_tables env))\<rparr>,
     so_notes := map (hide_note env user) (so_notes env), so_chats := map (hide_chat user) (so_chats env),
     so_external := (\<lambda>i. if \<exists>k\<in>set (kt_bases (fe_kbs (so_tables env))). kb_id k = i \<and> base_readable env user k then so_external env i
       else Inl RecursionError),
     so_query := (\<lambda>ns. if list_all (collection_admitted env user) ns then so_query env ns else Inl RecursionError)\<rparr>"

lemma get_file_map:
  "(\<And>f. fl_id (g f) = fl_id f) \<Longrightarrow> get_file_by_id (map g fs) i = map_option g (get_file_by_id fs i)"
  unfolding get_file_by_id_def by (induction fs) simp_all

lemma granted_files [simp]: "granted (t\<lparr>fe_files := fs\<rparr>) = granted t"
  by (simp add: granted_def user_groups_def fun_eq_iff)

lemma bases_files [simp]: "get_knowledge_bases_by_user_id (t\<lparr>fe_files := fs\<rparr>) = get_knowledge_bases_by_user_id t"
  by (simp add: get_knowledge_bases_by_user_id_def fun_eq_iff)

lemma check_files [simp]: "check_access_by_user_id (t\<lparr>fe_files := fs\<rparr>) = check_access_by_user_id t"
  by (simp add: check_access_by_user_id_def fun_eq_iff split: option.split)

lemma channels_files [simp]: "get_channels_by_file_id_and_user_id (t\<lparr>fe_files := fs\<rparr>) = get_channels_by_file_id_and_user_id t"
  by (simp add: get_channels_by_file_id_and_user_id_def channel_admits_def [abs_def] fun_eq_iff Let_def)

lemma chats_files [simp]: "get_shared_chat_ids_by_file_id (t\<lparr>fe_files := fs\<rparr>) = get_shared_chat_ids_by_file_id t"
  by (simp add: get_shared_chat_ids_by_file_id_def fun_eq_iff)

lemma file_access_map:
  assumes "\<And>f. fl_id (g f) = fl_id f" and "\<And>f. fl_user (g f) = fl_user f" and "\<And>f. fl_meta (g f) = fl_meta f"
  shows "has_access_to_file (t\<lparr>fe_files := map g (fe_files t)\<rparr>) = has_access_to_file t"
proof (intro ext)
  fix i perm uid
  show "has_access_to_file (t\<lparr>fe_files := map g (fe_files t)\<rparr>) i perm uid = has_access_to_file t i perm uid"
    by (cases "get_file_by_id (fe_files t) i")
      (simp_all add: has_access_to_file_def user_groups_def get_file_map [OF assms(1)] assms(2,3))
qed

lemma hide_file_same [simp]:
  "fl_id (hide_file env user f) = fl_id f" "fl_user (hide_file env user f) = fl_user f" "fl_meta (hide_file env user f) = fl_meta f"
  by (simp_all add: hide_file_def)

lemma blanked_fields [simp]:
  "fe_kbs (so_tables (blanked env user)) = fe_kbs (so_tables env)"
  "fe_groups (so_tables (blanked env user)) = fe_groups (so_tables env)"
  "fe_grants (so_tables (blanked env user)) = fe_grants (so_tables env)"
  "so_unscoped (blanked env user) = so_unscoped env" "so_bypass_access (blanked env user) = so_bypass_access env"
  "so_bypass_retrieval (blanked env user) = so_bypass_retrieval env" "so_float (blanked env user) = so_float env"
  "so_page (blanked env user) = so_page env"
  "has_access_to_file (so_tables (blanked env user)) = has_access_to_file (so_tables env)"
  "check_access_by_user_id (so_tables (blanked env user)) = check_access_by_user_id (so_tables env)"
  by (simp_all add: blanked_def file_access_map)

lemma blanked_readable [simp]:
  "note_readable (blanked env user) u n = note_readable env u n" "file_readable (blanked env user) u f = file_readable env u f"
  "base_readable (blanked env user) u k = base_readable env u k" "name_admitted (blanked env user) u p s = name_admitted env u p s"
  by (simp_all add: note_readable_def file_readable_def base_readable_def name_admitted_def)

lemma blanked_filter [simp]:
  "filter_accessible_collections (blanked env user) u p ns = filter_accessible_collections env u p ns"
  unfolding filter_accessible_collections_def blanked_readable by (rule refl)

lemma hidden_readable:
  "note_readable env user n \<Longrightarrow> hide_note env user n = n" "chat_readable user c \<Longrightarrow> hide_chat user c = c"
  "file_readable env user f \<Longrightarrow> hide_file env user f = f"
  by (simp_all add: hide_note_def hide_chat_def hide_file_def)

lemma find_map: "(\<And>x. P (g x) = P x) \<Longrightarrow> List.find P (map g xs) = map_option g (List.find P xs)"
  by (induction xs) simp_all

lemma note_item_blanked: "note_item (blanked env user) user item = note_item env user item"
proof -
  have "List.find (\<lambda>n. PStr (no_id n) = i) (so_notes (blanked env user))
      = map_option (hide_note env user) (List.find (\<lambda>n. PStr (no_id n) = i) (so_notes env))" for i
    unfolding blanked_def by (simp add: find_map hide_note_def)
  moreover have "note_readable env user (hide_note env user n) = note_readable env user n" for n
    by (simp add: hide_note_def note_readable_def)
  ultimately show ?thesis
    unfolding note_item_def blanked_readable
    by (cases "List.find (\<lambda>n. PStr (no_id n) = item_get item ''id'') (so_notes env)") (simp_all add: hidden_readable)
qed

lemma chat_item_blanked: "chat_item (blanked env user) user item = chat_item env user item"
proof -
  have "List.find (\<lambda>c. PStr (sc_id c) = i) (so_chats (blanked env user))
      = map_option (hide_chat user) (List.find (\<lambda>c. PStr (sc_id c) = i) (so_chats env))" for i
    unfolding blanked_def by (simp add: find_map hide_chat_def)
  note find = this
  show ?thesis
  proof (cases "List.find (\<lambda>c. PStr (sc_id c) = item_get item ''id'') (so_chats env)")
    case None
    then show ?thesis
      by (simp add: chat_item_def find)
  next
    case (Some c)
    show ?thesis
    proof (cases "chat_readable user c")
      case True
      have "hide_chat user c = c"
        using True by (rule hidden_readable)
      then show ?thesis
        unfolding chat_item_def find Some option.map blanked_fields by (simp only:)
    next
      case False
      then have "\<not> chat_readable user (hide_chat user c)"
        by (simp add: hide_chat_def chat_readable_def)
      with False show ?thesis
        by (simp add: chat_item_def find Some)
    qed
  qed
qed

lemma blanked_file: "get_file_by_id (fe_files (so_tables (blanked env user))) i = map_option (hide_file env user) (get_file_by_id (fe_files (so_tables env)) i)"
  by (simp add: blanked_def get_file_map)

lemma file_readable_hidden: "file_readable env user (hide_file env user f) = file_readable env user f"
  by (simp add: file_readable_def)

lemma find_file_blanked: "find_file (blanked env user) i = map_option (hide_file env user) (find_file env i)"
  by (cases i) (simp_all add: find_file_def blanked_file)

lemma file_item_blanked: "file_item (blanked env user) user item = file_item env user item"
proof -
  have "legacy_name (blanked env user) item i = legacy_name env item i" for i
    by (simp add: legacy_name_def)
  then show ?thesis
    by (cases "find_file env (item_get item ''id'')")
      (simp_all add: file_item_def find_file_blanked file_readable_hidden hidden_readable Let_def cong: if_cong)
qed

text \<open>The files of a readable base are readable one by one.\<close>

lemma base_files_readable:
  assumes "find_base env i = Some k" and "base_readable env user k" and "f \<in> set (get_files_by_id (so_tables env) (kb_id k))"
  shows "file_readable env user f"
proof -
  obtain l where l: "l \<in> set (kt_links (fe_kbs (so_tables env)))" "kf_kb l = kb_id k"
      and f: "get_file_by_id (fe_files (so_tables env)) (kf_file l) = Some f"
    using assms(3) by (auto simp: get_files_by_id_def split: option.splits)
  then have i: "fl_id f = kf_file l"
    unfolding get_file_by_id_def by (auto simp: find_Some_iff)
  have "k \<in> set (kt_bases (fe_kbs (so_tables env)))"
    using assms(1) by (cases i) (auto simp: find_base_def get_knowledge_by_id_def find_Some_iff)
  then have k: "k \<in> set (get_knowledges_by_file_id (fe_kbs (so_tables env)) (fl_id f))"
    using l i by (auto simp: linked_bases)
  show ?thesis
  proof (cases "kc_role user = ''admin''")
    case False
    then have "kb_owner k = kc_id user \<or> granted (so_tables env) (kc_id user) ''knowledge'' (kb_id k) ''read''"
      using assms(2) by (simp add: base_readable_def granted_iff grants_has_access_iff resolve_groups_def user_groups_def)
    then have "has_access_to_file (so_tables env) (fl_id f) ''read'' (kc_id user)"
      using k f i by (auto simp: has_access_to_file_def list_ex_iff)
    then show ?thesis
      by (simp add: file_readable_def)
  qed (simp add: file_readable_def)
qed

lemma base_files_blanked:
  assumes "find_base env i = Some k" and "base_readable env user k"
  shows "get_files_by_id (so_tables (blanked env user)) (kb_id k) = get_files_by_id (so_tables env) (kb_id k)"
proof -
  have one: "(case map_option (hide_file env user) m of None \<Rightarrow> [] | Some f \<Rightarrow> [f]) = map (hide_file env user) (case m of None \<Rightarrow> [] | Some f \<Rightarrow> [f])" for m
    by (cases m) simp_all
  have "get_files_by_id (so_tables (blanked env user)) (kb_id k) = map (hide_file env user) (get_files_by_id (so_tables env) (kb_id k))"
    unfolding get_files_by_id_def blanked_file one map_concat map_map comp_def by simp
  also have "\<dots> = map (\<lambda>f. f) (get_files_by_id (so_tables env) (kb_id k))"
    using base_files_readable [OF assms] by (intro map_cong) (simp_all add: hidden_readable)
  finally show ?thesis
    by simp
qed

lemma collection_item_blanked: "collection_item (blanked env user) user item = collection_item env user item"
proof -
  have base: "find_base (blanked env user) i = find_base env i" for i
    by (cases i) (simp_all add: find_base_def)
  show ?thesis
  proof (cases "find_base env (item_get item ''id'')")
    case None
    then show ?thesis
      by (simp add: collection_item_def base)
  next
    case (Some k)
    show ?thesis
    proof (cases "base_readable env user k")
      case False
      then show ?thesis
        using Some by (simp add: collection_item_def base)
    next
      case True
      note files = base_files_blanked [OF Some True]
      have "k \<in> set (kt_bases (fe_kbs (so_tables env)))"
        using Some by (cases "item_get item ''id''") (auto simp: find_base_def get_knowledge_by_id_def find_Some_iff)
      then have external: "so_external (blanked env user) (kb_id k) = so_external env (kb_id k)"
        using True by (auto simp: blanked_def)
      show ?thesis
        using Some True by (simp add: collection_item_def base files external legacy_names_def)
    qed
  qed
qed

lemma look_up_blanked: "look_up (blanked env user) user item = look_up env user item"
  unfolding look_up_def url_item_def untyped_item_def blanked_fields
    note_item_blanked chat_item_blanked file_item_blanked collection_item_blanked by (rule refl)

lemma filtered_admitted: "list_all (collection_admitted env user) (filter_accessible_collections env user ''read'' ns)"
  unfolding list_all_iff filter_accessible_collections_def Let_def
  by (auto simp: collection_admitted_def split: pv.splits)

lemma search_blanked: "search_names (blanked env user) user item ns st = search_names env user item ns st"
proof -
  have "so_query (blanked env user) (filter_accessible_collections env user ''read'' ns)
      = so_query env (filter_accessible_collections env user ''read'' ns)"
    using filtered_admitted by (simp add: blanked_def)
  then show ?thesis
    unfolding search_names_def blanked_filter Let_def by (simp only:)
qed


section \<open>The check of the endpoints\<close>

lemma filtered_iff:
  "v \<in> set (filter_accessible_collections env user ''read'' ns) \<longleftrightarrow> v \<in> set ns \<and> collection_admitted env user v"
  by (cases v) (auto simp: filter_accessible_collections_def collection_admitted_def is_safe_collection_name_def Let_def)

text \<open>A request over several collections is let through exactly if each of them may be read.\<close>

theorem validate_exact:
  "validate_collection_access env user ''read'' names = Inr () \<longleftrightarrow> list_all (\<lambda>s. collection_admitted env user (PStr s)) names"
  by (auto simp: validate_collection_access_def list_all_iff filtered_iff)

text \<open>A line break at the end passes for a safe name.\<close>

lemma line_break_passes: "is_safe_collection_name (PStr (''web-search-x'' @ nl))"
  by code_simp

end
