(* ===== verification/Spec2Isabelle.thy ===== *)
theory Spec2Isabelle
  imports Group_Table Access_Grants Permissions Folders Tool_Executor Tool_Protocol Rate_Limit Tasks
    Redis_State Host_Filter Stream_Chunks Sanitize Chat_Output Context_Compaction
    Sql_Policy Secret_Resolver Ollama_Answers Anthropic_Stream Anthropic_Requests Anthropic_Answers
    Task_Templates Payload Kb_Access Response_Events Output_Stream Access_Checks
    Automations Control_Plane Retrieval Sources
begin

text \<open>
  A model of the backend of OpenLaunch, \<^verbatim>\<open>src/backend/openlaunch\<close>, and the properties that hold
  of it.

  \<^bold>\<open>The program.\<close> OpenLaunch is a chat workspace over language-model providers. A request passes
  from an endpoint (\<^verbatim>\<open>routers/\<close>) through checks of access (\<^verbatim>\<open>utils/access_control\<close>,
  \<^verbatim>\<open>models/access_grants.py\<close>, \<^verbatim>\<open>models/groups.py\<close>) into the pipeline of
  \<^verbatim>\<open>utils/middleware.py\<close>, which reads the branch of a stored history (\<^verbatim>\<open>utils/misc.py\<close>),
  rebuilds messages from stored output, pairs tool calls with their results, compacts what is
  too long (\<^verbatim>\<open>utils/context_compaction.py\<close>), calls the model, splits the answer's stream,
  executes the tools it asks for (\<^verbatim>\<open>utils/tool_executor.py\<close>) and adds up the usage
  (\<^verbatim>\<open>utils/response.py\<close>). Several processes share state over Redis (\<^verbatim>\<open>socket/utils.py\<close>,
  \<^verbatim>\<open>tasks.py\<close>, \<^verbatim>\<open>utils/rate_limit.py\<close>).

  \<^bold>\<open>The library.\<close>

  \<^item> \<^verbatim>\<open>Prelude\<close>: exceptions as the left values of a sum, their sequencing (\<open>rbind\<close>, \<open>rmapM\<close>,
    \<open>rfoldM\<close>, the post-condition \<open>rpost\<close>) and the insertion-ordered dictionary \<open>od\<close>, with the
    collections \<open>res_simps\<close> and \<open>dict_simps\<close>.
  \<^item> \<^verbatim>\<open>Py_Value\<close>: the dynamically typed values \<open>pv\<close>, truth, \<^verbatim>\<open>.get\<close>, indexing and iteration with
    the exceptions they raise, the string methods, \<^verbatim>\<open>str\<close>, \<^verbatim>\<open>repr\<close>, \<^verbatim>\<open>int\<close> and \<^verbatim>\<open>float\<close>.
    \<^verbatim>\<open>Json\<close>: \<^verbatim>\<open>json.dumps\<close> and \<^verbatim>\<open>json.loads\<close> with their round trip. \<^verbatim>\<open>Fnmatch\<close>:
    \<^verbatim>\<open>fnmatch.fnmatchcase\<close>. \<^verbatim>\<open>Text_Scan\<close>: replacement in texts and scanning for patterns.
    \<^verbatim>\<open>Effects\<close>: programs over a state that emit events and may raise. These six are the
    language and its library; they map to no file.
  \<^item> \<^verbatim>\<open>Interfaces\<close>: the contracts \<open>group_directory\<close> (what access control needs of groups) and
    \<open>grant_store\<close> (what the deletion of folders needs of grants). \<^verbatim>\<open>Group_Table\<close> and
    \<^verbatim>\<open>Access_Grants\<close> interpret them on the models of the tables.
  \<^item> \<^verbatim>\<open>Group_Table\<close> is \<^verbatim>\<open>models/groups.py\<close>; \<^verbatim>\<open>Access_Grants\<close> is \<^verbatim>\<open>models/access_grants.py\<close>;
    \<^verbatim>\<open>Permissions\<close> is the permission trees of \<^verbatim>\<open>utils/access_control/__init__.py\<close>; \<^verbatim>\<open>Folders\<close> is
    \<^verbatim>\<open>models/folders.py\<close>, \<^verbatim>\<open>utils/access_control/folders.py\<close> and the handlers of
    \<^verbatim>\<open>routers/folders.py\<close> that move and delete; \<^verbatim>\<open>Access_Checks\<close> is the rest of
    \<^verbatim>\<open>utils/access_control\<close>: configured grants, sharing, models and their bases, files. A table is the list of its rows; an operation
    maps the committed rows to the next ones and names what the caller sees; a constraint the
    database refuses is the error \<open>IntegrityError\<close> with the transaction undone.
  \<^item> \<^verbatim>\<open>Tool_Executor\<close> is \<^verbatim>\<open>utils/tool_executor.py\<close>: annotations, breaker, quotas and budgets as
    functions, a batch as the step relation \<open>batch_step\<close> over the interleavings of its calls, with
    an executable run \<open>execute_batch\<close> of the results. \<^verbatim>\<open>Tool_Protocol\<close> is
    \<^verbatim>\<open>utils/tool_protocol.py\<close>. \<^verbatim>\<open>Sql_Policy\<close> is \<^verbatim>\<open>tools/sql_policy.py\<close>; \<^verbatim>\<open>Secret_Resolver\<close> is
    \<^verbatim>\<open>utils/secret_resolver.py\<close>.
  \<^item> \<^verbatim>\<open>Chat_Messages\<close>, \<^verbatim>\<open>Chat_Output\<close>, \<^verbatim>\<open>Stream_Chunks\<close>, \<^verbatim>\<open>Sanitize\<close> and \<^verbatim>\<open>Host_Filter\<close> are
    parts of \<^verbatim>\<open>utils/misc.py\<close>; \<^verbatim>\<open>Tool_Pairs\<close> holds its \<^verbatim>\<open>reconcile_tool_pairs\<close> and
    \<^verbatim>\<open>sanitize_tool_pairs\<close> of \<^verbatim>\<open>utils/middleware.py\<close>, both instances of the locale \<open>pairing\<close>;
    \<^verbatim>\<open>Context_Compaction\<close> is \<^verbatim>\<open>utils/context_compaction.py\<close>; \<^verbatim>\<open>Usage\<close> and \<^verbatim>\<open>Ollama_Answers\<close>
    are \<^verbatim>\<open>utils/response.py\<close> with the templates of \<^verbatim>\<open>utils/misc.py\<close>.
  \<^item> \<^verbatim>\<open>Anthropic_Stream\<close>, \<^verbatim>\<open>Anthropic_Requests\<close> and \<^verbatim>\<open>Anthropic_Answers\<close> are
    \<^verbatim>\<open>utils/anthropic.py\<close>: a chat completion's stream as events of the Messages API, requests and
    responses in both directions, the event stream as chat-completion chunks. \<^verbatim>\<open>Payload\<close> is
    \<^verbatim>\<open>utils/payload.py\<close> (model parameters, requests for Ollama); \<^verbatim>\<open>Task_Templates\<close> is
    \<^verbatim>\<open>utils/task.py\<close> (the prompts of background tasks).
  \<^item> \<^verbatim>\<open>Kb_Directories\<close> is the directories and file links of \<^verbatim>\<open>models/knowledge.py\<close> with their
    endpoints in \<^verbatim>\<open>routers/knowledge.py\<close>; \<^verbatim>\<open>Kb_Sync\<close> is the comparison with a local folder and the
    clean-up after it; \<^verbatim>\<open>Kb_Commands\<close>, \<^verbatim>\<open>Kb_Shell\<close> and \<^verbatim>\<open>Kb_Access\<close> are
    \<^verbatim>\<open>tools/knowledge_fs.py\<close>: the command language, the commands, and what they cannot reveal.
  \<^item> \<^verbatim>\<open>Response_Events\<close> is what builds the items of a streamed answer in \<^verbatim>\<open>utils/middleware.py\<close> from
    the events of the Responses API, with the calls that are taken from them; \<^verbatim>\<open>Output_Stream\<close> does
    the same from the deltas of a chat completion: the pieces of calls, the reasoning sent apart and the
    text with its tags (\<^verbatim>\<open>tag_output_handler\<close> and the loop of \<^verbatim>\<open>stream_body_handler\<close>).
  \<^item> \<^verbatim>\<open>Automations\<close> is \<^verbatim>\<open>models/automations.py\<close> with its endpoints, the schedules and the execution
    of \<^verbatim>\<open>utils/automations.py\<close> and the expansion of recurring events. \<^verbatim>\<open>Control_Plane\<close> is
    \<^verbatim>\<open>models/control_plane.py\<close> with its endpoints: data connections, tool profiles, audits.
  \<^item> \<^verbatim>\<open>Retrieval\<close> is the merging of query results (\<^verbatim>\<open>retrieval/utils.py\<close>) and of small chunks
    (\<^verbatim>\<open>routers/retrieval.py\<close>); \<^verbatim>\<open>Sources\<close> is what the items of a chat lead to:
    \<^verbatim>\<open>get_sources_from_items\<close> and \<^verbatim>\<open>filter_accessible_collections\<close>.
  \<^item> \<^verbatim>\<open>Rate_Limit\<close> is \<^verbatim>\<open>utils/rate_limit.py\<close>; \<^verbatim>\<open>Tasks\<close> is \<^verbatim>\<open>tasks.py\<close>; \<^verbatim>\<open>Redis_State\<close> is
    \<^verbatim>\<open>socket/utils.py\<close>.

  \<^bold>\<open>What the lemmas show.\<close> Access: every way of asking for access (one check, a batch, a listing
  filter, the list of users) agrees with every other, the forms that set grants and memberships
  have exactly the described effect, a user hands out no more than his permissions allow, a file is open for
  changes only through its owner, folders inherit access along their parents, and deleting a
  folder removes its subtree and nothing else. Tools: under every interleaving of a batch the
  quotas, attempts and budgets hold and results come in the order of the calls; a query that
  passes the SQL policy is one admitted read. Conversations: both passes over tool calls pair
  them and keep what is paired; reading a branch ends even on a cycle; compaction cuts where it
  says and what it returns and summarises is what follows the last checkpoint. Shared state: the
  rolling limiter counts exactly the window, compaction of document updates keeps the document.
  Streams: short lines pass however they are cut; the events made of any chunks follow the
  protocol of the Messages API, whose texts and calls come back from both conversions; the deltas of a
  streamed answer give its calls, reasoning and text in the order they were sent, however its tags are
  cut. Requests: a
  template replaces exactly its placeholders, a parameter lands where its provider reads it, and
  converted messages have the types of their schema. Knowledge bases: the directories stay a
  forest, moving and deleting have exactly the described effect, the comparison with a local folder
  is empty exactly when both agree, and no command reveals anything of a file out of reach.
  Automations: polls claim what is due once and in order, and nobody changes those of others. Data
  connections: the table holds no secrets and the answers show nothing of the references to them.
  Retrieval: preparing chunks keeps their text, merged results are the best ones, and the sources of
  a chat show nothing that the user may not read. The
  findings are theorems too: what the
  code does on a folder below itself, on tasks stopped together, on a renewed lock, on the
  messages between a compaction's cut and its checkpoint.

  \<^bold>\<open>Bounds and fuel.\<close> \<open>json_loads\<close> runs the parser with fuel twice the text's length plus two,
  more than the nesting a text of that length can have, and \<open>json_loads_dumps\<close> proves that it
  suffices for every written value. The walk over subfolders is a \<open>partial_function (option)\<close>:
  that it returns is a theorem on folders without a cycle, that it does not on others is one too.
  The recursive check of folder access has the interpreter's recursion limit as its fuel and
  raises \<open>RecursionError\<close> when it is spent; the deletion of children has a fuel that the theorem
  relates to the depth of the folders; the walks over the directories of a knowledge base likewise.
  The walks that the code guards with a set of seen ids are total functions. The handler of tags
  calls itself on the text after a start tag, with the recursion limit as its fuel; two levels are enough for
  the theorem on tags. Sets in shell patterns are parsed with their length as fuel.

  \<^bold>\<open>Parameters.\<close> The SQL parser (\<open>sql_ops\<close>), the vector store and the reading of pages (\<open>source_env\<close>), the Redis commands (\<open>key_ops\<close>, \<open>hash_ops\<close>,
  \<open>redis_counter\<close>), the document library (\<open>doc_ops\<close>), the rounding of floats (\<open>float_ops\<close>,
  \<open>float_div\<close>), the engine of regular expressions, the order in which a set is gone through,
  whether the database enforces foreign keys, the summarising model, clock readings, generated ids, recurrence rules, time zones and settings are arguments.
  What the properties need of them is a named hypothesis (\<open>key_laws\<close>, \<open>hash_laws\<close>, \<open>doc_laws\<close>, \<open>rules_ok\<close>, \<open>clock_ok\<close>),
  and each has a witness on a concrete instance.

  \<^bold>\<open>Not modelled.\<close> Network calls, the ORM's generation of SQL, loaders, vector stores, media
  services, OAuth and the assembly of the application: they are calls into libraries with
  little logic of their own. A string's code points end at 255 and case conversion is that of
  ASCII letters.
\<close>

end
